(* ===== verification/System_Interfaces.thy ===== *)
theory System_Interfaces
  imports Esop_Prelude
begin

text \<open>
  Contracts that several components share. \<open>step_system\<close>: a component driven by a
  sequence of operations, with an invariant that every operation keeps; a component that also
  moves a ranking monotonically is a \<open>ranked_system\<close>; one whose operations produce events that a
  simpler machine also produces is a \<open>traced_refinement\<close> of it. \<open>audit_ring\<close>: a fixed array used as a
  ring of the most recent records, as the guard keeps its transitions and its permit
  rejections.
\<close>

section \<open>Components driven by operations\<close>

locale step_system =
  fixes exec :: "'s \<Rightarrow> 'op \<Rightarrow> 's"
    and invar :: "'s \<Rightarrow> bool"
  assumes exec_invar: "invar s \<Longrightarrow> invar (exec s op)"
begin

lemma run_invar: "invar s \<Longrightarrow> invar (foldl exec s ops)"
  by (induction ops arbitrary: s) (auto intro: exec_invar)

end

locale ranked_system = step_system exec invar
  for exec :: "'s \<Rightarrow> 'op \<Rightarrow> 's" and invar :: "'s \<Rightarrow> bool" +
  fixes above :: "'s \<Rightarrow> bool"
  assumes exec_above: "invar s \<Longrightarrow> above s \<Longrightarrow> above (exec s op)"
begin

text \<open>What has once been passed stays passed.\<close>

lemma run_above: "invar s \<Longrightarrow> above s \<Longrightarrow> above (foldl exec s ops)"
  by (induction ops arbitrary: s) (auto intro: exec_above exec_invar)

end

text \<open>Running a machine that answers every operation with an event.\<close>

fun traced :: "('s \<Rightarrow> 'op \<Rightarrow> 's \<times> 'ev) \<Rightarrow> 's \<Rightarrow> 'op list \<Rightarrow> 's \<times> 'ev list" where
  "traced step s [] = (s, [])"
| "traced step s (op # ops) =
     (case step s op of (s1, e) \<Rightarrow> case traced step s1 ops of (s2, es) \<Rightarrow> (s2, e # es))"

lemma length_traced: "traced step s ops = (s', evs) \<Longrightarrow> length evs = length ops"
  by (induction ops arbitrary: s evs) (auto split: prod.splits)

lemma traced_append:
  "traced step s (ops @ ops') = (s', evs) \<longleftrightarrow>
     (\<exists>s1 es es'. traced step s ops = (s1, es) \<and> traced step s1 ops' = (s', es') \<and> evs = es @ es')"
proof (induction ops arbitrary: s evs)
  case (Cons op ops)
  obtain s1 e where "step s op = (s1, e)" by fastforce
  then show ?case using Cons.IH [of s1] by (fastforce split: prod.splits)
qed simp

lemma traced_snoc:
  "traced step s (ops @ [op]) = (s', evs) \<longleftrightarrow>
     (\<exists>s1 es e. traced step s ops = (s1, es) \<and> step s1 op = (s', e) \<and> evs = es @ [e])"
proof -
  have "traced step s1 [op] = (s', es') \<longleftrightarrow> (\<exists>e. step s1 op = (s', e) \<and> es' = [e])" for s1 es'
    by (cases "step s1 op") auto
  then show ?thesis unfolding traced_append by auto
qed

text \<open>One step of a run: the state before it and the event it answers with.\<close>

lemma traced_nth:
  assumes "traced step s ops = (s', evs)" "k < length ops"
  obtains s1 s2 where "traced step s (take k ops) = (s1, take k evs)" "step s1 (ops ! k) = (s2, evs ! k)"
proof -
  have "ops = take k ops @ ops ! k # drop (Suc k) ops" using assms(2) by (rule id_take_nth_drop)
  then obtain s1 es es' where t: "traced step s (take k ops) = (s1, es)"
      "traced step s1 (ops ! k # drop (Suc k) ops) = (s', es')" "evs = es @ es'"
    using assms(1) traced_append [of step s "take k ops"] by metis
  have len: "length es = k" using length_traced [OF t(1)] assms(2) by simp
  from t(2) obtain s2 es'' where "step s1 (ops ! k) = (s2, hd es')" "es' = hd es' # es''"
    by (auto split: prod.splits)
  moreover from this have "evs ! k = hd es'" using t(3) len by (metis nth_append_length)
  moreover have "take k evs = es" using t(3) len by simp
  ultimately show thesis using that t(1) by simp
qed

locale traced_refinement =
  fixes cstep :: "'c \<Rightarrow> 'op \<Rightarrow> 'c \<times> 'ev"
    and astep :: "'a \<Rightarrow> 'op \<Rightarrow> 'a \<times> 'ev"
    and abst :: "'c \<Rightarrow> 'a"
    and invar :: "'c \<Rightarrow> bool"
  assumes step_refines: "invar c \<Longrightarrow> cstep c op = (c', ev) \<Longrightarrow>
      invar c' \<and> astep (abst c) op = (abst c', ev)"
begin

lemma run_refines:
  "invar c \<Longrightarrow> traced cstep c ops = (c', evs) \<Longrightarrow>
     invar c' \<and> traced astep (abst c) ops = (abst c', evs)"
proof (induction ops arbitrary: c evs)
  case (Cons op ops)
  obtain c1 e es where "cstep c op = (c1, e)" "traced cstep c1 ops = (c', es)" "evs = e # es"
    using Cons.prems(2) by (auto split: prod.splits)
  with step_refines [OF Cons.prems(1)] Cons.IH show ?case by fastforce
qed simp

end

section \<open>Rings of recent records\<close>

definition recent :: "nat \<Rightarrow> 'a list \<Rightarrow> 'a list" where
  "recent n xs = drop (length xs - n) xs"

lemma recent_append: "recent n (recent n xs @ ys) = recent n (xs @ ys)"
  by (cases "length xs \<le> n") (auto simp: recent_def add.commute)

lemma recent_all: "length xs \<le> n \<Longrightarrow> recent n xs = xs"
  by (simp add: recent_def)

locale audit_ring =
  fixes cap :: nat
    and entries :: "'s \<Rightarrow> 'e list"
    and head :: "'s \<Rightarrow> nat"
    and count :: "'s \<Rightarrow> nat"
    and append :: "'s \<Rightarrow> 'e \<Rightarrow> 's"
  assumes cap_pos: "0 < cap"
    and entries_append: "entries (append s e) = (entries s)[head s := e]"
    and head_append: "head (append s e) = (head s + 1) mod cap"
    and count_append: "count (append s e) = min (count s + 1) cap"
begin

definition ring_wf :: "'s \<Rightarrow> bool" where
  "ring_wf s \<longleftrightarrow> length (entries s) = cap \<and> head s < cap \<and> count s \<le> cap"

definition entry :: "'s \<Rightarrow> nat \<Rightarrow> 'e" where
  "entry s i = entries s ! (((head s + cap - count s) mod cap + i) mod cap)"

definition view :: "'s \<Rightarrow> 'e list" where
  "view s = map (entry s) [0..<count s]"

lemma append_wf: "ring_wf s \<Longrightarrow> ring_wf (append s e)"
  using cap_pos by (simp add: ring_wf_def entries_append head_append count_append)

lemma length_view: "length (view s) = count s"
  by (simp add: view_def)

text \<open>The physical position of the record \<open>back\<close> steps behind the head.\<close>

lemma entry_back:
  assumes "ring_wf s" "i < count s"
  shows "entry s i = entries s ! ((head s + cap - (count s - i)) mod cap)"
proof -
  have "head s + cap - count s + i = head s + cap - (count s - i)"
    using assms by (simp add: ring_wf_def)
  then show ?thesis
    by (simp add: entry_def mod_add_left_eq)
qed

lemma back_position:
  assumes "h < cap" "0 < b" "b \<le> cap"
  shows "(h + cap - b) mod cap = (if b \<le> h then h - b else h + cap - b)"
  using assms by (auto simp: le_mod_geq)

lemma entry_append_last:
  assumes "ring_wf s"
  shows "entries (append s e) ! ((head (append s e) + cap - 1) mod cap) = e"
proof -
  have "(head (append s e) + cap - 1) mod cap = head s"
    using assms cap_pos back_position [of "head (append s e)" 1]
    by (auto simp: ring_wf_def head_append mod_Suc split: if_splits)
  then show ?thesis
    using assms by (simp add: entries_append ring_wf_def)
qed

lemma entry_append_old:
  assumes "ring_wf s" "0 < b" "b < cap"
  shows "entries (append s e) ! ((head (append s e) + cap - Suc b) mod cap) =
    entries s ! ((head s + cap - b) mod cap)"
proof -
  have h: "head s < cap" using assms(1) by (simp add: ring_wf_def)
  have ne: "(head s + cap - b) mod cap \<noteq> head s"
    using back_position [OF h assms(2)] assms(2,3) h by (auto split: if_splits)
  have "(head (append s e) + cap - Suc b) mod cap = (head s + cap - b) mod cap"
    using h assms(2,3) cap_pos back_position [of "head (append s e)" "Suc b"] back_position [OF h assms(2)]
    by (auto simp: head_append mod_Suc split: if_splits)
  with ne show ?thesis by (simp add: entries_append)
qed

lemma view_append:
  assumes "ring_wf s"
  shows "view (append s e) = recent cap (view s @ [e])"
proof (rule nth_equalityI)
  let ?n = "count (append s e)"
  show "length (view (append s e)) = length (recent cap (view s @ [e]))"
    using assms by (auto simp: length_view recent_def count_append ring_wf_def min_def)
  fix i assume "i < length (view (append s e))"
  then have i: "i < ?n" by (simp add: length_view)
  have n: "?n \<le> cap" "?n = min (Suc (count s)) cap" "count s \<le> cap"
    using assms by (simp_all add: count_append ring_wf_def)
  have lhs: "view (append s e) ! i = entries (append s e) ! ((head (append s e) + cap - (?n - i)) mod cap)"
    using i entry_back [OF append_wf [OF assms]] by (simp add: view_def)
  have drop: "recent cap (view s @ [e]) ! i = (view s @ [e]) ! (Suc (count s) - ?n + i)"
  proof -
    have "length (view s @ [e]) - cap = Suc (count s) - ?n"
      using n by (simp add: length_view)
    moreover have "length (view s @ [e]) - cap \<le> length (view s @ [e])" by simp
    ultimately show ?thesis
      by (simp only: recent_def nth_drop)
  qed
  show "view (append s e) ! i = recent cap (view s @ [e]) ! i"
  proof (cases "?n - i = 1")
    case True
    then have "Suc (count s) - ?n + i = count s" using i n by auto
    with True lhs drop entry_append_last [OF assms] show ?thesis
      by (simp add: nth_append length_view)
  next
    case False
    define b where "b = ?n - i - 1"
    have b: "?n - i = Suc b" "0 < b" "b < cap" using False i n by (auto simp: b_def)
    have le: "b \<le> count s" using n by (auto simp: b_def)
    have pos: "Suc (count s) - ?n + i = count s - b" "count s - b < count s"
      using i n b by (auto simp: b_def)
    have "(view s @ [e]) ! (count s - b) = entry s (count s - b)"
      using pos(2) by (simp add: nth_append length_view view_def)
    also have "\<dots> = entries s ! ((head s + cap - b) mod cap)"
      using entry_back [OF assms pos(2)] by (simp only: diff_diff_cancel [OF le])
    finally show ?thesis
      using lhs drop pos(1) b(1) entry_append_old [OF assms b(2,3)] by simp
  qed
qed

end

end
