(* ===== verification/Fifo_Interface.thy ===== *)
theory Fifo_Interface
  imports System_Interfaces
begin

text \<open>
  The contract of a bounded first-in first-out queue, as the diagnostic queues rely on it.
  The provider is the ring of \<open>ring.rs\<close>; the clients are the event queues of \<open>diag.rs\<close>.
  The lemmas proved from the contract alone are about whole runs of pushes and pops.
\<close>

text \<open>What a pop returns. \<open>PopUninit\<close> stands for reading a slot that holds no value, which is
  undefined behaviour in the source; a provider has to exclude it.\<close>

datatype 'a pop_result = PopEmpty | PopValue 'a | PopUninit

datatype 'a fifo_op = Push 'a | Pop

text \<open>A run of operations: the queue after it, the values that were accepted and the
  values that were delivered, each in order of time.\<close>

fun fifo_run ::
  "('q \<Rightarrow> 'a \<Rightarrow> 'q \<times> ('a, unit) result) \<Rightarrow> ('q \<Rightarrow> 'q \<times> 'a pop_result) \<Rightarrow> 'q \<Rightarrow> 'a fifo_op list \<Rightarrow>
   'q \<times> 'a list \<times> 'a pop_result list" where
  "fifo_run push pop q [] = (q, [], [])"
| "fifo_run push pop q (Push v # ops) =
     (case push q v of (q1, r) \<Rightarrow>
        case fifo_run push pop q1 ops of (q2, acc, del) \<Rightarrow>
          (q2, (if is_ok r then v # acc else acc), del))"
| "fifo_run push pop q (Pop # ops) =
     (case pop q of (q1, r) \<Rightarrow>
        case fifo_run push pop q1 ops of (q2, acc, del) \<Rightarrow>
          (q2, acc, (if r = PopEmpty then del else r # del)))"

text \<open>One operation and its answer, and the queue as its specification: a list of at most \<open>cap\<close>
  elements. \<open>push\<close> refuses an element exactly when the list is full, and gives it back; \<open>pop\<close>
  answers that the queue is empty exactly when it is.\<close>

datatype 'a fifo_answer = PushAnswer "('a, unit) result" | PopAnswer "'a pop_result"

fun fifo_step ::
  "('q \<Rightarrow> 'a \<Rightarrow> 'q \<times> ('a, unit) result) \<Rightarrow> ('q \<Rightarrow> 'q \<times> 'a pop_result) \<Rightarrow> 'q \<Rightarrow> 'a fifo_op \<Rightarrow> 'q \<times> 'a fifo_answer" where
  "fifo_step push pop q (Push v) = (case push q v of (q1, r) \<Rightarrow> (q1, PushAnswer r))"
| "fifo_step push pop q Pop = (case pop q of (q1, r) \<Rightarrow> (q1, PopAnswer r))"

definition list_push :: "nat \<Rightarrow> 'a list \<Rightarrow> 'a \<Rightarrow> 'a list \<times> ('a, unit) result" where
  "list_push cap xs v = (if length xs < cap then (xs @ [v], Ok ()) else (xs, Err v))"

fun list_pop :: "'a list \<Rightarrow> 'a list \<times> 'a pop_result" where
  "list_pop [] = ([], PopEmpty)"
| "list_pop (x # xs) = (xs, PopValue x)"

locale bounded_fifo =
  fixes push :: "'q \<Rightarrow> 'a \<Rightarrow> 'q \<times> ('a, unit) result"
    and pop :: "'q \<Rightarrow> 'q \<times> 'a pop_result"
    and contents :: "'q \<Rightarrow> 'a list"
    and invar :: "'q \<Rightarrow> bool"
    and cap :: nat
  assumes push_space: "invar q \<Longrightarrow> length (contents q) < cap \<Longrightarrow>
      \<exists>q'. push q v = (q', Inr ()) \<and> invar q' \<and> contents q' = contents q @ [v]"
    and push_full: "invar q \<Longrightarrow> cap \<le> length (contents q) \<Longrightarrow> push q v = (q, Inl v)"
    and pop_empty: "invar q \<Longrightarrow> contents q = [] \<Longrightarrow> pop q = (q, PopEmpty)"
    and pop_front: "invar q \<Longrightarrow> contents q = x # xs \<Longrightarrow>
      \<exists>q'. pop q = (q', PopValue x) \<and> invar q' \<and> contents q' = xs"
begin

lemma push_cases:
  assumes "invar q"
  obtains (space) q' where "push q v = (q', Inr ())" "invar q'" "contents q' = contents q @ [v]"
      "length (contents q) < cap"
  | (full) "push q v = (q, Inl v)" "cap \<le> length (contents q)"
  using assms push_space push_full by (metis not_le)

lemma pop_cases:
  assumes "invar q"
  obtains (empty) "pop q = (q, PopEmpty)" "contents q = []"
  | (front) q' x where "pop q = (q', PopValue x)" "invar q'" "contents q = x # contents q'"
  using assms pop_empty pop_front by (cases "contents q") blast+

text \<open>Every operation answers as the list of at most \<open>cap\<close> elements does.\<close>

lemma step_as_list:
  assumes "invar q" "fifo_step push pop q op = (q', answer)"
  shows "invar q' \<and> fifo_step (list_push cap) list_pop (contents q) op = (contents q', answer)"
proof (cases op)
  case (Push v)
  from assms(1) show ?thesis
    by (cases rule: push_cases [where v = v]) (use assms Push in \<open>auto simp: list_push_def\<close>)
next
  case Pop
  from assms(1) show ?thesis
    by (cases rule: pop_cases) (use assms Pop in auto)
qed

text \<open>The run of \<open>fifo_run\<close> and the run with all the answers end in the same queue.\<close>

lemma traced_fifo_run:
  "fst (traced (fifo_step push pop) q ops) = fst (fifo_run push pop q ops)"
proof (induction ops arbitrary: q)
  case (Cons op ops)
  then show ?case by (cases op) (auto split: prod.splits, (metis fst_conv)+)
qed simp

text \<open>Exactly once and in order: what was in the queue and what was accepted is, in this
  order, what was delivered and what is still in the queue; and no delivery is undefined.\<close>

lemma run_exactly_once:
  assumes "invar q" and "fifo_run push pop q ops = (q', acc, del)"
  shows "invar q' \<and> (\<exists>vs. del = map PopValue vs \<and> contents q @ acc = vs @ contents q')"
  using assms
proof (induction ops arbitrary: q acc del)
  case Nil
  then show ?case by simp
next
  case (Cons op ops)
  show ?case
  proof (cases op)
    case (Push v)
    from Cons.prems(1) show ?thesis
    proof (cases rule: push_cases [where v = v])
      case (space q1)
      with Cons.prems(2) Push obtain acc1 where r: "fifo_run push pop q1 ops = (q', acc1, del)"
        and acc: "acc = v # acc1"
        by (auto split: prod.splits)
      from Cons.IH [OF space(2) r] space(3) acc show ?thesis by auto
    next
      case full
      with Cons.prems(2) Push have "fifo_run push pop q ops = (q', acc, del)"
        by (auto split: prod.splits)
      with Cons.IH Cons.prems(1) show ?thesis by blast
    qed
  next
    case Pop
    from Cons.prems(1) show ?thesis
    proof (cases rule: pop_cases)
      case empty
      with Cons.prems(2) Pop have "fifo_run push pop q ops = (q', acc, del)"
        by (auto split: prod.splits)
      with Cons.IH Cons.prems(1) show ?thesis by blast
    next
      case (front q1 x)
      with Cons.prems(2) Pop obtain del1 where r: "fifo_run push pop q1 ops = (q', acc, del1)"
        and del: "del = PopValue x # del1"
        by (auto split: prod.splits)
      from Cons.IH [OF front(2) r] obtain vs where
        "invar q'" "del1 = map PopValue vs" "contents q1 @ acc = vs @ contents q'"
        by blast
      with front(3) del show ?thesis
        by (intro conjI exI [of _ "x # vs"]) auto
    qed
  qed
qed

end

sublocale bounded_fifo \<subseteq> as_list: traced_refinement "fifo_step push pop" "fifo_step (list_push cap) list_pop" contents invar
  by unfold_locales (rule step_as_list)

end
