(* ===== verification/Spsc_Ring.thy ===== *)
theory Spsc_Ring
  imports Fifo_Interface
begin

text \<open>
  The single-producer single-consumer ring of \<open>ring.rs\<close>. A slot is \<open>None\<close> while it is
  uninitialised memory, \<open>Some v\<close> while it holds a value. The cursors are \<open>usize\<close> values that
  are never reduced modulo the capacity: they wrap around at \<open>2 ^ 64\<close>, and the slot of a
  cursor is selected by masking with \<open>N - 1\<close>. The capacity \<open>N\<close> is a parameter of every
  operation, as the const generic is in the source. The operations here are the sequential
  ones; \<open>Spsc_Concurrent\<close> takes them apart into their atomic steps.
\<close>

section \<open>State and operations\<close>

datatype ring_error = CapacityMustBePowerOfTwo

record 'a spsc_ring =
  ring_slots :: "'a option list"
  ring_head :: u64
  ring_tail :: u64

fun is_power_of_two :: "nat \<Rightarrow> bool" where
  "is_power_of_two n =
     (if n = 0 then False else if n = 1 then True else even n \<and> is_power_of_two (n div 2))"

declare is_power_of_two.simps [simp del]

definition ring_empty :: "nat \<Rightarrow> 'a spsc_ring" where
  "ring_empty N = \<lparr>ring_slots = replicate N None, ring_head = 0, ring_tail = 0\<rparr>"

definition spsc_try_new :: "nat \<Rightarrow> (ring_error, 'a spsc_ring) result" where
  "spsc_try_new N =
     (if N = 0 \<or> \<not> is_power_of_two N then Err CapacityMustBePowerOfTwo else Ok (ring_empty N))"

text \<open>\<open>SpscRing::new\<close>; \<open>None\<close> is the panic.\<close>

definition spsc_new :: "nat \<Rightarrow> 'a spsc_ring option" where
  "spsc_new N = (if N = 0 \<or> \<not> is_power_of_two N then None else Some (ring_empty N))"

definition spsc_len :: "nat \<Rightarrow> 'a spsc_ring \<Rightarrow> nat" where
  "spsc_len N r = min (unat (ring_head r - ring_tail r)) N"

definition spsc_is_empty :: "'a spsc_ring \<Rightarrow> bool" where
  "spsc_is_empty r \<longleftrightarrow> ring_head r = ring_tail r"

definition spsc_is_full :: "nat \<Rightarrow> 'a spsc_ring \<Rightarrow> bool" where
  "spsc_is_full N r \<longleftrightarrow> spsc_len N r = N"

definition ring_index :: "nat \<Rightarrow> u64 \<Rightarrow> nat" where
  "ring_index N cursor = unat (cursor AND (of_nat N - 1))"

definition write_slot :: "'a spsc_ring \<Rightarrow> nat \<Rightarrow> 'a \<Rightarrow> 'a spsc_ring" where
  "write_slot r i v = r\<lparr>ring_slots := (ring_slots r)[i := Some v]\<rparr>"

text \<open>\<open>assume_init_read\<close> moves the value out: the slot counts as uninitialised afterwards.\<close>

definition read_slot :: "'a spsc_ring \<Rightarrow> nat \<Rightarrow> 'a spsc_ring \<times> 'a option" where
  "read_slot r i = (r\<lparr>ring_slots := (ring_slots r)[i := None]\<rparr>, ring_slots r ! i)"

definition spsc_push :: "nat \<Rightarrow> 'a spsc_ring \<Rightarrow> 'a \<Rightarrow> 'a spsc_ring \<times> ('a, unit) result" where
  "spsc_push N r v =
     (let head = ring_head r; tail = ring_tail r
      in if N \<le> unat (head - tail) then (r, Err v)
         else ((write_slot r (ring_index N head) v)\<lparr>ring_head := head + 1\<rparr>, Ok ()))"

definition spsc_pop :: "nat \<Rightarrow> 'a spsc_ring \<Rightarrow> 'a spsc_ring \<times> 'a pop_result" where
  "spsc_pop N r =
     (let tail = ring_tail r; head = ring_head r
      in if tail = head then (r, PopEmpty)
         else case read_slot r (ring_index N tail) of (r1, slot) \<Rightarrow>
           (r1\<lparr>ring_tail := tail + 1\<rparr>,
            (case slot of None \<Rightarrow> PopUninit | Some v \<Rightarrow> PopValue v)))"

text \<open>The loop of \<open>Drop\<close>: the slots it drops, in order. \<open>None\<close> in the list would be a drop of
  uninitialised memory.\<close>

function ring_drop_from :: "nat \<Rightarrow> 'a option list \<Rightarrow> u64 \<Rightarrow> u64 \<Rightarrow> 'a option list" where
  "ring_drop_from N slots cursor head =
     (if cursor = head then []
      else slots ! ring_index N cursor # ring_drop_from N slots (cursor + 1) head)"
  by pat_completeness auto
termination
proof (relation "measure (\<lambda>(N, slots, cursor, head). unat (head - cursor))")
  fix N and slots :: "'a option list" and cursor head :: u64
  assume "cursor \<noteq> head"
  then have "unat (head - cursor - 1) < unat (head - cursor)"
    by (metis measure_unat right_minus_eq)
  then show "((N, slots, cursor + 1, head), (N, slots, cursor, head))
      \<in> measure (\<lambda>(N, slots, cursor, head). unat (head - cursor))"
    by (simp add: diff_diff_add)
qed simp

declare ring_drop_from.simps [simp del]

definition spsc_drop :: "nat \<Rightarrow> 'a spsc_ring \<Rightarrow> 'a option list" where
  "spsc_drop N r = ring_drop_from N (ring_slots r) (ring_tail r) (ring_head r)"

section \<open>Abstraction to a list\<close>

definition ring_slot_at :: "nat \<Rightarrow> 'a spsc_ring \<Rightarrow> nat \<Rightarrow> 'a option" where
  "ring_slot_at N r i = ring_slots r ! ring_index N (ring_tail r + of_nat i)"

definition ring_contents :: "nat \<Rightarrow> 'a spsc_ring \<Rightarrow> 'a list" where
  "ring_contents N r = map (\<lambda>i. the (ring_slot_at N r i)) [0..<unat (ring_head r - ring_tail r)]"

definition ring_inv :: "nat \<Rightarrow> 'a spsc_ring \<Rightarrow> bool" where
  "ring_inv N r \<longleftrightarrow>
     is_power_of_two N \<and> N < 2 ^ 64 \<and> length (ring_slots r) = N \<and>
     unat (ring_head r - ring_tail r) \<le> N \<and>
     (\<forall>i < unat (ring_head r - ring_tail r). ring_slot_at N r i \<noteq> None)"

section \<open>Indexing across the wrap-around\<close>

lemma pow2_width: "(2::nat) ^ k < 18446744073709551616 \<Longrightarrow> k < 64"
  using power_less_imp_less_exp [of "2::nat" k 64] by simp

lemma is_power_of_two_iff: "is_power_of_two n \<longleftrightarrow> (\<exists>k. n = 2 ^ k)"
proof
  show "is_power_of_two n \<Longrightarrow> \<exists>k. n = 2 ^ k"
  proof (induction n rule: is_power_of_two.induct)
    case (1 n)
    show ?case
    proof (cases "n = 1")
      case True
      then show ?thesis by (intro exI [of _ 0]) simp
    next
      case False
      with "1.prems" is_power_of_two.simps [of n]
      have "n \<noteq> 0" "even n" "is_power_of_two (n div 2)"
        by (simp_all split: if_splits)
      with "1.IH" False obtain k where "n div 2 = 2 ^ k" by blast
      with \<open>even n\<close> show ?thesis by (intro exI [of _ "Suc k"]) auto
    qed
  qed
next
  assume "\<exists>k. n = 2 ^ k"
  then obtain k where "n = 2 ^ k" ..
  then show "is_power_of_two n"
  proof (induction k arbitrary: n)
    case 0
    then show ?case by (subst is_power_of_two.simps) simp
  next
    case (Suc k)
    then show ?case by (subst is_power_of_two.simps) simp
  qed
qed

lemma ring_index_mod:
  assumes "is_power_of_two N" "N < 2 ^ 64"
  shows "ring_index N c = unat c mod N"
proof -
  from assms(1) obtain k where k: "N = 2 ^ k"
    by (auto simp: is_power_of_two_iff)
  with assms(2) have "k < 64" by (simp add: pow2_width)
  then have "(of_nat N - 1 :: u64) = mask k"
    by (simp add: k mask_eq_exp_minus_1)
  then have "ring_index N c = unat (take_bit k c)"
    by (simp add: ring_index_def take_bit_eq_mask)
  also have "\<dots> = take_bit k (unat c)"
    by (rule unsigned_take_bit_eq)
  finally show ?thesis
    by (simp add: take_bit_eq_mod k)
qed

lemma ring_index_of_nat:
  assumes "is_power_of_two N" "N < 2 ^ 64"
  shows "ring_index N (of_nat n) = n mod N"
proof -
  from assms(1) obtain k where k: "N = 2 ^ k"
    by (auto simp: is_power_of_two_iff)
  with assms(2) have "k < 64" by (simp add: pow2_width)
  then have "(2::nat) ^ k dvd 2 ^ 64" by (intro le_imp_power_dvd) simp
  then have "N dvd 18446744073709551616" by (simp add: k)
  then show ?thesis
    by (simp add: ring_index_mod [OF assms] unat_of_nat mod_mod_cancel)
qed

lemma ring_index_plus:
  assumes "is_power_of_two N" "N < 2 ^ 64"
  shows "ring_index N (t + of_nat i) = (unat t + i) mod N"
  using ring_index_of_nat [OF assms, of "unat t + i"] by simp

lemma mod_add_inj_le:
  fixes i j N t :: nat
  assumes "(t + i) mod N = (t + j) mod N" "i < N" "j < N" "i \<le> j"
  shows "i = j"
proof -
  from assms(1,4) have "N dvd (t + j) - (t + i)"
    by (metis add_left_mono mod_eq_dvd_iff_nat)
  then have "N dvd j - i" by simp
  moreover have "j - i < N" using assms(3) by simp
  ultimately show ?thesis using assms(4) by (auto dest: dvd_imp_le)
qed

lemma mod_add_inj:
  fixes i j N t :: nat
  assumes "(t + i) mod N = (t + j) mod N" "i < N" "j < N"
  shows "i = j"
  using mod_add_inj_le [of t i N j] mod_add_inj_le [of t j N i] assms by linarith

lemmas ring_pow_facts = ring_index_mod ring_index_of_nat ring_index_plus

section \<open>The ring implements a bounded queue\<close>

lemma ring_inv_facts:
  assumes "ring_inv N r"
  shows "is_power_of_two N" "N < 2 ^ 64" "length (ring_slots r) = N" "0 < N"
    "unat (ring_head r - ring_tail r) \<le> N"
  using assms is_power_of_two.simps [of N] by (auto simp: ring_inv_def split: if_splits)

lemma ring_slot_at_mod:
  "ring_inv N r \<Longrightarrow> ring_slot_at N r i = ring_slots r ! ((unat (ring_tail r) + i) mod N)"
  by (simp add: ring_slot_at_def ring_index_plus [OF ring_inv_facts(1,2)])

lemma ring_empty_inv:
  assumes "is_power_of_two N" "N < 2 ^ 64"
  shows "ring_inv N (ring_empty N)" "ring_contents N (ring_empty N) = []"
  using assms by (simp_all add: ring_inv_def ring_empty_def ring_contents_def)

lemma ring_contents_length: "length (ring_contents N r) = unat (ring_head r - ring_tail r)"
  by (simp add: ring_contents_def)

lemma unat_diff_Suc:
  fixes h t :: u64
  assumes "unat (h - t) < N" "N < 2 ^ 64"
  shows "unat (h + 1 - t) = Suc (unat (h - t))"
proof -
  have "h + 1 - t = (h - t) + 1" by (simp add: algebra_simps)
  moreover have "unat ((h - t) + 1) = unat (h - t) + 1"
    using assms by (subst unat_add_lem [THEN iffD1]) auto
  ultimately show ?thesis by (simp only: Suc_eq_plus1)
qed

lemma spsc_push_space:
  assumes inv: "ring_inv N r" and space: "length (ring_contents N r) < N"
  shows "\<exists>r'. spsc_push N r v = (r', Ok ()) \<and> ring_inv N r' \<and>
    ring_contents N r' = ring_contents N r @ [v]"
proof -
  let ?n = "unat (ring_head r - ring_tail r)"
  let ?r = "(write_slot r (ring_index N (ring_head r)) v)\<lparr>ring_head := ring_head r + 1\<rparr>"
  note f = ring_inv_facts [OF inv]
  from space have n: "?n < N" by (simp add: ring_contents_length)
  have push: "spsc_push N r v = (?r, Ok ())"
    using n by (simp add: spsc_push_def Let_def)
  have len: "unat (ring_head ?r - ring_tail ?r) = Suc ?n"
    using n f(2) by (simp add: write_slot_def unat_diff_Suc)
  have head: "ring_index N (ring_head r) = (unat (ring_tail r) + ?n) mod N"
    using ring_index_plus [OF f(1,2), of "ring_tail r" ?n] by simp
  have slot: "ring_slot_at N ?r i = (if i = ?n then Some v else ring_slot_at N r i)" if "i \<le> ?n" for i
  proof -
    have "(unat (ring_tail r) + i) mod N = (unat (ring_tail r) + ?n) mod N \<longleftrightarrow> i = ?n"
      using mod_add_inj [of "unat (ring_tail r)" i N ?n] that n by auto
    then show ?thesis
      using f(3,4) by (auto simp: ring_slot_at_def ring_index_plus [OF f(1,2)] write_slot_def head)
  qed
  have "ring_inv N ?r"
    unfolding ring_inv_def len
  proof (intro conjI allI impI)
    show "ring_slot_at N ?r i \<noteq> None" if "i < Suc ?n" for i
      using slot [of i] that inv by (auto simp: ring_inv_def)
  qed (use f n in \<open>simp_all add: write_slot_def\<close>)
  moreover have "ring_contents N ?r = ring_contents N r @ [v]"
    unfolding ring_contents_def len by (simp add: slot)
  ultimately show ?thesis using push by blast
qed

lemma spsc_push_full:
  assumes "N \<le> length (ring_contents N r)"
  shows "spsc_push N r v = (r, Err v)"
  using assms by (simp add: spsc_push_def ring_contents_length)

lemma spsc_pop_empty:
  assumes "ring_contents N r = []"
  shows "spsc_pop N r = (r, PopEmpty)"
proof -
  from assms have "unat (ring_head r - ring_tail r) = 0"
    by (metis ring_contents_length list.size(3))
  then have "ring_head r = ring_tail r" by (simp add: unat_eq_zero)
  then show ?thesis by (simp add: spsc_pop_def)
qed

lemma unat_pred_diff:
  fixes h t :: u64
  assumes "unat (h - t) = Suc n"
  shows "unat (h - (t + 1)) = n"
proof -
  have "h - t \<noteq> 0" using assms by auto
  then have "unat (h - t - 1) = unat (h - t) - 1" by (rule unat_minus_one)
  with assms show ?thesis by (simp add: diff_diff_add)
qed

lemma spsc_pop_front:
  assumes inv: "ring_inv N r" and c: "ring_contents N r = x # xs"
  shows "\<exists>r'. spsc_pop N r = (r', PopValue x) \<and> ring_inv N r' \<and> ring_contents N r' = xs"
proof -
  let ?r = "(fst (read_slot r (ring_index N (ring_tail r))))\<lparr>ring_tail := ring_tail r + 1\<rparr>"
  note f = ring_inv_facts [OF inv]
  from c have n: "unat (ring_head r - ring_tail r) = Suc (length xs)"
    by (metis ring_contents_length length_Cons)
  then have ne: "ring_tail r \<noteq> ring_head r" by auto
  have len: "unat (ring_head ?r - ring_tail ?r) = length xs"
    using unat_pred_diff [OF n] by (simp add: read_slot_def)
  have i0: "ring_index N (ring_tail r) = unat (ring_tail r) mod N"
    by (rule ring_index_mod [OF f(1,2)])
  have "ring_slot_at N r 0 = Some x"
  proof -
    have "ring_slot_at N r 0 \<noteq> None" using inv n by (simp add: ring_inv_def)
    moreover have "the (ring_slot_at N r 0) = x"
      using c n nth_map [of 0 "[0..<Suc (length xs)]" "\<lambda>i. the (ring_slot_at N r i)"]
      by (simp add: ring_contents_def del: upt_Suc)
    ultimately show ?thesis by auto
  qed
  then have pop: "spsc_pop N r = (?r, PopValue x)"
    using ne by (simp add: spsc_pop_def read_slot_def ring_slot_at_def Let_def)
  have slot: "ring_slot_at N ?r i = ring_slot_at N r (Suc i)" if "i < length xs" for i
  proof -
    have lt: "Suc i < N" using that n f(5) by simp
    have "(unat (ring_tail r) + Suc i) mod N \<noteq> (unat (ring_tail r) + 0) mod N"
      using mod_add_inj [of "unat (ring_tail r)" "Suc i" N 0] lt by auto
    moreover have "ring_index N (ring_tail r + 1 + of_nat i) = (unat (ring_tail r) + Suc i) mod N"
      using ring_index_plus [OF f(1,2), of "ring_tail r" "Suc i"] by (simp add: add.assoc)
    ultimately show ?thesis
      using f(3,4) unfolding ring_slot_at_mod [OF inv, of "Suc i"]
      by (simp add: ring_slot_at_def read_slot_def i0)
  qed
  have "ring_inv N ?r"
    unfolding ring_inv_def len
  proof (intro conjI allI impI)
    show "ring_slot_at N ?r i \<noteq> None" if "i < length xs" for i
      using slot [OF that] that n inv by (simp add: ring_inv_def)
  qed (use f n in \<open>simp_all add: read_slot_def\<close>)
  moreover have "ring_contents N ?r = xs"
  proof -
    have "map (\<lambda>i. the (ring_slot_at N r (Suc i))) [0..<length xs] = xs"
      using c n by (simp add: ring_contents_def map_upt_Suc del: upt_Suc)
    moreover have "ring_contents N ?r = map (\<lambda>i. the (ring_slot_at N r (Suc i))) [0..<length xs]"
      unfolding ring_contents_def len by (rule map_cong [OF refl]) (simp only: slot atLeastLessThan_iff set_upt)
    ultimately show ?thesis by simp
  qed
  ultimately show ?thesis using pop by blast
qed

text \<open>Dropping the ring drops exactly the values that are still queued, oldest first, and
  never touches an uninitialised slot.\<close>

lemma ring_drop_from_contents:
  assumes "\<forall>i < n. slots ! ring_index N (c + of_nat i) \<noteq> None" "unat (h - c) = n"
  shows "ring_drop_from N slots c h =
    map (\<lambda>i. Some (the (slots ! ring_index N (c + of_nat i)))) [0..<n]"
  using assms
proof (induction n arbitrary: c)
  case 0
  then have "c = h" by (simp add: unat_eq_zero)
  then show ?case by (simp add: ring_drop_from.simps [of N slots h h])
next
  case (Suc n)
  have shift: "c + 1 + of_nat i = c + of_nat (Suc i)" for i by simp
  have "ring_drop_from N slots (c + 1) h =
      map (\<lambda>i. Some (the (slots ! ring_index N (c + 1 + of_nat i)))) [0..<n]"
  proof (rule Suc.IH)
    show "\<forall>i<n. slots ! ring_index N (c + 1 + of_nat i) \<noteq> None"
      unfolding shift using Suc.prems(1) by blast
    show "unat (h - (c + 1)) = n"
      using Suc.prems(2) by (rule unat_pred_diff)
  qed
  moreover have "c \<noteq> h" using Suc.prems(2) by auto
  moreover have "slots ! ring_index N c = Some (the (slots ! ring_index N c))"
    using Suc.prems(1) [rule_format, of 0] by auto
  ultimately show ?case
    unfolding shift
    by (simp add: ring_drop_from.simps [of N slots c h] map_upt_Suc del: upt_Suc of_nat_Suc)
qed

lemma spsc_drop_contents:
  assumes "ring_inv N r"
  shows "spsc_drop N r = map Some (ring_contents N r)"
  using assms ring_drop_from_contents [OF _ refl, of "ring_head r" "ring_tail r" "ring_slots r" N]
  by (simp add: spsc_drop_def ring_contents_def ring_inv_def ring_slot_at_def)

interpretation spsc: bounded_fifo "spsc_push N" "spsc_pop N" "ring_contents N" "ring_inv N" N
  by unfold_locales
    (simp_all add: spsc_push_space spsc_push_full spsc_pop_empty spsc_pop_front)

lemma spsc_len_contents: "ring_inv N r \<Longrightarrow> spsc_len N r = length (ring_contents N r)"
  by (simp add: spsc_len_def ring_contents_length ring_inv_def)

lemma spsc_is_empty_contents: "spsc_is_empty r \<longleftrightarrow> ring_contents N r = []"
  by (simp add: spsc_is_empty_def ring_contents_def unat_eq_zero)

lemma spsc_try_new_ok:
  assumes "spsc_try_new N = Ok r" "N < 2 ^ 64"
  shows "ring_inv N r \<and> ring_contents N r = []"
  using assms by (auto simp: spsc_try_new_def ring_empty_inv split: if_splits)

section \<open>Properties\<close>

text \<open>C1. The ring is a bounded queue that delivers exactly once and in order. Starting from any
  well-formed ring of capacity \<open>N\<close>, for every sequence of pushes and pops, whatever the cursors are
  (so across their wrap-around at \<open>2 ^ 64\<close>), every operation answers as the list of at most \<open>N\<close>
  elements does: \<open>push\<close> refuses an element, and gives it back, exactly when \<open>N\<close> elements are queued,
  and \<open>pop\<close> answers empty exactly when none is. The values accepted by \<open>push\<close>, after those queued at the
  start, are in order the values delivered by \<open>pop\<close> followed by those still queued; no pop reads an
  uninitialised slot; the ring stays well-formed; and dropping it at the end drops exactly what is left.\<close>

theorem spsc_exactly_once:
  assumes "ring_inv N r"
    and "fifo_run (spsc_push N) (spsc_pop N) r ops = (r', accepted, delivered)"
  shows "ring_inv N r' \<and>
    (\<exists>vs. delivered = map PopValue vs \<and> ring_contents N r @ accepted = vs @ ring_contents N r') \<and>
    (\<exists>answers. traced (fifo_step (spsc_push N) (spsc_pop N)) r ops = (r', answers) \<and>
       traced (fifo_step (list_push N) list_pop) (ring_contents N r) ops = (ring_contents N r', answers)) \<and>
    spsc_drop N r' = map Some (ring_contents N r')"
proof -
  obtain answers where run: "traced (fifo_step (spsc_push N) (spsc_pop N)) r ops = (r', answers)"
    using spsc.traced_fifo_run [of N r ops] assms(2) by (metis eq_fst_iff fst_conv)
  from spsc.as_list.run_refines [OF assms(1) run] spsc.run_exactly_once [OF assms] run show ?thesis
    using spsc_drop_contents by blast
qed

text \<open>A ring of capacity two whose cursors are about to wrap around: three pushes (the last is
  refused) and one pop.\<close>

definition wrapping_ring :: "nat spsc_ring" where
  "wrapping_ring = \<lparr>ring_slots = [None, None], ring_head = - 1, ring_tail = - 1\<rparr>"

definition wrapped_ring :: "nat spsc_ring" where
  "wrapped_ring = \<lparr>ring_slots = [Some 8, None], ring_head = 1, ring_tail = 0\<rparr>"

lemma wrapping_ring_run:
  "fifo_run (spsc_push 2) (spsc_pop 2) wrapping_ring [Push 7, Push 8, Push 9, Pop] =
     (wrapped_ring, [7, 8], [PopValue 7])"
  by (simp add: wrapping_ring_def wrapped_ring_def spsc_push_def spsc_pop_def write_slot_def
      read_slot_def ring_index_def Let_def)

theorem spsc_exactly_once_witness:
  "ring_inv 2 wrapping_ring \<and> ring_inv 2 wrapped_ring \<and>
   (\<exists>vs. [PopValue 7] = map PopValue vs \<and>
     ring_contents 2 wrapping_ring @ [7, 8] = vs @ ring_contents 2 wrapped_ring) \<and>
   spsc_drop 2 wrapped_ring = map Some (ring_contents 2 wrapped_ring)"
proof -
  have "ring_inv 2 wrapping_ring"
    by (simp add: ring_inv_def wrapping_ring_def is_power_of_two.simps)
  with spsc_exactly_once [OF this wrapping_ring_run] show ?thesis by blast
qed

end
