(* ===== verification/Spsc_Concurrent.thy ===== *)
theory Spsc_Concurrent
  imports Spsc_Ring
begin

text \<open>
  The producer and the consumer of \<open>ring.rs\<close> running concurrently. \<open>push\<close> and \<open>pop\<close> are taken
  apart into their atomic steps (two cursor loads, the slot access, the cursor store), which
  interleave freely; each side runs its own steps in program order. Between the load of the
  peer's cursor and the slot access the value that was loaded may be stale. The atomic
  accesses are interleaved sequentially: the acquire and release orderings of the source give
  the cursor loads and stores at least this meaning for one producer and one consumer.

  The state carries two histories: the values whose push has completed and the values whose
  pop has completed.
\<close>

datatype 'a producer_pc =
    PIdle
  | PHeadLoaded 'a u64
  | PTailLoaded 'a u64 u64
  | PSlotWritten 'a u64

datatype 'a consumer_pc =
    CIdle
  | CTailLoaded u64
  | CHeadLoaded u64 u64
  | CSlotRead u64 "'a option"

record 'a conc =
  conc_ring :: "'a spsc_ring"
  conc_prod :: "'a producer_pc"
  conc_cons :: "'a consumer_pc"
  conc_pushed :: "'a list"
  conc_popped :: "'a option list"

definition conc_init :: "nat \<Rightarrow> 'a conc" where
  "conc_init N = \<lparr>conc_ring = ring_empty N, conc_prod = PIdle, conc_cons = CIdle,
     conc_pushed = [], conc_popped = []\<rparr>"

inductive conc_step :: "nat \<Rightarrow> 'a conc \<Rightarrow> 'a conc \<Rightarrow> bool" for N where
  push_load_head: "conc_prod s = PIdle \<Longrightarrow>
     conc_step N s (s\<lparr>conc_prod := PHeadLoaded v (ring_head (conc_ring s))\<rparr>)"
| push_load_tail: "conc_prod s = PHeadLoaded v h \<Longrightarrow>
     conc_step N s (s\<lparr>conc_prod := PTailLoaded v h (ring_tail (conc_ring s))\<rparr>)"
| push_full: "conc_prod s = PTailLoaded v h t \<Longrightarrow> N \<le> unat (h - t) \<Longrightarrow>
     conc_step N s (s\<lparr>conc_prod := PIdle\<rparr>)"
| push_write: "conc_prod s = PTailLoaded v h t \<Longrightarrow> \<not> N \<le> unat (h - t) \<Longrightarrow>
     conc_step N s (s\<lparr>conc_ring := write_slot (conc_ring s) (ring_index N h) v,
       conc_prod := PSlotWritten v h\<rparr>)"
| push_publish: "conc_prod s = PSlotWritten v h \<Longrightarrow>
     conc_step N s (s\<lparr>conc_ring := (conc_ring s)\<lparr>ring_head := h + 1\<rparr>,
       conc_prod := PIdle, conc_pushed := conc_pushed s @ [v]\<rparr>)"
| pop_load_tail: "conc_cons s = CIdle \<Longrightarrow>
     conc_step N s (s\<lparr>conc_cons := CTailLoaded (ring_tail (conc_ring s))\<rparr>)"
| pop_load_head: "conc_cons s = CTailLoaded t \<Longrightarrow>
     conc_step N s (s\<lparr>conc_cons := CHeadLoaded t (ring_head (conc_ring s))\<rparr>)"
| pop_empty: "conc_cons s = CHeadLoaded t h \<Longrightarrow> t = h \<Longrightarrow>
     conc_step N s (s\<lparr>conc_cons := CIdle\<rparr>)"
| pop_read: "conc_cons s = CHeadLoaded t h \<Longrightarrow> t \<noteq> h \<Longrightarrow>
     read_slot (conc_ring s) (ring_index N t) = (r, x) \<Longrightarrow>
     conc_step N s (s\<lparr>conc_ring := r, conc_cons := CSlotRead t x\<rparr>)"
| pop_publish: "conc_cons s = CSlotRead t x \<Longrightarrow>
     conc_step N s (s\<lparr>conc_ring := (conc_ring s)\<lparr>ring_tail := t + 1\<rparr>,
       conc_cons := CIdle, conc_popped := conc_popped s @ [x]\<rparr>)"

inductive conc_reachable :: "nat \<Rightarrow> 'a conc \<Rightarrow> bool" for N where
  start: "is_power_of_two N \<Longrightarrow> N < 2 ^ 64 \<Longrightarrow> conc_reachable N (conc_init N)"
| step: "conc_reachable N s \<Longrightarrow> conc_step N s s' \<Longrightarrow> conc_reachable N s'"

section \<open>Invariant\<close>

text \<open>The cursors are the lengths of the histories, reduced modulo \<open>2 ^ 64\<close>. \<open>read_upto\<close> is the
  first position whose slot still belongs to the consumer: a value that has been moved out but
  not yet acknowledged does not count.\<close>

definition n_pushed :: "'a conc \<Rightarrow> nat" where
  "n_pushed s = length (conc_pushed s)"

definition n_popped :: "'a conc \<Rightarrow> nat" where
  "n_popped s = length (conc_popped s)"

definition read_upto :: "'a conc \<Rightarrow> nat" where
  "read_upto s = (case conc_cons s of CSlotRead _ _ \<Rightarrow> Suc (n_popped s) | _ \<Rightarrow> n_popped s)"

definition conc_shape :: "nat \<Rightarrow> 'a conc \<Rightarrow> bool" where
  "conc_shape N s \<longleftrightarrow>
     is_power_of_two N \<and> N < 2 ^ 64 \<and> length (ring_slots (conc_ring s)) = N \<and>
     ring_head (conc_ring s) = of_nat (n_pushed s) \<and> ring_tail (conc_ring s) = of_nat (n_popped s) \<and>
     read_upto s \<le> n_pushed s \<and> n_pushed s \<le> n_popped s + N \<and>
     conc_popped s = map Some (take (n_popped s) (conc_pushed s))"

definition conc_queued :: "nat \<Rightarrow> 'a conc \<Rightarrow> bool" where
  "conc_queued N s \<longleftrightarrow> (\<forall>i. read_upto s \<le> i \<and> i < n_pushed s \<longrightarrow>
     ring_slots (conc_ring s) ! (i mod N) = Some (conc_pushed s ! i))"

definition producer_inv :: "nat \<Rightarrow> 'a conc \<Rightarrow> bool" where
  "producer_inv N s \<longleftrightarrow>
     (case conc_prod s of
        PIdle \<Rightarrow> True
      | PHeadLoaded v h \<Rightarrow> h = of_nat (n_pushed s)
      | PTailLoaded v h t \<Rightarrow> h = of_nat (n_pushed s) \<and>
          (\<exists>T. t = of_nat T \<and> T \<le> n_popped s \<and> n_pushed s \<le> T + N)
      | PSlotWritten v h \<Rightarrow> h = of_nat (n_pushed s) \<and> n_pushed s < n_popped s + N \<and>
          ring_slots (conc_ring s) ! (n_pushed s mod N) = Some v)"

definition consumer_inv :: "nat \<Rightarrow> 'a conc \<Rightarrow> bool" where
  "consumer_inv N s \<longleftrightarrow>
     (case conc_cons s of
        CIdle \<Rightarrow> True
      | CTailLoaded t \<Rightarrow> t = of_nat (n_popped s)
      | CHeadLoaded t h \<Rightarrow> t = of_nat (n_popped s) \<and>
          (\<exists>H. h = of_nat H \<and> n_popped s \<le> H \<and> H \<le> n_pushed s)
      | CSlotRead t x \<Rightarrow> t = of_nat (n_popped s) \<and> x = Some (conc_pushed s ! n_popped s))"

definition conc_inv :: "nat \<Rightarrow> 'a conc \<Rightarrow> bool" where
  "conc_inv N s \<longleftrightarrow> conc_shape N s \<and> conc_queued N s \<and> producer_inv N s \<and> consumer_inv N s"

lemmas conc_defs = conc_inv_def conc_shape_def conc_queued_def producer_inv_def consumer_inv_def
  n_pushed_def n_popped_def read_upto_def

lemma n_pushed_frame [simp]:
  "n_pushed (s\<lparr>conc_ring := r\<rparr>) = n_pushed s" "n_pushed (s\<lparr>conc_prod := p\<rparr>) = n_pushed s"
  "n_pushed (s\<lparr>conc_cons := c\<rparr>) = n_pushed s" "n_pushed (s\<lparr>conc_popped := xs\<rparr>) = n_pushed s"
  "n_pushed (s\<lparr>conc_pushed := vs\<rparr>) = length vs"
  by (simp_all add: n_pushed_def)

lemma n_popped_frame [simp]:
  "n_popped (s\<lparr>conc_ring := r\<rparr>) = n_popped s" "n_popped (s\<lparr>conc_prod := p\<rparr>) = n_popped s"
  "n_popped (s\<lparr>conc_cons := c\<rparr>) = n_popped s" "n_popped (s\<lparr>conc_pushed := vs\<rparr>) = n_popped s"
  "n_popped (s\<lparr>conc_popped := xs\<rparr>) = length xs"
  by (simp_all add: n_popped_def)

lemma read_upto_frame [simp]:
  "read_upto (s\<lparr>conc_ring := r\<rparr>) = read_upto s" "read_upto (s\<lparr>conc_prod := p\<rparr>) = read_upto s"
  "read_upto (s\<lparr>conc_pushed := vs\<rparr>) = read_upto s"
  by (simp_all add: read_upto_def cong: consumer_pc.case_cong)

lemma consumer_inv_frame [simp]:
  "consumer_inv N (s\<lparr>conc_ring := r\<rparr>) = consumer_inv N s"
  "consumer_inv N (s\<lparr>conc_prod := p\<rparr>) = consumer_inv N s"
  by (simp_all add: consumer_inv_def cong: consumer_pc.case_cong)

lemma producer_inv_frame [simp]: "producer_inv N (s\<lparr>conc_cons := c\<rparr>) = producer_inv N s"
  by (simp add: producer_inv_def cong: producer_pc.case_cong)

lemma conc_init_inv: "is_power_of_two N \<Longrightarrow> N < 2 ^ 64 \<Longrightarrow> conc_inv N (conc_init N)"
  by (simp add: conc_defs conc_init_def ring_empty_def)

lemma unat_of_nat_diff:
  fixes A B :: nat
  assumes "B \<le> A" "A \<le> B + N" "N < 2 ^ 64"
  shows "unat (of_nat A - of_nat B :: u64) = A - B"
proof -
  have "(of_nat A - of_nat B :: u64) = of_nat (A - B)"
    using assms(1) by simp
  moreover have "A - B < 2 ^ LENGTH(64)"
    using assms by simp
  ultimately show ?thesis
    by (metis unat_of_nat mod_less)
qed

lemma mod_neq_window:
  fixes i j N :: nat
  assumes "i < j" "j < i + N"
  shows "i mod N \<noteq> j mod N"
  using assms mod_eq_dvd_iff_nat [of i j N] by (auto dest: dvd_imp_le)

section \<open>Every atomic step keeps the invariant\<close>

lemma conc_shape_facts:
  assumes "conc_shape N s"
  shows "0 < N" "length (ring_slots (conc_ring s)) = N" "n_popped s \<le> read_upto s"
    "ring_index N (of_nat k) = k mod N"
  using assms is_power_of_two.simps [of N] ring_index_of_nat [of N k]
  by (auto simp: conc_shape_def read_upto_def split: if_splits consumer_pc.splits)

lemma push_write_inv:
  assumes inv: "conc_inv N s" and pc: "conc_prod s = PTailLoaded v h t" and lt: "\<not> N \<le> unat (h - t)"
  shows "conc_inv N (s\<lparr>conc_ring := write_slot (conc_ring s) (ring_index N h) v,
       conc_prod := PSlotWritten v h\<rparr>)" (is "conc_inv N ?s")
proof -
  from inv have sh: "conc_shape N s" by (simp add: conc_inv_def)
  note f = conc_shape_facts [OF sh]
  from inv pc obtain T where h: "h = of_nat (n_pushed s)" and t: "t = of_nat T"
    and T: "T \<le> n_popped s" "n_pushed s \<le> T + N"
    by (auto simp: conc_inv_def producer_inv_def)
  have "T \<le> n_pushed s" using T(1) f(3) sh by (simp add: conc_shape_def)
  with T(2) sh lt h t have space: "n_pushed s < T + N"
    by (simp add: unat_of_nat_diff [of T _ N] conc_shape_def)
  have keep: "i mod N \<noteq> n_pushed s mod N" if "read_upto s \<le> i" "i < n_pushed s" for i
    using mod_neq_window [of i "n_pushed s" N] that space T(1) f(3) by simp
  have ring: "conc_ring ?s = write_slot (conc_ring s) (n_pushed s mod N) v"
    by (simp add: h f(4))
  have "ring_slots (conc_ring ?s) ! (i mod N) = Some (conc_pushed s ! i)"
    if "read_upto s \<le> i" "i < n_pushed s" for i
    using keep [OF that] that inv f(1,2) unfolding ring
    by (simp add: write_slot_def conc_inv_def conc_queued_def)
  moreover have "ring_slots (conc_ring ?s) ! (n_pushed s mod N) = Some v"
    using f(1,2) unfolding ring by (simp add: write_slot_def)
  ultimately show ?thesis
    using inv h space T(1) by (simp add: conc_inv_def conc_shape_def conc_queued_def producer_inv_def
        write_slot_def)
qed

lemma push_publish_inv:
  assumes inv: "conc_inv N s" and pc: "conc_prod s = PSlotWritten v h"
  shows "conc_inv N (s\<lparr>conc_ring := (conc_ring s)\<lparr>ring_head := h + 1\<rparr>,
       conc_prod := PIdle, conc_pushed := conc_pushed s @ [v]\<rparr>)" (is "conc_inv N ?s")
proof -
  from inv pc have h: "h = of_nat (n_pushed s)" and space: "n_pushed s < n_popped s + N"
    and v: "ring_slots (conc_ring s) ! (n_pushed s mod N) = Some v"
    by (auto simp: conc_inv_def producer_inv_def)
  have n: "n_pushed ?s = Suc (n_pushed s)" "n_popped ?s = n_popped s" "read_upto ?s = read_upto s"
    by (simp_all add: n_pushed_def)
  have old: "(conc_pushed s @ [v]) ! i = conc_pushed s ! i" if "i < n_pushed s" for i
    using that by (simp add: nth_append n_pushed_def)
  have le: "n_popped s \<le> n_pushed s"
    using inv conc_shape_facts(3) [of N s] by (simp add: conc_inv_def conc_shape_def)
  have "conc_queued N ?s"
    using inv v old unfolding conc_queued_def conc_inv_def n
    by (auto simp: less_Suc_eq nth_append n_pushed_def)
  moreover have "consumer_inv N ?s"
    using inv old le unfolding conc_inv_def consumer_inv_def n
    by (auto simp: conc_shape_def read_upto_def le_Suc_eq split: consumer_pc.splits)
  moreover have "conc_shape N ?s"
    using inv h space le unfolding conc_inv_def conc_shape_def n
    by (auto simp: n_pushed_def)
  ultimately show ?thesis by (simp add: conc_inv_def producer_inv_def)
qed

lemma pop_read_inv:
  assumes inv: "conc_inv N s" and pc: "conc_cons s = CHeadLoaded t h" and ne: "t \<noteq> h"
    and rd: "read_slot (conc_ring s) (ring_index N t) = (r, x)"
  shows "conc_inv N (s\<lparr>conc_ring := r, conc_cons := CSlotRead t x\<rparr>)" (is "conc_inv N ?s")
proof -
  from inv have sh: "conc_shape N s" by (simp add: conc_inv_def)
  note f = conc_shape_facts [OF sh]
  from inv pc obtain H where t: "t = of_nat (n_popped s)" and h: "h = of_nat H"
    and H: "n_popped s \<le> H" "H \<le> n_pushed s"
    by (auto simp: conc_inv_def consumer_inv_def)
  from ne t h H(1) have lt: "n_popped s < H" by (cases "n_popped s = H") auto
  have upto: "read_upto s = n_popped s" "read_upto ?s = Suc (n_popped s)"
    by (simp_all add: read_upto_def pc)
  have head: "ring_slots (conc_ring s) ! (n_popped s mod N) = Some (conc_pushed s ! n_popped s)"
    using inv lt H(2) upto by (simp add: conc_inv_def conc_queued_def)
  have r: "r = (conc_ring s)\<lparr>ring_slots := (ring_slots (conc_ring s))[n_popped s mod N := None]\<rparr>"
    and x: "x = Some (conc_pushed s ! n_popped s)"
    using rd head by (simp_all add: read_slot_def t f(4))
  have bound: "n_pushed s \<le> n_popped s + N" using sh by (simp add: conc_shape_def)
  have other: "ring_slots r ! (i mod N) = ring_slots (conc_ring s) ! (i mod N)"
    if "Suc (n_popped s) \<le> i" "i < n_pushed s" for i
    using mod_neq_window [of "n_popped s" i N] that bound f(1,2) by (simp add: r)
  have "conc_queued N ?s"
    using inv other upto by (simp add: conc_inv_def conc_queued_def)
  moreover have "conc_shape N ?s"
    using sh lt H(2) upto by (simp add: conc_shape_def r)
  moreover have "consumer_inv N ?s"
    by (simp add: consumer_inv_def t x)
  moreover have "producer_inv N ?s"
  proof (cases "conc_prod s")
    case (PSlotWritten v g)
    with inv have "n_pushed s < n_popped s + N" by (simp add: conc_inv_def producer_inv_def)
    with lt H(2) mod_neq_window [of "n_popped s" "n_pushed s" N]
    have "n_popped s mod N \<noteq> n_pushed s mod N" by simp
    with PSlotWritten inv f(1,2) show ?thesis
      by (simp add: conc_inv_def producer_inv_def r)
  qed (use inv in \<open>auto simp: conc_inv_def producer_inv_def\<close>)
  ultimately show ?thesis by (simp add: conc_inv_def)
qed

lemma pop_publish_inv:
  assumes inv: "conc_inv N s" and pc: "conc_cons s = CSlotRead t x"
  shows "conc_inv N (s\<lparr>conc_ring := (conc_ring s)\<lparr>ring_tail := t + 1\<rparr>,
       conc_cons := CIdle, conc_popped := conc_popped s @ [x]\<rparr>)" (is "conc_inv N ?s")
proof -
  from inv have sh: "conc_shape N s" by (simp add: conc_inv_def)
  from inv pc have t: "t = of_nat (n_popped s)" and x: "x = Some (conc_pushed s ! n_popped s)"
    by (auto simp: conc_inv_def consumer_inv_def)
  have upto: "read_upto s = Suc (n_popped s)" by (simp add: read_upto_def pc)
  have n: "n_popped ?s = Suc (n_popped s)" "read_upto ?s = Suc (n_popped s)"
    by (simp_all add: n_popped_def read_upto_def)
  have "n_popped s < length (conc_pushed s)"
    using sh upto by (simp add: conc_shape_def n_pushed_def)
  then have "conc_popped s @ [x] = map Some (take (Suc (n_popped s)) (conc_pushed s))"
    using sh by (simp add: conc_shape_def x take_Suc_conv_app_nth)
  then have "conc_shape N ?s"
    using sh upto t unfolding conc_shape_def n by simp
  moreover have "conc_queued N ?s"
    using inv upto unfolding conc_inv_def conc_queued_def n by simp
  moreover have "producer_inv N ?s"
    using inv unfolding conc_inv_def producer_inv_def n
    by (auto split: producer_pc.splits)
  ultimately show ?thesis by (simp add: conc_inv_def consumer_inv_def)
qed

lemma push_local_inv:
  assumes "conc_inv N s"
  shows "conc_inv N (s\<lparr>conc_prod := PIdle\<rparr>)"
    "conc_inv N (s\<lparr>conc_prod := PHeadLoaded v (ring_head (conc_ring s))\<rparr>)"
    "conc_prod s = PHeadLoaded v h \<Longrightarrow>
      conc_inv N (s\<lparr>conc_prod := PTailLoaded v h (ring_tail (conc_ring s))\<rparr>)"
  using assms by (auto simp: conc_inv_def conc_shape_def conc_queued_def producer_inv_def)

lemma pop_local_inv:
  assumes "conc_inv N s"
  shows "conc_cons s = CIdle \<Longrightarrow> conc_inv N (s\<lparr>conc_cons := CTailLoaded (ring_tail (conc_ring s))\<rparr>)"
    "conc_cons s = CTailLoaded t \<Longrightarrow>
      conc_inv N (s\<lparr>conc_cons := CHeadLoaded t (ring_head (conc_ring s))\<rparr>)"
    "conc_cons s = CHeadLoaded t h \<Longrightarrow> conc_inv N (s\<lparr>conc_cons := CIdle\<rparr>)"
  using assms by (auto simp: conc_inv_def conc_shape_def conc_queued_def consumer_inv_def read_upto_def)

lemma conc_step_inv: "conc_step N s s' \<Longrightarrow> conc_inv N s \<Longrightarrow> conc_inv N s'"
  by (induction rule: conc_step.induct)
    (auto intro: push_local_inv push_write_inv push_publish_inv pop_local_inv pop_read_inv
      pop_publish_inv)

lemma conc_reachable_inv: "conc_reachable N s \<Longrightarrow> conc_inv N s"
  by (induction rule: conc_reachable.induct) (auto intro: conc_init_inv conc_step_inv)

section \<open>A reachable state in which both sides are about to access a slot\<close>

definition conc_contended :: "nat conc" where
  "conc_contended = \<lparr>conc_ring = \<lparr>ring_slots = [Some 7, None], ring_head = 1, ring_tail = 0\<rparr>,
     conc_prod = PTailLoaded 8 1 0, conc_cons = CHeadLoaded 0 1, conc_pushed = [7],
     conc_popped = []\<rparr>"

lemma conc_contended_reachable: "conc_reachable 2 conc_contended"
proof -
  let ?r0 = "\<lparr>ring_slots = [None, None], ring_head = 0, ring_tail = 0\<rparr> :: nat spsc_ring"
  let ?r1 = "\<lparr>ring_slots = [Some 7, None], ring_head = 0, ring_tail = 0\<rparr> :: nat spsc_ring"
  let ?r2 = "\<lparr>ring_slots = [Some 7, None], ring_head = 1, ring_tail = 0\<rparr> :: nat spsc_ring"
  let ?c = "\<lambda>r p c vs. \<lparr>conc_ring = r, conc_prod = p, conc_cons = c, conc_pushed = vs,
    conc_popped = []\<rparr> :: nat conc"
  have "conc_reachable 2 (conc_init 2 :: nat conc)"
    by (rule conc_reachable.start) (simp_all add: is_power_of_two.simps)
  then have "conc_reachable 2 (?c ?r0 PIdle CIdle [])"
    by (simp add: conc_init_def ring_empty_def numeral_2_eq_2)
  then have "conc_reachable 2 (?c ?r0 (PHeadLoaded 7 0) CIdle [])"
    by (rule conc_reachable.step) (use conc_step.push_load_head [of "?c ?r0 PIdle CIdle []" 2 7] in simp)
  then have "conc_reachable 2 (?c ?r0 (PTailLoaded 7 0 0) CIdle [])"
    by (rule conc_reachable.step)
      (use conc_step.push_load_tail [of "?c ?r0 (PHeadLoaded 7 0) CIdle []" 7 0 2] in simp)
  then have "conc_reachable 2 (?c ?r1 (PSlotWritten 7 0) CIdle [])"
    by (rule conc_reachable.step)
      (use conc_step.push_write [of "?c ?r0 (PTailLoaded 7 0 0) CIdle []" 7 0 0 2]
        in \<open>simp add: write_slot_def ring_index_def\<close>)
  then have "conc_reachable 2 (?c ?r2 PIdle CIdle [7])"
    by (rule conc_reachable.step)
      (use conc_step.push_publish [of "?c ?r1 (PSlotWritten 7 0) CIdle []" 7 0 2] in simp)
  then have "conc_reachable 2 (?c ?r2 (PHeadLoaded 8 1) CIdle [7])"
    by (rule conc_reachable.step) (use conc_step.push_load_head [of "?c ?r2 PIdle CIdle [7]" 2 8] in simp)
  then have "conc_reachable 2 (?c ?r2 (PTailLoaded 8 1 0) CIdle [7])"
    by (rule conc_reachable.step)
      (use conc_step.push_load_tail [of "?c ?r2 (PHeadLoaded 8 1) CIdle [7]" 8 1 2] in simp)
  then have "conc_reachable 2 (?c ?r2 (PTailLoaded 8 1 0) (CTailLoaded 0) [7])"
    by (rule conc_reachable.step)
      (use conc_step.pop_load_tail [of "?c ?r2 (PTailLoaded 8 1 0) CIdle [7]" 2] in simp)
  then have "conc_reachable 2 (?c ?r2 (PTailLoaded 8 1 0) (CHeadLoaded 0 1) [7])"
    by (rule conc_reachable.step)
      (use conc_step.pop_load_head [of "?c ?r2 (PTailLoaded 8 1 0) (CTailLoaded 0) [7]" 0 2] in simp)
  then show ?thesis by (simp add: conc_contended_def)
qed

section \<open>Properties\<close>

text \<open>C2. Concurrent FIFO safety of the ring. In every state that any interleaving of the
  atomic steps of one producer and one consumer can reach, the values taken out so far are, in
  order and each exactly once, an initial segment of the values put in so far, and none of
  them was read from uninitialised memory; at most \<open>N\<close> values are in flight.\<close>

theorem concurrent_fifo:
  assumes "conc_reachable N s"
  shows "conc_popped s = map Some (take (length (conc_popped s)) (conc_pushed s)) \<and>
    length (conc_popped s) \<le> length (conc_pushed s) \<and>
    length (conc_pushed s) \<le> length (conc_popped s) + N"
  using conc_reachable_inv [OF assms] conc_shape_facts(3) [of N s]
  by (simp add: conc_inv_def conc_shape_def n_pushed_def n_popped_def)

theorem concurrent_fifo_witness:
  "conc_popped conc_contended = map Some (take 0 [7]) \<and> length (conc_pushed conc_contended) \<le> 0 + 2"
  using concurrent_fifo [OF conc_contended_reachable] by (simp add: conc_contended_def)

text \<open>C3. No data race on a slot. In every reachable state in which the producer is about to
  write a slot and the consumer is about to read one, possibly both on stale copies of the
  peer's cursor, the two slots are different.\<close>

theorem concurrent_no_slot_race:
  assumes "conc_reachable N s"
    and "conc_prod s = PTailLoaded v h t" and "\<not> N \<le> unat (h - t)"
    and "conc_cons s = CHeadLoaded t' h'" and "t' \<noteq> h'"
  shows "ring_index N h \<noteq> ring_index N t'"
proof -
  from assms(1) have inv: "conc_inv N s" by (rule conc_reachable_inv)
  then have sh: "conc_shape N s" by (simp add: conc_inv_def)
  note f = conc_shape_facts [OF sh]
  from inv assms(2) obtain T where h: "h = of_nat (n_pushed s)" and t: "t = of_nat T"
    and T: "T \<le> n_popped s" "n_pushed s \<le> T + N"
    by (auto simp: conc_inv_def producer_inv_def)
  from inv assms(4) obtain H where t': "t' = of_nat (n_popped s)" and h': "h' = of_nat H"
    and H: "n_popped s \<le> H" "H \<le> n_pushed s"
    by (auto simp: conc_inv_def consumer_inv_def)
  from assms(5) t' h' H(1) have "n_popped s < H" by (cases "n_popped s = H") auto
  with H(2) have lt: "n_popped s < n_pushed s" by simp
  with T assms(3) sh h t have "n_pushed s < n_popped s + N"
    by (simp add: unat_of_nat_diff [of T _ N] conc_shape_def)
  with lt mod_neq_window [of "n_popped s" "n_pushed s" N] show ?thesis
    by (simp add: h t' f(4))
qed

theorem concurrent_no_slot_race_witness: "ring_index 2 1 \<noteq> ring_index 2 0"
  by (rule concurrent_no_slot_race [OF conc_contended_reachable, of 8 1 0 0 1])
    (simp_all add: conc_contended_def)

end
