(* ===== verification/Guard_Types.thy ===== *)
theory Guard_Types
  imports Esop_Prelude
begin

text \<open>
  The data of the lifecycle guard (\<open>esop-lifecycle-guard/src/lib.rs\<close>): the gates and their
  failure classes, the frozen policies, permits, observations, audit records and the state of
  the guard itself. Each struct is a record whose fields carry a short prefix and the name of
  the source.
\<close>

definition MAX_GATES :: nat where "MAX_GATES = 16"
definition MAX_MOTION_AXES :: nat where "MAX_MOTION_AXES = 32"
definition MAX_TRANSITIONS :: nat where "MAX_TRANSITIONS = 16"
definition MAX_PERMIT_AUDITS :: nat where "MAX_PERMIT_AUDITS = 16"
definition STOP_TIMEOUT_FAULT_CODE :: u32 where "STOP_TIMEOUT_FAULT_CODE = 0x53540001"
definition UNAVAILABLE_GATE_FAULT_CODE_PREFIX :: u32 where
  "UNAVAILABLE_GATE_FAULT_CODE_PREFIX = 0x47410000"

lemmas guard_consts = MAX_GATES_def MAX_MOTION_AXES_def MAX_TRANSITIONS_def MAX_PERMIT_AUDITS_def

datatype gate_id = Platform | Configuration | Topology | Link | Domain | DistributedClock | Drive
  | Command | Supervisor | Budget | ExternalSafety | HostObservation

text \<open>The discriminant, \<open>gate as usize\<close>.\<close>

fun gate_index :: "gate_id \<Rightarrow> nat" where
  "gate_index Platform = 0"
| "gate_index Configuration = 1"
| "gate_index Topology = 2"
| "gate_index Link = 3"
| "gate_index Domain = 4"
| "gate_index DistributedClock = 5"
| "gate_index Drive = 6"
| "gate_index Command = 7"
| "gate_index Supervisor = 8"
| "gate_index Budget = 9"
| "gate_index ExternalSafety = 10"
| "gate_index HostObservation = 11"

definition gate_bit :: "gate_id \<Rightarrow> u16" where
  "gate_bit g = push_bit (gate_index g) 1"

datatype gate_failure_class = ControlledStop | HardLatch

fun failure_class :: "gate_id \<Rightarrow> gate_failure_class" where
  "failure_class Platform = HardLatch"
| "failure_class Configuration = HardLatch"
| "failure_class Topology = HardLatch"
| "failure_class Drive = HardLatch"
| "failure_class Budget = HardLatch"
| "failure_class ExternalSafety = HardLatch"
| "failure_class Link = ControlledStop"
| "failure_class Domain = ControlledStop"
| "failure_class DistributedClock = ControlledStop"
| "failure_class Command = ControlledStop"
| "failure_class Supervisor = ControlledStop"
| "failure_class HostObservation = ControlledStop"

datatype stop_action = Hold | RampToZero | QuickStop | Disable

datatype axis_stop_policy_error = InvalidAxis

type_synonym axis_stop_policy = "stop_action list"

definition axis_stop_policy_uniform :: "stop_action \<Rightarrow> axis_stop_policy" where
  "axis_stop_policy_uniform a = replicate MAX_MOTION_AXES a"

definition axis_stop_policy_with_action ::
  "axis_stop_policy \<Rightarrow> nat \<Rightarrow> stop_action \<Rightarrow> (axis_stop_policy_error, axis_stop_policy) result" where
  "axis_stop_policy_with_action p axis a =
     (if axis < length p then Ok (p[axis := a]) else Err InvalidAxis)"

definition axis_stop_policy_action :: "axis_stop_policy \<Rightarrow> nat \<Rightarrow> stop_action option" where
  "axis_stop_policy_action p axis = (if axis < MAX_MOTION_AXES then Some (p ! axis) else None)"

datatype observation_state = Healthy | Degraded | Failed

record host_observation =
  ho_boot_id :: u64
  ho_agent_epoch :: u64
  ho_heartbeat_seq :: u64
  ho_observed_at_ns :: u64
  ho_state :: observation_state
  ho_reserved :: bytes
  ho_attach_mask :: u64
  ho_lost_event_count :: u32
  ho_incident_count :: u32
  ho_fault_code :: u32

datatype host_observation_error = BootMismatch | FutureTimestamp | Stale | EpochReplayed
  | HeartbeatReplayed

record guard_policy =
  gp_enter_good_cycles :: u16
  gp_exit_bad_cycles :: u16
  gp_max_age_cycles :: u64
  gp_stop_timeout_cycles :: u64
  gp_stop_action :: stop_action
  gp_authorized_source_id :: u64
  gp_minimum_authority :: u8
  gp_permit_policy_version :: u32
  gp_allowed_axis_mask :: u32

definition guard_policy_conservative :: guard_policy where
  "guard_policy_conservative = \<lparr>gp_enter_good_cycles = 3, gp_exit_bad_cycles = 2,
     gp_max_age_cycles = 1, gp_stop_timeout_cycles = 1000, gp_stop_action = QuickStop,
     gp_authorized_source_id = 1, gp_minimum_authority = 1, gp_permit_policy_version = 1,
     gp_allowed_axis_mask = 0\<rparr>"

definition guard_policy_normalized :: "guard_policy \<Rightarrow> guard_policy" where
  "guard_policy_normalized p = p\<lparr>
     gp_enter_good_cycles := (if gp_enter_good_cycles p = 0 then 1 else gp_enter_good_cycles p),
     gp_exit_bad_cycles := (if gp_exit_bad_cycles p = 0 then 1 else gp_exit_bad_cycles p),
     gp_stop_timeout_cycles := (if gp_stop_timeout_cycles p = 0 then 1 else gp_stop_timeout_cycles p)\<rparr>"

record cyclic_quality =
  cq_platform_ready :: bool
  cq_coe_ready :: bool
  cq_topology_valid :: bool
  cq_distributed_clock_locked :: bool
  cq_drive_ready :: bool
  cq_domain_valid :: bool
  cq_wkc_valid :: bool
  cq_command_current :: bool
  cq_supervisor_healthy :: bool
  cq_external_safety_clear :: bool
  cq_cycle_within_budget :: bool

datatype lifecycle_state = Qualifying | Ready | Active | Stopping | FaultLatched | Maintenance

record stop_feedback =
  sf_cycle :: u64
  sf_observed_axis_mask :: u32
  sf_stationary_axis_mask :: u32
  sf_non_enabled_axis_mask :: u32

definition stop_feedback_empty :: "u64 \<Rightarrow> stop_feedback" where
  "stop_feedback_empty c = \<lparr>sf_cycle = c, sf_observed_axis_mask = 0, sf_stationary_axis_mask = 0,
     sf_non_enabled_axis_mask = 0\<rparr>"

definition stop_feedback_merge :: "stop_feedback \<Rightarrow> stop_feedback \<Rightarrow> stop_feedback option" where
  "stop_feedback_merge a b =
     (if sf_cycle a \<noteq> sf_cycle b \<or> sf_observed_axis_mask a AND sf_observed_axis_mask b \<noteq> 0 then None
      else Some \<lparr>sf_cycle = sf_cycle a,
        sf_observed_axis_mask = sf_observed_axis_mask a OR sf_observed_axis_mask b,
        sf_stationary_axis_mask = sf_stationary_axis_mask a OR sf_stationary_axis_mask b,
        sf_non_enabled_axis_mask = sf_non_enabled_axis_mask a OR sf_non_enabled_axis_mask b\<rparr>)"

record stop_timeout_record =
  st_cycle :: u64
  st_transition_sequence :: u64
  st_first_issued_cycle :: "u64 option"
  st_axis_mask :: u32
  st_actions :: "stop_action list"

definition stop_timeout_requested_action :: "stop_timeout_record \<Rightarrow> nat \<Rightarrow> stop_action option" where
  "stop_timeout_requested_action r axis =
     (if axis < MAX_MOTION_AXES \<and> st_axis_mask r AND push_bit axis 1 \<noteq> 0
      then Some (st_actions r ! axis) else None)"

record lifecycle_transition =
  lt_sequence :: u64
  lt_cycle :: u64
  lt_from :: lifecycle_state
  lt_to :: lifecycle_state
  lt_fault_code :: u32
  lt_reserved :: u32

definition lifecycle_transition_empty :: lifecycle_transition where
  "lifecycle_transition_empty = \<lparr>lt_sequence = 0, lt_cycle = 0, lt_from = Qualifying,
     lt_to = Qualifying, lt_fault_code = 0, lt_reserved = 0\<rparr>"

datatype lifecycle_action = LaHold | LaEnableAllowed | LaStop stop_action | LaFaultLatched

datatype axis_directive = Inhibit | EnableAllowed | Stop stop_action

record gate_status =
  gs_valid :: bool
  gs_qualified :: bool
  gs_good_cycles :: u16
  gs_bad_cycles :: u16
  gs_last_update_cycle :: u64
  gs_fault_code :: u32

definition gate_status_empty :: gate_status where
  "gate_status_empty = \<lparr>gs_valid = False, gs_qualified = False, gs_good_cycles = 0,
     gs_bad_cycles = 0, gs_last_update_cycle = 0, gs_fault_code = 0\<rparr>"

record motion_permit =
  mp_boot_id :: u64
  mp_source_id :: u64
  mp_permit_epoch :: u64
  mp_sequence :: u64
  mp_expires_at_ns :: u64
  mp_axis_mask :: u32
  mp_authority :: u8
  mp_reserved :: bytes
  mp_policy_version :: u32

datatype permit_error = PeBootMismatch | PeSourceUnauthorized | PeAuthorityInsufficient
  | PePolicyVersionMismatch | PeExpired | PeEmptyAxisMask | PeEpochReplayed | PeSequenceReplayed
  | PeAxisOutsidePolicy | PeAxisMaskChanged

record permit_audit =
  pa_sequence :: u64
  pa_timestamp_ns :: u64
  pa_source_id :: u64
  pa_permit_epoch :: u64
  pa_permit_sequence :: u64
  pa_error :: permit_error
  pa_reserved :: bytes

definition permit_audit_empty :: permit_audit where
  "permit_audit_empty = \<lparr>pa_sequence = 0, pa_timestamp_ns = 0, pa_source_id = 0,
     pa_permit_epoch = 0, pa_permit_sequence = 0, pa_error = PeBootMismatch,
     pa_reserved = replicate 7 0\<rparr>"

datatype lifecycle_error = InvalidState | NotReady | InvalidStopFeedback | StopTimedOut
  | PermitRejected permit_error

record lifecycle_guard =
  lg_policy :: guard_policy
  lg_axis_stop_policy :: axis_stop_policy
  lg_required_mask :: u16
  lg_gates :: "gate_status list"
  lg_boot_id :: u64
  lg_permit :: "motion_permit option"
  lg_permit_epoch :: u64
  lg_last_permit_sequence :: u64
  lg_state :: lifecycle_state
  lg_state_since_cycle :: u64
  lg_motion_axes_mask :: u32
  lg_stop_started_cycle :: "u64 option"
  lg_stop_issued_cycle :: "u64 option"
  lg_stop_timeout_record :: "stop_timeout_record option"
  lg_pending_stop_timeout_events_mask :: u32
  lg_maintenance_stop_pending :: bool
  lg_pending_fault_code :: "u32 option"
  lg_requalify_after_cycle :: "u64 option"
  lg_first_fault_code :: u32
  lg_latched_fault_code :: u32
  lg_recovery_count :: u64
  lg_transitions :: "lifecycle_transition list"
  lg_transition_head :: nat
  lg_transition_count :: nat
  lg_transition_sequence :: u64
  lg_host_observation :: "host_observation option"
  lg_host_observation_epoch :: u64
  lg_host_heartbeat_seq :: u64
  lg_permit_audits :: "permit_audit list"
  lg_permit_audit_head :: nat
  lg_permit_audit_count :: nat
  lg_permit_audit_sequence :: u64

record lifecycle_snapshot =
  ls_state :: lifecycle_state
  ls_stop_action :: stop_action
  ls_state_since_cycle :: u64
  ls_required_gate_mask :: u16
  ls_valid_gate_mask :: u16
  ls_qualified_gate_mask :: u16
  ls_ready_gate_mask :: u16
  ls_first_blocking_code :: u32
  ls_latched_fault_code :: u32
  ls_motion_permit_current :: bool
  ls_permit_epoch :: u64
  ls_permit_expires_at_ns :: u64
  ls_transition_sequence :: u64
  ls_transition_cycle :: u64
  ls_recovery_count :: u64
  ls_permit_audit_sequence :: u64

text \<open>The cycle owner's decision: it borrows the guard mutably until it is dropped, so the
  guard it holds is the only copy.\<close>

record axis_cycle_decision =
  acd_guard :: lifecycle_guard
  acd_action :: lifecycle_action
  acd_cycle :: u64
  acd_stop_transmitted :: bool

end
