(* ===== verification/Guard_Model.thy ===== *)
theory Guard_Model
  imports Guard_Types
begin

text \<open>
  The operations of the lifecycle guard, in the order of the source. A method with
  \<open>&mut self\<close> returns the new guard; one that also returns a result returns the pair. The
  audit rings are fixed arrays with a head and a count. \<open>guard_exec\<close> at the end collects the
  operations that the cycle owner and the supervisor call, so that a history of the guard is
  a list of operations.
\<close>

section \<open>Construction and audit rings\<close>

definition guard_new_with_axis_stop_policy ::
  "u16 \<Rightarrow> u64 \<Rightarrow> guard_policy \<Rightarrow> axis_stop_policy \<Rightarrow> lifecycle_guard" where
  "guard_new_with_axis_stop_policy required boot policy axis_policy =
     \<lparr>lg_policy = guard_policy_normalized policy, lg_axis_stop_policy = axis_policy,
      lg_required_mask = required, lg_gates = replicate MAX_GATES gate_status_empty,
      lg_boot_id = boot, lg_permit = None, lg_permit_epoch = 0, lg_last_permit_sequence = 0,
      lg_state = Qualifying, lg_state_since_cycle = 0, lg_motion_axes_mask = 0,
      lg_stop_started_cycle = None, lg_stop_issued_cycle = None, lg_stop_timeout_record = None,
      lg_pending_stop_timeout_events_mask = 0, lg_maintenance_stop_pending = False,
      lg_pending_fault_code = None, lg_requalify_after_cycle = None, lg_first_fault_code = 0,
      lg_latched_fault_code = 0, lg_recovery_count = 0,
      lg_transitions = replicate MAX_TRANSITIONS lifecycle_transition_empty,
      lg_transition_head = 0, lg_transition_count = 0, lg_transition_sequence = 0,
      lg_host_observation = None, lg_host_observation_epoch = 0, lg_host_heartbeat_seq = 0,
      lg_permit_audits = replicate MAX_PERMIT_AUDITS permit_audit_empty,
      lg_permit_audit_head = 0, lg_permit_audit_count = 0, lg_permit_audit_sequence = 0\<rparr>"

definition guard_new :: "u16 \<Rightarrow> u64 \<Rightarrow> guard_policy \<Rightarrow> lifecycle_guard" where
  "guard_new required boot policy =
     guard_new_with_axis_stop_policy required boot policy
       (axis_stop_policy_uniform (gp_stop_action policy))"

definition permit_audit_at :: "lifecycle_guard \<Rightarrow> nat \<Rightarrow> permit_audit option" where
  "permit_audit_at g index =
     (if lg_permit_audit_count g \<le> index then None
      else let oldest = (lg_permit_audit_head g + MAX_PERMIT_AUDITS - lg_permit_audit_count g)
             mod MAX_PERMIT_AUDITS
           in Some (lg_permit_audits g ! ((oldest + index) mod MAX_PERMIT_AUDITS)))"

definition transition_at :: "lifecycle_guard \<Rightarrow> nat \<Rightarrow> lifecycle_transition option" where
  "transition_at g index =
     (if lg_transition_count g \<le> index then None
      else let oldest = (lg_transition_head g + MAX_TRANSITIONS - lg_transition_count g)
             mod MAX_TRANSITIONS
           in Some (lg_transitions g ! ((oldest + index) mod MAX_TRANSITIONS)))"

definition transition_with_fault ::
  "lifecycle_guard \<Rightarrow> lifecycle_state \<Rightarrow> u64 \<Rightarrow> u32 \<Rightarrow> lifecycle_guard" where
  "transition_with_fault g state cycle fault_code =
     (if lg_state g \<noteq> state then
        let sequence = sat_add (lg_transition_sequence g) 1; previous = lg_state g
        in g\<lparr>lg_state := state, lg_state_since_cycle := cycle, lg_transition_sequence := sequence,
             lg_transitions := (lg_transitions g)[lg_transition_head g :=
               \<lparr>lt_sequence = sequence, lt_cycle = cycle, lt_from = previous, lt_to = state,
                lt_fault_code = fault_code, lt_reserved = 0\<rparr>],
             lg_transition_head := (lg_transition_head g + 1) mod MAX_TRANSITIONS,
             lg_transition_count := min (lg_transition_count g + 1) MAX_TRANSITIONS\<rparr>
      else g)"

definition transition :: "lifecycle_guard \<Rightarrow> lifecycle_state \<Rightarrow> u64 \<Rightarrow> lifecycle_guard" where
  "transition g state cycle = transition_with_fault g state cycle (lg_first_fault_code g)"

section \<open>Gates\<close>

definition gate_ready :: "lifecycle_guard \<Rightarrow> gate_status \<Rightarrow> u64 \<Rightarrow> bool" where
  "gate_ready g status cycle \<longleftrightarrow>
     gs_qualified status \<and> gs_valid status \<and>
     gp_enter_good_cycles (lg_policy g) \<le> gs_good_cycles status \<and>
     gs_last_update_cycle status \<le> cycle \<and>
     cycle - gs_last_update_cycle status \<le> gp_max_age_cycles (lg_policy g)"

definition gate_active :: "lifecycle_guard \<Rightarrow> gate_status \<Rightarrow> u64 \<Rightarrow> bool" where
  "gate_active g status cycle \<longleftrightarrow>
     gs_qualified status \<and> gs_valid status \<and>
     gs_last_update_cycle status \<le> cycle \<and>
     cycle - gs_last_update_cycle status \<le> gp_max_age_cycles (lg_policy g)"

definition gates_ready :: "lifecycle_guard \<Rightarrow> u64 \<Rightarrow> bool" where
  "gates_ready g cycle \<longleftrightarrow> lg_required_mask g = 0 \<or>
     list_all (\<lambda>index. push_bit index 1 AND lg_required_mask g = 0 \<or>
       gate_ready g (lg_gates g ! index) cycle) [0..<MAX_GATES]"

definition gates_active :: "lifecycle_guard \<Rightarrow> u64 \<Rightarrow> bool" where
  "gates_active g cycle \<longleftrightarrow> lg_required_mask g = 0 \<or>
     list_all (\<lambda>index. push_bit index 1 AND lg_required_mask g = 0 \<or>
       gate_active g (lg_gates g ! index) cycle) [0..<MAX_GATES]"

fun gate_mask :: "(gate_status \<Rightarrow> bool) \<Rightarrow> gate_status list \<Rightarrow> nat \<Rightarrow> u16" where
  "gate_mask p [] index = 0"
| "gate_mask p (status # rest) index =
     (if p status then push_bit index 1 else 0) OR gate_mask p rest (Suc index)"

definition valid_gate_mask :: "lifecycle_guard \<Rightarrow> u16" where
  "valid_gate_mask g = gate_mask gs_valid (lg_gates g) 0"

definition qualified_gate_mask :: "lifecycle_guard \<Rightarrow> u16" where
  "qualified_gate_mask g = gate_mask gs_qualified (lg_gates g) 0"

definition ready_gate_mask :: "lifecycle_guard \<Rightarrow> u64 \<Rightarrow> u16" where
  "ready_gate_mask g cycle = gate_mask (\<lambda>s. gate_ready g s cycle) (lg_gates g) 0"

definition hard_gate_order :: "gate_id list" where
  "hard_gate_order = [ExternalSafety, Budget, Drive, Configuration, Topology, Platform, Link,
     Domain, DistributedClock, Command, Supervisor, HostObservation]"

fun first_hard_fault :: "lifecycle_guard \<Rightarrow> u64 \<Rightarrow> gate_id list \<Rightarrow> u32 option" where
  "first_hard_fault g cycle [] = None"
| "first_hard_fault g cycle (gate # rest) =
     (if lg_required_mask g AND gate_bit gate = 0 \<or> failure_class gate \<noteq> HardLatch
      then first_hard_fault g cycle rest
      else let status = lg_gates g ! gate_index gate
           in if \<not> gate_active g status cycle
              then Some (if \<not> gs_valid status \<and> gs_fault_code status \<noteq> 0 then gs_fault_code status
                else UNAVAILABLE_GATE_FAULT_CODE_PREFIX OR (of_nat (gate_index gate) + 1))
              else first_hard_fault g cycle rest)"

definition hard_required_gate_fault :: "lifecycle_guard \<Rightarrow> u64 \<Rightarrow> u32 option" where
  "hard_required_gate_fault g cycle = first_hard_fault g cycle hard_gate_order"

definition invalidate_gate_qualification :: "lifecycle_guard \<Rightarrow> u64 \<Rightarrow> lifecycle_guard" where
  "invalidate_gate_qualification g cycle = g\<lparr>
     lg_requalify_after_cycle := Some (case lg_requalify_after_cycle g of None \<Rightarrow> cycle
       | Some previous \<Rightarrow> max previous cycle),
     lg_gates := map (\<lambda>status. status\<lparr>gs_valid := False, gs_qualified := False,
       gs_good_cycles := 0, gs_bad_cycles := 0,
       gs_last_update_cycle := max (gs_last_update_cycle status) cycle\<rparr>) (lg_gates g)\<rparr>"

text \<open>The two ways an observation changes the status of its gate.\<close>

definition gate_good :: "guard_policy \<Rightarrow> gate_status \<Rightarrow> u64 \<Rightarrow> gate_status" where
  "gate_good policy status cycle =
     (let good = (if gs_valid status then sat_add (gs_good_cycles status) 1 else 1)
      in status\<lparr>gs_last_update_cycle := cycle, gs_valid := True, gs_good_cycles := good,
           gs_bad_cycles := 0, gs_fault_code := 0,
           gs_qualified := (if gp_enter_good_cycles policy \<le> good then True
             else gs_qualified status)\<rparr>)"

definition gate_bad :: "guard_policy \<Rightarrow> gate_status \<Rightarrow> u64 \<Rightarrow> u32 \<Rightarrow> gate_status" where
  "gate_bad policy status cycle fault_code =
     (let bad = (if gs_valid status then 1 else sat_add (gs_bad_cycles status) 1)
      in status\<lparr>gs_last_update_cycle := cycle, gs_valid := False, gs_good_cycles := 0,
           gs_bad_cycles := bad, gs_fault_code := fault_code,
           gs_qualified := (if gp_exit_bad_cycles policy \<le> bad then False
             else gs_qualified status)\<rparr>)"

definition gate_observed :: "gate_status \<Rightarrow> bool" where
  "gate_observed status \<longleftrightarrow>
     gs_good_cycles status \<noteq> 0 \<or> gs_bad_cycles status \<noteq> 0 \<or> gs_last_update_cycle status \<noteq> 0"

definition update_gate ::
  "lifecycle_guard \<Rightarrow> gate_id \<Rightarrow> bool \<Rightarrow> u64 \<Rightarrow> u32 \<Rightarrow> lifecycle_guard" where
  "update_gate g gate valid cycle fault_code =
     (if (case lg_requalify_after_cycle g of None \<Rightarrow> False | Some boundary \<Rightarrow> cycle \<le> boundary)
      then g
      else let status = lg_gates g ! gate_index gate
        in if gate_observed status \<and> cycle \<le> gs_last_update_cycle status \<and>
              (cycle < gs_last_update_cycle status \<or> \<not> gs_valid status \<or> valid)
           then g
           else if valid
           then g\<lparr>lg_gates := (lg_gates g)[gate_index gate := gate_good (lg_policy g) status cycle]\<rparr>
           else g\<lparr>lg_gates := (lg_gates g)[gate_index gate :=
                    gate_bad (lg_policy g) status cycle fault_code],
                  lg_first_fault_code :=
                    (if lg_required_mask g AND gate_bit gate \<noteq> 0 \<and> lg_first_fault_code g = 0
                     then fault_code else lg_first_fault_code g)\<rparr>)"

definition update_cyclic_quality ::
  "lifecycle_guard \<Rightarrow> cyclic_quality \<Rightarrow> u64 \<Rightarrow> lifecycle_guard" where
  "update_cyclic_quality g q cycle =
     (let g = update_gate g Platform (cq_platform_ready q) cycle 0x504C0001;
          g = update_gate g Configuration (cq_coe_ready q) cycle 0x434F0001;
          g = update_gate g Topology (cq_topology_valid q) cycle 0x544F0001;
          g = update_gate g DistributedClock (cq_distributed_clock_locked q) cycle 0x44430001;
          g = update_gate g Drive (cq_drive_ready q) cycle 0x44520001;
          g = update_gate g Domain (cq_domain_valid q) cycle 0x444F0001;
          g = update_gate g Link (cq_wkc_valid q) cycle 0x574B0001;
          g = update_gate g Command (cq_command_current q) cycle 0x434D0001;
          g = update_gate g Supervisor (cq_supervisor_healthy q) cycle 0x53550001;
          g = update_gate g ExternalSafety (cq_external_safety_clear q) cycle 0x53410001;
          g = update_gate g Budget (cq_cycle_within_budget q) cycle 0x42550001
      in g)"

section \<open>Host observations\<close>

fun host_observation_error_code :: "host_observation_error \<Rightarrow> u32" where
  "host_observation_error_code BootMismatch = 0x484F0001"
| "host_observation_error_code FutureTimestamp = 0x484F0002"
| "host_observation_error_code Stale = 0x484F0003"
| "host_observation_error_code EpochReplayed = 0x484F0004"
| "host_observation_error_code HeartbeatReplayed = 0x484F0005"

definition reject_host_observation ::
  "lifecycle_guard \<Rightarrow> u64 \<Rightarrow> host_observation_error \<Rightarrow>
   lifecycle_guard \<times> (host_observation_error, unit) result" where
  "reject_host_observation g cycle e =
     (update_gate g HostObservation False cycle (host_observation_error_code e), Err e)"

definition update_host_observation ::
  "lifecycle_guard \<Rightarrow> host_observation \<Rightarrow> u64 \<Rightarrow> u64 \<Rightarrow> u64 \<Rightarrow>
   lifecycle_guard \<times> (host_observation_error, unit) result" where
  "update_host_observation g obs cycle now_ns max_age_ns =
     (if ho_boot_id obs \<noteq> lg_boot_id g then reject_host_observation g cycle BootMismatch
      else if now_ns < ho_observed_at_ns obs then reject_host_observation g cycle FutureTimestamp
      else if max_age_ns < sat_sub now_ns (ho_observed_at_ns obs)
      then reject_host_observation g cycle Stale
      else if lg_host_observation g \<noteq> None \<and> ho_agent_epoch obs < lg_host_observation_epoch g
      then reject_host_observation g cycle EpochReplayed
      else if lg_host_observation g \<noteq> None \<and> ho_agent_epoch obs = lg_host_observation_epoch g \<and>
              ho_heartbeat_seq obs \<le> lg_host_heartbeat_seq g
      then reject_host_observation g cycle HeartbeatReplayed
      else
        let g1 = g\<lparr>lg_host_observation_epoch := ho_agent_epoch obs,
                   lg_host_heartbeat_seq := ho_heartbeat_seq obs,
                   lg_host_observation := Some obs\<rparr>;
            valid = (ho_state obs = Healthy);
            fault_code = (if valid then 0
              else if ho_fault_code obs \<noteq> 0 then ho_fault_code obs
              else case ho_state obs of Healthy \<Rightarrow> 0 | Degraded \<Rightarrow> 0x484F1001 | Failed \<Rightarrow> 0x484F1002)
        in (update_gate g1 HostObservation valid cycle fault_code, Ok ()))"

section \<open>Permits\<close>

definition reject_permit ::
  "lifecycle_guard \<Rightarrow> motion_permit \<Rightarrow> u64 \<Rightarrow> permit_error \<Rightarrow>
   lifecycle_guard \<times> (permit_error, unit) result" where
  "reject_permit g permit now_ns e =
     (let sequence = sat_add (lg_permit_audit_sequence g) 1
      in (g\<lparr>lg_permit_audit_sequence := sequence,
            lg_permit_audits := (lg_permit_audits g)[lg_permit_audit_head g :=
              \<lparr>pa_sequence = sequence, pa_timestamp_ns = now_ns, pa_source_id = mp_source_id permit,
               pa_permit_epoch = mp_permit_epoch permit, pa_permit_sequence = mp_sequence permit,
               pa_error = e, pa_reserved = replicate 7 0\<rparr>],
            lg_permit_audit_head := (lg_permit_audit_head g + 1) mod MAX_PERMIT_AUDITS,
            lg_permit_audit_count := min (lg_permit_audit_count g + 1) MAX_PERMIT_AUDITS\<rparr>,
          Err e))"

definition accept_permit ::
  "lifecycle_guard \<Rightarrow> motion_permit \<Rightarrow> u64 \<Rightarrow> lifecycle_guard \<times> (permit_error, unit) result" where
  "accept_permit g permit now_ns =
     (if mp_boot_id permit \<noteq> lg_boot_id g then reject_permit g permit now_ns PeBootMismatch
      else if mp_source_id permit \<noteq> gp_authorized_source_id (lg_policy g)
      then reject_permit g permit now_ns PeSourceUnauthorized
      else if mp_authority permit < gp_minimum_authority (lg_policy g)
      then reject_permit g permit now_ns PeAuthorityInsufficient
      else if mp_policy_version permit \<noteq> gp_permit_policy_version (lg_policy g)
      then reject_permit g permit now_ns PePolicyVersionMismatch
      else if mp_expires_at_ns permit \<le> now_ns then reject_permit g permit now_ns PeExpired
      else if mp_axis_mask permit = 0 then reject_permit g permit now_ns PeEmptyAxisMask
      else if mp_axis_mask permit AND NOT (gp_allowed_axis_mask (lg_policy g)) \<noteq> 0
      then reject_permit g permit now_ns PeAxisOutsidePolicy
      else if lg_state g = Active \<and> mp_axis_mask permit \<noteq> lg_motion_axes_mask g
      then reject_permit g permit now_ns PeAxisMaskChanged
      else if mp_permit_epoch permit < lg_permit_epoch g
      then reject_permit g permit now_ns PeEpochReplayed
      else if mp_permit_epoch permit = lg_permit_epoch g \<and>
              mp_sequence permit \<le> lg_last_permit_sequence g
      then reject_permit g permit now_ns PeSequenceReplayed
      else (g\<lparr>lg_permit_epoch := mp_permit_epoch permit,
              lg_last_permit_sequence := mp_sequence permit, lg_permit := Some permit\<rparr>, Ok ()))"

definition revoke_permit :: "lifecycle_guard \<Rightarrow> lifecycle_guard" where
  "revoke_permit g = g\<lparr>lg_permit := None, lg_permit_epoch := sat_add (lg_permit_epoch g) 1,
     lg_last_permit_sequence := 0\<rparr>"

definition permit_current :: "lifecycle_guard \<Rightarrow> u64 \<Rightarrow> bool" where
  "permit_current g now_ns =
     (case lg_permit g of None \<Rightarrow> False
      | Some permit \<Rightarrow>
          mp_boot_id permit = lg_boot_id g \<and> mp_axis_mask permit \<noteq> 0 \<and>
          mp_axis_mask permit AND NOT (gp_allowed_axis_mask (lg_policy g)) = 0 \<and>
          (lg_state g \<noteq> Active \<or> mp_axis_mask permit = lg_motion_axes_mask g) \<and>
          now_ns < mp_expires_at_ns permit)"

section \<open>Stopping\<close>

definition effective_stop_action :: "lifecycle_guard \<Rightarrow> stop_action" where
  "effective_stop_action g =
     (if lg_state g = Maintenance \<or> lg_state g = FaultLatched \<or> lg_maintenance_stop_pending g
      then Disable else gp_stop_action (lg_policy g))"

definition stop_timed_out :: "lifecycle_guard \<Rightarrow> u64 \<Rightarrow> bool" where
  "stop_timed_out g cycle =
     (case lg_stop_started_cycle g of None \<Rightarrow> False
      | Some start \<Rightarrow> start \<le> cycle \<and> gp_stop_timeout_cycles (lg_policy g) \<le> cycle - start)"

definition latch_stop_timeout :: "lifecycle_guard \<Rightarrow> u64 \<Rightarrow> lifecycle_guard" where
  "latch_stop_timeout g cycle =
     (let actions = (if lg_maintenance_stop_pending g \<or> lg_state g = Maintenance
            then replicate MAX_MOTION_AXES Disable else lg_axis_stop_policy g);
          axis_mask = lg_motion_axes_mask g;
          first_issued_cycle = lg_stop_issued_cycle g;
          g1 = (revoke_permit g)\<lparr>lg_pending_fault_code := None,
            lg_maintenance_stop_pending := False, lg_motion_axes_mask := 0,
            lg_stop_started_cycle := None, lg_stop_issued_cycle := None,
            lg_first_fault_code := (if lg_first_fault_code g = 0 then STOP_TIMEOUT_FAULT_CODE
              else lg_first_fault_code g),
            lg_latched_fault_code := STOP_TIMEOUT_FAULT_CODE\<rparr>;
          g2 = transition_with_fault g1 FaultLatched cycle STOP_TIMEOUT_FAULT_CODE
      in g2\<lparr>lg_stop_timeout_record := Some \<lparr>st_cycle = cycle,
              st_transition_sequence = lg_transition_sequence g2,
              st_first_issued_cycle = first_issued_cycle, st_axis_mask = axis_mask,
              st_actions = actions\<rparr>,
            lg_pending_stop_timeout_events_mask := axis_mask\<rparr>)"

definition abort_active_cycle ::
  "lifecycle_guard \<Rightarrow> u64 \<Rightarrow> u32 \<Rightarrow> lifecycle_guard \<times> (lifecycle_error, unit) result" where
  "abort_active_cycle g cycle fault_code =
     (if lg_state g \<noteq> Active \<or> lg_motion_axes_mask g = 0 \<or> cycle < lg_state_since_cycle g \<or>
         fault_code = 0
      then (g, Err InvalidState)
      else
        let g1 = g\<lparr>lg_first_fault_code := (if lg_first_fault_code g = 0 then fault_code
                     else lg_first_fault_code g)\<rparr>;
            g2 = (revoke_permit g1)\<lparr>lg_stop_started_cycle := Some cycle,
                   lg_stop_issued_cycle := None\<rparr>
        in (transition g2 Stopping cycle, Ok ()))"

definition set_maintenance :: "lifecycle_guard \<Rightarrow> bool \<Rightarrow> u64 \<Rightarrow> lifecycle_guard" where
  "set_maintenance g enabled cycle =
     (if lg_state g = FaultLatched then g
      else if enabled then
        let g1 = (if lg_state g = Active
                  then g\<lparr>lg_stop_started_cycle := Some cycle, lg_stop_issued_cycle := None\<rparr> else g);
            g2 = g1\<lparr>lg_maintenance_stop_pending := lg_maintenance_stop_pending g1 \<or>
                   lg_state g1 = Active \<or> lg_state g1 = Stopping\<rparr>
        in transition (invalidate_gate_qualification (revoke_permit g2) cycle) Maintenance cycle
      else if lg_state g = Maintenance then
        let g1 = invalidate_gate_qualification g cycle
        in transition g1 (if lg_maintenance_stop_pending g1 then Stopping else Qualifying) cycle
      else g)"

definition covers :: "u32 \<Rightarrow> u32 \<Rightarrow> bool" where
  "covers reported axes \<longleftrightarrow> reported AND axes = axes"

definition acknowledge_stopped ::
  "lifecycle_guard \<Rightarrow> u64 \<Rightarrow> stop_feedback \<Rightarrow> lifecycle_guard \<times> (lifecycle_error, unit) result" where
  "acknowledge_stopped g cycle feedback =
     (if lg_state g \<noteq> Stopping then (g, Err InvalidState)
      else if stop_timed_out g cycle then (latch_stop_timeout g cycle, Err StopTimedOut)
      else if sf_cycle feedback \<noteq> cycle \<or> cycle \<le> lg_state_since_cycle g \<or>
         \<not> (case lg_stop_issued_cycle g of None \<Rightarrow> False | Some issued \<Rightarrow> issued < cycle) \<or>
         lg_motion_axes_mask g = 0 \<or>
         \<not> covers (sf_observed_axis_mask feedback) (lg_motion_axes_mask g) \<or>
         \<not> covers (sf_stationary_axis_mask feedback) (lg_motion_axes_mask g) \<or>
         \<not> covers (sf_non_enabled_axis_mask feedback) (lg_motion_axes_mask g)
      then (g, Err InvalidStopFeedback)
      else
        let g1 = revoke_permit (g\<lparr>lg_maintenance_stop_pending := False, lg_motion_axes_mask := 0,
                   lg_stop_started_cycle := None, lg_stop_issued_cycle := None\<rparr>)
        in case lg_pending_fault_code g1 of
             Some code \<Rightarrow>
               (transition_with_fault (g1\<lparr>lg_pending_fault_code := None,
                  lg_latched_fault_code := code\<rparr>) FaultLatched cycle code, Ok ())
           | None \<Rightarrow> (transition g1 Ready cycle, Ok ()))"

definition latch_fault :: "lifecycle_guard \<Rightarrow> u32 \<Rightarrow> u64 \<Rightarrow> lifecycle_guard" where
  "latch_fault g code cycle =
     (if lg_state g = FaultLatched \<or> lg_pending_fault_code g \<noteq> None then g
      else
        let g1 = invalidate_gate_qualification (revoke_permit g) cycle;
            g2 = g1\<lparr>lg_first_fault_code := (if lg_first_fault_code g1 = 0 then code
                   else lg_first_fault_code g1)\<rparr>
        in if lg_state g2 = Active \<or> lg_state g2 = Stopping \<or> lg_maintenance_stop_pending g2
           then
             let g3 = (if lg_state g2 = Active
                   then g2\<lparr>lg_stop_started_cycle := Some cycle, lg_stop_issued_cycle := None\<rparr>
                   else g2);
                 g4 = g3\<lparr>lg_pending_fault_code := Some code\<rparr>
             in if lg_state g4 \<noteq> Maintenance then transition g4 Stopping cycle else g4
           else transition_with_fault (g2\<lparr>lg_latched_fault_code := code\<rparr>) FaultLatched cycle code)"

definition clear_fault ::
  "lifecycle_guard \<Rightarrow> u64 \<Rightarrow> lifecycle_guard \<times> (lifecycle_error, unit) result" where
  "clear_fault g cycle =
     (if lg_state g \<noteq> FaultLatched then (g, Err InvalidState)
      else if \<not> gates_ready g cycle then (g, Err NotReady)
      else
        let fault_code = lg_first_fault_code g;
            g1 = (revoke_permit g)\<lparr>lg_first_fault_code := 0, lg_latched_fault_code := 0,
                   lg_motion_axes_mask := 0, lg_stop_started_cycle := None,
                   lg_stop_issued_cycle := None\<rparr>
        in (transition_with_fault g1 Qualifying cycle fault_code, Ok ()))"

definition request_rearm ::
  "lifecycle_guard \<Rightarrow> motion_permit \<Rightarrow> u64 \<Rightarrow> u64 \<Rightarrow>
   lifecycle_guard \<times> (lifecycle_error, lifecycle_action) result" where
  "request_rearm g permit cycle now_ns =
     (if lg_state g \<noteq> Ready \<and> lg_state g \<noteq> Qualifying then (g, Err InvalidState)
      else case accept_permit g permit now_ns of
        (g1, Inl e) \<Rightarrow> (g1, Err (PermitRejected e))
      | (g1, Inr _) \<Rightarrow>
          if \<not> gates_ready g1 cycle then (g1, Err NotReady)
          else
            let g2 = transition (g1\<lparr>lg_motion_axes_mask := mp_axis_mask permit,
                       lg_stop_started_cycle := None, lg_stop_issued_cycle := None,
                       lg_first_fault_code := 0\<rparr>) Active cycle
            in (g2\<lparr>lg_recovery_count := sat_add (lg_recovery_count g2) 1\<rparr>, Ok LaEnableAllowed))"

section \<open>The cycle\<close>

text \<open>The early returns for \<open>Maintenance\<close> and \<open>FaultLatched\<close> come before the match on the
  state, so its \<open>unreachable!()\<close> arm is the pair of cases that have already returned.\<close>

definition guard_cycle :: "lifecycle_guard \<Rightarrow> u64 \<Rightarrow> u64 \<Rightarrow> lifecycle_guard \<times> lifecycle_action" where
  "guard_cycle g cycle now_ns =
     (if (lg_state g = Stopping \<or> lg_state g = Maintenance) \<and> stop_timed_out g cycle
      then (latch_stop_timeout g cycle, LaFaultLatched)
      else case lg_state g of
        Maintenance \<Rightarrow> (g, LaStop (effective_stop_action g))
      | FaultLatched \<Rightarrow> (g, LaFaultLatched)
      | Stopping \<Rightarrow> (g, LaStop (effective_stop_action g))
      | Active \<Rightarrow>
          if gates_active g cycle \<and> permit_current g now_ns then (g, LaEnableAllowed)
          else
            let g1 = (case hard_required_gate_fault g cycle of
                  Some code \<Rightarrow> latch_fault g code cycle
                | None \<Rightarrow> transition ((revoke_permit g)\<lparr>lg_stop_started_cycle := Some cycle\<rparr>)
                    Stopping cycle)
            in (g1, LaStop (effective_stop_action g1))
      | _ \<Rightarrow>
          (if gates_ready g cycle then
             let g1 = g\<lparr>lg_first_fault_code := 0\<rparr>
             in if permit_current g now_ns then transition g1 Ready cycle
                else transition g1 Qualifying cycle
           else transition g Qualifying cycle, LaHold))"

definition cycle_axes :: "lifecycle_guard \<Rightarrow> u64 \<Rightarrow> u64 \<Rightarrow> axis_cycle_decision" where
  "cycle_axes g cycle now_ns =
     (case guard_cycle g cycle now_ns of (g1, action) \<Rightarrow>
        \<lparr>acd_guard = g1, acd_action = action, acd_cycle = cycle, acd_stop_transmitted = False\<rparr>)"

fun is_stop :: "lifecycle_action \<Rightarrow> bool" where
  "is_stop (LaStop _) = True"
| "is_stop _ = False"

definition can_mark_stop_transmitted :: "axis_cycle_decision \<Rightarrow> bool" where
  "can_mark_stop_transmitted d \<longleftrightarrow>
     is_stop (acd_action d) \<and> lg_motion_axes_mask (acd_guard d) \<noteq> 0 \<and>
     lg_stop_started_cycle (acd_guard d) \<noteq> None"

definition mark_stop_transmitted ::
  "axis_cycle_decision \<Rightarrow> axis_cycle_decision \<times> (lifecycle_error, unit) result" where
  "mark_stop_transmitted d =
     (if \<not> can_mark_stop_transmitted d then (d, Err InvalidState)
      else
        let g = acd_guard d;
            g1 = (if lg_stop_issued_cycle g = None
                  then g\<lparr>lg_stop_issued_cycle := Some (acd_cycle d)\<rparr> else g)
        in (d\<lparr>acd_guard := g1, acd_stop_transmitted := True\<rparr>, Ok ()))"

definition permitted_axis_mask :: "axis_cycle_decision \<Rightarrow> u32" where
  "permitted_axis_mask d =
     (if acd_action d = LaEnableAllowed then lg_motion_axes_mask (acd_guard d) else 0)"

definition stopping_axis_mask :: "axis_cycle_decision \<Rightarrow> u32" where
  "stopping_axis_mask d =
     (if is_stop (acd_action d) then lg_motion_axes_mask (acd_guard d) else 0)"

definition decision_axis :: "axis_cycle_decision \<Rightarrow> nat \<Rightarrow> axis_directive" where
  "decision_axis d index =
     (if MAX_MOTION_AXES \<le> index then Inhibit
      else if permitted_axis_mask d AND push_bit index 1 \<noteq> 0 then EnableAllowed
      else if stopping_axis_mask d AND push_bit index 1 \<noteq> 0 then
        Stop (if lg_state (acd_guard d) = Maintenance \<or> lg_maintenance_stop_pending (acd_guard d)
              then Disable else lg_axis_stop_policy (acd_guard d) ! index)
      else Inhibit)"

definition guard_snapshot :: "lifecycle_guard \<Rightarrow> u64 \<Rightarrow> u64 \<Rightarrow> lifecycle_snapshot" where
  "guard_snapshot g cycle now_ns =
     (let latest = transition_at g (lg_transition_count g - 1);
          permit = (case lg_permit g of Some p \<Rightarrow> p
            | None \<Rightarrow> \<lparr>mp_boot_id = lg_boot_id g, mp_source_id = 0,
                mp_permit_epoch = lg_permit_epoch g, mp_sequence = 0, mp_expires_at_ns = 0,
                mp_axis_mask = 0, mp_authority = 0, mp_reserved = replicate 3 0,
                mp_policy_version = 0\<rparr>)
      in \<lparr>ls_state = lg_state g, ls_stop_action = effective_stop_action g,
          ls_state_since_cycle = lg_state_since_cycle g,
          ls_required_gate_mask = lg_required_mask g, ls_valid_gate_mask = valid_gate_mask g,
          ls_qualified_gate_mask = qualified_gate_mask g,
          ls_ready_gate_mask = ready_gate_mask g cycle,
          ls_first_blocking_code = lg_first_fault_code g,
          ls_latched_fault_code = lg_latched_fault_code g,
          ls_motion_permit_current = permit_current g now_ns,
          ls_permit_epoch = mp_permit_epoch permit,
          ls_permit_expires_at_ns = mp_expires_at_ns permit,
          ls_transition_sequence = lg_transition_sequence g,
          ls_transition_cycle = (case latest of None \<Rightarrow> 0 | Some t \<Rightarrow> lt_cycle t),
          ls_recovery_count = lg_recovery_count g,
          ls_permit_audit_sequence = lg_permit_audit_sequence g\<rparr>)"

section \<open>Histories\<close>

text \<open>The public operations that change the guard. \<open>OpCycle\<close> is one \<open>cycle_axes\<close> whose decision
  is used for the outputs; the flag says whether the port accepted the stop frame, in which
  case the cycle owner records it.\<close>

datatype guard_op =
    OpUpdateGate gate_id bool u64 u32
  | OpCyclicQuality cyclic_quality u64
  | OpHostObservation host_observation u64 u64 u64
  | OpAcceptPermit motion_permit u64
  | OpRevokePermit
  | OpAbortActiveCycle u64 u32
  | OpSetMaintenance bool u64
  | OpAcknowledgeStopped u64 stop_feedback
  | OpLatchFault u32 u64
  | OpClearFault u64
  | OpRequestRearm motion_permit u64 u64
  | OpCycle u64 u64 bool

fun guard_exec :: "lifecycle_guard \<Rightarrow> guard_op \<Rightarrow> lifecycle_guard" where
  "guard_exec g (OpUpdateGate gate valid cycle code) = update_gate g gate valid cycle code"
| "guard_exec g (OpCyclicQuality q cycle) = update_cyclic_quality g q cycle"
| "guard_exec g (OpHostObservation obs cycle now age) = fst (update_host_observation g obs cycle now age)"
| "guard_exec g (OpAcceptPermit p now) = fst (accept_permit g p now)"
| "guard_exec g OpRevokePermit = revoke_permit g"
| "guard_exec g (OpAbortActiveCycle cycle code) = fst (abort_active_cycle g cycle code)"
| "guard_exec g (OpSetMaintenance enabled cycle) = set_maintenance g enabled cycle"
| "guard_exec g (OpAcknowledgeStopped cycle fb) = fst (acknowledge_stopped g cycle fb)"
| "guard_exec g (OpLatchFault code cycle) = latch_fault g code cycle"
| "guard_exec g (OpClearFault cycle) = fst (clear_fault g cycle)"
| "guard_exec g (OpRequestRearm p cycle now) = fst (request_rearm g p cycle now)"
| "guard_exec g (OpCycle cycle now sent) =
     (let d = cycle_axes g cycle now
      in acd_guard (if sent then fst (mark_stop_transmitted d) else d))"

definition guard_run :: "lifecycle_guard \<Rightarrow> guard_op list \<Rightarrow> lifecycle_guard" where
  "guard_run g ops = foldl guard_exec g ops"

end
