(* ===== verification/Guard_Invariant.thy ===== *)
theory Guard_Invariant
  imports Guard_Model System_Interfaces
begin

text \<open>
  What each internal step of the guard leaves alone (frame lemmas, used by the simplifier in
  every later proof), the well-formedness of the guard's arrays, and the phase invariant that
  ties the lifecycle state to the motion mask, the stop bookkeeping and the pending fault.
  Every operation keeps them, so they hold in every history.
\<close>

section \<open>Frames\<close>

lemma update_gate_frame [simp]:
  "lg_policy (update_gate g gate valid cycle code) = lg_policy g"
  "lg_axis_stop_policy (update_gate g gate valid cycle code) = lg_axis_stop_policy g"
  "lg_required_mask (update_gate g gate valid cycle code) = lg_required_mask g"
  "lg_boot_id (update_gate g gate valid cycle code) = lg_boot_id g"
  "lg_permit (update_gate g gate valid cycle code) = lg_permit g"
  "lg_permit_epoch (update_gate g gate valid cycle code) = lg_permit_epoch g"
  "lg_last_permit_sequence (update_gate g gate valid cycle code) = lg_last_permit_sequence g"
  "lg_state (update_gate g gate valid cycle code) = lg_state g"
  "lg_state_since_cycle (update_gate g gate valid cycle code) = lg_state_since_cycle g"
  "lg_motion_axes_mask (update_gate g gate valid cycle code) = lg_motion_axes_mask g"
  "lg_stop_started_cycle (update_gate g gate valid cycle code) = lg_stop_started_cycle g"
  "lg_stop_issued_cycle (update_gate g gate valid cycle code) = lg_stop_issued_cycle g"
  "lg_stop_timeout_record (update_gate g gate valid cycle code) = lg_stop_timeout_record g"
  "lg_maintenance_stop_pending (update_gate g gate valid cycle code) = lg_maintenance_stop_pending g"
  "lg_pending_fault_code (update_gate g gate valid cycle code) = lg_pending_fault_code g"
  "lg_latched_fault_code (update_gate g gate valid cycle code) = lg_latched_fault_code g"
  "lg_recovery_count (update_gate g gate valid cycle code) = lg_recovery_count g"
  "lg_transitions (update_gate g gate valid cycle code) = lg_transitions g"
  "lg_transition_head (update_gate g gate valid cycle code) = lg_transition_head g"
  "lg_transition_count (update_gate g gate valid cycle code) = lg_transition_count g"
  "lg_transition_sequence (update_gate g gate valid cycle code) = lg_transition_sequence g"
  "lg_permit_audits (update_gate g gate valid cycle code) = lg_permit_audits g"
  "lg_permit_audit_head (update_gate g gate valid cycle code) = lg_permit_audit_head g"
  "lg_permit_audit_count (update_gate g gate valid cycle code) = lg_permit_audit_count g"
  "lg_permit_audit_sequence (update_gate g gate valid cycle code) = lg_permit_audit_sequence g"
  by (simp_all add: update_gate_def Let_def)

lemma update_gate_gates_length [simp]:
  "length (lg_gates (update_gate g gate valid cycle code)) = length (lg_gates g)"
  by (simp add: update_gate_def Let_def)

lemma update_cyclic_quality_frame [simp]:
  "lg_policy (update_cyclic_quality g q cycle) = lg_policy g"
  "lg_axis_stop_policy (update_cyclic_quality g q cycle) = lg_axis_stop_policy g"
  "lg_required_mask (update_cyclic_quality g q cycle) = lg_required_mask g"
  "lg_boot_id (update_cyclic_quality g q cycle) = lg_boot_id g"
  "lg_permit (update_cyclic_quality g q cycle) = lg_permit g"
  "lg_permit_epoch (update_cyclic_quality g q cycle) = lg_permit_epoch g"
  "lg_last_permit_sequence (update_cyclic_quality g q cycle) = lg_last_permit_sequence g"
  "lg_state (update_cyclic_quality g q cycle) = lg_state g"
  "lg_state_since_cycle (update_cyclic_quality g q cycle) = lg_state_since_cycle g"
  "lg_motion_axes_mask (update_cyclic_quality g q cycle) = lg_motion_axes_mask g"
  "lg_stop_started_cycle (update_cyclic_quality g q cycle) = lg_stop_started_cycle g"
  "lg_stop_issued_cycle (update_cyclic_quality g q cycle) = lg_stop_issued_cycle g"
  "lg_stop_timeout_record (update_cyclic_quality g q cycle) = lg_stop_timeout_record g"
  "lg_maintenance_stop_pending (update_cyclic_quality g q cycle) = lg_maintenance_stop_pending g"
  "lg_pending_fault_code (update_cyclic_quality g q cycle) = lg_pending_fault_code g"
  "lg_latched_fault_code (update_cyclic_quality g q cycle) = lg_latched_fault_code g"
  "lg_recovery_count (update_cyclic_quality g q cycle) = lg_recovery_count g"
  "lg_transitions (update_cyclic_quality g q cycle) = lg_transitions g"
  "lg_transition_head (update_cyclic_quality g q cycle) = lg_transition_head g"
  "lg_transition_count (update_cyclic_quality g q cycle) = lg_transition_count g"
  "lg_transition_sequence (update_cyclic_quality g q cycle) = lg_transition_sequence g"
  "lg_permit_audits (update_cyclic_quality g q cycle) = lg_permit_audits g"
  "lg_permit_audit_head (update_cyclic_quality g q cycle) = lg_permit_audit_head g"
  "lg_permit_audit_count (update_cyclic_quality g q cycle) = lg_permit_audit_count g"
  "lg_permit_audit_sequence (update_cyclic_quality g q cycle) = lg_permit_audit_sequence g"
  by (simp_all add: update_cyclic_quality_def Let_def)

lemma update_cyclic_quality_gates_length [simp]:
  "length (lg_gates (update_cyclic_quality g q cycle)) = length (lg_gates g)"
  by (simp add: update_cyclic_quality_def Let_def)

lemma update_host_observation_frame [simp]:
  "lg_policy (fst (update_host_observation g obs cycle now age)) = lg_policy g"
  "lg_axis_stop_policy (fst (update_host_observation g obs cycle now age)) = lg_axis_stop_policy g"
  "lg_required_mask (fst (update_host_observation g obs cycle now age)) = lg_required_mask g"
  "lg_boot_id (fst (update_host_observation g obs cycle now age)) = lg_boot_id g"
  "lg_permit (fst (update_host_observation g obs cycle now age)) = lg_permit g"
  "lg_permit_epoch (fst (update_host_observation g obs cycle now age)) = lg_permit_epoch g"
  "lg_last_permit_sequence (fst (update_host_observation g obs cycle now age)) = lg_last_permit_sequence g"
  "lg_state (fst (update_host_observation g obs cycle now age)) = lg_state g"
  "lg_state_since_cycle (fst (update_host_observation g obs cycle now age)) = lg_state_since_cycle g"
  "lg_motion_axes_mask (fst (update_host_observation g obs cycle now age)) = lg_motion_axes_mask g"
  "lg_stop_started_cycle (fst (update_host_observation g obs cycle now age)) = lg_stop_started_cycle g"
  "lg_stop_issued_cycle (fst (update_host_observation g obs cycle now age)) = lg_stop_issued_cycle g"
  "lg_stop_timeout_record (fst (update_host_observation g obs cycle now age)) = lg_stop_timeout_record g"
  "lg_maintenance_stop_pending (fst (update_host_observation g obs cycle now age)) = lg_maintenance_stop_pending g"
  "lg_pending_fault_code (fst (update_host_observation g obs cycle now age)) = lg_pending_fault_code g"
  "lg_latched_fault_code (fst (update_host_observation g obs cycle now age)) = lg_latched_fault_code g"
  "lg_recovery_count (fst (update_host_observation g obs cycle now age)) = lg_recovery_count g"
  "lg_transitions (fst (update_host_observation g obs cycle now age)) = lg_transitions g"
  "lg_transition_head (fst (update_host_observation g obs cycle now age)) = lg_transition_head g"
  "lg_transition_count (fst (update_host_observation g obs cycle now age)) = lg_transition_count g"
  "lg_transition_sequence (fst (update_host_observation g obs cycle now age)) = lg_transition_sequence g"
  "lg_permit_audits (fst (update_host_observation g obs cycle now age)) = lg_permit_audits g"
  "lg_permit_audit_head (fst (update_host_observation g obs cycle now age)) = lg_permit_audit_head g"
  "lg_permit_audit_count (fst (update_host_observation g obs cycle now age)) = lg_permit_audit_count g"
  "lg_permit_audit_sequence (fst (update_host_observation g obs cycle now age)) = lg_permit_audit_sequence g"
  by (simp_all add: update_host_observation_def reject_host_observation_def Let_def)

lemma update_host_observation_gates_length [simp]:
  "length (lg_gates (fst (update_host_observation g obs cycle now age))) = length (lg_gates g)"
  by (simp add: update_host_observation_def reject_host_observation_def Let_def)

lemma revoke_permit_frame [simp]:
  "lg_policy (revoke_permit g) = lg_policy g"
  "lg_axis_stop_policy (revoke_permit g) = lg_axis_stop_policy g"
  "lg_required_mask (revoke_permit g) = lg_required_mask g"
  "lg_boot_id (revoke_permit g) = lg_boot_id g"
  "lg_state (revoke_permit g) = lg_state g"
  "lg_state_since_cycle (revoke_permit g) = lg_state_since_cycle g"
  "lg_motion_axes_mask (revoke_permit g) = lg_motion_axes_mask g"
  "lg_stop_started_cycle (revoke_permit g) = lg_stop_started_cycle g"
  "lg_stop_issued_cycle (revoke_permit g) = lg_stop_issued_cycle g"
  "lg_stop_timeout_record (revoke_permit g) = lg_stop_timeout_record g"
  "lg_maintenance_stop_pending (revoke_permit g) = lg_maintenance_stop_pending g"
  "lg_pending_fault_code (revoke_permit g) = lg_pending_fault_code g"
  "lg_latched_fault_code (revoke_permit g) = lg_latched_fault_code g"
  "lg_recovery_count (revoke_permit g) = lg_recovery_count g"
  "lg_transitions (revoke_permit g) = lg_transitions g"
  "lg_transition_head (revoke_permit g) = lg_transition_head g"
  "lg_transition_count (revoke_permit g) = lg_transition_count g"
  "lg_transition_sequence (revoke_permit g) = lg_transition_sequence g"
  "lg_permit_audits (revoke_permit g) = lg_permit_audits g"
  "lg_permit_audit_head (revoke_permit g) = lg_permit_audit_head g"
  "lg_permit_audit_count (revoke_permit g) = lg_permit_audit_count g"
  "lg_permit_audit_sequence (revoke_permit g) = lg_permit_audit_sequence g"
  "lg_gates (revoke_permit g) = lg_gates g"
  "lg_first_fault_code (revoke_permit g) = lg_first_fault_code g"
  "lg_requalify_after_cycle (revoke_permit g) = lg_requalify_after_cycle g"
  by (simp_all add: revoke_permit_def)

lemma invalidate_frame [simp]:
  "lg_policy (invalidate_gate_qualification g cycle) = lg_policy g"
  "lg_axis_stop_policy (invalidate_gate_qualification g cycle) = lg_axis_stop_policy g"
  "lg_required_mask (invalidate_gate_qualification g cycle) = lg_required_mask g"
  "lg_boot_id (invalidate_gate_qualification g cycle) = lg_boot_id g"
  "lg_permit (invalidate_gate_qualification g cycle) = lg_permit g"
  "lg_permit_epoch (invalidate_gate_qualification g cycle) = lg_permit_epoch g"
  "lg_last_permit_sequence (invalidate_gate_qualification g cycle) = lg_last_permit_sequence g"
  "lg_state (invalidate_gate_qualification g cycle) = lg_state g"
  "lg_state_since_cycle (invalidate_gate_qualification g cycle) = lg_state_since_cycle g"
  "lg_motion_axes_mask (invalidate_gate_qualification g cycle) = lg_motion_axes_mask g"
  "lg_stop_started_cycle (invalidate_gate_qualification g cycle) = lg_stop_started_cycle g"
  "lg_stop_issued_cycle (invalidate_gate_qualification g cycle) = lg_stop_issued_cycle g"
  "lg_stop_timeout_record (invalidate_gate_qualification g cycle) = lg_stop_timeout_record g"
  "lg_maintenance_stop_pending (invalidate_gate_qualification g cycle) = lg_maintenance_stop_pending g"
  "lg_pending_fault_code (invalidate_gate_qualification g cycle) = lg_pending_fault_code g"
  "lg_latched_fault_code (invalidate_gate_qualification g cycle) = lg_latched_fault_code g"
  "lg_recovery_count (invalidate_gate_qualification g cycle) = lg_recovery_count g"
  "lg_transitions (invalidate_gate_qualification g cycle) = lg_transitions g"
  "lg_transition_head (invalidate_gate_qualification g cycle) = lg_transition_head g"
  "lg_transition_count (invalidate_gate_qualification g cycle) = lg_transition_count g"
  "lg_transition_sequence (invalidate_gate_qualification g cycle) = lg_transition_sequence g"
  "lg_permit_audits (invalidate_gate_qualification g cycle) = lg_permit_audits g"
  "lg_permit_audit_head (invalidate_gate_qualification g cycle) = lg_permit_audit_head g"
  "lg_permit_audit_count (invalidate_gate_qualification g cycle) = lg_permit_audit_count g"
  "lg_permit_audit_sequence (invalidate_gate_qualification g cycle) = lg_permit_audit_sequence g"
  "lg_first_fault_code (invalidate_gate_qualification g cycle) = lg_first_fault_code g"
  by (simp_all add: invalidate_gate_qualification_def)

lemma invalidate_gates_length [simp]:
  "length (lg_gates (invalidate_gate_qualification g cycle)) = length (lg_gates g)"
  by (simp add: invalidate_gate_qualification_def)

lemma transition_with_fault_frame [simp]:
  "lg_policy (transition_with_fault g state cycle code) = lg_policy g"
  "lg_axis_stop_policy (transition_with_fault g state cycle code) = lg_axis_stop_policy g"
  "lg_required_mask (transition_with_fault g state cycle code) = lg_required_mask g"
  "lg_boot_id (transition_with_fault g state cycle code) = lg_boot_id g"
  "lg_permit (transition_with_fault g state cycle code) = lg_permit g"
  "lg_permit_epoch (transition_with_fault g state cycle code) = lg_permit_epoch g"
  "lg_last_permit_sequence (transition_with_fault g state cycle code) = lg_last_permit_sequence g"
  "lg_motion_axes_mask (transition_with_fault g state cycle code) = lg_motion_axes_mask g"
  "lg_stop_started_cycle (transition_with_fault g state cycle code) = lg_stop_started_cycle g"
  "lg_stop_issued_cycle (transition_with_fault g state cycle code) = lg_stop_issued_cycle g"
  "lg_stop_timeout_record (transition_with_fault g state cycle code) = lg_stop_timeout_record g"
  "lg_maintenance_stop_pending (transition_with_fault g state cycle code) = lg_maintenance_stop_pending g"
  "lg_pending_fault_code (transition_with_fault g state cycle code) = lg_pending_fault_code g"
  "lg_latched_fault_code (transition_with_fault g state cycle code) = lg_latched_fault_code g"
  "lg_recovery_count (transition_with_fault g state cycle code) = lg_recovery_count g"
  "lg_permit_audits (transition_with_fault g state cycle code) = lg_permit_audits g"
  "lg_permit_audit_head (transition_with_fault g state cycle code) = lg_permit_audit_head g"
  "lg_permit_audit_count (transition_with_fault g state cycle code) = lg_permit_audit_count g"
  "lg_permit_audit_sequence (transition_with_fault g state cycle code) = lg_permit_audit_sequence g"
  "lg_gates (transition_with_fault g state cycle code) = lg_gates g"
  "lg_first_fault_code (transition_with_fault g state cycle code) = lg_first_fault_code g"
  "lg_requalify_after_cycle (transition_with_fault g state cycle code) = lg_requalify_after_cycle g"
  "lg_state (transition_with_fault g state cycle code) = state"
  by (simp_all add: transition_with_fault_def Let_def)

lemma transition_frame [simp]:
  "lg_policy (transition g state cycle) = lg_policy g"
  "lg_axis_stop_policy (transition g state cycle) = lg_axis_stop_policy g"
  "lg_required_mask (transition g state cycle) = lg_required_mask g"
  "lg_boot_id (transition g state cycle) = lg_boot_id g"
  "lg_permit (transition g state cycle) = lg_permit g"
  "lg_permit_epoch (transition g state cycle) = lg_permit_epoch g"
  "lg_last_permit_sequence (transition g state cycle) = lg_last_permit_sequence g"
  "lg_motion_axes_mask (transition g state cycle) = lg_motion_axes_mask g"
  "lg_stop_started_cycle (transition g state cycle) = lg_stop_started_cycle g"
  "lg_stop_issued_cycle (transition g state cycle) = lg_stop_issued_cycle g"
  "lg_stop_timeout_record (transition g state cycle) = lg_stop_timeout_record g"
  "lg_maintenance_stop_pending (transition g state cycle) = lg_maintenance_stop_pending g"
  "lg_pending_fault_code (transition g state cycle) = lg_pending_fault_code g"
  "lg_latched_fault_code (transition g state cycle) = lg_latched_fault_code g"
  "lg_recovery_count (transition g state cycle) = lg_recovery_count g"
  "lg_permit_audits (transition g state cycle) = lg_permit_audits g"
  "lg_permit_audit_head (transition g state cycle) = lg_permit_audit_head g"
  "lg_permit_audit_count (transition g state cycle) = lg_permit_audit_count g"
  "lg_permit_audit_sequence (transition g state cycle) = lg_permit_audit_sequence g"
  "lg_gates (transition g state cycle) = lg_gates g"
  "lg_first_fault_code (transition g state cycle) = lg_first_fault_code g"
  "lg_requalify_after_cycle (transition g state cycle) = lg_requalify_after_cycle g"
  "lg_state (transition g state cycle) = state"
  by (simp_all add: transition_def)

lemma reject_permit_frame [simp]:
  "lg_policy (fst (reject_permit g p now e)) = lg_policy g"
  "lg_axis_stop_policy (fst (reject_permit g p now e)) = lg_axis_stop_policy g"
  "lg_required_mask (fst (reject_permit g p now e)) = lg_required_mask g"
  "lg_boot_id (fst (reject_permit g p now e)) = lg_boot_id g"
  "lg_permit (fst (reject_permit g p now e)) = lg_permit g"
  "lg_permit_epoch (fst (reject_permit g p now e)) = lg_permit_epoch g"
  "lg_last_permit_sequence (fst (reject_permit g p now e)) = lg_last_permit_sequence g"
  "lg_state (fst (reject_permit g p now e)) = lg_state g"
  "lg_state_since_cycle (fst (reject_permit g p now e)) = lg_state_since_cycle g"
  "lg_motion_axes_mask (fst (reject_permit g p now e)) = lg_motion_axes_mask g"
  "lg_stop_started_cycle (fst (reject_permit g p now e)) = lg_stop_started_cycle g"
  "lg_stop_issued_cycle (fst (reject_permit g p now e)) = lg_stop_issued_cycle g"
  "lg_stop_timeout_record (fst (reject_permit g p now e)) = lg_stop_timeout_record g"
  "lg_maintenance_stop_pending (fst (reject_permit g p now e)) = lg_maintenance_stop_pending g"
  "lg_pending_fault_code (fst (reject_permit g p now e)) = lg_pending_fault_code g"
  "lg_latched_fault_code (fst (reject_permit g p now e)) = lg_latched_fault_code g"
  "lg_recovery_count (fst (reject_permit g p now e)) = lg_recovery_count g"
  "lg_transitions (fst (reject_permit g p now e)) = lg_transitions g"
  "lg_transition_head (fst (reject_permit g p now e)) = lg_transition_head g"
  "lg_transition_count (fst (reject_permit g p now e)) = lg_transition_count g"
  "lg_transition_sequence (fst (reject_permit g p now e)) = lg_transition_sequence g"
  "lg_gates (fst (reject_permit g p now e)) = lg_gates g"
  "lg_first_fault_code (fst (reject_permit g p now e)) = lg_first_fault_code g"
  "lg_requalify_after_cycle (fst (reject_permit g p now e)) = lg_requalify_after_cycle g"
  "snd (reject_permit g p now e) = Inl e"
  by (simp_all add: reject_permit_def Let_def)

lemma accept_permit_frame [simp]:
  "lg_policy (fst (accept_permit g p now)) = lg_policy g"
  "lg_axis_stop_policy (fst (accept_permit g p now)) = lg_axis_stop_policy g"
  "lg_required_mask (fst (accept_permit g p now)) = lg_required_mask g"
  "lg_boot_id (fst (accept_permit g p now)) = lg_boot_id g"
  "lg_state (fst (accept_permit g p now)) = lg_state g"
  "lg_state_since_cycle (fst (accept_permit g p now)) = lg_state_since_cycle g"
  "lg_motion_axes_mask (fst (accept_permit g p now)) = lg_motion_axes_mask g"
  "lg_stop_started_cycle (fst (accept_permit g p now)) = lg_stop_started_cycle g"
  "lg_stop_issued_cycle (fst (accept_permit g p now)) = lg_stop_issued_cycle g"
  "lg_stop_timeout_record (fst (accept_permit g p now)) = lg_stop_timeout_record g"
  "lg_maintenance_stop_pending (fst (accept_permit g p now)) = lg_maintenance_stop_pending g"
  "lg_pending_fault_code (fst (accept_permit g p now)) = lg_pending_fault_code g"
  "lg_latched_fault_code (fst (accept_permit g p now)) = lg_latched_fault_code g"
  "lg_recovery_count (fst (accept_permit g p now)) = lg_recovery_count g"
  "lg_transitions (fst (accept_permit g p now)) = lg_transitions g"
  "lg_transition_head (fst (accept_permit g p now)) = lg_transition_head g"
  "lg_transition_count (fst (accept_permit g p now)) = lg_transition_count g"
  "lg_transition_sequence (fst (accept_permit g p now)) = lg_transition_sequence g"
  "lg_gates (fst (accept_permit g p now)) = lg_gates g"
  "lg_first_fault_code (fst (accept_permit g p now)) = lg_first_fault_code g"
  "lg_requalify_after_cycle (fst (accept_permit g p now)) = lg_requalify_after_cycle g"
  by (simp_all add: accept_permit_def)

section \<open>The phase invariant\<close>

text \<open>\<open>Active\<close>: some axis moves, no stop is under way and no fault waits. \<open>Stopping\<close>: some axis may
  still move and the start of the stop is recorded. \<open>Maintenance\<close>: as \<open>Stopping\<close> if a stop was
  taken into maintenance, otherwise at rest. The other states are at rest.\<close>

definition phase_ok ::
  "lifecycle_state \<Rightarrow> u32 \<Rightarrow> u64 option \<Rightarrow> u64 option \<Rightarrow> bool \<Rightarrow> u32 option \<Rightarrow> bool" where
  "phase_ok state motion started issued maintenance pending \<longleftrightarrow>
     (let at_rest = (motion = 0 \<and> started = None \<and> issued = None \<and> pending = None)
      in case state of
           Active \<Rightarrow> motion \<noteq> 0 \<and> started = None \<and> issued = None \<and> pending = None \<and> \<not> maintenance
         | Stopping \<Rightarrow> motion \<noteq> 0 \<and> started \<noteq> None
         | Maintenance \<Rightarrow> (if maintenance then motion \<noteq> 0 \<and> started \<noteq> None else at_rest)
         | _ \<Rightarrow> at_rest \<and> \<not> maintenance)"

definition guard_phase :: "lifecycle_guard \<Rightarrow> bool" where
  "guard_phase g \<longleftrightarrow> phase_ok (lg_state g) (lg_motion_axes_mask g) (lg_stop_started_cycle g)
     (lg_stop_issued_cycle g) (lg_maintenance_stop_pending g) (lg_pending_fault_code g)"

definition guard_shape :: "lifecycle_guard \<Rightarrow> bool" where
  "guard_shape g \<longleftrightarrow>
     length (lg_gates g) = MAX_GATES \<and> length (lg_axis_stop_policy g) = MAX_MOTION_AXES \<and>
     length (lg_transitions g) = MAX_TRANSITIONS \<and> lg_transition_head g < MAX_TRANSITIONS \<and>
     lg_transition_count g \<le> MAX_TRANSITIONS \<and>
     length (lg_permit_audits g) = MAX_PERMIT_AUDITS \<and> lg_permit_audit_head g < MAX_PERMIT_AUDITS \<and>
     lg_permit_audit_count g \<le> MAX_PERMIT_AUDITS"

definition guard_policy_ok :: "lifecycle_guard \<Rightarrow> bool" where
  "guard_policy_ok g \<longleftrightarrow>
     gp_enter_good_cycles (lg_policy g) \<noteq> 0 \<and> gp_exit_bad_cycles (lg_policy g) \<noteq> 0 \<and>
     gp_stop_timeout_cycles (lg_policy g) \<noteq> 0 \<and>
     lg_motion_axes_mask g AND NOT (gp_allowed_axis_mask (lg_policy g)) = 0"

definition guard_inv :: "lifecycle_guard \<Rightarrow> bool" where
  "guard_inv g \<longleftrightarrow> guard_shape g \<and> guard_policy_ok g \<and> guard_phase g"

lemma phase_ok_simps [simp]:
  "phase_ok Active m s i p f \<longleftrightarrow> m \<noteq> 0 \<and> s = None \<and> i = None \<and> f = None \<and> \<not> p"
  "phase_ok Stopping m s i p f \<longleftrightarrow> m \<noteq> 0 \<and> s \<noteq> None"
  "phase_ok Maintenance m s i p f \<longleftrightarrow>
     (if p then m \<noteq> 0 \<and> s \<noteq> None else m = 0 \<and> s = None \<and> i = None \<and> f = None)"
  "phase_ok Qualifying m s i p f \<longleftrightarrow> m = 0 \<and> s = None \<and> i = None \<and> f = None \<and> \<not> p"
  "phase_ok Ready m s i p f \<longleftrightarrow> m = 0 \<and> s = None \<and> i = None \<and> f = None \<and> \<not> p"
  "phase_ok FaultLatched m s i p f \<longleftrightarrow> m = 0 \<and> s = None \<and> i = None \<and> f = None \<and> \<not> p"
  by (simp_all add: phase_ok_def)

lemmas guard_inv_defs = guard_inv_def guard_shape_def guard_policy_ok_def guard_phase_def

lemma guard_new_inv:
  assumes "length axis_policy = MAX_MOTION_AXES"
  shows "guard_inv (guard_new_with_axis_stop_policy required boot policy axis_policy)"
  using assms
  by (simp add: guard_inv_defs guard_new_with_axis_stop_policy_def guard_policy_normalized_def
      guard_consts)

subsection \<open>Arrays\<close>

lemma transition_with_fault_shape [simp]:
  "guard_shape g \<Longrightarrow> guard_shape (transition_with_fault g state cycle code)"
  by (simp add: guard_shape_def transition_with_fault_def Let_def MAX_TRANSITIONS_def)

lemma transition_shape [simp]: "guard_shape g \<Longrightarrow> guard_shape (transition g state cycle)"
  by (simp add: transition_def)

lemma reject_permit_shape [simp]: "guard_shape g \<Longrightarrow> guard_shape (fst (reject_permit g p now e))"
  by (simp add: guard_shape_def reject_permit_def Let_def MAX_PERMIT_AUDITS_def)

lemma accept_permit_shape [simp]:
  "guard_shape g \<Longrightarrow> guard_shape (fst (accept_permit g p now))"
  by (simp add: accept_permit_def) (simp add: guard_shape_def)

lemma guard_shape_frame [simp]:
  "guard_shape (update_gate g gate valid cycle code) = guard_shape g"
  "guard_shape (update_cyclic_quality g q cycle) = guard_shape g"
  "guard_shape (fst (update_host_observation g obs cycle now age)) = guard_shape g"
  "guard_shape (revoke_permit g) = guard_shape g"
  "guard_shape (invalidate_gate_qualification g cycle) = guard_shape g"
  by (simp_all add: guard_shape_def)

lemma guard_shape_updates [simp]:
  "guard_shape (g\<lparr>lg_stop_started_cycle := a\<rparr>) = guard_shape g"
  "guard_shape (g\<lparr>lg_stop_issued_cycle := a\<rparr>) = guard_shape g"
  "guard_shape (g\<lparr>lg_stop_timeout_record := r\<rparr>) = guard_shape g"
  "guard_shape (g\<lparr>lg_pending_stop_timeout_events_mask := m\<rparr>) = guard_shape g"
  "guard_shape (g\<lparr>lg_maintenance_stop_pending := b\<rparr>) = guard_shape g"
  "guard_shape (g\<lparr>lg_motion_axes_mask := m\<rparr>) = guard_shape g"
  "guard_shape (g\<lparr>lg_pending_fault_code := f\<rparr>) = guard_shape g"
  "guard_shape (g\<lparr>lg_first_fault_code := c\<rparr>) = guard_shape g"
  "guard_shape (g\<lparr>lg_latched_fault_code := c\<rparr>) = guard_shape g"
  "guard_shape (g\<lparr>lg_recovery_count := n\<rparr>) = guard_shape g"
  "guard_shape (g\<lparr>lg_permit := p\<rparr>) = guard_shape g"
  "guard_shape (g\<lparr>lg_permit_epoch := e\<rparr>) = guard_shape g"
  "guard_shape (g\<lparr>lg_last_permit_sequence := n\<rparr>) = guard_shape g"
  by (simp_all add: guard_shape_def)

subsection \<open>Operations\<close>

lemma latch_stop_timeout_frame [simp]:
  "lg_state (latch_stop_timeout g cycle) = FaultLatched"
  "lg_motion_axes_mask (latch_stop_timeout g cycle) = 0"
  "lg_stop_started_cycle (latch_stop_timeout g cycle) = None"
  "lg_stop_issued_cycle (latch_stop_timeout g cycle) = None"
  "lg_maintenance_stop_pending (latch_stop_timeout g cycle) = False"
  "lg_pending_fault_code (latch_stop_timeout g cycle) = None"
  "lg_policy (latch_stop_timeout g cycle) = lg_policy g"
  "lg_permit (latch_stop_timeout g cycle) = None"
  "lg_permit_epoch (latch_stop_timeout g cycle) = sat_add (lg_permit_epoch g) 1"
  "lg_last_permit_sequence (latch_stop_timeout g cycle) = 0"
  by (simp_all add: latch_stop_timeout_def Let_def) (simp_all add: revoke_permit_def)

lemma latch_stop_timeout_inv: "guard_inv g \<Longrightarrow> guard_inv (latch_stop_timeout g cycle)"
  by (simp add: guard_inv_def guard_policy_ok_def guard_phase_def)
    (simp add: latch_stop_timeout_def Let_def)

lemma accept_permit_inv: "guard_inv g \<Longrightarrow> guard_inv (fst (accept_permit g p now))"
  by (simp add: guard_inv_def guard_policy_ok_def guard_phase_def)

lemma abort_active_cycle_inv: "guard_inv g \<Longrightarrow> guard_inv (fst (abort_active_cycle g cycle code))"
  by (simp add: abort_active_cycle_def Let_def guard_inv_def guard_policy_ok_def guard_phase_def)

lemma set_maintenance_inv: "guard_inv g \<Longrightarrow> guard_inv (set_maintenance g enabled cycle)"
  by (cases "lg_state g")
    (auto simp: set_maintenance_def Let_def guard_inv_def guard_policy_ok_def guard_phase_def
      split: if_splits)

lemma acknowledge_stopped_inv:
  "guard_inv g \<Longrightarrow> guard_inv (fst (acknowledge_stopped g cycle feedback))"
  using latch_stop_timeout_inv [of g cycle]
  by (auto simp: acknowledge_stopped_def Let_def guard_inv_def guard_policy_ok_def guard_phase_def
      split: option.splits)

lemma latch_fault_inv: "guard_inv g \<Longrightarrow> guard_inv (latch_fault g code cycle)"
  by (cases "lg_state g")
    (auto simp: latch_fault_def Let_def guard_inv_def guard_policy_ok_def guard_phase_def)

lemma clear_fault_inv: "guard_inv g \<Longrightarrow> guard_inv (fst (clear_fault g cycle))"
  by (cases "lg_state g")
    (auto simp: clear_fault_def Let_def guard_inv_def guard_policy_ok_def guard_phase_def)

text \<open>What a permit has to satisfy to be admitted.\<close>

definition permit_admissible :: "lifecycle_guard \<Rightarrow> motion_permit \<Rightarrow> u64 \<Rightarrow> bool" where
  "permit_admissible g p now \<longleftrightarrow>
     mp_boot_id p = lg_boot_id g \<and> mp_source_id p = gp_authorized_source_id (lg_policy g) \<and>
     gp_minimum_authority (lg_policy g) \<le> mp_authority p \<and>
     mp_policy_version p = gp_permit_policy_version (lg_policy g) \<and>
     now < mp_expires_at_ns p \<and> mp_axis_mask p \<noteq> 0 \<and>
     mp_axis_mask p AND NOT (gp_allowed_axis_mask (lg_policy g)) = 0 \<and>
     (lg_state g = Active \<longrightarrow> mp_axis_mask p = lg_motion_axes_mask g) \<and>
     (lg_permit_epoch g < mp_permit_epoch p \<or>
      lg_permit_epoch g = mp_permit_epoch p \<and> lg_last_permit_sequence g < mp_sequence p)"

lemma accept_permit_admissible:
  "permit_admissible g p now \<Longrightarrow> accept_permit g p now =
     (g\<lparr>lg_permit_epoch := mp_permit_epoch p, lg_last_permit_sequence := mp_sequence p,
        lg_permit := Some p\<rparr>, Ok ())"
  by (auto simp: accept_permit_def permit_admissible_def not_le not_less)

lemma ex_if_image:
  "(c \<Longrightarrow> \<exists>e. a = f e) \<Longrightarrow> (\<not> c \<Longrightarrow> \<exists>e. b = f e) \<Longrightarrow> \<exists>e. (if c then a else b) = f e"
  by simp

lemma accept_permit_not_admissible:
  assumes "\<not> permit_admissible g p now"
  shows "\<exists>e. accept_permit g p now = reject_permit g p now e"
  unfolding accept_permit_def
  by (intro ex_if_image) (use assms in \<open>auto simp: permit_admissible_def not_le not_less\<close>)

lemma accept_permit_cases:
  obtains (accepted) "permit_admissible g p now" "accept_permit g p now =
     (g\<lparr>lg_permit_epoch := mp_permit_epoch p, lg_last_permit_sequence := mp_sequence p,
        lg_permit := Some p\<rparr>, Ok ())"
  | (rejected) e where "\<not> permit_admissible g p now" "accept_permit g p now = reject_permit g p now e"
      "snd (accept_permit g p now) = Err e"
proof (cases "permit_admissible g p now")
  case True
  from accepted [OF True accept_permit_admissible [OF True]] show ?thesis .
next
  case False
  then obtain e where e: "accept_permit g p now = reject_permit g p now e"
    using accept_permit_not_admissible by blast
  have "snd (accept_permit g p now) = Err e"
    unfolding e by (simp add: reject_permit_def Let_def)
  from rejected [OF False e this] show ?thesis .
qed

lemma request_rearm_inv: "guard_inv g \<Longrightarrow> guard_inv (fst (request_rearm g p cycle now))"
proof -
  assume inv: "guard_inv g"
  show ?thesis
  proof (cases rule: accept_permit_cases [of g p now])
    case accepted
    with inv show ?thesis
      by (cases "lg_state g")
        (auto simp: request_rearm_def Let_def guard_inv_def guard_policy_ok_def guard_phase_def
          permit_admissible_def)
  next
    case (rejected e)
    then have "accept_permit g p now = (fst (accept_permit g p now), Err e)"
      by (metis prod.collapse)
    with inv accept_permit_inv [OF inv, of p now] show ?thesis
      by (auto simp: request_rearm_def split: prod.splits sum.splits)
  qed
qed

lemma guard_cycle_inv: "guard_inv g \<Longrightarrow> guard_inv (fst (guard_cycle g cycle now))"
proof -
  assume inv: "guard_inv g"
  have stop: "guard_inv (transition ((revoke_permit g)\<lparr>lg_stop_started_cycle := Some cycle\<rparr>)
      Stopping cycle)" if "lg_state g = Active"
    using inv that by (simp add: guard_inv_def guard_policy_ok_def guard_phase_def)
  show ?thesis
    using inv latch_stop_timeout_inv [OF inv] latch_fault_inv [OF inv] stop
    by (cases "lg_state g")
      (auto simp: guard_cycle_def Let_def guard_inv_def guard_policy_ok_def guard_phase_def
        split: option.splits)
qed

lemma mark_stop_transmitted_inv:
  assumes "guard_inv (acd_guard d)" "is_stop (acd_action d) \<Longrightarrow> lg_state (acd_guard d) = Stopping \<or> lg_state (acd_guard d) = Maintenance"
  shows "guard_inv (acd_guard (fst (mark_stop_transmitted d)))"
  using assms
  by (auto simp: mark_stop_transmitted_def can_mark_stop_transmitted_def Let_def guard_inv_def
      guard_policy_ok_def guard_phase_def split: if_splits)

lemma guard_cycle_stop_state:
  "is_stop (snd (guard_cycle g cycle now)) \<Longrightarrow> guard_inv g \<Longrightarrow>
     lg_state (fst (guard_cycle g cycle now)) = Stopping \<or>
     lg_state (fst (guard_cycle g cycle now)) = Maintenance"
  by (cases "lg_state g")
    (auto simp: guard_cycle_def Let_def latch_fault_def guard_inv_def guard_phase_def
      split: option.splits if_splits)

lemma guard_exec_inv: "guard_inv g \<Longrightarrow> guard_inv (guard_exec g op)"
proof (cases op)
  case (OpCycle cycle now sent)
  assume inv: "guard_inv g"
  let ?d = "cycle_axes g cycle now"
  have d: "acd_guard ?d = fst (guard_cycle g cycle now)" "acd_action ?d = snd (guard_cycle g cycle now)"
    by (simp_all add: cycle_axes_def split: prod.splits)
  have "guard_inv (acd_guard (fst (mark_stop_transmitted ?d)))"
    using guard_cycle_stop_state [of g cycle now] inv
    by (intro mark_stop_transmitted_inv) (simp_all add: d guard_cycle_inv)
  with OpCycle d show ?thesis by (simp add: Let_def guard_cycle_inv inv)
qed (simp_all add: accept_permit_inv abort_active_cycle_inv set_maintenance_inv
    acknowledge_stopped_inv latch_fault_inv clear_fault_inv request_rearm_inv,
    simp_all add: guard_inv_def guard_policy_ok_def guard_phase_def)

interpretation guard: step_system guard_exec guard_inv
  by unfold_locales (rule guard_exec_inv)

lemma guard_run_inv: "guard_inv g \<Longrightarrow> guard_inv (guard_run g ops)"
  unfolding guard_run_def by (rule guard.run_invar)

end
