(* ===== verification/Guard_Safety.thy ===== *)
theory Guard_Safety
  imports Guard_Invariant
begin

text \<open>
  What the lifecycle guard promises to the machine: which axes a cycle may enable, how motion
  starts, how a stop ends, how a latched fault is left and that a motion permit is used once.
\<close>

section \<open>Enabling\<close>

lemma mask_bit_test: "(m :: 'a::len word) AND push_bit i 1 \<noteq> 0 \<longleftrightarrow> bit m i"
  by (simp add: and_exp_eq_0_iff_not_bit)

lemma mask_exp_test: "(m :: 'a::len word) AND 2 ^ i = 0 \<longleftrightarrow> \<not> bit m i"
  "2 ^ i AND (m :: 'a::len word) = 0 \<longleftrightarrow> \<not> bit m i"
  by (simp_all add: and_exp_eq_0_iff_not_bit and.commute [of "2 ^ i"])

lemma mask_subset_bit: "(m :: 'a::len word) AND NOT a = 0 \<Longrightarrow> bit m i \<Longrightarrow> bit a i"
  by (metis bit_and_iff bit_not_iff bit_0_eq bit_imp_possible_bit bot_apply bot_bool_def)

lemma gates_active_iff:
  "gates_active g cycle \<longleftrightarrow>
     (\<forall>i<MAX_GATES. push_bit i 1 AND lg_required_mask g \<noteq> 0 \<longrightarrow> gate_active g (lg_gates g ! i) cycle)"
  by (auto simp: gates_active_def list_all_iff)

lemma guard_cycle_enable:
  assumes "guard_inv g"
  shows "snd (guard_cycle g cycle now) = LaEnableAllowed \<longleftrightarrow>
    lg_state g = Active \<and> gates_active g cycle \<and> permit_current g now"
  by (auto simp: guard_cycle_def Let_def split: lifecycle_state.splits option.splits)

lemma guard_cycle_enable_frame:
  "snd (guard_cycle g cycle now) = LaEnableAllowed \<Longrightarrow> fst (guard_cycle g cycle now) = g"
  by (cases "lg_state g") (simp_all add: guard_cycle_def Let_def if_distrib [of snd] cong: if_cong split: if_split_asm)

lemma cycle_axes_simps [simp]:
  "acd_guard (cycle_axes g cycle now) = fst (guard_cycle g cycle now)"
  "acd_action (cycle_axes g cycle now) = snd (guard_cycle g cycle now)"
  "acd_cycle (cycle_axes g cycle now) = cycle"
  by (simp_all add: cycle_axes_def split: prod.splits)

lemma decision_axis_enable:
  "decision_axis d i = EnableAllowed \<longleftrightarrow>
     i < MAX_MOTION_AXES \<and> acd_action d = LaEnableAllowed \<and> bit (lg_motion_axes_mask (acd_guard d)) i"
  by (auto simp: decision_axis_def permitted_axis_mask_def mask_exp_test)

lemma permit_current_active:
  "lg_state g = Active \<Longrightarrow> permit_current g now \<longleftrightarrow>
     (\<exists>p. lg_permit g = Some p \<and> mp_boot_id p = lg_boot_id g \<and> mp_axis_mask p \<noteq> 0 \<and>
        mp_axis_mask p AND NOT (gp_allowed_axis_mask (lg_policy g)) = 0 \<and>
        mp_axis_mask p = lg_motion_axes_mask g \<and> now < mp_expires_at_ns p)"
  by (auto simp: permit_current_def split: option.splits)

lemma guard_history_inv:
  "length axis_policy = MAX_MOTION_AXES \<Longrightarrow>
     guard_inv (guard_run (guard_new_with_axis_stop_policy required boot policy axis_policy) ops)"
  by (rule guard_run_inv [OF guard_new_inv])

text \<open>The configuration a guard was built with.\<close>

definition guard_config :: "lifecycle_guard \<Rightarrow> guard_policy \<times> u16 \<times> u64 \<times> axis_stop_policy" where
  "guard_config g = (lg_policy g, lg_required_mask g, lg_boot_id g, lg_axis_stop_policy g)"

lemma guard_config_steps [simp]:
  "guard_config (update_gate g gate valid cycle code) = guard_config g"
  "guard_config (update_cyclic_quality g q cycle) = guard_config g"
  "guard_config (fst (update_host_observation g obs cycle now age)) = guard_config g"
  "guard_config (revoke_permit g) = guard_config g"
  "guard_config (invalidate_gate_qualification g cycle) = guard_config g"
  "guard_config (transition_with_fault g state cycle code) = guard_config g"
  "guard_config (transition g state cycle) = guard_config g"
  "guard_config (fst (accept_permit g p now)) = guard_config g"
  by (simp_all add: guard_config_def)

lemma guard_config_updates [simp]:
  "guard_config (g\<lparr>lg_stop_started_cycle := a\<rparr>) = guard_config g"
  "guard_config (g\<lparr>lg_stop_issued_cycle := a\<rparr>) = guard_config g"
  "guard_config (g\<lparr>lg_stop_timeout_record := r\<rparr>) = guard_config g"
  "guard_config (g\<lparr>lg_pending_stop_timeout_events_mask := m\<rparr>) = guard_config g"
  "guard_config (g\<lparr>lg_maintenance_stop_pending := b\<rparr>) = guard_config g"
  "guard_config (g\<lparr>lg_motion_axes_mask := m\<rparr>) = guard_config g"
  "guard_config (g\<lparr>lg_pending_fault_code := f\<rparr>) = guard_config g"
  "guard_config (g\<lparr>lg_first_fault_code := c\<rparr>) = guard_config g"
  "guard_config (g\<lparr>lg_latched_fault_code := c\<rparr>) = guard_config g"
  "guard_config (g\<lparr>lg_recovery_count := n\<rparr>) = guard_config g"
  by (simp_all add: guard_config_def)

lemma guard_config_ops [simp]:
  "guard_config (latch_stop_timeout g cycle) = guard_config g"
  "guard_config (fst (abort_active_cycle g cycle code)) = guard_config g"
  "guard_config (set_maintenance g enabled cycle) = guard_config g"
  "guard_config (latch_fault g code cycle) = guard_config g"
  "guard_config (fst (clear_fault g cycle)) = guard_config g"
  by (simp_all add: latch_stop_timeout_def abort_active_cycle_def set_maintenance_def
      latch_fault_def clear_fault_def Let_def)

lemma guard_config_ack [simp]: "guard_config (fst (acknowledge_stopped g cycle fb)) = guard_config g"
  by (simp add: acknowledge_stopped_def Let_def split: option.splits)

lemma guard_config_rearm [simp]: "guard_config (fst (request_rearm g p cycle now)) = guard_config g"
  by (simp add: request_rearm_def Let_def case_prod_beta split: sum.splits)

lemma guard_config_cycle [simp]: "guard_config (fst (guard_cycle g cycle now)) = guard_config g"
  by (simp add: guard_cycle_def Let_def split: lifecycle_state.splits option.splits)

lemma mark_stop_transmitted_guard:
  "acd_guard (fst (mark_stop_transmitted d)) =
     (if can_mark_stop_transmitted d \<and> lg_stop_issued_cycle (acd_guard d) = None
      then (acd_guard d)\<lparr>lg_stop_issued_cycle := Some (acd_cycle d)\<rparr> else acd_guard d)"
  by (simp add: mark_stop_transmitted_def Let_def)

lemma guard_exec_config [simp]: "guard_config (guard_exec g op) = guard_config g"
  by (cases op) (simp_all add: Let_def mark_stop_transmitted_guard)

lemma guard_run_config: "guard_config (guard_run g ops) = guard_config g"
  unfolding guard_run_def by (induction ops arbitrary: g) simp_all

text \<open>C4. In every history of a guard, an axis is enabled in a cycle exactly when the guard is
  active, every required gate is qualified, valid and fresh in that cycle, and the permit the
  guard holds has this boot's identity, has not expired, covers exactly the axes that were
  armed, of which the axis is one, and stays inside the axes the policy allows.\<close>

theorem enable_iff_fully_qualified:
  assumes "length axis_policy = MAX_MOTION_AXES"
    and "g = guard_run (guard_new_with_axis_stop_policy required boot policy axis_policy) ops"
  shows "decision_axis (cycle_axes g cycle now) i = EnableAllowed \<longleftrightarrow>
    i < MAX_MOTION_AXES \<and> lg_state g = Active \<and> bit (lg_motion_axes_mask g) i \<and>
    (\<forall>j<MAX_GATES. bit required j \<longrightarrow> gate_active g (lg_gates g ! j) cycle) \<and>
    (\<exists>p. lg_permit g = Some p \<and> mp_boot_id p = boot \<and> now < mp_expires_at_ns p \<and>
       mp_axis_mask p = lg_motion_axes_mask g \<and>
       mp_axis_mask p AND NOT (gp_allowed_axis_mask policy) = 0)"
proof -
  have cfg: "lg_required_mask g = required" "lg_boot_id g = boot"
    "gp_allowed_axis_mask (lg_policy g) = gp_allowed_axis_mask policy"
    using guard_run_config [of "guard_new_with_axis_stop_policy required boot policy axis_policy" ops]
      assms(2) by (auto simp: guard_config_def guard_new_with_axis_stop_policy_def
        guard_policy_normalized_def)
  have gates: "gates_active g cycle \<longleftrightarrow>
      (\<forall>j<MAX_GATES. bit required j \<longrightarrow> gate_active g (lg_gates g ! j) cycle)"
    by (simp add: gates_active_iff cfg mask_exp_test)
  have inv: "guard_inv g" using guard_history_inv assms by simp
  have "lg_motion_axes_mask g \<noteq> 0" if "lg_state g = Active"
    using inv that by (simp add: guard_inv_def guard_phase_def)
  then have enable: "snd (guard_cycle g cycle now) = LaEnableAllowed \<longleftrightarrow> lg_state g = Active \<and>
      gates_active g cycle \<and> (\<exists>p. lg_permit g = Some p \<and> mp_boot_id p = boot \<and>
        now < mp_expires_at_ns p \<and> mp_axis_mask p = lg_motion_axes_mask g \<and>
        mp_axis_mask p AND NOT (gp_allowed_axis_mask policy) = 0)"
    using guard_cycle_enable [OF inv] permit_current_active [of g now] cfg by auto
  show ?thesis
    unfolding decision_axis_enable cycle_axes_simps
    using enable gates guard_cycle_enable_frame [of g cycle now] by auto
qed

text \<open>A machine with two axes that requires its link: the link is observed good, then a permit
  for both axes arms it.\<close>

definition sample_policy :: guard_policy where
  "sample_policy = guard_policy_conservative\<lparr>gp_enter_good_cycles := 1, gp_stop_timeout_cycles := 5,
     gp_allowed_axis_mask := 3\<rparr>"

definition sample_permit :: motion_permit where
  "sample_permit = \<lparr>mp_boot_id = 7, mp_source_id = 1, mp_permit_epoch = 0, mp_sequence = 1,
     mp_expires_at_ns = 100, mp_axis_mask = 3, mp_authority = 1, mp_reserved = replicate 3 0,
     mp_policy_version = 1\<rparr>"

definition sample_start :: lifecycle_guard where
  "sample_start = guard_new_with_axis_stop_policy 8 7 sample_policy
     (axis_stop_policy_uniform QuickStop)"

definition sample_arm :: "guard_op list" where
  "sample_arm = [OpUpdateGate Link True 1 0, OpRequestRearm sample_permit 1 10]"

lemma sample_start_simps [simp]:
  "lg_policy sample_start = sample_policy" "lg_required_mask sample_start = 8"
  "lg_gates sample_start = replicate MAX_GATES gate_status_empty" "lg_boot_id sample_start = 7"
  "lg_requalify_after_cycle sample_start = None" "lg_state sample_start = Qualifying"
  "lg_permit_epoch sample_start = 0" "lg_last_permit_sequence sample_start = 0"
  "lg_motion_axes_mask sample_start = 0" "lg_permit sample_start = None"
  "lg_stop_started_cycle sample_start = None" "lg_pending_fault_code sample_start = None"
  "lg_maintenance_stop_pending sample_start = False" "lg_stop_issued_cycle sample_start = None"
  by (simp_all add: sample_start_def guard_new_with_axis_stop_policy_def sample_policy_def
      guard_policy_normalized_def guard_policy_conservative_def)

lemma sample_start_inv: "guard_inv sample_start"
  by (simp add: sample_start_def guard_new_inv axis_stop_policy_uniform_def)

lemma sample_link:
  "update_gate sample_start Link True 1 0 = sample_start\<lparr>lg_gates :=
     (replicate MAX_GATES gate_status_empty)[3 := \<lparr>gs_valid = True, gs_qualified = True,
        gs_good_cycles = 1, gs_bad_cycles = 0, gs_last_update_cycle = 1, gs_fault_code = 0\<rparr>]\<rparr>"
  by (simp add: update_gate_def gate_good_def gate_observed_def gate_status_empty_def
      MAX_GATES_def sample_policy_def guard_policy_conservative_def)

lemma sample_gates_ready:
  "gates_ready ((update_gate sample_start Link True 1 0)\<lparr>lg_permit_epoch := e,
     lg_last_permit_sequence := n, lg_permit := p\<rparr>) 1"
  by (simp add: sample_link gates_ready_def gate_ready_def MAX_GATES_def upt_rec nth_list_update
      sample_policy_def guard_policy_conservative_def)

lemma sample_admissible: "permit_admissible (update_gate sample_start Link True 1 0) sample_permit 10"
  by (simp add: permit_admissible_def sample_permit_def sample_policy_def
      guard_policy_conservative_def)

definition sample_active :: lifecycle_guard where
  "sample_active = guard_run sample_start sample_arm"

lemma sample_active_simps [simp]:
  "lg_state sample_active = Active" "lg_motion_axes_mask sample_active = 3"
  "lg_permit sample_active = Some sample_permit" "lg_policy sample_active = sample_policy"
  "lg_gates sample_active = (replicate MAX_GATES gate_status_empty)[3 := \<lparr>gs_valid = True,
     gs_qualified = True, gs_good_cycles = 1, gs_bad_cycles = 0, gs_last_update_cycle = 1,
     gs_fault_code = 0\<rparr>]"
  "lg_required_mask sample_active = 8" "lg_boot_id sample_active = 7"
  "lg_stop_started_cycle sample_active = None" "lg_pending_fault_code sample_active = None"
  "lg_maintenance_stop_pending sample_active = False" "lg_permit_epoch sample_active = 0"
  "lg_last_permit_sequence sample_active = 1" "lg_stop_issued_cycle sample_active = None"
  "lg_requalify_after_cycle sample_active = None"
  by (simp_all add: sample_active_def guard_run_def sample_arm_def request_rearm_def Let_def
      sample_gates_ready accept_permit_admissible [OF sample_admissible])
    (simp_all add: sample_link sample_permit_def)

lemma sample_required_bit: "bit (8 :: u16) j \<longleftrightarrow> j = 3"
  using bit_exp_iff [of 3 j, where 'a = u16] by auto

lemma sample_active_inv: "guard_inv sample_active"
  unfolding sample_active_def by (rule guard_run_inv [OF sample_start_inv])

theorem enable_iff_fully_qualified_witness:
  "decision_axis (cycle_axes (guard_run sample_start sample_arm) 2 20) 1 = EnableAllowed"
proof -
  have len: "length (axis_stop_policy_uniform QuickStop) = MAX_MOTION_AXES"
    by (simp add: axis_stop_policy_uniform_def)
  have run: "sample_active = guard_run (guard_new_with_axis_stop_policy 8 7 sample_policy
      (axis_stop_policy_uniform QuickStop)) sample_arm"
    by (simp add: sample_active_def sample_start_def)
  have gates: "\<forall>j<MAX_GATES. bit (8 :: u16) j \<longrightarrow> gate_active sample_active (lg_gates sample_active ! j) 2"
    unfolding sample_required_bit
    by (auto simp: gate_active_def MAX_GATES_def sample_policy_def guard_policy_conservative_def)
  from enable_iff_fully_qualified [OF len run, of 2 20 1] gates
  show ?thesis
    by (simp add: sample_active_def [symmetric] MAX_MOTION_AXES_def sample_permit_def
        sample_policy_def guard_policy_conservative_def)
qed

section \<open>How the state changes\<close>

text \<open>The state after each operation, as the operation's guards decide it.\<close>

lemma request_rearm_state:
  "lg_state (fst (request_rearm g p cycle now)) =
     (if (lg_state g = Ready \<or> lg_state g = Qualifying) \<and> permit_admissible g p now \<and>
         gates_ready g cycle then Active else lg_state g)"
proof (cases rule: accept_permit_cases [of g p now])
  case accepted
  then show ?thesis
    by (auto simp: request_rearm_def Let_def gates_ready_def gate_ready_def)
next
  case (rejected e)
  then have "accept_permit g p now = (fst (accept_permit g p now), Err e)"
    by (metis prod.collapse)
  with rejected show ?thesis
    by (auto simp: request_rearm_def case_prod_beta split: sum.splits)
qed

lemma latch_fault_state:
  "lg_state (latch_fault g code cycle) =
     (if lg_state g = FaultLatched \<or> lg_pending_fault_code g \<noteq> None then lg_state g
      else if lg_state g = Active \<or> lg_state g = Stopping then Stopping
      else if lg_maintenance_stop_pending g then (if lg_state g = Maintenance then Maintenance else Stopping)
      else FaultLatched)"
  by (simp add: latch_fault_def Let_def)

lemma guard_cycle_state:
  "lg_state (fst (guard_cycle g cycle now)) =
     (if (lg_state g = Stopping \<or> lg_state g = Maintenance) \<and> stop_timed_out g cycle then FaultLatched
      else case lg_state g of
        Active \<Rightarrow> if gates_active g cycle \<and> permit_current g now then Active
                  else (case hard_required_gate_fault g cycle of
                    Some code \<Rightarrow> lg_state (latch_fault g code cycle) | None \<Rightarrow> Stopping)
      | Qualifying \<Rightarrow> if gates_ready g cycle \<and> permit_current g now then Ready else Qualifying
      | Ready \<Rightarrow> if gates_ready g cycle \<and> permit_current g now then Ready else Qualifying
      | s \<Rightarrow> s)"
  by (auto simp: guard_cycle_def Let_def split: lifecycle_state.splits option.splits)

lemma acknowledge_stopped_state:
  "lg_state (fst (acknowledge_stopped g cycle fb)) =
     (if lg_state g \<noteq> Stopping then lg_state g
      else if stop_timed_out g cycle then FaultLatched
      else if snd (acknowledge_stopped g cycle fb) = Ok ()
      then (if lg_pending_fault_code g = None then Ready else FaultLatched) else Stopping)"
  by (simp add: acknowledge_stopped_def Let_def split: option.splits)

lemma set_maintenance_state:
  "lg_state (set_maintenance g enabled cycle) =
     (if lg_state g = FaultLatched then FaultLatched
      else if enabled then Maintenance
      else if lg_state g = Maintenance
      then (if lg_maintenance_stop_pending g then Stopping else Qualifying) else lg_state g)"
  by (simp add: set_maintenance_def Let_def)

lemma clear_fault_state:
  "lg_state (fst (clear_fault g cycle)) =
     (if lg_state g = FaultLatched \<and> gates_ready g cycle then Qualifying else lg_state g)"
  by (simp add: clear_fault_def Let_def)

lemma abort_active_cycle_state:
  "lg_state (fst (abort_active_cycle g cycle code)) =
     (if lg_state g = Active \<and> lg_motion_axes_mask g \<noteq> 0 \<and> lg_state_since_cycle g \<le> cycle \<and> code \<noteq> 0
      then Stopping else lg_state g)"
  by (auto simp: abort_active_cycle_def Let_def)

lemma op_cycle_state:
  "lg_state (guard_exec g (OpCycle cycle now sent)) = lg_state (fst (guard_cycle g cycle now))"
  by (simp add: Let_def mark_stop_transmitted_guard)

lemmas op_state = request_rearm_state latch_fault_state guard_cycle_state acknowledge_stopped_state
  set_maintenance_state clear_fault_state abort_active_cycle_state op_cycle_state

text \<open>C5. Motion starts in one way only: if an operation takes a guard into \<open>Active\<close>, it is a
  rearm request, made in \<open>Ready\<close> or \<open>Qualifying\<close>, with a permit that satisfies every admission
  rule, in a cycle in which every required gate is ready; the axes it arms are the permit's.\<close>

theorem only_rearm_activates:
  assumes "lg_state g \<noteq> Active" and "lg_state (guard_exec g op) = Active"
  shows "\<exists>p cycle now. op = OpRequestRearm p cycle now \<and> lg_state g \<in> {Ready, Qualifying} \<and>
    permit_admissible g p now \<and> gates_ready g cycle \<and>
    lg_motion_axes_mask (guard_exec g op) = mp_axis_mask p \<and>
    lg_permit (guard_exec g op) = Some p"
proof -
  from assms obtain p cycle now where op: "op = OpRequestRearm p cycle now"
    by (cases op; cases "lg_state g")
      (auto simp: op_state simp del: guard_exec.simps(12) split: if_splits option.splits)
  with assms have c: "lg_state g \<in> {Ready, Qualifying}" "permit_admissible g p now" "gates_ready g cycle"
    by (auto simp: op_state split: if_splits)
  then have "lg_motion_axes_mask (guard_exec g op) = mp_axis_mask p \<and> lg_permit (guard_exec g op) = Some p"
    by (auto simp: op request_rearm_def Let_def accept_permit_admissible gates_ready_def gate_ready_def)
  with op c show ?thesis by blast
qed

theorem only_rearm_activates_witness:
  "permit_admissible (update_gate sample_start Link True 1 0) sample_permit 10 \<and>
   gates_ready (update_gate sample_start Link True 1 0) 1"
proof -
  have "guard_exec (update_gate sample_start Link True 1 0) (OpRequestRearm sample_permit 1 10) =
      sample_active"
    by (simp add: sample_active_def guard_run_def sample_arm_def)
  with only_rearm_activates [of "update_gate sample_start Link True 1 0"
      "OpRequestRearm sample_permit 1 10"]
  show ?thesis by auto
qed

text \<open>C6. A latched fault is left in one way only: by \<open>clear_fault\<close>, in a cycle in which every
  required gate is ready again; it leads to \<open>Qualifying\<close> with the permit revoked and no axis
  armed, so that motion needs a new permit. No other operation, maintenance included, leaves
  \<open>FaultLatched\<close>.\<close>

theorem fault_left_only_by_clear:
  assumes "lg_state g = FaultLatched" and "lg_state (guard_exec g op) \<noteq> FaultLatched"
  shows "\<exists>cycle. op = OpClearFault cycle \<and> gates_ready g cycle \<and>
    lg_state (guard_exec g op) = Qualifying \<and> lg_permit (guard_exec g op) = None \<and>
    lg_permit_epoch (guard_exec g op) = sat_add (lg_permit_epoch g) 1 \<and>
    lg_motion_axes_mask (guard_exec g op) = 0"
proof -
  from assms obtain cycle where op: "op = OpClearFault cycle"
    by (cases op) (auto simp: op_state simp del: guard_exec.simps(12) split: if_splits)
  moreover from op assms have "gates_ready g cycle"
    by (auto simp: op_state split: if_splits)
  moreover from this op assms have "lg_state (guard_exec g op) = Qualifying \<and>
      lg_permit (guard_exec g op) = None \<and>
      lg_permit_epoch (guard_exec g op) = sat_add (lg_permit_epoch g) 1 \<and>
      lg_motion_axes_mask (guard_exec g op) = 0"
    by (simp add: clear_fault_def Let_def) (simp add: revoke_permit_def)
  ultimately show ?thesis by blast
qed

definition sample_fault :: lifecycle_guard where
  "sample_fault = guard_run sample_start [OpLatchFault 5 1, OpUpdateGate Link True 2 0]"

lemma sample_fault_simps [simp]:
  "lg_state sample_fault = FaultLatched" "lg_policy sample_fault = sample_policy"
  "lg_required_mask sample_fault = 8"
  "lg_gates sample_fault ! 3 = \<lparr>gs_valid = True, gs_qualified = True, gs_good_cycles = 1,
     gs_bad_cycles = 0, gs_last_update_cycle = 2, gs_fault_code = 0\<rparr>"
  by (simp_all add: sample_fault_def guard_run_def latch_fault_def Let_def)
    (simp add: update_gate_def invalidate_gate_qualification_def gate_good_def gate_observed_def
      MAX_GATES_def gate_status_empty_def sample_policy_def guard_policy_conservative_def
      word_le_nat_alt Let_def)

lemma sample_fault_ready: "gates_ready sample_fault 2"
  by (simp add: gates_ready_def gate_ready_def MAX_GATES_def upt_rec sample_policy_def
      guard_policy_conservative_def numeral_3_eq_3 [symmetric])

theorem fault_left_only_by_clear_witness:
  "lg_permit (guard_exec sample_fault (OpClearFault 2)) = None \<and>
   lg_state (guard_exec sample_fault (OpClearFault 2)) = Qualifying"
  using fault_left_only_by_clear [of sample_fault "OpClearFault 2"]
  by (simp add: clear_fault_state sample_fault_ready)

end
