(* ===== verification/Guard_Stop.thy ===== *)
theory Guard_Stop
  imports Guard_Safety
begin

text \<open>
  How a stop proceeds: its start is recorded once and cannot be postponed, it ends with complete
  feedback for a stop frame that was transmitted in an earlier cycle or with the timeout fault,
  and maintenance only carries it along.
\<close>

lemma stop_started_state:
  "guard_inv g \<Longrightarrow> lg_stop_started_cycle g = Some s \<Longrightarrow>
     lg_state g = Stopping \<or> lg_state g = Maintenance \<and> lg_maintenance_stop_pending g"
  by (cases "lg_state g") (auto simp: guard_inv_def guard_phase_def split: if_splits)

lemma latch_fault_started:
  "guard_inv g \<Longrightarrow> lg_stop_started_cycle g = Some s \<Longrightarrow>
     lg_stop_started_cycle (latch_fault g code cycle) = Some s"
  using stop_started_state [of g s] by (auto simp: latch_fault_def Let_def)

lemma set_maintenance_started:
  "guard_inv g \<Longrightarrow> lg_stop_started_cycle g = Some s \<Longrightarrow>
     lg_stop_started_cycle (set_maintenance g enabled cycle) = Some s"
  using stop_started_state [of g s] by (auto simp: set_maintenance_def Let_def)

lemma acknowledge_started:
  "lg_stop_started_cycle g = Some s \<Longrightarrow>
     lg_stop_started_cycle (fst (acknowledge_stopped g cycle fb)) =
       (if lg_state g = Stopping \<and> (stop_timed_out g cycle \<or> snd (acknowledge_stopped g cycle fb) = Ok ())
        then None else Some s)"
  by (auto simp: acknowledge_stopped_def Let_def split: option.splits)

lemma guard_cycle_started:
  "guard_inv g \<Longrightarrow> lg_stop_started_cycle g = Some s \<Longrightarrow>
     lg_stop_started_cycle (fst (guard_cycle g cycle now)) =
       (if stop_timed_out g cycle then None else Some s)"
  using stop_started_state [of g s] by (auto simp: guard_cycle_def Let_def)

lemma stop_start_not_postponed:
  assumes "guard_inv g" "lg_stop_started_cycle g = Some s"
    "lg_stop_started_cycle (guard_exec g op) \<noteq> None"
  shows "lg_stop_started_cycle (guard_exec g op) = Some s"
  using assms stop_started_state [OF assms(1,2)]
  by (cases op) (auto simp: latch_fault_started set_maintenance_started acknowledge_started
      guard_cycle_started abort_active_cycle_def clear_fault_def request_rearm_def
      mark_stop_transmitted_guard Let_def split: if_splits)

lemma stop_start_not_postponed_run:
  assumes "guard_inv g" "lg_stop_started_cycle g = Some s"
    "\<forall>k\<le>length ops. lg_stop_started_cycle (guard_run g (take k ops)) \<noteq> None"
  shows "lg_stop_started_cycle (guard_run g ops) = Some s"
  using assms
proof (induction ops rule: rev_induct)
  case Nil
  then show ?case by (simp add: guard_run_def)
next
  case (snoc op ops)
  have "lg_stop_started_cycle (guard_run g (take k ops)) \<noteq> None" if "k \<le> length ops" for k
    using that snoc.prems(3) [rule_format, of k] by simp
  then have "lg_stop_started_cycle (guard_run g ops) = Some s"
    using snoc by blast
  moreover have "lg_stop_started_cycle (guard_exec (guard_run g ops) op) \<noteq> None"
    using snoc.prems(3) [rule_format, of "Suc (length ops)"] by (simp add: guard_run_def)
  moreover have "guard_inv (guard_run g ops)" using snoc.prems(1) by (rule guard_run_inv)
  ultimately have "lg_stop_started_cycle (guard_exec (guard_run g ops) op) = Some s"
    using stop_start_not_postponed by blast
  then show ?case by (simp add: guard_run_def)
qed

lemma timed_out_cycle:
  assumes "guard_inv g" "lg_stop_started_cycle g = Some s" "s \<le> c"
    "gp_stop_timeout_cycles (lg_policy g) \<le> c - s"
  shows "guard_exec g (OpCycle c now sent) = latch_stop_timeout g c"
  using stop_started_state [OF assms(1,2)] assms(2-4)
  by (auto simp: guard_cycle_def stop_timed_out_def Let_def mark_stop_transmitted_guard
      can_mark_stop_transmitted_def)

lemma latch_stop_timeout_record:
  "lg_stop_timeout_record (latch_stop_timeout g c) = Some \<lparr>st_cycle = c,
     st_transition_sequence = lg_transition_sequence (latch_stop_timeout g c),
     st_first_issued_cycle = lg_stop_issued_cycle g, st_axis_mask = lg_motion_axes_mask g,
     st_actions = (if lg_maintenance_stop_pending g \<or> lg_state g = Maintenance
       then replicate MAX_MOTION_AXES Disable else lg_axis_stop_policy g)\<rparr>"
  "lg_latched_fault_code (latch_stop_timeout g c) = STOP_TIMEOUT_FAULT_CODE"
  by (simp_all add: latch_stop_timeout_def Let_def)

text \<open>C7. A stop cannot be prolonged beyond its timeout: if a stop started in cycle \<open>s\<close> and is
  still under way after any further operations, then the first cycle that is the timeout or
  more after \<open>s\<close> latches the stop timeout fault, inhibits every axis, revokes the permit and
  records the axes that did not stop and the first cycle in which a stop frame was sent. No
  operation between restarts the clock.\<close>

theorem stop_timeout_latches:
  assumes "guard_inv g" and "lg_stop_started_cycle g = Some s"
    and "\<forall>k\<le>length ops. lg_stop_started_cycle (guard_run g (take k ops)) \<noteq> None"
    and "s \<le> c" and "gp_stop_timeout_cycles (lg_policy g) \<le> c - s"
    and "h = guard_run g ops" and "h' = guard_exec h (OpCycle c now sent)"
  shows "lg_state h' = FaultLatched \<and> lg_latched_fault_code h' = STOP_TIMEOUT_FAULT_CODE \<and>
    lg_motion_axes_mask h' = 0 \<and> lg_permit h' = None \<and>
    (\<exists>r. lg_stop_timeout_record h' = Some r \<and> st_cycle r = c \<and>
       st_axis_mask r = lg_motion_axes_mask h \<and> st_first_issued_cycle r = lg_stop_issued_cycle h)"
proof -
  have inv: "guard_inv h" unfolding assms(6) using assms(1) by (rule guard_run_inv)
  have started: "lg_stop_started_cycle h = Some s"
    unfolding assms(6) using assms(1-3) by (rule stop_start_not_postponed_run)
  have "lg_policy h = lg_policy g"
    using guard_run_config [of g ops] assms(6) by (simp add: guard_config_def)
  then have "h' = latch_stop_timeout h c"
    unfolding assms(7) using timed_out_cycle [OF inv started assms(4)] assms(5) by simp
  then show ?thesis by (simp add: latch_stop_timeout_record)
qed

lemma covers_bits: "covers r a \<longleftrightarrow> (\<forall>i. bit a i \<longrightarrow> bit r i)"
  unfolding covers_def by (metis bit_and_iff bit_word_eqI)

lemma acknowledge_stopped_ok:
  assumes "snd (acknowledge_stopped g cycle fb) = Ok ()"
  shows "lg_state g = Stopping" "\<not> stop_timed_out g cycle" "sf_cycle fb = cycle"
    "lg_state_since_cycle g < cycle" "\<exists>issued. lg_stop_issued_cycle g = Some issued \<and> issued < cycle"
    "\<forall>i. bit (lg_motion_axes_mask g) i \<longrightarrow> bit (sf_observed_axis_mask fb) i \<and>
       bit (sf_stationary_axis_mask fb) i \<and> bit (sf_non_enabled_axis_mask fb) i"
  using assms
  by (auto simp: acknowledge_stopped_def covers_bits not_le split: if_splits option.splits)

text \<open>C8. A stop ends in one of three ways. Either the stop timed out; or maintenance took it
  over, with the axes and the start of the stop kept; or it was acknowledged: the feedback is of
  the acknowledging cycle, that cycle is later than the change of state and than the first
  transmitted stop frame, and every moving axis was observed, stationary and not enabled. The
  guard is then ready, or fault latched if a fault had been waiting for the stop.\<close>

theorem stop_ends_verified:
  assumes "guard_inv g" and "lg_state g = Stopping" and "lg_state (guard_exec g op) \<noteq> Stopping"
  shows "(\<exists>cycle now sent fb. (op = OpCycle cycle now sent \<or> op = OpAcknowledgeStopped cycle fb) \<and>
      stop_timed_out g cycle \<and> lg_state (guard_exec g op) = FaultLatched) \<or>
    (\<exists>cycle. op = OpSetMaintenance True cycle \<and> lg_state (guard_exec g op) = Maintenance \<and>
      lg_maintenance_stop_pending (guard_exec g op) \<and>
      lg_motion_axes_mask (guard_exec g op) = lg_motion_axes_mask g \<and>
      lg_stop_started_cycle (guard_exec g op) = lg_stop_started_cycle g) \<or>
    (\<exists>cycle fb issued. op = OpAcknowledgeStopped cycle fb \<and> \<not> stop_timed_out g cycle \<and>
      sf_cycle fb = cycle \<and> lg_state_since_cycle g < cycle \<and>
      lg_stop_issued_cycle g = Some issued \<and> issued < cycle \<and>
      (\<forall>i. bit (lg_motion_axes_mask g) i \<longrightarrow> bit (sf_observed_axis_mask fb) i \<and>
         bit (sf_stationary_axis_mask fb) i \<and> bit (sf_non_enabled_axis_mask fb) i) \<and>
      lg_state (guard_exec g op) =
        (if lg_pending_fault_code g = None then Ready else FaultLatched))"
proof (cases op)
  case (OpSetMaintenance enabled cycle)
  with assms show ?thesis
    by (simp add: set_maintenance_def Let_def split: if_splits)
next
  case (OpAcknowledgeStopped cycle fb)
  show ?thesis
  proof (cases "stop_timed_out g cycle")
    case True
    with OpAcknowledgeStopped assms show ?thesis by (auto simp: acknowledge_stopped_state)
  next
    case False
    with OpAcknowledgeStopped assms have "snd (acknowledge_stopped g cycle fb) = Ok ()"
      by (auto simp: acknowledge_stopped_state split: if_splits)
    with False OpAcknowledgeStopped assms(2) acknowledge_stopped_ok [OF this] show ?thesis
      by (auto simp: acknowledge_stopped_state)
  qed
next
  case (OpCycle cycle now sent)
  with assms show ?thesis
    by (simp add: op_state del: guard_exec.simps(12) split: if_splits)
qed (use assms in \<open>auto simp: op_state split: if_splits\<close>)

section \<open>A stop of the sample machine\<close>

text \<open>The link fails in cycle 3; the cycle owner sends the stop frame in cycle 4.\<close>

definition sample_stopping :: lifecycle_guard where
  "sample_stopping = guard_exec (guard_exec sample_active (OpUpdateGate Link False 3 9)) (OpCycle 4 30 True)"

definition sample_feedback :: stop_feedback where
  "sample_feedback = \<lparr>sf_cycle = 5, sf_observed_axis_mask = 3, sf_stationary_axis_mask = 3,
     sf_non_enabled_axis_mask = 3\<rparr>"

lemma sample_hard_gates: "lg_required_mask g = 8 \<Longrightarrow> hard_required_gate_fault g cycle = None"
  by (simp add: hard_required_gate_fault_def hard_gate_order_def gate_bit_def)

lemma sample_link_lost:
  "guard_cycle (update_gate sample_active Link False 3 9) 4 30 =
     (transition ((revoke_permit (update_gate sample_active Link False 3 9))
        \<lparr>lg_stop_started_cycle := Some 4\<rparr>) Stopping 4, LaStop QuickStop)"
proof -
  have "\<not> gates_active (update_gate sample_active Link False 3 9) 4"
    by (simp add: gates_active_iff)
      (rule exI [of _ 3], simp add: update_gate_def gate_active_def gate_bad_def MAX_GATES_def
        gate_observed_def Let_def mask_exp_test)
  then show ?thesis
    by (simp add: guard_cycle_def sample_hard_gates effective_stop_action_def sample_policy_def
        guard_policy_conservative_def)
qed

lemma sample_stopping_simps [simp]:
  "lg_state sample_stopping = Stopping" "lg_motion_axes_mask sample_stopping = 3"
  "lg_stop_started_cycle sample_stopping = Some 4" "lg_policy sample_stopping = sample_policy"
  "lg_pending_fault_code sample_stopping = None" "lg_maintenance_stop_pending sample_stopping = False"
  "lg_stop_issued_cycle sample_stopping = Some 4" "lg_state_since_cycle sample_stopping = 4"
  by (simp_all add: sample_stopping_def cycle_axes_def sample_link_lost Let_def
      mark_stop_transmitted_guard can_mark_stop_transmitted_def transition_def
      transition_with_fault_def)

lemma sample_stopping_inv: "guard_inv sample_stopping"
  unfolding sample_stopping_def by (intro guard_exec_inv sample_active_inv)

theorem stop_timeout_latches_witness:
  "lg_state (guard_exec (guard_run sample_stopping [OpSetMaintenance True 5]) (OpCycle 9 60 True)) =
     FaultLatched"
proof -
  have all: "\<forall>k\<le>length [OpSetMaintenance True 5].
      lg_stop_started_cycle (guard_run sample_stopping (take k [OpSetMaintenance True 5])) \<noteq> None"
    by (simp add: guard_run_def take_Cons' set_maintenance_started [OF sample_stopping_inv])
  show ?thesis
    using stop_timeout_latches [OF sample_stopping_inv sample_stopping_simps(3) all _ _ refl refl,
      of 9 60 True]
    by (simp add: sample_policy_def guard_policy_conservative_def del: guard_exec.simps)
qed

theorem stop_ends_verified_witness:
  "lg_state (guard_exec sample_stopping (OpAcknowledgeStopped 5 sample_feedback)) = Ready"
proof -
  have "snd (acknowledge_stopped sample_stopping 5 sample_feedback) = Ok ()"
    by (simp add: acknowledge_stopped_def stop_timed_out_def sample_feedback_def covers_def Let_def
        sample_policy_def guard_policy_conservative_def word_le_nat_alt)
  moreover have "\<not> stop_timed_out sample_stopping 5"
    by (simp add: stop_timed_out_def sample_policy_def guard_policy_conservative_def word_le_nat_alt)
  ultimately show ?thesis
    using stop_ends_verified [OF sample_stopping_inv, of "OpAcknowledgeStopped 5 sample_feedback"]
    by (auto simp: acknowledge_stopped_state)
qed

end
