(* ===== verification/Guard_Permit.thy ===== *)
theory Guard_Permit
  imports Guard_Stop
begin

text \<open>
  A motion permit is used once. The guard remembers the epoch and the sequence number of the
  last permit it admitted; revoking a permit opens the next epoch. A permit at or below that
  mark is spent, and no operation of the guard lowers the mark.
\<close>

definition permit_spent :: "u64 \<Rightarrow> u64 \<Rightarrow> lifecycle_guard \<Rightarrow> bool" where
  "permit_spent epoch sequence g \<longleftrightarrow> epoch < lg_permit_epoch g \<or>
     epoch = lg_permit_epoch g \<and> sequence \<le> lg_last_permit_sequence g"

text \<open>What an operation can do to the mark: keep it, open the next epoch, or move it to the
  permit that was admitted.\<close>

definition permit_mark :: "lifecycle_guard \<Rightarrow> u64 \<times> u64" where
  "permit_mark g = (lg_permit_epoch g, lg_last_permit_sequence g)"

definition next_epoch :: "u64 \<times> u64 \<Rightarrow> u64 \<times> u64" where
  "next_epoch m = (sat_add (fst m) 1, 0)"

lemma permit_mark_steps [simp]:
  "permit_mark (update_gate g gate valid cycle code) = permit_mark g"
  "permit_mark (update_cyclic_quality g q cycle) = permit_mark g"
  "permit_mark (fst (update_host_observation g obs cycle now age)) = permit_mark g"
  "permit_mark (revoke_permit g) = next_epoch (permit_mark g)"
  "permit_mark (invalidate_gate_qualification g cycle) = permit_mark g"
  "permit_mark (transition_with_fault g state cycle code) = permit_mark g"
  "permit_mark (transition g state cycle) = permit_mark g"
  "permit_mark (latch_stop_timeout g cycle) = next_epoch (permit_mark g)"
  by (simp_all add: permit_mark_def next_epoch_def) (simp_all add: revoke_permit_def)

lemma permit_mark_updates [simp]:
  "permit_mark (g\<lparr>lg_stop_started_cycle := a\<rparr>) = permit_mark g"
  "permit_mark (g\<lparr>lg_stop_issued_cycle := a\<rparr>) = permit_mark g"
  "permit_mark (g\<lparr>lg_maintenance_stop_pending := b\<rparr>) = permit_mark g"
  "permit_mark (g\<lparr>lg_motion_axes_mask := m\<rparr>) = permit_mark g"
  "permit_mark (g\<lparr>lg_pending_fault_code := f\<rparr>) = permit_mark g"
  "permit_mark (g\<lparr>lg_first_fault_code := c\<rparr>) = permit_mark g"
  "permit_mark (g\<lparr>lg_latched_fault_code := c\<rparr>) = permit_mark g"
  "permit_mark (g\<lparr>lg_recovery_count := n\<rparr>) = permit_mark g"
  by (simp_all add: permit_mark_def)

lemma permit_mark_ops:
  "permit_mark (fst (abort_active_cycle g cycle code)) \<in> {permit_mark g, next_epoch (permit_mark g)}"
  "permit_mark (set_maintenance g enabled cycle) \<in> {permit_mark g, next_epoch (permit_mark g)}"
  "permit_mark (latch_fault g code cycle) \<in> {permit_mark g, next_epoch (permit_mark g)}"
  "permit_mark (fst (clear_fault g cycle)) \<in> {permit_mark g, next_epoch (permit_mark g)}"
  by (simp_all add: abort_active_cycle_def set_maintenance_def latch_fault_def clear_fault_def Let_def)

lemma permit_mark_ack:
  "permit_mark (fst (acknowledge_stopped g cycle fb)) \<in> {permit_mark g, next_epoch (permit_mark g)}"
  by (simp add: acknowledge_stopped_def Let_def split: option.splits)

lemma permit_mark_cycle:
  "permit_mark (fst (guard_cycle g cycle now)) \<in> {permit_mark g, next_epoch (permit_mark g)}"
  using permit_mark_ops(3)
  by (auto simp: guard_cycle_def Let_def split: lifecycle_state.splits option.splits)

lemma permit_mark_accept:
  "permit_mark (fst (accept_permit g p now)) =
     (if permit_admissible g p now then (mp_permit_epoch p, mp_sequence p) else permit_mark g)"
  by (cases rule: accept_permit_cases [of g p now]) (simp_all add: permit_mark_def)

lemma permit_mark_rearm:
  "permit_mark (fst (request_rearm g p cycle now)) \<in> {permit_mark g, permit_mark (fst (accept_permit g p now))}"
  by (simp add: request_rearm_def Let_def case_prod_beta split: sum.splits)

lemma permit_spent_mark:
  "permit_spent e n g \<longleftrightarrow> e < fst (permit_mark g) \<or> e = fst (permit_mark g) \<and> n \<le> snd (permit_mark g)"
  by (simp add: permit_spent_def permit_mark_def)

lemma permit_spent_next_epoch:
  assumes "permit_spent e n g" "e \<noteq> - 1" "permit_mark h = next_epoch (permit_mark g)"
  shows "permit_spent e n h"
proof -
  have "e < sat_add (lg_permit_epoch g) 1"
    using assms(1,2) word_order.not_eq_extremum [of e]
    by (auto simp: permit_spent_def word_less_nat_alt unat_sat_add unat_max)
  with assms(3) show ?thesis
    by (simp add: permit_spent_mark next_epoch_def permit_mark_def)
qed

lemma permit_admissible_spent:
  "permit_admissible g p now \<Longrightarrow> \<not> permit_spent (mp_permit_epoch p) (mp_sequence p) g"
  by (auto simp: permit_admissible_def permit_spent_def)

lemma permit_spent_trans:
  "permit_spent e n g \<Longrightarrow> \<not> permit_spent e' n' g \<Longrightarrow> e < e' \<or> e = e' \<and> n \<le> n'"
  by (auto simp: permit_spent_def)

lemma permit_spent_accept:
  assumes "permit_spent e n g"
  shows "permit_spent e n (fst (accept_permit g p now))"
proof (cases "permit_admissible g p now")
  case True
  then have "permit_mark (fst (accept_permit g p now)) = (mp_permit_epoch p, mp_sequence p)"
    by (simp only: permit_mark_accept if_True)
  with permit_spent_trans [OF assms permit_admissible_spent [OF True]] show ?thesis
    by (simp add: permit_spent_mark)
next
  case False
  then have "permit_mark (fst (accept_permit g p now)) = permit_mark g"
    by (simp only: permit_mark_accept if_False)
  with assms show ?thesis by (simp add: permit_spent_mark)
qed

lemma permit_spent_same: "permit_spent e n g \<Longrightarrow> permit_mark h = permit_mark g \<Longrightarrow> permit_spent e n h"
  by (simp add: permit_spent_mark)

lemma permit_spent_exec:
  assumes "e \<noteq> - 1" "permit_spent e n g"
  shows "permit_spent e n (guard_exec g op)"
proof -
  have keep: "permit_spent e n h" if "permit_mark h \<in> {permit_mark g, next_epoch (permit_mark g)}" for h
    using that assms permit_spent_same permit_spent_next_epoch by blast
  show ?thesis
  proof (cases op)
    case (OpAcceptPermit p now)
    then show ?thesis by (simp add: permit_spent_accept assms)
  next
    case (OpRequestRearm p cycle now)
    then show ?thesis
      using permit_mark_rearm [of g p cycle now] permit_spent_accept [OF assms(2), of p now]
        assms(2) permit_spent_same by auto
  next
    case (OpCycle cycle now sent)
    then show ?thesis
      using permit_mark_cycle [of g cycle now] by (intro keep) (simp add: Let_def mark_stop_transmitted_guard)
  qed (simp_all add: keep keep [OF permit_mark_ops(1)] keep [OF permit_mark_ops(2)]
      keep [OF permit_mark_ops(3)] keep [OF permit_mark_ops(4)] keep [OF permit_mark_ack])
qed

interpretation permit_floor: ranked_system guard_exec guard_inv
  "\<lambda>g. e = - 1 \<or> permit_spent e n g" for e n :: u64
  by unfold_locales (auto intro: permit_spent_exec)

text \<open>C9. A permit is admitted at most once: after \<open>accept_permit\<close> admitted a permit, whatever
  operations follow, that permit (and every permit of the same epoch with no higher sequence
  number) is refused for ever, in \<open>accept_permit\<close> and in \<open>request_rearm\<close>, and the refusal
  leaves the held permit as it was. The last epoch, \<open>u64::MAX\<close>, is excepted: there the
  saturating epoch counter cannot move on.\<close>

theorem permit_not_replayed:
  assumes "guard_inv g" and "snd (accept_permit g p now) = Ok ()" and "mp_permit_epoch p \<noteq> - 1"
    and "mp_permit_epoch q = mp_permit_epoch p" and "mp_sequence q \<le> mp_sequence p"
    and "h = guard_run (fst (accept_permit g p now)) ops"
  shows "(\<exists>e. snd (accept_permit h q later) = Err e) \<and>
    lg_permit (fst (accept_permit h q later)) = lg_permit h \<and>
    lg_state (fst (request_rearm h q cycle later)) = lg_state h"
proof -
  have "permit_admissible g p now"
    using assms(2) by (cases rule: accept_permit_cases [of g p now]) simp_all
  then have "permit_spent (mp_permit_epoch p) (mp_sequence p) (fst (accept_permit g p now))"
    by (simp add: permit_spent_mark permit_mark_accept)
  then have "permit_spent (mp_permit_epoch p) (mp_sequence p) h"
    using permit_floor.run_above [OF accept_permit_inv [OF assms(1)]] assms(3,6)
    unfolding guard_run_def by blast
  then have "permit_spent (mp_permit_epoch q) (mp_sequence q) h"
    using assms(4,5) by (auto simp: permit_spent_def)
  then have not: "\<not> permit_admissible h q later" using permit_admissible_spent by blast
  then have "lg_state (fst (request_rearm h q cycle later)) = lg_state h"
    by (simp add: request_rearm_state)
  moreover from not have "(\<exists>e. snd (accept_permit h q later) = Err e) \<and>
      lg_permit (fst (accept_permit h q later)) = lg_permit h"
    by (cases rule: accept_permit_cases [of h q later]) auto
  ultimately show ?thesis by blast
qed

theorem permit_not_replayed_witness:
  "\<exists>e. snd (accept_permit (guard_run (fst (accept_permit (update_gate sample_start Link True 1 0)
     sample_permit 10)) [OpRevokePermit, OpSetMaintenance True 2]) sample_permit 20) = Err e"
proof -
  have inv: "guard_inv (update_gate sample_start Link True 1 0)"
    using guard_exec_inv [OF sample_start_inv, of "OpUpdateGate Link True 1 0"] by simp
  have "snd (accept_permit (update_gate sample_start Link True 1 0) sample_permit 10) = Ok ()"
    by (simp add: accept_permit_admissible [OF sample_admissible])
  from permit_not_replayed [OF inv this _ refl order_refl refl] show ?thesis
    by (simp add: sample_permit_def)
qed

text \<open>In the last epoch the protection against replay fails: a guard whose epoch counter has reached
  \<open>u64::MAX\<close> admits the same permit again after it was revoked, because the saturating
  increment keeps the epoch while the sequence mark is reset.\<close>

theorem permit_replayed_in_last_epoch:
  assumes "permit_admissible g p now" and "mp_permit_epoch p = - 1" and "lg_state g \<noteq> Active"
    and "0 < mp_sequence p"
  shows "snd (accept_permit (revoke_permit (fst (accept_permit g p now))) p now) = Ok ()"
proof -
  have "permit_admissible (revoke_permit (fst (accept_permit g p now))) p now"
    using assms by (simp add: accept_permit_admissible)
      (auto simp: permit_admissible_def revoke_permit_def sat_add_def unat_max)
  then show ?thesis by (simp add: accept_permit_admissible)
qed

theorem permit_replayed_in_last_epoch_witness:
  "snd (accept_permit (revoke_permit (fst (accept_permit sample_start
     (sample_permit\<lparr>mp_permit_epoch := - 1\<rparr>) 10))) (sample_permit\<lparr>mp_permit_epoch := - 1\<rparr>) 10) = Ok ()"
  by (rule permit_replayed_in_last_epoch)
    (simp_all add: permit_admissible_def sample_permit_def sample_policy_def
      guard_policy_conservative_def word_less_nat_alt unat_max)

end
