(* ===== verification/Guard_Log.thy ===== *)
theory Guard_Log
  imports Guard_Safety
begin

text \<open>
  The audit trail of the guard: the ring of state transitions and the ring of refused permits,
  both instances of the ring of recent records.
\<close>

section \<open>The two rings\<close>

definition log_transition :: "lifecycle_guard \<Rightarrow> lifecycle_transition \<Rightarrow> lifecycle_guard" where
  "log_transition g t = g\<lparr>lg_transitions := (lg_transitions g)[lg_transition_head g := t],
     lg_transition_head := (lg_transition_head g + 1) mod MAX_TRANSITIONS,
     lg_transition_count := min (lg_transition_count g + 1) MAX_TRANSITIONS\<rparr>"

definition log_permit_audit :: "lifecycle_guard \<Rightarrow> permit_audit \<Rightarrow> lifecycle_guard" where
  "log_permit_audit g a = g\<lparr>lg_permit_audits := (lg_permit_audits g)[lg_permit_audit_head g := a],
     lg_permit_audit_head := (lg_permit_audit_head g + 1) mod MAX_PERMIT_AUDITS,
     lg_permit_audit_count := min (lg_permit_audit_count g + 1) MAX_PERMIT_AUDITS\<rparr>"

interpretation transition_ring: audit_ring MAX_TRANSITIONS lg_transitions lg_transition_head
  lg_transition_count log_transition
  by unfold_locales (simp_all add: log_transition_def MAX_TRANSITIONS_def)

interpretation permit_ring: audit_ring MAX_PERMIT_AUDITS lg_permit_audits lg_permit_audit_head
  lg_permit_audit_count log_permit_audit
  by unfold_locales (simp_all add: log_permit_audit_def MAX_PERMIT_AUDITS_def)

text \<open>What the accessors show, from the oldest record to the newest.\<close>

definition transition_log :: "lifecycle_guard \<Rightarrow> lifecycle_transition list" where
  "transition_log g = List.map_filter (transition_at g) [0..<lg_transition_count g]"

definition permit_audit_log :: "lifecycle_guard \<Rightarrow> permit_audit list" where
  "permit_audit_log g = List.map_filter (permit_audit_at g) [0..<lg_permit_audit_count g]"

lemma map_filter_Some: "(\<And>x. x \<in> set xs \<Longrightarrow> f x = Some (h x)) \<Longrightarrow> List.map_filter f xs = map h xs"
  by (induction xs) (simp_all add: map_filter_simps)

lemma transition_log_view: "transition_log g = transition_ring.view g"
  unfolding transition_log_def transition_ring.view_def transition_ring.entry_def
  by (rule map_filter_Some) (simp add: transition_at_def Let_def)

lemma permit_audit_log_view: "permit_audit_log g = permit_ring.view g"
  unfolding permit_audit_log_def permit_ring.view_def permit_ring.entry_def
  by (rule map_filter_Some) (simp add: permit_audit_at_def Let_def)

lemma guard_shape_ring: "guard_shape g \<Longrightarrow> transition_ring.ring_wf g" "guard_shape g \<Longrightarrow> permit_ring.ring_wf g"
  by (simp_all add: guard_shape_def transition_ring.ring_wf_def permit_ring.ring_wf_def)

section \<open>Transitions\<close>

text \<open>The part of the guard the transition log depends on.\<close>

definition log_core where
  "log_core g = (lg_state g, lg_state_since_cycle g, lg_transition_sequence g, lg_transitions g,
     lg_transition_head g, lg_transition_count g)"

definition log_step :: "lifecycle_guard \<Rightarrow> lifecycle_guard \<Rightarrow> bool" where
  "log_step g h \<longleftrightarrow> (\<exists>s c code. log_core h = log_core (transition_with_fault g s c code))"

lemma log_core_steps [simp]:
  "log_core (update_gate g gate valid cycle code) = log_core g"
  "log_core (update_cyclic_quality g q cycle) = log_core g"
  "log_core (fst (update_host_observation g obs cycle now age)) = log_core g"
  "log_core (revoke_permit g) = log_core g"
  "log_core (invalidate_gate_qualification g cycle) = log_core g"
  "log_core (fst (accept_permit g p now)) = log_core g"
  by (simp_all add: log_core_def)

lemma log_core_updates [simp]:
  "log_core (g\<lparr>lg_stop_started_cycle := a\<rparr>) = log_core g"
  "log_core (g\<lparr>lg_stop_issued_cycle := a\<rparr>) = log_core g"
  "log_core (g\<lparr>lg_stop_timeout_record := r\<rparr>) = log_core g"
  "log_core (g\<lparr>lg_pending_stop_timeout_events_mask := m\<rparr>) = log_core g"
  "log_core (g\<lparr>lg_maintenance_stop_pending := b\<rparr>) = log_core g"
  "log_core (g\<lparr>lg_motion_axes_mask := m\<rparr>) = log_core g"
  "log_core (g\<lparr>lg_pending_fault_code := f\<rparr>) = log_core g"
  "log_core (g\<lparr>lg_first_fault_code := c\<rparr>) = log_core g"
  "log_core (g\<lparr>lg_latched_fault_code := c\<rparr>) = log_core g"
  "log_core (g\<lparr>lg_recovery_count := n\<rparr>) = log_core g"
  by (simp_all add: log_core_def)

lemma log_core_transition:
  "log_core x = log_core g \<Longrightarrow>
     log_core (transition_with_fault x s c code) = log_core (transition_with_fault g s c code)"
  by (auto simp: log_core_def transition_with_fault_def Let_def)

lemma log_step_transition:
  "log_core x = log_core g \<Longrightarrow> log_core h = log_core (transition_with_fault x s c code) \<Longrightarrow> log_step g h"
  using log_core_transition [of x g] unfolding log_step_def by metis

lemma log_step_same: "log_core h = log_core g \<Longrightarrow> log_step g h"
  unfolding log_step_def by (rule exI [of _ "lg_state g"]) (simp add: transition_with_fault_def)

lemma log_core_cong: "log_core h = log_core h' \<Longrightarrow> log_step g h' \<Longrightarrow> log_step g h"
  by (simp add: log_step_def)

lemma latch_stop_timeout_log: "log_step g (latch_stop_timeout g cycle)"
  by (rule log_step_transition) (simp_all add: latch_stop_timeout_def Let_def)

lemma log_step_intros:
  "log_core x = log_core g \<Longrightarrow> log_step g (transition_with_fault x s c code)"
  "log_core x = log_core g \<Longrightarrow> log_step g (transition x s c)"
  subgoal by (rule log_step_transition [OF _ refl])
  subgoal unfolding transition_def by (rule log_step_transition [OF _ refl])
  done

lemma log_step_ops:
  "log_step g (fst (abort_active_cycle g cycle code))"
  "log_step g (set_maintenance g enabled cycle)"
  "log_step g (latch_fault g code cycle)"
  "log_step g (fst (clear_fault g cycle))"
  by (auto simp: abort_active_cycle_def set_maintenance_def latch_fault_def clear_fault_def Let_def
      intro!: log_step_intros intro: log_step_same)

lemma log_step_ack: "log_step g (fst (acknowledge_stopped g cycle fb))"
  by (auto simp: acknowledge_stopped_def Let_def latch_stop_timeout_log
      intro!: log_step_intros intro: log_step_same split: option.splits)

lemma log_step_rearm: "log_step g (fst (request_rearm g p cycle now))"
proof -
  have "log_step g ((transition x Active cycle)\<lparr>lg_recovery_count := n\<rparr>)"
    if "log_core x = log_core g" for x n
    by (rule log_core_cong [OF _ log_step_intros(2) [OF that]]) simp
  then show ?thesis
    by (auto simp: request_rearm_def Let_def case_prod_beta intro: log_step_same split: sum.splits)
qed

lemma log_step_cycle: "log_step g (fst (guard_cycle g cycle now))"
  by (auto simp: guard_cycle_def Let_def latch_stop_timeout_log log_step_ops(3)
      intro!: log_step_intros intro: log_step_same split: lifecycle_state.splits option.splits)

lemma log_step_exec: "log_step g (guard_exec g op)"
proof (cases op)
  case (OpCycle cycle now sent)
  then have "log_core (guard_exec g op) = log_core (fst (guard_cycle g cycle now))"
    by (simp add: Let_def mark_stop_transmitted_guard)
  then show ?thesis using log_step_cycle by (rule log_core_cong)
qed (simp_all add: log_step_same log_step_ops log_step_ack log_step_rearm)

text \<open>What one operation adds to the visible log.\<close>

definition change :: "lifecycle_guard \<Rightarrow> lifecycle_guard \<Rightarrow> (lifecycle_state \<times> lifecycle_state \<times> u64) list" where
  "change g h = (if lg_state h = lg_state g then []
     else [(lg_state g, lg_state h, lg_state_since_cycle h)])"

definition log_entry :: "lifecycle_transition \<Rightarrow> lifecycle_state \<times> lifecycle_state \<times> u64" where
  "log_entry t = (lt_from t, lt_to t, lt_cycle t)"

lemma transition_log_core: "log_core h = log_core h' \<Longrightarrow> transition_log h = transition_log h'"
  unfolding transition_log_view transition_ring.view_def transition_ring.entry_def
  by (simp add: log_core_def)

lemma transition_log_transition:
  assumes "guard_shape g" "lg_state g \<noteq> s"
  shows "transition_log (transition_with_fault g s c code) =
    recent MAX_TRANSITIONS (transition_log g @ [\<lparr>lt_sequence = sat_add (lg_transition_sequence g) 1,
      lt_cycle = c, lt_from = lg_state g, lt_to = s, lt_fault_code = code, lt_reserved = 0\<rparr>])"
    (is "_ = recent _ (_ @ [?t])")
proof -
  have "transition_log (transition_with_fault g s c code) = transition_log (log_transition g ?t)"
    unfolding transition_log_view transition_ring.view_def transition_ring.entry_def
    using assms(2) by (simp add: transition_with_fault_def log_transition_def Let_def)
  then show ?thesis
    using transition_ring.view_append [OF guard_shape_ring(1) [OF assms(1)]]
    by (simp add: transition_log_view)
qed

lemma map_recent: "map f (recent n xs) = recent n (map f xs)"
  by (simp add: recent_def drop_map)

lemma transition_log_exec:
  assumes "guard_shape g"
  shows "map log_entry (transition_log (guard_exec g op)) =
    recent MAX_TRANSITIONS (map log_entry (transition_log g) @ change g (guard_exec g op))"
proof -
  obtain s c code where core: "log_core (guard_exec g op) = log_core (transition_with_fault g s c code)"
    using log_step_exec [of g op] unfolding log_step_def by blast
  have len: "length (transition_log g) \<le> MAX_TRANSITIONS"
    using assms by (simp add: transition_log_view transition_ring.length_view guard_shape_def)
  have change: "change g (guard_exec g op) = (if lg_state g = s then [] else [(lg_state g, s, c)])"
    using core by (auto simp: change_def log_core_def transition_with_fault_def Let_def split: if_splits)
  show ?thesis
  proof (cases "lg_state g = s")
    case True
    then show ?thesis
      using len transition_log_core [OF core] change
      by (simp add: transition_with_fault_def recent_all)
  next
    case False
    then show ?thesis
      using transition_log_core [OF core] transition_log_transition [OF assms False] change
      by (simp add: map_recent log_entry_def)
  qed
qed

fun state_changes :: "lifecycle_guard \<Rightarrow> guard_op list \<Rightarrow> (lifecycle_state \<times> lifecycle_state \<times> u64) list" where
  "state_changes g [] = []"
| "state_changes g (op # ops) = change g (guard_exec g op) @ state_changes (guard_exec g op) ops"

lemma state_changes_snoc:
  "state_changes g (ops @ [op]) =
     state_changes g ops @ change (guard_run g ops) (guard_exec (guard_run g ops) op)"
  by (induction ops arbitrary: g) (simp_all add: guard_run_def)

text \<open>C10. The transition log refines the history of the guard: after any sequence of
  operations on a new guard, reading \<open>transition_at\<close> from the oldest index to the newest gives
  exactly the last sixteen changes of state, in order, each with the state left, the state
  entered and the cycle of the change; no change is missing, doubled or out of order.\<close>

theorem transition_log_refines_history:
  assumes "length axis_policy = MAX_MOTION_AXES"
    and "g = guard_new_with_axis_stop_policy required boot policy axis_policy"
  shows "map log_entry (transition_log (guard_run g ops)) =
    recent MAX_TRANSITIONS (state_changes g ops)"
proof (induction ops rule: rev_induct)
  case Nil
  have "transition_log g = []"
    by (simp add: assms(2) transition_log_def guard_new_with_axis_stop_policy_def map_filter_simps)
  then show ?case by (simp add: guard_run_def recent_def)
next
  case (snoc op ops)
  have "guard_shape (guard_run g ops)"
    using guard_history_inv [OF assms(1)] assms(2) by (simp add: guard_inv_def)
  with snoc transition_log_exec [of "guard_run g ops" op] show ?case
    by (simp add: state_changes_snoc recent_append guard_run_def)
qed

lemma sample_active_since: "lg_state_since_cycle sample_active = 1"
  by (simp add: sample_active_def guard_run_def sample_arm_def request_rearm_def Let_def
      sample_gates_ready accept_permit_admissible [OF sample_admissible] transition_def
      transition_with_fault_def)

theorem transition_log_refines_history_witness:
  "map log_entry (transition_log (guard_run sample_start sample_arm)) = [(Qualifying, Active, 1)]"
proof -
  have "state_changes sample_start sample_arm = [(Qualifying, Active, 1)]"
    using sample_active_simps(1) sample_active_since
    by (simp add: sample_active_def guard_run_def sample_arm_def change_def)
  moreover have "length (axis_stop_policy_uniform QuickStop) = MAX_MOTION_AXES"
    by (simp add: axis_stop_policy_uniform_def)
  ultimately show ?thesis
    using transition_log_refines_history [OF _ sample_start_def, of sample_arm]
    by (simp add: recent_def MAX_TRANSITIONS_def)
qed

section \<open>Refused permits\<close>

lemma permit_audit_log_reject:
  assumes "guard_shape g"
  shows "permit_audit_log (fst (reject_permit g p now e)) =
    recent MAX_PERMIT_AUDITS (permit_audit_log g @ [\<lparr>pa_sequence = sat_add (lg_permit_audit_sequence g) 1,
      pa_timestamp_ns = now, pa_source_id = mp_source_id p, pa_permit_epoch = mp_permit_epoch p,
      pa_permit_sequence = mp_sequence p, pa_error = e, pa_reserved = replicate 7 0\<rparr>])"
    (is "_ = recent _ (_ @ [?a])")
proof -
  have "permit_audit_log (fst (reject_permit g p now e)) = permit_audit_log (log_permit_audit g ?a)"
    unfolding permit_audit_log_view permit_ring.view_def permit_ring.entry_def
    by (simp add: reject_permit_def log_permit_audit_def Let_def)
  then show ?thesis
    using permit_ring.view_append [OF guard_shape_ring(2) [OF assms]]
    by (simp add: permit_audit_log_view)
qed

text \<open>Every refused permit leaves its trace: \<open>accept_permit\<close> on a guard in any history either
  admits the permit and leaves the audit ring alone, or refuses it, changes neither the held
  permit nor the epoch nor the sequence mark, and appends one record with the refused permit's
  source, epoch and sequence and the reason, of which the ring shows the last sixteen in
  order.\<close>

theorem refused_permit_is_audited:
  assumes "guard_inv g"
  shows "case accept_permit g p now of
      (h, Inr _) \<Rightarrow> permit_audit_log h = permit_audit_log g \<and> lg_permit h = Some p
    | (h, Inl e) \<Rightarrow>
        permit_audit_log h = recent MAX_PERMIT_AUDITS (permit_audit_log g @
          [\<lparr>pa_sequence = sat_add (lg_permit_audit_sequence g) 1, pa_timestamp_ns = now,
            pa_source_id = mp_source_id p, pa_permit_epoch = mp_permit_epoch p,
            pa_permit_sequence = mp_sequence p, pa_error = e, pa_reserved = replicate 7 0\<rparr>]) \<and>
        lg_permit h = lg_permit g \<and> lg_permit_epoch h = lg_permit_epoch g \<and>
        lg_last_permit_sequence h = lg_last_permit_sequence g"
proof (cases rule: accept_permit_cases [of g p now])
  case accepted
  have "permit_audit_log (g\<lparr>lg_permit_epoch := mp_permit_epoch p,
      lg_last_permit_sequence := mp_sequence p, lg_permit := Some p\<rparr>) = permit_audit_log g"
    unfolding permit_audit_log_view permit_ring.view_def permit_ring.entry_def by simp
  with accepted show ?thesis by simp
next
  case (rejected e)
  then have "accept_permit g p now = (fst (reject_permit g p now e), Inl e)"
    by (metis prod.collapse)
  with permit_audit_log_reject [of g p now e] assms show ?thesis
    by (simp add: guard_inv_def)
qed

theorem refused_permit_is_audited_witness:
  "map pa_error (permit_audit_log (fst (accept_permit sample_start (sample_permit\<lparr>mp_boot_id := 6\<rparr>) 10))) =
     [PeBootMismatch]"
proof -
  have "permit_audit_log sample_start = []"
    by (simp add: permit_audit_log_def sample_start_def guard_new_with_axis_stop_policy_def
        map_filter_simps)
  moreover have "accept_permit sample_start (sample_permit\<lparr>mp_boot_id := 6\<rparr>) 10 =
      (fst (accept_permit sample_start (sample_permit\<lparr>mp_boot_id := 6\<rparr>) 10), Inl PeBootMismatch)"
    by (simp add: accept_permit_def reject_permit_def Let_def)
  ultimately show ?thesis
    using refused_permit_is_audited [OF sample_start_inv,
        where p = "sample_permit\<lparr>mp_boot_id := 6\<rparr>" and now = 10]
    by (auto simp: recent_def MAX_PERMIT_AUDITS_def split: prod.splits)
qed

end
