(* ===== verification/Guard_Gates.thy ===== *)
theory Guard_Gates
  imports Guard_Safety
begin

text \<open>
  The debouncing of the gates: a gate qualifies after the policy's number of consecutive good
  cycles and not before, a bad observation takes effect at once and cannot be overwritten in
  its cycle, and old observations have no effect.
\<close>

definition observe_good :: "gate_id \<Rightarrow> lifecycle_guard \<Rightarrow> u64 \<Rightarrow> lifecycle_guard" where
  "observe_good gate g cycle = update_gate g gate True cycle 0"

text \<open>The condition under which an observation is accepted as newer than what is known.\<close>

definition observation_fresh :: "lifecycle_guard \<Rightarrow> gate_id \<Rightarrow> u64 \<Rightarrow> bool" where
  "observation_fresh g gate cycle \<longleftrightarrow>
     (case lg_requalify_after_cycle g of None \<Rightarrow> True | Some b \<Rightarrow> b < cycle) \<and>
     (gate_observed (lg_gates g ! gate_index gate) \<longrightarrow>
        gs_last_update_cycle (lg_gates g ! gate_index gate) < cycle)"

lemma gate_index_bound: "gate_index gate < MAX_GATES"
  by (cases gate) (simp_all add: MAX_GATES_def)

lemma gate_index_inj: "gate_index a = gate_index b \<Longrightarrow> a = b"
  by (cases a; cases b) simp_all

lemma update_gate_good:
  "observation_fresh g gate cycle \<Longrightarrow> update_gate g gate True cycle code =
     g\<lparr>lg_gates := (lg_gates g)[gate_index gate :=
         gate_good (lg_policy g) (lg_gates g ! gate_index gate) cycle]\<rparr>"
  by (auto simp: update_gate_def observation_fresh_def Let_def split: option.splits)

lemma gate_good_simps [simp]:
  "gs_valid (gate_good pol st c)" "gs_last_update_cycle (gate_good pol st c) = c"
  "gs_good_cycles (gate_good pol st c) = (if gs_valid st then sat_add (gs_good_cycles st) 1 else 1)"
  "gs_bad_cycles (gate_good pol st c) = 0" "gs_fault_code (gate_good pol st c) = 0"
  "gs_qualified (gate_good pol st c) \<longleftrightarrow>
     gp_enter_good_cycles pol \<le> gs_good_cycles (gate_good pol st c) \<or> gs_qualified st"
  by (simp_all add: gate_good_def Let_def)

text \<open>A gate in the middle of a run of good observations that started without qualification.\<close>

definition good_run :: "lifecycle_guard \<Rightarrow> gate_id \<Rightarrow> nat \<Rightarrow> bool" where
  "good_run g gate n \<longleftrightarrow> (let st = lg_gates g ! gate_index gate in
     (if n = 0 then \<not> gs_valid st else gs_valid st \<and> gs_good_cycles st = of_nat n) \<and>
     (gs_qualified st \<longleftrightarrow> unat (gp_enter_good_cycles (lg_policy g)) \<le> n))"

lemma unat_of_nat_u16: "n < 2 ^ 16 \<Longrightarrow> unat (of_nat n :: u16) = n"
  by (simp add: unat_of_nat take_bit_nat_eq_self)

lemma sat_add_of_nat:
  assumes "Suc n < 2 ^ 16"
  shows "sat_add (of_nat n :: u16) 1 = of_nat (Suc n)"
proof -
  have "unat (of_nat n :: u16) + unat (1 :: u16) < 2 ^ LENGTH(16)"
    using assms by (simp add: unat_of_nat_u16)
  from sat_add_eq_plus [OF this] show ?thesis by (simp add: add.commute)
qed

lemma good_run_step:
  assumes run: "good_run g gate n" and fresh: "observation_fresh g gate c" and shape: "guard_shape g"
    and bound: "Suc n < 2 ^ 16"
  shows "good_run (observe_good gate g c) gate (Suc n)"
proof -
  let ?st = "lg_gates g ! gate_index gate"
  have idx: "gate_index gate < length (lg_gates g)"
    using shape gate_index_bound by (simp add: guard_shape_def)
  have good: "gs_good_cycles (gate_good (lg_policy g) ?st c) = of_nat (Suc n)"
  proof (cases "n = 0")
    case True
    with run show ?thesis by (simp add: good_run_def Let_def)
  next
    case False
    then have "gs_good_cycles ?st = of_nat n" "gs_valid ?st" using run by (simp_all add: good_run_def Let_def)
    with sat_add_of_nat [OF bound] show ?thesis by (simp del: of_nat_Suc)
  qed
  have "gp_enter_good_cycles (lg_policy g) \<le> of_nat (Suc n) \<longleftrightarrow>
      unat (gp_enter_good_cycles (lg_policy g)) \<le> Suc n"
    using unat_of_nat_u16 [OF bound] by (simp add: word_le_nat_alt del: of_nat_Suc)
  with good run idx show ?thesis
    by (auto simp: good_run_def observe_good_def update_gate_good [OF fresh] Let_def
        simp del: of_nat_Suc gate_good_simps(3))
qed

lemma observe_good_fresh:
  assumes "observation_fresh g gate c" "c < d" "guard_shape g"
  shows "observation_fresh (observe_good gate g c) gate d"
proof -
  have "gate_index gate < length (lg_gates g)"
    using assms(3) gate_index_bound by (simp add: guard_shape_def)
  with assms show ?thesis
    by (auto simp: observe_good_def update_gate_good observation_fresh_def split: option.splits)
qed

lemma observe_good_all_fresh:
  "sorted_wrt (<) (cs @ [d]) \<Longrightarrow> \<forall>c\<in>set (cs @ [d]). observation_fresh g gate c \<Longrightarrow> guard_shape g \<Longrightarrow>
     observation_fresh (foldl (observe_good gate) g cs) gate d"
proof (induction cs arbitrary: g)
  case (Cons c cs)
  have "guard_shape (observe_good gate g c)"
    using Cons.prems(3) by (simp add: observe_good_def)
  with Cons show ?case by (auto intro: observe_good_fresh)
qed simp

lemma good_run_cycles:
  assumes "good_run g gate n" "guard_shape g" "sorted_wrt (<) cs"
    "\<forall>c\<in>set cs. observation_fresh g gate c" "n + length cs < 2 ^ 16"
  shows "good_run (foldl (observe_good gate) g cs) gate (n + length cs)"
  using assms
proof (induction cs arbitrary: g n)
  case Nil
  then show ?case by simp
next
  case (Cons c cs)
  have "good_run (observe_good gate g c) gate (Suc n)"
    using Cons.prems by (intro good_run_step) auto
  moreover have "guard_shape (observe_good gate g c)"
    using Cons.prems(2) by (simp add: observe_good_def)
  moreover have "\<forall>d\<in>set cs. observation_fresh (observe_good gate g c) gate d"
    using Cons.prems by (auto intro: observe_good_fresh)
  ultimately have "good_run (foldl (observe_good gate) (observe_good gate g c) cs) gate (Suc n + length cs)"
    using Cons.prems by (intro Cons.IH) auto
  then show ?case by simp
qed

text \<open>Debouncing of a gate: a gate that is invalid and not qualified becomes qualified by
  good observations in later and later cycles exactly when there have been as many of them as
  the policy's \<open>enter_good_cycles\<close>; up to then it does not count as ready and, in the cycle of
  the last of them, it is ready from then on. (The counter is 16 bits wide; the statement
  covers every run shorter than that.)\<close>

theorem gate_qualifies_after_enough_good_cycles:
  assumes "guard_inv g" and "\<not> gs_valid (lg_gates g ! gate_index gate)"
    and "\<not> gs_qualified (lg_gates g ! gate_index gate)"
    and "sorted_wrt (<) (cs @ [c])" and "\<forall>c\<in>set (cs @ [c]). observation_fresh g gate c"
    and "Suc (length cs) < 2 ^ 16"
    and "h = foldl (observe_good gate) g (cs @ [c])"
  shows "gate_ready h (lg_gates h ! gate_index gate) c \<longleftrightarrow>
    unat (gp_enter_good_cycles (lg_policy g)) \<le> length (cs @ [c])"
proof -
  have shape: "guard_shape g" and pos: "unat (gp_enter_good_cycles (lg_policy g)) \<noteq> 0"
    using assms(1) by (simp_all add: guard_inv_def guard_policy_ok_def unat_eq_0)
  have "good_run g gate 0" using assms(2,3) pos by (simp add: good_run_def Let_def)
  from good_run_cycles [OF this shape assms(4,5)] assms(6,7)
  have run: "good_run h gate (Suc (length cs))" by simp
  have "lg_policy (foldl (observe_good gate) x ds) = lg_policy x" for x ds
    by (induction ds arbitrary: x) (simp_all add: observe_good_def)
  then have policy: "lg_policy h = lg_policy g" using assms(7) by metis
  let ?m = "foldl (observe_good gate) g cs"
  have "guard_shape ?m"
    using shape by (induction cs rule: rev_induct) (simp_all add: observe_good_def)
  then have idx: "gate_index gate < length (lg_gates ?m)"
    using gate_index_bound by (simp add: guard_shape_def)
  have "gs_last_update_cycle (lg_gates h ! gate_index gate) = c"
    using idx by (simp add: assms(7) observe_good_def
        update_gate_good [OF observe_good_all_fresh [OF assms(4,5) shape]])
  with run policy show ?thesis
    using unat_of_nat_u16 [OF assms(6)]
    by (auto simp: gate_ready_def good_run_def Let_def word_le_nat_alt simp del: of_nat_Suc)
qed

theorem gate_qualifies_after_enough_good_cycles_witness:
  "gate_ready (foldl (observe_good Link) sample_start [4, 7])
     (lg_gates (foldl (observe_good Link) sample_start [4, 7]) ! 3) 7"
  using gate_qualifies_after_enough_good_cycles [OF sample_start_inv, of Link "[4]" 7, OF _ _ _ _ _ refl]
  by (simp add: observation_fresh_def gate_status_empty_def MAX_GATES_def gate_observed_def
      sample_policy_def guard_policy_conservative_def)

section \<open>Bad observations\<close>

lemma sat_add_1_nonzero: "sat_add (x :: 'a::len word) 1 \<noteq> 0"
proof -
  have "1 < (2 :: nat) ^ LENGTH('a)" by (rule one_less_power) simp_all
  then have "0 < unat (sat_add x 1)" by (simp add: unat_sat_add)
  then show ?thesis by (metis less_irrefl unat_0)
qed

definition bad_at :: "lifecycle_guard \<Rightarrow> gate_id \<Rightarrow> u64 \<Rightarrow> bool" where
  "bad_at g gate c \<longleftrightarrow> (let st = lg_gates g ! gate_index gate in
     \<not> gs_valid st \<and> gate_observed st \<and> gs_last_update_cycle st = c)"

lemma update_gate_other:
  "gate' \<noteq> gate \<Longrightarrow>
     lg_gates (update_gate g gate' valid c code) ! gate_index gate = lg_gates g ! gate_index gate"
  using gate_index_inj [of gate' gate]
  by (cases "gate_index gate' = gate_index gate") (auto simp: update_gate_def Let_def)

lemma bad_at_kept:
  assumes "bad_at g gate c" "c' \<le> c"
  shows "bad_at (update_gate g gate' valid c' code) gate c"
proof (cases "gate' = gate")
  case True
  with assms have "update_gate g gate' valid c' code = g"
    by (simp add: bad_at_def update_gate_def Let_def)
  with assms(1) show ?thesis by simp
next
  case False
  with assms(1) show ?thesis by (simp add: bad_at_def update_gate_other)
qed

lemma update_gate_bad_at:
  assumes "guard_shape g" "\<forall>b. lg_requalify_after_cycle g = Some b \<longrightarrow> b < c"
    "gate_observed (lg_gates g ! gate_index gate) \<longrightarrow> gs_last_update_cycle (lg_gates g ! gate_index gate) \<le> c"
  shows "bad_at (update_gate g gate False c code) gate c"
proof -
  have idx: "gate_index gate < length (lg_gates g)"
    using assms(1) gate_index_bound by (simp add: guard_shape_def)
  show ?thesis
    using assms(2,3) idx
    by (auto simp: bad_at_def update_gate_def gate_bad_def gate_observed_def Let_def
        sat_add_1_nonzero split: option.splits)
qed

fun observe_all :: "lifecycle_guard \<Rightarrow> (gate_id \<times> bool \<times> u64 \<times> u32) list \<Rightarrow> lifecycle_guard" where
  "observe_all g [] = g"
| "observe_all g ((gate, valid, cycle, code) # rest) = observe_all (update_gate g gate valid cycle code) rest"

lemma bad_at_kept_all:
  "bad_at g gate c \<Longrightarrow> \<forall>(gate', valid, c', code)\<in>set obs. c' \<le> c \<Longrightarrow> bad_at (observe_all g obs) gate c"
  by (induction g obs rule: observe_all.induct) (auto intro: bad_at_kept)

lemma observe_all_required: "lg_required_mask (observe_all g obs) = lg_required_mask g"
  by (induction g obs rule: observe_all.induct) simp_all

text \<open>A bad observation of a required gate takes effect in its own cycle and cannot be
  undone there: whatever further observations of that cycle or of earlier ones arrive, in any
  order and for any gates, the gate stays invalid, and the required gates are neither active
  nor ready in any cycle, so that no axis is enabled.\<close>

theorem bad_observation_sticks:
  assumes "guard_inv g" and "\<forall>b. lg_requalify_after_cycle g = Some b \<longrightarrow> b < c"
    and "gate_observed (lg_gates g ! gate_index gate) \<longrightarrow>
      gs_last_update_cycle (lg_gates g ! gate_index gate) \<le> c"
    and "\<forall>(gate', valid, c', code)\<in>set obs. c' \<le> c"
    and "bit (lg_required_mask g) (gate_index gate)"
    and "h = observe_all (update_gate g gate False c code) obs"
  shows "\<not> gs_valid (lg_gates h ! gate_index gate) \<and> \<not> gates_active h d \<and> \<not> gates_ready h d"
proof -
  have "guard_shape g" using assms(1) by (simp add: guard_inv_def)
  then have "bad_at h gate c"
    unfolding assms(6) using update_gate_bad_at assms(2-4) bad_at_kept_all by blast
  then have bad: "\<not> gs_valid (lg_gates h ! gate_index gate)" by (simp add: bad_at_def Let_def)
  moreover have "bit (lg_required_mask h) (gate_index gate)"
    using assms(5) by (simp add: assms(6) observe_all_required)
  ultimately show ?thesis
    using gate_index_bound [of gate]
    by (auto simp: gates_active_def gates_ready_def gate_active_def gate_ready_def list_all_iff
        mask_exp_test)
qed

theorem bad_observation_sticks_witness:
  "\<not> gates_active (observe_all (update_gate sample_active Link False 3 9)
     [(Link, True, 3, 0), (Drive, True, 2, 0)]) 3"
  using bad_observation_sticks [OF sample_active_inv, of 3 Link
      "[(Link, True, 3, 0), (Drive, True, 2, 0)]", OF _ _ _ _ refl, of 9 3]
  by (simp add: sample_required_bit MAX_GATES_def)

end
