(* ===== verification/Codec_Interface.thy ===== *)
theory Codec_Interface
  imports Esop_Prelude
begin

text \<open>
  The contract of a fixed-size header format: an encoder that writes a known number of bytes
  and a decoder that recovers the value from the front of a longer buffer. Two encoded values
  that start the same buffer are then equal, so that a sequence of records can be cut apart
  again.
\<close>

locale byte_codec =
  fixes size :: nat
    and valid :: "'a \<Rightarrow> bool"
    and encode :: "'a \<Rightarrow> bytes"
    and decode :: "bytes \<Rightarrow> ('e, 'a) result"
  assumes encode_size: "length (encode x) = size"
    and decode_encode: "valid x \<Longrightarrow> decode (encode x @ rest) = Ok x"
begin

lemma encode_unambiguous:
  assumes "valid x" "valid y" "encode x @ r = encode y @ s"
  shows "x = y \<and> r = s"
proof -
  have "decode (encode x @ r) = Ok x" "decode (encode x @ r) = Ok y"
    using assms(3) decode_encode [OF assms(1), of r] decode_encode [OF assms(2), of s] by simp_all
  then have "x = y" by simp
  with assms(3) show ?thesis by simp
qed

text \<open>Reading back at the position at which a record was written.\<close>

lemma decode_written:
  assumes "valid x" "off + size \<le> length buf"
  shows "decode (subslice (copy_at buf off (encode x)) off (off + size)) = Ok x"
  using subslice_copy_at_same [of off "encode x" buf] assms decode_encode [OF assms(1), of "[]"]
  by (simp add: encode_size)

end

end
