(* ===== verification/Wire.thy ===== *)
theory Wire
  imports Codec_Interface
begin

text \<open>
  The EtherCAT wire format (\<open>esop-ethercat-core/src/wire.rs\<close>): datagram headers, the datagram
  iterator, the frame parser and the frame builder. A \<open>&mut [u8]\<close> buffer is passed and
  returned. \<open>usize\<close> additions saturate as in the source.
\<close>

section \<open>Constants and data\<close>

definition ETHERCAT_ETHERTYPE :: u16 where "ETHERCAT_ETHERTYPE = 0x88A4"
definition ETHERNET_HEADER_LEN :: nat where "ETHERNET_HEADER_LEN = 14"
definition ETHERCAT_FRAME_HEADER_LEN :: nat where "ETHERCAT_FRAME_HEADER_LEN = 2"
definition DATAGRAM_HEADER_LEN :: nat where "DATAGRAM_HEADER_LEN = 10"
definition WORKING_COUNTER_LEN :: nat where "WORKING_COUNTER_LEN = 2"
definition MIN_ETHERNET_FRAME_LEN :: nat where "MIN_ETHERNET_FRAME_LEN = 64"
definition MAX_ETHERNET_FRAME_LEN :: nat where "MAX_ETHERNET_FRAME_LEN = 1518"
definition DATAGRAM_LENGTH_MASK :: u16 where "DATAGRAM_LENGTH_MASK = 0x07FF"
definition DATAGRAM_MORE_BIT :: u16 where "DATAGRAM_MORE_BIT = 0x8000"
definition FRAME_TYPE_MASK :: u16 where "FRAME_TYPE_MASK = 0xF000"
definition FRAME_LENGTH_MASK :: u16 where "FRAME_LENGTH_MASK = 0x07FF"

lemmas wire_consts = ETHERCAT_ETHERTYPE_def ETHERNET_HEADER_LEN_def ETHERCAT_FRAME_HEADER_LEN_def
  DATAGRAM_HEADER_LEN_def WORKING_COUNTER_LEN_def MIN_ETHERNET_FRAME_LEN_def
  MAX_ETHERNET_FRAME_LEN_def DATAGRAM_LENGTH_MASK_def DATAGRAM_MORE_BIT_def FRAME_TYPE_MASK_def
  FRAME_LENGTH_MASK_def

datatype wire_command = Aprd | Apwr | Aprw | Fprd | Fpwr | Fprw | Brd | Bwr | Brw | Lrd | Lwr | Lrw
  | Armw | Frmw

text \<open>\<open>command as u8\<close>.\<close>

fun command_code :: "wire_command \<Rightarrow> u8" where
  "command_code Aprd = 0x01" | "command_code Apwr = 0x02" | "command_code Aprw = 0x03"
| "command_code Fprd = 0x04" | "command_code Fpwr = 0x05" | "command_code Fprw = 0x06"
| "command_code Brd = 0x07" | "command_code Bwr = 0x08" | "command_code Brw = 0x09"
| "command_code Lrd = 0x0A" | "command_code Lwr = 0x0B" | "command_code Lrw = 0x0C"
| "command_code Armw = 0x0D" | "command_code Frmw = 0x0E"

definition command_from_u8 :: "u8 \<Rightarrow> wire_command option" where
  "command_from_u8 v =
     (if v = 0x01 then Some Aprd else if v = 0x02 then Some Apwr else if v = 0x03 then Some Aprw
      else if v = 0x04 then Some Fprd else if v = 0x05 then Some Fpwr else if v = 0x06 then Some Fprw
      else if v = 0x07 then Some Brd else if v = 0x08 then Some Bwr else if v = 0x09 then Some Brw
      else if v = 0x0A then Some Lrd else if v = 0x0B then Some Lwr else if v = 0x0C then Some Lrw
      else if v = 0x0D then Some Armw else if v = 0x0E then Some Frmw else None)"

datatype wire_error = WeBufferTooSmall | FrameTooShort | FrameLengthMismatch | UnsupportedFrameType
  | DatagramHeaderTruncated | DatagramLengthOutOfBounds | InvalidCommand | TooManyDatagrams

record datagram_header =
  dh_command :: wire_command
  dh_index :: u8
  dh_address :: u32
  dh_length :: u16
  dh_last :: bool

record datagram =
  dg_header :: datagram_header
  dg_payload :: bytes
  dg_working_counter :: u16

record datagram_iter =
  di_bytes :: bytes
  di_offset :: nat
  di_remaining :: nat
  di_done :: bool

record frame_view =
  fv_destination :: bytes
  fv_source :: bytes
  fv_payload :: bytes
  fv_frame_type :: u8
  fv_datagram_count :: nat

record frame_builder =
  fb_buffer :: bytes
  fb_offset :: nat
  fb_datagram_count :: nat
  fb_previous_header_offset :: "nat option"

section \<open>Headers\<close>

definition datagram_header_new :: "wire_command \<Rightarrow> u8 \<Rightarrow> u32 \<Rightarrow> u16 \<Rightarrow> datagram_header" where
  "datagram_header_new command index address len = \<lparr>dh_command = command, dh_index = index,
     dh_address = address, dh_length = len, dh_last = True\<rparr>"

definition length_word :: "datagram_header \<Rightarrow> u16" where
  "length_word h = (let len = dh_length h AND DATAGRAM_LENGTH_MASK
     in if \<not> dh_last h then len OR DATAGRAM_MORE_BIT else len)"

definition datagram_header_encode ::
  "datagram_header \<Rightarrow> bytes \<Rightarrow> bytes \<times> (wire_error, unit) result" where
  "datagram_header_encode h dst =
     (if length dst < DATAGRAM_HEADER_LEN then (dst, Err WeBufferTooSmall)
      else if unat DATAGRAM_LENGTH_MASK < unat (dh_length h) then (dst, Err DatagramLengthOutOfBounds)
      else
        let dst = dst[0 := command_code (dh_command h)];
            dst = dst[1 := dh_index h];
            dst = copy_at dst 2 (u32_to_le (dh_address h));
            dst = copy_at dst 6 (u16_to_le (length_word h));
            dst = dst[8 := 0];
            dst = dst[9 := 0]
        in (dst, Ok ()))"

definition datagram_header_decode :: "bytes \<Rightarrow> (wire_error, datagram_header) result" where
  "datagram_header_decode src =
     (if length src < DATAGRAM_HEADER_LEN then Err DatagramHeaderTruncated
      else case command_from_u8 (src ! 0) of
        None \<Rightarrow> Err InvalidCommand
      | Some command \<Rightarrow>
          let word = u16_from_le (src ! 6) (src ! 7)
          in Ok \<lparr>dh_command = command, dh_index = src ! 1,
               dh_address = u32_from_le (src ! 2) (src ! 3) (src ! 4) (src ! 5),
               dh_length = word AND DATAGRAM_LENGTH_MASK,
               dh_last = (word AND DATAGRAM_MORE_BIT = 0)\<rparr>)"

section \<open>Parsing\<close>

definition datagram_iter_next ::
  "datagram_iter \<Rightarrow> datagram_iter \<times> (wire_error, datagram) result option" where
  "datagram_iter_next it =
     (if di_done it \<or> length (di_bytes it) \<le> di_offset it \<or> di_remaining it = 0 then (it, None)
      else
        let header_end = usize_sat_add (di_offset it) DATAGRAM_HEADER_LEN
        in if length (di_bytes it) < header_end
           then (it\<lparr>di_done := True\<rparr>, Some (Err DatagramHeaderTruncated))
           else case datagram_header_decode (subslice (di_bytes it) (di_offset it) header_end) of
             Inl e \<Rightarrow> (it\<lparr>di_done := True\<rparr>, Some (Err e))
           | Inr header \<Rightarrow>
               let payload_start = header_end;
                   payload_end = usize_sat_add payload_start (unat (dh_length header));
                   wkc_end = usize_sat_add payload_end WORKING_COUNTER_LEN
               in if length (di_bytes it) < wkc_end
                  then (it\<lparr>di_done := True\<rparr>, Some (Err DatagramLengthOutOfBounds))
                  else (it\<lparr>di_offset := wkc_end, di_remaining := di_remaining it - 1,
                           di_done := dh_last header\<rparr>,
                        Some (Ok \<lparr>dg_header = header,
                          dg_payload = subslice (di_bytes it) payload_start payload_end,
                          dg_working_counter = u16_from_le (di_bytes it ! payload_end)
                            (di_bytes it ! (payload_end + 1))\<rparr>)))"

lemma datagram_iter_next_remaining:
  "datagram_iter_next it = (it', Some (Inr d)) \<Longrightarrow> di_remaining it' < di_remaining it"
  by (auto simp: datagram_iter_next_def Let_def split: if_splits sum.splits)

lemma datagram_iter_next_error:
  "datagram_iter_next it = (it', Some (Inl e)) \<Longrightarrow> \<not> di_done it \<and> di_done it' \<and> di_remaining it' = di_remaining it"
  by (auto simp: datagram_iter_next_def Let_def split: if_splits sum.splits)

lemma datagram_iter_next_smaller:
  "datagram_iter_next it = (it', Some r) \<Longrightarrow> di_remaining it' < di_remaining it \<or>
     di_remaining it' = di_remaining it \<and> \<not> di_done it \<and> di_done it'"
  by (cases r) (auto dest: datagram_iter_next_remaining datagram_iter_next_error)

text \<open>The loop of the parser over \<open>iter.by_ref()\<close>, with \<open>result?\<close> as the early return.\<close>

function parse_loop :: "datagram_iter \<Rightarrow> nat \<Rightarrow> (wire_error, datagram_iter \<times> nat) result" where
  "parse_loop it count =
     (case datagram_iter_next it of
        (it', None) \<Rightarrow> Ok (it', count)
      | (it', Some (Inl e)) \<Rightarrow> Err e
      | (it', Some (Inr d)) \<Rightarrow> parse_loop it' (count + 1))"
  by auto
termination
  by (relation "measure (\<lambda>(it, _). di_remaining it)") (auto dest: datagram_iter_next_remaining [OF sym])

text \<open>All that an iterator yields.\<close>

function datagram_iter_collect :: "datagram_iter \<Rightarrow> (wire_error, datagram) result list" where
  "datagram_iter_collect it =
     (case datagram_iter_next it of
        (it', None) \<Rightarrow> []
      | (it', Some r) \<Rightarrow> r # datagram_iter_collect it')"
  by auto
termination
  by (relation "measures [\<lambda>it. di_remaining it, \<lambda>it. if di_done it then 0 else 1]")
    (auto dest!: datagram_iter_next_smaller [OF sym])

definition frame_view_parse :: "bytes \<Rightarrow> (wire_error, frame_view) result" where
  "frame_view_parse bytes =
     (if length bytes < ETHERNET_HEADER_LEN + ETHERCAT_FRAME_HEADER_LEN then Err FrameTooShort
      else if u16_from_be (bytes ! 12) (bytes ! 13) \<noteq> ETHERCAT_ETHERTYPE then Err UnsupportedFrameType
      else
        let frame_word = u16_from_le (bytes ! 14) (bytes ! 15);
            frame_payload_len = unat (frame_word AND FRAME_LENGTH_MASK);
            payload_start = ETHERNET_HEADER_LEN + ETHERCAT_FRAME_HEADER_LEN;
            payload_end = usize_sat_add payload_start frame_payload_len
        in if length bytes < payload_end \<or> MAX_ETHERNET_FRAME_LEN < length bytes \<or>
              (length bytes \<noteq> payload_end \<and> length bytes \<noteq> MIN_ETHERNET_FRAME_LEN)
           then Err FrameLengthMismatch
           else
             let frame_type = (ucast (drop_bit 12 (frame_word AND FRAME_TYPE_MASK)) :: u8)
             in if frame_type \<noteq> 1 then Err UnsupportedFrameType
                else
                  let payload = subslice bytes payload_start payload_end
                  in case parse_loop \<lparr>di_bytes = payload, di_offset = 0, di_remaining = 256,
                            di_done = False\<rparr> 0 of
                       Inl e \<Rightarrow> Err e
                     | Inr (it, datagram_count) \<Rightarrow>
                         if datagram_count = 0 then Err DatagramHeaderTruncated
                         else if \<not> di_done it \<or> di_offset it \<noteq> length payload
                         then Err DatagramLengthOutOfBounds
                         else Ok \<lparr>fv_destination = subslice bytes 0 6, fv_source = subslice bytes 6 12,
                           fv_payload = payload, fv_frame_type = frame_type,
                           fv_datagram_count = datagram_count\<rparr>)"

definition frame_view_datagrams :: "frame_view \<Rightarrow> datagram_iter" where
  "frame_view_datagrams v = \<lparr>di_bytes = fv_payload v, di_offset = 0,
     di_remaining = fv_datagram_count v, di_done = False\<rparr>"

section \<open>Building\<close>

definition frame_builder_new :: "bytes \<Rightarrow> bytes \<Rightarrow> bytes \<Rightarrow> (wire_error, frame_builder) result" where
  "frame_builder_new buffer destination source =
     (if length buffer < ETHERNET_HEADER_LEN + ETHERCAT_FRAME_HEADER_LEN then Err WeBufferTooSmall
      else
        let buffer = copy_at buffer 0 destination;
            buffer = copy_at buffer 6 source;
            buffer = copy_at buffer 12 (u16_to_be ETHERCAT_ETHERTYPE);
            buffer = copy_at buffer 14 (replicate 2 0)
        in Ok \<lparr>fb_buffer = buffer, fb_offset = ETHERNET_HEADER_LEN + ETHERCAT_FRAME_HEADER_LEN,
             fb_datagram_count = 0, fb_previous_header_offset = None\<rparr>)"

text \<open>The more-bit of the previous datagram is set once another one follows.\<close>

definition link_previous :: "bytes \<Rightarrow> nat option \<Rightarrow> bytes" where
  "link_previous buffer previous =
     (case previous of None \<Rightarrow> buffer
      | Some off \<Rightarrow> copy_at buffer (off + 6)
          (u16_to_le (u16_from_le (buffer ! (off + 6)) (buffer ! (off + 7)) OR DATAGRAM_MORE_BIT)))"

definition frame_builder_push ::
  "frame_builder \<Rightarrow> wire_command \<Rightarrow> u8 \<Rightarrow> u32 \<Rightarrow> bytes \<Rightarrow> frame_builder \<times> (wire_error, unit) result" where
  "frame_builder_push b command index address payload =
     (if unat DATAGRAM_LENGTH_MASK < length payload then (b, Err DatagramLengthOutOfBounds)
      else if 256 \<le> fb_datagram_count b then (b, Err TooManyDatagrams)
      else
        let required = usize_sat_add (usize_sat_add DATAGRAM_HEADER_LEN (length payload))
              WORKING_COUNTER_LEN;
            end_off = usize_sat_add (fb_offset b) required
        in if length (fb_buffer b) < end_off then (b, Err WeBufferTooSmall)
           else
             let header = \<lparr>dh_command = command, dh_index = index, dh_address = address,
                   dh_length = of_nat (length payload), dh_last = True\<rparr>
             in case datagram_header_encode header
                       (subslice (fb_buffer b) (fb_offset b) (fb_offset b + DATAGRAM_HEADER_LEN)) of
                  (bytes, Inl e) \<Rightarrow> (b\<lparr>fb_buffer := copy_at (fb_buffer b) (fb_offset b) bytes\<rparr>, Err e)
                | (bytes, Inr _) \<Rightarrow>
                    let buffer = copy_at (fb_buffer b) (fb_offset b) bytes;
                        payload_start = fb_offset b + DATAGRAM_HEADER_LEN;
                        buffer = copy_at buffer payload_start payload;
                        buffer = copy_at buffer (payload_start + length payload)
                          (replicate (end_off - (payload_start + length payload)) 0);
                        buffer = link_previous buffer (fb_previous_header_offset b)
                    in (b\<lparr>fb_buffer := buffer, fb_previous_header_offset := Some (fb_offset b),
                          fb_offset := end_off, fb_datagram_count := fb_datagram_count b + 1\<rparr>, Ok ()))"

text \<open>\<open>finish\<close> consumes the builder; what it wrote stays in the caller's buffer.\<close>

definition frame_builder_finish :: "frame_builder \<Rightarrow> bytes \<times> (wire_error, nat) result" where
  "frame_builder_finish b =
     (if fb_datagram_count b = 0 then (fb_buffer b, Err DatagramHeaderTruncated)
      else
        let payload_len = fb_offset b - ETHERNET_HEADER_LEN - ETHERCAT_FRAME_HEADER_LEN
        in if unat FRAME_LENGTH_MASK < payload_len then (fb_buffer b, Err FrameLengthMismatch)
           else
             let frame_word = of_nat payload_len OR push_bit 12 1;
                 buffer = copy_at (fb_buffer b) 14 (u16_to_le frame_word);
                 frame_len = max (fb_offset b) MIN_ETHERNET_FRAME_LEN
             in if length buffer < frame_len then (buffer, Err WeBufferTooSmall)
                else (copy_at buffer (fb_offset b) (replicate (frame_len - fb_offset b) 0), Ok frame_len))"

end
