(* ===== verification/Wire_Roundtrip.thy ===== *)
theory Wire_Roundtrip
  imports Wire
begin

text \<open>
  The wire format read as a language: the bytes of a header, of a datagram and of a sequence of
  datagrams, that the encoder and the builder produce exactly these bytes, and that the decoder
  and the parser recover what was put in.
\<close>

section \<open>Header words\<close>

lemma mask_2047: "w AND 0x07FF = take_bit 11 (w :: u16)"
  by (simp add: take_bit_eq_mask mask_eq_exp_minus_1)

lemma take_bit_11_small: "unat (w :: u16) \<le> 2047 \<Longrightarrow> take_bit 11 w = w"
  by (simp add: word_unat_eq_iff unsigned_take_bit_eq take_bit_nat_eq_self)

lemma bit_more: "bit (0x8000 :: u16) n \<longleftrightarrow> n = 15"
  using bit_exp_iff [of 15 n, where 'a = u16] by auto

lemma length_bits:
  assumes "unat (w :: u16) \<le> 2047"
  shows "w AND 0x07FF = w" "(w OR 0x8000) AND 0x07FF = w" "w AND 0x8000 = 0" "(w OR 0x8000) AND 0x8000 \<noteq> 0"
proof -
  have t: "take_bit 11 w = w" using assms by (rule take_bit_11_small)
  have small: "bit w n \<Longrightarrow> n < 11" for n using t by (metis bit_take_bit_iff)
  show "w AND 0x07FF = w" by (simp add: mask_2047 t)
  have "take_bit 11 (0x8000 :: u16) = 0" by simp
  then show "(w OR 0x8000) AND 0x07FF = w" by (simp add: mask_2047 take_bit_or t)
  show "w AND 0x8000 = 0"
    by (rule bit_word_eqI) (unfold bit_and_iff bit_more, use small [of 15] in auto)
  have "bit ((w OR 0x8000) AND 0x8000) 15" by (simp add: bit_and_iff bit_or_iff bit_more)
  then show "(w OR 0x8000) AND 0x8000 \<noteq> 0" by (metis bit_0_eq bot_apply bot_bool_def)
qed

lemma unat_length_u16: "n \<le> 2047 \<Longrightarrow> unat (of_nat n :: u16) = n"
  by (simp add: unat_of_nat take_bit_nat_eq_self)

lemma command_from_code [simp]: "command_from_u8 (command_code c) = Some c"
  by (cases c) (simp_all add: command_from_u8_def)

lemma command_from_u8_Some: "command_from_u8 v = Some c \<longleftrightarrow> v = command_code c"
  by (auto simp: command_from_u8_def split: if_splits) (cases c; simp)+

section \<open>Headers\<close>

definition header_bytes :: "datagram_header \<Rightarrow> bytes" where
  "header_bytes h = [command_code (dh_command h), dh_index h] @ u32_to_le (dh_address h) @
     u16_to_le (length_word h) @ [0, 0]"

definition header_valid :: "datagram_header \<Rightarrow> bool" where
  "header_valid h \<longleftrightarrow> unat (dh_length h) \<le> 2047"

lemma length_header_bytes [simp]: "length (header_bytes h) = 10"
  by (simp add: header_bytes_def)

lemma header_encode_ok:
  assumes "header_valid h" "10 \<le> length dst"
  shows "datagram_header_encode h dst = (header_bytes h @ drop 10 dst, Ok ())"
proof -
  obtain a0 a1 a2 a3 a4 a5 a6 a7 a8 a9 rest where
    "dst = a0 # a1 # a2 # a3 # a4 # a5 # a6 # a7 # a8 # a9 # rest"
    using assms(2) by (auto simp: numeral_eq_Suc Suc_le_length_iff)
  moreover have fits: "\<not> length dst < DATAGRAM_HEADER_LEN"
    "\<not> unat DATAGRAM_LENGTH_MASK < unat (dh_length h)"
    using assms by (simp_all add: DATAGRAM_HEADER_LEN_def DATAGRAM_LENGTH_MASK_def header_valid_def)
  ultimately show ?thesis
    unfolding datagram_header_encode_def if_not_P [OF fits(1)] if_not_P [OF fits(2)]
    by (simp add: Let_def copy_at_def header_bytes_def u32_to_le_def u16_to_le_def numeral_eq_Suc)
qed

lemma header_decode_ok:
  assumes "header_valid h"
  shows "datagram_header_decode (header_bytes h @ rest) = Ok h"
  using assms length_bits [of "dh_length h"]
  by (simp add: datagram_header_decode_def header_bytes_def u32_to_le_def u16_to_le_def
      header_valid_def length_word_def wire_consts Let_def)

interpretation header_codec: byte_codec DATAGRAM_HEADER_LEN header_valid header_bytes
  datagram_header_decode
  by unfold_locales (simp_all add: DATAGRAM_HEADER_LEN_def header_decode_ok)

section \<open>Datagrams\<close>

type_synonym pdu = "wire_command \<times> u8 \<times> u32 \<times> bytes"

definition pdu_header :: "bool \<Rightarrow> pdu \<Rightarrow> datagram_header" where
  "pdu_header fin d = (case d of (command, index, address, payload) \<Rightarrow>
     \<lparr>dh_command = command, dh_index = index, dh_address = address,
      dh_length = of_nat (length payload), dh_last = fin\<rparr>)"

definition pdu_payload :: "pdu \<Rightarrow> bytes" where
  "pdu_payload d = (case d of (command, index, address, payload) \<Rightarrow> payload)"

definition pdu_bytes :: "bool \<Rightarrow> pdu \<Rightarrow> bytes" where
  "pdu_bytes fin d = header_bytes (pdu_header fin d) @ pdu_payload d @ [0, 0]"

fun pdus_bytes :: "pdu list \<Rightarrow> bytes" where
  "pdus_bytes [] = []"
| "pdus_bytes [d] = pdu_bytes True d"
| "pdus_bytes (d # e # ds) = pdu_bytes False d @ pdus_bytes (e # ds)"

fun pdus_datagrams :: "pdu list \<Rightarrow> datagram list" where
  "pdus_datagrams [] = []"
| "pdus_datagrams (d # ds) = \<lparr>dg_header = pdu_header (ds = []) d, dg_payload = pdu_payload d,
     dg_working_counter = 0\<rparr> # pdus_datagrams ds"

definition pdu_ok :: "pdu \<Rightarrow> bool" where
  "pdu_ok d \<longleftrightarrow> length (pdu_payload d) \<le> 2047"

lemma length_pdu_bytes [simp]: "length (pdu_bytes fin d) = 12 + length (pdu_payload d)"
  by (simp add: pdu_bytes_def)

lemma length_pdus_datagrams [simp]: "length (pdus_datagrams ds) = length ds"
  by (induction ds) simp_all

lemma pdus_bytes_Cons: "pdus_bytes (d # ds) = pdu_bytes (ds = []) d @ pdus_bytes ds"
  by (cases ds) simp_all

lemma pdu_header_valid: "pdu_ok d \<Longrightarrow> header_valid (pdu_header fin d)"
  by (cases d) (simp add: pdu_ok_def pdu_payload_def header_valid_def pdu_header_def unat_length_u16)

lemma unat_pdu_length: "pdu_ok d \<Longrightarrow> unat (dh_length (pdu_header fin d)) = length (pdu_payload d)"
  by (cases d) (simp add: pdu_ok_def pdu_payload_def pdu_header_def unat_length_u16)

section \<open>Iterating\<close>

declare parse_loop.simps [simp del] datagram_iter_collect.simps [simp del]

lemma subslice_middle: "subslice (pre @ xs @ suf) (length pre) (length pre + length xs) = xs"
  by (simp add: subslice_def)

lemma iter_next_pdu:
  assumes bytes: "di_bytes it = pre @ pdu_bytes fin d @ suf" and off: "di_offset it = length pre"
    and "\<not> di_done it" "0 < di_remaining it" "pdu_ok d" "length (di_bytes it) \<le> usize_max"
  shows "datagram_iter_next it =
    (it\<lparr>di_offset := length pre + length (pdu_bytes fin d), di_remaining := di_remaining it - 1,
       di_done := dh_last (pdu_header fin d)\<rparr>,
     Some (Ok \<lparr>dg_header = pdu_header fin d, dg_payload = pdu_payload d, dg_working_counter = 0\<rparr>))"
proof -
  let ?h = "pdu_header fin d" and ?p = "pdu_payload d" and ?n = "length pre"
  have b1: "di_bytes it = pre @ header_bytes ?h @ (?p @ [0, 0] @ suf)"
    and b2: "di_bytes it = (pre @ header_bytes ?h) @ ?p @ ([0, 0] @ suf)"
    and b3: "di_bytes it = (pre @ header_bytes ?h @ ?p) @ [0, 0] @ suf"
    using bytes by (simp_all add: pdu_bytes_def)
  have len: "?n + 12 + length ?p \<le> length (di_bytes it)" using bytes by simp
  have he: "usize_sat_add ?n DATAGRAM_HEADER_LEN = ?n + 10"
    using len assms(6) by (simp add: usize_sat_add_exact DATAGRAM_HEADER_LEN_def)
  have pe: "usize_sat_add (?n + 10) (unat (dh_length ?h)) = ?n + 10 + length ?p"
    using len assms(6) unat_pdu_length [OF assms(5)] by (simp add: usize_sat_add_exact)
  have we: "usize_sat_add (?n + 10 + length ?p) WORKING_COUNTER_LEN = ?n + 12 + length ?p"
    using len assms(6) by (simp add: usize_sat_add_exact WORKING_COUNTER_LEN_def)
  have hdr: "subslice (di_bytes it) ?n (?n + 10) = header_bytes ?h"
    using subslice_middle [of pre "header_bytes ?h"] by (simp add: b1)
  have dec: "datagram_header_decode (header_bytes ?h) = Ok ?h"
    using header_codec.decode_encode [OF pdu_header_valid [OF assms(5)],
      where rest = "[]"] by simp
  have pay: "subslice (di_bytes it) (?n + 10) (?n + 10 + length ?p) = ?p"
    using subslice_middle [of "pre @ header_bytes ?h" ?p] by (simp add: b2)
  have wkc: "di_bytes it ! (?n + 10 + length ?p) = 0" "di_bytes it ! (?n + 10 + length ?p + 1) = 0"
    by (simp_all add: b3 nth_append)
  show ?thesis
    using assms(3,4) len off
    by (simp add: datagram_iter_next_def he hdr dec pe we pay wkc [simplified] u16_from_le_def Let_def)
qed

lemma datagram_iter_next_done: "di_done it \<Longrightarrow> datagram_iter_next it = (it, None)"
  by (simp add: datagram_iter_next_def)

lemma parse_loop_done: "di_done it \<Longrightarrow> parse_loop it n = Ok (it, n)"
  by (subst parse_loop.simps) (simp add: datagram_iter_next_done)

lemma collect_done: "di_done it \<Longrightarrow> datagram_iter_collect it = []"
  by (subst datagram_iter_collect.simps) (simp add: datagram_iter_next_done)

lemma parse_loop_pdus:
  assumes "di_bytes it = pre @ pdus_bytes ds" "di_offset it = length pre" "\<not> di_done it"
    "length ds \<le> di_remaining it" "\<forall>d\<in>set ds. pdu_ok d" "length (di_bytes it) \<le> usize_max" "ds \<noteq> []"
  shows "parse_loop it n = Ok (it\<lparr>di_offset := length (di_bytes it),
    di_remaining := di_remaining it - length ds, di_done := True\<rparr>, n + length ds)"
  using assms
proof (induction ds arbitrary: it pre n)
  case (Cons d ds)
  let ?b = "pdu_bytes (ds = []) d"
  let ?it = "it\<lparr>di_offset := length pre + length ?b, di_remaining := di_remaining it - 1,
       di_done := dh_last (pdu_header (ds = []) d)\<rparr>"
  have bytes: "di_bytes it = pre @ ?b @ pdus_bytes ds"
    using Cons.prems(1) by (simp add: pdus_bytes_Cons)
  have step: "datagram_iter_next it = (?it, Some (Ok \<lparr>dg_header = pdu_header (ds = []) d,
      dg_payload = pdu_payload d, dg_working_counter = 0\<rparr>))"
    by (rule iter_next_pdu [OF bytes]) (use Cons.prems in auto)
  have fin: "dh_last (pdu_header (ds = []) d) \<longleftrightarrow> ds = []"
    by (cases d) (simp add: pdu_header_def)
  show ?case
  proof (cases "ds = []")
    case True
    with step bytes fin show ?thesis
      by (simp add: parse_loop.simps [of it] parse_loop_done)
  next
    case False
    have "parse_loop ?it (n + 1) = Ok (?it\<lparr>di_offset := length (di_bytes ?it),
      di_remaining := di_remaining ?it - length ds, di_done := True\<rparr>, n + 1 + length ds)"
      by (rule Cons.IH [of _ "pre @ ?b"]) (use Cons.prems False bytes fin in auto)
    with step False show ?thesis by (simp add: parse_loop.simps [of it])
  qed
qed simp

lemma collect_pdus:
  assumes "di_bytes it = pre @ pdus_bytes ds" "di_offset it = length pre" "\<not> di_done it"
    "length ds \<le> di_remaining it" "\<forall>d\<in>set ds. pdu_ok d" "length (di_bytes it) \<le> usize_max" "ds \<noteq> []"
  shows "datagram_iter_collect it = map Ok (pdus_datagrams ds)"
  using assms
proof (induction ds arbitrary: it pre)
  case (Cons d ds)
  let ?b = "pdu_bytes (ds = []) d"
  let ?it = "it\<lparr>di_offset := length pre + length ?b, di_remaining := di_remaining it - 1,
       di_done := dh_last (pdu_header (ds = []) d)\<rparr>"
  have bytes: "di_bytes it = pre @ ?b @ pdus_bytes ds"
    using Cons.prems(1) by (simp add: pdus_bytes_Cons)
  have step: "datagram_iter_next it = (?it, Some (Ok \<lparr>dg_header = pdu_header (ds = []) d,
      dg_payload = pdu_payload d, dg_working_counter = 0\<rparr>))"
    by (rule iter_next_pdu [OF bytes]) (use Cons.prems in auto)
  have fin: "dh_last (pdu_header (ds = []) d) \<longleftrightarrow> ds = []"
    by (cases d) (simp add: pdu_header_def)
  have "datagram_iter_collect ?it = map Ok (pdus_datagrams ds)"
  proof (cases "ds = []")
    case True
    with fin show ?thesis by (simp add: collect_done)
  next
    case False
    show ?thesis
      by (rule Cons.IH [of _ "pre @ ?b"]) (use Cons.prems False bytes fin in auto)
  qed
  with step show ?case by (simp add: datagram_iter_collect.simps [of it])
qed simp

section \<open>Building\<close>

lemma copy_at_append:
  "copy_at (P @ X) (length P) Y = P @ Y @ drop (length Y) X"
  by (simp add: copy_at_def)

lemma link_previous_pdu:
  "link_previous (X @ pdu_bytes True e @ Y) (Some (length X)) = X @ pdu_bytes False e @ Y"
proof -
  let ?h = "pdu_header True e"
  define A where "A = [command_code (dh_command ?h), dh_index ?h] @ u32_to_le (dh_address ?h)"
  have lenA: "length A = 6" by (simp add: A_def)
  have True_: "pdu_bytes True e = A @ u16_to_le (length_word ?h) @ [0, 0] @ pdu_payload e @ [0, 0]"
    by (simp add: pdu_bytes_def header_bytes_def A_def)
  have False_: "pdu_bytes False e =
      A @ u16_to_le (length_word ?h OR DATAGRAM_MORE_BIT) @ [0, 0] @ pdu_payload e @ [0, 0]"
    by (cases e) (simp add: pdu_bytes_def header_bytes_def A_def pdu_header_def length_word_def Let_def)
  let ?buf = "(X @ A) @ u16_to_le (length_word ?h) @ [0, 0] @ pdu_payload e @ [0, 0] @ Y"
  have nth: "?buf ! (length X + 6) = ucast (length_word ?h)"
    "?buf ! (length X + 7) = ucast (drop_bit 8 (length_word ?h))"
    using lenA by (simp_all add: nth_append u16_to_le_def)
  have copy: "copy_at ?buf (length X + 6) w = (X @ A) @ w @
      drop (length w) (u16_to_le (length_word ?h) @ [0, 0] @ pdu_payload e @ [0, 0] @ Y)" for w
    using copy_at_append [of "X @ A" _ w] lenA by simp
  have "link_previous ?buf (Some (length X)) = (X @ A) @ u16_to_le (length_word ?h OR DATAGRAM_MORE_BIT) @
      [0, 0] @ pdu_payload e @ [0, 0] @ Y"
    unfolding link_previous_def option.case nth u16_from_to_le copy by simp
  then show ?thesis by (simp add: True_ False_)
qed

lemma pdus_bytes_snoc: "pdus_bytes (ds @ [d]) = concat (map (pdu_bytes False) ds) @ pdu_bytes True d"
  by (induction ds) (simp_all add: pdus_bytes_Cons)

lemma pdus_bytes_snoc_length: "length (pdus_bytes (ds @ [d])) = length (pdus_bytes ds) + 12 + length (pdu_payload d)"
  by (induction ds) (simp_all add: pdus_bytes_Cons)

definition frame_head :: "bytes \<Rightarrow> bytes \<Rightarrow> bytes" where
  "frame_head destination source = destination @ source @ u16_to_be ETHERCAT_ETHERTYPE @ [0, 0]"

definition builder_holds :: "bytes \<Rightarrow> bytes \<Rightarrow> pdu list \<Rightarrow> frame_builder \<Rightarrow> bool" where
  "builder_holds destination source ds b \<longleftrightarrow>
     length destination = 6 \<and> length source = 6 \<and> length (fb_buffer b) < usize_max \<and>
     (\<forall>d\<in>set ds. pdu_ok d) \<and> fb_datagram_count b = length ds \<and> length ds \<le> 256 \<and>
     fb_offset b = 16 + length (pdus_bytes ds) \<and>
     (\<exists>rest. fb_buffer b = frame_head destination source @ pdus_bytes ds @ rest) \<and>
     fb_previous_header_offset b =
       (if ds = [] then None else Some (16 + length (concat (map (pdu_bytes False) (butlast ds)))))"

lemma length_frame_head: "length d = 6 \<Longrightarrow> length s = 6 \<Longrightarrow> length (frame_head d s) = 16"
  by (simp add: frame_head_def)

lemma builder_new_holds:
  assumes "length destination = 6" "length source = 6" "length buffer < usize_max" "16 \<le> length buffer"
  shows "\<exists>b. frame_builder_new buffer destination source = Ok b \<and> builder_holds destination source [] b \<and>
    length (fb_buffer b) = length buffer"
proof -
  let ?b = "copy_at (copy_at (copy_at (copy_at buffer 0 destination) 6 source) 12
      (u16_to_be ETHERCAT_ETHERTYPE)) 14 (replicate 2 0)"
  have "?b = frame_head destination source @ drop 16 buffer"
    using assms by (simp add: copy_at_def frame_head_def numeral_2_eq_2)
  with assms show ?thesis
    by (simp add: frame_builder_new_def wire_consts Let_def builder_holds_def length_frame_head)
qed

lemma builder_push_holds:
  assumes inv: "builder_holds destination source ds b"
    and ok: "frame_builder_push b command index address payload = (b', Ok ())"
  shows "builder_holds destination source (ds @ [(command, index, address, payload)]) b' \<and>
    length (fb_buffer b') = length (fb_buffer b)"
proof -
  let ?d = "(command, index, address, payload)"
  obtain rest where buf: "fb_buffer b = frame_head destination source @ pdus_bytes ds @ rest"
    using inv by (auto simp: builder_holds_def)
  have head: "length (frame_head destination source) = 16" and off: "fb_offset b = 16 + length (pdus_bytes ds)"
    and usz: "length (fb_buffer b) < usize_max" and cnt: "fb_datagram_count b = length ds"
    using inv by (auto simp: builder_holds_def length_frame_head)
  have d: "pdu_ok ?d" and room: "fb_datagram_count b < 256"
    using ok by (auto simp: frame_builder_push_def pdu_ok_def pdu_payload_def wire_consts split: if_splits)
  define P where "P = frame_head destination source @ pdus_bytes ds"
  have P: "length P = fb_offset b" "fb_buffer b = P @ rest" by (simp_all add: P_def head off buf)
  let ?n = "12 + length payload"
  have "usize_sat_add (fb_offset b) (usize_sat_add (usize_sat_add DATAGRAM_HEADER_LEN (length payload))
      WORKING_COUNTER_LEN) \<le> length (fb_buffer b)"
    using ok by (auto simp: frame_builder_push_def Let_def split: if_splits)
  with usz have end_: "fb_offset b + ?n \<le> length (fb_buffer b)"
    by (simp add: usize_sat_add_def DATAGRAM_HEADER_LEN_def WORKING_COUNTER_LEN_def min_def split: if_splits)
  then have rest: "?n \<le> length rest" using P by simp
  have small: "10 + length payload \<le> usize_max" "?n \<le> usize_max" "fb_offset b + ?n \<le> usize_max"
    using end_ usz by simp_all
  have hv: "header_valid (pdu_header True ?d)" using pdu_header_valid [OF d] .
  have sub: "subslice (fb_buffer b) (fb_offset b) (fb_offset b + DATAGRAM_HEADER_LEN) = take 10 rest"
    using P rest by (simp add: subslice_def DATAGRAM_HEADER_LEN_def)
  have enc: "datagram_header_encode (pdu_header True ?d) (take 10 rest) = (header_bytes (pdu_header True ?d), Ok ())"
    using header_encode_ok [OF hv, of "take 10 rest"] rest by simp
  let ?buf = "P @ pdu_bytes True ?d @ drop ?n rest"
  have written: "copy_at (copy_at (copy_at (fb_buffer b) (fb_offset b) (header_bytes (pdu_header True ?d)))
      (fb_offset b + 10) payload) (fb_offset b + 10 + length payload) (replicate 2 0) = ?buf"
    using P rest by (simp add: copy_at_def pdu_bytes_def pdu_payload_def numeral_2_eq_2)
  have b': "b' = b\<lparr>fb_buffer := link_previous ?buf (fb_previous_header_offset b),
      fb_previous_header_offset := Some (fb_offset b), fb_offset := fb_offset b + ?n,
      fb_datagram_count := fb_datagram_count b + 1\<rparr>"
    using ok d room end_ sub enc written small
    by (simp add: frame_builder_push_def pdu_ok_def pdu_payload_def wire_consts Let_def
        usize_sat_add_exact pdu_header_def)
  have link: "link_previous ?buf (fb_previous_header_offset b) =
      frame_head destination source @ pdus_bytes (ds @ [?d]) @ drop ?n rest"
  proof (cases ds rule: rev_cases)
    case Nil
    then show ?thesis using inv by (simp add: builder_holds_def link_previous_def P_def)
  next
    case (snoc es e)
    let ?X = "frame_head destination source @ concat (map (pdu_bytes False) es)"
    have "fb_previous_header_offset b = Some (length ?X)"
      using inv snoc head by (simp add: builder_holds_def)
    then show ?thesis
      using link_previous_pdu [of ?X e "pdu_bytes True ?d @ drop ?n rest"]
        pdus_bytes_snoc [of "es @ [e]" ?d]
      by (simp add: P_def snoc pdus_bytes_snoc)
  qed
  have prev: "length (concat (map (pdu_bytes False) ds)) = length (pdus_bytes ds)"
    by (induction ds) (simp_all add: pdus_bytes_Cons)
  have "length (fb_buffer b') = length (fb_buffer b)"
    using rest head by (simp add: b' link buf pdus_bytes_snoc_length pdu_payload_def)
  moreover have "fb_buffer b' = frame_head destination source @ pdus_bytes (ds @ [?d]) @ drop ?n rest"
    "fb_offset b' = 16 + length (pdus_bytes (ds @ [?d]))" "fb_datagram_count b' = length (ds @ [?d])"
    "fb_previous_header_offset b' = Some (16 + length (concat (map (pdu_bytes False) ds)))"
    by (simp_all add: b' link off cnt pdus_bytes_snoc_length pdu_payload_def prev)
  ultimately show ?thesis
    using inv d room by (auto simp: builder_holds_def)
qed

fun push_all :: "frame_builder \<Rightarrow> pdu list \<Rightarrow> (wire_error, frame_builder) result" where
  "push_all b [] = Ok b"
| "push_all b ((command, index, address, payload) # ds) =
     (case frame_builder_push b command index address payload of
        (b', Inl e) \<Rightarrow> Err e
      | (b', Inr _) \<Rightarrow> push_all b' ds)"

lemma push_all_holds:
  "builder_holds destination source cs b \<Longrightarrow> push_all b ds = Ok b' \<Longrightarrow>
     builder_holds destination source (cs @ ds) b' \<and> length (fb_buffer b') = length (fb_buffer b)"
proof (induction ds arbitrary: b cs)
  case (Cons d ds)
  obtain command index address payload where d: "d = (command, index, address, payload)"
    by (cases d)
  obtain b1 where push: "frame_builder_push b command index address payload = (b1, Ok ())"
    and rest: "push_all b1 ds = Ok b'"
    using Cons.prems(2) by (auto simp: d split: prod.splits sum.splits)
  from builder_push_holds [OF Cons.prems(1) push] Cons.IH [OF _ rest] show ?case
    by (fastforce simp: d)
qed simp

lemma frame_word_bits:
  assumes "n \<le> 2047" and "w = of_nat n OR push_bit 12 (1 :: u16)"
  shows "w AND 0x07FF = of_nat n" "drop_bit 12 (w AND 0xF000) = 1"
proof -
  let ?l = "of_nat n :: u16"
  have t: "take_bit 11 ?l = ?l"
    by (rule take_bit_11_small) (simp add: unat_length_u16 [OF assms(1)] assms(1))
  have "take_bit 11 (push_bit 12 (1 :: u16)) = 0" by simp
  then show "w AND 0x07FF = ?l" by (simp add: assms(2) mask_2047 take_bit_or t)
  have "drop_bit 12 (take_bit 11 ?l) = 0" by (simp add: drop_bit_take_bit)
  then have "drop_bit 12 ?l = 0" by (simp only: t)
  then have "drop_bit 12 w = 1" by (simp add: assms(2) drop_bit_or)
  moreover have "drop_bit 12 (w AND 0xF000) = drop_bit 12 w AND drop_bit 12 0xF000"
    by (rule drop_bit_and)
  ultimately show "drop_bit 12 (w AND 0xF000) = 1" by simp
qed

lemma finish_bytes:
  assumes inv: "builder_holds destination source ds b" and ok: "frame_builder_finish b = (out, Ok n)"
  shows "ds \<noteq> []" "length (pdus_bytes ds) \<le> 2047" "n = max (16 + length (pdus_bytes ds)) 64"
    "take n out = destination @ source @ u16_to_be ETHERCAT_ETHERTYPE @
       u16_to_le (of_nat (length (pdus_bytes ds)) OR push_bit 12 1) @ pdus_bytes ds @
       replicate (n - (16 + length (pdus_bytes ds))) 0"
proof -
  obtain rest where buf: "fb_buffer b = frame_head destination source @ pdus_bytes ds @ rest"
    using inv by (auto simp: builder_holds_def)
  have props: "length destination = 6" "length source = 6" "fb_offset b = 16 + length (pdus_bytes ds)"
    "fb_datagram_count b = length ds"
    using inv by (auto simp: builder_holds_def)
  show "ds \<noteq> []" using ok props by (auto simp: frame_builder_finish_def)
  have len: "length (pdus_bytes ds) \<le> 2047" and n: "n = max (16 + length (pdus_bytes ds)) 64"
    using ok props by (auto simp: frame_builder_finish_def wire_consts Let_def split: if_splits)
  then show "length (pdus_bytes ds) \<le> 2047" "n = max (16 + length (pdus_bytes ds)) 64" .
  let ?w = "u16_to_le (of_nat (length (pdus_bytes ds)) OR push_bit 12 1)"
  have c1: "copy_at (fb_buffer b) 14 ?w =
      destination @ source @ u16_to_be ETHERCAT_ETHERTYPE @ ?w @ pdus_bytes ds @ rest"
    using props by (simp add: copy_at_def buf frame_head_def)
  have out: "out = copy_at (destination @ source @ u16_to_be ETHERCAT_ETHERTYPE @ ?w @ pdus_bytes ds @ rest)
      (16 + length (pdus_bytes ds)) (replicate (n - (16 + length (pdus_bytes ds))) 0)"
    using ok props c1 n by (auto simp: frame_builder_finish_def wire_consts Let_def split: if_splits)
  then show "take n out = destination @ source @ u16_to_be ETHERCAT_ETHERTYPE @ ?w @ pdus_bytes ds @
       replicate (n - (16 + length (pdus_bytes ds))) 0"
    using props n by (simp add: copy_at_def)
qed

lemma parse_frame_fields:
  assumes "length f = n" "u16_from_be (f ! 12) (f ! 13) = ETHERCAT_ETHERTYPE"
    "u16_from_le (f ! 14) (f ! 15) = w" "unat (w AND 0x07FF) = k" "drop_bit 12 (w AND 0xF000) = 1"
    "n = max (16 + k) 64" "n \<le> MAX_ETHERNET_FRAME_LEN" "16 + k \<le> usize_max"
    "subslice f 16 (16 + k) = payload" "length payload = k" "0 < count"
    "parse_loop \<lparr>di_bytes = payload, di_offset = 0, di_remaining = 256, di_done = False\<rparr> 0 =
       Ok (\<lparr>di_bytes = payload, di_offset = k, di_remaining = r, di_done = True\<rparr>, count)"
    "subslice f 0 6 = destination" "subslice f 6 12 = source"
  shows "frame_view_parse f = Ok \<lparr>fv_destination = destination, fv_source = source,
    fv_payload = payload, fv_frame_type = 1, fv_datagram_count = count\<rparr>"
  using assms
  by (auto simp: frame_view_parse_def Let_def usize_sat_add_exact ETHERNET_HEADER_LEN_def
      ETHERCAT_FRAME_HEADER_LEN_def FRAME_LENGTH_MASK_def FRAME_TYPE_MASK_def MIN_ETHERNET_FRAME_LEN_def)

lemma parse_frame:
  assumes "length destination = 6" "length source = 6" "ds \<noteq> []" "\<forall>d\<in>set ds. pdu_ok d"
    "length ds \<le> 256" "length (pdus_bytes ds) \<le> 2047"
    "n = max (16 + length (pdus_bytes ds)) 64" "n \<le> MAX_ETHERNET_FRAME_LEN"
  shows "frame_view_parse (destination @ source @ u16_to_be ETHERCAT_ETHERTYPE @
       u16_to_le (of_nat (length (pdus_bytes ds)) OR push_bit 12 1) @ pdus_bytes ds @
       replicate (n - (16 + length (pdus_bytes ds))) 0) =
    Ok \<lparr>fv_destination = destination, fv_source = source, fv_payload = pdus_bytes ds,
      fv_frame_type = 1, fv_datagram_count = length ds\<rparr>"
proof -
  let ?w = "of_nat (length (pdus_bytes ds)) OR push_bit 12 (1 :: u16)" and ?len = "length (pdus_bytes ds)"
  let ?pad = "replicate (n - (16 + ?len)) (0 :: u8)"
  let ?f = "destination @ source @ u16_to_be ETHERCAT_ETHERTYPE @ u16_to_le ?w @ pdus_bytes ds @ ?pad"
  have len: "length ?f = n" using assms by simp
  have nth: "?f ! 12 = ucast (drop_bit 8 ETHERCAT_ETHERTYPE)" "?f ! 13 = ucast ETHERCAT_ETHERTYPE"
    "?f ! 14 = ucast ?w" "?f ! 15 = ucast (drop_bit 8 ?w)"
    using assms(1,2) by (simp_all add: nth_append u16_to_be_def u16_to_le_def)
  have slices: "subslice ?f 0 6 = destination" "subslice ?f 6 12 = source"
    "subslice ?f 16 (16 + ?len) = pdus_bytes ds"
    using assms(1,2) by (simp_all add: subslice_def)
  have small: "16 + ?len \<le> usize_max" using assms(6) by (simp add: usize_max_def)
  note bits = frame_word_bits [OF assms(6) refl]
  have unat: "unat (of_nat ?len :: u16) = ?len" using assms(6) by (rule unat_length_u16)
  have loop: "parse_loop \<lparr>di_bytes = pdus_bytes ds, di_offset = 0, di_remaining = 256, di_done = False\<rparr> 0 =
      Ok (\<lparr>di_bytes = pdus_bytes ds, di_offset = ?len, di_remaining = 256 - length ds, di_done = True\<rparr>,
        length ds)"
    using parse_loop_pdus [of "\<lparr>di_bytes = pdus_bytes ds, di_offset = 0, di_remaining = 256, di_done = False\<rparr>"
        "[]" ds 0] assms small by simp
  have be: "u16_from_be (?f ! 12) (?f ! 13) = ETHERCAT_ETHERTYPE" unfolding nth by (rule u16_from_to_be)
  have le: "u16_from_le (?f ! 14) (?f ! 15) = ?w" unfolding nth by (rule u16_from_to_le)
  have k: "unat (?w AND 0x07FF) = ?len" by (simp only: bits(1) unat)
  show ?thesis
    by (rule parse_frame_fields [OF len be le k bits(2) assms(7,8) small slices(3) refl _ loop slices(1,2)])
      (use assms(3) in simp)
qed

lemma frame_roundtrip_built:
  assumes "length destination = 6" and "length source = 6" and "length buffer < usize_max"
    and "frame_builder_new buffer destination source = Ok b0"
    and "push_all b0 ds = Ok b" and "frame_builder_finish b = (out, Ok n)"
    and "n \<le> MAX_ETHERNET_FRAME_LEN"
  shows "\<exists>v. frame_view_parse (take n out) = Ok v \<and> fv_destination v = destination \<and>
    fv_source v = source \<and> fv_frame_type v = 1 \<and> fv_datagram_count v = length ds \<and>
    datagram_iter_collect (frame_view_datagrams v) = map Ok (pdus_datagrams ds)"
proof -
  have "16 \<le> length buffer"
    using assms(4) by (auto simp: frame_builder_new_def wire_consts split: if_splits)
  then have "builder_holds destination source [] b0"
    using builder_new_holds [OF assms(1-3)] assms(4) by auto
  then have holds: "builder_holds destination source ds b"
    using push_all_holds [OF _ assms(5)] by fastforce
  note fin = finish_bytes [OF holds assms(6)]
  have ok: "\<forall>d\<in>set ds. pdu_ok d" "length ds \<le> 256" using holds by (auto simp: builder_holds_def)
  let ?v = "\<lparr>fv_destination = destination, fv_source = source, fv_payload = pdus_bytes ds,
      fv_frame_type = 1, fv_datagram_count = length ds\<rparr>"
  have "frame_view_parse (take n out) = Ok ?v"
    unfolding fin(4) by (rule parse_frame [OF assms(1,2) fin(1) ok fin(2,3) assms(7)])
  moreover have "datagram_iter_collect (frame_view_datagrams ?v) = map Ok (pdus_datagrams ds)"
    by (rule collect_pdus [of _ "[]"])
      (use fin(1,2) ok in \<open>simp_all add: frame_view_datagrams_def usize_max_def\<close>)
  ultimately show ?thesis by auto
qed

section \<open>Room\<close>

definition frame_size :: "pdu list \<Rightarrow> nat" where
  "frame_size ds = 16 + (\<Sum>d\<leftarrow>ds. 12 + length (pdu_payload d))"

lemma length_pdus_bytes: "length (pdus_bytes ds) = (\<Sum>d\<leftarrow>ds. 12 + length (pdu_payload d))"
  by (induction ds) (simp_all add: pdus_bytes_Cons)

lemma builder_push_succeeds:
  assumes inv: "builder_holds destination source cs b" and "length payload \<le> 2047" "length cs < 256"
    and room: "frame_size (cs @ [(command, index, address, payload)]) \<le> length (fb_buffer b)"
  shows "\<exists>b'. frame_builder_push b command index address payload = (b', Ok ())"
proof -
  let ?d = "(command, index, address, payload)"
  have off: "fb_offset b + (12 + length payload) \<le> length (fb_buffer b)"
    and usz: "length (fb_buffer b) < usize_max" and cnt: "fb_datagram_count b = length cs"
    using inv room by (auto simp: builder_holds_def frame_size_def length_pdus_bytes pdu_payload_def)
  have hv: "header_valid (pdu_header True ?d)"
    using assms(2) by (intro pdu_header_valid) (simp add: pdu_ok_def pdu_payload_def)
  have "datagram_header_encode (pdu_header True ?d)
      (subslice (fb_buffer b) (fb_offset b) (fb_offset b + 10)) =
      (header_bytes (pdu_header True ?d), Ok ())"
    using header_encode_ok [OF hv, of "subslice (fb_buffer b) (fb_offset b) (fb_offset b + 10)"] off
    by simp
  moreover have "usize_sat_add (fb_offset b) (usize_sat_add (usize_sat_add 10 (length payload)) 2) =
      fb_offset b + (12 + length payload)"
    using off usz by (simp add: usize_sat_add_exact)
  ultimately show ?thesis
    using assms(2,3) off cnt
    by (simp add: frame_builder_push_def wire_consts Let_def pdu_header_def)
qed

lemma push_all_succeeds:
  assumes "builder_holds destination source cs b" "\<forall>d\<in>set ds. pdu_ok d" "length (cs @ ds) \<le> 256"
    "frame_size (cs @ ds) \<le> length (fb_buffer b)"
  shows "\<exists>b'. push_all b ds = Ok b'"
  using assms
proof (induction ds arbitrary: b cs)
  case (Cons d ds)
  obtain command index address payload where d: "d = (command, index, address, payload)"
    by (cases d)
  have "frame_size (cs @ [d]) \<le> length (fb_buffer b)"
    using Cons.prems(4) by (simp add: frame_size_def)
  then obtain b1 where push: "frame_builder_push b command index address payload = (b1, Ok ())"
    using builder_push_succeeds [OF Cons.prems(1), of payload command index address] Cons.prems(2,3)
    by (auto simp: d pdu_ok_def pdu_payload_def)
  have "\<exists>b'. push_all b1 ds = Ok b'"
    using builder_push_holds [OF Cons.prems(1) push] Cons.prems(2-4)
    by (intro Cons.IH [of "cs @ [d]"]) (auto simp: d)
  with push show ?case by (simp add: d)
qed simp

lemma finish_succeeds:
  assumes "builder_holds destination source ds b" "ds \<noteq> []" "frame_size ds \<le> MAX_ETHERNET_FRAME_LEN"
    "max (frame_size ds) 64 \<le> length (fb_buffer b)"
  shows "\<exists>out. frame_builder_finish b = (out, Ok (max (frame_size ds) 64))"
  using assms
  by (auto simp: frame_builder_finish_def builder_holds_def wire_consts Let_def frame_size_def
      length_pdus_bytes)

lemma frame_build_parse:
  assumes "length destination = 6" and "length source = 6" and "length buffer < usize_max"
    and "ds \<noteq> []" and "length ds \<le> 256" and "frame_size ds \<le> MAX_ETHERNET_FRAME_LEN"
    and "n = max (frame_size ds) MIN_ETHERNET_FRAME_LEN" and "n \<le> length buffer"
  shows "\<exists>b0 b out v. frame_builder_new buffer destination source = Ok b0 \<and>
    push_all b0 ds = Ok b \<and> frame_builder_finish b = (out, Ok n) \<and>
    frame_view_parse (take n out) = Ok v \<and> fv_destination v = destination \<and>
    fv_source v = source \<and> fv_frame_type v = 1 \<and> fv_datagram_count v = length ds \<and>
    datagram_iter_collect (frame_view_datagrams v) = map Ok (pdus_datagrams ds)"
proof -
  have ok: "\<forall>d\<in>set ds. pdu_ok d"
  proof
    fix d assume "d \<in> set ds"
    then have "12 + length (pdu_payload d) \<le> (\<Sum>d\<leftarrow>ds. 12 + length (pdu_payload d))"
      by (intro member_le_sum_list) auto
    with assms(6) show "pdu_ok d"
      by (simp add: frame_size_def pdu_ok_def MAX_ETHERNET_FRAME_LEN_def)
  qed
  have buf: "16 \<le> length buffer" "max (frame_size ds) 64 \<le> length buffer"
    using assms(7,8) by (auto simp: MIN_ETHERNET_FRAME_LEN_def)
  obtain b0 where b0: "frame_builder_new buffer destination source = Ok b0"
    "builder_holds destination source [] b0" "length (fb_buffer b0) = length buffer"
    using builder_new_holds [OF assms(1-3) buf(1)] by blast
  then obtain b where b: "push_all b0 ds = Ok b"
    using push_all_succeeds [OF b0(2) ok] assms(5) buf(2) by auto
  have holds: "builder_holds destination source ds b" "length (fb_buffer b) = length buffer"
    using push_all_holds [OF b0(2) b] b0(3) by auto
  then obtain out where out: "frame_builder_finish b = (out, Ok n)"
    using finish_succeeds [OF holds(1) assms(4,6)] buf(2) assms(7)
    by (auto simp: MIN_ETHERNET_FRAME_LEN_def)
  have "n \<le> MAX_ETHERNET_FRAME_LEN"
    using assms(6,7) by (simp add: MIN_ETHERNET_FRAME_LEN_def MAX_ETHERNET_FRAME_LEN_def)
  from frame_roundtrip_built [OF assms(1-3) b0(1) b out this] b0(1) b out show ?thesis by blast
qed

text \<open>C15. What the frame builder builds, the frame parser reads: for any datagrams (at least one,
  at most 256) that fit an Ethernet frame and the buffer, the builder accepts all of them and
  finishes the frame at its size, padded to the Ethernet minimum; parsing the finished bytes
  succeeds, gives back the addresses and the number of datagrams, and iterating over the view
  yields exactly the pushed datagrams, in order, with their command, index, address, payload
  and length, a cleared working counter and the last flag on the last one only.\<close>

theorem frame_roundtrip:
  assumes "length destination = 6" and "length source = 6" and "length buffer < usize_max"
    and "ds \<noteq> []" and "length ds \<le> 256" and "frame_size ds \<le> MAX_ETHERNET_FRAME_LEN"
    and "n = max (frame_size ds) MIN_ETHERNET_FRAME_LEN" and "n \<le> length buffer"
  shows "\<exists>b0 b out v. frame_builder_new buffer destination source = Ok b0 \<and>
    push_all b0 ds = Ok b \<and> frame_builder_finish b = (out, Ok n) \<and>
    frame_view_parse (take n out) = Ok v \<and> fv_destination v = destination \<and>
    fv_source v = source \<and> fv_frame_type v = 1 \<and> fv_datagram_count v = length ds \<and>
    datagram_iter_collect (frame_view_datagrams v) = map Ok (pdus_datagrams ds)"
  using assms by (rule frame_build_parse)

definition sample_pdus :: "pdu list" where
  "sample_pdus = [(Brd, 7, 0x01300000, [0, 0]), (Lrw, 8, 0x1000, [1, 2, 3])]"

theorem frame_roundtrip_witness:
  "\<exists>b out v. frame_builder_finish b = (out, Ok 64) \<and> frame_view_parse (take 64 out) = Ok v \<and>
     fv_datagram_count v = 2 \<and>
     datagram_iter_collect (frame_view_datagrams v) = map Ok (pdus_datagrams sample_pdus)"
proof -
  have size: "frame_size sample_pdus = 45" and len: "length sample_pdus = 2"
    by (simp_all add: frame_size_def sample_pdus_def pdu_payload_def)
  have hyps: "length [1, 2, 3, 4, 5, 6 :: u8] = 6" "length [6, 5, 4, 3, 2, 1 :: u8] = 6"
    "length (replicate 80 (9 :: u8)) < usize_max" "sample_pdus \<noteq> []" "length sample_pdus \<le> 256"
    "frame_size sample_pdus \<le> MAX_ETHERNET_FRAME_LEN"
    "64 = max (frame_size sample_pdus) MIN_ETHERNET_FRAME_LEN" "64 \<le> length (replicate 80 (9 :: u8))"
    by (simp_all add: size len usize_max_def MAX_ETHERNET_FRAME_LEN_def MIN_ETHERNET_FRAME_LEN_def)
      (simp add: sample_pdus_def)
  from frame_roundtrip [OF hyps] len show ?thesis by metis
qed

section \<open>Foreign frames\<close>

text \<open>What one step of the iterator yields on arbitrary bytes.\<close>

lemma iter_next_Ok:
  assumes "datagram_iter_next it = (it1, Some (Inr d))" "length (di_bytes it) < usize_max"
  shows "it1 = it\<lparr>di_offset := di_offset it + 12 + length (dg_payload d), di_remaining := di_remaining it - 1,
      di_done := dh_last (dg_header d)\<rparr>"
    "0 < di_remaining it" "\<not> di_done it" "length (dg_payload d) = unat (dh_length (dg_header d))"
    "di_offset it + 12 + length (dg_payload d) \<le> length (di_bytes it)"
    "datagram_iter_next (it\<lparr>di_remaining := Suc r\<rparr>) = (it1\<lparr>di_remaining := r\<rparr>, Some (Inr d))"
proof -
  let ?he = "usize_sat_add (di_offset it) DATAGRAM_HEADER_LEN"
  let ?pe = "usize_sat_add ?he (unat (dh_length (dg_header d)))"
  let ?we = "usize_sat_add ?pe WORKING_COUNTER_LEN"
  have cond: "\<not> di_done it" "di_offset it < length (di_bytes it)" "0 < di_remaining it"
    and dec: "datagram_header_decode (subslice (di_bytes it) (di_offset it) ?he) = Inr (dg_header d)"
    and we: "?we \<le> length (di_bytes it)"
    and d: "dg_payload d = subslice (di_bytes it) ?he ?pe"
    and it1: "it1 = it\<lparr>di_offset := ?we, di_remaining := di_remaining it - 1, di_done := dh_last (dg_header d)\<rparr>"
    using assms(1) by (auto simp: datagram_iter_next_def Let_def split: if_splits sum.splits)
  have exact: "?he = di_offset it + 10" "?pe = di_offset it + 10 + unat (dh_length (dg_header d))"
    "?we = di_offset it + 12 + unat (dh_length (dg_header d))"
    using we assms(2) by (simp_all add: usize_sat_add_def wire_consts min_def split: if_splits)
  show "0 < di_remaining it" "\<not> di_done it" using cond by simp_all
  show len: "length (dg_payload d) = unat (dh_length (dg_header d))"
    using we exact by (simp add: d)
  show "di_offset it + 12 + length (dg_payload d) \<le> length (di_bytes it)" using we exact len by simp
  show "it1 = it\<lparr>di_offset := di_offset it + 12 + length (dg_payload d), di_remaining := di_remaining it - 1,
      di_done := dh_last (dg_header d)\<rparr>"
    using it1 exact len by simp
  show "datagram_iter_next (it\<lparr>di_remaining := Suc r\<rparr>) = (it1\<lparr>di_remaining := r\<rparr>, Some (Inr d))"
    using assms(1) by (auto simp: datagram_iter_next_def Let_def split: if_splits sum.splits)
qed

lemma iter_next_None: "datagram_iter_next it = (it', None) \<Longrightarrow> it' = it"
  by (auto simp: datagram_iter_next_def Let_def split: if_splits sum.splits)

text \<open>The last flag on the last datagram only, and each payload as long as its header says.\<close>

fun datagrams_chained :: "datagram list \<Rightarrow> bool" where
  "datagrams_chained [] = True"
| "datagrams_chained (d # ds) \<longleftrightarrow> (dh_last (dg_header d) \<longrightarrow> ds = []) \<and>
     length (dg_payload d) = unat (dh_length (dg_header d)) \<and> datagrams_chained ds"

definition datagrams_size :: "datagram list \<Rightarrow> nat" where
  "datagrams_size ds = (\<Sum>d\<leftarrow>ds. 12 + length (dg_payload d))"

lemma parse_loop_collect:
  assumes "parse_loop it n = Inr (it', m)" "length (di_bytes it) < usize_max"
  shows "\<exists>ds. m = n + length ds \<and> di_offset it' = di_offset it + datagrams_size ds \<and>
    datagrams_chained ds \<and> (di_done it' \<longrightarrow> \<not> di_done it \<longrightarrow> ds \<noteq> [] \<and> dh_last (dg_header (last ds))) \<and>
    (di_done it \<longrightarrow> ds = []) \<and>
    datagram_iter_collect (it\<lparr>di_remaining := length ds\<rparr>) = map Ok ds"
  using assms
proof (induction it n rule: parse_loop.induct)
  case (1 it n)
  obtain it1 r where step: "datagram_iter_next it = (it1, r)" by (cases "datagram_iter_next it")
  show ?case
  proof (cases r)
    case None
    then have "it' = it" "m = n"
      using step 1(2) iter_next_None [of it it1] by (simp_all add: parse_loop.simps [of it])
    moreover have "datagram_iter_collect (it\<lparr>di_remaining := 0\<rparr>) = []"
      by (subst datagram_iter_collect.simps) (simp add: datagram_iter_next_def)
    ultimately show ?thesis by (intro exI [of _ "[]"]) (simp add: datagrams_size_def)
  next
    case (Some e)
    then obtain d where d: "r = Some (Inr d)"
      using step 1(2) by (cases e) (simp_all add: parse_loop.simps [of it])
    with step have next_: "datagram_iter_next it = (it1, Some (Inr d))" by simp
    note it1 = iter_next_Ok [OF next_ 1(3)]
    have loop: "parse_loop it1 (n + 1) = Inr (it', m)"
      using 1(2) next_ by (simp add: parse_loop.simps [of it])
    have "length (di_bytes it1) < usize_max" using 1(3) it1(1) by simp
    from 1(1) [OF next_ [symmetric] refl refl loop this] obtain ds where ds:
      "m = n + 1 + length ds" "di_offset it' = di_offset it1 + datagrams_size ds" "datagrams_chained ds"
      "di_done it' \<longrightarrow> \<not> di_done it1 \<longrightarrow> ds \<noteq> [] \<and> dh_last (dg_header (last ds))" "di_done it1 \<longrightarrow> ds = []"
      "datagram_iter_collect (it1\<lparr>di_remaining := length ds\<rparr>) = map Ok ds" by blast
    have "datagram_iter_collect (it\<lparr>di_remaining := Suc (length ds)\<rparr>) = Ok d # map Ok ds"
      by (subst datagram_iter_collect.simps) (simp add: it1(6) ds(6))
    moreover have "di_done it1 = dh_last (dg_header d)" using it1(1) by simp
    ultimately show ?thesis
      using ds it1(1,3,4) by (intro exI [of _ "d # ds"]) (auto simp: datagrams_size_def)
  qed
qed

text \<open>C16. Robustness against foreign frames: whatever bytes are received, if they parse as a frame
  then iterating over the view never fails and yields exactly the announced number of
  datagrams, at least one; together with their headers and working counters their payloads
  fill the frame's payload exactly, each payload has the length its header announces, and the
  last flag is on the last one only.\<close>

theorem parsed_frame_iterates:
  assumes "frame_view_parse bytes = Ok v"
  shows "\<exists>ds. datagram_iter_collect (frame_view_datagrams v) = map Ok ds \<and>
    length ds = fv_datagram_count v \<and> ds \<noteq> [] \<and> datagrams_size ds = length (fv_payload v) \<and>
    datagrams_chained ds \<and> dh_last (dg_header (last ds))"
proof -
  obtain it where loop: "parse_loop \<lparr>di_bytes = fv_payload v, di_offset = 0, di_remaining = 256,
      di_done = False\<rparr> 0 = Inr (it, fv_datagram_count v)" (is "parse_loop ?it 0 = _")
    and it: "di_done it" "di_offset it = length (fv_payload v)" and len: "length (fv_payload v) \<le> length bytes"
    "length bytes \<le> MAX_ETHERNET_FRAME_LEN"
    using assms by (auto simp: frame_view_parse_def Let_def subslice_def split: if_splits sum.splits)
  have "length (di_bytes ?it) < usize_max"
    using len by (simp add: usize_max_def MAX_ETHERNET_FRAME_LEN_def)
  from parse_loop_collect [OF loop this] it obtain ds where
    "fv_datagram_count v = length ds" "datagrams_size ds = length (fv_payload v)" "datagrams_chained ds"
    "ds \<noteq> []" "dh_last (dg_header (last ds))"
    "datagram_iter_collect (?it\<lparr>di_remaining := length ds\<rparr>) = map Ok ds" by auto
  then show ?thesis
    by (intro exI [of _ ds]) (simp add: frame_view_datagrams_def)
qed

theorem parsed_frame_iterates_witness:
  "\<exists>ds. datagram_iter_collect (frame_view_datagrams \<lparr>fv_destination = replicate 6 0,
     fv_source = replicate 6 0, fv_payload = pdus_bytes sample_pdus, fv_frame_type = 1,
     fv_datagram_count = length sample_pdus\<rparr>) = map Ok ds \<and> datagrams_size ds = 29"
proof -
  have size: "length (pdus_bytes sample_pdus) = 29" "length sample_pdus = 2"
    by (simp_all add: length_pdus_bytes sample_pdus_def pdu_payload_def)
  have "frame_view_parse (replicate 6 0 @ replicate 6 0 @ u16_to_be ETHERCAT_ETHERTYPE @
       u16_to_le (of_nat (length (pdus_bytes sample_pdus)) OR push_bit 12 1) @ pdus_bytes sample_pdus @
       replicate (64 - (16 + length (pdus_bytes sample_pdus))) 0) =
    Ok \<lparr>fv_destination = replicate 6 0, fv_source = replicate 6 0, fv_payload = pdus_bytes sample_pdus,
      fv_frame_type = 1, fv_datagram_count = length sample_pdus\<rparr>"
    by (rule parse_frame)
      (simp_all add: size MAX_ETHERNET_FRAME_LEN_def, simp_all add: sample_pdus_def pdu_ok_def pdu_payload_def)
  from parsed_frame_iterates [OF this] size show ?thesis by auto
qed

end
