(* ===== verification/Frame_Plan.thy ===== *)
theory Frame_Plan
  imports Wire_Roundtrip
begin

text \<open>
  Frame plans (\<open>plan.rs\<close>): the datagrams of one frame, fixed at activation and filled from the
  process image in every cycle, and the packing of a sequence of datagrams into several frames.
  An array with a count is a list of the array's length with the count; \<open>DATAGRAMS\<close> and
  \<open>FRAMES\<close> are the const generics.
\<close>

record datagram_plan =
  dp_command :: wire_command
  dp_index :: u8
  dp_address :: u32
  dp_payload_offset :: nat
  dp_payload_len :: nat
  dp_expected_wkc :: u16

definition datagram_plan_empty :: datagram_plan where
  "datagram_plan_empty = \<lparr>dp_command = Lrw, dp_index = 0, dp_address = 0, dp_payload_offset = 0,
     dp_payload_len = 0, dp_expected_wkc = 0\<rparr>"

datatype plan_error = PlCapacityExceeded | PlDuplicateIndex | PlDatagramLengthOutOfBounds
  | PlFrameTooLarge | PlBufferTooSmall | PlProcessImageOutOfBounds | PlWire wire_error

record frame_plan =
  fp_datagrams :: "datagram_plan list"
  fp_count :: nat
  fp_payload_len :: nat

definition frame_plan_new :: "nat \<Rightarrow> frame_plan" where
  "frame_plan_new DATAGRAMS = \<lparr>fp_datagrams = replicate DATAGRAMS datagram_plan_empty, fp_count = 0,
     fp_payload_len = 0\<rparr>"

definition frame_plan_datagrams :: "frame_plan \<Rightarrow> datagram_plan list" where
  "frame_plan_datagrams p = take (fp_count p) (fp_datagrams p)"

definition frame_plan_push ::
  "nat \<Rightarrow> frame_plan \<Rightarrow> datagram_plan \<Rightarrow> frame_plan \<times> (plan_error, unit) result" where
  "frame_plan_push DATAGRAMS p d =
     (if DATAGRAMS \<le> fp_count p then (p, Err PlCapacityExceeded)
      else if list_ex (\<lambda>e. dp_index e = dp_index d) (frame_plan_datagrams p)
      then (p, Err PlDuplicateIndex)
      else if 0x07FF < dp_payload_len d then (p, Err PlDatagramLengthOutOfBounds)
      else
        let next_payload_len = usize_sat_add (usize_sat_add (usize_sat_add (fp_payload_len p) 10)
              (dp_payload_len d)) 2
        in if 0x07FF < next_payload_len then (p, Err PlFrameTooLarge)
           else if MAX_ETHERNET_FRAME_LEN < usize_sat_add 16 next_payload_len
           then (p, Err PlFrameTooLarge)
           else (p\<lparr>fp_datagrams := (fp_datagrams p)[fp_count p := d], fp_count := fp_count p + 1,
                   fp_payload_len := next_payload_len\<rparr>, Ok ()))"

definition frame_plan_is_empty :: "frame_plan \<Rightarrow> bool" where
  "frame_plan_is_empty p \<longleftrightarrow> fp_count p = 0"

text \<open>The loop of \<open>build\<close>; the builder holds the caller's buffer.\<close>

fun plan_push_all ::
  "frame_builder \<Rightarrow> bytes \<Rightarrow> datagram_plan list \<Rightarrow> (plan_error, frame_builder) result" where
  "plan_push_all b img [] = Ok b"
| "plan_push_all b img (d # ds) =
     (case usize_checked_add (dp_payload_offset d) (dp_payload_len d) of
        None \<Rightarrow> Err PlProcessImageOutOfBounds
      | Some end_off \<Rightarrow>
          if length img < end_off then Err PlProcessImageOutOfBounds
          else case frame_builder_push b (dp_command d) (dp_index d) (dp_address d)
                      (subslice img (dp_payload_offset d) end_off) of
                 (b', Inl e) \<Rightarrow> Err (PlWire e)
               | (b', Inr _) \<Rightarrow> plan_push_all b' img ds)"

text \<open>On success the buffer and the frame length; the source leaves whatever was written in the
  buffer when it fails.\<close>

definition frame_plan_build ::
  "frame_plan \<Rightarrow> bytes \<Rightarrow> bytes \<Rightarrow> bytes \<Rightarrow> bytes \<Rightarrow> (plan_error, bytes \<times> nat) result" where
  "frame_plan_build p buffer destination source img =
     (if frame_plan_is_empty p then Err (PlWire DatagramHeaderTruncated)
      else if length buffer < MIN_ETHERNET_FRAME_LEN then Err PlBufferTooSmall
      else case frame_builder_new buffer destination source of
        Inl e \<Rightarrow> Err (PlWire e)
      | Inr b \<Rightarrow>
          (case plan_push_all b img (frame_plan_datagrams p) of
             Inl e \<Rightarrow> Err e
           | Inr b' \<Rightarrow>
               (case frame_builder_finish b' of
                  (_, Inl e) \<Rightarrow> Err (PlWire e)
                | (out, Inr n) \<Rightarrow> Ok (out, n))))"

datatype frame_plan_set_error = PsCapacityExceeded | PsDuplicateIndex | PsPlan plan_error

record frame_plan_set =
  ps_plans :: "frame_plan list"
  ps_count :: nat

definition frame_plan_set_new :: "nat \<Rightarrow> nat \<Rightarrow> frame_plan_set" where
  "frame_plan_set_new FRAMES DATAGRAMS = \<lparr>ps_plans = replicate FRAMES (frame_plan_new DATAGRAMS),
     ps_count = 0\<rparr>"

definition frame_plan_set_plans :: "frame_plan_set \<Rightarrow> frame_plan list" where
  "frame_plan_set_plans s = take (ps_count s) (ps_plans s)"

definition frame_plan_set_plan :: "frame_plan_set \<Rightarrow> nat \<Rightarrow> frame_plan option" where
  "frame_plan_set_plan s index =
     (if index < length (ps_plans s) \<and> index < ps_count s then Some (ps_plans s ! index) else None)"

definition frame_plan_set_datagram_count :: "frame_plan_set \<Rightarrow> nat" where
  "frame_plan_set_datagram_count s = sum_list (map fp_count (frame_plan_set_plans s))"

text \<open>One round of the loop, on the working copy.\<close>

definition append_step ::
  "nat \<Rightarrow> nat \<Rightarrow> frame_plan_set \<Rightarrow> datagram_plan \<Rightarrow> (frame_plan_set_error, frame_plan_set) result" where
  "append_step FRAMES DATAGRAMS next d =
     (if list_ex (\<lambda>p. list_ex (\<lambda>e. dp_index e = dp_index d) (frame_plan_datagrams p))
           (frame_plan_set_plans next)
      then Err PsDuplicateIndex
      else if ps_count next = 0 \<and> FRAMES = 0 then Err PsCapacityExceeded
      else
        let next = (if ps_count next = 0 then next\<lparr>ps_count := 1\<rparr> else next);
            current = ps_count next - 1
        in case frame_plan_push DATAGRAMS (ps_plans next ! current) d of
             (p, Inr _) \<Rightarrow> Ok (next\<lparr>ps_plans := (ps_plans next)[current := p]\<rparr>)
           | (_, Inl e) \<Rightarrow>
               if e = PlCapacityExceeded \<or> e = PlFrameTooLarge then
                 (if FRAMES \<le> ps_count next then Err PsCapacityExceeded
                  else case frame_plan_push DATAGRAMS (frame_plan_new DATAGRAMS) d of
                    (_, Inl e') \<Rightarrow> Err (PsPlan e')
                  | (frame, Inr _) \<Rightarrow>
                      Ok (next\<lparr>ps_plans := (ps_plans next)[ps_count next := frame],
                               ps_count := ps_count next + 1\<rparr>))
               else if e = PlDuplicateIndex then Err PsDuplicateIndex
               else Err (PsPlan e))"

fun append_loop ::
  "nat \<Rightarrow> nat \<Rightarrow> frame_plan_set \<Rightarrow> datagram_plan list \<Rightarrow> nat \<Rightarrow>
   (frame_plan_set_error, frame_plan_set \<times> nat) result" where
  "append_loop FRAMES DATAGRAMS next [] appended = Ok (next, appended)"
| "append_loop FRAMES DATAGRAMS next (d # ds) appended =
     (case append_step FRAMES DATAGRAMS next d of
        Inl e \<Rightarrow> Err e
      | Inr next' \<Rightarrow> append_loop FRAMES DATAGRAMS next' ds (appended + 1))"

definition append_datagrams ::
  "nat \<Rightarrow> nat \<Rightarrow> frame_plan_set \<Rightarrow> datagram_plan list \<Rightarrow>
   frame_plan_set \<times> (frame_plan_set_error, nat) result" where
  "append_datagrams FRAMES DATAGRAMS s ds =
     (case append_loop FRAMES DATAGRAMS s ds 0 of
        Inl e \<Rightarrow> (s, Err e)
      | Inr (next, appended) \<Rightarrow> (next, Ok appended))"

definition append_datagram ::
  "nat \<Rightarrow> nat \<Rightarrow> frame_plan_set \<Rightarrow> datagram_plan \<Rightarrow>
   frame_plan_set \<times> (frame_plan_set_error, unit) result" where
  "append_datagram FRAMES DATAGRAMS s d =
     (case append_datagrams FRAMES DATAGRAMS s [d] of
        (s', Inl e) \<Rightarrow> (s', Err e) | (s', Inr _) \<Rightarrow> (s', Ok ()))"

section \<open>Plans\<close>

definition plan_ok :: "nat \<Rightarrow> frame_plan \<Rightarrow> bool" where
  "plan_ok DATAGRAMS p \<longleftrightarrow> length (fp_datagrams p) = DATAGRAMS \<and> fp_count p \<le> DATAGRAMS \<and>
     distinct (map dp_index (frame_plan_datagrams p)) \<and>
     fp_payload_len p = (\<Sum>d\<leftarrow>frame_plan_datagrams p. 12 + dp_payload_len d) \<and>
     16 + fp_payload_len p \<le> MAX_ETHERNET_FRAME_LEN"

lemma plan_new_ok: "plan_ok D (frame_plan_new D)" "frame_plan_datagrams (frame_plan_new D) = []"
  by (simp_all add: plan_ok_def frame_plan_new_def frame_plan_datagrams_def MAX_ETHERNET_FRAME_LEN_def)

lemma plan_push_Ok:
  assumes "plan_ok D p" "frame_plan_push D p d = (p', Inr u)"
  shows "plan_ok D p' \<and> frame_plan_datagrams p' = frame_plan_datagrams p @ [d] \<and> fp_count p' = fp_count p + 1"
proof -
  let ?n = "usize_sat_add (usize_sat_add (usize_sat_add (fp_payload_len p) 10) (dp_payload_len d)) 2"
  have c: "fp_count p < D" "\<forall>e\<in>set (frame_plan_datagrams p). dp_index e \<noteq> dp_index d" "?n \<le> 2047"
    "usize_sat_add 16 ?n \<le> MAX_ETHERNET_FRAME_LEN"
    and p': "p' = p\<lparr>fp_datagrams := (fp_datagrams p)[fp_count p := d], fp_count := fp_count p + 1, fp_payload_len := ?n\<rparr>"
    using assms(2) by (auto simp: frame_plan_push_def list_ex_iff Let_def split: if_splits)
  have n: "?n = fp_payload_len p + 12 + dp_payload_len d" "16 + ?n \<le> MAX_ETHERNET_FRAME_LEN"
    using c(3,4) by (auto simp: usize_sat_add_def usize_max_def MAX_ETHERNET_FRAME_LEN_def min_def split: if_splits)
  have dg: "frame_plan_datagrams p' = frame_plan_datagrams p @ [d]"
    using assms(1) c(1) by (simp add: p' frame_plan_datagrams_def plan_ok_def)
  have "plan_ok D p'"
    using assms(1) c n dg unfolding plan_ok_def by (auto simp: p')
  with dg show ?thesis by (simp add: p')
qed

text \<open>Plans assembled by \<open>push\<close>, and what they have to hold: of the datagrams offered, in order,
  those that find room, carry an index of their own, and leave the frame within the EtherCAT length
  field and the largest Ethernet frame.\<close>

definition assemble :: "nat \<Rightarrow> datagram_plan list \<Rightarrow> frame_plan" where
  "assemble DATAGRAMS offered = foldl (\<lambda>p d. fst (frame_plan_push DATAGRAMS p d)) (frame_plan_new DATAGRAMS) offered"

definition plan_accepts :: "nat \<Rightarrow> datagram_plan list \<Rightarrow> datagram_plan \<Rightarrow> bool" where
  "plan_accepts DATAGRAMS ds d \<longleftrightarrow> length ds < DATAGRAMS \<and> dp_index d \<notin> dp_index ` set ds \<and>
     (\<Sum>e\<leftarrow>ds @ [d]. 12 + dp_payload_len e) \<le> 0x07FF \<and>
     16 + (\<Sum>e\<leftarrow>ds @ [d]. 12 + dp_payload_len e) \<le> MAX_ETHERNET_FRAME_LEN"

definition plan_contents :: "nat \<Rightarrow> datagram_plan list \<Rightarrow> datagram_plan list" where
  "plan_contents DATAGRAMS offered =
     foldl (\<lambda>ds d. if plan_accepts DATAGRAMS ds d then ds @ [d] else ds) [] offered"

lemma plan_push_refused: "frame_plan_push D p d = (p', Inl e) \<Longrightarrow> p' = p"
  by (auto simp: frame_plan_push_def Let_def split: if_splits)

lemma plan_push_decides:
  assumes "plan_ok D p"
  shows "is_ok (snd (frame_plan_push D p d)) \<longleftrightarrow> plan_accepts D (frame_plan_datagrams p) d"
proof -
  have count: "length (frame_plan_datagrams p) = fp_count p"
    using assms by (simp add: plan_ok_def frame_plan_datagrams_def)
  have len: "fp_payload_len p = (\<Sum>e\<leftarrow>frame_plan_datagrams p. 12 + dp_payload_len e)" "fp_payload_len p \<le> 1502"
    using assms by (simp_all add: plan_ok_def MAX_ETHERNET_FRAME_LEN_def)
  have total: "(\<Sum>e\<leftarrow>frame_plan_datagrams p @ [d]. 12 + dp_payload_len e) = fp_payload_len p + 12 + dp_payload_len d"
    using len(1) by simp
  have indices: "list_ex (\<lambda>e. dp_index e = dp_index d) (frame_plan_datagrams p) \<longleftrightarrow> dp_index d \<in> dp_index ` set (frame_plan_datagrams p)"
    unfolding list_ex_iff image_iff by metis
  show ?thesis
  proof (cases "dp_payload_len d \<le> 0x07FF")
    case True
    then have "usize_sat_add (usize_sat_add (usize_sat_add (fp_payload_len p) 10) (dp_payload_len d)) 2 =
        fp_payload_len p + 12 + dp_payload_len d"
      "usize_sat_add 16 (fp_payload_len p + 12 + dp_payload_len d) = 16 + (fp_payload_len p + 12 + dp_payload_len d)"
      using len(2) by (simp_all add: usize_sat_add_def usize_max_def)
    with True show ?thesis
      unfolding plan_accepts_def total count frame_plan_push_def indices by (auto simp: is_ok_def Let_def not_le)
  next
    case False
    then have "\<not> (\<Sum>e\<leftarrow>frame_plan_datagrams p @ [d]. 12 + dp_payload_len e) \<le> 0x07FF" unfolding total by simp
    moreover have "\<not> is_ok (snd (frame_plan_push D p d))" using False by (simp add: frame_plan_push_def is_ok_def)
    ultimately show ?thesis unfolding plan_accepts_def by blast
  qed
qed

lemma assemble_contents: "plan_ok D (assemble D offered) \<and> frame_plan_datagrams (assemble D offered) = plan_contents D offered"
proof (induction offered rule: rev_induct)
  case Nil
  show ?case by (simp add: assemble_def plan_contents_def plan_new_ok)
next
  case (snoc d offered)
  let ?p = "assemble D offered"
  have step: "assemble D (offered @ [d]) = fst (frame_plan_push D ?p d)"
    "plan_contents D (offered @ [d]) = (if plan_accepts D (plan_contents D offered) d then plan_contents D offered @ [d] else plan_contents D offered)"
    by (simp_all add: assemble_def plan_contents_def)
  obtain p' r where push: "frame_plan_push D ?p d = (p', r)" by fastforce
  show ?case
  proof (cases r)
    case (Inl e)
    then have "p' = ?p" "\<not> plan_accepts D (plan_contents D offered) d"
      using push plan_push_refused plan_push_decides [of D ?p d] snoc.IH by (auto simp: is_ok_def)
    then show ?thesis using snoc.IH push by (simp add: step)
  next
    case (Inr u)
    then have "plan_ok D p' \<and> frame_plan_datagrams p' = frame_plan_datagrams ?p @ [d]" "plan_accepts D (plan_contents D offered) d"
      using push plan_push_Ok [of D ?p d p' u] plan_push_decides [of D ?p d] snoc.IH by (auto simp: is_ok_def)
    then show ?thesis using snoc.IH push by (simp add: step)
  qed
qed

text \<open>What a datagram of a plan puts on the wire.\<close>

definition plan_pdu :: "bytes \<Rightarrow> datagram_plan \<Rightarrow> pdu" where
  "plan_pdu img d = (dp_command d, dp_index d, dp_address d,
     subslice img (dp_payload_offset d) (dp_payload_offset d + dp_payload_len d))"

definition in_image :: "bytes \<Rightarrow> datagram_plan \<Rightarrow> bool" where
  "in_image img d \<longleftrightarrow> dp_payload_offset d + dp_payload_len d \<le> length img"

lemma plan_push_all_pdus:
  "\<forall>d\<in>set ds. in_image img d \<Longrightarrow> length img < usize_max \<Longrightarrow>
     plan_push_all b img ds = (case push_all b (map (plan_pdu img) ds) of
       Inl e \<Rightarrow> Err (PlWire e) | Inr b' \<Rightarrow> Ok b')"
  by (induction ds arbitrary: b)
    (auto simp: plan_pdu_def in_image_def usize_checked_add_def split: prod.splits sum.splits)

lemma plan_frame_size:
  "\<forall>d\<in>set ds. in_image img d \<Longrightarrow>
     frame_size (map (plan_pdu img) ds) = 16 + (\<Sum>d\<leftarrow>ds. 12 + dp_payload_len d)"
  by (induction ds) (auto simp: frame_size_def plan_pdu_def pdu_payload_def in_image_def)

lemma plan_frame_built:
  assumes "plan_ok D p" and "frame_plan_datagrams p \<noteq> []" and "length (frame_plan_datagrams p) \<le> 256"
    and "length destination = 6" and "length source = 6"
    and "MAX_ETHERNET_FRAME_LEN \<le> length buffer" and "length buffer < usize_max"
    and "length img < usize_max" and "\<forall>d\<in>set (frame_plan_datagrams p). in_image img d"
  shows "\<exists>out n v. frame_plan_build p buffer destination source img = Ok (out, n) \<and>
    frame_view_parse (take n out) = Ok v \<and> fv_datagram_count v = length (frame_plan_datagrams p) \<and>
    datagram_iter_collect (frame_view_datagrams v) =
      map Ok (pdus_datagrams (map (plan_pdu img) (frame_plan_datagrams p)))"
proof -
  let ?ds = "map (plan_pdu img) (frame_plan_datagrams p)"
  have len: "fp_count p = length ?ds"
    using assms(1) by (simp add: plan_ok_def frame_plan_datagrams_def)
  have size: "frame_size ?ds \<le> MAX_ETHERNET_FRAME_LEN"
    using plan_frame_size [OF assms(9)] assms(1) by (simp add: plan_ok_def)
  have room: "max (frame_size ?ds) MIN_ETHERNET_FRAME_LEN \<le> length buffer"
    "MIN_ETHERNET_FRAME_LEN \<le> length buffer"
    using size assms(6) by (simp_all add: MIN_ETHERNET_FRAME_LEN_def MAX_ETHERNET_FRAME_LEN_def)
  have ne: "?ds \<noteq> []" "length ?ds \<le> 256" using assms(2,3) by auto
  then obtain b0 b out v where
    b0: "frame_builder_new buffer destination source = Ok b0" and b: "push_all b0 ?ds = Ok b"
    and out: "frame_builder_finish b = (out, Ok (max (frame_size ?ds) MIN_ETHERNET_FRAME_LEN))"
    and v: "frame_view_parse (take (max (frame_size ?ds) MIN_ETHERNET_FRAME_LEN) out) = Ok v"
      "fv_datagram_count v = length ?ds"
      "datagram_iter_collect (frame_view_datagrams v) = map Ok (pdus_datagrams ?ds)"
    using frame_build_parse [OF assms(4,5,7) _ _ size refl room(1)] by blast
  have "frame_plan_build p buffer destination source img =
      Ok (out, max (frame_size ?ds) MIN_ETHERNET_FRAME_LEN)"
    using len ne(1) room(2) b0 b out plan_push_all_pdus [OF assms(9,8), of b0]
    by (simp add: frame_plan_build_def frame_plan_is_empty_def)
  with v show ?thesis by auto
qed

lemma plan_contents_at_most_256: "length (plan_contents D offered) \<le> 256"
proof -
  have "distinct (map dp_index (plan_contents D offered))"
    using assemble_contents [of D offered] by (auto simp: plan_ok_def)
  then have "length (plan_contents D offered) = card (dp_index ` set (plan_contents D offered))"
    by (metis distinct_card length_map set_map)
  also have "\<dots> \<le> card (UNIV :: u8 set)" by (rule card_mono) simp_all
  finally show ?thesis by (simp add: card_word)
qed

text \<open>C19. A plan assembled by \<open>push\<close> holds exactly the datagrams that had to be admitted, and yields their
  frame: whatever is offered to an empty plan, in whatever order, it holds in order the datagrams that found
  room, had an index of their own, and left the frame within the length field and the largest Ethernet frame,
  and no other. If it holds any, their payload ranges lie in the process image, and the buffer has the size of
  the largest frame, then \<open>build\<close> succeeds and the bytes it produced parse as a frame whose datagrams are
  exactly these, in order, each carrying its range of the process image.\<close>

theorem plan_builds_its_frame:
  assumes "plan_contents D offered \<noteq> []" and "length destination = 6" and "length source = 6"
    and "MAX_ETHERNET_FRAME_LEN \<le> length buffer" and "length buffer < usize_max"
    and "length img < usize_max" and "\<forall>d\<in>set (plan_contents D offered). in_image img d"
  shows "frame_plan_datagrams (assemble D offered) = plan_contents D offered \<and>
    (\<exists>out n v. frame_plan_build (assemble D offered) buffer destination source img = Ok (out, n) \<and>
       frame_view_parse (take n out) = Ok v \<and> fv_datagram_count v = length (plan_contents D offered) \<and>
       datagram_iter_collect (frame_view_datagrams v) = map Ok (pdus_datagrams (map (plan_pdu img) (plan_contents D offered))))"
  using plan_frame_built [of D "assemble D offered"] assemble_contents [of D offered] plan_contents_at_most_256 [of D offered] assms
  by metis

definition sample_offer :: "u8 \<Rightarrow> nat \<Rightarrow> datagram_plan" where
  "sample_offer i n = \<lparr>dp_command = Lrw, dp_index = i, dp_address = 0x1000, dp_payload_offset = 2,
     dp_payload_len = n, dp_expected_wkc = 3\<rparr>"

text \<open>The second datagram repeats the index of the first, the third is too long for the frame, the fifth finds no room.\<close>

theorem plan_builds_its_frame_witness:
  "\<exists>out n v. frame_plan_build (assemble 2 [sample_offer 1 3, sample_offer 1 2, sample_offer 2 1500, sample_offer 3 2, sample_offer 4 1])
       (replicate 2000 0) [1, 2, 3, 4, 5, 6] [6, 5, 4, 3, 2, 1] [9, 8, 7, 6, 5] = Ok (out, n) \<and>
     frame_view_parse (take n out) = Ok v \<and> fv_datagram_count v = 2"
proof -
  let ?offered = "[sample_offer 1 3, sample_offer 1 2, sample_offer 2 1500, sample_offer 3 2, sample_offer 4 1]"
  have "plan_contents 2 ?offered = [sample_offer 1 3, sample_offer 3 2]"
    by (simp add: plan_contents_def plan_accepts_def sample_offer_def MAX_ETHERNET_FRAME_LEN_def)
  moreover have "in_image [9, 8, 7, 6, 5] (sample_offer i 3)" "in_image [9, 8, 7, 6, 5] (sample_offer i 2)" for i
    by (simp_all add: in_image_def sample_offer_def)
  ultimately show ?thesis
    using plan_builds_its_frame [of 2 ?offered "[1, 2, 3, 4, 5, 6]" "[6, 5, 4, 3, 2, 1]" "replicate 2000 0" "[9, 8, 7, 6, 5]"]
    by (auto simp: usize_max_def MAX_ETHERNET_FRAME_LEN_def)
qed

section \<open>Sets of plans\<close>

definition set_datagrams :: "frame_plan_set \<Rightarrow> datagram_plan list" where
  "set_datagrams s = concat (map frame_plan_datagrams (frame_plan_set_plans s))"

definition plan_set_ok :: "nat \<Rightarrow> nat \<Rightarrow> frame_plan_set \<Rightarrow> bool" where
  "plan_set_ok F D s \<longleftrightarrow> length (ps_plans s) = F \<and> ps_count s \<le> F \<and>
     (\<forall>p\<in>set (frame_plan_set_plans s). plan_ok D p \<and> fp_count p \<noteq> 0) \<and>
     (\<forall>i<F. ps_count s \<le> i \<longrightarrow> ps_plans s ! i = frame_plan_new D) \<and>
     distinct (map dp_index (set_datagrams s))"

lemma plan_set_new_ok: "plan_set_ok F D (frame_plan_set_new F D)" "set_datagrams (frame_plan_set_new F D) = []"
  by (simp_all add: plan_set_ok_def frame_plan_set_new_def frame_plan_set_plans_def set_datagrams_def)

text \<open>Replacing the last used plan, or the first unused one, extends the sequence at its end.\<close>

lemma take_update_last: "0 < n \<Longrightarrow> n \<le> length xs \<Longrightarrow> take n (xs[n - 1 := x]) = take (n - 1) xs @ [x]"
  by (cases n) simp_all

lemma take_split_last: "0 < n \<Longrightarrow> n \<le> length xs \<Longrightarrow> take n xs = take (n - 1) xs @ [xs ! (n - 1)]"
  by (cases n) (simp_all add: take_Suc_conv_app_nth)

lemma append_step_cases:
  assumes "append_step F D s d = Inr s'" and "n = max 1 (ps_count s)"
  obtains (current) p where "frame_plan_push D (ps_plans s ! (n - 1)) d = (p, Inr ())"
      "s' = s\<lparr>ps_plans := (ps_plans s)[n - 1 := p], ps_count := n\<rparr>" "ps_count s = 0 \<longrightarrow> F \<noteq> 0"
  | (fresh) p q e where "n < F" "frame_plan_push D (frame_plan_new D) d = (p, Inr ())"
      "s' = s\<lparr>ps_plans := (ps_plans s)[n := p], ps_count := n + 1\<rparr>"
      "frame_plan_push D (ps_plans s ! (n - 1)) d = (q, Inl e)"
proof -
  let ?s = "if ps_count s = 0 then s\<lparr>ps_count := 1\<rparr> else s"
  have n: "ps_count ?s = n" "ps_plans ?s = ps_plans s" "?s\<lparr>ps_plans := x, ps_count := n\<rparr> = s\<lparr>ps_plans := x, ps_count := n\<rparr>"
    "?s\<lparr>ps_plans := x, ps_count := m\<rparr> = s\<lparr>ps_plans := x, ps_count := m\<rparr>" for x m
    using assms(2) by auto
  obtain p r where push: "frame_plan_push D (ps_plans s ! (n - 1)) d = (p, r)" by fastforce
  have F: "ps_count s = 0 \<longrightarrow> F \<noteq> 0" using assms(1) by (auto simp: append_step_def split: if_splits)
  show ?thesis
  proof (cases r)
    case (Inr u)
    then have "s' = ?s\<lparr>ps_plans := (ps_plans s)[n - 1 := p]\<rparr>"
      using assms(1) push unfolding append_step_def Let_def n by (auto split: if_splits)
    then have "s' = s\<lparr>ps_plans := (ps_plans s)[n - 1 := p], ps_count := n\<rparr>"
      using assms(2) by (auto split: if_splits)
    with current push Inr F show ?thesis by auto
  next
    case (Inl e)
    then obtain q where "n < F" "frame_plan_push D (frame_plan_new D) d = (q, Inr ())"
      "s' = ?s\<lparr>ps_plans := (ps_plans s)[n := q], ps_count := n + 1\<rparr>"
      using assms(1) push unfolding append_step_def Let_def n
      by (auto simp: not_le split: if_splits prod.splits sum.splits)
    with fresh push Inl n(4) show ?thesis by metis
  qed
qed

lemma append_step_fresh:
  assumes "append_step F D s d = Inr s'"
  shows "dp_index d \<notin> dp_index ` set (set_datagrams s)"
proof
  assume "dp_index d \<in> dp_index ` set (set_datagrams s)"
  then have "list_ex (\<lambda>p. list_ex (\<lambda>e. dp_index e = dp_index d) (frame_plan_datagrams p))
      (frame_plan_set_plans s)"
    by (fastforce simp: set_datagrams_def list_ex_iff)
  with assms show False by (simp add: append_step_def)
qed

lemma plan_set_used_nth: "plan_set_ok F D s \<Longrightarrow> i < ps_count s \<Longrightarrow> ps_plans s ! i \<in> set (frame_plan_set_plans s)"
  unfolding plan_set_ok_def frame_plan_set_plans_def by (metis in_set_conv_nth length_take min.absorb2 nth_take)

lemma append_step_Ok:
  assumes ok: "plan_set_ok F D s" and step: "append_step F D s d = Inr s'"
  shows "plan_set_ok F D s' \<and> set_datagrams s' = set_datagrams s @ [d]"
  using step refl
proof (cases rule: append_step_cases)
  case (current p)
  let ?n = "max 1 (ps_count s)"
  have n: "0 < ?n" "?n \<le> length (ps_plans s)" using ok current(3) by (auto simp: plan_set_ok_def Suc_le_eq)
  have old: "plan_ok D (ps_plans s ! (?n - 1))"
    using ok n plan_set_used_nth [OF ok, of "?n - 1"]
    by (cases "ps_count s = 0") (auto simp: plan_set_ok_def plan_new_ok(1))
  note p = plan_push_Ok [OF old current(1)]
  have plans': "frame_plan_set_plans s' = take (?n - 1) (ps_plans s) @ [p]"
    using take_update_last [OF n] by (simp add: current(2) frame_plan_set_plans_def)
  have all: "set_datagrams s = concat (map frame_plan_datagrams (take (?n - 1) (ps_plans s))) @
      frame_plan_datagrams (ps_plans s ! (?n - 1))"
  proof (cases "ps_count s = 0")
    case True
    then have "ps_plans s ! 0 = frame_plan_new D" using ok n by (simp add: plan_set_ok_def)
    with True show ?thesis by (simp add: set_datagrams_def frame_plan_set_plans_def plan_new_ok(2))
  next
    case False
    then show ?thesis
      using take_split_last [OF n] by (simp add: set_datagrams_def frame_plan_set_plans_def max_def)
  qed
  have "set_datagrams s' = concat (map frame_plan_datagrams (take (?n - 1) (ps_plans s))) @
      frame_plan_datagrams p"
    by (simp add: set_datagrams_def plans')
  then have dg: "set_datagrams s' = set_datagrams s @ [d]" unfolding all using p by simp
  have sub: "set (take (?n - 1) (ps_plans s)) \<subseteq> set (frame_plan_set_plans s)"
    unfolding frame_plan_set_plans_def by (rule set_take_subset_set_take) simp
  have "plan_set_ok F D s'"
    unfolding plan_set_ok_def dg plans'
    using ok p append_step_fresh [OF step] n sub current(2) by (auto simp: plan_set_ok_def)
  with dg show ?thesis by simp
next
  case (fresh p q e)
  let ?n = "max 1 (ps_count s)"
  have pos: "ps_count s \<noteq> 0"
  proof
    assume "ps_count s = 0"
    then have "ps_plans s ! (?n - 1) = frame_plan_new D" using ok fresh(1) by (simp add: plan_set_ok_def)
    with fresh(2,4) show False by simp
  qed
  then have n: "?n = ps_count s" by simp
  note room = fresh(1) [unfolded n] and s' = fresh(3) [unfolded n]
  note p = plan_push_Ok [OF plan_new_ok(1) fresh(2)]
  have plans': "frame_plan_set_plans s' = frame_plan_set_plans s @ [p]"
    using room ok by (simp add: s' frame_plan_set_plans_def plan_set_ok_def)
  have dg: "set_datagrams s' = set_datagrams s @ [d]"
    using p by (simp add: set_datagrams_def plans' plan_new_ok(2))
  have "plan_set_ok F D s'"
    unfolding plan_set_ok_def dg plans'
    using ok p append_step_fresh [OF step] room by (auto simp: plan_set_ok_def s')
  with dg show ?thesis by simp
qed

lemma append_loop_Ok:
  "plan_set_ok F D s \<Longrightarrow> append_loop F D s ds k = Inr (s', m) \<Longrightarrow>
     plan_set_ok F D s' \<and> set_datagrams s' = set_datagrams s @ ds \<and> m = k + length ds"
proof (induction ds arbitrary: s k)
  case (Cons d ds)
  then obtain s1 where "append_step F D s d = Inr s1" "append_loop F D s1 ds (k + 1) = Inr (s', m)"
    by (auto split: sum.splits)
  with Cons.IH [of s1 "k + 1"] append_step_Ok [OF Cons.prems(1)] show ?case by fastforce
qed simp

text \<open>Packing datagrams into frames is atomic, complete and in order: if appending succeeds,
  the datagrams of all frames, read in frame order, are those before followed by the new ones,
  the number returned is their number, no index occurs twice in the whole set, no frame is
  empty and each stays within its datagram capacity and the Ethernet frame size; if it fails,
  the set is unchanged.\<close>

theorem append_datagrams_atomic:
  assumes "plan_set_ok F D s"
  shows "case append_datagrams F D s ds of
      (s', Inr n) \<Rightarrow> n = length ds \<and> set_datagrams s' = set_datagrams s @ ds \<and> plan_set_ok F D s'
    | (s', Inl e) \<Rightarrow> s' = s"
  using append_loop_Ok [OF assms, of ds 0]
  by (auto simp: append_datagrams_def split: sum.splits prod.splits)

definition sample_datagram :: "u8 \<Rightarrow> datagram_plan" where
  "sample_datagram i = datagram_plan_empty\<lparr>dp_index := i, dp_payload_len := 4\<rparr>"

definition sample_frame :: "u8 \<Rightarrow> frame_plan" where
  "sample_frame i = \<lparr>fp_datagrams = [sample_datagram i], fp_count = 1, fp_payload_len = 16\<rparr>"

text \<open>Frames of one datagram each: the second datagram opens the second frame.\<close>

lemma sample_frame_push:
  "frame_plan_push (Suc 0) (frame_plan_new (Suc 0)) (sample_datagram i) = (sample_frame i, Ok ())"
  "frame_plan_push (Suc 0) (sample_frame i) d = (sample_frame i, Err PlCapacityExceeded)"
  by (simp_all add: frame_plan_push_def frame_plan_new_def frame_plan_datagrams_def sample_datagram_def
      sample_frame_def Let_def MAX_ETHERNET_FRAME_LEN_def usize_sat_add_def usize_max_def)

lemma sample_append:
  "append_datagrams 2 (Suc 0) (frame_plan_set_new 2 (Suc 0)) [sample_datagram 1, sample_datagram 2] =
     (\<lparr>ps_plans = [sample_frame 1, sample_frame 2], ps_count = 2\<rparr>, Ok 2)"
proof -
  have new: "frame_plan_set_new 2 (Suc 0) = \<lparr>ps_plans = [frame_plan_new (Suc 0), frame_plan_new (Suc 0)], ps_count = 0\<rparr>"
    by (simp add: frame_plan_set_new_def numeral_2_eq_2)
  have "append_step 2 (Suc 0) (frame_plan_set_new 2 (Suc 0)) (sample_datagram 1) =
      Inr \<lparr>ps_plans = [sample_frame 1, frame_plan_new (Suc 0)], ps_count = 1\<rparr>"
    using sample_frame_push(1)
    by (simp add: new append_step_def frame_plan_set_plans_def Let_def)
  moreover have "append_step 2 (Suc 0) \<lparr>ps_plans = [sample_frame 1, frame_plan_new (Suc 0)], ps_count = 1\<rparr>
      (sample_datagram 2) = Inr \<lparr>ps_plans = [sample_frame 1, sample_frame 2], ps_count = 2\<rparr>"
    using sample_frame_push
    by (simp add: append_step_def frame_plan_set_plans_def Let_def)
      (simp add: sample_frame_def frame_plan_datagrams_def sample_datagram_def)
  ultimately show ?thesis by (simp add: append_datagrams_def)
qed

theorem append_datagrams_atomic_witness:
  "set_datagrams \<lparr>ps_plans = [sample_frame 1, sample_frame 2], ps_count = 2\<rparr> =
     [sample_datagram 1, sample_datagram 2]"
  using append_datagrams_atomic [OF plan_set_new_ok(1), of 2 "Suc 0" "[sample_datagram 1, sample_datagram 2]"]
  by (simp add: sample_append plan_set_new_ok(2))

end
