(* ===== verification/Diagnostics.thy ===== *)
theory Diagnostics
  imports Spsc_Ring
begin

text \<open>
  The diagnostic queues of \<open>diag.rs\<close>: event queues of the realtime master and of the CoE
  emergencies, each a ring with a counter of the events that did not fit. Both have the same
  operations, here \<open>queue_record\<close> and its companions; the two instances fix the event type.
\<close>

datatype event_code = LinkDown | FrameCorrupt | RxUnmatched | WorkingCounterMismatch
  | ConsumerRejected | RxBudgetExhausted | RxTimeout

fun event_code_value :: "event_code \<Rightarrow> u16" where
  "event_code_value LinkDown = 1" | "event_code_value FrameCorrupt = 2"
| "event_code_value RxUnmatched = 3" | "event_code_value WorkingCounterMismatch = 4"
| "event_code_value ConsumerRejected = 5" | "event_code_value RxBudgetExhausted = 6"
| "event_code_value RxTimeout = 7"

datatype event_severity = SevInfo | SevWarning | SevError | SevFault

fun event_severity_value :: "event_severity \<Rightarrow> u8" where
  "event_severity_value SevInfo = 1" | "event_severity_value SevWarning = 2"
| "event_severity_value SevError = 3" | "event_severity_value SevFault = 4"

record event_record =
  er_cycle :: u64
  er_timestamp_ns :: u64
  er_code :: event_code
  er_severity :: event_severity
  er_index :: u8
  er_reserved :: u8
  er_value :: u32
  er_aux :: u32

definition event_record_new ::
  "u64 \<Rightarrow> u64 \<Rightarrow> event_code \<Rightarrow> event_severity \<Rightarrow> u8 \<Rightarrow> u32 \<Rightarrow> u32 \<Rightarrow> event_record" where
  "event_record_new cycle timestamp code severity index v aux = \<lparr>er_cycle = cycle,
     er_timestamp_ns = timestamp, er_code = code, er_severity = severity, er_index = index,
     er_reserved = 0, er_value = v, er_aux = aux\<rparr>"

text \<open>The payload of an emergency message, \<open>CoeEmergency\<close> of \<open>coe.rs\<close>.\<close>

record coe_emergency =
  ce_error_code :: u16
  ce_error_register :: u8
  ce_manufacturer_data :: bytes

record coe_emergency_event =
  cv_timestamp_ns :: u64
  cv_station_address :: u16
  cv_generation :: u16
  cv_counter :: u8
  cv_reserved :: bytes
  cv_error_code :: u16
  cv_error_register :: u8
  cv_manufacturer_data :: bytes

definition coe_emergency_event_new ::
  "u64 \<Rightarrow> u16 \<Rightarrow> u16 \<Rightarrow> u8 \<Rightarrow> coe_emergency \<Rightarrow> coe_emergency_event" where
  "coe_emergency_event_new timestamp station generation counter e = \<lparr>cv_timestamp_ns = timestamp,
     cv_station_address = station, cv_generation = generation, cv_counter = counter,
     cv_reserved = replicate 3 0, cv_error_code = ce_error_code e,
     cv_error_register = ce_error_register e, cv_manufacturer_data = ce_manufacturer_data e\<rparr>"

record 'e event_queue =
  eq_events :: "'e spsc_ring"
  eq_lost_events :: u64

text \<open>\<open>new\<close> panics (\<open>None\<close>) where the ring's does. \<open>fetch_add\<close> wraps around.\<close>

definition queue_new :: "nat \<Rightarrow> 'e event_queue option" where
  "queue_new N = map_option (\<lambda>r. \<lparr>eq_events = r, eq_lost_events = 0\<rparr>) (spsc_new N)"

definition queue_record :: "nat \<Rightarrow> 'e event_queue \<Rightarrow> 'e \<Rightarrow> 'e event_queue \<times> bool" where
  "queue_record N q e =
     (case spsc_push N (eq_events q) e of
        (r, Inr _) \<Rightarrow> (q\<lparr>eq_events := r\<rparr>, True)
      | (r, Inl _) \<Rightarrow> (q\<lparr>eq_events := r, eq_lost_events := eq_lost_events q + 1\<rparr>, False))"

definition queue_pop :: "nat \<Rightarrow> 'e event_queue \<Rightarrow> 'e event_queue \<times> 'e pop_result" where
  "queue_pop N q = (case spsc_pop N (eq_events q) of (r, x) \<Rightarrow> (q\<lparr>eq_events := r\<rparr>, x))"

definition queue_pending :: "nat \<Rightarrow> 'e event_queue \<Rightarrow> nat" where
  "queue_pending N q = spsc_len N (eq_events q)"

definition diagnostics_new :: "nat \<Rightarrow> event_record event_queue option" where
  "diagnostics_new = queue_new"
definition diagnostics_record :: "nat \<Rightarrow> event_record event_queue \<Rightarrow> event_record \<Rightarrow> event_record event_queue \<times> bool" where
  "diagnostics_record = queue_record"
definition diagnostics_pop :: "nat \<Rightarrow> event_record event_queue \<Rightarrow> event_record event_queue \<times> event_record pop_result" where
  "diagnostics_pop = queue_pop"
definition diagnostics_pending :: "nat \<Rightarrow> event_record event_queue \<Rightarrow> nat" where
  "diagnostics_pending = queue_pending"

definition coe_emergency_queue_new :: "nat \<Rightarrow> coe_emergency_event event_queue option" where
  "coe_emergency_queue_new = queue_new"
definition coe_emergency_queue_record ::
  "nat \<Rightarrow> coe_emergency_event event_queue \<Rightarrow> coe_emergency_event \<Rightarrow> coe_emergency_event event_queue \<times> bool" where
  "coe_emergency_queue_record = queue_record"
definition coe_emergency_queue_pop ::
  "nat \<Rightarrow> coe_emergency_event event_queue \<Rightarrow> coe_emergency_event event_queue \<times> coe_emergency_event pop_result" where
  "coe_emergency_queue_pop = queue_pop"
definition coe_emergency_queue_pending :: "nat \<Rightarrow> coe_emergency_event event_queue \<Rightarrow> nat" where
  "coe_emergency_queue_pending = queue_pending"

section \<open>Runs\<close>

text \<open>A run of recordings and pops: the queue after it, the events for which \<open>record\<close> returned
  true and what the pops delivered.\<close>

fun queue_run ::
  "nat \<Rightarrow> 'e event_queue \<Rightarrow> 'e fifo_op list \<Rightarrow> 'e event_queue \<times> 'e list \<times> 'e pop_result list" where
  "queue_run N q [] = (q, [], [])"
| "queue_run N q (Push e # ops) =
     (case queue_record N q e of (q1, ok) \<Rightarrow>
        case queue_run N q1 ops of (q2, acc, del) \<Rightarrow> (q2, (if ok then e # acc else acc), del))"
| "queue_run N q (Pop # ops) =
     (case queue_pop N q of (q1, r) \<Rightarrow>
        case queue_run N q1 ops of (q2, acc, del) \<Rightarrow> (q2, acc, (if r = PopEmpty then del else r # del)))"

fun recordings :: "'e fifo_op list \<Rightarrow> nat" where
  "recordings [] = 0"
| "recordings (Push e # ops) = Suc (recordings ops)"
| "recordings (Pop # ops) = recordings ops"

lemma queue_run_fifo:
  "queue_run N q ops = (q', acc, del) \<Longrightarrow>
     fifo_run (spsc_push N) (spsc_pop N) (eq_events q) ops = (eq_events q', acc, del) \<and>
     length acc \<le> recordings ops \<and>
     eq_lost_events q' = eq_lost_events q + of_nat (recordings ops - length acc)"
proof (induction N q ops arbitrary: acc del rule: queue_run.induct)
  case (2 N q e ops)
  obtain q1 ok where rec: "queue_record N q e = (q1, ok)" by (cases "queue_record N q e")
  then obtain acc1 where run: "queue_run N q1 ops = (q', acc1, del)"
    and acc: "acc = (if ok then e # acc1 else acc1)"
    using 2(2) by (auto split: prod.splits)
  from 2(1) [OF rec [symmetric] run] acc rec show ?case
    by (auto simp: queue_record_def Suc_diff_le split: prod.splits sum.splits)
next
  case (3 N q ops)
  obtain q1 r where pop: "queue_pop N q = (q1, r)" by (cases "queue_pop N q")
  then obtain del1 where run: "queue_run N q1 ops = (q', acc, del1)"
    and del: "del = (if r = PopEmpty then del1 else r # del1)"
    using 3(2) by (auto split: prod.splits)
  from 3(1) [OF pop [symmetric] run] del pop show ?case
    by (auto simp: queue_pop_def split: prod.splits)
qed simp

text \<open>No diagnostic event is lost silently: in any run of a queue created with a capacity
  that is a power of two, the accepted events are, in order, those delivered followed by those
  pending, nothing undefined is delivered, and \<open>lost_events\<close> is the number of the recordings
  that were refused (as a 64 bit counter).\<close>

theorem diagnostics_account_for_every_event:
  assumes "diagnostics_new N = Some q" and "N < 2 ^ 64" and "queue_run N q ops = (q', acc, del)"
  shows "(\<exists>vs. del = map PopValue vs \<and> acc = vs @ ring_contents N (eq_events q')) \<and>
    diagnostics_pending N q' = length (ring_contents N (eq_events q')) \<and>
    length acc \<le> recordings ops \<and>
    eq_lost_events q' = of_nat (recordings ops - length acc)"
proof -
  have q: "q = \<lparr>eq_events = ring_empty N, eq_lost_events = 0\<rparr>" "is_power_of_two N"
    using assms(1) by (auto simp: diagnostics_new_def queue_new_def spsc_new_def split: if_splits)
  then have inv: "ring_inv N (eq_events q)" "ring_contents N (eq_events q) = []"
    using ring_empty_inv assms(2) by auto
  note run = queue_run_fifo [OF assms(3)]
  from spsc.run_exactly_once [OF inv(1)] run inv(2) have
    "ring_inv N (eq_events q') \<and> (\<exists>vs. del = map PopValue vs \<and> acc = vs @ ring_contents N (eq_events q'))"
    by (metis append_Nil)
  with run q(1) show ?thesis
    by (simp add: diagnostics_pending_def queue_pending_def spsc_len_contents)
qed

definition sample_event :: event_record where
  "sample_event = event_record_new 3 40 RxTimeout SevWarning 5 0 0"

definition sample_queue :: "event_record event_queue" where
  "sample_queue = \<lparr>eq_events = \<lparr>ring_slots = [None, None], ring_head = 0, ring_tail = 0\<rparr>,
     eq_lost_events = 0\<rparr>"

definition sample_queue_end :: "event_record event_queue" where
  "sample_queue_end = \<lparr>eq_events = \<lparr>ring_slots = [None, Some sample_event], ring_head = 2,
     ring_tail = 1\<rparr>, eq_lost_events = 1\<rparr>"

theorem diagnostics_account_for_every_event_witness:
  "eq_lost_events sample_queue_end = 1 \<and> diagnostics_pending 2 sample_queue_end = 1"
proof -
  have new: "diagnostics_new 2 = Some sample_queue"
    by (simp add: diagnostics_new_def queue_new_def spsc_new_def sample_queue_def is_power_of_two.simps
        ring_empty_def numeral_2_eq_2)
  have run: "queue_run 2 sample_queue [Push sample_event, Push sample_event, Push sample_event, Pop] =
      (sample_queue_end, [sample_event, sample_event], [PopValue sample_event])"
    by (simp add: sample_queue_def sample_queue_end_def queue_record_def queue_pop_def spsc_push_def
        spsc_pop_def write_slot_def read_slot_def ring_index_def Let_def)
  from diagnostics_account_for_every_event [OF new _ run] show ?thesis
    by (auto simp: eq_commute [of "[sample_event]"])
qed

end
