(* ===== verification/Schedule_Table.thy ===== *)
theory Schedule_Table
  imports Esop_Prelude
begin

text \<open>
  The multi-rate schedule of \<open>schedule.rs\<close>: at activation the hyperperiod of all domains is
  computed and the mask of the domains due in each of its ticks is tabulated; at run time a
  tick only indexes the table. Ticks are \<open>u32\<close> values; \<open>DOMAINS\<close> and \<open>SLOTS\<close> are the const
  generics of the source.
\<close>

record schedule_domain =
  sd_id :: u8
  sd_period_ticks :: u32
  sd_phase_ticks :: u32

definition schedule_domain_empty :: schedule_domain where
  "schedule_domain_empty = \<lparr>sd_id = 0, sd_period_ticks = 0, sd_phase_ticks = 0\<rparr>"

record schedule_slot =
  ss_due_mask :: u64

definition schedule_slot_empty :: schedule_slot where
  "schedule_slot_empty = \<lparr>ss_due_mask = 0\<rparr>"

definition slot_is_due :: "schedule_slot \<Rightarrow> u8 \<Rightarrow> bool" where
  "slot_is_due s domain_id \<longleftrightarrow> domain_id < 64 \<and> ss_due_mask s AND push_bit (unat domain_id) 1 \<noteq> 0"

datatype schedule_error = InvalidBaseTick | SeCapacityExceeded | TooManyDomains | DuplicateDomainId
  | InvalidPeriod | InvalidPhase | HyperperiodOverflow | HyperperiodTooLarge

record schedule_table =
  st_base_tick_ns :: u64
  st_hyperperiod_ticks :: u32
  st_domains :: "schedule_domain list"
  st_domain_count :: nat
  st_slots :: "schedule_slot list"

text \<open>Euclid's loop; the remainder decreases.\<close>

function tick_gcd :: "u32 \<Rightarrow> u32 \<Rightarrow> u32" where
  "tick_gcd l r = (if r \<noteq> 0 then tick_gcd r (l mod r) else l)"
  by auto
termination
  by (relation "measure (\<lambda>(l, r). unat r)")
    (auto simp: unat_mod unat_gt_0 intro!: mod_less_divisor)

declare tick_gcd.simps [simp del]

definition tick_lcm :: "u32 \<Rightarrow> u32 \<Rightarrow> u32 option" where
  "tick_lcm l r = (let g = tick_gcd l r in if g = 0 then None else checked_mul (l div g) r)"

text \<open>The validation loop: the hyperperiod and the copied domains so far.\<close>

fun schedule_validate ::
  "schedule_domain list \<Rightarrow> nat \<Rightarrow> schedule_domain list \<Rightarrow> u32 \<Rightarrow>
   (schedule_error, u32 \<times> schedule_domain list) result" where
  "schedule_validate [] index copied hyperperiod = Ok (hyperperiod, copied)"
| "schedule_validate (d # ds) index copied hyperperiod =
     (if sd_period_ticks d = 0 then Err InvalidPeriod
      else if sd_period_ticks d \<le> sd_phase_ticks d then Err InvalidPhase
      else if list_ex (\<lambda>e. sd_id e = sd_id d) (take index copied) then Err DuplicateDomainId
      else if 64 \<le> sd_id d then Err TooManyDomains
      else case tick_lcm hyperperiod (sd_period_ticks d) of
        None \<Rightarrow> Err HyperperiodOverflow
      | Some h \<Rightarrow> schedule_validate ds (index + 1) (copied[index := d]) h)"

text \<open>The due mask of a tick of the hyperperiod.\<close>

fun slot_due_mask :: "u32 \<Rightarrow> schedule_domain list \<Rightarrow> u64 \<Rightarrow> u64" where
  "slot_due_mask slot [] m = m"
| "slot_due_mask slot (d # ds) m =
     slot_due_mask slot ds
       (if (slot + sd_period_ticks d - sd_phase_ticks d) mod sd_period_ticks d = 0
        then m OR push_bit (unat (sd_id d)) 1 else m)"

definition schedule_build ::
  "nat \<Rightarrow> nat \<Rightarrow> u64 \<Rightarrow> schedule_domain list \<Rightarrow> (schedule_error, schedule_table) result" where
  "schedule_build DOMAINS SLOTS base_tick domains =
     (if base_tick = 0 then Err InvalidBaseTick
      else if DOMAINS < length domains then Err SeCapacityExceeded
      else if 64 < length domains then Err TooManyDomains
      else if SLOTS = 0 then Err HyperperiodTooLarge
      else case schedule_validate domains 0 (replicate DOMAINS schedule_domain_empty) 1 of
        Inl e \<Rightarrow> Err e
      | Inr (hyperperiod, copied) \<Rightarrow>
          if SLOTS < unat hyperperiod then Err HyperperiodTooLarge
          else Ok \<lparr>st_base_tick_ns = base_tick, st_hyperperiod_ticks = hyperperiod,
            st_domains = copied, st_domain_count = length domains,
            st_slots = map (\<lambda>slot. \<lparr>ss_due_mask =
                slot_due_mask (of_nat slot) (take (length domains) copied) 0\<rparr>) [0..<unat hyperperiod] @
              replicate (SLOTS - unat hyperperiod) schedule_slot_empty\<rparr>)"

definition schedule_domains :: "schedule_table \<Rightarrow> schedule_domain list" where
  "schedule_domains t = take (st_domain_count t) (st_domains t)"

definition schedule_slot_at :: "schedule_table \<Rightarrow> u32 \<Rightarrow> schedule_slot" where
  "schedule_slot_at t tick = st_slots t ! unat (tick mod st_hyperperiod_ticks t)"

definition schedule_due_mask :: "schedule_table \<Rightarrow> u32 \<Rightarrow> u64" where
  "schedule_due_mask t tick = ss_due_mask (schedule_slot_at t tick)"

section \<open>Arithmetic\<close>

lemma unat_tick_gcd: "unat (tick_gcd l r) = gcd (unat l) (unat r)"
proof (induction l r rule: tick_gcd.induct)
  case (1 l r)
  show ?case
  proof (cases "r = 0")
    case True
    then show ?thesis by (subst tick_gcd.simps) simp
  next
    case False
    with 1 have "unat (tick_gcd r (l mod r)) = gcd (unat r) (unat l mod unat r)"
      by (simp add: unat_mod)
    also have "\<dots> = gcd (unat l) (unat r)" by (simp add: gcd_red_nat [of "unat l"])
    finally show ?thesis using False by (simp add: tick_gcd.simps [of l r])
  qed
qed

lemma tick_lcm_Some:
  assumes "tick_lcm l r = Some h" "l \<noteq> 0"
  shows "unat h = lcm (unat l) (unat r)"
proof -
  let ?g = "tick_gcd l r"
  have "checked_mul (l div ?g) r = Some h"
    using assms(1) by (simp add: tick_lcm_def Let_def split: if_splits)
  then have "unat h = unat (l div ?g) * unat r"
    by (auto simp: checked_mul_def unat_word_ariths split: if_splits)
  also have "\<dots> = unat l div gcd (unat l) (unat r) * unat r"
    by (simp add: unat_div unat_tick_gcd)
  also have "\<dots> = lcm (unat l) (unat r)"
    by (simp add: lcm_nat_def div_mult_swap [OF gcd_dvd1] mult.commute)
  finally show ?thesis .
qed

lemma tick_due_iff:
  fixes slot period phase :: u32
  assumes "phase < period" "unat slot + unat period < 2 ^ 32"
  shows "(slot + period - phase) mod period = 0 \<longleftrightarrow> slot mod period = phase"
proof -
  let ?s = "unat slot" and ?p = "unat period" and ?f = "unat phase"
  have lt: "?f < ?p" using assms(1) by (simp add: word_less_nat_alt)
  have sum: "unat (slot + period) = ?s + ?p" using assms(2) by (simp add: unat_word_ariths)
  have le: "phase \<le> slot + period" using lt sum by (simp add: word_le_nat_alt)
  have "unat (slot + period - phase) = ?s + ?p - ?f" using unat_sub [OF le] sum by simp
  then have "(slot + period - phase) mod period = 0 \<longleftrightarrow> (?s + ?p - ?f) mod ?p = 0"
    by (simp add: unat_mod flip: unat_eq_0)
  also have "\<dots> \<longleftrightarrow> (?s + (?p - ?f)) mod ?p = 0" using lt by simp
  also have "\<dots> \<longleftrightarrow> ?s mod ?p = ?f"
  proof -
    have "(?s + (?p - ?f)) mod ?p = (?s mod ?p + (?p - ?f)) mod ?p" by (simp add: mod_add_left_eq)
    moreover have "?s mod ?p < ?p" using lt by simp
    ultimately show ?thesis
      using lt by (cases "?s mod ?p < ?f") (auto simp: le_mod_geq)
  qed
  also have "\<dots> \<longleftrightarrow> slot mod period = phase"
    by (simp add: word_unat_eq_iff unat_mod)
  finally show ?thesis .
qed

section \<open>The table\<close>

definition domain_ok :: "schedule_domain \<Rightarrow> bool" where
  "domain_ok d \<longleftrightarrow> sd_phase_ticks d < sd_period_ticks d \<and> sd_id d < 64"

lemma schedule_validate_Ok:
  assumes "schedule_validate ds index copied h = Ok (h', copied')" "index + length ds \<le> length copied" "h \<noteq> 0"
  shows "take (index + length ds) copied' = take index copied @ ds \<and> (\<forall>d\<in>set ds. domain_ok d) \<and>
    h' \<noteq> 0 \<and> unat h dvd unat h' \<and> (\<forall>d\<in>set ds. unat (sd_period_ticks d) dvd unat h') \<and>
    distinct (map sd_id ds) \<and> (\<forall>d\<in>set ds. \<forall>e\<in>set (take index copied). sd_id e \<noteq> sd_id d)"
  using assms
proof (induction ds arbitrary: index copied h)
  case (Cons d ds)
  from Cons.prems(1) obtain h1 where
    d: "sd_period_ticks d \<noteq> 0" "domain_ok d" "\<forall>e\<in>set (take index copied). sd_id e \<noteq> sd_id d"
    and lcm: "tick_lcm h (sd_period_ticks d) = Some h1"
    and rest: "schedule_validate ds (index + 1) (copied[index := d]) h1 = Ok (h', copied')"
    by (auto simp: domain_ok_def not_le list_ex_iff split: if_splits option.splits)
  have h1: "unat h1 = lcm (unat h) (unat (sd_period_ticks d))"
    using tick_lcm_Some [OF lcm] Cons.prems(3) by simp
  then have "unat h1 \<noteq> 0" using d(1) Cons.prems(3) by (simp add: unat_eq_0)
  then have "h1 \<noteq> 0" by auto
  have take: "take (index + 1) (copied[index := d]) = take index copied @ [d]"
    using Cons.prems(2) by simp
  have IH: "take (index + 1 + length ds) copied' = take index copied @ d # ds"
    "\<forall>d\<in>set ds. domain_ok d" "h' \<noteq> 0" "unat h1 dvd unat h'"
    "\<forall>d\<in>set ds. unat (sd_period_ticks d) dvd unat h'" "distinct (map sd_id ds)"
    "\<forall>x\<in>set ds. \<forall>e\<in>set (take index copied @ [d]). sd_id e \<noteq> sd_id x"
    using Cons.IH [OF rest _ \<open>h1 \<noteq> 0\<close>] Cons.prems(2) unfolding take by auto
  have "unat h dvd unat h'" "unat (sd_period_ticks d) dvd unat h'"
    using IH(4) h1 by (metis dvd_lcm1 dvd_trans, metis dvd_lcm2 dvd_trans)
  with IH d show ?case by auto
qed simp

lemma bit_or_exp: "bit (m OR 2 ^ n :: u64) k \<longleftrightarrow> bit m k \<or> k = n \<and> k < 64"
  using bit_exp_iff [of n k, where 'a = u64] by (auto simp: bit_or_iff)

definition due_in :: "u32 \<Rightarrow> schedule_domain \<Rightarrow> bool" where
  "due_in slot d \<longleftrightarrow> (slot + sd_period_ticks d - sd_phase_ticks d) mod sd_period_ticks d = 0"

lemma bit_slot_due_mask:
  "bit (slot_due_mask slot ds m) k \<longleftrightarrow>
     bit m k \<or> k < 64 \<and> (\<exists>d\<in>set ds. unat (sd_id d) = k \<and> due_in slot d)"
proof (induction ds arbitrary: m)
  case (Cons d ds)
  have "slot_due_mask slot (d # ds) m =
      slot_due_mask slot ds (if due_in slot d then m OR 2 ^ unat (sd_id d) else m)"
    unfolding due_in_def by simp
  then show ?case using Cons.IH by (auto simp: bit_or_exp)
qed simp

lemma slot_is_due_bit: "slot_is_due s i \<longleftrightarrow> i < 64 \<and> bit (ss_due_mask s) (unat i)"
  by (simp add: slot_is_due_def and_exp_eq_0_iff_not_bit)

text \<open>The schedule table is exact: if the table can be built (with at most \<open>2 ^ 31\<close> slots, so
  that adding a period to a slot number cannot overflow), then at every 32 bit tick the run-time
  lookup stays inside the table and reports a domain as due exactly when the domain is one of
  those given and the tick is congruent to its phase modulo its period; the domains are kept in
  order.\<close>

theorem schedule_due_exact:
  assumes "schedule_build DOMAINS SLOTS base domains = Ok t" and "SLOTS \<le> 2 ^ 31"
  shows "(slot_is_due (schedule_slot_at t tick) i \<longleftrightarrow>
      (\<exists>d\<in>set domains. sd_id d = i \<and> tick mod sd_period_ticks d = sd_phase_ticks d)) \<and>
    unat (tick mod st_hyperperiod_ticks t) < length (st_slots t) \<and>
    length (st_slots t) = SLOTS \<and> schedule_domains t = domains"
proof -
  obtain h copied where
    val: "schedule_validate domains 0 (replicate DOMAINS schedule_domain_empty) 1 = Ok (h, copied)"
    and len: "length domains \<le> DOMAINS" and size: "unat h \<le> SLOTS"
    and t: "st_hyperperiod_ticks t = h" "st_domains t = copied" "st_domain_count t = length domains"
      "st_slots t = map (\<lambda>slot. \<lparr>ss_due_mask = slot_due_mask (of_nat slot)
          (take (length domains) copied) 0\<rparr>) [0..<unat h] @ replicate (SLOTS - unat h) schedule_slot_empty"
    using assms(1) by (auto simp: schedule_build_def split: if_splits sum.splits)
  note v = schedule_validate_Ok [OF val, simplified, OF len]
  let ?s = "tick mod h"
  have s: "unat ?s < unat h" using v by (simp add: unat_mod unat_gt_0)
  then have slot: "schedule_slot_at t tick = \<lparr>ss_due_mask = slot_due_mask ?s domains 0\<rparr>"
    using v by (simp add: schedule_slot_at_def t nth_append)
  have due: "(?s + sd_period_ticks d - sd_phase_ticks d) mod sd_period_ticks d = 0 \<longleftrightarrow>
      tick mod sd_period_ticks d = sd_phase_ticks d" if d: "d \<in> set domains" for d
  proof -
    have dvd: "unat (sd_period_ticks d) dvd unat h" using v d by blast
    then have "unat (sd_period_ticks d) \<le> unat h" using s by (intro dvd_imp_le) auto
    then have "unat ?s + unat (sd_period_ticks d) < 2 ^ 32" using s size assms(2) by simp
    moreover have "sd_phase_ticks d < sd_period_ticks d" using v d by (simp add: domain_ok_def)
    ultimately have "(?s + sd_period_ticks d - sd_phase_ticks d) mod sd_period_ticks d = 0 \<longleftrightarrow>
        ?s mod sd_period_ticks d = sd_phase_ticks d" by (intro tick_due_iff)
    also have "?s mod sd_period_ticks d = tick mod sd_period_ticks d"
      using dvd by (simp add: word_unat_eq_iff unat_mod mod_mod_cancel)
    finally show ?thesis .
  qed
  have id64: "d \<in> set domains \<Longrightarrow> unat (sd_id d) < 64" for d
    using v by (simp add: domain_ok_def word_less_nat_alt)
  have "slot_is_due (schedule_slot_at t tick) i \<longleftrightarrow>
      (\<exists>d\<in>set domains. sd_id d = i \<and> tick mod sd_period_ticks d = sd_phase_ticks d)"
    using due id64 v
    by (auto simp: slot_is_due_bit slot bit_slot_due_mask due_in_def domain_ok_def word_unat_eq_iff word_less_nat_alt
        dest: id64)
  then show ?thesis using s size v by (simp add: t schedule_domains_def)
qed

definition sample_schedule :: "schedule_domain list" where
  "sample_schedule = [\<lparr>sd_id = 3, sd_period_ticks = 2, sd_phase_ticks = 1\<rparr>,
     \<lparr>sd_id = 5, sd_period_ticks = 3, sd_phase_ticks = 0\<rparr>]"

theorem schedule_due_exact_witness:
  "\<exists>t. schedule_build 4 8 1000 sample_schedule = Ok t \<and> slot_is_due (schedule_slot_at t 9) 3 \<and>
     slot_is_due (schedule_slot_at t 9) 5 \<and> \<not> slot_is_due (schedule_slot_at t 10) 3"
proof -
  have "gcd 2 (3 :: nat) = 1" by (simp add: gcd_red_nat [of 2 3] gcd_red_nat [of 3 2])
  then have "tick_gcd 1 2 = 1" "tick_gcd 2 3 = 1"
    by (simp_all add: word_unat_eq_iff unat_tick_gcd)
  then have lcm: "tick_lcm 1 2 = Some 2" "tick_lcm 2 3 = Some 6"
    by (simp_all add: tick_lcm_def checked_mul_def)
  have slots: "replicate 4 schedule_domain_empty = [schedule_domain_empty, schedule_domain_empty,
      schedule_domain_empty, schedule_domain_empty]"
    by (simp add: numeral_eq_Suc)
  obtain t where t: "schedule_build 4 8 1000 sample_schedule = Ok t"
    by (auto simp: schedule_build_def sample_schedule_def lcm slots word_le_nat_alt)
  show ?thesis
    using schedule_due_exact [OF t, of 9 3] schedule_due_exact [OF t, of 9 5]
      schedule_due_exact [OF t, of 10 3] t
    by (simp add: sample_schedule_def)
qed

end
