(* ===== verification/Pool_Interface.thy ===== *)
theory Pool_Interface
  imports Esop_Prelude
begin

text \<open>
  The contract of a pool of numbered slots: what its clients rely on when they hold handles.
  From the contract alone: whatever sequence of acquisitions and releases is made, the slots in
  use are exactly the handles that were handed out and not given back, and no handle is handed
  out while it is held.
\<close>

datatype 'a pool_op = Acquire 'a | Release nat

datatype pool_event = Acquired nat | Exhausted | Released nat | Refused nat

text \<open>The handles held after an event.\<close>

fun held_after :: "nat set \<Rightarrow> pool_event \<Rightarrow> nat set" where
  "held_after H (Acquired h) = insert h H"
| "held_after H Exhausted = H"
| "held_after H (Released h) = H - {h}"
| "held_after H (Refused h) = H"

text \<open>An event is sound if it hands out only what nobody holds, reports exhaustion only when all
  slots are held, and accepts a release exactly of what is held.\<close>

fun event_sound :: "nat \<Rightarrow> nat set \<Rightarrow> pool_event \<Rightarrow> bool" where
  "event_sound cap H (Acquired h) \<longleftrightarrow> h < cap \<and> h \<notin> H"
| "event_sound cap H Exhausted \<longleftrightarrow> H = {..<cap}"
| "event_sound cap H (Released h) \<longleftrightarrow> h \<in> H"
| "event_sound cap H (Refused h) \<longleftrightarrow> h \<notin> H"

fun trace_sound :: "nat \<Rightarrow> nat set \<Rightarrow> pool_event list \<Rightarrow> bool" where
  "trace_sound cap H [] = True"
| "trace_sound cap H (e # es) \<longleftrightarrow> event_sound cap H e \<and> trace_sound cap (held_after H e) es"

locale slot_pool =
  fixes acquire :: "'p \<Rightarrow> 'a \<Rightarrow> 'p \<times> nat option"
    and release :: "'p \<Rightarrow> nat \<Rightarrow> 'p \<times> bool"
    and live :: "'p \<Rightarrow> nat set"
    and invar :: "'p \<Rightarrow> bool"
    and cap :: nat
  assumes acquire_Some: "invar p \<Longrightarrow> acquire p a = (p', Some h) \<Longrightarrow>
      h < cap \<and> h \<notin> live p \<and> live p' = insert h (live p) \<and> invar p'"
    and acquire_None: "invar p \<Longrightarrow> acquire p a = (p', None) \<Longrightarrow> p' = p \<and> live p = {..<cap}"
    and release_True: "invar p \<Longrightarrow> release p h = (p', True) \<Longrightarrow>
      h \<in> live p \<and> live p' = live p - {h} \<and> invar p'"
    and release_False: "invar p \<Longrightarrow> release p h = (p', False) \<Longrightarrow> p' = p \<and> h \<notin> live p"
begin

fun step :: "'p \<Rightarrow> 'a pool_op \<Rightarrow> 'p \<times> pool_event" where
  "step p (Acquire a) = (case acquire p a of (p', Some h) \<Rightarrow> (p', Acquired h) | (p', None) \<Rightarrow> (p', Exhausted))"
| "step p (Release h) = (case release p h of (p', ok) \<Rightarrow> (p', if ok then Released h else Refused h))"

fun trace :: "'p \<Rightarrow> 'a pool_op list \<Rightarrow> 'p \<times> pool_event list" where
  "trace p [] = (p, [])"
| "trace p (op # ops) = (case step p op of (p1, e) \<Rightarrow> case trace p1 ops of (p2, es) \<Rightarrow> (p2, e # es))"

lemma step_sound:
  assumes "invar p" "step p op = (p', e)"
  shows "invar p' \<and> event_sound cap (live p) e \<and> live p' = held_after (live p) e"
proof (cases op)
  case (Acquire a)
  obtain p1 r where acq: "acquire p a = (p1, r)" by fastforce
  show ?thesis
  proof (cases r)
    case None
    with acq have "acquire p a = (p1, None)" by simp
    moreover from this have "p' = p1 \<and> e = Exhausted" using assms(2) Acquire by simp
    ultimately show ?thesis using acquire_None [OF assms(1), of a p1] assms(1) by simp
  next
    case (Some h)
    with acq have "acquire p a = (p1, Some h)" by simp
    moreover from this have "p' = p1 \<and> e = Acquired h" using assms(2) Acquire by simp
    ultimately show ?thesis using acquire_Some [OF assms(1)] by simp
  qed
next
  case (Release h)
  obtain p1 ok where rel: "release p h = (p1, ok)" by fastforce
  show ?thesis
  proof (cases ok)
    case True
    with rel have "release p h = (p1, True)" by simp
    moreover from this have "p' = p1 \<and> e = Released h" using assms(2) Release by simp
    ultimately show ?thesis using release_True [OF assms(1)] by simp
  next
    case False
    with rel have "release p h = (p1, False)" by simp
    moreover from this have "p' = p1 \<and> e = Refused h" using assms(2) Release by simp
    ultimately show ?thesis using release_False [OF assms(1), of h p1] assms(1) by simp
  qed
qed

lemma trace_is_sound:
  "invar p \<Longrightarrow> trace p ops = (p', es) \<Longrightarrow>
     invar p' \<and> trace_sound cap (live p) es \<and> live p' = foldl held_after (live p) es"
proof (induction ops arbitrary: p es)
  case (Cons op ops)
  obtain p1 e where s: "step p op = (p1, e)" by fastforce
  obtain es1 where t: "trace p1 ops = (p', es1)" and es: "es = e # es1"
    using Cons.prems(2) s by (auto split: prod.splits)
  from step_sound [OF Cons.prems(1) s] Cons.IH [OF _ t] es show ?case by auto
qed simp

end

end
