(* ===== verification/Bit_Scan.thy ===== *)
theory Bit_Scan
  imports Esop_Prelude
begin

text \<open>
  \<open>trailing_zeros\<close> and \<open>count_ones\<close> of 64 bit words, as the frame pool and the receive index
  use them to walk a bitmap, and the list of the set bits of a word.
\<close>

definition trailing_zeros :: "u64 \<Rightarrow> nat" where
  "trailing_zeros w = length (takeWhile (\<lambda>i. \<not> bit w i) [0..<64])"

definition count_ones :: "u64 \<Rightarrow> nat" where
  "count_ones w = length (filter (bit w) [0..<64])"

lemma trailing_zeros_lowest:
  assumes "w \<noteq> 0"
  shows "bit w (trailing_zeros w) \<and> trailing_zeros w < 64 \<and> (\<forall>j<trailing_zeros w. \<not> bit w j)"
proof -
  let ?xs = "[0..<64] :: nat list"
  have skipped: "\<not> bit w j" if "j < trailing_zeros w" for j
  proof -
    have "takeWhile (\<lambda>i. \<not> bit w i) ?xs ! j \<in> set (takeWhile (\<lambda>i. \<not> bit w i) ?xs)"
      using that by (intro nth_mem) (simp add: trailing_zeros_def)
    moreover have "takeWhile (\<lambda>i. \<not> bit w i) ?xs ! j = j"
      using that length_takeWhile_le [of "\<lambda>i. \<not> bit w i" ?xs]
      by (simp add: trailing_zeros_def takeWhile_nth)
    ultimately show ?thesis by (metis set_takeWhileD)
  qed
  have "\<exists>i<64. bit w i"
  proof (rule ccontr)
    assume "\<not> ?thesis"
    then have "w = 0" by (intro bit_word_eqI) auto
    with assms show False by simp
  qed
  then have lt: "trailing_zeros w < 64" using skipped by (meson leI less_le_trans)
  then have "\<not> (\<not> bit w (?xs ! trailing_zeros w))"
    unfolding trailing_zeros_def by (intro nth_length_takeWhile [of "\<lambda>i. \<not> bit w i" ?xs]) simp
  with lt show ?thesis using skipped by simp
qed

lemma count_ones_card: "count_ones w = card {i. i < 64 \<and> bit w i}"
proof -
  have "count_ones w = card (set (filter (bit w) [0..<64]))"
    unfolding count_ones_def by (rule distinct_card [symmetric]) simp
  also have "set (filter (bit w) [0..<64]) = {i. i < 64 \<and> bit w i}" by auto
  finally show ?thesis .
qed

definition set_bits_of :: "u64 \<Rightarrow> nat list" where
  "set_bits_of w = filter (bit w) [0..<64]"

lemma set_bits_of_0 [simp]: "set_bits_of 0 = []"
  by (simp add: set_bits_of_def)

lemma bit_clear: "n < 64 \<Longrightarrow> bit ((w :: u64) AND NOT (push_bit n 1)) i \<longleftrightarrow> bit w i \<and> i \<noteq> n"
  using bit_exp_iff [of n i, where 'a = u64]
  by (auto simp: bit_and_iff bit_not_iff dest: bit_imp_possible_bit)

lemma bit_set: "n < 64 \<Longrightarrow> bit ((w :: u64) OR push_bit n 1) i \<longleftrightarrow> bit w i \<or> i = n"
  using bit_exp_iff [of n i, where 'a = u64] by (auto simp: bit_or_iff)

text \<open>The mask of the lowest \<open>n\<close> bits, written as the source does to avoid the shift by 64.\<close>

lemma bit_low_mask: "n \<le> 64 \<Longrightarrow> bit (if n = 64 then - 1 else push_bit n 1 - 1 :: u64) i \<longleftrightarrow> i < n"
  using bit_mask_iff [of n i, where 'a = u64] by (auto simp: mask_eq_exp_minus_1 dest: bit_imp_le_length)

text \<open>Taking the lowest set bit out.\<close>

lemma set_bits_of_lowest:
  assumes "w \<noteq> 0" and "n = trailing_zeros w"
  shows "set_bits_of w = n # set_bits_of (w AND NOT (push_bit n 1))"
proof -
  have n: "bit w n" "n < 64" "\<forall>j<n. \<not> bit w j" using trailing_zeros_lowest [OF assms(1)] assms(2) by auto
  have "[0..<64] = [0..<n] @ [n] @ [Suc n..<64]"
    using n(2) upt_add_eq_append [of 0 n "64 - n"] upt_conv_Cons [of n 64] by simp
  then have split: "filter P [0..<64] = filter P [0..<n] @ filter P [n] @ filter P [Suc n..<64]" for P
    by (metis filter_append)
  have low: "filter (bit w) [0..<n] = []" "filter (bit (w AND NOT (push_bit n 1))) [0..<n] = []"
    using n(2,3) bit_clear [OF n(2)] by (auto simp: filter_empty_conv simp del: push_bit_of_1)
  have high: "filter (bit (w AND NOT (push_bit n 1))) [Suc n..<64] = filter (bit w) [Suc n..<64]"
    using bit_clear [OF n(2)] by (intro filter_cong) (auto simp del: push_bit_of_1)
  show ?thesis
    unfolding set_bits_of_def split using n(1) low high bit_clear [OF n(2), of w n]
    by (simp del: push_bit_of_1)
qed

section \<open>Bitmaps of datagram indices\<close>

text \<open>256 bits in four words, as several components keep them.\<close>

definition index_bit :: "u64 list \<Rightarrow> u8 \<Rightarrow> bool" where
  "index_bit ws i = (ws ! unat (i div 64) AND push_bit (unat (i mod 64)) 1 \<noteq> 0)"

definition index_set :: "u64 list \<Rightarrow> u8 \<Rightarrow> u64 list" where
  "index_set ws i = ws[unat (i div 64) := ws ! unat (i div 64) OR push_bit (unat (i mod 64)) 1]"

definition index_clear :: "u64 list \<Rightarrow> u8 \<Rightarrow> u64 list" where
  "index_clear ws i = ws[unat (i div 64) := ws ! unat (i div 64) AND NOT (push_bit (unat (i mod 64)) 1)]"

lemma length_index_set [simp]: "length (index_set ws i) = length ws" "length (index_clear ws i) = length ws"
  by (simp_all add: index_set_def index_clear_def)

lemma index_parts:
  "unat ((i :: u8) div 64) < 4" "unat (i mod 64) < 64"
  "i = j \<longleftrightarrow> unat (i div 64) = unat (j div 64) \<and> unat (i mod 64) = unat (j mod 64)"
proof -
  show "unat (i div 64) < 4" using unat_less [of i] by (simp add: unat_div)
  show "unat (i mod 64) < 64" by (simp add: unat_mod)
  show "i = j \<longleftrightarrow> unat (i div 64) = unat (j div 64) \<and> unat (i mod 64) = unat (j mod 64)"
    by (auto simp: unat_div unat_mod word_unat_eq_iff) (metis div_mult_mod_eq)
qed

lemma index_bit_iff: "index_bit ws i = bit (ws ! unat (i div 64)) (unat (i mod 64))"
  by (simp add: index_bit_def and_exp_eq_0_iff_not_bit)

lemma index_bit_set: "length ws = 4 \<Longrightarrow> index_bit (index_set ws i) j \<longleftrightarrow> index_bit ws j \<or> j = i"
  using index_parts(1,2) [of i] index_parts(3) [of j i] bit_set [OF index_parts(2), of _ i]
  by (auto simp: index_bit_iff index_set_def nth_list_update simp del: push_bit_of_1)

lemma index_bit_clear: "length ws = 4 \<Longrightarrow> index_bit (index_clear ws i) j \<longleftrightarrow> index_bit ws j \<and> j \<noteq> i"
  using index_parts(1,2) [of i] index_parts(3) [of j i] bit_clear [OF index_parts(2), of _ i]
  by (auto simp: index_bit_iff index_clear_def nth_list_update simp del: push_bit_of_1)

lemma index_bit_zero [simp]: "\<not> index_bit (replicate 4 0) i"
  using index_parts(1) [of i] by (simp add: index_bit_iff)

lemma index_bit_fold:
  "length ws = 4 \<Longrightarrow> index_bit (foldl index_set ws is) j \<longleftrightarrow> index_bit ws j \<or> j \<in> set is"
  by (induction "is" arbitrary: ws) (auto simp: index_bit_set)

end
