(* ===== verification/Frame_Pool.thy ===== *)
theory Frame_Pool
  imports Pool_Interface Bit_Scan System_Interfaces
begin

text \<open>
  The pool of frame buffers (\<open>frame_pool.rs\<close>): at most 64 slots, a bit of \<open>used\<close> for each.
  \<open>SLOTS\<close> and \<open>MTU\<close> are the const generics; a handle is its index.
\<close>

section \<open>Slots\<close>

record frame_slot =
  fs_bytes :: bytes
  fs_len :: nat
  fs_sequence :: u64
  fs_generation :: u16
  fs_deadline_ns :: u64
  fs_armed_indices :: "u64 list"
  fs_armed_slot_id :: u16

definition frame_slot_new :: "nat \<Rightarrow> frame_slot" where
  "frame_slot_new MTU = \<lparr>fs_bytes = replicate MTU 0, fs_len = 0, fs_sequence = 0, fs_generation = 0,
     fs_deadline_ns = 0, fs_armed_indices = replicate 4 0, fs_armed_slot_id = 0\<rparr>"

definition frame_slot_reset :: "frame_slot \<Rightarrow> frame_slot" where
  "frame_slot_reset s = s\<lparr>fs_len := 0, fs_sequence := 0, fs_generation := 0, fs_deadline_ns := 0,
     fs_armed_indices := replicate 4 0, fs_armed_slot_id := 0\<rparr>"

definition mark_armed :: "frame_slot \<Rightarrow> u8 \<Rightarrow> u16 \<Rightarrow> frame_slot" where
  "mark_armed s index slot_id = s\<lparr>fs_armed_slot_id := slot_id,
     fs_armed_indices := (fs_armed_indices s)[unat (index div 64) :=
       fs_armed_indices s ! unat (index div 64) OR push_bit (unat (index mod 64)) 1]\<rparr>"

datatype frame_pool_error = TooManySlots | InvalidHandle | SlotBusy

record frame_pool =
  pool_slots :: "frame_slot list"
  pool_used :: u64

definition frame_pool_new :: "nat \<Rightarrow> nat \<Rightarrow> frame_pool" where
  "frame_pool_new SLOTS MTU = \<lparr>pool_slots = replicate SLOTS (frame_slot_new MTU), pool_used = 0\<rparr>"

definition slots_mask :: "nat \<Rightarrow> u64" where
  "slots_mask SLOTS = (if SLOTS = 64 then - 1 else push_bit SLOTS 1 - 1)"

definition frame_pool_acquire ::
  "nat \<Rightarrow> frame_pool \<Rightarrow> u64 \<Rightarrow> u16 \<Rightarrow> u64 \<Rightarrow> frame_pool \<times> (frame_pool_error, nat) result" where
  "frame_pool_acquire SLOTS p sequence generation deadline =
     (if SLOTS = 0 \<or> 64 < SLOTS then (p, Err TooManySlots)
      else
        let available = NOT (pool_used p) AND slots_mask SLOTS
        in if available = 0 then (p, Err SlotBusy)
           else
             let index = trailing_zeros available
             in if 255 < index then (p, Err TooManySlots)
                else (p\<lparr>pool_used := pool_used p OR push_bit index 1,
                        pool_slots := (pool_slots p)[index :=
                          (frame_slot_reset (pool_slots p ! index))\<lparr>fs_sequence := sequence,
                             fs_generation := generation, fs_deadline_ns := deadline\<rparr>]\<rparr>,
                      Ok index))"

definition frame_pool_release ::
  "nat \<Rightarrow> frame_pool \<Rightarrow> nat \<Rightarrow> frame_pool \<times> (frame_pool_error, unit) result" where
  "frame_pool_release SLOTS p index =
     (if SLOTS \<le> index \<or> 64 \<le> index then (p, Err InvalidHandle)
      else if pool_used p AND push_bit index 1 = 0 then (p, Err InvalidHandle)
      else (p\<lparr>pool_used := pool_used p AND NOT (push_bit index 1),
              pool_slots := (pool_slots p)[index := frame_slot_reset (pool_slots p ! index)]\<rparr>, Ok ()))"

definition frame_pool_slot :: "nat \<Rightarrow> frame_pool \<Rightarrow> nat \<Rightarrow> frame_slot option" where
  "frame_pool_slot SLOTS p index = (if index < SLOTS then Some (pool_slots p ! index) else None)"

text \<open>\<open>slot_mut\<close>: the slot that may be written.\<close>

definition frame_pool_slot_mut :: "nat \<Rightarrow> frame_pool \<Rightarrow> nat \<Rightarrow> frame_slot option" where
  "frame_pool_slot_mut SLOTS p index =
     (if index < SLOTS \<and> pool_used p AND push_bit index 1 \<noteq> 0 then Some (pool_slots p ! index) else None)"

definition frame_pool_in_use :: "frame_pool \<Rightarrow> nat" where
  "frame_pool_in_use p = count_ones (pool_used p)"

section \<open>The contract\<close>

definition pool_live :: "frame_pool \<Rightarrow> nat set" where
  "pool_live p = {i. bit (pool_used p) i}"

definition pool_inv :: "nat \<Rightarrow> frame_pool \<Rightarrow> bool" where
  "pool_inv SLOTS p \<longleftrightarrow> 0 < SLOTS \<and> SLOTS \<le> 64 \<and> length (pool_slots p) = SLOTS \<and>
     (\<forall>i. bit (pool_used p) i \<longrightarrow> i < SLOTS)"

lemma bit_slots_mask: "SLOTS \<le> 64 \<Longrightarrow> bit (slots_mask SLOTS) i \<longleftrightarrow> i < SLOTS"
  unfolding slots_mask_def by (rule bit_low_mask)

lemma bit_available:
  "SLOTS \<le> 64 \<Longrightarrow> bit (NOT u AND slots_mask SLOTS) i \<longleftrightarrow> i < SLOTS \<and> \<not> bit (u :: u64) i"
  by (auto simp: bit_and_iff bit_not_iff bit_slots_mask)

lemma frame_pool_acquire_Ok:
  assumes "pool_inv SLOTS p" "frame_pool_acquire SLOTS p sq gen dl = (p', Inr h)"
  shows "h < SLOTS \<and> h \<notin> pool_live p \<and> pool_live p' = insert h (pool_live p) \<and> pool_inv SLOTS p' \<and>
    (\<forall>j<h. j \<in> pool_live p) \<and>
    (\<forall>j. j \<noteq> h \<longrightarrow> pool_slots p' ! j = pool_slots p ! j) \<and>
    pool_slots p' ! h = (frame_slot_reset (pool_slots p ! h))\<lparr>fs_sequence := sq, fs_generation := gen,
      fs_deadline_ns := dl\<rparr>"
proof -
  let ?a = "NOT (pool_used p) AND slots_mask SLOTS"
  have S: "SLOTS \<le> 64" "length (pool_slots p) = SLOTS" using assms(1) by (auto simp: pool_inv_def)
  have a: "?a \<noteq> 0" and h: "h = trailing_zeros ?a"
    and p': "p' = p\<lparr>pool_used := pool_used p OR push_bit h 1, pool_slots := (pool_slots p)[h :=
      (frame_slot_reset (pool_slots p ! h))\<lparr>fs_sequence := sq, fs_generation := gen, fs_deadline_ns := dl\<rparr>]\<rparr>"
    using assms(2) by (auto simp: frame_pool_acquire_def Let_def split: if_splits)
  have "bit ?a h" and low: "\<forall>j<h. \<not> bit ?a j" using trailing_zeros_lowest [OF a] by (simp_all add: h)
  then have hb: "h < SLOTS" "\<not> bit (pool_used p) h" "\<forall>j<h. bit (pool_used p) j"
    unfolding bit_available [OF S(1)] using S by auto
  have "pool_live p' = insert h (pool_live p)"
    using hb(1) S(1) bit_set [of h] by (auto simp: pool_live_def p' simp del: push_bit_of_1)
  moreover have "pool_inv SLOTS p'"
    using assms(1) hb(1) S bit_set [of h] by (auto simp: pool_inv_def p' simp del: push_bit_of_1)
  ultimately show ?thesis using hb S by (auto simp: p' pool_live_def)
qed

lemma frame_pool_acquire_Err:
  assumes "pool_inv SLOTS p" "frame_pool_acquire SLOTS p sq gen dl = (p', Inl e)"
  shows "p' = p \<and> pool_live p = {..<SLOTS} \<and> e = SlotBusy"
proof -
  let ?a = "NOT (pool_used p) AND slots_mask SLOTS"
  have S: "SLOTS \<le> 64" "0 < SLOTS" and live: "\<forall>i. bit (pool_used p) i \<longrightarrow> i < SLOTS"
    using assms(1) by (auto simp: pool_inv_def)
  have a: "?a = 0"
    using assms(2) S trailing_zeros_lowest [of ?a]
    by (auto simp: frame_pool_acquire_def Let_def split: if_splits)
  then have "\<not> bit ?a i" for i by simp
  then have "i < SLOTS \<Longrightarrow> bit (pool_used p) i" for i unfolding bit_available [OF S(1)] by blast
  then show ?thesis
    using assms(2) a S live by (auto simp: frame_pool_acquire_def pool_live_def)
qed

lemma frame_pool_release_Ok:
  assumes "pool_inv SLOTS p" "frame_pool_release SLOTS p h = (p', Inr u)"
  shows "h \<in> pool_live p \<and> pool_live p' = pool_live p - {h} \<and> pool_inv SLOTS p' \<and>
    (\<forall>j. j \<noteq> h \<longrightarrow> pool_slots p' ! j = pool_slots p ! j)"
proof -
  have h: "h < 64" "bit (pool_used p) h"
    and p': "p' = p\<lparr>pool_used := pool_used p AND NOT (push_bit h 1),
      pool_slots := (pool_slots p)[h := frame_slot_reset (pool_slots p ! h)]\<rparr>"
    using assms(2) by (auto simp: frame_pool_release_def and_exp_eq_0_iff_not_bit split: if_splits)
  then show ?thesis
    using assms(1) bit_clear [OF h(1)] by (auto simp: pool_live_def pool_inv_def simp del: push_bit_of_1)
qed

lemma frame_pool_release_Err:
  assumes "pool_inv SLOTS p" "frame_pool_release SLOTS p h = (p', Inl e)"
  shows "p' = p \<and> h \<notin> pool_live p \<and> e = InvalidHandle"
  using assms by (auto simp: frame_pool_release_def and_exp_eq_0_iff_not_bit pool_live_def pool_inv_def
      split: if_splits)

text \<open>The pool in the shape of the contract: the argument of an acquisition is what the slot is
  stamped with.\<close>

definition pool_acquire :: "nat \<Rightarrow> frame_pool \<Rightarrow> u64 \<times> u16 \<times> u64 \<Rightarrow> frame_pool \<times> nat option" where
  "pool_acquire SLOTS p a = (case a of (sq, gen, dl) \<Rightarrow>
     case frame_pool_acquire SLOTS p sq gen dl of (p', Inl _) \<Rightarrow> (p', None) | (p', Inr h) \<Rightarrow> (p', Some h))"

definition pool_release :: "nat \<Rightarrow> frame_pool \<Rightarrow> nat \<Rightarrow> frame_pool \<times> bool" where
  "pool_release SLOTS p h = (case frame_pool_release SLOTS p h of (p', r) \<Rightarrow> (p', is_ok r))"

interpretation frames: slot_pool "pool_acquire SLOTS" "pool_release SLOTS" pool_live "pool_inv SLOTS" SLOTS
proof (unfold_locales, goal_cases)
  case (1 p a p' h)
  then show ?case using frame_pool_acquire_Ok [of SLOTS p]
    by (auto simp: pool_acquire_def split: prod.splits sum.splits)
next
  case (2 p a p')
  then show ?case using frame_pool_acquire_Err [of SLOTS p]
    by (auto simp: pool_acquire_def split: prod.splits sum.splits)
next
  case (3 p h p')
  then show ?case using frame_pool_release_Ok [of SLOTS p h]
    by (auto simp: pool_release_def is_ok_def split: prod.splits sum.splits)
next
  case (4 p h p')
  then show ?case using frame_pool_release_Err [of SLOTS p h]
    by (auto simp: pool_release_def is_ok_def split: prod.splits sum.splits)
qed

lemma frame_pool_new_inv: "0 < SLOTS \<Longrightarrow> SLOTS \<le> 64 \<Longrightarrow> pool_inv SLOTS (frame_pool_new SLOTS MTU)"
  "pool_live (frame_pool_new SLOTS MTU) = {}"
  by (simp_all add: pool_inv_def frame_pool_new_def pool_live_def)

lemma pool_in_use_card: "frame_pool_in_use p = card (pool_live p)"
proof -
  have "{i. i < 64 \<and> bit (pool_used p) i} = pool_live p"
    by (auto simp: pool_live_def dest: bit_imp_le_length)
  then show ?thesis by (simp add: frame_pool_in_use_def count_ones_card)
qed

lemma pool_acquire_eqs:
  "frame_pool_acquire SLOTS p sq gen dl = (p', Inr h) \<Longrightarrow> pool_acquire SLOTS p (sq, gen, dl) = (p', Some h)"
  "frame_pool_acquire SLOTS p sq gen dl = (p', Inl e) \<Longrightarrow> pool_acquire SLOTS p (sq, gen, dl) = (p', None)"
  by (simp_all add: pool_acquire_def)

lemma pool_release_eqs:
  "frame_pool_release SLOTS p h = (p', Inr u) \<Longrightarrow> pool_release SLOTS p h = (p', True)"
  "frame_pool_release SLOTS p h = (p', Inl e) \<Longrightarrow> pool_release SLOTS p h = (p', False)"
  by (simp_all add: pool_release_def)

fun pool_trace ::
  "nat \<Rightarrow> frame_pool \<Rightarrow> (u64 \<times> u16 \<times> u64) pool_op list \<Rightarrow> frame_pool \<times> pool_event list" where
  "pool_trace SLOTS p [] = (p, [])"
| "pool_trace SLOTS p (Acquire (sq, gen, dl) # ops) =
     (case frame_pool_acquire SLOTS p sq gen dl of
        (p1, Inr h) \<Rightarrow> (case pool_trace SLOTS p1 ops of (p2, es) \<Rightarrow> (p2, Acquired h # es))
      | (p1, Inl e) \<Rightarrow> (case pool_trace SLOTS p1 ops of (p2, es) \<Rightarrow> (p2, Exhausted # es)))"
| "pool_trace SLOTS p (Release h # ops) =
     (case frame_pool_release SLOTS p h of
        (p1, Inr u) \<Rightarrow> (case pool_trace SLOTS p1 ops of (p2, es) \<Rightarrow> (p2, Released h # es))
      | (p1, Inl e) \<Rightarrow> (case pool_trace SLOTS p1 ops of (p2, es) \<Rightarrow> (p2, Refused h # es)))"

lemma pool_trace_frames: "pool_trace SLOTS p ops = frames.trace SLOTS p ops"
  by (induction SLOTS p ops rule: pool_trace.induct)
    (auto simp: pool_acquire_eqs pool_release_eqs split: prod.splits sum.splits)

text \<open>No frame buffer is handed out twice: for every sequence of acquisitions and releases on
  a new pool of 1 to 64 slots, each acquired handle is inside the pool and not held by anybody,
  exhaustion is reported only when every slot is held, a release succeeds exactly for a held
  handle, and at the end the writable slots are exactly the held handles, of which \<open>in_use\<close>
  is the number.\<close>

theorem frame_pool_no_double_allocation:
  assumes "0 < SLOTS" and "SLOTS \<le> 64" and "pool_trace SLOTS (frame_pool_new SLOTS MTU) ops = (p, es)"
    and "H = foldl held_after {} es"
  shows "trace_sound SLOTS {} es \<and> (\<forall>h. frame_pool_slot_mut SLOTS p h \<noteq> None \<longleftrightarrow> h \<in> H) \<and>
    frame_pool_in_use p = card H"
proof -
  have t: "frames.trace SLOTS (frame_pool_new SLOTS MTU) ops = (p, es)"
    using assms(3) by (simp add: pool_trace_frames)
  from frames.trace_is_sound [OF frame_pool_new_inv(1) [OF assms(1,2)] t]
  have "pool_inv SLOTS p" "trace_sound SLOTS {} es" "pool_live p = H"
    by (simp_all add: frame_pool_new_inv(2) assms(4))
  then show ?thesis
    by (auto simp: frame_pool_slot_mut_def and_exp_eq_0_iff_not_bit pool_in_use_card pool_inv_def
        pool_live_def)
qed

theorem frame_pool_no_double_allocation_witness:
  "trace_sound 2 {} (snd (pool_trace 2 (frame_pool_new 2 64)
     [Acquire (1, 0, 9), Acquire (2, 0, 9), Acquire (3, 0, 9), Release 0, Release 0, Acquire (4, 0, 9)]))"
proof -
  obtain p es where t: "pool_trace 2 (frame_pool_new 2 64)
     [Acquire (1, 0, 9), Acquire (2, 0, 9), Acquire (3, 0, 9), Release 0, Release 0, Acquire (4, 0, 9)] = (p, es)"
    by fastforce
  from frame_pool_no_double_allocation [OF _ _ this refl] t show ?thesis by simp
qed

section \<open>The pool as a map of frames\<close>

text \<open>What a holder does with its slot between the two calls: it builds a frame in the buffer and arms
  receive indices for it, through \<open>slot_mut\<close>.\<close>

datatype frame_op = FoAcquire u64 u16 u64 | FoRelease nat | FoFill nat bytes | FoArm nat u8 u16

datatype frame_answer = FaHandle "(frame_pool_error, nat) result" | FaDone "(frame_pool_error, unit) result" | FaWritten bool

definition write_held :: "nat \<Rightarrow> frame_pool \<Rightarrow> nat \<Rightarrow> (frame_slot \<Rightarrow> frame_slot option) \<Rightarrow> frame_pool \<times> frame_answer" where
  "write_held SLOTS p h f =
     (case frame_pool_slot_mut SLOTS p h of
        None \<Rightarrow> (p, FaWritten False)
      | Some s \<Rightarrow> (case f s of
            None \<Rightarrow> (p, FaWritten False)
          | Some s1 \<Rightarrow> (p\<lparr>pool_slots := (pool_slots p)[h := s1]\<rparr>, FaWritten True)))"

definition fill_slot :: "bytes \<Rightarrow> frame_slot \<Rightarrow> frame_slot option" where
  "fill_slot content s =
     (if length (fs_bytes s) < length content then None
      else Some (s\<lparr>fs_bytes := copy_at (fs_bytes s) 0 content, fs_len := length content\<rparr>))"

fun frame_step :: "nat \<Rightarrow> frame_pool \<Rightarrow> frame_op \<Rightarrow> frame_pool \<times> frame_answer" where
  "frame_step SLOTS p (FoAcquire sq gen dl) = (case frame_pool_acquire SLOTS p sq gen dl of (p1, r) \<Rightarrow> (p1, FaHandle r))"
| "frame_step SLOTS p (FoRelease h) = (case frame_pool_release SLOTS p h of (p1, r) \<Rightarrow> (p1, FaDone r))"
| "frame_step SLOTS p (FoFill h content) = write_held SLOTS p h (fill_slot content)"
| "frame_step SLOTS p (FoArm h index slot_id) = write_held SLOTS p h (\<lambda>s. Some (mark_armed s index slot_id))"

text \<open>The specification: a map from the handles that are held to what the holder sees. A new holder gets the
  lowest free handle and an empty frame.\<close>

record frame_use =
  fu_sequence :: u64
  fu_generation :: u16
  fu_deadline_ns :: u64
  fu_content :: bytes
  fu_armed :: "u8 set"
  fu_slot_id :: u16

fun use_step :: "nat \<Rightarrow> nat \<Rightarrow> (nat \<Rightarrow> frame_use option) \<Rightarrow> frame_op \<Rightarrow> (nat \<Rightarrow> frame_use option) \<times> frame_answer" where
  "use_step SLOTS MTU m (FoAcquire sq gen dl) =
     (case find (\<lambda>h. m h = None) [0..<SLOTS] of
        None \<Rightarrow> (m, FaHandle (Err SlotBusy))
      | Some h \<Rightarrow> (m(h \<mapsto> \<lparr>fu_sequence = sq, fu_generation = gen, fu_deadline_ns = dl, fu_content = [], fu_armed = {},
                           fu_slot_id = 0\<rparr>), FaHandle (Ok h)))"
| "use_step SLOTS MTU m (FoRelease h) =
     (if m h = None then (m, FaDone (Err InvalidHandle)) else (m(h := None), FaDone (Ok ())))"
| "use_step SLOTS MTU m (FoFill h content) =
     (case m h of
        None \<Rightarrow> (m, FaWritten False)
      | Some u \<Rightarrow> if MTU < length content then (m, FaWritten False) else (m(h \<mapsto> u\<lparr>fu_content := content\<rparr>), FaWritten True))"
| "use_step SLOTS MTU m (FoArm h index slot_id) =
     (case m h of
        None \<Rightarrow> (m, FaWritten False)
      | Some u \<Rightarrow> (m(h \<mapsto> u\<lparr>fu_armed := insert index (fu_armed u), fu_slot_id := slot_id\<rparr>), FaWritten True))"

definition use_of :: "frame_slot \<Rightarrow> frame_use" where
  "use_of s = \<lparr>fu_sequence = fs_sequence s, fu_generation = fs_generation s, fu_deadline_ns = fs_deadline_ns s,
     fu_content = take (fs_len s) (fs_bytes s),
     fu_armed = {i. index_bit (fs_armed_indices s) i}, fu_slot_id = fs_armed_slot_id s\<rparr>"

definition pool_view :: "frame_pool \<Rightarrow> nat \<Rightarrow> frame_use option" where
  "pool_view p h = (if h \<in> pool_live p then Some (use_of (pool_slots p ! h)) else None)"

definition slots_ok :: "nat \<Rightarrow> frame_pool \<Rightarrow> bool" where
  "slots_ok MTU p \<longleftrightarrow> (\<forall>s\<in>set (pool_slots p). length (fs_bytes s) = MTU \<and> length (fs_armed_indices s) = 4)"

lemma slot_mut_live: "pool_inv SLOTS p \<Longrightarrow> frame_pool_slot_mut SLOTS p h = (if h \<in> pool_live p then Some (pool_slots p ! h) else None)"
  by (auto simp: frame_pool_slot_mut_def and_exp_eq_0_iff_not_bit pool_inv_def pool_live_def)

lemma use_of_acquired:
  "use_of ((frame_slot_reset s)\<lparr>fs_sequence := sq, fs_generation := gen, fs_deadline_ns := dl\<rparr>) =
     \<lparr>fu_sequence = sq, fu_generation = gen, fu_deadline_ns = dl, fu_content = [], fu_armed = {}, fu_slot_id = 0\<rparr>"
  by (simp add: use_of_def frame_slot_reset_def)

lemma mark_armed_set: "mark_armed s index slot_id = s\<lparr>fs_armed_slot_id := slot_id, fs_armed_indices := index_set (fs_armed_indices s) index\<rparr>"
  by (simp add: mark_armed_def index_set_def)

lemma use_of_armed:
  "length (fs_armed_indices s) = 4 \<Longrightarrow>
     use_of (mark_armed s index slot_id) = (use_of s)\<lparr>fu_armed := insert index (fu_armed (use_of s)), fu_slot_id := slot_id\<rparr>"
  by (auto simp: use_of_def mark_armed_set index_bit_set)

lemma use_of_filled: "fill_slot content s = Some s1 \<Longrightarrow> use_of s1 = (use_of s)\<lparr>fu_content := content\<rparr>"
  by (auto simp: fill_slot_def use_of_def copy_at_def split: if_splits)

lemma slots_ok_update: "slots_ok MTU p \<Longrightarrow> length (fs_bytes s) = MTU \<Longrightarrow> length (fs_armed_indices s) = 4 \<Longrightarrow>
    slots_ok MTU (p\<lparr>pool_used := u, pool_slots := (pool_slots p)[h := s]\<rparr>)"
  by (auto simp: slots_ok_def dest: set_update_subset_insert [THEN subsetD])

lemma frame_step_refines:
  assumes inv: "pool_inv SLOTS p" "slots_ok MTU p" and step: "frame_step SLOTS p op = (p', answer)"
  shows "pool_inv SLOTS p' \<and> slots_ok MTU p' \<and> use_step SLOTS MTU (pool_view p) op = (pool_view p', answer)"
proof -
  have slots: "length (pool_slots p) = SLOTS" and live: "h \<in> pool_live p \<Longrightarrow> h < SLOTS" for h
    using inv(1) by (auto simp: pool_inv_def pool_live_def)
  have ok: "length (fs_bytes (pool_slots p ! h)) = MTU" "length (fs_armed_indices (pool_slots p ! h)) = 4" if "h < SLOTS" for h
    using inv(2) that slots by (simp_all add: slots_ok_def)
  have written: "pool_inv SLOTS p1 \<and> slots_ok MTU p1 \<and> pool_view p1 = (pool_view p)(h \<mapsto> use_of s1)"
    if "h \<in> pool_live p" "p1 = p\<lparr>pool_slots := (pool_slots p)[h := s1]\<rparr>" "length (fs_bytes s1) = MTU" "length (fs_armed_indices s1) = 4" for h s1 p1
  proof -
    have "pool_live p1 = pool_live p" using that(2) by (simp add: pool_live_def)
    moreover have "slots_ok MTU p1" using slots_ok_update [OF inv(2) that(3,4), where u = "pool_used p" and h = h] that(2) by simp
    ultimately show ?thesis
      using inv(1) that(1,2) live [OF that(1)] slots by (auto simp: pool_inv_def pool_view_def fun_eq_iff)
  qed
  show ?thesis
  proof (cases op)
    case (FoAcquire sq gen dl)
    obtain r where acq: "frame_pool_acquire SLOTS p sq gen dl = (p', r)" and answer: "answer = FaHandle r"
      using step FoAcquire by (auto split: prod.splits)
    show ?thesis
    proof (cases r)
      case (Inl e)
      note err = frame_pool_acquire_Err [OF inv(1) acq [unfolded Inl]]
      then have "find (\<lambda>h. pool_view p h = None) [0..<SLOTS] = None" by (auto simp: find_None_iff pool_view_def)
      with err show ?thesis using FoAcquire inv answer Inl by simp
    next
      case (Inr h)
      note a = frame_pool_acquire_Ok [OF inv(1) acq [unfolded Inr]]
      have found: "find (\<lambda>h. pool_view p h = None) [0..<SLOTS] = Some h"
        unfolding find_Some_iff using a by (intro exI [of _ h]) (auto simp: pool_view_def)
      have p': "p' = p\<lparr>pool_used := pool_used p', pool_slots := (pool_slots p)[h :=
          (frame_slot_reset (pool_slots p ! h))\<lparr>fs_sequence := sq, fs_generation := gen, fs_deadline_ns := dl\<rparr>]\<rparr>"
        using acq Inr by (auto simp: frame_pool_acquire_def Let_def split: if_splits)
      then have "slots_ok MTU p'"
        using slots_ok_update [OF inv(2), where u = "pool_used p'" and h = h and
          s = "(frame_slot_reset (pool_slots p ! h))\<lparr>fs_sequence := sq, fs_generation := gen, fs_deadline_ns := dl\<rparr>"] ok [of h] a by (simp add: frame_slot_reset_def)
      moreover have "pool_view p' = (pool_view p)(h \<mapsto> \<lparr>fu_sequence = sq, fu_generation = gen, fu_deadline_ns = dl, fu_content = [],
          fu_armed = {}, fu_slot_id = 0\<rparr>)"
        using a by (auto simp: pool_view_def fun_eq_iff use_of_acquired)
      ultimately show ?thesis using a FoAcquire found answer Inr by simp
    qed
  next
    case (FoRelease h)
    obtain r where rel: "frame_pool_release SLOTS p h = (p', r)" and answer: "answer = FaDone r"
      using step FoRelease by (auto split: prod.splits)
    show ?thesis
    proof (cases r)
      case (Inl e)
      with frame_pool_release_Err [OF inv(1) rel [unfolded Inl]] show ?thesis
        using FoRelease inv answer by (simp add: pool_view_def)
    next
      case (Inr u)
      note a = frame_pool_release_Ok [OF inv(1) rel [unfolded Inr]]
      have p': "p' = p\<lparr>pool_used := pool_used p', pool_slots := (pool_slots p)[h := frame_slot_reset (pool_slots p ! h)]\<rparr>"
        using rel Inr by (auto simp: frame_pool_release_def split: if_splits)
      then have "slots_ok MTU p'"
        using slots_ok_update [OF inv(2), where u = "pool_used p'" and h = h and s = "frame_slot_reset (pool_slots p ! h)"] ok [OF live [of h]] a
        by (simp add: frame_slot_reset_def)
      moreover have "pool_view p' = (pool_view p)(h := None)" using a by (auto simp: pool_view_def fun_eq_iff)
      ultimately show ?thesis using a FoRelease answer Inr by (simp add: pool_view_def)
    qed
  next
    case (FoFill h content)
    show ?thesis
    proof (cases "h \<in> pool_live p \<and> length content \<le> MTU")
      case True
      then obtain s1 where s1: "fill_slot content (pool_slots p ! h) = Some s1" "length (fs_bytes s1) = MTU" "length (fs_armed_indices s1) = 4"
        using ok [OF live [of h]] by (auto simp: fill_slot_def copy_at_def)
      with step FoFill True have p': "p' = p\<lparr>pool_slots := (pool_slots p)[h := s1]\<rparr>" "answer = FaWritten True"
        by (simp_all add: write_held_def slot_mut_live [OF inv(1)])
      from written [OF _ p'(1) s1(2,3)] True FoFill p'(2) use_of_filled [OF s1(1)] show ?thesis
        by (simp add: pool_view_def [of p])
    next
      case False
      with step FoFill ok [OF live [of h]] have "p' = p" "answer = FaWritten False"
        by (auto simp: write_held_def slot_mut_live [OF inv(1)] fill_slot_def split: if_splits)
      with False FoFill inv show ?thesis by (auto simp: pool_view_def)
    qed
  next
    case (FoArm h index slot_id)
    show ?thesis
    proof (cases "h \<in> pool_live p")
      case True
      with step FoArm have p': "p' = p\<lparr>pool_slots := (pool_slots p)[h := mark_armed (pool_slots p ! h) index slot_id]\<rparr>" "answer = FaWritten True"
        by (simp_all add: write_held_def slot_mut_live [OF inv(1)])
      note o = ok [OF live [OF True]]
      from written [OF True p'(1)] o True FoArm p'(2) use_of_armed [OF o(2), of index slot_id] show ?thesis
        by (simp add: pool_view_def [of p] mark_armed_set)
    next
      case False
      with step FoArm inv show ?thesis by (simp add: write_held_def slot_mut_live [OF inv(1)] pool_view_def)
    qed
  qed
qed

interpretation frame_uses: traced_refinement "frame_step SLOTS" "use_step SLOTS MTU" pool_view "\<lambda>p. pool_inv SLOTS p \<and> slots_ok MTU p"
  for SLOTS MTU
  by unfold_locales (use frame_step_refines in blast)

text \<open>C14. The frame pool hands out every buffer to one holder at a time, and clean. For every sequence of
  acquisitions, releases, and writes of the holders to their buffers and armed indices, with whatever handles,
  on a new pool of 1 to 64 slots, every answer is that of a map from the held handles to frames: an acquisition
  gets the lowest handle that nobody holds, stamped as asked for, without content and without armed indices, and is refused as
  busy exactly when all are held; a release is accepted exactly for a held handle; a write is accepted
  exactly from a holder, if it fits the buffer. What a holder sees through its handle is the frame of the map,
  so no operation on another handle changes it; and \<open>in_use\<close> is the number of held handles.\<close>

theorem frame_pool_refines_map:
  assumes "0 < SLOTS" and "SLOTS \<le> 64" and "traced (frame_step SLOTS) (frame_pool_new SLOTS MTU) ops = (p, answers)"
  shows "\<exists>m. traced (use_step SLOTS MTU) (\<lambda>h. None) ops = (m, answers) \<and>
    (\<forall>h. map_option use_of (frame_pool_slot_mut SLOTS p h) = m h) \<and> frame_pool_in_use p = card (dom m)"
proof -
  have "pool_view (frame_pool_new SLOTS MTU) = (\<lambda>h. None)" by (simp add: pool_view_def frame_pool_new_inv(2) fun_eq_iff)
  moreover have "slots_ok MTU (frame_pool_new SLOTS MTU)" by (simp add: slots_ok_def frame_pool_new_def frame_slot_new_def)
  ultimately have run: "pool_inv SLOTS p" "traced (use_step SLOTS MTU) (\<lambda>h. None) ops = (pool_view p, answers)"
    using frame_uses.run_refines [OF _ assms(3), of MTU] frame_pool_new_inv(1) [OF assms(1,2)] by auto
  have "map_option use_of (frame_pool_slot_mut SLOTS p h) = pool_view p h" for h
    by (simp add: slot_mut_live [OF run(1)] pool_view_def)
  moreover have "dom (pool_view p) = pool_live p" by (auto simp: pool_view_def dom_def)
  ultimately show ?thesis using run(2) by (intro exI [of _ "pool_view p"]) (simp add: pool_in_use_card)
qed

text \<open>A slot that was filled and armed comes back empty to its next holder, and the third acquisition is refused.\<close>

theorem frame_pool_refines_map_witness:
  "last (snd (traced (frame_step 2) (frame_pool_new 2 64)
     [FoAcquire 1 0 9, FoAcquire 2 0 9, FoFill 0 [7, 8], FoArm 0 5 3, FoRelease 0, FoAcquire 4 0 9, FoAcquire 5 0 9])) =
     FaHandle (Err SlotBusy) \<and>
   map_option use_of (frame_pool_slot_mut 2 (fst (traced (frame_step 2) (frame_pool_new 2 64)
     [FoAcquire 1 0 9, FoAcquire 2 0 9, FoFill 0 [7, 8], FoArm 0 5 3, FoRelease 0, FoAcquire 4 0 9, FoAcquire 5 0 9])) 0) =
     Some \<lparr>fu_sequence = 4, fu_generation = 0, fu_deadline_ns = 9, fu_content = [], fu_armed = {}, fu_slot_id = 0\<rparr>"
proof -
  let ?ops = "[FoAcquire 1 0 9, FoAcquire 2 0 9, FoFill 0 [7, 8], FoArm 0 5 3, FoRelease 0, FoAcquire 4 0 9, FoAcquire 5 0 9]"
  obtain p answers where t: "traced (frame_step 2) (frame_pool_new 2 64) ?ops = (p, answers)" by fastforce
  have two: "[0..<2] = [0, 1 :: nat]" by (simp add: upt_rec)
  from frame_pool_refines_map [OF _ _ t] show ?thesis unfolding t by (auto simp: two)
qed

end
