(* ===== verification/Config_Arena.thy ===== *)
theory Config_Arena
  imports Esop_Prelude
begin

text \<open>
  The bump arena for configuration-time allocation (\<open>arena.rs\<close>). The storage is a number of
  8 byte words; a block is the byte offset of its start and its element count. The size and the
  alignment of the element type (\<open>size_of\<close>, \<open>align_of\<close>) are arguments.
\<close>

datatype arena_error = AlignmentTooLarge | SizeOverflow | OutOfMemory | Frozen

record arena =
  ar_storage_len :: u64
  ar_cursor :: u64
  ar_frozen :: bool

definition arena_new :: "u64 \<Rightarrow> arena" where
  "arena_new len = \<lparr>ar_storage_len = len, ar_cursor = 0, ar_frozen = False\<rparr>"

definition arena_capacity_bytes :: "arena \<Rightarrow> u64" where
  "arena_capacity_bytes a = ar_storage_len a * 8"

definition arena_remaining_bytes :: "arena \<Rightarrow> u64" where
  "arena_remaining_bytes a = sat_sub (arena_capacity_bytes a) (ar_cursor a)"

definition arena_freeze :: "arena \<Rightarrow> arena" where
  "arena_freeze a = a\<lparr>ar_frozen := True\<rparr>"

definition arena_reset :: "arena \<Rightarrow> arena" where
  "arena_reset a = a\<lparr>ar_cursor := 0, ar_frozen := False\<rparr>"

definition align_up :: "u64 \<Rightarrow> u64 \<Rightarrow> u64 option" where
  "align_up v alignment =
     (if alignment < 1 then None
      else let m = alignment - 1 in map_option (\<lambda>n. n AND NOT m) (checked_add v m))"

definition arena_alloc_slice ::
  "u64 \<Rightarrow> u64 \<Rightarrow> arena \<Rightarrow> u64 \<Rightarrow> arena \<times> (arena_error, u64 \<times> u64) result" where
  "arena_alloc_slice elem_size elem_align a count =
     (if ar_frozen a then (a, Err Frozen)
      else if 8 < elem_align then (a, Err AlignmentTooLarge)
      else case align_up (ar_cursor a) (max elem_align 1) of
        None \<Rightarrow> (a, Err SizeOverflow)
      | Some start \<Rightarrow>
          (case checked_mul elem_size count of
             None \<Rightarrow> (a, Err SizeOverflow)
           | Some bytes \<Rightarrow>
               (case checked_add start bytes of
                  None \<Rightarrow> (a, Err SizeOverflow)
                | Some end_off \<Rightarrow>
                    if arena_capacity_bytes a < end_off then (a, Err OutOfMemory)
                    else (a\<lparr>ar_cursor := end_off\<rparr>, Ok (start, count)))))"

definition arena_alloc :: "u64 \<Rightarrow> u64 \<Rightarrow> arena \<Rightarrow> arena \<times> (arena_error, u64) result" where
  "arena_alloc elem_size elem_align a =
     (case arena_alloc_slice elem_size elem_align a 1 of
        (a', Inl e) \<Rightarrow> (a', Err e) | (a', Inr (start, _)) \<Rightarrow> (a', Ok start))"

section \<open>Alignment\<close>

lemma unat_align_down:
  assumes "k < 64"
  shows "unat ((w :: u64) AND NOT (2 ^ k - 1)) = unat w div 2 ^ k * 2 ^ k"
proof -
  have "w AND NOT (2 ^ k - 1) = push_bit k (drop_bit k w)"
    using assms by (intro bit_word_eqI)
      (auto simp: bit_and_iff bit_not_iff bit_push_bit_iff bit_drop_bit_eq bit_mask_iff
        mask_eq_exp_minus_1 [symmetric])
  also have "unat \<dots> = unat w div 2 ^ k * 2 ^ k"
  proof -
    have "unat w div 2 ^ k * 2 ^ k \<le> unat w" by simp
    then have "unat w div 2 ^ k * 2 ^ k < 2 ^ 64" by (rule le_less_trans) (use unat_less [of w] in simp)
    moreover have "unat (push_bit k (drop_bit k w)) = take_bit 64 (push_bit k (drop_bit k (unat w)))"
      using unat_less [of w]
      by (simp only: unsigned_push_bit_eq unsigned_drop_bit_eq) (simp add: take_bit_nat_eq_self)
    ultimately show ?thesis
      by (simp only: push_bit_eq_mult drop_bit_eq_div take_bit_nat_eq_self)
  qed
  finally show ?thesis .
qed

lemma unat_exp_u64: "k < 64 \<Longrightarrow> unat ((2 :: u64) ^ k) = 2 ^ k"
proof -
  assume "k < 64"
  then have "(2 :: nat) ^ k < 2 ^ 64" by (intro power_strict_increasing) auto
  moreover have "unat ((2 :: u64) ^ k) = unat (of_nat (2 ^ k) :: u64)" by simp
  ultimately show ?thesis by (simp only: unat_of_nat) (simp add: take_bit_nat_eq_self)
qed

lemma align_up_Some:
  assumes "align_up v (2 ^ k) = Some r" "k < 64"
  shows "unat v \<le> unat r" "unat r mod 2 ^ k = 0" "unat r < unat v + 2 ^ k"
proof -
  have two: "unat ((2 :: u64) ^ k) = 2 ^ k" using assms(2) by (rule unat_exp_u64)
  have pos: "(1 :: u64) \<le> 2 ^ k" using two by (simp add: word_le_nat_alt)
  have m: "unat ((2 :: u64) ^ k - 1) = 2 ^ k - 1" using unat_sub [OF pos] two by simp
  obtain n where n: "checked_add v (2 ^ k - 1) = Some n" "r = n AND NOT (2 ^ k - 1)"
    using assms(1) by (auto simp: align_up_def Let_def split: if_splits)
  have un: "unat n = unat v + (2 ^ k - 1)" using checked_add_unat [OF n(1)] m by simp
  have ur: "unat r = unat n div 2 ^ k * 2 ^ k" by (simp add: n(2) unat_align_down [OF assms(2)])
  then show "unat r mod 2 ^ k = 0" by simp
  have "unat n div 2 ^ k * 2 ^ k + unat n mod 2 ^ k = unat n" by (rule div_mult_mod_eq)
  moreover have "unat n mod 2 ^ k < 2 ^ k" by simp
  moreover have "1 \<le> (2 :: nat) ^ k" by simp
  ultimately show "unat v \<le> unat r" "unat r < unat v + 2 ^ k" using un ur by linarith+
qed

section \<open>Allocations\<close>

definition arena_inv :: "arena \<Rightarrow> bool" where
  "arena_inv a \<longleftrightarrow> unat (ar_storage_len a) * 8 < 2 ^ 64 \<and> unat (ar_cursor a) \<le> unat (ar_storage_len a) * 8"

lemma alloc_slice_Ok:
  assumes "arena_inv a" "arena_alloc_slice sz (2 ^ k) a count = (a', Inr (start, c))" "k < 64"
  shows "arena_inv a' \<and> c = count \<and> ar_storage_len a' = ar_storage_len a \<and> \<not> ar_frozen a \<and>
    ar_frozen a' = ar_frozen a \<and> unat (ar_cursor a) \<le> unat start \<and> unat start mod 2 ^ k = 0 \<and>
    unat (ar_cursor a') = unat start + unat sz * unat count \<and>
    unat start + unat sz * unat count \<le> unat (ar_storage_len a) * 8"
proof -
  have two: "unat ((2 :: u64) ^ k) = 2 ^ k" using assms(3) by (rule unat_exp_u64)
  then have "max (2 ^ k) 1 = (2 :: u64) ^ k" by (intro max.absorb1) (simp add: word_le_nat_alt)
  then obtain bytes end_off where
    up: "align_up (ar_cursor a) (2 ^ k) = Some start" and mul: "checked_mul sz count = Some bytes"
    and add: "checked_add start bytes = Some end_off" and cap: "end_off \<le> arena_capacity_bytes a"
    and a': "a' = a\<lparr>ar_cursor := end_off\<rparr>" "c = count" "\<not> ar_frozen a"
    using assms(2) by (auto simp: arena_alloc_slice_def not_less split: if_splits option.splits)
  have "unat bytes = unat sz * unat count"
    using mul by (auto simp: checked_mul_def unat_word_ariths split: if_splits)
  then have en: "unat end_off = unat start + unat sz * unat count" using checked_add_unat [OF add] by simp
  have "unat (arena_capacity_bytes a) = unat (ar_storage_len a) * 8"
    using assms(1) by (simp add: arena_capacity_bytes_def arena_inv_def unat_word_ariths)
  then have "unat end_off \<le> unat (ar_storage_len a) * 8" using cap by (simp add: word_le_nat_alt)
  with en align_up_Some [OF up assms(3)] assms(1) a' show ?thesis by (simp add: arena_inv_def)
qed

text \<open>A history: requests of size, alignment exponent and count, with the freeze at activation
  between them. The result lists the blocks handed out as start, end and alignment.\<close>

datatype arena_op = ArAlloc u64 nat u64 | ArFreeze

fun arena_run :: "arena \<Rightarrow> arena_op list \<Rightarrow> arena \<times> (nat \<times> nat \<times> nat) list" where
  "arena_run a [] = (a, [])"
| "arena_run a (ArFreeze # ops) = arena_run (arena_freeze a) ops"
| "arena_run a (ArAlloc sz k count # ops) =
     (case arena_alloc_slice sz (2 ^ k) a count of
        (a', Inl _) \<Rightarrow> arena_run a' ops
      | (a', Inr (start, c)) \<Rightarrow>
          (case arena_run a' ops of (a2, bs) \<Rightarrow>
             (a2, (unat start, unat start + unat sz * unat count, 2 ^ k) # bs)))"

fun blocks_in_order :: "nat \<Rightarrow> nat \<Rightarrow> (nat \<times> nat \<times> nat) list \<Rightarrow> bool" where
  "blocks_in_order lo hi [] \<longleftrightarrow> lo \<le> hi"
| "blocks_in_order lo hi ((s, e, al) # bs) \<longleftrightarrow> lo \<le> s \<and> s \<le> e \<and> s mod al = 0 \<and> blocks_in_order e hi bs"

lemma alloc_slice_Err: "arena_alloc_slice sz al a count = (a', Inl e) \<Longrightarrow> a' = a"
  by (auto simp: arena_alloc_slice_def split: if_splits option.splits)

lemma arena_run_frozen: "ar_frozen a \<Longrightarrow> snd (arena_run a ops) = []"
  by (induction a ops rule: arena_run.induct)
    (auto simp: arena_freeze_def arena_alloc_slice_def split: prod.splits sum.splits)

lemma arena_run_blocks:
  assumes "arena_inv a" "arena_run a ops = (a', bs)" "\<forall>sz k c. ArAlloc sz k c \<in> set ops \<longrightarrow> k < 64"
  shows "arena_inv a' \<and> ar_storage_len a' = ar_storage_len a \<and>
    blocks_in_order (unat (ar_cursor a)) (unat (ar_storage_len a) * 8) bs"
  using assms
proof (induction ops arbitrary: a bs)
  case (Cons op ops)
  have k64: "\<forall>sz k c. ArAlloc sz k c \<in> set ops \<longrightarrow> k < 64" using Cons.prems(3) by auto
  show ?case
  proof (cases op)
    case ArFreeze
    with Cons.IH [OF _ _ k64, of "arena_freeze a" bs] Cons.prems show ?thesis
      by (auto simp: arena_freeze_def arena_inv_def)
  next
    case (ArAlloc sz k count)
    obtain a1 r where step: "arena_alloc_slice sz (2 ^ k) a count = (a1, r)" by fastforce
    show ?thesis
    proof (cases r)
      case (Inl e)
      then have "a1 = a" using step alloc_slice_Err by blast
      with Cons.IH [OF Cons.prems(1) _ k64] Cons.prems(2) step Inl ArAlloc show ?thesis by simp
    next
      case (Inr b)
      obtain start c where b: "b = (start, c)" by fastforce
      have k: "k < 64" using Cons.prems(3) ArAlloc by auto
      note ok = alloc_slice_Ok [OF Cons.prems(1) step [unfolded Inr b] k]
      obtain bs1 where run: "arena_run a1 ops = (a', bs1)"
        and bs: "bs = (unat start, unat start + unat sz * unat count, 2 ^ k) # bs1"
        using Cons.prems(2) step Inr b ArAlloc by (auto split: prod.splits)
      from Cons.IH [OF _ run k64] ok bs show ?thesis by simp
    qed
  qed
qed (simp add: arena_inv_def)

lemma blocks_in_order_le: "blocks_in_order lo hi bs \<Longrightarrow> b \<in> set bs \<Longrightarrow>
    lo \<le> fst b \<and> fst b \<le> fst (snd b) \<and> fst (snd b) \<le> hi \<and> fst b mod snd (snd b) = 0"
proof (induction bs arbitrary: lo)
  case (Cons c bs)
  obtain s e al where c: "c = (s, e, al)" by (cases c)
  have "e \<le> hi" if "blocks_in_order e hi bs" for e
    using that by (induction bs arbitrary: e) (auto, meson order_trans)
  with Cons c show ?case by fastforce
qed simp

lemma blocks_in_order_disjoint:
  "blocks_in_order lo hi bs \<Longrightarrow> i < j \<Longrightarrow> j < length bs \<Longrightarrow> fst (snd (bs ! i)) \<le> fst (bs ! j)"
proof (induction bs arbitrary: lo i j)
  case (Cons c bs)
  obtain s e al where c: "c = (s, e, al)" by (cases c)
  obtain j' where j: "j = Suc j'" using Cons.prems(2) by (cases j) auto
  show ?case
  proof (cases i)
    case 0
    then show ?thesis
      using Cons.prems c j blocks_in_order_le [of e hi bs "bs ! j'"] by auto
  next
    case (Suc i')
    then show ?thesis using Cons.IH [of e i' j'] Cons.prems c j by auto
  qed
qed simp

text \<open>C22. The arena never hands out the same byte twice: in any history of allocations on a new
  arena, every block starts at a multiple of its element's alignment and lies inside the
  storage, two blocks never overlap (a later one starts at or after the end of an earlier one),
  and once the arena is frozen no further block is handed out.\<close>

theorem arena_blocks_disjoint:
  assumes "unat len * 8 < 2 ^ 64" and "\<forall>sz k c. ArAlloc sz k c \<in> set ops \<longrightarrow> k < 64"
    and "arena_run (arena_new len) ops = (a, bs)"
  shows "(\<forall>(s, e, al)\<in>set bs. s \<le> e \<and> e \<le> unat len * 8 \<and> s mod al = 0) \<and>
    (\<forall>j<length bs. \<forall>i<j. fst (snd (bs ! i)) \<le> fst (bs ! j)) \<and>
    snd (arena_run (arena_freeze a) later) = []"
proof -
  have inv: "arena_inv (arena_new len)" using assms(1) by (simp add: arena_inv_def arena_new_def)
  have order: "blocks_in_order 0 (unat len * 8) bs"
    using arena_run_blocks [OF inv assms(3,2)] by (simp add: arena_new_def)
  have "snd (arena_run (arena_freeze a) later) = []"
    by (rule arena_run_frozen) (simp add: arena_freeze_def)
  with order show ?thesis
    by (auto dest: blocks_in_order_le intro: blocks_in_order_disjoint)
qed

theorem arena_blocks_disjoint_witness:
  "snd (arena_run (arena_new 4) [ArAlloc 1 0 3, ArAlloc 4 2 2, ArFreeze, ArAlloc 1 0 1]) =
     [(0, 3, 1), (4, 12, 4)] \<and>
   snd (arena_run (arena_freeze \<lparr>ar_storage_len = 4, ar_cursor = 12, ar_frozen = True\<rparr>)
     [ArAlloc 1 0 1]) = []"
proof -
  have run: "arena_run (arena_new 4) [ArAlloc 1 0 3, ArAlloc 4 2 2, ArFreeze, ArAlloc 1 0 1] =
      (\<lparr>ar_storage_len = 4, ar_cursor = 12, ar_frozen = True\<rparr>, [(0, 3, 1), (4, 12, 4)])"
    by (simp add: arena_new_def arena_alloc_slice_def align_up_def checked_add_def checked_mul_def
        arena_capacity_bytes_def arena_freeze_def Let_def word_less_nat_alt max_def word_le_nat_alt)
  with arena_blocks_disjoint [OF _ _ run, of "[ArAlloc 1 0 1]"] show ?thesis by simp
qed

end
