(* ===== verification/Pdo_Layout.thy ===== *)
theory Pdo_Layout
  imports Bit_Scan
begin

text \<open>
  Process-data entries and layouts (\<open>pdo.rs\<close>): bit-level reads and writes of the process image,
  and layouts whose entries of one direction do not overlap. An \<open>i64\<close> is a 64 bit word that
  \<open>sint\<close> reads.
\<close>

section \<open>Entries\<close>

datatype pdo_direction = PdoRx | PdoTx

record pdo_entry =
  pe_index :: u16
  pe_subindex :: u8
  pe_bit_offset :: nat
  pe_bit_length :: u8
  pe_signed :: bool
  pe_direction :: pdo_direction

definition pdo_entry_empty :: pdo_entry where
  "pdo_entry_empty = \<lparr>pe_index = 0, pe_subindex = 0, pe_bit_offset = 0, pe_bit_length = 0,
     pe_signed = False, pe_direction = PdoRx\<rparr>"

datatype pdo_error = PdoCapacityExceeded | PdoDuplicateEntry | PdoInvalidBitLength | PdoImageBounds
  | PdoBitOverlap | PdoUnknownEntry | PdoBufferTooSmall | PdoValueOutOfRange
  | PdoSignedEntryRequiresSignedValue | PdoUnsignedEntryRequiresUnsignedValue

definition image_bit :: "bytes \<Rightarrow> nat \<Rightarrow> bool" where
  "image_bit img off = (img ! (off div 8) AND push_bit (off mod 8) 1 \<noteq> 0)"

definition set_image_bit :: "bytes \<Rightarrow> nat \<Rightarrow> bool \<Rightarrow> bytes" where
  "set_image_bit img off value =
     (let byte = off div 8; m = push_bit (off mod 8) 1
      in img[byte := if value then img ! byte OR m else img ! byte AND NOT m])"

definition usize_sat_mul :: "nat \<Rightarrow> nat \<Rightarrow> nat" where
  "usize_sat_mul a b = min (a * b) usize_max"

definition pdo_validate :: "pdo_entry \<Rightarrow> nat \<Rightarrow> (pdo_error, unit) result" where
  "pdo_validate e image_len =
     (if \<not> (1 \<le> pe_bit_length e \<and> pe_bit_length e \<le> 64) then Err PdoInvalidBitLength
      else case usize_checked_add (pe_bit_offset e) (unat (pe_bit_length e)) of
        None \<Rightarrow> Err PdoImageBounds
      | Some stop \<Rightarrow> if usize_sat_mul image_len 8 < stop then Err PdoImageBounds else Ok ())"

text \<open>The loops over the bits of an entry.\<close>

definition read_bits :: "bytes \<Rightarrow> nat \<Rightarrow> nat \<Rightarrow> u64" where
  "read_bits img off n =
     foldl (\<lambda>v b. if image_bit img (off + b) then v OR push_bit b 1 else v) 0 [0..<n]"

definition write_bits :: "bytes \<Rightarrow> nat \<Rightarrow> nat \<Rightarrow> u64 \<Rightarrow> bytes" where
  "write_bits img off n value =
     foldl (\<lambda>img b. set_image_bit img (off + b) (value AND push_bit b 1 \<noteq> 0)) img [0..<n]"

definition pdo_read_unsigned :: "pdo_entry \<Rightarrow> bytes \<Rightarrow> (pdo_error, u64) result" where
  "pdo_read_unsigned e img =
     (case pdo_validate e (length img) of
        Inl er \<Rightarrow> Err er
      | Inr _ \<Rightarrow> Ok (read_bits img (pe_bit_offset e) (unat (pe_bit_length e))))"

definition pdo_read_signed :: "pdo_entry \<Rightarrow> bytes \<Rightarrow> (pdo_error, u64) result" where
  "pdo_read_signed e img =
     (case pdo_read_unsigned e img of
        Inl er \<Rightarrow> Err er
      | Inr value \<Rightarrow>
          if \<not> pe_signed e then Ok value
          else if pe_bit_length e = 64 then Ok value
          else
            let sign_bit = push_bit (unat (pe_bit_length e - 1)) 1;
                msk = push_bit (unat (pe_bit_length e)) 1 - 1
            in if value AND sign_bit \<noteq> 0 then Ok (value OR NOT msk) else Ok value)"

definition pdo_write_unsigned :: "pdo_entry \<Rightarrow> bytes \<Rightarrow> u64 \<Rightarrow> bytes \<times> (pdo_error, unit) result" where
  "pdo_write_unsigned e img value =
     (case pdo_validate e (length img) of
        Inl er \<Rightarrow> (img, Err er)
      | Inr _ \<Rightarrow>
          if pe_signed e then (img, Err PdoSignedEntryRequiresSignedValue)
          else if pe_bit_length e < 64 \<and> push_bit (unat (pe_bit_length e)) 1 \<le> value
            then (img, Err PdoValueOutOfRange)
          else (write_bits img (pe_bit_offset e) (unat (pe_bit_length e)) value, Ok ()))"

definition pdo_write_signed :: "pdo_entry \<Rightarrow> bytes \<Rightarrow> u64 \<Rightarrow> bytes \<times> (pdo_error, unit) result" where
  "pdo_write_signed e img value =
     (case pdo_validate e (length img) of
        Inl er \<Rightarrow> (img, Err er)
      | Inr _ \<Rightarrow>
          if \<not> pe_signed e then (img, Err PdoUnsignedEntryRequiresUnsignedValue)
          else
            let bound = push_bit (unat (pe_bit_length e - 1)) 1 :: u64
            in if pe_bit_length e < 64 \<and>
                  (sint value < sint (- bound) \<or> sint (bound - 1) < sint value)
               then (img, Err PdoValueOutOfRange)
               else (write_bits img (pe_bit_offset e) (unat (pe_bit_length e)) value, Ok ()))"

section \<open>Layouts\<close>

record pdo_layout =
  pl_entries :: "pdo_entry list"
  pl_entry_count :: nat
  pl_total_bits :: nat

definition pdo_layout_new :: "nat \<Rightarrow> pdo_layout" where
  "pdo_layout_new ENTRIES =
     \<lparr>pl_entries = replicate ENTRIES pdo_entry_empty, pl_entry_count = 0, pl_total_bits = 0\<rparr>"

definition pdo_layout_is_empty :: "pdo_layout \<Rightarrow> bool" where
  "pdo_layout_is_empty l \<longleftrightarrow> pl_entry_count l = 0"

definition pdo_layout_total_bytes :: "pdo_layout \<Rightarrow> nat" where
  "pdo_layout_total_bytes l = (pl_total_bits l + 7) div 8"

definition pdo_layout_entries :: "pdo_layout \<Rightarrow> pdo_entry list" where
  "pdo_layout_entries l = take (pl_entry_count l) (pl_entries l)"

definition same_object :: "pdo_entry \<Rightarrow> pdo_entry \<Rightarrow> bool" where
  "same_object a b \<longleftrightarrow> pe_index a = pe_index b \<and> pe_subindex a = pe_subindex b \<and> pe_direction a = pe_direction b"

definition pdo_layout_add :: "nat \<Rightarrow> pdo_layout \<Rightarrow> pdo_entry \<Rightarrow> pdo_layout \<times> (pdo_error, nat) result" where
  "pdo_layout_add ENTRIES l e =
     (if ENTRIES = 0 \<or> ENTRIES \<le> pl_entry_count l then (l, Err PdoCapacityExceeded)
      else if \<not> (1 \<le> pe_bit_length e \<and> pe_bit_length e \<le> 64) then (l, Err PdoInvalidBitLength)
      else if \<exists>x\<in>set (pdo_layout_entries l). same_object x e then (l, Err PdoDuplicateEntry)
      else case usize_checked_add (pe_bit_offset e) (unat (pe_bit_length e)) of
        None \<Rightarrow> (l, Err PdoImageBounds)
      | Some stop \<Rightarrow>
          if \<exists>x\<in>set (pdo_layout_entries l). pe_direction x = pe_direction e \<and>
               pe_bit_offset e < pe_bit_offset x + unat (pe_bit_length x) \<and> pe_bit_offset x < stop
          then (l, Err PdoBitOverlap)
          else (l\<lparr>pl_entries := (pl_entries l)[pl_entry_count l := e],
                  pl_entry_count := pl_entry_count l + 1,
                  pl_total_bits := max (pl_total_bits l) stop\<rparr>, Ok (pl_entry_count l)))"

definition pdo_layout_entry :: "pdo_layout \<Rightarrow> nat \<Rightarrow> (pdo_error, pdo_entry) result" where
  "pdo_layout_entry l i =
     (if i < length (pl_entries l) \<and> i < pl_entry_count l then Ok (pl_entries l ! i) else Err PdoUnknownEntry)"

definition pdo_layout_input_entries :: "pdo_layout \<Rightarrow> pdo_entry list" where
  "pdo_layout_input_entries l = filter (\<lambda>e. pe_direction e = PdoTx) (pdo_layout_entries l)"

definition pdo_layout_output_entries :: "pdo_layout \<Rightarrow> pdo_entry list" where
  "pdo_layout_output_entries l = filter (\<lambda>e. pe_direction e = PdoRx) (pdo_layout_entries l)"

section \<open>Bits of the image\<close>

lemma image_bit_iff: "image_bit img off = bit (img ! (off div 8)) (off mod 8)"
  by (simp add: image_bit_def and_exp_eq_0_iff_not_bit)

lemma length_set_image_bit [simp]: "length (set_image_bit img off v) = length img"
  by (simp add: set_image_bit_def Let_def)

lemma image_bit_set:
  assumes "off < 8 * length img"
  shows "image_bit (set_image_bit img off v) k = (if k = off then v else image_bit img k)"
proof -
  have "k = off \<longleftrightarrow> k div 8 = off div 8 \<and> k mod 8 = off mod 8" by (metis div_mult_mod_eq)
  moreover have "bit (2 ^ (off mod 8) :: u8) n \<longleftrightarrow> n = off mod 8" for n
    by (auto simp: bit_exp_iff possible_bit_word)
  moreover have "bit (NOT (2 ^ (off mod 8) :: u8)) (k mod 8) \<longleftrightarrow> k mod 8 \<noteq> off mod 8"
    by (auto simp: bit_not_iff bit_exp_iff possible_bit_word)
  moreover have "off div 8 < length img" using assms by auto
  ultimately show ?thesis
    by (auto simp: image_bit_iff set_image_bit_def Let_def nth_list_update bit_or_iff bit_and_iff)
qed

lemma write_bits_Suc:
  "write_bits img off (Suc n) v =
     set_image_bit (write_bits img off n v) (off + n) (v AND push_bit n 1 \<noteq> 0)"
  by (simp add: write_bits_def)

lemma length_write_bits [simp]: "length (write_bits img off n v) = length img"
  by (induction n) (simp_all add: write_bits_Suc, simp add: write_bits_def)

lemma image_bit_write_bits:
  "off + n \<le> 8 * length img \<Longrightarrow>
     image_bit (write_bits img off n v) k = (if off \<le> k \<and> k < off + n then bit v (k - off) else image_bit img k)"
proof (induction n)
  case 0
  then show ?case by (auto simp: write_bits_def)
next
  case (Suc n)
  then show ?case
    by (auto simp: write_bits_Suc image_bit_set and_exp_eq_0_iff_not_bit)
qed

lemma bit_read_bits:
  "n \<le> 64 \<Longrightarrow> bit (read_bits img off n) k \<longleftrightarrow> k < n \<and> image_bit img (off + k)"
proof (induction n)
  case 0
  then show ?case by (simp add: read_bits_def)
next
  case (Suc n)
  have "read_bits img off (Suc n) =
      (if image_bit img (off + n) then read_bits img off n OR 2 ^ n else read_bits img off n)"
    by (simp add: read_bits_def)
  moreover have "bit (2 ^ n :: u64) k \<longleftrightarrow> k = n" using Suc.prems by (auto simp: bit_exp_iff possible_bit_word)
  ultimately show ?case using Suc by (auto simp: bit_or_iff less_Suc_eq)
qed

lemma sint_word_of_int: "sint (word_of_int k :: u64) = signed_take_bit 63 k"
  by (simp add: sint_sbintrunc')

lemma sint_bounds_of_length:
  assumes "n < 63"
  shows "sint (- (2 ^ n) :: u64) = - (2 ^ n)" "sint (2 ^ n - 1 :: u64) = 2 ^ n - 1"
proof -
  have lt: "(2 :: int) ^ n < 2 ^ 63" "0 < (2 :: int) ^ n"
    using assms power_strict_increasing [of n 63 "2 :: int"] by simp_all
  have "(- (2 ^ n) :: u64) = word_of_int (- (2 ^ n))" "(2 ^ n - 1 :: u64) = word_of_int (2 ^ n - 1)"
    by simp_all
  moreover have "signed_take_bit 63 (- (2 ^ n) :: int) = - (2 ^ n)"
    using lt by (intro signed_take_bit_int_eq_self) linarith+
  moreover have "signed_take_bit 63 (2 ^ n - 1 :: int) = 2 ^ n - 1"
    using lt by (intro signed_take_bit_int_eq_self) linarith+
  ultimately show "sint (- (2 ^ n) :: u64) = - (2 ^ n)" "sint (2 ^ n - 1 :: u64) = 2 ^ n - 1"
    by (simp_all only: sint_word_of_int)
qed

text \<open>A value in the signed range of \<open>n + 1\<close> bits repeats its sign bit from position \<open>n\<close> on.\<close>

lemma signed_range_bits:
  assumes "n < 63" "- (2 ^ n) \<le> sint (v :: u64)" "sint v \<le> 2 ^ n - 1" "n \<le> k" "k < 64"
  shows "bit v k = bit v n"
proof -
  have "signed_take_bit n (sint v) = sint v"
    using assms(2,3) by (intro signed_take_bit_int_eq_self) auto
  moreover have "bit (signed_take_bit n (sint v)) k = bit (sint v) (min k n)"
    by (simp add: bit_signed_take_bit_iff min.commute)
  ultimately have "bit (sint v) k = bit (sint v) (min k n)" by simp
  with assms show ?thesis by (simp add: bit_sint_iff min_def split: if_splits)
qed

lemma unat_2_power: "n < 64 \<Longrightarrow> unat (2 ^ n :: u64) = 2 ^ n"
  using unat_of_nat [of "2 ^ n", where 'a = 64] power_strict_increasing [of n 64 "2 :: nat"]
  by (simp add: take_bit_nat_eq_self_iff)

lemma unsigned_in_range:
  assumes "n \<le> 64"
  shows "\<not> (n < 64 \<and> 2 ^ n \<le> (v :: u64)) \<longleftrightarrow> unat v < 2 ^ n"
proof (cases "n = 64")
  case True
  then show ?thesis using unat_less [of v] by simp
next
  case False
  with assms show ?thesis by (simp add: word_le_nat_alt unat_2_power not_le)
qed

lemma signed_in_range:
  assumes "1 \<le> n" "n \<le> 64"
  shows "\<not> (n < 64 \<and> (sint (v :: u64) < sint (- (2 ^ (n - 1)) :: u64) \<or> sint (2 ^ (n - 1) - 1 :: u64) < sint v))
    \<longleftrightarrow> - (2 ^ (n - 1)) \<le> sint v \<and> sint v < 2 ^ (n - 1)"
proof (cases "n = 64")
  case True
  then show ?thesis using sint_greater_eq [of v] sint_less [of v] by simp
next
  case False
  then have "n - 1 < 63" using assms by simp
  with False assms show ?thesis by (auto simp: sint_bounds_of_length)
qed

lemma pdo_validate_Ok:
  "pdo_validate e n = Inr u \<longleftrightarrow> 1 \<le> unat (pe_bit_length e) \<and> unat (pe_bit_length e) \<le> 64 \<and>
     pe_bit_offset e + unat (pe_bit_length e) \<le> min (8 * n) usize_max"
  by (auto simp: pdo_validate_def usize_checked_add_def usize_sat_mul_def word_le_nat_alt mult.commute
      split: option.splits if_splits)

lemma read_written_bits:
  assumes "off + n \<le> 8 * length img" "n \<le> 64"
  shows "read_bits (write_bits img off n v) off n = take_bit n v"
  using assms by (intro bit_word_eqI) (auto simp: bit_read_bits image_bit_write_bits bit_take_bit_iff)

lemma bit_length_words:
  "pe_bit_length e < 64 \<longleftrightarrow> unat (pe_bit_length e) < 64"
  "1 \<le> unat (pe_bit_length e) \<Longrightarrow> unat (pe_bit_length e - 1) = unat (pe_bit_length e) - 1"
  by (simp_all add: word_less_nat_alt unat_sub_if' word_le_nat_alt)

lemma pdo_write_unsigned_cases:
  assumes "n = unat (pe_bit_length e)"
  shows "if pdo_validate e (length img) = Inr () \<and> \<not> pe_signed e \<and> unat v < 2 ^ n
    then pdo_write_unsigned e img v = (write_bits img (pe_bit_offset e) n v, Inr ())
    else \<exists>er. pdo_write_unsigned e img v = (img, Inl er)"
proof (cases "pdo_validate e (length img)")
  case (Inr u)
  then have "n \<le> 64" using assms by (simp add: pdo_validate_Ok)
  from unsigned_in_range [OF this, of v] Inr show ?thesis
    by (auto simp: pdo_write_unsigned_def bit_length_words assms)
qed (simp add: pdo_write_unsigned_def)

lemma pdo_write_signed_cases:
  assumes "n = unat (pe_bit_length e)"
  shows "if pdo_validate e (length img) = Inr () \<and> pe_signed e \<and> - (2 ^ (n - 1)) \<le> sint v \<and> sint v < 2 ^ (n - 1)
    then pdo_write_signed e img v = (write_bits img (pe_bit_offset e) n v, Inr ())
    else \<exists>er. pdo_write_signed e img v = (img, Inl er)"
proof (cases "pdo_validate e (length img)")
  case (Inr u)
  then have n: "1 \<le> n" "n \<le> 64" using assms by (simp_all add: pdo_validate_Ok)
  from signed_in_range [OF n, of v] Inr n show ?thesis
    by (auto simp: pdo_write_signed_def Let_def bit_length_words assms)
qed (simp add: pdo_write_signed_def)

lemma pdo_read_unsigned_written:
  assumes "pdo_validate e (length img) = Inr ()" "n = unat (pe_bit_length e)" "unat v < 2 ^ n"
  shows "pdo_read_unsigned e (write_bits img (pe_bit_offset e) n v) = Inr v"
proof -
  have "take_bit n v = v"
    using assms(3) by (simp add: word_unat_eq_iff unsigned_take_bit_eq take_bit_nat_eq_self_iff)
  moreover have "pe_bit_offset e + n \<le> 8 * length img" "n \<le> 64"
    using assms(1,2) by (simp_all add: pdo_validate_Ok)
  ultimately show ?thesis using assms(1,2) by (simp add: pdo_read_unsigned_def read_written_bits)
qed

lemma pdo_read_signed_written:
  assumes "pdo_validate e (length img) = Inr ()" "pe_signed e" "n = unat (pe_bit_length e)"
    and "n < 64 \<longrightarrow> - (2 ^ (n - 1)) \<le> sint v \<and> sint v \<le> 2 ^ (n - 1) - 1"
  shows "pdo_read_signed e (write_bits img (pe_bit_offset e) n v) = Inr v"
proof -
  have n: "1 \<le> n" "n \<le> 64" "pe_bit_offset e + n \<le> 8 * length img"
    using assms(1,3) by (simp_all add: pdo_validate_Ok)
  have u: "pdo_read_unsigned e (write_bits img (pe_bit_offset e) n v) = Inr (take_bit n v)"
    using assms(1,3) n by (simp add: pdo_read_unsigned_def read_written_bits)
  show ?thesis
  proof (cases "n = 64")
    case True
    then have "pe_bit_length e = 64" using assms(3) by (simp add: word_unat_eq_iff)
    with u True assms(2) show ?thesis by (simp add: pdo_read_signed_def take_bit_word_eq_self)
  next
    case False
    then have lt: "n - 1 < 63" "n < 64" using n by auto
    have len: "pe_bit_length e \<noteq> 64" "unat (pe_bit_length e - 1) = n - 1"
      using False n assms(3) by (auto simp: unat_sub_if' word_le_nat_alt)
    have high: "bit v k = bit v (n - 1)" if "n - 1 \<le> k" "k < 64" for k
      using signed_range_bits [OF lt(1) _ _ that] assms(4) lt(2) by blast
    have m: "bit (push_bit n 1 - 1 :: u64) k \<longleftrightarrow> k < n" for k
      using lt(2) by (auto simp: bit_mask_iff possible_bit_word simp flip: mask_eq_exp_minus_1)
    have sgn: "take_bit n v AND push_bit (n - 1) 1 \<noteq> 0 \<longleftrightarrow> bit v (n - 1)"
      using n by (simp add: and_exp_eq_0_iff_not_bit bit_take_bit_iff)
    have "take_bit n v OR NOT (push_bit n 1 - 1) = v" if "bit v (n - 1)"
      using that high by (intro bit_word_eqI) (auto simp: bit_or_iff bit_not_iff m bit_take_bit_iff simp del: push_bit_of_1)
    moreover have "take_bit n v = v" if "\<not> bit v (n - 1)"
    proof (rule bit_word_eqI)
      fix k assume "k < LENGTH(64)"
      then show "bit (take_bit n v) k = bit v k"
        using that high [of k] by (cases "k < n") (auto simp: bit_take_bit_iff)
    qed
    ultimately show ?thesis
      using u assms(2,3) len sgn by (simp add: pdo_read_signed_def Let_def del: push_bit_of_1)
  qed
qed

section \<open>Layouts\<close>

definition entries_apart :: "pdo_entry \<Rightarrow> pdo_entry \<Rightarrow> bool" where
  "entries_apart a b \<longleftrightarrow> pe_direction a = pe_direction b \<longrightarrow>
     \<not> same_object a b \<and> (pe_bit_offset a + unat (pe_bit_length a) \<le> pe_bit_offset b \<or>
       pe_bit_offset b + unat (pe_bit_length b) \<le> pe_bit_offset a)"

definition entry_fits :: "nat \<Rightarrow> pdo_entry \<Rightarrow> bool" where
  "entry_fits bits e \<longleftrightarrow> 1 \<le> unat (pe_bit_length e) \<and> unat (pe_bit_length e) \<le> 64 \<and>
     pe_bit_offset e + unat (pe_bit_length e) \<le> bits"

definition layout_inv :: "nat \<Rightarrow> pdo_layout \<Rightarrow> bool" where
  "layout_inv ENTRIES l \<longleftrightarrow> length (pl_entries l) = ENTRIES \<and> pl_entry_count l \<le> ENTRIES \<and>
     pl_total_bits l \<le> usize_max \<and> (\<forall>e\<in>set (pdo_layout_entries l). entry_fits (pl_total_bits l) e) \<and>
     (\<forall>j<pl_entry_count l. \<forall>i<j. entries_apart (pl_entries l ! i) (pl_entries l ! j))"

lemma entries_apart_sym: "entries_apart a b \<longleftrightarrow> entries_apart b a"
  by (auto simp: entries_apart_def same_object_def)

lemma entry_fits_mono: "entry_fits n e \<Longrightarrow> n \<le> m \<Longrightarrow> entry_fits m e"
  by (simp add: entry_fits_def)

lemma pdo_layout_new_inv: "layout_inv ENTRIES (pdo_layout_new ENTRIES)"
  by (simp add: layout_inv_def pdo_layout_new_def pdo_layout_entries_def)

lemma pdo_layout_add_Ok:
  assumes "layout_inv ENTRIES l" "pdo_layout_add ENTRIES l e = (l', Inr i)"
  shows "layout_inv ENTRIES l' \<and> i = pl_entry_count l \<and>
    pdo_layout_entries l' = pdo_layout_entries l @ [e]"
proof -
  let ?c = "pl_entry_count l" and ?stop = "pe_bit_offset e + unat (pe_bit_length e)"
  have c: "?c < ENTRIES" "i = ?c" and len: "1 \<le> unat (pe_bit_length e)" "unat (pe_bit_length e) \<le> 64"
    and dup: "\<forall>x\<in>set (pdo_layout_entries l). \<not> same_object x e" and stop: "?stop \<le> usize_max"
    and over: "\<forall>x\<in>set (pdo_layout_entries l). pe_direction x = pe_direction e \<longrightarrow>
      \<not> (pe_bit_offset e < pe_bit_offset x + unat (pe_bit_length x) \<and> pe_bit_offset x < ?stop)"
    and l': "l' = l\<lparr>pl_entries := (pl_entries l)[?c := e], pl_entry_count := ?c + 1,
      pl_total_bits := max (pl_total_bits l) ?stop\<rparr>"
    using assms(2) by (auto simp: pdo_layout_add_def usize_checked_add_def word_le_nat_alt
        split: if_splits option.splits)
  have inv: "length (pl_entries l) = ENTRIES" using assms(1) by (simp add: layout_inv_def)
  have es: "pdo_layout_entries l' = pdo_layout_entries l @ [e]"
    using c(1) inv by (simp add: l' pdo_layout_entries_def)
  have mem: "pl_entries l ! k \<in> set (pdo_layout_entries l)" if "k < ?c" for k
    using that c(1) inv by (auto simp: pdo_layout_entries_def in_set_conv_nth)
  have "entries_apart (pl_entries l' ! a) (pl_entries l' ! b)" if "a < b" "b < pl_entry_count l'" for a b
  proof (cases "b = ?c")
    case True
    then have "pl_entries l' ! a = pl_entries l ! a" "pl_entries l' ! b = e"
      using that c(1) inv by (simp_all add: l')
    with mem [of a] dup over that True show ?thesis by (auto simp: entries_apart_def not_less)
  next
    case False
    with that assms(1) show ?thesis by (simp add: l' layout_inv_def)
  qed
  moreover have "\<forall>x\<in>set (pdo_layout_entries l'). entry_fits (pl_total_bits l') x"
  proof -
    have "pl_total_bits l \<le> pl_total_bits l'" "entry_fits (pl_total_bits l') e"
      using len by (simp_all add: l' entry_fits_def)
    then show ?thesis using assms(1) by (auto simp: es layout_inv_def intro: entry_fits_mono)
  qed
  ultimately show ?thesis
    using assms(1) c stop es inv by (auto simp: layout_inv_def l')
qed

lemma pdo_layout_add_Err: "pdo_layout_add ENTRIES l e = (l', Inl er) \<Longrightarrow> l' = l"
  by (auto simp: pdo_layout_add_def split: if_splits option.splits)

lemma pdo_layout_adds_inv:
  "layout_inv ENTRIES l \<Longrightarrow> layout_inv ENTRIES (foldl (\<lambda>l e. fst (pdo_layout_add ENTRIES l e)) l es)"
proof (induction es arbitrary: l)
  case (Cons e es)
  obtain l' r where add: "pdo_layout_add ENTRIES l e = (l', r)" by fastforce
  have "layout_inv ENTRIES l'"
    using Cons.prems add pdo_layout_add_Ok pdo_layout_add_Err by (cases r) fastforce+
  with Cons.IH add show ?case by simp
qed simp

lemma read_untouched:
  assumes "off + n \<le> 8 * length img" "off' + n' \<le> off \<or> off + n \<le> off'" "n' \<le> 64"
  shows "read_bits (write_bits img off n v) off' n' = read_bits img off' n'"
  using assms by (intro bit_word_eqI) (auto simp: bit_read_bits image_bit_write_bits)

lemma pdo_read_unsigned_apart:
  assumes "entries_apart a b" "pe_direction a = pe_direction b" "pdo_validate a (length img) = Inr ()"
  shows "pdo_read_unsigned b (write_bits img (pe_bit_offset a) (unat (pe_bit_length a)) v) =
    pdo_read_unsigned b img"
proof (cases "pdo_validate b (length img)")
  case (Inr u)
  then have "unat (pe_bit_length b) \<le> 64" by (simp add: pdo_validate_Ok)
  moreover have "pe_bit_offset a + unat (pe_bit_length a) \<le> 8 * length img"
    using assms(3) by (simp add: pdo_validate_Ok)
  ultimately show ?thesis
    using assms(1,2) Inr by (auto simp: pdo_read_unsigned_def entries_apart_def intro!: read_untouched)
qed (simp add: pdo_read_unsigned_def)

section \<open>Properties\<close>

text \<open>C25. Process data survives the image: a value that \<open>write_unsigned\<close> accepts is read back by
  \<open>read_unsigned\<close>, one that \<open>write_signed\<close> accepts by \<open>read_signed\<close> with its sign; a write is
  accepted exactly when the entry lies in the image, has the right signedness and its width can
  represent the value, and a refused write leaves the image unchanged.\<close>

theorem pdo_write_read:
  assumes "n = unat (pe_bit_length e)"
    and "inside \<longleftrightarrow> 1 \<le> n \<and> n \<le> 64 \<and> pe_bit_offset e + n \<le> min (8 * length img) usize_max"
  shows "(case pdo_write_unsigned e img v of
      (img', Inr _) \<Rightarrow> inside \<and> \<not> pe_signed e \<and> unat v < 2 ^ n \<and> pdo_read_unsigned e img' = Ok v
    | (img', Inl _) \<Rightarrow> img' = img \<and> \<not> (inside \<and> \<not> pe_signed e \<and> unat v < 2 ^ n)) \<and>
   (case pdo_write_signed e img v of
      (img', Inr _) \<Rightarrow> inside \<and> pe_signed e \<and> - (2 ^ (n - 1)) \<le> sint v \<and> sint v < 2 ^ (n - 1) \<and>
        pdo_read_signed e img' = Ok v
    | (img', Inl _) \<Rightarrow> img' = img \<and>
        \<not> (inside \<and> pe_signed e \<and> - (2 ^ (n - 1)) \<le> sint v \<and> sint v < 2 ^ (n - 1)))"
proof -
  have inside: "inside \<longleftrightarrow> pdo_validate e (length img) = Inr ()"
    using assms by (simp add: pdo_validate_Ok)
  from pdo_write_unsigned_cases [OF assms(1), where img = img and v = v]
    pdo_write_signed_cases [OF assms(1), where img = img and v = v]
  show ?thesis
    using pdo_read_unsigned_written [OF _ assms(1), where img = img and v = v]
      pdo_read_signed_written [OF _ _ assms(1), where img = img and v = v]
    by (auto simp: inside split: if_splits)
qed

text \<open>An entry of 12 bits.\<close>

definition sample_entry :: pdo_entry where
  "sample_entry = \<lparr>pe_index = 0x6041, pe_subindex = 0, pe_bit_offset = 3, pe_bit_length = 12,
     pe_signed = False, pe_direction = PdoTx\<rparr>"

theorem pdo_write_read_witness:
  "case pdo_write_unsigned sample_entry [0, 0] 0xABC of
     (img', Inr _) \<Rightarrow> pdo_read_unsigned sample_entry img' = Ok 0xABC | _ \<Rightarrow> False"
  using pdo_write_read [of 12 sample_entry True "[0, 0]" "0xABC"]
  by (auto simp: sample_entry_def usize_max_def split: sum.splits prod.splits)

text \<open>C26. Entries of a layout do not disturb each other: in a layout built by any sequence of
  \<open>add\<close> calls (refused ones included), every entry lies in the first \<open>total_bits\<close> bits, and
  writing one entry changes no bit of another entry of the same direction, so that reading the
  other one gives the same as before.\<close>

theorem pdo_entries_isolated:
  assumes "l = foldl (\<lambda>l e. fst (pdo_layout_add ENTRIES l e)) (pdo_layout_new ENTRIES) es"
    and "pdo_layout_entry l i = Ok a" and "pdo_layout_entry l j = Ok b" and "i \<noteq> j"
    and "pe_direction a = pe_direction b"
    and "pdo_write_unsigned a img v = (img', Ok ()) \<or> pdo_write_signed a img v = (img', Ok ())"
  shows "pdo_read_unsigned b img' = pdo_read_unsigned b img \<and>
    pdo_read_signed b img' = pdo_read_signed b img \<and> entry_fits (pl_total_bits l) a \<and>
    (pe_index a, pe_subindex a) \<noteq> (pe_index b, pe_subindex b)"
proof -
  have inv: "layout_inv ENTRIES l"
    unfolding assms(1) by (intro pdo_layout_adds_inv pdo_layout_new_inv)
  have a: "i < pl_entry_count l" "a = pl_entries l ! i" and b: "j < pl_entry_count l" "b = pl_entries l ! j"
    using assms(2,3) by (auto simp: pdo_layout_entry_def split: if_splits)
  have apart: "entries_apart a b"
    using inv a b assms(4) entries_apart_sym by (cases "i < j") (auto simp: layout_inv_def)
  have "a \<in> set (pdo_layout_entries l)"
    using a inv by (auto simp: pdo_layout_entries_def layout_inv_def in_set_conv_nth)
  then have "entry_fits (pl_total_bits l) a" using inv by (simp add: layout_inv_def)
  moreover have "pdo_validate a (length img) = Inr () \<and>
      img' = write_bits img (pe_bit_offset a) (unat (pe_bit_length a)) v"
    using assms(6) pdo_write_unsigned_cases [OF refl, of a img v] pdo_write_signed_cases [OF refl, of a img v]
    by (auto split: if_splits)
  then have "pdo_read_unsigned b img' = pdo_read_unsigned b img"
    using pdo_read_unsigned_apart [OF apart assms(5)] by simp
  ultimately show ?thesis
    using apart assms(5) by (auto simp: pdo_read_signed_def entries_apart_def same_object_def)
qed

theorem pdo_entries_isolated_witness:
  "pdo_read_unsigned (sample_entry\<lparr>pe_subindex := 1, pe_bit_offset := 15, pe_bit_length := 1\<rparr>)
     (fst (pdo_write_unsigned sample_entry [0, 0] 0xABC)) =
   pdo_read_unsigned (sample_entry\<lparr>pe_subindex := 1, pe_bit_offset := 15, pe_bit_length := 1\<rparr>) [0, 0]"
proof -
  let ?b = "sample_entry\<lparr>pe_subindex := 1, pe_bit_offset := 15, pe_bit_length := 1\<rparr>"
  define l where "l = foldl (\<lambda>l e. fst (pdo_layout_add (Suc (Suc 0)) l e))
      (pdo_layout_new (Suc (Suc 0))) [sample_entry, ?b]"
  have l: "pdo_layout_entry l 0 = Ok sample_entry" "pdo_layout_entry l 1 = Ok ?b"
    by (simp_all add: l_def pdo_layout_new_def pdo_layout_add_def sample_entry_def pdo_layout_entries_def
        pdo_layout_entry_def usize_checked_add_def usize_max_def same_object_def word_le_nat_alt)
  have w: "pdo_write_unsigned sample_entry [0, 0] 0xABC = (fst (pdo_write_unsigned sample_entry [0, 0] 0xABC), Ok ())"
    using pdo_write_unsigned_cases [OF refl, of sample_entry "[0, 0]" "0xABC"]
    by (simp add: sample_entry_def pdo_validate_Ok usize_max_def)
  from pdo_entries_isolated [OF l_def l, of "[0, 0]" "0xABC"] w show ?thesis
    by (simp add: sample_entry_def)
qed

end
