(* ===== verification/Rx_Index.thy ===== *)
theory Rx_Index
  imports Bit_Scan System_Interfaces
begin

text \<open>
  The receive index (\<open>rx_index.rs\<close>): a table of 256 expectations, one per datagram index, armed
  when a frame is sent and completed, rejected, expired or cancelled afterwards, and the bitmap
  of the indices that one sweep found past their deadline.
\<close>

section \<open>Policies\<close>

datatype rx_slot_state = RxEmpty | RxArmed | RxComplete | RxRejected

datatype rx_working_counter_policy = WkcExact | WkcZeroOrOne | WkcUpToExpected

fun wkc_accepts :: "rx_working_counter_policy \<Rightarrow> u16 \<Rightarrow> u16 \<Rightarrow> bool" where
  "wkc_accepts WkcExact expected actual = (actual = expected)"
| "wkc_accepts WkcZeroOrOne expected actual = (expected = 1 \<and> actual \<le> 1)"
| "wkc_accepts WkcUpToExpected expected actual = (actual \<le> expected)"

datatype rx_address_policy = AddrExact | TransitCount u16 | BroadcastCount u16

text \<open>The auto-increment and broadcast commands.\<close>

definition counts_transit :: "u8 \<Rightarrow> bool" where
  "counts_transit c \<longleftrightarrow> (0x01 \<le> c \<and> c \<le> 0x03) \<or> (0x07 \<le> c \<and> c \<le> 0x09) \<or> c = 0x0D"

fun address_accepts :: "rx_address_policy \<Rightarrow> u8 \<Rightarrow> u32 \<Rightarrow> u32 \<Rightarrow> u16 \<Rightarrow> bool" where
  "address_accepts AddrExact command expected actual wkc = (expected = actual)"
| "address_accepts (TransitCount n) command expected actual wkc =
     (if counts_transit command
      then drop_bit 16 expected = drop_bit 16 actual \<and> (ucast actual :: u16) - ucast expected = n
      else expected = actual)"
| "address_accepts (BroadcastCount max_slaves) command expected actual wkc =
     (command = 0x07 \<and> drop_bit 16 expected = drop_bit 16 actual \<and> wkc \<le> max_slaves \<and>
      (ucast actual :: u16) - ucast expected = wkc)"

section \<open>Entries\<close>

record rx_index_entry =
  re_slot_id :: u16
  re_generation :: u16
  re_deadline_ns :: u64
  re_expected_address :: u32
  re_expected_size :: u16
  re_expected_type :: u8
  re_expected_wkc :: u16
  re_working_counter_policy :: rx_working_counter_policy
  re_address_policy :: rx_address_policy
  re_state :: rx_slot_state

record rx_expectation =
  rp_generation :: u16
  rp_deadline_ns :: u64
  rp_expected_address :: u32
  rp_expected_size :: u16
  rp_expected_type :: u8
  rp_expected_wkc :: u16

record rx_response =
  rr_generation :: u16
  rr_address :: u32
  rr_payload_size :: u16
  rr_command :: u8
  rr_working_counter :: u16
  rr_received_at_ns :: u64

definition rx_index_entry_empty :: rx_index_entry where
  "rx_index_entry_empty = \<lparr>re_slot_id = 0, re_generation = 0, re_deadline_ns = 0,
     re_expected_address = 0, re_expected_size = 0, re_expected_type = 0, re_expected_wkc = 0,
     re_working_counter_policy = WkcExact, re_address_policy = AddrExact, re_state = RxEmpty\<rparr>"

datatype rx_index_error = RxAlreadyArmed | RxInvalidDeadline | RxUnknownIndex | RxNotArmed
  | RxGenerationMismatch | RxAddressMismatch | RxSizeMismatch | RxTypeMismatch
  | RxWorkingCounterMismatch | RxDeadlineExceeded

record rx_match =
  rm_slot_id :: u16
  rm_generation :: u16
  rm_working_counter :: u16

section \<open>The expiry bitmap\<close>

record rx_expiry =
  ex_words :: "u64 list"
  ex_count :: u16

definition rx_expiry_empty :: rx_expiry where
  "rx_expiry_empty = \<lparr>ex_words = replicate 4 0, ex_count = 0\<rparr>"

definition rx_expiry_is_empty :: "rx_expiry \<Rightarrow> bool" where
  "rx_expiry_is_empty x \<longleftrightarrow> ex_count x = 0"

definition rx_expiry_record :: "rx_expiry \<Rightarrow> u8 \<Rightarrow> rx_expiry" where
  "rx_expiry_record x index =
     (let word = unat (index div 64); b = unat (index mod 64)
      in x\<lparr>ex_words := (ex_words x)[word := ex_words x ! word OR push_bit b 1],
           ex_count := sat_add (ex_count x) 1\<rparr>)"

record rx_expiry_indices =
  xi_words :: "u64 list"
  xi_word_index :: nat

definition rx_expiry_iter :: "rx_expiry \<Rightarrow> rx_expiry_indices" where
  "rx_expiry_iter x = \<lparr>xi_words = ex_words x, xi_word_index = 0\<rparr>"

function rx_expiry_next :: "rx_expiry_indices \<Rightarrow> rx_expiry_indices \<times> u8 option" where
  "rx_expiry_next it =
     (if xi_word_index it < length (xi_words it) then
        let word = xi_words it ! xi_word_index it
        in if word = 0 then rx_expiry_next (it\<lparr>xi_word_index := xi_word_index it + 1\<rparr>)
           else
             let b = trailing_zeros word
             in (it\<lparr>xi_words := (xi_words it)[xi_word_index it := word AND NOT (push_bit b 1)]\<rparr>,
                 Some (of_nat (xi_word_index it * 64 + b)))
      else (it, None))"
  by pat_completeness auto
termination by (relation "measure (\<lambda>it. length (xi_words it) - xi_word_index it)") auto

declare rx_expiry_next.simps [simp del]

section \<open>The table\<close>

type_synonym rx_index_table = "rx_index_entry list"

definition rx_index_new :: rx_index_table where
  "rx_index_new = replicate 256 rx_index_entry_empty"

definition rx_arm_with_policies ::
  "rx_index_table \<Rightarrow> u8 \<Rightarrow> u16 \<Rightarrow> rx_expectation \<Rightarrow> rx_working_counter_policy \<Rightarrow>
     rx_address_policy \<Rightarrow> rx_index_table \<times> (rx_index_error, unit) result" where
  "rx_arm_with_policies t index slot_id x wp ap =
     (if re_state (t ! unat index) = RxArmed then (t, Err RxAlreadyArmed)
      else if rp_deadline_ns x = 0 then (t, Err RxInvalidDeadline)
      else (t[unat index := \<lparr>re_slot_id = slot_id, re_generation = rp_generation x,
              re_deadline_ns = rp_deadline_ns x, re_expected_address = rp_expected_address x,
              re_expected_size = rp_expected_size x, re_expected_type = rp_expected_type x,
              re_expected_wkc = rp_expected_wkc x, re_working_counter_policy = wp,
              re_address_policy = ap, re_state = RxArmed\<rparr>], Ok ()))"

definition rx_arm_with_working_counter_policy ::
  "rx_index_table \<Rightarrow> u8 \<Rightarrow> u16 \<Rightarrow> rx_expectation \<Rightarrow> rx_working_counter_policy \<Rightarrow>
     rx_index_table \<times> (rx_index_error, unit) result" where
  "rx_arm_with_working_counter_policy t index slot_id x wp =
     rx_arm_with_policies t index slot_id x wp AddrExact"

definition rx_arm ::
  "rx_index_table \<Rightarrow> u8 \<Rightarrow> u16 \<Rightarrow> rx_expectation \<Rightarrow> rx_index_table \<times> (rx_index_error, unit) result"
where
  "rx_arm t index slot_id x = rx_arm_with_working_counter_policy t index slot_id x WkcExact"

definition rx_reject :: "rx_index_table \<Rightarrow> u8 \<Rightarrow> rx_index_table" where
  "rx_reject t index = t[unat index := (t ! unat index)\<lparr>re_state := RxRejected\<rparr>]"

definition rx_validate_and_complete ::
  "rx_index_table \<Rightarrow> u8 \<Rightarrow> rx_response \<Rightarrow> rx_index_table \<times> (rx_index_error, rx_match) result" where
  "rx_validate_and_complete t index r =
     (let e = t ! unat index in
      if re_state e = RxEmpty then (t, Err RxUnknownIndex)
      else if re_state e \<noteq> RxArmed then (t, Err RxNotArmed)
      else if re_deadline_ns e < rr_received_at_ns r then (rx_reject t index, Err RxDeadlineExceeded)
      else if re_generation e \<noteq> rr_generation r then (rx_reject t index, Err RxGenerationMismatch)
      else if \<not> address_accepts (re_address_policy e) (rr_command r) (re_expected_address e)
                (rr_address r) (rr_working_counter r) then (rx_reject t index, Err RxAddressMismatch)
      else if re_expected_size e \<noteq> rr_payload_size r then (rx_reject t index, Err RxSizeMismatch)
      else if re_expected_type e \<noteq> rr_command r then (rx_reject t index, Err RxTypeMismatch)
      else if \<not> wkc_accepts (re_working_counter_policy e) (re_expected_wkc e) (rr_working_counter r)
        then (rx_reject t index, Err RxWorkingCounterMismatch)
      else (t[unat index := e\<lparr>re_state := RxComplete\<rparr>],
            Ok \<lparr>rm_slot_id = re_slot_id e, rm_generation = re_generation e,
                rm_working_counter = rr_working_counter r\<rparr>))"

definition rx_entry :: "rx_index_table \<Rightarrow> u8 \<Rightarrow> rx_index_entry" where
  "rx_entry t index = t ! unat index"

definition rx_expired :: "u64 \<Rightarrow> rx_index_entry \<Rightarrow> bool" where
  "rx_expired now e \<longleftrightarrow> re_state e = RxArmed \<and> re_deadline_ns e < now"

fun rx_expire_from :: "u64 \<Rightarrow> nat \<Rightarrow> rx_index_table \<Rightarrow> rx_expiry \<Rightarrow> rx_index_table \<times> rx_expiry" where
  "rx_expire_from now i [] x = ([], x)"
| "rx_expire_from now i (e # es) x =
     (let (e', x') = (if rx_expired now e then (e\<lparr>re_state := RxRejected\<rparr>, rx_expiry_record x (of_nat i))
                      else (e, x));
          (es', x'') = rx_expire_from now (Suc i) es x'
      in (e' # es', x''))"

definition rx_expire_armed :: "rx_index_table \<Rightarrow> u64 \<Rightarrow> rx_index_table \<times> rx_expiry" where
  "rx_expire_armed t now = rx_expire_from now 0 t rx_expiry_empty"

fun rx_cancel_slot :: "rx_index_table \<Rightarrow> u16 \<Rightarrow> rx_index_table \<times> nat" where
  "rx_cancel_slot [] slot_id = ([], 0)"
| "rx_cancel_slot (e # es) slot_id =
     (case rx_cancel_slot es slot_id of (es', n) \<Rightarrow>
        if re_state e \<noteq> RxEmpty \<and> re_slot_id e = slot_id then (rx_index_entry_empty # es', n + 1)
        else (e # es', n))"

definition rx_cancel_owned :: "rx_index_table \<Rightarrow> u8 \<Rightarrow> u16 \<Rightarrow> u16 \<Rightarrow> rx_index_table \<times> bool" where
  "rx_cancel_owned t index slot_id generation =
     (let e = t ! unat index in
      if re_state e \<noteq> RxArmed \<or> re_slot_id e \<noteq> slot_id \<or> re_generation e \<noteq> generation then (t, False)
      else (t[unat index := e\<lparr>re_state := RxEmpty\<rparr>], True))"

definition rx_reset_complete :: "rx_index_table \<Rightarrow> rx_index_table" where
  "rx_reset_complete t =
     map (\<lambda>e. if re_state e = RxComplete \<or> re_state e = RxRejected then e\<lparr>re_state := RxEmpty\<rparr> else e) t"

section \<open>Iterating over the expiry bitmap\<close>

text \<open>The indices an iterator has still to yield.\<close>

definition pending_bits :: "rx_expiry_indices \<Rightarrow> nat list" where
  "pending_bits it = concat (map (\<lambda>k. map (\<lambda>b. k * 64 + b) (set_bits_of (xi_words it ! k)))
     [xi_word_index it..<length (xi_words it)])"

lemma pending_bits_done: "\<not> xi_word_index it < length (xi_words it) \<Longrightarrow> pending_bits it = []"
  by (simp add: pending_bits_def)

lemma pending_bits_skip:
  assumes "xi_word_index it < length (xi_words it)"
  shows "pending_bits it = map (\<lambda>b. xi_word_index it * 64 + b) (set_bits_of (xi_words it ! xi_word_index it)) @
    pending_bits (it\<lparr>xi_word_index := xi_word_index it + 1\<rparr>)"
  using assms by (simp add: pending_bits_def upt_conv_Cons)

lemma pending_bits_take:
  assumes "k = xi_word_index it" "k < length (xi_words it)" "xi_words it ! k \<noteq> 0"
    and "n = trailing_zeros (xi_words it ! k)"
    and "it' = it\<lparr>xi_words := (xi_words it)[k := xi_words it ! k AND NOT (push_bit n 1)]\<rparr>"
  shows "pending_bits it = (k * 64 + n) # pending_bits it'"
proof -
  have "set_bits_of (xi_words it ! k) = n # set_bits_of (xi_words it' ! k)"
    using set_bits_of_lowest [OF assms(3,4)] assms(2,5) by simp
  moreover have "pending_bits (it\<lparr>xi_word_index := k + 1\<rparr>) = pending_bits (it'\<lparr>xi_word_index := k + 1\<rparr>)"
    unfolding pending_bits_def assms(5) by (simp, intro arg_cong [where f = concat] map_cong) auto
  moreover have "xi_word_index it' = k" "k < length (xi_words it')" using assms by simp_all
  ultimately show ?thesis
    using pending_bits_skip [of it] pending_bits_skip [of it'] assms(1,2) by simp
qed

lemma rx_expiry_next_pending:
  "case pending_bits it of
     [] \<Rightarrow> snd (rx_expiry_next it) = None
   | n # ns \<Rightarrow> \<exists>it'. rx_expiry_next it = (it', Some (of_nat n)) \<and> pending_bits it' = ns"
proof (induction it rule: rx_expiry_next.induct)
  case (1 it)
  let ?k = "xi_word_index it"
  show ?case
  proof (cases "?k < length (xi_words it)")
    case False
    then show ?thesis by (subst rx_expiry_next.simps) (simp add: pending_bits_done)
  next
    case True
    show ?thesis
    proof (cases "xi_words it ! ?k = 0")
      case zero: True
      have "pending_bits it = pending_bits (it\<lparr>xi_word_index := ?k + 1\<rparr>)"
        using pending_bits_skip [OF True] zero by simp
      moreover have "rx_expiry_next it = rx_expiry_next (it\<lparr>xi_word_index := ?k + 1\<rparr>)"
        using True zero by (subst rx_expiry_next.simps) simp
      ultimately show ?thesis using "1.IH" [OF True refl zero] by (simp only:)
    next
      case set: False
      from pending_bits_take [OF refl True set refl refl] show ?thesis
        using True set by (subst rx_expiry_next.simps) (simp add: Let_def del: push_bit_of_1)
    qed
  qed
qed

lemma rx_expiry_next_shrinks:
  "rx_expiry_next it = (it', Some i) \<Longrightarrow> length (pending_bits it') < length (pending_bits it)"
  using rx_expiry_next_pending [of it] by (auto split: list.splits)

function rx_expiry_collect :: "rx_expiry_indices \<Rightarrow> u8 list" where
  "rx_expiry_collect it =
     (case rx_expiry_next it of (it', None) \<Rightarrow> [] | (it', Some i) \<Rightarrow> i # rx_expiry_collect it')"
  by pat_completeness auto
termination
  by (relation "measure (\<lambda>it. length (pending_bits it))")
    (auto intro: rx_expiry_next_shrinks dest: sym)

declare rx_expiry_collect.simps [simp del]

lemma rx_expiry_collect_pending: "rx_expiry_collect it = map of_nat (pending_bits it)"
proof (induction "pending_bits it" arbitrary: it)
  case Nil
  then obtain it' where "rx_expiry_next it = (it', None)"
    using rx_expiry_next_pending [of it] by (cases "rx_expiry_next it") auto
  with Nil show ?case by (subst rx_expiry_collect.simps) simp
next
  case (Cons n ns)
  then obtain it' where "rx_expiry_next it = (it', Some (of_nat n))" "pending_bits it' = ns"
    using rx_expiry_next_pending [of it] by (auto simp: Cons.hyps(2) [symmetric])
  with Cons show ?case by (subst rx_expiry_collect.simps) (simp add: Cons.hyps(2) [symmetric])
qed

text \<open>The indices recorded in the bitmap.\<close>

definition expiry_marked :: "rx_expiry \<Rightarrow> nat \<Rightarrow> bool" where
  "expiry_marked x n = bit (ex_words x ! (n div 64)) (n mod 64)"

lemma upt_256_words: "[0..<256] = concat (map (\<lambda>k. map (\<lambda>b. k * 64 + b) [0..<64]) [0..<(4 :: nat)])"
  by code_simp

lemma rx_expiry_collect_marked:
  assumes "length (ex_words x) = 4"
  shows "rx_expiry_collect (rx_expiry_iter x) = map of_nat (filter (expiry_marked x) [0..<256])"
proof -
  have "filter (expiry_marked x) (map (\<lambda>b. k * 64 + b) [0..<64]) =
      map (\<lambda>b. k * 64 + b) (set_bits_of (ex_words x ! k))" for k
    unfolding set_bits_of_def filter_map o_def by (intro arg_cong [where f = "map _"] filter_cong)
      (auto simp: expiry_marked_def)
  then have "pending_bits (rx_expiry_iter x) = filter (expiry_marked x) [0..<256]"
    using assms by (simp only: upt_256_words filter_concat map_map o_def)
      (simp add: pending_bits_def rx_expiry_iter_def)
  then show ?thesis by (simp add: rx_expiry_collect_pending)
qed

lemma expiry_marked_record:
  assumes "length (ex_words x) = 4" "i < 256" "n < 256"
  shows "expiry_marked (rx_expiry_record x (of_nat i)) n \<longleftrightarrow> expiry_marked x n \<or> n = i"
proof -
  have i: "unat ((of_nat i :: u8) div 64) = i div 64" "unat ((of_nat i :: u8) mod 64) = i mod 64"
    using assms(2) by (simp_all add: unat_div unat_mod unat_of_nat)
  have "n = i \<longleftrightarrow> n div 64 = i div 64 \<and> n mod 64 = i mod 64"
    by (metis div_mult_mod_eq)
  moreover have "bit (2 ^ (i mod 64) :: u64) (n mod 64) \<longleftrightarrow> n mod 64 = i mod 64"
    by (auto simp: bit_exp_iff possible_bit_word)
  moreover have "i div 64 < 4" using assms(2) by auto
  ultimately show ?thesis
    using assms(1) by (auto simp: expiry_marked_def rx_expiry_record_def Let_def i bit_or_iff nth_list_update)
qed

lemma rx_expire_from_exact:
  assumes "rx_expire_from now i es x = (es', x')" "i + length es \<le> 256" "length (ex_words x) = 4"
    and "unat (ex_count x) \<le> i"
  shows "es' = map (\<lambda>e. if rx_expired now e then e\<lparr>re_state := RxRejected\<rparr> else e) es \<and>
    length (ex_words x') = 4 \<and>
    (\<forall>n<256. expiry_marked x' n \<longleftrightarrow> expiry_marked x n \<or>
       (i \<le> n \<and> n < i + length es \<and> rx_expired now (es ! (n - i)))) \<and>
    unat (ex_count x') = unat (ex_count x) + length (filter (rx_expired now) es)"
  using assms
proof (induction es arbitrary: i x es')
  case Nil
  then show ?case by auto
next
  case (Cons e es)
  define x1 where "x1 = (if rx_expired now e then rx_expiry_record x (of_nat i) else x)"
  obtain es1 where rec: "rx_expire_from now (Suc i) es x1 = (es1, x')"
    and es': "es' = (if rx_expired now e then e\<lparr>re_state := RxRejected\<rparr> else e) # es1"
    using Cons.prems(1) by (auto simp: x1_def Let_def split: prod.splits if_splits)
  have len: "length (ex_words x1) = 4" using Cons.prems(3) by (simp add: x1_def rx_expiry_record_def Let_def)
  have cnt: "unat (ex_count x1) = unat (ex_count x) + (if rx_expired now e then 1 else 0)"
    using Cons.prems(2,4) by (simp add: x1_def rx_expiry_record_def Let_def unat_sat_add)
  have marked: "expiry_marked x1 n \<longleftrightarrow> expiry_marked x n \<or> (n = i \<and> rx_expired now e)" if "n < 256" for n
    using expiry_marked_record [OF Cons.prems(3) _ that] Cons.prems(2) by (auto simp: x1_def)
  have "Suc i + length es \<le> 256" "unat (ex_count x1) \<le> Suc i"
    using Cons.prems(2,4) cnt by simp_all
  note IH = Cons.IH [OF rec this(1) len this(2)]
  have "expiry_marked x' n \<longleftrightarrow> expiry_marked x n \<or>
      (i \<le> n \<and> n < i + length (e # es) \<and> rx_expired now ((e # es) ! (n - i)))" if n: "n < 256" for n
  proof (cases "n = i")
    case True
    with IH marked [OF n] n show ?thesis by auto
  next
    case False
    have "i \<le> n \<Longrightarrow> (e # es) ! (n - i) = es ! (n - Suc i)" using False by (simp add: nth_Cons')
    with False IH marked [OF n] n show ?thesis by auto
  qed
  then show ?case using IH cnt by (simp add: es')
qed

section \<open>The table as a map of pending expectations\<close>

definition response_matches :: "rx_index_entry \<Rightarrow> rx_response \<Rightarrow> bool" where
  "response_matches e r \<longleftrightarrow> rr_received_at_ns r \<le> re_deadline_ns e \<and> re_generation e = rr_generation r \<and>
     address_accepts (re_address_policy e) (rr_command r) (re_expected_address e) (rr_address r)
       (rr_working_counter r) \<and>
     re_expected_size e = rr_payload_size r \<and> re_expected_type e = rr_command r \<and>
     wkc_accepts (re_working_counter_policy e) (re_expected_wkc e) (rr_working_counter r)"

datatype rx_op = RxArm u8 u16 rx_expectation rx_working_counter_policy rx_address_policy
  | RxReceive u8 rx_response | RxExpire u64 | RxCancelSlot u16 | RxCancelOwned u8 u16 u16
  | RxResetComplete

datatype rx_event = EvArmed u8 | EvMatched u8 rx_match | EvExpired "u8 list" | EvNone

fun rx_step :: "rx_index_table \<Rightarrow> rx_op \<Rightarrow> rx_index_table \<times> rx_event" where
  "rx_step t (RxArm i s x wp ap) = (case rx_arm_with_policies t i s x wp ap of
     (t', r) \<Rightarrow> (t', if is_ok r then EvArmed i else EvNone))"
| "rx_step t (RxReceive i r) = (case rx_validate_and_complete t i r of
     (t', Inr m) \<Rightarrow> (t', EvMatched i m) | (t', Inl e) \<Rightarrow> (t', EvNone))"
| "rx_step t (RxExpire now) = (case rx_expire_armed t now of
     (t', x) \<Rightarrow> (t', EvExpired (rx_expiry_collect (rx_expiry_iter x))))"
| "rx_step t (RxCancelSlot s) = (fst (rx_cancel_slot t s), EvNone)"
| "rx_step t (RxCancelOwned i s g) = (fst (rx_cancel_owned t i s g), EvNone)"
| "rx_step t RxResetComplete = (rx_reset_complete t, EvNone)"

text \<open>The specification: expectations that wait for their response, by index.\<close>

type_synonym pending_map = "u8 \<Rightarrow> rx_index_entry option"

definition promise :: "u16 \<Rightarrow> rx_expectation \<Rightarrow> rx_working_counter_policy \<Rightarrow> rx_address_policy \<Rightarrow> rx_index_entry"
where
  "promise s x wp ap = \<lparr>re_slot_id = s, re_generation = rp_generation x,
     re_deadline_ns = rp_deadline_ns x, re_expected_address = rp_expected_address x,
     re_expected_size = rp_expected_size x, re_expected_type = rp_expected_type x,
     re_expected_wkc = rp_expected_wkc x, re_working_counter_policy = wp,
     re_address_policy = ap, re_state = RxArmed\<rparr>"

definition drop_pending :: "(rx_index_entry \<Rightarrow> bool) \<Rightarrow> pending_map \<Rightarrow> pending_map" where
  "drop_pending P m = (\<lambda>i. case m i of None \<Rightarrow> None | Some e \<Rightarrow> if P e then None else Some e)"

definition all_indices :: "u8 list" where
  "all_indices = map of_nat [0..<256]"

fun pending_step :: "pending_map \<Rightarrow> rx_op \<Rightarrow> pending_map \<times> rx_event" where
  "pending_step m (RxArm i s x wp ap) =
     (if m i = None \<and> rp_deadline_ns x \<noteq> 0 then (m(i \<mapsto> promise s x wp ap), EvArmed i) else (m, EvNone))"
| "pending_step m (RxReceive i r) = (case m i of
     None \<Rightarrow> (m, EvNone)
   | Some e \<Rightarrow> (m(i := None), if response_matches e r
       then EvMatched i \<lparr>rm_slot_id = re_slot_id e, rm_generation = re_generation e,
              rm_working_counter = rr_working_counter r\<rparr>
       else EvNone))"
| "pending_step m (RxExpire now) =
     (let late = (\<lambda>e. re_deadline_ns e < now)
      in (drop_pending late m, EvExpired (filter (\<lambda>i. case m i of None \<Rightarrow> False | Some e \<Rightarrow> late e) all_indices)))"
| "pending_step m (RxCancelSlot s) = (drop_pending (\<lambda>e. re_slot_id e = s) m, EvNone)"
| "pending_step m (RxCancelOwned i s g) = (case m i of
     None \<Rightarrow> (m, EvNone)
   | Some e \<Rightarrow> (if re_slot_id e = s \<and> re_generation e = g then m(i := None) else m, EvNone))"
| "pending_step m RxResetComplete = (m, EvNone)"

definition outstanding :: "rx_index_table \<Rightarrow> pending_map" where
  "outstanding t i = (if re_state (t ! unat i) = RxArmed then Some (t ! unat i) else None)"

lemma unat_u8_less: "unat (i :: u8) < 256"
  using unat_less [of i] by simp

lemma nth_update_u8:
  "length t = 256 \<Longrightarrow> t[unat (i :: u8) := e] ! unat j = (if j = i then e else t ! unat j)"
  using unat_u8_less [of i] by (auto simp: nth_list_update word_unat_eq_iff)

lemma outstanding_update:
  assumes "length t = 256"
  shows "outstanding (t[unat (i :: u8) := e]) =
    (outstanding t)(i := if re_state e = RxArmed then Some e else None)"
  using assms by (auto simp: outstanding_def fun_eq_iff nth_update_u8)

lemma outstanding_map:
  assumes "length t = 256" and "\<And>e. re_state (f e) = RxArmed \<Longrightarrow> f e = e"
    and "\<And>e. re_state e = RxArmed \<Longrightarrow> re_state (f e) = RxArmed \<longleftrightarrow> \<not> P e"
    and "\<And>e. re_state e \<noteq> RxArmed \<Longrightarrow> re_state (f e) \<noteq> RxArmed"
  shows "outstanding (map f t) = drop_pending P (outstanding t)"
proof
  fix i :: u8
  have "map f t ! unat i = f (t ! unat i)" using assms(1) unat_u8_less [of i] by simp
  then show "outstanding (map f t) i = drop_pending P (outstanding t) i"
    using assms(2-4) [of "t ! unat i"] by (auto simp: outstanding_def drop_pending_def)
qed

lemma rx_cancel_slot_map:
  "rx_cancel_slot t s = (map (\<lambda>e. if re_state e \<noteq> RxEmpty \<and> re_slot_id e = s then rx_index_entry_empty else e) t,
     length (filter (\<lambda>e. re_state e \<noteq> RxEmpty \<and> re_slot_id e = s) t))"
  by (induction t s rule: rx_cancel_slot.induct) auto

lemma rx_expire_armed_exact:
  assumes "length t = 256" "rx_expire_armed t now = (t', x)"
  shows "t' = map (\<lambda>e. if rx_expired now e then e\<lparr>re_state := RxRejected\<rparr> else e) t \<and>
    rx_expiry_collect (rx_expiry_iter x) = filter (\<lambda>i. rx_expired now (rx_entry t i)) all_indices \<and>
    unat (ex_count x) = length (filter (\<lambda>i. rx_expired now (rx_entry t i)) all_indices)"
proof -
  have e: "length (ex_words rx_expiry_empty) = 4" "unat (ex_count rx_expiry_empty) \<le> 0"
    "\<And>n. n < 256 \<Longrightarrow> \<not> expiry_marked rx_expiry_empty n"
    by (auto simp: rx_expiry_empty_def expiry_marked_def)
  note ex = rx_expire_from_exact [OF assms(2) [unfolded rx_expire_armed_def] _ e(1,2)]
  have t: "rx_entry t (of_nat n) = t ! n" if "n < 256" for n
    using that by (simp add: rx_entry_def unat_of_nat)
  have "filter (expiry_marked x) [0..<256] = filter (\<lambda>n. rx_expired now (rx_entry t (of_nat n))) [0..<256]"
    using ex assms(1) e(3) t by (intro filter_cong) auto
  then have all: "map of_nat (filter (expiry_marked x) [0..<256]) =
      filter (\<lambda>i. rx_expired now (rx_entry t i)) all_indices"
    by (simp add: all_indices_def filter_map o_def)
  have "length (filter (\<lambda>i. rx_expired now (rx_entry t i)) all_indices) =
      length (filter (\<lambda>n. rx_expired now (t ! n)) [0..<256])"
    unfolding all_indices_def filter_map o_def length_map
    using t by (intro arg_cong [where f = length] filter_cong) auto
  also have "\<dots> = length (filter (rx_expired now) t)"
    using filter_map [of "rx_expired now" "(!) t" "[0..<256]"] map_nth [of t] assms(1) by (simp add: o_def)
  finally show ?thesis
    using ex assms(1) all rx_expiry_collect_marked [of x] by (simp add: rx_expiry_empty_def)
qed

lemma rx_validate_outstanding:
  assumes "length t = 256"
  shows "case rx_validate_and_complete t i r of (t', res) \<Rightarrow>
    length t' = 256 \<and> outstanding t' = (outstanding t)(i := None) \<and>
    (case outstanding t i of
       None \<Rightarrow> \<not> is_ok res
     | Some e \<Rightarrow> if response_matches e r
         then res = Ok \<lparr>rm_slot_id = re_slot_id e, rm_generation = re_generation e,
              rm_working_counter = rr_working_counter r\<rparr>
         else \<not> is_ok res)"
proof (cases "re_state (t ! unat i) = RxArmed")
  case False
  then show ?thesis
    using assms by (auto simp: rx_validate_and_complete_def Let_def outstanding_def fun_eq_iff)
next
  case True
  let ?e = "t ! unat i"
  have out: "outstanding t i = Some ?e" using True by (simp add: outstanding_def)
  have rej: "outstanding (rx_reject t i) = (outstanding t)(i := None)" "length (rx_reject t i) = 256"
    using assms by (simp_all add: rx_reject_def outstanding_update)
  have comp: "outstanding (t[unat i := ?e\<lparr>re_state := RxComplete\<rparr>]) = (outstanding t)(i := None)"
    using assms by (simp add: outstanding_update)
  show ?thesis
  proof (cases "response_matches ?e r")
    case match: True
    then have "rx_validate_and_complete t i r = (t[unat i := ?e\<lparr>re_state := RxComplete\<rparr>],
        Ok \<lparr>rm_slot_id = re_slot_id ?e, rm_generation = re_generation ?e,
              rm_working_counter = rr_working_counter r\<rparr>)"
      using True by (simp add: rx_validate_and_complete_def Let_def response_matches_def not_less)
    then show ?thesis using match out comp assms by simp
  next
    case False
    then have "\<exists>e. rx_validate_and_complete t i r = (rx_reject t i, Err e)"
      using True by (auto simp: rx_validate_and_complete_def Let_def response_matches_def not_less)
    then show ?thesis using False out rej by auto
  qed
qed

lemma rx_arm_outstanding:
  assumes "length t = 256"
  shows "case rx_arm_with_policies t i s x wp ap of (t', res) \<Rightarrow> length t' = 256 \<and>
    (if outstanding t i = None \<and> rp_deadline_ns x \<noteq> 0
     then outstanding t' = (outstanding t)(i \<mapsto> promise s x wp ap) \<and> res = Ok ()
     else t' = t \<and> \<not> is_ok res)"
  using assms outstanding_update [OF assms, of i "promise s x wp ap"]
  by (simp add: rx_arm_with_policies_def promise_def) (simp add: outstanding_def)

lemma rx_step_refines:
  assumes "length t = 256" "rx_step t op = (t', ev)"
  shows "length t' = 256 \<and> pending_step (outstanding t) op = (outstanding t', ev)"
proof (cases op)
  case (RxArm i s x wp ap)
  then show ?thesis
    using assms rx_arm_outstanding [OF assms(1), where i = i and s = s and x = x and wp = wp and ap = ap] by (auto split: prod.splits if_splits)
next
  case (RxReceive i r)
  then show ?thesis
    using assms rx_validate_outstanding [OF assms(1), of i r]
    by (auto split: prod.splits sum.splits option.splits if_splits simp: is_ok_def fun_upd_idem)
next
  case (RxExpire now)
  obtain t1 x where ex: "rx_expire_armed t now = (t1, x)" by fastforce
  note exact = rx_expire_armed_exact [OF assms(1) ex]
  have "outstanding t1 = drop_pending (\<lambda>e. re_deadline_ns e < now) (outstanding t)"
    unfolding conjunct1 [OF exact] using assms(1)
    by (intro outstanding_map) (auto simp: rx_expired_def split: if_splits)
  moreover have "(\<lambda>i. rx_expired now (rx_entry t i)) =
      (\<lambda>i. case outstanding t i of None \<Rightarrow> False | Some e \<Rightarrow> re_deadline_ns e < now)"
    by (auto simp: fun_eq_iff outstanding_def rx_expired_def rx_entry_def)
  ultimately show ?thesis using assms RxExpire ex exact by auto
next
  case (RxCancelSlot s)
  have "outstanding (fst (rx_cancel_slot t s)) = drop_pending (\<lambda>e. re_slot_id e = s) (outstanding t)"
    unfolding rx_cancel_slot_map fst_conv using assms(1)
    by (intro outstanding_map) (auto simp: rx_index_entry_empty_def split: if_splits)
  then show ?thesis using RxCancelSlot assms by (auto simp: rx_cancel_slot_map)
next
  case (RxCancelOwned i s g)
  then show ?thesis
    using assms by (auto simp: rx_cancel_owned_def Let_def outstanding_update split: if_splits option.splits)
      (auto simp: outstanding_def split: if_splits)
next
  case RxResetComplete
  have "outstanding (rx_reset_complete t) = drop_pending (\<lambda>e. False) (outstanding t)"
    unfolding rx_reset_complete_def using assms(1)
    by (intro outstanding_map) (auto split: if_splits)
  then show ?thesis
    using RxResetComplete assms
    by (auto simp: rx_reset_complete_def drop_pending_def fun_eq_iff split: option.splits)
qed

interpretation pending: traced_refinement rx_step pending_step outstanding "\<lambda>t. length t = 256"
  by unfold_locales (rule rx_step_refines)

lemma outstanding_new: "outstanding rx_index_new = Map.empty" "length rx_index_new = 256"
  using unat_u8_less by (auto simp: outstanding_def rx_index_new_def rx_index_entry_empty_def fun_eq_iff)

text \<open>How often an index was armed and matched.\<close>

fun is_armed_event :: "u8 \<Rightarrow> rx_event \<Rightarrow> bool" where
  "is_armed_event i (EvArmed j) = (i = j)" | "is_armed_event i _ = False"

fun is_matched_event :: "u8 \<Rightarrow> rx_event \<Rightarrow> bool" where
  "is_matched_event i (EvMatched j m) = (i = j)" | "is_matched_event i _ = False"

definition arms :: "u8 \<Rightarrow> rx_event list \<Rightarrow> nat" where
  "arms i evs = length (filter (is_armed_event i) evs)"

definition matches :: "u8 \<Rightarrow> rx_event list \<Rightarrow> nat" where
  "matches i evs = length (filter (is_matched_event i) evs)"

definition waiting :: "pending_map \<Rightarrow> u8 \<Rightarrow> nat" where
  "waiting m i = (if m i = None then 0 else 1)"

lemma pending_step_balance:
  assumes "pending_step m op = (m', ev)"
  shows "matches i [ev] + waiting m' i \<le> arms i [ev] + waiting m i"
  using assms by (cases op) (auto simp: matches_def arms_def waiting_def drop_pending_def Let_def
      split: if_splits option.splits)

lemma pending_run_balance:
  "traced pending_step m ops = (m', evs) \<Longrightarrow> matches i evs + waiting m' i \<le> arms i evs + waiting m i"
proof (induction ops arbitrary: m evs)
  case (Cons op ops)
  obtain m1 e es where s: "pending_step m op = (m1, e)" "traced pending_step m1 ops = (m', es)" "evs = e # es"
    using Cons.prems by (auto split: prod.splits)
  have "matches i evs = matches i [e] + matches i es" "arms i evs = arms i [e] + arms i es"
    by (simp_all add: s(3) matches_def arms_def)
  with pending_step_balance [OF s(1), of i] Cons.IH [OF s(2)] show ?case by linarith
qed (simp add: matches_def arms_def)

section \<open>Properties\<close>

text \<open>C23. The receive index is a map from datagram indices to the expectations that wait for
  their response: for any sequence of operations on a new table, the answers of the table are
  those of the map, where arming succeeds exactly for an index that waits for nothing and a
  non-zero deadline, a response is matched exactly if its index waits and it meets every
  expectation (in time, same generation, address, size and command, acceptable working counter),
  and any response, good or bad, ends the waiting. Hence no index is matched more often than it
  was armed: a duplicated or late response is never delivered.\<close>

theorem rx_index_refines_pending_map:
  assumes "traced rx_step rx_index_new ops = (t, evs)"
  shows "traced pending_step Map.empty ops = (outstanding t, evs) \<and> matches i evs \<le> arms i evs"
proof -
  have "traced pending_step Map.empty ops = (outstanding t, evs)"
    using pending.run_refines [OF outstanding_new(2) assms] by (simp add: outstanding_new(1))
  with pending_run_balance [OF this, of i] show ?thesis by (simp add: waiting_def)
qed

definition sample_expectation :: rx_expectation where
  "sample_expectation = \<lparr>rp_generation = 3, rp_deadline_ns = 100, rp_expected_address = 0x1000,
     rp_expected_size = 4, rp_expected_type = 0x0C, rp_expected_wkc = 3\<rparr>"

definition sample_response :: rx_response where
  "sample_response = \<lparr>rr_generation = 3, rr_address = 0x1000, rr_payload_size = 4, rr_command = 0x0C,
     rr_working_counter = 3, rr_received_at_ns = 90\<rparr>"

theorem rx_index_refines_pending_map_witness:
  "snd (traced rx_step rx_index_new [RxArm 5 1 sample_expectation WkcExact AddrExact,
      RxReceive 5 sample_response, RxReceive 5 sample_response]) =
    [EvArmed 5, EvMatched 5 \<lparr>rm_slot_id = 1, rm_generation = 3, rm_working_counter = 3\<rparr>, EvNone]"
proof -
  obtain t evs where run: "traced rx_step rx_index_new [RxArm 5 1 sample_expectation WkcExact AddrExact,
      RxReceive 5 sample_response, RxReceive 5 sample_response] = (t, evs)" by fastforce
  from rx_index_refines_pending_map [OF run] show ?thesis
    unfolding run by (auto simp: sample_expectation_def sample_response_def promise_def
        response_matches_def word_le_nat_alt)
qed

text \<open>A sweep reports exactly the late indices: iterating over the result of \<open>expire_armed\<close>
  ends and yields, in ascending order and once each, the indices that were armed with a
  deadline before \<open>now\<close>; \<open>count\<close> is their number; their entries become rejected and nothing else
  in the table changes.\<close>

theorem expiry_sweep_exact:
  assumes "length t = 256" and "rx_expire_armed t now = (t', x)"
  shows "rx_expiry_collect (rx_expiry_iter x) =
      filter (\<lambda>i. re_state (rx_entry t i) = RxArmed \<and> re_deadline_ns (rx_entry t i) < now) (map of_nat [0..<256]) \<and>
    unat (ex_count x) = length (rx_expiry_collect (rx_expiry_iter x)) \<and>
    length t' = 256 \<and>
    rx_entry t' i = (if re_state (rx_entry t i) = RxArmed \<and> re_deadline_ns (rx_entry t i) < now
      then (rx_entry t i)\<lparr>re_state := RxRejected\<rparr> else rx_entry t i)"
  using rx_expire_armed_exact [OF assms] assms(1) unat_u8_less [of i]
  by (simp add: rx_entry_def rx_expired_def all_indices_def)

definition sample_table :: rx_index_table where
  "sample_table = rx_index_new[7 := promise 1 sample_expectation WkcExact AddrExact]"

theorem expiry_sweep_exact_witness:
  "case rx_expire_armed sample_table 101 of
     (t', x) \<Rightarrow> unat (ex_count x) = length (rx_expiry_collect (rx_expiry_iter x)) \<and>
       re_state (rx_entry t' 7) = RxRejected"
proof -
  obtain t' x where run: "rx_expire_armed sample_table 101 = (t', x)" by fastforce
  have t: "length sample_table = 256" "re_state (rx_entry sample_table 7) = RxArmed"
    "re_deadline_ns (rx_entry sample_table 7) = 100"
    by (simp_all add: sample_table_def rx_index_new_def rx_entry_def promise_def sample_expectation_def)
  from expiry_sweep_exact [OF t(1) run, of 7] show ?thesis by (simp add: run t)
qed

end
