(* ===== verification/Domain_Image.thy ===== *)
theory Domain_Image
  imports Wire Rx_Index
begin

text \<open>
  A domain of process data (\<open>domain.rs\<close>): the received datagrams of one cycle are staged in one of
  two pages, and only a complete and error-free reception replaces the committed input image.
  \<open>BYTES\<close> and \<open>SEGMENTS\<close> are the const generics.
\<close>

record rx_wkc_mismatch =
  wm_slot_id :: u16
  wm_generation :: u16
  wm_expected_wkc :: u16
  wm_actual_wkc :: u16

record domain_segment =
  dseg_datagram_index :: u8
  dseg_input_offset :: nat
  dseg_len :: nat
  dseg_expected_wkc :: u16

definition domain_segment_empty :: domain_segment where
  "domain_segment_empty = \<lparr>dseg_datagram_index = 0, dseg_input_offset = 0, dseg_len = 0, dseg_expected_wkc = 0\<rparr>"

record domain_quality =
  dq_expected_wkc :: u16
  dq_actual_wkc :: u16
  dq_consecutive_wkc_mismatches :: u16
  dq_valid :: bool
  dq_complete :: bool
  dq_last_valid_cycle :: u64
  dq_input_age_cycles :: u64

definition domain_quality_empty :: domain_quality where
  "domain_quality_empty = \<lparr>dq_expected_wkc = 0, dq_actual_wkc = 0, dq_consecutive_wkc_mismatches = 0,
     dq_valid = False, dq_complete = False, dq_last_valid_cycle = 0, dq_input_age_cycles = 0\<rparr>"

datatype domain_error = DoTooManySegments | DoEmptyDomain | DoDuplicateDatagramIndex
  | DoSegmentOutOfBounds | DoExpectedWkcOverflow | DoNoActiveReceive | DoGenerationMismatch
  | DoUnknownDatagramIndex | DoDuplicateDatagram | DoPayloadLengthMismatch

record domain_image =
  do_logical_address :: u32
  do_segments :: "domain_segment list"
  do_segment_count :: nat
  do_expected_wkc :: u16
  do_output :: bytes
  do_staging :: "bytes list"
  do_committed :: bytes
  do_active_generation :: "u16 option"
  do_active_page :: nat
  do_received_mask :: u64
  do_staging_error :: bool
  do_actual_wkc :: u16
  do_wkc_mismatch_seen :: bool
  do_quality :: domain_quality

definition domain_new :: "nat \<Rightarrow> nat \<Rightarrow> u32 \<Rightarrow> domain_image" where
  "domain_new BYTES SEGMENTS logical_address =
     \<lparr>do_logical_address = logical_address, do_segments = replicate SEGMENTS domain_segment_empty,
      do_segment_count = 0, do_expected_wkc = 0, do_output = replicate BYTES 0,
      do_staging = replicate 2 (replicate BYTES 0), do_committed = replicate BYTES 0,
      do_active_generation = None, do_active_page = 0, do_received_mask = 0,
      do_staging_error = False, do_actual_wkc = 0, do_wkc_mismatch_seen = False,
      do_quality = domain_quality_empty\<rparr>"

definition domain_segments :: "domain_image \<Rightarrow> domain_segment list" where
  "domain_segments d = take (do_segment_count d) (do_segments d)"

definition domain_add_segment ::
  "nat \<Rightarrow> nat \<Rightarrow> domain_image \<Rightarrow> domain_segment \<Rightarrow> domain_image \<times> (domain_error, unit) result" where
  "domain_add_segment BYTES SEGMENTS d s =
     (if SEGMENTS = 0 \<or> 64 < SEGMENTS \<or> SEGMENTS \<le> do_segment_count d then (d, Err DoTooManySegments)
      else if \<exists>x\<in>set (domain_segments d). dseg_datagram_index x = dseg_datagram_index s
        then (d, Err DoDuplicateDatagramIndex)
      else case usize_checked_add (dseg_input_offset s) (dseg_len s) of
        None \<Rightarrow> (d, Err DoSegmentOutOfBounds)
      | Some stop \<Rightarrow>
          if BYTES < stop then (d, Err DoSegmentOutOfBounds)
          else case checked_add (do_expected_wkc d) (dseg_expected_wkc s) of
            None \<Rightarrow> (d, Err DoExpectedWkcOverflow)
          | Some w \<Rightarrow>
              (d\<lparr>do_expected_wkc := w, do_segments := (do_segments d)[do_segment_count d := s],
                 do_segment_count := do_segment_count d + 1,
                 do_quality := (do_quality d)\<lparr>dq_expected_wkc := w\<rparr>\<rparr>, Ok ()))"

definition domain_begin_receive :: "domain_image \<Rightarrow> u16 \<Rightarrow> domain_image \<times> (domain_error, unit) result" where
  "domain_begin_receive d generation =
     (if do_segment_count d = 0 then (d, Err DoEmptyDomain)
      else
        let page = unat (generation AND 1)
        in (d\<lparr>do_active_page := page, do_staging := (do_staging d)[page := do_committed d],
              do_active_generation := Some generation, do_received_mask := 0,
              do_staging_error := False, do_actual_wkc := 0, do_wkc_mismatch_seen := False,
              do_quality := (do_quality d)\<lparr>dq_complete := False, dq_actual_wkc := 0\<rparr>\<rparr>, Ok ()))"

text \<open>\<open>u32::try_from(offset).ok().and_then(|o| logical_address.checked_add(o))\<close>.\<close>

definition segment_address :: "domain_image \<Rightarrow> domain_segment \<Rightarrow> u32 option" where
  "segment_address d s =
     (if dseg_input_offset s < 2 ^ 32 then checked_add (do_logical_address d) (of_nat (dseg_input_offset s))
      else None)"

definition domain_record_mismatch ::
  "domain_image \<Rightarrow> rx_wkc_mismatch \<Rightarrow> datagram_header \<Rightarrow> domain_image \<times> bool" where
  "domain_record_mismatch d m h =
     (if do_active_generation d \<noteq> Some (wm_generation m) then (d, False)
      else case position (\<lambda>s. dseg_datagram_index s = dh_index h \<and> dseg_expected_wkc s = wm_expected_wkc m \<and>
               dseg_len s = unat (dh_length h) \<and> segment_address d s = Some (dh_address h) \<and>
               (dh_command h = Lrd \<or> dh_command h = Lrw)) (domain_segments d) of
        None \<Rightarrow> (d, False)
      | Some i \<Rightarrow>
          if do_received_mask d AND push_bit i 1 \<noteq> 0 then (d, False)
          else (d\<lparr>do_received_mask := do_received_mask d OR push_bit i 1,
                  do_actual_wkc := sat_add (do_actual_wkc d) (wm_actual_wkc m),
                  do_wkc_mismatch_seen := True\<rparr>, True))"

definition domain_stage ::
  "domain_image \<Rightarrow> u16 \<Rightarrow> datagram_header \<Rightarrow> bytes \<Rightarrow> u16 \<Rightarrow> domain_image \<times> (domain_error, unit) result" where
  "domain_stage d generation h payload wkc =
     (if do_active_generation d \<noteq> Some generation then (d, Err DoGenerationMismatch)
      else case position (\<lambda>s. dseg_datagram_index s = dh_index h) (domain_segments d) of
        None \<Rightarrow> (d, Err DoUnknownDatagramIndex)
      | Some i \<Rightarrow>
          if do_received_mask d AND push_bit i 1 \<noteq> 0
          then (d\<lparr>do_staging_error := True\<rparr>, Err DoDuplicateDatagram)
          else
            let s = do_segments d ! i
            in if length payload \<noteq> dseg_len s
               then (d\<lparr>do_staging_error := True\<rparr>, Err DoPayloadLengthMismatch)
               else (d\<lparr>do_staging := (do_staging d)[do_active_page d :=
                          copy_at (do_staging d ! do_active_page d) (dseg_input_offset s) payload],
                       do_received_mask := do_received_mask d OR push_bit i 1,
                       do_actual_wkc := sat_add (do_actual_wkc d) wkc\<rparr>, Ok ()))"

definition expected_mask :: "nat \<Rightarrow> u64" where
  "expected_mask n = (if n = 64 then - 1 else push_bit n 1 - 1)"

definition domain_finish_receive ::
  "domain_image \<Rightarrow> u16 \<Rightarrow> u64 \<Rightarrow> domain_image \<times> (domain_error, bool) result" where
  "domain_finish_receive d generation now =
     (if do_active_generation d \<noteq> Some generation then (d, Err DoNoActiveReceive)
      else
        let complete = (\<not> do_staging_error d \<and> \<not> do_wkc_mismatch_seen d \<and>
              do_received_mask d = expected_mask (do_segment_count d) \<and>
              do_actual_wkc d = do_expected_wkc d);
            q = (do_quality d)\<lparr>dq_actual_wkc := do_actual_wkc d, dq_complete := complete,
                  dq_consecutive_wkc_mismatches :=
                    (if do_wkc_mismatch_seen d
                     then sat_add (dq_consecutive_wkc_mismatches (do_quality d)) 1 else 0)\<rparr>;
            d1 = d\<lparr>do_active_generation := None\<rparr>
        in if complete
           then (d1\<lparr>do_committed := do_staging d ! do_active_page d,
                    do_quality := q\<lparr>dq_valid := True, dq_last_valid_cycle := now, dq_input_age_cycles := 0\<rparr>\<rparr>,
                 Ok True)
           else (d1\<lparr>do_quality := q\<lparr>dq_valid := False,
                      dq_input_age_cycles := sat_add (dq_input_age_cycles q) 1\<rparr>\<rparr>, Ok False))"

text \<open>The two callbacks of \<open>RxDatagramConsumer\<close>.\<close>

definition domain_observe_mismatch :: "domain_image \<Rightarrow> rx_wkc_mismatch \<Rightarrow> datagram_header \<Rightarrow> domain_image" where
  "domain_observe_mismatch d m h = fst (domain_record_mismatch d m h)"

definition domain_accept ::
  "domain_image \<Rightarrow> rx_match \<Rightarrow> datagram_header \<Rightarrow> bytes \<Rightarrow> domain_image \<times> bool" where
  "domain_accept d c h payload =
     (case domain_stage d (rm_generation c) h payload (rm_working_counter c) of (d', r) \<Rightarrow> (d', is_ok r))"

section \<open>The invariant\<close>

definition segment_indices :: "domain_image \<Rightarrow> u8 list" where
  "segment_indices d = map dseg_datagram_index (domain_segments d)"

definition domain_inv :: "nat \<Rightarrow> nat \<Rightarrow> domain_image \<Rightarrow> bool" where
  "domain_inv BYTES SEGMENTS d \<longleftrightarrow> SEGMENTS \<le> 64 \<and> length (do_segments d) = SEGMENTS \<and>
     do_segment_count d \<le> SEGMENTS \<and> distinct (segment_indices d) \<and>
     (\<forall>s\<in>set (domain_segments d). dseg_input_offset s + dseg_len s \<le> BYTES) \<and>
     length (do_committed d) = BYTES \<and> length (do_staging d) = 2 \<and>
     (\<forall>p\<in>set (do_staging d). length p = BYTES) \<and> do_active_page d < 2 \<and>
     unat (do_expected_wkc d) = sum_list (map (unat \<circ> dseg_expected_wkc) (domain_segments d))"

lemma domain_new_inv: "SEGMENTS \<le> 64 \<Longrightarrow> domain_inv BYTES SEGMENTS (domain_new BYTES SEGMENTS a)"
  by (auto simp: domain_inv_def domain_new_def domain_segments_def segment_indices_def)

lemma domain_add_segment_inv:
  assumes "domain_inv BYTES SEGMENTS d" "domain_add_segment BYTES SEGMENTS d s = (d', r)"
  shows "domain_inv BYTES SEGMENTS d' \<and>
    (if is_ok r then domain_segments d' = domain_segments d @ [s] else d' = d)"
proof (cases "is_ok r")
  case False
  then show ?thesis
    using assms by (auto simp: domain_add_segment_def split: if_splits option.splits)
next
  case True
  have c: "do_segment_count d < SEGMENTS" "dseg_datagram_index s \<notin> set (segment_indices d)"
    and b: "dseg_input_offset s + dseg_len s \<le> BYTES"
    and w: "unat (do_expected_wkc d') = unat (do_expected_wkc d) + unat (dseg_expected_wkc s)"
    and d': "do_segments d' = (do_segments d)[do_segment_count d := s]"
      "do_segment_count d' = do_segment_count d + 1" "do_committed d' = do_committed d"
      "do_staging d' = do_staging d" "do_active_page d' = do_active_page d"
    using assms(2) True
    by (auto simp: domain_add_segment_def segment_indices_def usize_checked_add_def
        split: if_splits option.splits dest: checked_add_unat)
  have "domain_segments d' = domain_segments d @ [s]"
    using c(1) assms(1) by (simp add: domain_segments_def d' domain_inv_def)
  with True show ?thesis
    using assms(1) c b w by (auto simp: domain_inv_def d' segment_indices_def)
qed

lemma domain_begin_inv:
  assumes "domain_inv BYTES SEGMENTS d" "domain_begin_receive d g = (d', r)"
  shows "domain_inv BYTES SEGMENTS d'"
proof -
  have "unat (g AND 1) < 2" by (simp add: and_one_eq unat_mod)
  with assms show ?thesis
    by (auto simp: domain_begin_receive_def Let_def domain_inv_def domain_segments_def segment_indices_def
        split: if_splits dest!: set_update_subset_insert [THEN subsetD])
qed

section \<open>One reception\<close>

datatype domain_op = DoStage u16 datagram_header bytes u16 | DoMismatch rx_wkc_mismatch datagram_header

datatype domain_event = EvStaged u8 bytes u16 | EvPoisoned | EvMismatch u8 u16 | EvIgnored

fun domain_step :: "domain_image \<Rightarrow> domain_op \<Rightarrow> domain_image \<times> domain_event" where
  "domain_step d (DoStage g h p w) =
     (case domain_stage d g h p w of
        (d', Inr _) \<Rightarrow> (d', EvStaged (dh_index h) p w)
      | (d', Inl e) \<Rightarrow> (d', if e = DoDuplicateDatagram \<or> e = DoPayloadLengthMismatch then EvPoisoned else EvIgnored))"
| "domain_step d (DoMismatch m h) =
     (case domain_record_mismatch d m h of
        (d', ok) \<Rightarrow> (d', if ok then EvMismatch (dh_index h) (wm_actual_wkc m) else EvIgnored))"

text \<open>Marking segment \<open>i\<close> as received.\<close>

definition mark_received :: "nat \<Rightarrow> u16 \<Rightarrow> domain_image \<Rightarrow> domain_image" where
  "mark_received i w d = d\<lparr>do_received_mask := do_received_mask d OR push_bit i 1,
     do_actual_wkc := sat_add (do_actual_wkc d) w\<rparr>"

definition fresh_segment :: "domain_image \<Rightarrow> u8 \<Rightarrow> nat \<Rightarrow> bool" where
  "fresh_segment d j i \<longleftrightarrow> i < do_segment_count d \<and> segment_indices d ! i = j \<and> \<not> bit (do_received_mask d) i"

lemma position_segment:
  assumes "domain_inv BYTES SEGMENTS d" "position P (domain_segments d) = Some i"
  shows "i < do_segment_count d \<and> P (do_segments d ! i) \<and>
    segment_indices d ! i = dseg_datagram_index (do_segments d ! i)"
  using position_Some [OF assms(2)] assms(1)
  by (auto simp: domain_segments_def segment_indices_def domain_inv_def)

lemma domain_step_cases:
  assumes "domain_inv BYTES SEGMENTS d" "domain_step d op = (d', ev)"
  shows "case ev of
      EvStaged j p w \<Rightarrow> \<exists>i. fresh_segment d j i \<and> length p = dseg_len (do_segments d ! i) \<and>
        d' = (mark_received i w d)\<lparr>do_staging := (do_staging d)[do_active_page d :=
          copy_at (do_staging d ! do_active_page d) (dseg_input_offset (do_segments d ! i)) p]\<rparr>
    | EvPoisoned \<Rightarrow> d' = d\<lparr>do_staging_error := True\<rparr>
    | EvMismatch j w \<Rightarrow> \<exists>i. fresh_segment d j i \<and> d' = (mark_received i w d)\<lparr>do_wkc_mismatch_seen := True\<rparr>
    | EvIgnored \<Rightarrow> d' = d"
proof (cases op)
  case (DoStage g h p w)
  show ?thesis
  proof (cases "position (\<lambda>s. dseg_datagram_index s = dh_index h) (domain_segments d)")
    case None
    then show ?thesis using assms(2) DoStage by (auto simp: domain_stage_def split: if_splits)
  next
    case (Some i)
    from position_segment [OF assms(1) Some] show ?thesis
      using assms(2) DoStage Some
      by (auto simp: domain_stage_def Let_def fresh_segment_def mark_received_def and_exp_eq_0_iff_not_bit
          intro!: exI [of _ i] split: if_splits)
  qed
next
  case (DoMismatch m h)
  let ?P = "\<lambda>s. dseg_datagram_index s = dh_index h \<and> dseg_expected_wkc s = wm_expected_wkc m \<and>
    dseg_len s = unat (dh_length h) \<and> segment_address d s = Some (dh_address h) \<and>
    (dh_command h = Lrd \<or> dh_command h = Lrw)"
  show ?thesis
  proof (cases "position ?P (domain_segments d)")
    case None
    then show ?thesis using assms(2) DoMismatch by (auto simp: domain_record_mismatch_def split: if_splits)
  next
    case (Some i)
    from position_segment [OF assms(1) Some] show ?thesis
      using assms(2) DoMismatch Some
      by (auto simp: domain_record_mismatch_def fresh_segment_def mark_received_def and_exp_eq_0_iff_not_bit
          intro!: exI [of _ i] split: if_splits)
  qed
qed

lemma domain_step_inv:
  assumes "domain_inv BYTES SEGMENTS d" "domain_step d op = (d', ev)"
  shows "domain_inv BYTES SEGMENTS d' \<and> domain_segments d' = domain_segments d \<and>
    do_segments d' = do_segments d \<and> do_segment_count d' = do_segment_count d \<and>
    do_committed d' = do_committed d \<and> do_active_page d' = do_active_page d \<and>
    do_active_generation d' = do_active_generation d \<and> do_expected_wkc d' = do_expected_wkc d \<and>
    do_quality d' = do_quality d"
proof -
  have seg: "dseg_input_offset (do_segments d ! i) + dseg_len (do_segments d ! i) \<le> BYTES"
    if "i < do_segment_count d" for i
  proof -
    have "do_segments d ! i \<in> set (domain_segments d)"
      using that assms(1) by (auto simp: domain_segments_def domain_inv_def in_set_conv_nth)
    then show ?thesis using assms(1) by (simp add: domain_inv_def)
  qed
  have page: "length (do_staging d ! do_active_page d) = BYTES"
    using assms(1) by (simp add: domain_inv_def)
  show ?thesis
    using domain_step_cases [OF assms] assms(1) seg page
    by (auto simp: domain_inv_def domain_segments_def segment_indices_def mark_received_def fresh_segment_def
        split: domain_event.splits dest!: set_update_subset_insert [THEN subsetD])
qed

text \<open>What the events of a reception say: the staged datagrams, and all datagrams that were counted.\<close>

fun staged :: "domain_event list \<Rightarrow> (u8 \<times> bytes) list" where
  "staged [] = []"
| "staged (EvStaged j p w # es) = (j, p) # staged es"
| "staged (_ # es) = staged es"

fun counted :: "domain_event list \<Rightarrow> (u8 \<times> u16) list" where
  "counted [] = []"
| "counted (EvStaged j p w # es) = (j, w) # counted es"
| "counted (EvMismatch j w # es) = (j, w) # counted es"
| "counted (_ # es) = counted es"

definition mismatch_in :: "domain_event list \<Rightarrow> bool" where
  "mismatch_in es \<longleftrightarrow> (\<exists>e\<in>set es. case e of EvMismatch _ _ \<Rightarrow> True | _ \<Rightarrow> False)"

lemma staged_append [simp]: "staged (xs @ ys) = staged xs @ staged ys"
  by (induction xs rule: staged.induct) auto

lemma counted_append [simp]: "counted (xs @ ys) = counted xs @ counted ys"
  by (induction xs rule: counted.induct) auto

lemma mismatch_in_append [simp]: "mismatch_in (xs @ ys) \<longleftrightarrow> mismatch_in xs \<or> mismatch_in ys"
  by (auto simp: mismatch_in_def)

lemma staged_counted: "\<not> mismatch_in es \<Longrightarrow> map fst (staged es) = map fst (counted es)"
  by (induction es rule: staged.induct) (auto simp: mismatch_in_def)

text \<open>The input image after the staged datagrams were copied into it, each at the offset of the
  segment with its index.\<close>

definition segment_with :: "domain_image \<Rightarrow> u8 \<Rightarrow> domain_segment" where
  "segment_with d j = (case position (\<lambda>s. dseg_datagram_index s = j) (domain_segments d) of
     Some i \<Rightarrow> domain_segments d ! i | None \<Rightarrow> domain_segment_empty)"

definition apply_staged :: "domain_image \<Rightarrow> bytes \<Rightarrow> (u8 \<times> bytes) list \<Rightarrow> bytes" where
  "apply_staged d img xs = foldl (\<lambda>img (j, p). copy_at img (dseg_input_offset (segment_with d j)) p) img xs"

text \<open>The mask and the working counter reflect the datagrams counted so far.\<close>

definition counted_ok :: "u8 list \<Rightarrow> u64 \<Rightarrow> u16 \<Rightarrow> domain_event list \<Rightarrow> bool" where
  "counted_ok idx m w es \<longleftrightarrow>
     (\<forall>i<length idx. bit m i \<longleftrightarrow> idx ! i \<in> fst ` set (counted es)) \<and>
     (\<forall>i. bit m i \<longrightarrow> i < length idx) \<and>
     fst ` set (counted es) \<subseteq> set idx \<and> distinct (map fst (counted es)) \<and>
     unat w = min (sum_list (map (unat \<circ> snd) (counted es))) 65535"

definition reception :: "domain_image \<Rightarrow> domain_event list \<Rightarrow> bool" where
  "reception d es \<longleftrightarrow>
     do_staging d ! do_active_page d = apply_staged d (do_committed d) (staged es) \<and>
     counted_ok (segment_indices d) (do_received_mask d) (do_actual_wkc d) es \<and>
     (do_staging_error d \<longleftrightarrow> EvPoisoned \<in> set es) \<and>
     (do_wkc_mismatch_seen d \<longleftrightarrow> mismatch_in es)"

lemma reception_begin:
  assumes "domain_inv BYTES SEGMENTS d" "domain_begin_receive d g = (d', Inr u)"
  shows "reception d' [] \<and> do_active_generation d' = Some g \<and> do_committed d' = do_committed d \<and>
    domain_segments d' = domain_segments d \<and> do_expected_wkc d' = do_expected_wkc d"
proof -
  have "unat (g AND 1) < 2" by (simp add: and_one_eq unat_mod)
  with assms show ?thesis
    by (auto simp: domain_begin_receive_def Let_def domain_inv_def reception_def apply_staged_def
        domain_segments_def mismatch_in_def counted_ok_def split: if_splits)
qed

lemma length_segment_indices: "domain_inv BYTES SEGMENTS d \<Longrightarrow> length (segment_indices d) = do_segment_count d"
  by (simp add: segment_indices_def domain_segments_def domain_inv_def)

lemma segment_with_fresh:
  assumes "domain_inv BYTES SEGMENTS d" "i < do_segment_count d" "segment_indices d ! i = j"
  shows "segment_with d j = do_segments d ! i"
proof -
  note len = length_segment_indices [OF assms(1)]
  have seg: "segment_indices d ! k = dseg_datagram_index (domain_segments d ! k)" if "k < do_segment_count d" for k
    using that len by (simp add: segment_indices_def)
  obtain k where k: "position (\<lambda>s. dseg_datagram_index s = j) (domain_segments d) = Some k"
    using position_exists [of "domain_segments d ! i" "domain_segments d"] assms(2,3) seg len
    by (fastforce simp: segment_indices_def)
  from position_Some [OF this] have "k < do_segment_count d" "segment_indices d ! k = j"
    using len seg by (auto simp: segment_indices_def)
  then have "k = i"
    using nth_eq_iff_index_eq [of "segment_indices d" k i] assms len by (simp add: domain_inv_def)
  with k assms(1,2) show ?thesis by (simp add: segment_with_def domain_segments_def)
qed

lemma counted_ok_mark:
  assumes "counted_ok idx m w es" "i < length idx" "\<not> bit m i" "distinct idx" "length idx \<le> 64"
    and "counted [ev] = [(idx ! i, v)]"
  shows "counted_ok idx (m OR push_bit i 1) (sat_add w v) (es @ [ev])"
proof -
  have bits: "bit (m OR push_bit i 1) k \<longleftrightarrow> bit m k \<or> k = i" for k
    using bit_set [of i m k] assms(2,5) by simp
  have same: "idx ! k = idx ! i \<longleftrightarrow> k = i" if "k < length idx" for k
    using that nth_eq_iff_index_eq [OF assms(4)] assms(2) by simp
  have new: "idx ! i \<notin> fst ` set (counted es)" using assms(1-3) by (simp add: counted_ok_def)
  have c: "counted (es @ [ev]) = counted es @ [(idx ! i, v)]" using assms(6) by (simp only: counted_append)
  have "unat (sat_add w v) = min (sum_list (map (unat \<circ> snd) (counted (es @ [ev])))) 65535"
    using assms(1) unfolding c by (simp add: counted_ok_def unat_sat_add)
  moreover have "distinct (map fst (counted (es @ [ev])))" "fst ` set (counted (es @ [ev])) \<subseteq> set idx"
    using assms(1,2) new unfolding c by (auto simp: counted_ok_def)
  moreover have "\<forall>k<length idx. bit (m OR push_bit i 1) k \<longleftrightarrow> idx ! k \<in> fst ` set (counted (es @ [ev]))"
    using assms(1) same unfolding c bits by (auto simp: counted_ok_def)
  moreover have "\<forall>k. bit (m OR push_bit i 1) k \<longrightarrow> k < length idx"
    using assms(1,2) unfolding bits by (auto simp: counted_ok_def)
  ultimately show ?thesis unfolding counted_ok_def by blast
qed

lemma reception_mark:
  assumes "domain_inv BYTES SEGMENTS d" "fresh_segment d j i" "reception d es" "counted [ev] = [(j, w)]"
  shows "counted_ok (segment_indices d) (do_received_mask (mark_received i w d))
    (do_actual_wkc (mark_received i w d)) (es @ [ev])"
proof -
  have "counted_ok (segment_indices d) (do_received_mask d OR push_bit i 1) (sat_add (do_actual_wkc d) w) (es @ [ev])"
    using assms length_segment_indices [OF assms(1)]
    by (intro counted_ok_mark) (simp_all add: fresh_segment_def reception_def domain_inv_def)
  then show ?thesis by (simp add: mark_received_def)
qed

lemma reception_step:
  assumes "domain_inv BYTES SEGMENTS d" "domain_step d op = (d', ev)" "reception d es"
  shows "reception d' (es @ [ev])"
proof -
  note keep = domain_step_inv [OF assms(1,2)]
  have ds: "domain_segments d' = domain_segments d" using keep by simp
  have seg: "segment_with d' = segment_with d" "segment_indices d' = segment_indices d"
    unfolding fun_eq_iff segment_with_def segment_indices_def ds by simp_all
  have app: "apply_staged d' (do_committed d') xs = apply_staged d (do_committed d) xs" for xs
    using keep by (simp add: apply_staged_def seg)
  have page: "do_active_page d < length (do_staging d)" using assms(1) by (simp add: domain_inv_def)
  show ?thesis
  proof (cases ev)
    case (EvStaged j p w)
    then obtain i where i: "fresh_segment d j i"
      and d': "d' = (mark_received i w d)\<lparr>do_staging := (do_staging d)[do_active_page d :=
        copy_at (do_staging d ! do_active_page d) (dseg_input_offset (do_segments d ! i)) p]\<rparr>"
      using domain_step_cases [OF assms(1,2)] by auto
    have "segment_with d j = do_segments d ! i"
      using segment_with_fresh [OF assms(1)] i by (simp add: fresh_segment_def)
    then have img: "do_staging d' ! do_active_page d' = apply_staged d (do_committed d) (staged (es @ [ev]))"
      using page assms(3) EvStaged by (simp add: d' mark_received_def reception_def apply_staged_def)
    have "counted_ok (segment_indices d) (do_received_mask d') (do_actual_wkc d') (es @ [ev])"
      using reception_mark [OF assms(1) i assms(3), of ev w] EvStaged by (simp add: d')
    then show ?thesis
      unfolding reception_def app seg using img assms(3) EvStaged
      by (simp add: d' mark_received_def reception_def mismatch_in_def)
  next
    case (EvMismatch j w)
    then obtain i where i: "fresh_segment d j i" and d': "d' = (mark_received i w d)\<lparr>do_wkc_mismatch_seen := True\<rparr>"
      using domain_step_cases [OF assms(1,2)] by auto
    have "counted_ok (segment_indices d) (do_received_mask d') (do_actual_wkc d') (es @ [ev])"
      using reception_mark [OF assms(1) i assms(3), of ev w] EvMismatch by (simp add: d')
    then show ?thesis
      unfolding reception_def app seg using assms(3) EvMismatch
      by (simp add: d' mark_received_def reception_def mismatch_in_def)
  next
    case EvPoisoned
    then have d': "d' = d\<lparr>do_staging_error := True\<rparr>" using domain_step_cases [OF assms(1,2)] by simp
    show ?thesis
      unfolding reception_def app seg using assms(3) EvPoisoned
      by (simp add: d' reception_def mismatch_in_def counted_ok_def)
  next
    case EvIgnored
    then show ?thesis
      using domain_step_cases [OF assms(1,2)] assms(3) by (simp add: reception_def mismatch_in_def counted_ok_def)
  qed
qed

lemma reception_run:
  assumes "domain_inv BYTES SEGMENTS d" "traced domain_step d ops = (d', evs)" "reception d es"
  shows "domain_inv BYTES SEGMENTS d' \<and> reception d' (es @ evs) \<and> do_committed d' = do_committed d \<and>
    domain_segments d' = domain_segments d \<and> do_active_generation d' = do_active_generation d \<and>
    do_expected_wkc d' = do_expected_wkc d"
  using assms
proof (induction ops arbitrary: d es evs)
  case (Cons op ops)
  obtain d1 ev evs1 where s: "domain_step d op = (d1, ev)" "traced domain_step d1 ops = (d', evs1)" "evs = ev # evs1"
    using Cons.prems(2) by (auto split: prod.splits)
  note inv = domain_step_inv [OF Cons.prems(1) s(1)]
  from Cons.IH [OF _ s(2) reception_step [OF Cons.prems(1) s(1) Cons.prems(3)]] inv show ?case
    by (simp add: s(3))
qed simp

section \<open>The domain over its life\<close>

datatype domain_call = CallAddSegment domain_segment | CallBegin u16 | CallReceive domain_op | CallFinish u16 u64
  | CallOutput bytes

text \<open>\<open>output_mut\<close> hands out the output image; a caller can replace its bytes, not its length.\<close>

fun domain_exec :: "nat \<Rightarrow> nat \<Rightarrow> domain_image \<Rightarrow> domain_call \<Rightarrow> domain_image" where
  "domain_exec BYTES SEGMENTS d (CallAddSegment s) = fst (domain_add_segment BYTES SEGMENTS d s)"
| "domain_exec BYTES SEGMENTS d (CallBegin g) = fst (domain_begin_receive d g)"
| "domain_exec BYTES SEGMENTS d (CallReceive op) = fst (domain_step d op)"
| "domain_exec BYTES SEGMENTS d (CallFinish g now) = fst (domain_finish_receive d g now)"
| "domain_exec BYTES SEGMENTS d (CallOutput out) = (if length out = BYTES then d\<lparr>do_output := out\<rparr> else d)"

lemma domain_finish_inv:
  assumes "domain_inv BYTES SEGMENTS d"
  shows "domain_inv BYTES SEGMENTS (fst (domain_finish_receive d g now))"
  using assms by (auto simp: domain_finish_receive_def Let_def domain_inv_def domain_segments_def segment_indices_def)

lemma domain_exec_inv:
  assumes "domain_inv BYTES SEGMENTS d"
  shows "domain_inv BYTES SEGMENTS (domain_exec BYTES SEGMENTS d c)"
proof (cases c)
  case (CallAddSegment s)
  then show ?thesis
    using domain_add_segment_inv [OF assms, of s] by (metis domain_exec.simps(1) prod.collapse)
next
  case (CallBegin g)
  then show ?thesis
    using domain_begin_inv [OF assms, of g] by (metis domain_exec.simps(2) prod.collapse)
next
  case (CallReceive op)
  then show ?thesis
    using domain_step_inv [OF assms, of op] by (metis domain_exec.simps(3) prod.collapse)
next
  case (CallFinish g now)
  then show ?thesis using domain_finish_inv [OF assms] by simp
next
  case (CallOutput out)
  then show ?thesis using assms by (simp add: domain_inv_def domain_segments_def segment_indices_def)
qed

interpretation domains: step_system "domain_exec BYTES SEGMENTS" "domain_inv BYTES SEGMENTS"
  by unfold_locales (rule domain_exec_inv)

lemma mask_complete:
  assumes "counted_ok idx m w es" "length idx \<le> 64"
  shows "m = expected_mask (length idx) \<longleftrightarrow> set (map fst (counted es)) = set idx"
proof -
  have "bit (expected_mask (length idx)) i \<longleftrightarrow> i < length idx" for i
    unfolding expected_mask_def by (rule bit_low_mask [OF assms(2)])
  then have "m = expected_mask (length idx) \<longleftrightarrow> (\<forall>i. bit m i \<longleftrightarrow> i < length idx)"
    by (metis bit_eqI)
  also have "\<dots> \<longleftrightarrow> (\<forall>i<length idx. bit m i)" using assms(1) by (auto simp: counted_ok_def)
  also have "\<dots> \<longleftrightarrow> set idx \<subseteq> fst ` set (counted es)"
    using assms(1) by (auto simp: counted_ok_def in_set_conv_nth subset_iff)
  finally show ?thesis using assms(1) by (auto simp: counted_ok_def)
qed

text \<open>C27. The input image is replaced atomically: for a domain in any state of its life, a
  reception (begin, any mixture of staged datagrams and reported working-counter mismatches,
  finish) completes exactly if no datagram was duplicated or had a wrong length, no mismatch was
  counted, every segment was staged, and the working counters add up (saturating) to the
  expected value. If it completes, the committed image is the old one with each staged payload
  at the place of its segment, no segment being counted twice; otherwise the committed image is
  unchanged and marked invalid.\<close>

theorem domain_commits_complete_input:
  assumes "SEGMENTS \<le> 64"
    and "d = foldl (domain_exec BYTES SEGMENTS) (domain_new BYTES SEGMENTS a) history"
    and "domain_begin_receive d g = (d0, Ok ())" and "traced domain_step d0 ops = (d1, evs)"
    and "domain_finish_receive d1 g now = (d2, r)"
  shows "\<exists>complete. r = Ok complete \<and>
    (complete \<longleftrightarrow> EvPoisoned \<notin> set evs \<and> \<not> mismatch_in evs \<and>
       set (map fst (staged evs)) = set (segment_indices d) \<and>
       min (sum_list (map (unat \<circ> snd) (counted evs))) 65535 = unat (do_expected_wkc d)) \<and>
    distinct (map fst (counted evs)) \<and>
    do_committed d2 = (if complete then apply_staged d (do_committed d) (staged evs) else do_committed d) \<and>
    dq_valid (do_quality d2) = complete"
proof -
  have inv: "domain_inv BYTES SEGMENTS d"
    unfolding assms(2) by (rule domains.run_invar [OF domain_new_inv [OF assms(1)]])
  note b = reception_begin [OF inv assms(3)]
  note run = reception_run [OF domain_begin_inv [OF inv assms(3)] assms(4) conjunct1 [OF b]]
  have rec: "reception d1 evs" and gen: "do_active_generation d1 = Some g" and com: "do_committed d1 = do_committed d"
    and wkc: "do_expected_wkc d1 = do_expected_wkc d" and ds: "domain_segments d1 = domain_segments d"
    and inv1: "domain_inv BYTES SEGMENTS d1"
    using run b by simp_all
  have idx: "segment_indices d1 = segment_indices d" by (simp add: segment_indices_def ds)
  have app: "apply_staged d1 = apply_staged d"
    unfolding fun_eq_iff apply_staged_def segment_with_def ds by simp
  have ok: "counted_ok (segment_indices d) (do_received_mask d1) (do_actual_wkc d1) evs"
    using rec by (simp add: reception_def idx)
  have len: "length (segment_indices d) = do_segment_count d1" "do_segment_count d1 \<le> 64"
    using length_segment_indices [OF inv1] inv1 by (simp_all add: idx domain_inv_def)
  define complete where "complete \<longleftrightarrow> \<not> do_staging_error d1 \<and> \<not> do_wkc_mismatch_seen d1 \<and>
    do_received_mask d1 = expected_mask (do_segment_count d1) \<and> do_actual_wkc d1 = do_expected_wkc d1"
  have "set (map fst (staged evs)) = set (segment_indices d) \<longleftrightarrow>
      do_received_mask d1 = expected_mask (do_segment_count d1)" if "\<not> mismatch_in evs"
    using mask_complete [OF ok] len staged_counted [OF that] by simp
  then have "complete \<longleftrightarrow> EvPoisoned \<notin> set evs \<and> \<not> mismatch_in evs \<and>
       set (map fst (staged evs)) = set (segment_indices d) \<and>
       min (sum_list (map (unat \<circ> snd) (counted evs))) 65535 = unat (do_expected_wkc d)"
    using rec ok wkc unfolding complete_def reception_def counted_ok_def
    by (auto simp: word_unat_eq_iff)
  moreover have "r = Ok complete" "dq_valid (do_quality d2) = complete"
    "do_committed d2 = (if complete then do_staging d1 ! do_active_page d1 else do_committed d1)"
    using assms(5) gen unfolding domain_finish_receive_def Let_def complete_def by (auto split: if_splits)
  moreover have "distinct (map fst (counted evs))" using ok by (simp add: counted_ok_def)
  ultimately show ?thesis using rec com by (simp add: reception_def app)
qed

definition sample_domain :: domain_image where
  "sample_domain = foldl (domain_exec 2 1) (domain_new 2 1 0)
     [CallAddSegment \<lparr>dseg_datagram_index = 5, dseg_input_offset = 0, dseg_len = 2, dseg_expected_wkc = 3\<rparr>]"

theorem domain_commits_complete_input_witness:
  "case domain_begin_receive sample_domain 1 of (d0, _) \<Rightarrow>
   case traced domain_step d0 [DoStage 1 (datagram_header_new Lrd 5 0 2) [7, 8] 3] of (d1, _) \<Rightarrow>
   case domain_finish_receive d1 1 9 of (d2, r) \<Rightarrow> r = Ok True \<and> do_committed d2 = [7, 8]"
proof -
  let ?ops = "[DoStage 1 (datagram_header_new Lrd 5 0 2) [7, 8] 3]"
  have sample: "sample_domain = (domain_new 2 1 0)\<lparr>do_segment_count := 1, do_expected_wkc := 3,
      do_segments := [\<lparr>dseg_datagram_index = 5, dseg_input_offset = 0, dseg_len = 2, dseg_expected_wkc = 3\<rparr>],
      do_quality := domain_quality_empty\<lparr>dq_expected_wkc := 3\<rparr>\<rparr>"
    by (simp add: sample_domain_def domain_add_segment_def domain_new_def domain_segments_def
        usize_checked_add_def usize_max_def checked_add_def)
  obtain d0 where b: "domain_begin_receive sample_domain 1 = (d0, Ok ())"
    by (simp add: sample domain_begin_receive_def Let_def)
  obtain d1 where s: "traced domain_step d0 ?ops = (d1, [EvStaged 5 [7, 8] 3])"
    using b by (auto simp: sample domain_begin_receive_def Let_def domain_stage_def domain_segments_def
        datagram_header_new_def)
  obtain d2 r where f: "domain_finish_receive d1 1 9 = (d2, r)" by fastforce
  from domain_commits_complete_input [OF _ sample_domain_def b s f]
  have "r = Ok True" "do_committed d2 = apply_staged sample_domain (do_committed sample_domain) [(5, [7, 8])]"
    by (auto simp: mismatch_in_def sample segment_indices_def domain_segments_def)
  moreover have "apply_staged sample_domain (do_committed sample_domain) [(5, [7, 8])] = [7, 8]"
    by (simp add: apply_staged_def sample segment_with_def domain_segments_def domain_new_def copy_at_def)
  ultimately show ?thesis by (simp add: b s f del: traced.simps)
qed

end
