(* ===== verification/Control_Pool.thy ===== *)
theory Control_Pool
  imports Wire Rx_Index
begin

text \<open>
  The pool of acyclic register requests (\<open>control.rs\<close>): requests own a slot and, when the pool has
  a reserved namespace, a leased wire index; they are built into frames, completed by matched
  responses, failed by errors, timeouts and failed transmissions, and released. A
  \<open>RequestHandle\<close> is its index, below 64; \<open>REQUESTS\<close> is the const generic.
\<close>

section \<open>Requests\<close>

definition MAX_CONTROL_PAYLOAD :: nat where "MAX_CONTROL_PAYLOAD = 128"

definition handle_from_index :: "nat \<Rightarrow> nat option" where
  "handle_from_index i = (if i < 64 then Some i else None)"

datatype request_state = RsFree | RsPrepared | RsInFlight | RsComplete | RsFailed

datatype register_operation = RegRead | RegWrite | RegAutoIncrementRead | RegAutoIncrementWrite
  | RegBroadcastRead

fun operation_command :: "register_operation \<Rightarrow> wire_command" where
  "operation_command RegRead = Fprd"
| "operation_command RegWrite = Fpwr"
| "operation_command RegAutoIncrementRead = Aprd"
| "operation_command RegAutoIncrementWrite = Apwr"
| "operation_command RegBroadcastRead = Brd"

datatype control_error = CeTooManyRequests | CeInvalidDatagramIndices | CeDuplicateDatagramIndex
  | CeReservedDatagramIndex | CeDatagramIndicesExhausted | CeSlotBusy | CeInvalidHandle
  | CeInvalidState | CePayloadTooLarge | CeResponseTooLarge | CeWire wire_error
  | CeGenerationMismatch | CeDatagramIndexMismatch | CeTypeMismatch | CeAddressMismatch
  | CeLengthMismatch | CeWorkingCounterMismatch | CeTimeout | CeTransmitFailed
  | CeRxIndex rx_index_error

record control_request =
  cr_datagram_index :: u8
  cr_action_datagram_index :: u8
  cr_leased_datagram_index :: u8
  cr_generation :: u16
  cr_address :: u32
  cr_operation :: register_operation
  cr_length :: nat
  cr_response_length :: nat
  cr_deadline_ns :: u64
  cr_state :: request_state
  cr_actual_wkc :: u16
  cr_working_counter_policy :: rx_working_counter_policy
  cr_address_policy :: rx_address_policy
  cr_expected_wkc :: u16
  cr_last_error :: "control_error option"
  cr_payload :: bytes

definition control_request_empty :: control_request where
  "control_request_empty = \<lparr>cr_datagram_index = 0, cr_action_datagram_index = 0,
     cr_leased_datagram_index = 0, cr_generation = 0, cr_address = 0, cr_operation = RegRead,
     cr_length = 0, cr_response_length = 0, cr_deadline_ns = 0, cr_state = RsFree,
     cr_actual_wkc = 0, cr_working_counter_policy = WkcExact, cr_address_policy = AddrExact,
     cr_expected_wkc = 1, cr_last_error = None, cr_payload = replicate MAX_CONTROL_PAYLOAD 0\<rparr>"

definition request_payload :: "control_request \<Rightarrow> bytes" where
  "request_payload r = take (cr_length r) (cr_payload r)"

definition matches_action ::
  "control_request \<Rightarrow> u8 \<Rightarrow> u16 \<Rightarrow> u32 \<Rightarrow> register_operation \<Rightarrow> bytes \<Rightarrow> nat \<Rightarrow> u64 \<Rightarrow> bool" where
  "matches_action r datagram_index generation address operation payload datagram_len deadline \<longleftrightarrow>
     cr_action_datagram_index r = datagram_index \<and>
     cr_datagram_index r = cr_leased_datagram_index r \<and> cr_generation r = generation \<and>
     cr_address r = address \<and> cr_operation r = operation \<and> cr_length r = datagram_len \<and>
     cr_response_length r = datagram_len \<and> cr_deadline_ns r = deadline \<and>
     (\<not> (cr_state r = RsPrepared \<or> cr_state r = RsInFlight) \<or>
      (length payload \<le> cr_length r \<and> take (length payload) (request_payload r) = payload \<and>
       (\<forall>b\<in>set (drop (length payload) (request_payload r)). b = 0)))"

definition request_expectation :: "control_request \<Rightarrow> rx_expectation" where
  "request_expectation r = \<lparr>rp_generation = cr_generation r, rp_deadline_ns = cr_deadline_ns r,
     rp_expected_address = cr_address r, rp_expected_size = of_nat (cr_response_length r),
     rp_expected_type = command_code (operation_command (cr_operation r)),
     rp_expected_wkc = cr_expected_wkc r\<rparr>"

definition request_fail :: "control_request \<Rightarrow> control_error \<Rightarrow> control_request \<times> (control_error, 'a) result" where
  "request_fail r e = (r\<lparr>cr_state := RsFailed, cr_last_error := Some e\<rparr>, Err e)"

text \<open>Besides the request, the caller's buffer is written.\<close>

definition request_build_frame ::
  "control_request \<Rightarrow> bytes \<Rightarrow> bytes \<Rightarrow> bytes \<Rightarrow> control_request \<times> bytes \<times> (control_error, nat) result" where
  "request_build_frame r buffer destination source =
     (if cr_state r \<noteq> RsPrepared then (r, buffer, Err CeInvalidState)
      else if cr_datagram_index r \<noteq> cr_leased_datagram_index r then (r, buffer, Err CeDatagramIndexMismatch)
      else case frame_builder_new buffer destination source of
        Inl e \<Rightarrow> (r, buffer, Err (CeWire e))
      | Inr b \<Rightarrow>
          (case frame_builder_push b (operation_command (cr_operation r)) (cr_datagram_index r)
                  (cr_address r) (request_payload r) of
             (b', Inl e) \<Rightarrow> (r, fb_buffer b', Err (CeWire e))
           | (b', Inr _) \<Rightarrow>
               (case frame_builder_finish b' of
                  (out, Inl e) \<Rightarrow> (r, out, Err (CeWire e))
                | (out, Inr n) \<Rightarrow> (r\<lparr>cr_state := RsInFlight\<rparr>, out, Ok n))))"

definition request_complete ::
  "control_request \<Rightarrow> u16 \<Rightarrow> u32 \<Rightarrow> bytes \<Rightarrow> u16 \<Rightarrow> control_request \<times> (control_error, unit) result" where
  "request_complete r generation address payload wkc =
     (if cr_state r \<noteq> RsInFlight then
        if cr_state r = RsComplete \<or> cr_state r = RsFailed then (r, Err CeInvalidState)
        else request_fail r CeInvalidState
      else if cr_datagram_index r \<noteq> cr_leased_datagram_index r then request_fail r CeDatagramIndexMismatch
      else if cr_generation r \<noteq> generation then request_fail r CeGenerationMismatch
      else if \<not> address_accepts (cr_address_policy r) (command_code (operation_command (cr_operation r)))
                (cr_address r) address wkc then request_fail r CeAddressMismatch
      else if cr_response_length r \<noteq> length payload then request_fail r CeLengthMismatch
      else
        let r = r\<lparr>cr_actual_wkc := wkc\<rparr>
        in if \<not> wkc_accepts (cr_working_counter_policy r) (cr_expected_wkc r) wkc
           then request_fail r CeWorkingCounterMismatch
           else (r\<lparr>cr_payload := copy_at (cr_payload r) 0 payload, cr_length := cr_response_length r,
                   cr_state := RsComplete, cr_last_error := None\<rparr>, Ok ()))"

section \<open>Expired handles\<close>

type_synonym control_expiry = u64

definition control_expiry_count :: "control_expiry \<Rightarrow> nat" where
  "control_expiry_count x = count_ones x"

definition control_expiry_contains :: "control_expiry \<Rightarrow> nat \<Rightarrow> bool" where
  "control_expiry_contains x h = (x AND push_bit h 1 \<noteq> 0)"

definition control_expiry_next :: "u64 \<Rightarrow> u64 \<times> nat option" where
  "control_expiry_next x =
     (if x = 0 then (x, None)
      else let i = trailing_zeros x in (x AND NOT (push_bit i 1), handle_from_index i))"

section \<open>The pool\<close>

record control_pool =
  cp_requests :: "control_request list"
  cp_used :: u64
  cp_wire_indices :: "u8 list"
  cp_wire_index_count :: nat
  cp_next_wire_index :: nat
  cp_leased_wire_indices :: "u64 list"

definition control_pool_new :: "nat \<Rightarrow> control_pool" where
  "control_pool_new REQUESTS = \<lparr>cp_requests = replicate REQUESTS control_request_empty, cp_used = 0,
     cp_wire_indices = replicate 64 0, cp_wire_index_count = 0, cp_next_wire_index = 0,
     cp_leased_wire_indices = replicate 4 0\<rparr>"

fun check_wire_indices :: "u8 list \<Rightarrow> u8 list \<Rightarrow> u64 list \<Rightarrow> (control_error, unit) result" where
  "check_wire_indices [] cyclic seen = Ok ()"
| "check_wire_indices (i # is) cyclic seen =
     (if index_bit seen i then Err CeDuplicateDatagramIndex
      else if i \<in> set cyclic then Err CeReservedDatagramIndex
      else check_wire_indices is cyclic (index_set seen i))"

definition control_pool_new_excluding :: "nat \<Rightarrow> u8 list \<Rightarrow> u8 list \<Rightarrow> (control_error, control_pool) result" where
  "control_pool_new_excluding REQUESTS indices cyclic =
     (if REQUESTS = 0 \<or> 64 < REQUESTS then Err CeTooManyRequests
      else if indices = [] \<or> 64 < length indices then Err CeInvalidDatagramIndices
      else case check_wire_indices indices cyclic (replicate 4 0) of
        Inl e \<Rightarrow> Err e
      | Inr _ \<Rightarrow>
          let p = control_pool_new REQUESTS
          in Ok (p\<lparr>cp_wire_indices := copy_at (cp_wire_indices p) 0 indices,
                   cp_wire_index_count := length indices\<rparr>))"

definition control_pool_new_with_indices :: "nat \<Rightarrow> u8 list \<Rightarrow> (control_error, control_pool) result" where
  "control_pool_new_with_indices REQUESTS indices = control_pool_new_excluding REQUESTS indices []"

text \<open>The first unleased index of the namespace, searching round from \<open>next_wire_index\<close>.\<close>

fun select_wire :: "control_pool \<Rightarrow> nat list \<Rightarrow> (nat \<times> u8) option" where
  "select_wire p [] = None"
| "select_wire p (offset # rest) =
     (let lease_position = (cp_next_wire_index p + offset) mod cp_wire_index_count p;
          wire_index = cp_wire_indices p ! lease_position
      in if \<not> index_bit (cp_leased_wire_indices p) wire_index then Some (lease_position, wire_index)
         else select_wire p rest)"

definition lease_wire_index :: "control_pool \<Rightarrow> u8 \<Rightarrow> (control_error, control_pool \<times> u8) result" where
  "lease_wire_index p datagram_index =
     (if cp_wire_index_count p = 0 then Ok (p, datagram_index)
      else case select_wire p [0..<cp_wire_index_count p] of
        None \<Rightarrow> Err CeDatagramIndicesExhausted
      | Some (lease_position, wire_index) \<Rightarrow>
          Ok (p\<lparr>cp_next_wire_index := (lease_position + 1) mod cp_wire_index_count p,
                cp_leased_wire_indices := index_set (cp_leased_wire_indices p) wire_index\<rparr>, wire_index))"

record acquire_args =
  aq_datagram_index :: u8
  aq_generation :: u16
  aq_address :: u32
  aq_operation :: register_operation
  aq_payload :: bytes
  aq_response_length :: nat
  aq_deadline_ns :: u64
  aq_expected_wkc :: u16
  aq_working_counter_policy :: rx_working_counter_policy
  aq_address_policy :: rx_address_policy

definition prepared_request :: "acquire_args \<Rightarrow> u8 \<Rightarrow> control_request" where
  "prepared_request a wire_index =
     (let n = max (length (aq_payload a)) (aq_response_length a)
      in \<lparr>cr_datagram_index = wire_index, cr_action_datagram_index = aq_datagram_index a,
          cr_leased_datagram_index = wire_index, cr_generation = aq_generation a,
          cr_address = aq_address a, cr_operation = aq_operation a, cr_length = n,
          cr_response_length = n, cr_deadline_ns = aq_deadline_ns a, cr_state = RsPrepared,
          cr_actual_wkc = 0, cr_working_counter_policy = aq_working_counter_policy a,
          cr_address_policy = aq_address_policy a, cr_expected_wkc = aq_expected_wkc a,
          cr_last_error = None,
          cr_payload = copy_at (replicate MAX_CONTROL_PAYLOAD 0) 0 (aq_payload a)\<rparr>)"

definition control_acquire_with_response_policy ::
  "nat \<Rightarrow> control_pool \<Rightarrow> acquire_args \<Rightarrow> control_pool \<times> (control_error, nat) result" where
  "control_acquire_with_response_policy REQUESTS p a =
     (if REQUESTS = 0 \<or> 64 < REQUESTS then (p, Err CeTooManyRequests)
      else if MAX_CONTROL_PAYLOAD < length (aq_payload a) then (p, Err CePayloadTooLarge)
      else if MAX_CONTROL_PAYLOAD < max (length (aq_payload a)) (aq_response_length a)
        then (p, Err CeResponseTooLarge)
      else
        let msk = (if REQUESTS = 64 then - 1 else push_bit REQUESTS 1 - 1);
            available = NOT (cp_used p) AND msk
        in if available = 0 then (p, Err CeSlotBusy)
           else
             let index = trailing_zeros available
             in case lease_wire_index p (aq_datagram_index a) of
                  Inl e \<Rightarrow> (p, Err e)
                | Inr (p1, wire_index) \<Rightarrow>
                    (p1\<lparr>cp_used := cp_used p1 OR push_bit index 1,
                        cp_requests := (cp_requests p1)[index := prepared_request a wire_index]\<rparr>, Ok index))"

text \<open>The three shorter entry points fix the policies.\<close>

definition control_acquire_with_wkc_policy ::
  "nat \<Rightarrow> control_pool \<Rightarrow> u8 \<Rightarrow> u16 \<Rightarrow> u32 \<Rightarrow> register_operation \<Rightarrow> bytes \<Rightarrow> nat \<Rightarrow> u64 \<Rightarrow>
     rx_working_counter_policy \<Rightarrow> control_pool \<times> (control_error, nat) result" where
  "control_acquire_with_wkc_policy REQUESTS p index generation address operation payload rlen deadline wp =
     control_acquire_with_response_policy REQUESTS p
       \<lparr>aq_datagram_index = index, aq_generation = generation, aq_address = address,
        aq_operation = operation, aq_payload = payload, aq_response_length = rlen,
        aq_deadline_ns = deadline, aq_expected_wkc = 1, aq_working_counter_policy = wp,
        aq_address_policy = AddrExact\<rparr>"

definition control_acquire_with_response_len ::
  "nat \<Rightarrow> control_pool \<Rightarrow> u8 \<Rightarrow> u16 \<Rightarrow> u32 \<Rightarrow> register_operation \<Rightarrow> bytes \<Rightarrow> nat \<Rightarrow> u64 \<Rightarrow>
     control_pool \<times> (control_error, nat) result" where
  "control_acquire_with_response_len REQUESTS p index generation address operation payload rlen deadline =
     control_acquire_with_wkc_policy REQUESTS p index generation address operation payload rlen deadline WkcExact"

definition control_acquire ::
  "nat \<Rightarrow> control_pool \<Rightarrow> u8 \<Rightarrow> u16 \<Rightarrow> u32 \<Rightarrow> register_operation \<Rightarrow> bytes \<Rightarrow> u64 \<Rightarrow>
     control_pool \<times> (control_error, nat) result" where
  "control_acquire REQUESTS p index generation address operation payload deadline =
     control_acquire_with_response_len REQUESTS p index generation address operation payload
       (length payload) deadline"

definition control_get :: "nat \<Rightarrow> control_pool \<Rightarrow> nat \<Rightarrow> control_request option" where
  "control_get REQUESTS p h =
     (if h < REQUESTS \<and> cp_used p AND push_bit h 1 \<noteq> 0 then Some (cp_requests p ! h) else None)"

definition control_put :: "control_pool \<Rightarrow> nat \<Rightarrow> control_request \<Rightarrow> control_pool" where
  "control_put p h r = p\<lparr>cp_requests := (cp_requests p)[h := r]\<rparr>"

definition control_fail_transmit :: "nat \<Rightarrow> control_pool \<Rightarrow> nat \<Rightarrow> control_pool \<times> (control_error, unit) result" where
  "control_fail_transmit REQUESTS p h =
     (case control_get REQUESTS p h of
        None \<Rightarrow> (p, Err CeInvalidHandle)
      | Some r \<Rightarrow>
          if \<not> (cr_state r = RsPrepared \<or> cr_state r = RsInFlight) then (p, Err CeInvalidState)
          else (control_put p h (r\<lparr>cr_state := RsFailed, cr_last_error := Some CeTransmitFailed\<rparr>), Ok ()))"

definition control_expectation :: "nat \<Rightarrow> control_pool \<Rightarrow> nat \<Rightarrow> (control_error, rx_expectation) result" where
  "control_expectation REQUESTS p h = ok_or (map_option request_expectation (control_get REQUESTS p h)) CeInvalidHandle"

definition control_complete ::
  "nat \<Rightarrow> control_pool \<Rightarrow> nat \<Rightarrow> u16 \<Rightarrow> u32 \<Rightarrow> bytes \<Rightarrow> u16 \<Rightarrow> control_pool \<times> (control_error, unit) result" where
  "control_complete REQUESTS p h generation address payload wkc =
     (case control_get REQUESTS p h of
        None \<Rightarrow> (p, Err CeInvalidHandle)
      | Some r \<Rightarrow> (case request_complete r generation address payload wkc of
          (r', res) \<Rightarrow> (control_put p h r', res)))"

definition control_complete_match ::
  "nat \<Rightarrow> control_pool \<Rightarrow> rx_match \<Rightarrow> datagram_header \<Rightarrow> bytes \<Rightarrow> control_pool \<times> (control_error, unit) result" where
  "control_complete_match REQUESTS p c header payload =
     (case handle_from_index (unat (rm_slot_id c)) of
        None \<Rightarrow> (p, Err CeInvalidHandle)
      | Some h \<Rightarrow>
          (case control_get REQUESTS p h of
             None \<Rightarrow> (p, Err CeInvalidHandle)
           | Some r \<Rightarrow>
               if cr_datagram_index r \<noteq> dh_index header then (p, Err CeDatagramIndexMismatch)
               else if operation_command (cr_operation r) \<noteq> dh_command header then (p, Err CeTypeMismatch)
               else control_complete REQUESTS p h (rm_generation c) (dh_address header) payload
                      (rm_working_counter c)))"

definition control_release :: "nat \<Rightarrow> control_pool \<Rightarrow> nat \<Rightarrow> control_pool \<times> (control_error, unit) result" where
  "control_release REQUESTS p h =
     (if REQUESTS \<le> h \<or> cp_used p AND push_bit h 1 = 0 then (p, Err CeInvalidHandle)
      else
        let p1 = p\<lparr>cp_used := cp_used p AND NOT (push_bit h 1)\<rparr>;
            p2 = (if cp_wire_index_count p1 \<noteq> 0
                  then p1\<lparr>cp_leased_wire_indices := index_clear (cp_leased_wire_indices p1)
                         (cr_leased_datagram_index (cp_requests p1 ! h))\<rparr>
                  else p1)
        in (control_put p2 h control_request_empty, Ok ()))"

definition control_in_use :: "control_pool \<Rightarrow> nat" where
  "control_in_use p = count_ones (cp_used p)"

function expire_loop :: "control_pool \<Rightarrow> u64 \<Rightarrow> u64 \<Rightarrow> u64 \<Rightarrow> control_pool \<times> control_expiry" where
  "expire_loop p now remaining expired =
     (if remaining = 0 then (p, expired)
      else
        let index = trailing_zeros remaining;
            b = push_bit index 1;
            r = cp_requests p ! index
        in if cr_state r = RsInFlight \<and> cr_deadline_ns r < now
           then expire_loop (control_put p index (r\<lparr>cr_state := RsFailed, cr_last_error := Some CeTimeout\<rparr>))
                  now (remaining AND NOT b) (expired OR b)
           else expire_loop p now (remaining AND NOT b) expired)"
  by pat_completeness auto
termination
  by (relation "measure (\<lambda>(p, now, remaining, expired). length (set_bits_of remaining))")
    (auto simp: set_bits_of_lowest [OF _ refl] simp del: push_bit_of_1)

declare expire_loop.simps [simp del]

definition control_expire_in_flight :: "control_pool \<Rightarrow> u64 \<Rightarrow> control_pool \<times> control_expiry" where
  "control_expire_in_flight p now = expire_loop p now (cp_used p) 0"

definition control_build_into_buffer ::
  "nat \<Rightarrow> control_pool \<Rightarrow> nat \<Rightarrow> bytes \<Rightarrow> bytes \<Rightarrow> bytes \<Rightarrow> control_pool \<times> bytes \<times> (control_error, nat) result" where
  "control_build_into_buffer REQUESTS p h buffer destination source =
     (case control_get REQUESTS p h of
        None \<Rightarrow> (p, buffer, Err CeInvalidHandle)
      | Some r \<Rightarrow> (case request_build_frame r buffer destination source of
          (r', out, res) \<Rightarrow> (control_put p h r', out, res)))"

section \<open>The receive consumer\<close>

record control_rx_consumer =
  cc_pool :: control_pool
  cc_rejected :: nat

definition control_accepts_prior_generation ::
  "nat \<Rightarrow> control_rx_consumer \<Rightarrow> u8 \<Rightarrow> u16 \<Rightarrow> u16 \<Rightarrow> u16 \<Rightarrow> bool" where
  "control_accepts_prior_generation REQUESTS c index slot_id expected current \<longleftrightarrow>
     expected \<noteq> current \<and>
     (case handle_from_index (unat slot_id) of
        None \<Rightarrow> False
      | Some h \<Rightarrow> (case control_get REQUESTS (cc_pool c) h of
          None \<Rightarrow> False
        | Some r \<Rightarrow> cr_state r = RsInFlight \<and> cr_datagram_index r = index \<and> cr_generation r = expected))"

definition control_consumer_accept ::
  "nat \<Rightarrow> control_rx_consumer \<Rightarrow> rx_match \<Rightarrow> datagram_header \<Rightarrow> bytes \<Rightarrow> control_rx_consumer \<times> bool" where
  "control_consumer_accept REQUESTS c m header payload =
     (case handle_from_index (unat (rm_slot_id m)) of
        None \<Rightarrow> (c, False)
      | Some h \<Rightarrow>
          if \<not> (case control_get REQUESTS (cc_pool c) h of
                None \<Rightarrow> False
              | Some r \<Rightarrow> cr_state r = RsInFlight \<and> cr_datagram_index r = dh_index header) then (c, False)
          else (case control_complete_match REQUESTS (cc_pool c) m header payload of
              (p', Inr _) \<Rightarrow> (c\<lparr>cc_pool := p'\<rparr>, True)
            | (p', Inl _) \<Rightarrow> (c\<lparr>cc_pool := p', cc_rejected := cc_rejected c + 1\<rparr>, False)))"

end
