(* ===== verification/Control_Leases.thy ===== *)
theory Control_Leases
  imports Control_Pool System_Interfaces
begin

text \<open>
  The invariant of the request pool over all its operations: slots in use, leases of wire
  indices, and the life of a request; and how the pool and the receive index agree on a response.
\<close>

section \<open>The invariant\<close>

definition request_wf :: "control_request \<Rightarrow> bool" where
  "request_wf r \<longleftrightarrow> cr_datagram_index r = cr_leased_datagram_index r \<and>
     length (cr_payload r) = MAX_CONTROL_PAYLOAD \<and> cr_length r \<le> MAX_CONTROL_PAYLOAD \<and>
     cr_response_length r \<le> MAX_CONTROL_PAYLOAD \<and> cr_state r \<noteq> RsFree"

definition live :: "control_pool \<Rightarrow> nat \<Rightarrow> bool" where
  "live p h = bit (cp_used p) h"

definition lease_of :: "control_pool \<Rightarrow> nat \<Rightarrow> u8" where
  "lease_of p h = cr_leased_datagram_index (cp_requests p ! h)"

definition namespace :: "control_pool \<Rightarrow> u8 list" where
  "namespace p = take (cp_wire_index_count p) (cp_wire_indices p)"

definition leases_ok :: "control_pool \<Rightarrow> bool" where
  "leases_ok p \<longleftrightarrow>
     (\<forall>j. index_bit (cp_leased_wire_indices p) j \<longleftrightarrow> (\<exists>h. live p h \<and> lease_of p h = j)) \<and>
     (\<forall>h h'. live p h \<and> live p h' \<and> lease_of p h = lease_of p h' \<longrightarrow> h = h') \<and>
     (\<forall>h. live p h \<longrightarrow> lease_of p h \<in> set (namespace p))"

definition control_inv :: "nat \<Rightarrow> control_pool \<Rightarrow> bool" where
  "control_inv REQUESTS p \<longleftrightarrow> 0 < REQUESTS \<and> REQUESTS \<le> 64 \<and> length (cp_requests p) = REQUESTS \<and>
     (\<forall>h. live p h \<longrightarrow> h < REQUESTS) \<and> (\<forall>h. live p h \<longrightarrow> request_wf (cp_requests p ! h)) \<and>
     length (cp_wire_indices p) = 64 \<and> cp_wire_index_count p \<le> 64 \<and>
     length (cp_leased_wire_indices p) = 4 \<and> (cp_wire_index_count p \<noteq> 0 \<longrightarrow> leases_ok p)"

lemma control_get_Some:
  "control_get REQUESTS p h = Some r \<longleftrightarrow> h < REQUESTS \<and> live p h \<and> r = cp_requests p ! h"
  by (auto simp: control_get_def live_def and_exp_eq_0_iff_not_bit)

lemma control_get_alt:
  "control_get REQUESTS p h = (if h < REQUESTS \<and> live p h then Some (cp_requests p ! h) else None)"
  by (auto simp: control_get_def live_def and_exp_eq_0_iff_not_bit)

lemma control_put_inv:
  assumes "control_inv REQUESTS p" "live p h" "request_wf r"
    and "cr_leased_datagram_index r = lease_of p h"
  shows "control_inv REQUESTS (control_put p h r)"
proof -
  have h: "h < length (cp_requests p)" using assms(1,2) by (auto simp: control_inv_def)
  have lease: "lease_of (control_put p h r) k = lease_of p k" for k
    using assms(4) h by (cases "k = h") (simp_all add: lease_of_def control_put_def)
  have live: "live (control_put p h r) k = live p k" for k by (simp add: live_def control_put_def)
  have req: "cp_requests (control_put p h r) ! k = (if k = h then r else cp_requests p ! k)" for k
    using h by (simp add: control_put_def)
  show ?thesis
    using assms(1,3) unfolding control_inv_def leases_ok_def live lease req
    by (simp add: control_put_def namespace_def)
qed

section \<open>Operations on a live request\<close>

definition request_kept :: "control_request \<Rightarrow> control_request \<Rightarrow> bool" where
  "request_kept r r' \<longleftrightarrow> (request_wf r \<longrightarrow> request_wf r') \<and>
     cr_leased_datagram_index r' = cr_leased_datagram_index r \<and>
     (cr_state r = RsComplete \<or> cr_state r = RsFailed \<longrightarrow> r' = r)"

lemma request_keptI:
  assumes "cr_state r \<noteq> RsComplete" "cr_state r \<noteq> RsFailed" "cr_state r' \<noteq> RsFree"
    and "cr_leased_datagram_index r' = cr_leased_datagram_index r"
    and "cr_datagram_index r' = cr_datagram_index r" "cr_response_length r' = cr_response_length r"
    and "cr_length r' \<le> max (cr_length r) (cr_response_length r)"
    and "length (cr_payload r) = MAX_CONTROL_PAYLOAD \<Longrightarrow> cr_response_length r \<le> MAX_CONTROL_PAYLOAD \<Longrightarrow>
      length (cr_payload r') = MAX_CONTROL_PAYLOAD"
  shows "request_kept r r'"
  using assms by (auto simp: request_kept_def request_wf_def)

lemma request_build_result:
  "request_build_frame r buf dst src = (r', out, res) \<Longrightarrow>
     r' = r \<or> (cr_state r = RsPrepared \<and> r' = r\<lparr>cr_state := RsInFlight\<rparr>)"
  by (simp add: request_build_frame_def split: if_splits sum.splits prod.splits)

lemma request_kept_refl [simp]: "request_kept r r"
  by (simp add: request_kept_def)

lemma request_build_kept:
  assumes "request_build_frame r buf dst src = (r', out, res)"
  shows "request_kept r r'"
  using request_build_result [OF assms] by (elim disjE) (simp, intro request_keptI, simp_all)

lemma request_complete_result:
  assumes "request_complete r g a pl w = (r', res)"
  shows "r' = r \<or> (cr_state r \<noteq> RsComplete \<and> cr_state r \<noteq> RsFailed \<and>
    ((\<exists>v e. r' = r\<lparr>cr_actual_wkc := v, cr_state := RsFailed, cr_last_error := e\<rparr>) \<or>
     (cr_response_length r = length pl \<and>
      r' = r\<lparr>cr_actual_wkc := w, cr_payload := copy_at (cr_payload r) 0 pl, cr_length := cr_response_length r,
             cr_state := RsComplete, cr_last_error := None\<rparr>)))"
proof -
  have self: "r\<lparr>cr_state := RsFailed, cr_last_error := e\<rparr> =
      r\<lparr>cr_actual_wkc := cr_actual_wkc r, cr_state := RsFailed, cr_last_error := e\<rparr>" for e by simp
  show ?thesis
    using assms unfolding request_complete_def request_fail_def Let_def
    by (simp split: if_splits) (metis self)+
qed

lemma request_complete_kept:
  assumes "request_complete r g a pl w = (r', res)"
  shows "request_kept r r'"
  using request_complete_result [OF assms]
  by (elim disjE conjE exE) (simp, (intro request_keptI; simp)+)

lemma request_failed_kept:
  "cr_state r = RsPrepared \<or> cr_state r = RsInFlight \<Longrightarrow>
     request_kept r (r\<lparr>cr_state := RsFailed, cr_last_error := e\<rparr>)"
  by (intro request_keptI) auto

text \<open>An operation that replaces the request of a live handle by a kept one.\<close>

definition pool_kept :: "control_pool \<Rightarrow> control_pool \<Rightarrow> bool" where
  "pool_kept p p' \<longleftrightarrow> p' = p \<or> (\<exists>h r. live p h \<and> request_kept (cp_requests p ! h) r \<and> p' = control_put p h r)"

lemma pool_kept_inv:
  assumes "control_inv REQUESTS p" "pool_kept p p'"
  shows "control_inv REQUESTS p'"
  using assms control_put_inv [OF assms(1)]
  by (auto simp: pool_kept_def request_kept_def control_inv_def lease_of_def)

lemma pool_kept_get:
  assumes "control_inv REQUESTS p" "pool_kept p p'" "control_get REQUESTS p h = Some r"
    and "cr_state r = RsComplete \<or> cr_state r = RsFailed"
  shows "control_get REQUESTS p' h = Some r"
  using assms by (auto simp: pool_kept_def control_get_Some request_kept_def live_def control_put_def
      control_inv_def nth_list_update)

lemma pool_kept_namespace: "pool_kept p p' \<Longrightarrow> namespace p' = namespace p \<and> cp_wire_index_count p' = cp_wire_index_count p"
  by (auto simp: pool_kept_def namespace_def control_put_def)

lemma control_build_kept: "pool_kept p (fst (control_build_into_buffer REQUESTS p h buf dst src))"
  using request_build_kept
  by (fastforce simp: control_build_into_buffer_def pool_kept_def control_get_Some split: option.splits prod.splits)

lemma control_complete_pool_kept: "pool_kept p (fst (control_complete REQUESTS p h g a pl w))"
  using request_complete_kept
  by (fastforce simp: control_complete_def pool_kept_def control_get_Some split: option.splits prod.splits)

lemma control_match_pool_kept: "pool_kept p (fst (control_complete_match REQUESTS p m hdr pl))"
  using control_complete_pool_kept
  by (auto simp: control_complete_match_def pool_kept_def split: option.splits)

lemma control_fail_pool_kept: "pool_kept p (fst (control_fail_transmit REQUESTS p h))"
  using request_failed_kept
  by (fastforce simp: control_fail_transmit_def pool_kept_def control_get_Some split: option.splits)

section \<open>Expiry\<close>

lemma expire_loop_kept:
  assumes "\<forall>i. bit rem i \<longrightarrow> live p i"
  shows "pool_kept\<^sup>*\<^sup>* p (fst (expire_loop p now rem ex))"
  using assms
proof (induction p now rem ex rule: expire_loop.induct)
  case (1 p now rem ex)
  show ?case
  proof (cases "rem = 0")
    case True
    then show ?thesis by (subst expire_loop.simps) simp
  next
    case False
    let ?i = "trailing_zeros rem" and ?r = "cp_requests p ! trailing_zeros rem"
    have i: "bit rem ?i" "?i < 64" using trailing_zeros_lowest [OF False] by auto
    have bits: "bit (rem AND NOT (push_bit ?i 1)) k \<Longrightarrow> live p k" for k
      using "1.prems" bit_clear [OF i(2)] by blast
    show ?thesis
    proof (cases "cr_state ?r = RsInFlight \<and> cr_deadline_ns ?r < now")
      case late: True
      let ?p = "control_put p ?i (?r\<lparr>cr_state := RsFailed, cr_last_error := Some CeTimeout\<rparr>)"
      have kept: "pool_kept p ?p"
        using i "1.prems" late request_failed_kept [of ?r] by (auto simp: pool_kept_def)
      have "\<forall>k. bit (rem AND NOT (push_bit ?i 1)) k \<longrightarrow> live ?p k"
        using bits by (simp add: live_def control_put_def)
      from "1.IH"(1) [OF False refl refl refl late this] show ?thesis
        using False late kept converse_rtranclp_into_rtranclp [of pool_kept p ?p]
        by (subst expire_loop.simps) (simp add: Let_def del: push_bit_of_1)
    next
      case early: False
      from "1.IH"(2) [OF False refl refl refl early] bits show ?thesis
        using False early by (subst expire_loop.simps) (auto simp: Let_def simp del: push_bit_of_1)
    qed
  qed
qed

lemma pool_kept_star:
  assumes "pool_kept\<^sup>*\<^sup>* p p'" "control_inv REQUESTS p"
  shows "control_inv REQUESTS p' \<and> namespace p' = namespace p \<and>
    cp_wire_index_count p' = cp_wire_index_count p \<and>
    (\<forall>h r. control_get REQUESTS p h = Some r \<and> (cr_state r = RsComplete \<or> cr_state r = RsFailed) \<longrightarrow>
       control_get REQUESTS p' h = Some r)"
  using assms
proof (induction rule: rtranclp_induct)
  case (step p1 p2)
  then show ?case
    using pool_kept_inv [of REQUESTS p1 p2] pool_kept_get [of REQUESTS p1 p2] pool_kept_namespace [of p1 p2]
    by auto
qed simp

text \<open>Expiry as a sequence of such replacements.\<close>

lemma expire_in_flight_kept: "pool_kept\<^sup>*\<^sup>* p (fst (control_expire_in_flight p now))"
  by (simp add: control_expire_in_flight_def expire_loop_kept live_def)

section \<open>Acquiring and releasing\<close>

lemma select_wire_Some:
  "select_wire p os = Some (k, w) \<Longrightarrow> cp_wire_index_count p \<noteq> 0 \<Longrightarrow>
     k < cp_wire_index_count p \<and> w = cp_wire_indices p ! k \<and> \<not> index_bit (cp_leased_wire_indices p) w"
  by (induction p os rule: select_wire.induct) (auto simp: Let_def split: if_splits)

lemma lease_wire_index_Ok:
  assumes "control_inv REQUESTS p" "lease_wire_index p i = Inr (p1, w)"
  shows "(cp_wire_index_count p = 0 \<and> p1 = p) \<or>
    (cp_wire_index_count p \<noteq> 0 \<and> w \<in> set (namespace p) \<and> \<not> index_bit (cp_leased_wire_indices p) w \<and>
     (\<exists>n. p1 = p\<lparr>cp_next_wire_index := n, cp_leased_wire_indices := index_set (cp_leased_wire_indices p) w\<rparr>))"
proof (cases "cp_wire_index_count p = 0")
  case True
  then show ?thesis using assms(2) by (simp add: lease_wire_index_def)
next
  case False
  then obtain k where sel: "select_wire p [0..<cp_wire_index_count p] = Some (k, w)"
    and p1: "p1 = p\<lparr>cp_next_wire_index := (k + 1) mod cp_wire_index_count p,
      cp_leased_wire_indices := index_set (cp_leased_wire_indices p) w\<rparr>"
    using assms(2) by (auto simp: lease_wire_index_def split: option.splits)
  from select_wire_Some [OF sel False] have k: "k < cp_wire_index_count p" "w = cp_wire_indices p ! k"
    "\<not> index_bit (cp_leased_wire_indices p) w" by auto
  then have "w \<in> set (namespace p)"
    using assms(1) by (auto simp: namespace_def control_inv_def in_set_conv_nth)
  with False k(3) p1 show ?thesis by blast
qed

lemma prepared_request_wf:
  assumes "length (aq_payload a) \<le> MAX_CONTROL_PAYLOAD"
    and "max (length (aq_payload a)) (aq_response_length a) \<le> MAX_CONTROL_PAYLOAD"
  shows "request_wf (prepared_request a w)" "cr_leased_datagram_index (prepared_request a w) = w"
  using assms by (simp_all add: request_wf_def prepared_request_def Let_def)

lemma leases_ok_add:
  assumes "leases_ok p" "length (cp_leased_wire_indices p) = 4" "\<not> index_bit (cp_leased_wire_indices p) w"
    and "w \<in> set (namespace p)" "\<not> live p i"
    and "\<And>h. live p' h \<longleftrightarrow> live p h \<or> h = i" "lease_of p' i = w" "\<And>h. h \<noteq> i \<Longrightarrow> lease_of p' h = lease_of p h"
    and "namespace p' = namespace p" "cp_leased_wire_indices p' = index_set (cp_leased_wire_indices p) w"
  shows "leases_ok p'"
proof -
  have ne: "h \<noteq> i" if "live p h" for h using that assms(5) by blast
  have free: "lease_of p h \<noteq> w" if "live p h" for h using that assms(1,3) by (auto simp: leases_ok_def)
  show ?thesis
    unfolding leases_ok_def
  proof (intro conjI allI impI)
    fix j
    show "index_bit (cp_leased_wire_indices p') j \<longleftrightarrow> (\<exists>h. live p' h \<and> lease_of p' h = j)"
      using assms(1) ne unfolding assms(10) index_bit_set [OF assms(2)] assms(6)
      by (auto simp: leases_ok_def assms(7,8))
  next
    fix h h' assume "live p' h \<and> live p' h' \<and> lease_of p' h = lease_of p' h'"
    then show "h = h'"
      using assms(1) free unfolding assms(6)
      by (cases "h = i"; cases "h' = i") (auto simp: leases_ok_def assms(7,8))
  next
    fix h assume "live p' h"
    then show "lease_of p' h \<in> set (namespace p')"
      using assms(1,4) unfolding assms(6,9) by (cases "h = i") (auto simp: leases_ok_def assms(7,8))
  qed
qed

lemma control_acquire_Ok:
  assumes "control_inv REQUESTS p" "control_acquire_with_response_policy REQUESTS p a = (p', Inr h)"
  shows "\<not> live p h \<and> (\<forall>k. live p' k \<longleftrightarrow> live p k \<or> k = h) \<and> control_inv REQUESTS p' \<and> namespace p' = namespace p \<and>
    cp_wire_index_count p' = cp_wire_index_count p \<and>
    (\<exists>w. control_get REQUESTS p' h = Some (prepared_request a w)) \<and>
    (\<forall>k. k \<noteq> h \<longrightarrow> control_get REQUESTS p' k = control_get REQUESTS p k)"
proof -
  let ?m = "if REQUESTS = 64 then - 1 else push_bit REQUESTS 1 - 1 :: u64"
  let ?av = "NOT (cp_used p) AND ?m"
  have R: "REQUESTS \<le> 64" "length (cp_requests p) = REQUESTS" using assms(1) by (auto simp: control_inv_def)
  obtain p1 w where len: "length (aq_payload a) \<le> MAX_CONTROL_PAYLOAD"
      "max (length (aq_payload a)) (aq_response_length a) \<le> MAX_CONTROL_PAYLOAD"
    and av: "?av \<noteq> 0" and h: "h = trailing_zeros ?av"
    and lease: "lease_wire_index p (aq_datagram_index a) = Inr (p1, w)"
    and p': "p' = p1\<lparr>cp_used := cp_used p1 OR push_bit h 1,
      cp_requests := (cp_requests p1)[h := prepared_request a w]\<rparr>"
    using assms(2) unfolding control_acquire_with_response_policy_def Let_def
    by (auto simp del: push_bit_of_1 split: if_splits sum.splits)
  have "bit ?av h" using trailing_zeros_lowest [OF av] h by simp
  then have hb: "h < REQUESTS" "\<not> live p h"
    using bit_low_mask [OF R(1), of h] by (auto simp: live_def bit_and_iff bit_not_iff simp del: push_bit_of_1)
  have same: "cp_used p1 = cp_used p" "cp_requests p1 = cp_requests p" "cp_wire_indices p1 = cp_wire_indices p"
    "cp_wire_index_count p1 = cp_wire_index_count p" "length (cp_leased_wire_indices p1) = length (cp_leased_wire_indices p)"
    using lease_wire_index_Ok [OF assms(1) lease] by auto
  have live': "live p' k \<longleftrightarrow> live p k \<or> k = h" for k
    using bit_set [of h "cp_used p" k] hb(1) R(1) by (simp add: live_def p' same del: push_bit_of_1)
  have req: "cp_requests p' ! k = (if k = h then prepared_request a w else cp_requests p ! k)" for k
    using hb(1) R(2) by (simp add: p' same)
  have lo: "lease_of p' h = w" "\<And>k. k \<noteq> h \<Longrightarrow> lease_of p' k = lease_of p k"
    using prepared_request_wf(2) [OF len] by (simp_all add: lease_of_def req)
  have ns: "namespace p' = namespace p" by (simp add: namespace_def p' same)
  have "leases_ok p'" if c: "cp_wire_index_count p \<noteq> 0"
  proof (rule leases_ok_add [of p w h])
    show "leases_ok p" "length (cp_leased_wire_indices p) = 4" using assms(1) c by (auto simp: control_inv_def)
    show "cp_leased_wire_indices p' = index_set (cp_leased_wire_indices p) w"
      "\<not> index_bit (cp_leased_wire_indices p) w" "w \<in> set (namespace p)"
      using lease_wire_index_Ok [OF assms(1) lease] c by (auto simp: p')
  qed (use live' lo ns hb in auto)
  moreover have "\<forall>k. live p' k \<longrightarrow> k < REQUESTS" "\<forall>k. live p' k \<longrightarrow> request_wf (cp_requests p' ! k)"
    using assms(1) hb(1) prepared_request_wf(1) [OF len] unfolding live' req by (auto simp: control_inv_def)
  ultimately have "control_inv REQUESTS p'"
    using assms(1) unfolding control_inv_def by (simp add: p' same)
  then show ?thesis
    using hb live' req ns same(4) by (auto simp: control_get_alt) (simp add: p')
qed

lemma control_acquire_Err:
  "control_acquire_with_response_policy REQUESTS p a = (p', Inl e) \<Longrightarrow> p' = p"
  by (auto simp: control_acquire_with_response_policy_def Let_def split: if_splits sum.splits prod.splits)

lemma leases_ok_remove:
  assumes "leases_ok p" "length (cp_leased_wire_indices p) = 4" "live p i"
    and "\<And>h. live p' h \<longleftrightarrow> live p h \<and> h \<noteq> i" "\<And>h. h \<noteq> i \<Longrightarrow> lease_of p' h = lease_of p h"
    and "namespace p' = namespace p"
    and "cp_leased_wire_indices p' = index_clear (cp_leased_wire_indices p) (lease_of p i)"
  shows "leases_ok p'"
proof -
  have ne: "lease_of p h \<noteq> lease_of p i" if "live p h" "h \<noteq> i" for h
    using that assms(1,3) by (auto simp: leases_ok_def)
  show ?thesis
    unfolding leases_ok_def
  proof (intro conjI allI impI)
    fix j
    show "index_bit (cp_leased_wire_indices p') j \<longleftrightarrow> (\<exists>h. live p' h \<and> lease_of p' h = j)"
    proof -
      have "(\<exists>h. live p' h \<and> lease_of p' h = j) \<longleftrightarrow> (\<exists>h. live p h \<and> h \<noteq> i \<and> lease_of p h = j)"
        using assms(4,5) by metis
      then show ?thesis
        using assms(1) ne unfolding assms(7) index_bit_clear [OF assms(2)] by (auto simp: leases_ok_def)
    qed
  qed (use assms(1) in \<open>auto simp: leases_ok_def assms(4-6)\<close>)
qed

lemma control_release_Ok:
  assumes "control_inv REQUESTS p" "control_release REQUESTS p h = (p', Inr u)"
  shows "live p h \<and> (\<forall>k. live p' k \<longleftrightarrow> live p k \<and> k \<noteq> h) \<and> control_inv REQUESTS p' \<and>
    namespace p' = namespace p \<and> cp_wire_index_count p' = cp_wire_index_count p \<and>
    (\<forall>k. k \<noteq> h \<longrightarrow> control_get REQUESTS p' k = control_get REQUESTS p k)"
proof -
  have h: "h < REQUESTS" "live p h" "h < 64" and R: "length (cp_requests p) = REQUESTS"
    using assms by (auto simp: control_release_def live_def and_exp_eq_0_iff_not_bit control_inv_def split: if_splits)
  have p': "cp_used p' = cp_used p AND NOT (push_bit h 1)" "cp_requests p' = (cp_requests p)[h := control_request_empty]"
    "cp_wire_indices p' = cp_wire_indices p" "cp_wire_index_count p' = cp_wire_index_count p"
    "length (cp_leased_wire_indices p') = length (cp_leased_wire_indices p)"
    "cp_wire_index_count p \<noteq> 0 \<Longrightarrow>
       cp_leased_wire_indices p' = index_clear (cp_leased_wire_indices p) (lease_of p h)"
    using assms(2) by (auto simp: control_release_def Let_def control_put_def lease_of_def split: if_splits)
  have live': "live p' k \<longleftrightarrow> live p k \<and> k \<noteq> h" for k
    using bit_clear [OF h(3), of "cp_used p" k] by (simp add: live_def p' del: push_bit_of_1)
  have req: "cp_requests p' ! k = cp_requests p ! k" if "k \<noteq> h" for k
    using that by (simp add: p'(2))
  have ns: "namespace p' = namespace p" by (simp add: namespace_def p')
  have "leases_ok p'" if "cp_wire_index_count p \<noteq> 0"
    using leases_ok_remove [of p h p'] that assms(1) h(2) live' req ns p'(6)
    by (auto simp: control_inv_def lease_of_def)
  then have "control_inv REQUESTS p'"
    using assms(1) live' req unfolding control_inv_def by (simp add: p'(2-5))
  then show ?thesis using h live' req ns p'(4) by (auto simp: control_get_alt)
qed

lemma control_release_Err: "control_release REQUESTS p h = (p', Inl e) \<Longrightarrow> p' = p"
  by (auto simp: control_release_def Let_def split: if_splits)

section \<open>The pool over its life\<close>

datatype control_op = CoAcquire acquire_args | CoRelease nat | CoBuild nat bytes bytes bytes
  | CoComplete nat u16 u32 bytes u16 | CoMatch rx_match datagram_header bytes | CoFailTransmit nat
  | CoExpire u64

fun control_exec :: "nat \<Rightarrow> control_pool \<Rightarrow> control_op \<Rightarrow> control_pool" where
  "control_exec REQUESTS p (CoAcquire a) = fst (control_acquire_with_response_policy REQUESTS p a)"
| "control_exec REQUESTS p (CoRelease h) = fst (control_release REQUESTS p h)"
| "control_exec REQUESTS p (CoBuild h buf dst src) = fst (control_build_into_buffer REQUESTS p h buf dst src)"
| "control_exec REQUESTS p (CoComplete h g a pl w) = fst (control_complete REQUESTS p h g a pl w)"
| "control_exec REQUESTS p (CoMatch m hdr pl) = fst (control_complete_match REQUESTS p m hdr pl)"
| "control_exec REQUESTS p (CoFailTransmit h) = fst (control_fail_transmit REQUESTS p h)"
| "control_exec REQUESTS p (CoExpire now) = fst (control_expire_in_flight p now)"

lemma control_exec_inv:
  assumes "control_inv REQUESTS p"
  shows "control_inv REQUESTS (control_exec REQUESTS p op)"
proof (cases op)
  case (CoAcquire a)
  then show ?thesis
    using control_acquire_Ok [OF assms, of a] control_acquire_Err [of REQUESTS p a] assms
    by (cases "control_acquire_with_response_policy REQUESTS p a"; cases "snd (control_acquire_with_response_policy REQUESTS p a)") auto
next
  case (CoRelease h)
  then show ?thesis
    using control_release_Ok [OF assms, of h] control_release_Err [of REQUESTS p h] assms
    by (cases "control_release REQUESTS p h"; cases "snd (control_release REQUESTS p h)") auto
next
  case (CoExpire now)
  then show ?thesis using pool_kept_star [OF expire_in_flight_kept assms] by simp
qed (simp_all add: pool_kept_inv [OF assms] control_build_kept control_complete_pool_kept
    control_match_pool_kept control_fail_pool_kept)

interpretation control: step_system "control_exec REQUESTS" "control_inv REQUESTS"
  by unfold_locales (rule control_exec_inv)

lemma control_exec_namespace:
  assumes "control_inv REQUESTS p"
  shows "namespace (control_exec REQUESTS p op) = namespace p \<and>
    cp_wire_index_count (control_exec REQUESTS p op) = cp_wire_index_count p"
proof (cases op)
  case (CoAcquire a)
  then show ?thesis
    using control_acquire_Ok [OF assms, of a] control_acquire_Err [of REQUESTS p a]
    by (cases "control_acquire_with_response_policy REQUESTS p a"; cases "snd (control_acquire_with_response_policy REQUESTS p a)") auto
next
  case (CoRelease h)
  then show ?thesis
    using control_release_Ok [OF assms, of h] control_release_Err [of REQUESTS p h]
    by (cases "control_release REQUESTS p h"; cases "snd (control_release REQUESTS p h)") auto
next
  case (CoExpire now)
  then show ?thesis using pool_kept_star [OF expire_in_flight_kept assms] by simp
qed (simp_all add: pool_kept_namespace control_build_kept control_complete_pool_kept
    control_match_pool_kept control_fail_pool_kept)

interpretation control_indices: ranked_system "control_exec REQUESTS" "control_inv REQUESTS"
    "\<lambda>p. namespace p = ns \<and> cp_wire_index_count p = n"
  by unfold_locales (simp add: control_exec_namespace)

section \<open>Leases\<close>

lemma check_wire_indices_Ok:
  "length seen = 4 \<Longrightarrow> check_wire_indices is cyclic seen = Inr u \<Longrightarrow>
     distinct is \<and> set is \<inter> set cyclic = {} \<and> (\<forall>i\<in>set is. \<not> index_bit seen i)"
  by (induction "is" cyclic seen rule: check_wire_indices.induct) (auto simp: index_bit_set split: if_splits)

lemma control_pool_new_excluding_Ok:
  assumes "control_pool_new_excluding REQUESTS indices cyclic = Inr p"
  shows "control_inv REQUESTS p \<and> namespace p = indices \<and> cp_wire_index_count p = length indices \<and>
    indices \<noteq> [] \<and> distinct indices \<and> set indices \<inter> set cyclic = {}"
proof -
  have p: "0 < REQUESTS" "REQUESTS \<le> 64" "indices \<noteq> []" "length indices \<le> 64"
    "check_wire_indices indices cyclic (replicate 4 0) = Inr ()"
    "p = (control_pool_new REQUESTS)\<lparr>cp_wire_indices := copy_at (replicate 64 0) 0 indices,
      cp_wire_index_count := length indices\<rparr>"
    using assms by (auto simp: control_pool_new_excluding_def control_pool_new_def Let_def split: if_splits sum.splits)
  have no: "\<not> live p h" "\<not> index_bit (cp_leased_wire_indices p) j" for h j
    by (simp_all add: p(6) live_def control_pool_new_def)
  have "namespace p = indices" using p(4) by (simp add: p(6) namespace_def copy_at_def)
  moreover have "control_inv REQUESTS p"
    using p(1-4) no by (simp add: control_inv_def leases_ok_def) (simp add: p(6) control_pool_new_def)
  ultimately show ?thesis using check_wire_indices_Ok [OF _ p(5)] p(3) by (simp add: p(6))
qed

lemma in_use_card:
  "control_in_use p = card {h. live p h}"
proof -
  have "{i. i < 64 \<and> bit (cp_used p) i} = {h. live p h}"
    by (auto simp: live_def dest: bit_imp_le_length)
  then show ?thesis by (simp add: control_in_use_def count_ones_card)
qed

lemma finite_live: "finite {h. live p h}"
  by (rule finite_subset [of _ "{..<64}"]) (auto simp: live_def dest: bit_imp_le_length)

lemma select_wire_None:
  assumes "select_wire p os = None" "o' \<in> set os"
  shows "index_bit (cp_leased_wire_indices p)
    (cp_wire_indices p ! ((cp_next_wire_index p + o') mod cp_wire_index_count p))"
  using assms by (induction p os rule: select_wire.induct) (auto simp: Let_def split: if_splits)

text \<open>Searching round the whole namespace visits every position.\<close>

lemma round_trip_position:
  assumes "k < n" shows "\<exists>o'<n. (s + o') mod n = (k :: nat)"
proof (intro exI conjI)
  show "(k + n - s mod n) mod n < n" using assms by simp
  have "(s + (k + n - s mod n) mod n) mod n = (s mod n + (k + n - s mod n)) mod n"
    by (simp add: mod_simps)
  also have "s mod n + (k + n - s mod n) = k + n"
    using assms by (intro le_add_diff_inverse) (simp add: less_imp_le trans_le_add2)
  finally show "(s + (k + n - s mod n) mod n) mod n = k" using assms by simp
qed

lemma lease_exhausted:
  assumes "control_inv REQUESTS p" "distinct (namespace p)" "lease_wire_index p i = Inl e"
  shows "cp_wire_index_count p \<le> control_in_use p"
proof -
  let ?n = "cp_wire_index_count p"
  have n: "?n \<noteq> 0" and none: "select_wire p [0..<?n] = None"
    using assms(3) by (auto simp: lease_wire_index_def split: if_splits option.splits)
  have ok: "leases_ok p" and len: "length (namespace p) = ?n"
    using assms(1) n by (auto simp: control_inv_def namespace_def)
  have "w \<in> lease_of p ` {h. live p h}" if "w \<in> set (namespace p)" for w
  proof -
    have "\<exists>k<?n. w = cp_wire_indices p ! k"
      using that len by (auto simp: in_set_conv_nth namespace_def)
    then obtain k where k: "k < ?n" "w = cp_wire_indices p ! k" by blast
    obtain o' where "o' < ?n" "(cp_next_wire_index p + o') mod ?n = k" using round_trip_position [OF k(1)] by blast
    with select_wire_None [OF none, of o'] k(2) have "index_bit (cp_leased_wire_indices p) w" by simp
    then show ?thesis using ok by (auto simp: leases_ok_def)
  qed
  then have "card (set (namespace p)) \<le> card {h. live p h}"
    by (intro surj_card_le finite_live subsetI)
  then show ?thesis using distinct_card [OF assms(2)] len by (simp add: in_use_card)
qed

lemma slots_exhausted:
  assumes "control_inv REQUESTS p"
    and "NOT (cp_used p) AND (if REQUESTS = 64 then - 1 else push_bit REQUESTS 1 - 1) = 0" (is "?a = 0")
  shows "REQUESTS \<le> control_in_use p"
proof -
  have R: "REQUESTS \<le> 64" using assms(1) by (simp add: control_inv_def)
  have "live p h" if "h < REQUESTS" for h
  proof -
    have "\<not> bit ?a h" using assms(2) by simp
    then show ?thesis
      using that R bit_low_mask [OF R, of h]
      by (auto simp: live_def bit_and_iff bit_not_iff simp del: push_bit_of_1)
  qed
  then have "card {..<REQUESTS} \<le> card {h. live p h}" by (intro card_mono finite_live) auto
  then show ?thesis by (simp add: in_use_card)
qed

text \<open>C31. Wire indices are leased exclusively and never leak: for a pool created with a reserved
  namespace, in every state of its life the requests in use carry pairwise different indices of
  the namespace, none of which belongs to the cyclic traffic, and a new request of admissible
  size is admitted whenever fewer requests are in use than there are slots and indices.\<close>

theorem control_leases_exclusive:
  assumes "control_pool_new_excluding REQUESTS indices cyclic = Ok p0"
    and "p = foldl (control_exec REQUESTS) p0 ops"
  shows "(control_get REQUESTS p h = Some r \<longrightarrow>
      cr_datagram_index r \<in> set indices \<and> cr_datagram_index r \<notin> set cyclic) \<and>
    (control_get REQUESTS p h = Some r \<and> control_get REQUESTS p h' = Some r' \<and> h \<noteq> h' \<longrightarrow>
      cr_datagram_index r \<noteq> cr_datagram_index r') \<and>
    (control_in_use p < min REQUESTS (length indices) \<and>
     max (length (aq_payload a)) (aq_response_length a) \<le> MAX_CONTROL_PAYLOAD \<longrightarrow>
      is_ok (snd (control_acquire_with_response_policy REQUESTS p a)))"
proof -
  note new = control_pool_new_excluding_Ok [OF assms(1)]
  have inv: "control_inv REQUESTS p"
    unfolding assms(2) using control.run_invar new by blast
  have ns: "namespace p = indices" "cp_wire_index_count p = length indices"
    unfolding assms(2) using control_indices.run_above [of REQUESTS p0 indices "length indices" ops] new by auto
  have ok: "leases_ok p" using inv ns(2) new by (simp add: control_inv_def)
  have get: "live p k \<and> cr_datagram_index x = lease_of p k" if "control_get REQUESTS p k = Some x" for k x
    using that inv by (auto simp: control_get_Some control_inv_def request_wf_def lease_of_def)
  have "is_ok (snd (control_acquire_with_response_policy REQUESTS p a))"
    if free: "control_in_use p < min REQUESTS (length indices)"
      and size: "max (length (aq_payload a)) (aq_response_length a) \<le> MAX_CONTROL_PAYLOAD"
  proof -
    obtain p1 w where "lease_wire_index p (aq_datagram_index a) = Inr (p1, w)"
      using lease_exhausted [OF inv, of "aq_datagram_index a"] new ns free
      by (cases "lease_wire_index p (aq_datagram_index a)") auto
    then show ?thesis
      using slots_exhausted [OF inv] free size inv
      by (auto simp: control_acquire_with_response_policy_def Let_def control_inv_def simp del: push_bit_of_1)
  qed
  then show ?thesis
    using ok get [of h r] get [of h' r'] new ns(1) by (auto simp: leases_ok_def)
qed

definition sample_args :: acquire_args where
  "sample_args = \<lparr>aq_datagram_index = 1, aq_generation = 7, aq_address = 0x01301001, aq_operation = RegRead,
     aq_payload = [], aq_response_length = 6, aq_deadline_ns = 50, aq_expected_wkc = 1,
     aq_working_counter_policy = WkcExact, aq_address_policy = AddrExact\<rparr>"

theorem control_leases_exclusive_witness:
  "case control_pool_new_excluding 2 [0x40, 0x41] [1] of
     Inr p0 \<Rightarrow> is_ok (snd (control_acquire_with_response_policy 2 p0 sample_args)) | Inl _ \<Rightarrow> False"
proof -
  obtain p0 where p0: "control_pool_new_excluding 2 [0x40, 0x41] [1] = Ok p0"
    by (simp add: control_pool_new_excluding_def index_bit_def index_set_def Let_def unat_div unat_mod)
  then have "cp_used p0 = 0"
    by (auto simp: control_pool_new_excluding_def control_pool_new_def Let_def split: if_splits sum.splits)
  then have "control_in_use p0 = 0" by (simp add: control_in_use_def count_ones_def)
  with control_leases_exclusive [OF p0, of p0 "[]" _ _ _ _ sample_args] p0 show ?thesis
    by (simp add: sample_args_def MAX_CONTROL_PAYLOAD_def)
qed

section \<open>Settled requests\<close>

text \<open>Operations other than the release of \<open>h\<close>.\<close>

definition exec_holding :: "nat \<Rightarrow> nat \<Rightarrow> control_pool \<Rightarrow> control_op \<Rightarrow> control_pool" where
  "exec_holding REQUESTS h p op = (if op = CoRelease h then p else control_exec REQUESTS p op)"

lemma exec_holding_get:
  assumes "control_inv REQUESTS p" "control_get REQUESTS p h = Some r"
    and "cr_state r = RsComplete \<or> cr_state r = RsFailed"
  shows "control_get REQUESTS (exec_holding REQUESTS h p op) h = Some r"
proof (cases op)
  case (CoAcquire a)
  obtain p' res where acq: "control_acquire_with_response_policy REQUESTS p a = (p', res)" by fastforce
  show ?thesis
  proof (cases res)
    case (Inr k)
    with control_acquire_Ok [OF assms(1)] acq have "\<not> live p k" "\<forall>j. j \<noteq> k \<longrightarrow> control_get REQUESTS p' j = control_get REQUESTS p j"
      by blast+
    moreover have "live p h" using assms(2) by (simp add: control_get_Some)
    ultimately have "control_get REQUESTS p' h = Some r" using assms(2) by metis
    then show ?thesis using CoAcquire acq by (simp add: exec_holding_def)
  next
    case (Inl e)
    then have "p' = p" using control_acquire_Err acq by simp
    then show ?thesis using CoAcquire acq assms(2) by (simp add: exec_holding_def)
  qed
next
  case (CoRelease k)
  obtain p' res where rel: "control_release REQUESTS p k = (p', res)" by fastforce
  show ?thesis
    using CoRelease rel assms(2) control_release_Ok [OF assms(1), of k] control_release_Err [of REQUESTS p k]
    by (cases res) (auto simp: exec_holding_def)
next
  case (CoExpire now)
  then show ?thesis
    using pool_kept_star [OF expire_in_flight_kept assms(1)] assms(2,3) by (simp add: exec_holding_def)
qed (use assms pool_kept_get [OF assms(1) _ assms(2,3)] in
    \<open>simp_all add: exec_holding_def control_build_kept control_complete_pool_kept
      control_match_pool_kept control_fail_pool_kept\<close>)

interpretation settled: ranked_system "exec_holding REQUESTS h" "control_inv REQUESTS"
    "\<lambda>p. control_get REQUESTS p h = Some r \<and> (cr_state r = RsComplete \<or> cr_state r = RsFailed)"
  by unfold_locales (auto simp: exec_holding_get, simp add: exec_holding_def control_exec_inv)

lemma request_completes:
  assumes "request_wf r" "cr_state r = RsInFlight" "cr_generation r = g"
    and "address_accepts (cr_address_policy r) (command_code (operation_command (cr_operation r))) (cr_address r) a w"
    and "cr_response_length r = length pl" "wkc_accepts (cr_working_counter_policy r) (cr_expected_wkc r) w"
  shows "\<exists>r'. request_complete r g a pl w = (r', Ok ()) \<and> cr_state r' = RsComplete \<and>
    request_payload r' = pl \<and> cr_actual_wkc r' = w"
  using assms by (simp add: request_complete_def request_wf_def request_payload_def copy_at_def)

lemma command_code_inject: "command_code a = command_code b \<longleftrightarrow> a = b"
  by (cases a; cases b) simp_all

text \<open>C32. The receive index and the request pool agree: if a request in flight waits in the
  receive index under its wire index with the expectation and policies of the request, and the
  index matches a response, then handing that match, with the datagram it came from, to the pool
  completes the request with exactly the received payload and working counter, and the result
  stays available, whatever else happens to the pool, until the request is released.\<close>

theorem matched_response_completes_request:
  assumes "control_inv REQUESTS p" and "control_get REQUESTS p h = Some r" and "cr_state r = RsInFlight"
    and "length t = 256"
    and "outstanding t (cr_datagram_index r) = Some (promise (of_nat h) (request_expectation r)
      (cr_working_counter_policy r) (cr_address_policy r))"
    and "rx_validate_and_complete t (cr_datagram_index r) resp = (t', Ok m)"
    and "dh_index header = cr_datagram_index r" and "command_code (dh_command header) = rr_command resp"
    and "dh_address header = rr_address resp" and "of_nat (length payload) = rr_payload_size resp"
    and "length payload < 2 ^ 16"
  shows "\<exists>p' r'. control_complete_match REQUESTS p m header payload = (p', Ok ()) \<and>
    control_get REQUESTS p' h = Some r' \<and> cr_state r' = RsComplete \<and> request_payload r' = payload \<and>
    cr_actual_wkc r' = rr_working_counter resp \<and>
    control_get REQUESTS (foldl (exec_holding REQUESTS h) p' ops) h = Some r'"
proof -
  let ?e = "promise (of_nat h) (request_expectation r) (cr_working_counter_policy r) (cr_address_policy r)"
  have h: "h < 64" "live p h" "r = cp_requests p ! h" "h < REQUESTS" and wf: "request_wf r"
    using assms(1,2) by (auto simp: control_get_Some control_inv_def)
  have ok: "response_matches ?e resp" and m: "m = \<lparr>rm_slot_id = of_nat h, rm_generation = cr_generation r,
      rm_working_counter = rr_working_counter resp\<rparr>"
    using rx_validate_outstanding [OF assms(4), of "cr_datagram_index r" resp] assms(5,6)
    by (auto simp: promise_def request_expectation_def split: if_splits)
  have "of_nat (cr_response_length r) = (of_nat (length payload) :: u16)"
    using ok assms(10) by (simp add: response_matches_def promise_def request_expectation_def)
  then have "unat (of_nat (cr_response_length r) :: u16) = unat (of_nat (length payload) :: u16)" by simp
  then have len: "cr_response_length r = length payload"
    using assms(11) wf by (simp add: unat_of_nat take_bit_nat_eq_self request_wf_def MAX_CONTROL_PAYLOAD_def)
  have cmd: "operation_command (cr_operation r) = dh_command header"
    using ok assms(8) by (simp add: response_matches_def promise_def request_expectation_def flip: command_code_inject)
  obtain r' where r': "request_complete r (cr_generation r) (rr_address resp) payload (rr_working_counter resp) = (r', Ok ())"
    "cr_state r' = RsComplete" "request_payload r' = payload" "cr_actual_wkc r' = rr_working_counter resp"
    using request_completes [OF wf assms(3) refl _ len] ok
    by (auto simp: response_matches_def promise_def request_expectation_def)
  let ?p = "control_put p h r'"
  have "unat (of_nat h :: u16) = h" using h(1) by (simp add: unat_of_nat)
  then have match: "control_complete_match REQUESTS p m header payload = (?p, Ok ())"
    using h assms(2,7,9) cmd r'(1)
    by (simp add: control_complete_match_def m handle_from_index_def control_complete_def)
  have inv: "control_inv REQUESTS ?p"
    using pool_kept_inv [OF assms(1)] control_match_pool_kept [of p REQUESTS m header payload] match by simp
  have get: "control_get REQUESTS ?p h = Some r'"
    using h assms(1) by (simp add: control_get_Some live_def control_put_def control_inv_def)
  with match r' settled.run_above [OF inv, of h r' ops] show ?thesis by auto
qed

definition sample_request :: control_request where
  "sample_request = (prepared_request sample_args 0x40)\<lparr>cr_state := RsInFlight\<rparr>"

definition sample_pool :: control_pool where
  "sample_pool = (control_pool_new 1)\<lparr>cp_used := 1, cp_requests := [sample_request]\<rparr>"

definition sample_rx :: rx_index_table where
  "sample_rx = rx_index_new[0x40 := promise (of_nat 0) (request_expectation sample_request) WkcExact AddrExact]"

definition sample_status_response :: rx_response where
  "sample_status_response = \<lparr>rr_generation = 7, rr_address = 0x01301001, rr_payload_size = 6, rr_command = 4,
     rr_working_counter = 1, rr_received_at_ns = 40\<rparr>"

theorem matched_response_completes_request_witness:
  "\<exists>m p' r'. snd (rx_validate_and_complete sample_rx 0x40 sample_status_response) = Ok m \<and>
     control_complete_match 1 sample_pool m (datagram_header_new Fprd 0x40 0x01301001 6) [8, 0, 0, 0, 0, 0] = (p', Ok ()) \<and>
     control_get 1 p' 0 = Some r' \<and> request_payload r' = [8, 0, 0, 0, 0, 0]"
proof -
  have live: "live sample_pool k \<longleftrightarrow> k = 0" for k
    by (auto simp: live_def sample_pool_def bit_1_iff)
  have inv: "control_inv 1 sample_pool"
    unfolding control_inv_def live by (simp add: sample_pool_def control_pool_new_def request_wf_def
        sample_request_def prepared_request_def sample_args_def MAX_CONTROL_PAYLOAD_def)
  have get: "control_get 1 sample_pool 0 = Some sample_request"
    by (simp add: control_get_Some live) (simp add: sample_pool_def)
  have req: "cr_state sample_request = RsInFlight" "cr_datagram_index sample_request = 0x40"
    "cr_working_counter_policy sample_request = WkcExact" "cr_address_policy sample_request = AddrExact"
    by (simp_all add: sample_request_def prepared_request_def sample_args_def)
  have rx: "length sample_rx = 256" "outstanding sample_rx 0x40 = Some (promise (of_nat 0)
      (request_expectation sample_request) WkcExact AddrExact)"
    by (simp_all add: sample_rx_def rx_index_new_def outstanding_def promise_def)
  have val: "rx_validate_and_complete sample_rx 0x40 sample_status_response =
      (fst (rx_validate_and_complete sample_rx 0x40 sample_status_response),
       Ok \<lparr>rm_slot_id = of_nat 0, rm_generation = 7, rm_working_counter = 1\<rparr>)"
    by (simp add: rx_validate_and_complete_def Let_def sample_rx_def rx_index_new_def promise_def
        request_expectation_def sample_request_def prepared_request_def sample_args_def
        sample_status_response_def word_less_nat_alt)
  have rest: "dh_index (datagram_header_new Fprd 0x40 0x01301001 6) = 0x40"
    "command_code (dh_command (datagram_header_new Fprd 0x40 0x01301001 6)) = rr_command sample_status_response"
    "dh_address (datagram_header_new Fprd 0x40 0x01301001 6) = rr_address sample_status_response"
    "of_nat (length [8, 0, 0, 0, 0, 0 :: u8]) = rr_payload_size sample_status_response"
    by (simp_all add: datagram_header_new_def sample_status_response_def)
  have len: "length [8, 0, 0, 0, 0, 0 :: u8] < 2 ^ 16" by simp
  have "snd (rx_validate_and_complete sample_rx 0x40 sample_status_response) =
      Ok \<lparr>rm_slot_id = of_nat 0, rm_generation = 7, rm_working_counter = 1\<rparr>"
    by (subst val) simp
  with matched_response_completes_request [OF inv get req(1) rx(1), unfolded req, OF rx(2) val rest len, of "[]"]
  show ?thesis by blast
qed

end
