(* ===== verification/Slave_States.thy ===== *)
theory Slave_States
  imports Esop_Prelude
begin

text \<open>
  Slaves and their application-layer states (\<open>slave.rs\<close>), with the register addresses that the
  state controller uses (\<open>registers.rs\<close>). \<open>MAX_SLAVES\<close> is the const generic of the table.
\<close>

section \<open>States\<close>

definition AL_STATE_MASK :: u16 where "AL_STATE_MASK = 0x000F"
definition AL_ERROR_FLAG :: u16 where "AL_ERROR_FLAG = 0x0010"

datatype ethercat_state = StInit | StPreOp | StBootstrap | StSafeOp | StOp | StUnknown

fun state_code :: "ethercat_state \<Rightarrow> u16" where
  "state_code StInit = 0x01" | "state_code StPreOp = 0x02" | "state_code StBootstrap = 0x03"
| "state_code StSafeOp = 0x04" | "state_code StOp = 0x08" | "state_code StUnknown = 0x00"

definition from_al_status :: "u16 \<Rightarrow> ethercat_state" where
  "from_al_status status =
     (let s = status AND AL_STATE_MASK in
      if s = 0x01 then StInit else if s = 0x02 then StPreOp else if s = 0x03 then StBootstrap
      else if s = 0x04 then StSafeOp else if s = 0x08 then StOp else StUnknown)"

definition is_operational :: "ethercat_state \<Rightarrow> bool" where
  "is_operational s \<longleftrightarrow> s = StOp"

record al_status =
  als_state :: ethercat_state
  als_error :: bool
  als_raw :: u16
  als_code :: u16

definition al_status_new :: "u16 \<Rightarrow> u16 \<Rightarrow> al_status" where
  "al_status_new raw code = \<lparr>als_state = from_al_status raw, als_error = (raw AND AL_ERROR_FLAG \<noteq> 0),
     als_raw = raw, als_code = code\<rparr>"

fun next_state :: "ethercat_state \<Rightarrow> ethercat_state \<Rightarrow> ethercat_state option" where
  "next_state StInit StPreOp = Some StPreOp"
| "next_state StInit StSafeOp = Some StPreOp"
| "next_state StInit StOp = Some StPreOp"
| "next_state StPreOp StSafeOp = Some StSafeOp"
| "next_state StPreOp StOp = Some StSafeOp"
| "next_state StSafeOp StOp = Some StOp"
| "next_state StOp StSafeOp = Some StSafeOp"
| "next_state StOp StPreOp = Some StSafeOp"
| "next_state StOp StInit = Some StSafeOp"
| "next_state StSafeOp StPreOp = Some StPreOp"
| "next_state StSafeOp StInit = Some StPreOp"
| "next_state StPreOp StInit = Some StInit"
| "next_state StBootstrap StInit = Some StInit"
| "next_state _ _ = None"

definition valid_target :: "ethercat_state \<Rightarrow> ethercat_state \<Rightarrow> bool" where
  "valid_target current target \<longleftrightarrow> current \<noteq> StUnknown \<and> target \<noteq> StUnknown \<and>
     (current = target \<or> next_state current target \<noteq> None)"

section \<open>Registers\<close>

definition ESC_AL_STATUS :: u16 where "ESC_AL_STATUS = 0x0130"
definition ESC_AL_CONTROL :: u16 where "ESC_AL_CONTROL = 0x0120"
definition AL_STATUS_WITH_CODE_LEN :: u16 where "AL_STATUS_WITH_CODE_LEN = 6"

definition fixed_address :: "u16 \<Rightarrow> u16 \<Rightarrow> u32" where
  "fixed_address station register = push_bit 16 (ucast register) OR ucast station"

definition auto_increment_address :: "u16 \<Rightarrow> u16 \<Rightarrow> u32" where
  "auto_increment_address pos register = push_bit 16 (ucast register) OR ucast (0 - pos :: u16)"

definition station_from_address :: "u32 \<Rightarrow> u16" where
  "station_from_address address = ucast address"

definition register_from_address :: "u32 \<Rightarrow> u16" where
  "register_from_address address = ucast (drop_bit 16 address)"

lemma address_parts [simp]:
  "station_from_address (fixed_address s r) = s" "register_from_address (fixed_address s r) = r"
  "register_from_address (auto_increment_address p r) = r"
  by (rule bit_word_eqI; auto simp: station_from_address_def register_from_address_def fixed_address_def
      auto_increment_address_def bit_simps dest: bit_imp_le_length)+

section \<open>The slave table\<close>

record slave_identity =
  si_vendor_id :: u32
  si_product_code :: u32
  si_revision :: u32
  si_serial :: u32

definition slave_identity_empty :: slave_identity where
  "slave_identity_empty = \<lparr>si_vendor_id = 0, si_product_code = 0, si_revision = 0, si_serial = 0\<rparr>"

definition identity_matches :: "slave_identity \<Rightarrow> slave_identity \<Rightarrow> bool" where
  "identity_matches i expected \<longleftrightarrow> si_vendor_id i = si_vendor_id expected \<and>
     si_product_code i = si_product_code expected \<and> si_revision i = si_revision expected \<and>
     (si_serial expected = 0 \<or> si_serial i = si_serial expected)"

record slave_record =
  sl_position :: u16
  sl_station_address :: u16
  sl_identity :: slave_identity
  sl_online :: bool
  sl_configured :: bool
  sl_al_status :: al_status
  sl_requested_state :: ethercat_state
  sl_transition_deadline_ns :: u64
  sl_last_seen_cycle :: u64

definition slave_record_empty :: slave_record where
  "slave_record_empty = \<lparr>sl_position = 0, sl_station_address = 0, sl_identity = slave_identity_empty,
     sl_online = False, sl_configured = False,
     sl_al_status = \<lparr>als_state = StUnknown, als_error = False, als_raw = 0, als_code = 0\<rparr>,
     sl_requested_state = StInit, sl_transition_deadline_ns = 0, sl_last_seen_cycle = 0\<rparr>"

datatype slave_table_error = StCapacityExceeded | StDuplicatePosition | StUnknownPosition
  | StIdentityMismatch | StInvalidTransition

record slave_table =
  slt_records :: "slave_record list"
  slt_count :: nat

definition slave_table_new :: "nat \<Rightarrow> slave_table" where
  "slave_table_new MAX_SLAVES = \<lparr>slt_records = replicate MAX_SLAVES slave_record_empty, slt_count = 0\<rparr>"

definition slave_table_is_empty :: "slave_table \<Rightarrow> bool" where
  "slave_table_is_empty t \<longleftrightarrow> slt_count t = 0"

definition slave_records :: "slave_table \<Rightarrow> slave_record list" where
  "slave_records t = take (slt_count t) (slt_records t)"

definition slave_add ::
  "nat \<Rightarrow> slave_table \<Rightarrow> u16 \<Rightarrow> u16 \<Rightarrow> slave_identity \<Rightarrow> slave_table \<times> (slave_table_error, nat) result" where
  "slave_add MAX_SLAVES t pos station identity =
     (if MAX_SLAVES \<le> slt_count t then (t, Err StCapacityExceeded)
      else if \<exists>r\<in>set (slave_records t). sl_position r = pos then (t, Err StDuplicatePosition)
      else (t\<lparr>slt_records := (slt_records t)[slt_count t := \<lparr>sl_position = pos,
                sl_station_address = station, sl_identity = identity, sl_online = True,
                sl_configured = False, sl_al_status = sl_al_status slave_record_empty,
                sl_requested_state = StInit, sl_transition_deadline_ns = 0, sl_last_seen_cycle = 0\<rparr>],
              slt_count := slt_count t + 1\<rparr>, Ok (slt_count t)))"

definition slave_find :: "slave_table \<Rightarrow> u16 \<Rightarrow> nat option" where
  "slave_find t pos = position (\<lambda>r. sl_position r = pos) (slave_records t)"

definition slave_get :: "slave_table \<Rightarrow> u16 \<Rightarrow> slave_record option" where
  "slave_get t pos = map_option (\<lambda>i. slt_records t ! i) (slave_find t pos)"

text \<open>The update of the record that \<open>get_mut\<close> finds; without one, the error of the callers.\<close>

definition slave_update ::
  "slave_table \<Rightarrow> u16 \<Rightarrow> (slave_record \<Rightarrow> slave_record \<times> (slave_table_error, unit) result) \<Rightarrow>
     slave_table \<times> (slave_table_error, unit) result" where
  "slave_update t pos f =
     (case slave_find t pos of
        None \<Rightarrow> (t, Err StUnknownPosition)
      | Some i \<Rightarrow> (case f (slt_records t ! i) of (r, res) \<Rightarrow> (t\<lparr>slt_records := (slt_records t)[i := r]\<rparr>, res)))"

definition verify_identity ::
  "slave_table \<Rightarrow> u16 \<Rightarrow> slave_identity \<Rightarrow> slave_table \<times> (slave_table_error, unit) result" where
  "verify_identity t pos expected = slave_update t pos (\<lambda>r.
     if \<not> identity_matches (sl_identity r) expected
     then (r\<lparr>sl_configured := False\<rparr>, Err StIdentityMismatch)
     else (r\<lparr>sl_configured := True\<rparr>, Ok ()))"

definition request_state ::
  "slave_table \<Rightarrow> u16 \<Rightarrow> ethercat_state \<Rightarrow> u64 \<Rightarrow> slave_table \<times> (slave_table_error, unit) result" where
  "request_state t pos target deadline = slave_update t pos (\<lambda>r.
     if \<not> valid_target (als_state (sl_al_status r)) target then (r, Err StInvalidTransition)
     else (r\<lparr>sl_requested_state := target, sl_transition_deadline_ns := deadline\<rparr>, Ok ()))"

definition observe_status ::
  "slave_table \<Rightarrow> u16 \<Rightarrow> al_status \<Rightarrow> u64 \<Rightarrow> slave_table \<times> (slave_table_error, unit) result" where
  "observe_status t pos status now = slave_update t pos (\<lambda>r.
     (r\<lparr>sl_online := True, sl_al_status := status, sl_last_seen_cycle := now\<rparr>, Ok ()))"

definition set_configured ::
  "slave_table \<Rightarrow> u16 \<Rightarrow> bool \<Rightarrow> slave_table \<times> (slave_table_error, unit) result" where
  "set_configured t pos c = slave_update t pos (\<lambda>r. (r\<lparr>sl_configured := c\<rparr>, Ok ()))"

definition next_request :: "slave_table \<Rightarrow> u16 \<Rightarrow> (slave_table_error, ethercat_state option) result" where
  "next_request t pos =
     (case slave_get t pos of
        None \<Rightarrow> Err StUnknownPosition
      | Some r \<Rightarrow> if als_error (sl_al_status r) then Ok None
                  else Ok (next_state (als_state (sl_al_status r)) (sl_requested_state r)))"

definition mark_offline :: "slave_table \<Rightarrow> u16 \<Rightarrow> slave_table \<times> (slave_table_error, unit) result" where
  "mark_offline t pos = slave_update t pos (\<lambda>r.
     (r\<lparr>sl_online := False, sl_configured := False, sl_requested_state := StInit\<rparr>, Ok ()))"

section \<open>Lookup after update\<close>

definition slave_table_inv :: "nat \<Rightarrow> slave_table \<Rightarrow> bool" where
  "slave_table_inv MAX_SLAVES t \<longleftrightarrow> length (slt_records t) = MAX_SLAVES \<and> slt_count t \<le> MAX_SLAVES \<and>
     distinct (map sl_position (slave_records t))"

lemma slave_add_inv:
  assumes "slave_table_inv MAX_SLAVES t" "slave_add MAX_SLAVES t pos station identity = (t', r)"
  shows "slave_table_inv MAX_SLAVES t'"
  using assms by (auto simp: slave_add_def slave_table_inv_def slave_records_def split: if_splits)

lemma slave_find_Some:
  assumes "slave_table_inv MAX_SLAVES t" "slave_find t pos = Some i"
  shows "i < slt_count t" "sl_position (slt_records t ! i) = pos"
  using assms position_Some [of "\<lambda>r. sl_position r = pos" "slave_records t" i]
  by (auto simp: slave_find_def slave_table_inv_def slave_records_def)

lemma slave_update_records:
  assumes "i < slt_count t" "sl_position r = sl_position (slt_records t ! i)"
  shows "map sl_position (slave_records (t\<lparr>slt_records := (slt_records t)[i := r]\<rparr>)) =
    map sl_position (slave_records t)"
proof (rule nth_equalityI)
  fix k assume "k < length (map sl_position (slave_records (t\<lparr>slt_records := (slt_records t)[i := r]\<rparr>)))"
  with assms show "map sl_position (slave_records (t\<lparr>slt_records := (slt_records t)[i := r]\<rparr>)) ! k =
      map sl_position (slave_records t) ! k"
    by (cases "k = i") (simp_all add: slave_records_def)
qed (simp add: slave_records_def)

text \<open>Looking a record up depends on the positions only.\<close>

lemma position_map: "position (\<lambda>r. f r = k) xs = position ((=) k) (map f xs)"
  by (induction xs) auto

lemma slave_find_positions: "slave_find t pos = position ((=) pos) (map sl_position (slave_records t))"
  by (simp add: slave_find_def position_map)

definition keeps_position :: "(slave_record \<Rightarrow> slave_record \<times> 'r) \<Rightarrow> bool" where
  "keeps_position f \<longleftrightarrow> (\<forall>r. sl_position (fst (f r)) = sl_position r)"

lemma slave_update_lookup:
  assumes "slave_table_inv MAX_SLAVES t" "keeps_position f" "slave_get t pos = Some r"
  shows "\<exists>t'. slave_update t pos f = (t', snd (f r)) \<and> slave_table_inv MAX_SLAVES t' \<and>
    slave_get t' k = (if k = pos then Some (fst (f r)) else slave_get t k)"
proof -
  obtain i where i: "slave_find t pos = Some i" and r: "r = slt_records t ! i"
    using assms(3) by (auto simp: slave_get_def)
  note ic = slave_find_Some [OF assms(1) i]
  let ?t = "t\<lparr>slt_records := (slt_records t)[i := fst (f r)]\<rparr>"
  have same: "map sl_position (slave_records ?t) = map sl_position (slave_records t)"
    using slave_update_records [OF ic(1)] assms(2) by (simp add: keeps_position_def r)
  then have find: "slave_find ?t k = slave_find t k" for k by (simp add: slave_find_positions)
  have "slave_find t k = Some i \<Longrightarrow> k = pos" using slave_find_Some [OF assms(1)] ic by blast
  then have "slave_get ?t k = (if k = pos then Some (fst (f r)) else slave_get t k)"
    unfolding slave_get_def find using i ic(1) assms(1)
    by (cases "slave_find t k") (auto simp: slave_table_inv_def nth_list_update)
  moreover have "slave_table_inv MAX_SLAVES ?t" using assms(1) same by (simp add: slave_table_inv_def)
  moreover have "slave_update t pos f = (?t, snd (f r))" using i r by (simp add: slave_update_def split: prod.split)
  ultimately show ?thesis by blast
qed

section \<open>Reaching a state\<close>

lemma from_state_code [simp]: "from_al_status (state_code s) = s"
  by (cases s) (simp_all add: from_al_status_def AL_STATE_MASK_def)

lemma status_of_state: "al_status_new (state_code s) c = \<lparr>als_state = s, als_error = False, als_raw = state_code s, als_code = c\<rparr>"
  by (cases s) (simp_all add: al_status_new_def from_al_status_def AL_STATE_MASK_def AL_ERROR_FLAG_def)

text \<open>A slave that obeys: it takes the state that is requested next and reports it.\<close>

definition obey :: "u64 \<Rightarrow> u16 \<Rightarrow> slave_table \<Rightarrow> slave_table" where
  "obey now pos t =
     (case next_request t pos of
        Inr (Some s) \<Rightarrow> fst (observe_status t pos (al_status_new (state_code s) 0) now)
      | _ \<Rightarrow> t)"

text \<open>The number of transitions from one state to another.\<close>

fun state_level :: "ethercat_state \<Rightarrow> int" where
  "state_level StInit = 0" | "state_level StPreOp = 1" | "state_level StBootstrap = 1"
| "state_level StSafeOp = 2" | "state_level StOp = 3" | "state_level StUnknown = 0"

definition state_distance :: "ethercat_state \<Rightarrow> ethercat_state \<Rightarrow> nat" where
  "state_distance a b = nat \<bar>state_level a - state_level b\<bar>"

lemma next_state_closer:
  "next_state a b = Some s \<Longrightarrow> valid_target s b \<and> Suc (state_distance s b) = state_distance a b \<and> s \<noteq> StUnknown"
  by (cases a; cases b) (auto simp: valid_target_def state_distance_def)

lemma valid_target_zero: "valid_target a b \<Longrightarrow> state_distance a b = 0 \<longleftrightarrow> a = b"
  by (cases a; cases b) (auto simp: valid_target_def state_distance_def)

lemma next_state_None: "valid_target a b \<Longrightarrow> next_state a b = None \<longleftrightarrow> a = b"
  by (cases a; cases b) (auto simp: valid_target_def)

lemma state_distance_bound: "state_distance a b \<le> 3"
  by (cases a; cases b) (auto simp: state_distance_def)

lemma obey_reaches:
  assumes "slave_table_inv MAX_SLAVES t" "slave_get t pos = Some r" "\<not> als_error (sl_al_status r)"
    and "valid_target (als_state (sl_al_status r)) (sl_requested_state r)"
    and "n = state_distance (als_state (sl_al_status r)) (sl_requested_state r)"
  shows "\<exists>r'. slave_get ((obey now pos ^^ n) t) pos = Some r' \<and>
    als_state (sl_al_status r') = sl_requested_state r \<and> \<not> als_error (sl_al_status r') \<and>
    sl_requested_state r' = sl_requested_state r \<and>
    (\<forall>k. k \<noteq> pos \<longrightarrow> slave_get ((obey now pos ^^ n) t) k = slave_get t k)"
  using assms
proof (induction n arbitrary: t r)
  case 0
  then show ?case using valid_target_zero by auto
next
  case (Suc n)
  let ?a = "als_state (sl_al_status r)" and ?b = "sl_requested_state r"
  have ne: "?a \<noteq> ?b" using Suc.prems(4,5) valid_target_zero by (metis Zero_not_Suc)
  then obtain s where s: "next_state ?a ?b = Some s" using next_state_None [OF Suc.prems(4)] by auto
  note closer = next_state_closer [OF s]
  define f :: "slave_record \<Rightarrow> slave_record \<times> (slave_table_error, unit) result"
    where "f = (\<lambda>r. (r\<lparr>sl_online := True, sl_al_status := al_status_new (state_code s) 0,
      sl_last_seen_cycle := now\<rparr>, Ok ()))"
  have keep: "keeps_position f" by (simp add: keeps_position_def f_def)
  let ?r = "fst (f r)"
  obtain t1 where t1: "slave_update t pos f = (t1, snd (f r))" "slave_table_inv MAX_SLAVES t1"
    "slave_get t1 pos = Some ?r"
    using slave_update_lookup [OF Suc.prems(1) keep Suc.prems(2), of pos] by auto
  have other: "slave_get t1 k = slave_get t k" if "k \<noteq> pos" for k
    using slave_update_lookup [OF Suc.prems(1) keep Suc.prems(2), of k] t1(1) that by auto
  have step: "obey now pos t = t1"
    using t1(1) Suc.prems(2,3) s by (simp add: obey_def next_request_def observe_status_def f_def)
  have "als_state (sl_al_status ?r) = s" "\<not> als_error (sl_al_status ?r)" "sl_requested_state ?r = ?b"
    by (simp_all add: f_def status_of_state)
  moreover have "n = state_distance s ?b" using closer Suc.prems(5) by simp
  moreover have "(obey now pos ^^ Suc n) t = (obey now pos ^^ n) t1"
    by (simp add: funpow_Suc_right step del: funpow.simps)
  ultimately show ?case using Suc.IH [OF t1(2,3)] closer other by simp
qed

text \<open>State requests are reachable step by step: if a slave without error accepts a state
  request, then after at most three transitions, each being the next request of the table that
  an obedient slave carries out and reports, the slave is in the requested state and nothing is
  requested any more; the records of all other slaves are untouched.\<close>

theorem requested_state_reached:
  assumes "slave_table_inv MAX_SLAVES t" and "slave_get t pos = Some r"
    and "\<not> als_error (sl_al_status r)" and "request_state t pos target deadline = (t', Ok ())"
  shows "\<exists>n\<le>3. \<exists>r'. slave_get ((obey now pos ^^ n) t') pos = Some r' \<and>
    als_state (sl_al_status r') = target \<and> next_request ((obey now pos ^^ n) t') pos = Ok None \<and>
    (\<forall>k. k \<noteq> pos \<longrightarrow> slave_get ((obey now pos ^^ n) t') k = slave_get t k)"
proof -
  define f :: "slave_record \<Rightarrow> slave_record \<times> (slave_table_error, unit) result"
    where "f = (\<lambda>r. if \<not> valid_target (als_state (sl_al_status r)) target then (r, Err StInvalidTransition)
     else (r\<lparr>sl_requested_state := target, sl_transition_deadline_ns := deadline\<rparr>, Ok ()))"
  have keep: "keeps_position f" by (simp add: keeps_position_def f_def)
  have up: "slave_update t pos f = (t', Ok ())" using assms(4) by (simp add: request_state_def f_def)
  have look: "slave_table_inv MAX_SLAVES t' \<and> snd (f r) = Ok () \<and>
      slave_get t' k = (if k = pos then Some (fst (f r)) else slave_get t k)" for k
    using slave_update_lookup [OF assms(1) keep assms(2), of k] up by auto
  have "snd (f r) = Ok ()" using look by blast
  then have valid: "valid_target (als_state (sl_al_status r)) target"
    by (auto simp: f_def split: if_splits)
  then have r: "slave_get t' pos = Some (r\<lparr>sl_requested_state := target, sl_transition_deadline_ns := deadline\<rparr>)"
    (is "_ = Some ?r") using look [of pos] by (simp add: f_def)
  let ?n = "state_distance (als_state (sl_al_status r)) target"
  have "\<exists>r'. slave_get ((obey now pos ^^ ?n) t') pos = Some r' \<and>
      als_state (sl_al_status r') = target \<and> \<not> als_error (sl_al_status r') \<and> sl_requested_state r' = target \<and>
      (\<forall>k. k \<noteq> pos \<longrightarrow> slave_get ((obey now pos ^^ ?n) t') k = slave_get t' k)"
    using obey_reaches [OF _ r, of MAX_SLAVES ?n now] look valid assms(3) by simp
  then obtain r' where r': "slave_get ((obey now pos ^^ ?n) t') pos = Some r'"
    "als_state (sl_al_status r') = target" "\<not> als_error (sl_al_status r')" "sl_requested_state r' = target"
    "\<forall>k. k \<noteq> pos \<longrightarrow> slave_get ((obey now pos ^^ ?n) t') k = slave_get t' k" by blast
  have "next_state target target = None" by (cases target) auto
  then have "next_request ((obey now pos ^^ ?n) t') pos = Ok None"
    using r' by (simp add: next_request_def)
  with r' look state_distance_bound show ?thesis by (intro exI [of _ ?n]) auto
qed

definition sample_slaves :: slave_table where
  "sample_slaves = \<lparr>slt_records = [slave_record_empty\<lparr>sl_al_status := al_status_new 1 0\<rparr>], slt_count = 1\<rparr>"

theorem requested_state_reached_witness:
  "\<exists>n\<le>3. \<exists>r. slave_get ((obey 9 0 ^^ n) (fst (request_state sample_slaves 0 StOp 5))) 0 = Some r \<and>
     als_state (sl_al_status r) = StOp"
proof -
  have s: "slave_table_inv 1 sample_slaves"
    "slave_get sample_slaves 0 = Some (slave_record_empty\<lparr>sl_al_status := al_status_new 1 0\<rparr>)"
    by (simp_all add: sample_slaves_def slave_table_inv_def slave_records_def slave_get_def slave_find_def
        slave_record_empty_def)
  have st: "al_status_new 1 0 = \<lparr>als_state = StInit, als_error = False, als_raw = 1, als_code = 0\<rparr>"
    using status_of_state [of StInit 0] by simp
  have q: "request_state sample_slaves 0 StOp 5 = (fst (request_state sample_slaves 0 StOp 5), Ok ())"
    by (simp add: sample_slaves_def request_state_def slave_update_def slave_find_def slave_records_def
        slave_record_empty_def st valid_target_def)
  from requested_state_reached [OF s _ q, of 9] show ?thesis by (auto simp: st)
qed

end
