(* ===== verification/Al_Controller.thy ===== *)
theory Al_Controller
  imports Slave_States Control_Pool System_Interfaces
begin

text \<open>
  The controller of one application-layer state transition (\<open>al.rs\<close>): it writes the AL control
  register, polls the AL status register, and acknowledges errors, one register access at a time.
\<close>

section \<open>Timeouts\<close>

record al_transition_timeouts =
  at_preop_ns :: u64
  at_safeop_to_op_ns :: u64
  at_back_to_init_ns :: u64
  at_back_to_safeop_ns :: u64

definition al_timeouts_uniform :: "u64 \<Rightarrow> al_transition_timeouts" where
  "al_timeouts_uniform t = \<lparr>at_preop_ns = t, at_safeop_to_op_ns = t, at_back_to_init_ns = t, at_back_to_safeop_ns = t\<rparr>"

definition al_timeouts_is_valid :: "al_transition_timeouts \<Rightarrow> bool" where
  "al_timeouts_is_valid t \<longleftrightarrow> at_preop_ns t \<noteq> 0 \<and> at_safeop_to_op_ns t \<noteq> 0 \<and> at_back_to_init_ns t \<noteq> 0 \<and>
     at_back_to_safeop_ns t \<noteq> 0"

definition al_timeouts_for_step ::
  "al_transition_timeouts \<Rightarrow> ethercat_state \<Rightarrow> ethercat_state \<Rightarrow> u64 option" where
  "al_timeouts_for_step t current expected =
     (if current = StUnknown \<or> expected = StUnknown then None
      else if expected = StInit then Some (at_back_to_init_ns t)
      else if expected = StOp then Some (at_safeop_to_op_ns t)
      else if expected = StSafeOp \<and> current = StOp then Some (at_back_to_safeop_ns t)
      else Some (at_preop_ns t))"

definition ETG1020_DEFAULT_TRANSITION_TIMEOUTS_V1 :: al_transition_timeouts where
  "ETG1020_DEFAULT_TRANSITION_TIMEOUTS_V1 = \<lparr>at_preop_ns = 3000000000, at_safeop_to_op_ns = 10000000000,
     at_back_to_init_ns = 5000000000, at_back_to_safeop_ns = 200000000\<rparr>"

section \<open>The controller\<close>

datatype al_phase = AlIdle | AlWritingControl | AlReadingStatus | AlWritingErrorAcknowledge
  | AlReadingErrorAcknowledge | AlComplete | AlFaulted

datatype al_error = AeBusy | AeNotStarted | AeNoPendingAction | AeTokenMismatch
  | AeGenerationMismatch | AeInvalidTransition | AePayloadLengthMismatch
  | AeUnexpectedWorkingCounter | AeTimeout | AeAlErrorCode u16 | AeInvalidResponse

datatype al_progress = ApControlWritten | ApPolling | ApReached ethercat_state

datatype al_ack_policy = AckDisabled | AckEnabled

datatype al_ack_status = AckNotAttempted | AckInProgress | AckComplete

record al_fault_record =
  af_status :: al_status
  af_requested_state :: ethercat_state
  af_acknowledgement :: al_ack_status

record al_action =
  aa_token :: u8
  aa_datagram_index :: u8
  aa_generation :: u16
  aa_station_address :: u16
  aa_operation :: register_operation
  aa_address :: u32
  aa_read_len :: u16
  aa_write_payload :: bytes
  aa_write_len :: u8
  aa_deadline_ns :: u64
  aa_expected_wkc :: u16

definition al_action_payload :: "al_action \<Rightarrow> bytes" where
  "al_action_payload a = take (unat (aa_write_len a)) (aa_write_payload a)"

definition al_action_datagram_len :: "al_action \<Rightarrow> nat" where
  "al_action_datagram_len a =
     (if unat (aa_write_len a) < unat (aa_read_len a) then unat (aa_read_len a) else unat (aa_write_len a))"

record al_transition_request =
  ar_station_address :: u16
  ar_current_state :: ethercat_state
  ar_requested_state :: ethercat_state
  ar_generation :: u16
  ar_now_ns :: u64
  ar_timeout_ns :: u64
  ar_request_timeout_ns :: u64

record al_controller =
  ac_phase :: al_phase
  ac_generation :: u16
  ac_station_address :: u16
  ac_current_state :: ethercat_state
  ac_requested_state :: ethercat_state
  ac_expected_state :: ethercat_state
  ac_observed_status :: al_status
  ac_scan_deadline_ns :: u64
  ac_request_timeout_ns :: u64
  ac_pending :: "al_action option"
  ac_ack_policy :: al_ack_policy
  ac_fault_record :: "al_fault_record option"
  ac_next_token :: u8
  ac_next_datagram_index :: u8
  ac_last_error :: "al_error option"

definition al_controller_new :: al_controller where
  "al_controller_new = \<lparr>ac_phase = AlIdle, ac_generation = 0, ac_station_address = 0,
     ac_current_state = StUnknown, ac_requested_state = StUnknown, ac_expected_state = StUnknown,
     ac_observed_status = \<lparr>als_state = StUnknown, als_error = False, als_raw = 0, als_code = 0\<rparr>,
     ac_scan_deadline_ns = 0, ac_request_timeout_ns = 0, ac_pending = None,
     ac_ack_policy = AckDisabled, ac_fault_record = None, ac_next_token = 1,
     ac_next_datagram_index = 1, ac_last_error = None\<rparr>"

definition al_fail :: "al_controller \<Rightarrow> al_error \<Rightarrow> al_controller" where
  "al_fail c e = c\<lparr>ac_last_error := Some e, ac_pending := None, ac_phase := AlFaulted\<rparr>"

definition begin_error_acknowledgement ::
  "al_controller \<Rightarrow> al_status \<Rightarrow> al_controller \<times> (al_error, unit) result" where
  "begin_error_acknowledgement c status =
     (let c1 = (case ac_fault_record c of
                  None \<Rightarrow> c\<lparr>ac_fault_record := Some \<lparr>af_status = status,
                           af_requested_state = ac_requested_state c, af_acknowledgement = AckNotAttempted\<rparr>\<rparr>
                | Some _ \<Rightarrow> c)
      in if ac_ack_policy c1 = AckDisabled
         then (al_fail c1 (AeAlErrorCode (als_code status)), Err (AeAlErrorCode (als_code status)))
         else case ac_fault_record c1 of
           None \<Rightarrow> (c1, Err AeInvalidResponse)
         | Some fault \<Rightarrow>
             (c1\<lparr>ac_fault_record := Some (fault\<lparr>af_acknowledgement := AckInProgress\<rparr>),
                 ac_phase := AlWritingErrorAcknowledge\<rparr>, Ok ()))"

definition al_expected_step :: "al_transition_request \<Rightarrow> bool \<Rightarrow> (al_error, ethercat_state) result" where
  "al_expected_step q direct_preop =
     (if direct_preop then
        if ar_requested_state q \<noteq> StPreOp \<or>
           \<not> (ar_current_state q = StPreOp \<or> ar_current_state q = StSafeOp \<or> ar_current_state q = StOp)
        then Err AeInvalidTransition else Ok StPreOp
      else if ar_current_state q = ar_requested_state q then Ok (ar_current_state q)
      else ok_or (next_state (ar_current_state q) (ar_requested_state q)) AeInvalidTransition)"

text \<open>The fields that an admitted start sets.\<close>

definition al_load ::
  "al_controller \<Rightarrow> al_transition_request \<Rightarrow> al_status \<Rightarrow> al_ack_policy \<Rightarrow> ethercat_state \<Rightarrow> al_controller" where
  "al_load c q status policy expected =
     c\<lparr>ac_generation := ar_generation q, ac_station_address := ar_station_address q,
       ac_current_state := ar_current_state q, ac_requested_state := ar_requested_state q,
       ac_expected_state := expected, ac_observed_status := status,
       ac_scan_deadline_ns := sat_add (ar_now_ns q) (ar_timeout_ns q),
       ac_request_timeout_ns := ar_request_timeout_ns q, ac_pending := None,
       ac_ack_policy := policy, ac_fault_record := None, ac_next_token := 1,
       ac_next_datagram_index := 1, ac_last_error := None\<rparr>"

definition al_start_inner ::
  "al_controller \<Rightarrow> al_transition_request \<Rightarrow> al_status \<Rightarrow> al_ack_policy \<Rightarrow> bool \<Rightarrow>
     al_controller \<times> (al_error, unit) result" where
  "al_start_inner c q status policy direct_preop =
     (if \<not> (ac_phase c = AlIdle \<or> ac_phase c = AlComplete \<or> ac_phase c = AlFaulted) then (c, Err AeBusy)
      else if ar_current_state q = StUnknown \<or> ar_requested_state q = StUnknown \<or>
              als_state status = StUnknown \<or> als_state status \<noteq> ar_current_state q
        then (c, Err AeInvalidTransition)
      else case al_expected_step q direct_preop of
        Inl e \<Rightarrow> (c, Err e)
      | Inr expected \<Rightarrow>
          let c1 = al_load c q status policy expected
          in if als_error status then begin_error_acknowledgement c1 status
             else (c1\<lparr>ac_phase := (if ar_current_state q = ar_requested_state q then AlComplete
                                   else AlWritingControl)\<rparr>, Ok ()))"

definition al_start_with_status ::
  "al_controller \<Rightarrow> al_transition_request \<Rightarrow> al_status \<Rightarrow> al_ack_policy \<Rightarrow> al_controller \<times> (al_error, unit) result" where
  "al_start_with_status c q status policy = al_start_inner c q status policy False"

definition al_start_direct_preop_with_status ::
  "al_controller \<Rightarrow> al_transition_request \<Rightarrow> al_status \<Rightarrow> al_ack_policy \<Rightarrow> al_controller \<times> (al_error, unit) result" where
  "al_start_direct_preop_with_status c q status policy = al_start_inner c q status policy True"

definition al_start :: "al_controller \<Rightarrow> al_transition_request \<Rightarrow> al_controller \<times> (al_error, unit) result" where
  "al_start c q = al_start_with_status c q (al_status_new (state_code (ar_current_state q)) 0) AckDisabled"

text \<open>The register access of a phase: operation, address, read length, payload, write length.\<close>

definition al_access ::
  "al_controller \<Rightarrow> (al_error, (register_operation \<times> u32 \<times> u16 \<times> bytes \<times> u8) option) result" where
  "al_access c =
     (case ac_phase c of
        AlWritingControl \<Rightarrow> Ok (Some (RegWrite, fixed_address (ac_station_address c) ESC_AL_CONTROL, 0,
          u16_to_le (state_code (ac_expected_state c)), 2))
      | AlWritingErrorAcknowledge \<Rightarrow>
          (case ac_fault_record c of
             None \<Rightarrow> Err AeInvalidResponse
           | Some fault \<Rightarrow> Ok (Some (RegWrite, fixed_address (ac_station_address c) ESC_AL_CONTROL, 0,
               u16_to_le (state_code (als_state (af_status fault)) OR AL_ERROR_FLAG), 2)))
      | AlReadingStatus \<Rightarrow> Ok (Some (RegRead, fixed_address (ac_station_address c) ESC_AL_STATUS,
          AL_STATUS_WITH_CODE_LEN, [0, 0], 0))
      | AlReadingErrorAcknowledge \<Rightarrow> Ok (Some (RegRead, fixed_address (ac_station_address c) ESC_AL_STATUS,
          AL_STATUS_WITH_CODE_LEN, [0, 0], 0))
      | _ \<Rightarrow> Ok None)"

definition al_next_action :: "al_controller \<Rightarrow> u64 \<Rightarrow> al_controller \<times> (al_error, al_action option) result" where
  "al_next_action c now =
     (if ac_phase c = AlIdle then (c, Err AeNotStarted)
      else if ac_phase c = AlComplete \<or> ac_phase c = AlFaulted then (c, Ok None)
      else case ac_pending c of
        Some a \<Rightarrow> (c, Ok (Some a))
      | None \<Rightarrow>
          if ac_scan_deadline_ns c \<le> now then (al_fail c AeTimeout, Err AeTimeout)
          else case al_access c of
            Inl e \<Rightarrow> (c, Err e)
          | Inr None \<Rightarrow> (c, Ok None)
          | Inr (Some (operation, address, read_len, payload, write_len)) \<Rightarrow>
              let a = \<lparr>aa_token = ac_next_token c, aa_datagram_index = ac_next_datagram_index c,
                    aa_generation = ac_generation c, aa_station_address = ac_station_address c,
                    aa_operation = operation, aa_address = address, aa_read_len = read_len,
                    aa_write_payload = payload, aa_write_len = write_len,
                    aa_deadline_ns = min (sat_add now (ac_request_timeout_ns c)) (ac_scan_deadline_ns c),
                    aa_expected_wkc = 1\<rparr>
              in (c\<lparr>ac_next_token := max (ac_next_token c + 1) 1,
                    ac_next_datagram_index := max (ac_next_datagram_index c + 1) 1,
                    ac_pending := Some a\<rparr>, Ok (Some a)))"

definition al_enqueue_pending ::
  "nat \<Rightarrow> al_controller \<Rightarrow> control_pool \<Rightarrow> control_pool \<times> (control_error, nat) result" where
  "al_enqueue_pending REQUESTS c pool =
     (case ac_pending c of
        None \<Rightarrow> (pool, Err CeInvalidState)
      | Some a \<Rightarrow> control_acquire_with_response_len REQUESTS pool (aa_datagram_index a) (aa_generation a)
          (aa_address a) (aa_operation a) (al_action_payload a) (al_action_datagram_len a) (aa_deadline_ns a))"

definition decode_status :: "bytes \<Rightarrow> al_status" where
  "decode_status payload =
     al_status_new (u16_from_le (payload ! 0) (payload ! 1)) (u16_from_le (payload ! 4) (payload ! 5))"

text \<open>What \<open>accept\<close> does with a response that passed the checks.\<close>

definition al_accept_phase :: "al_controller \<Rightarrow> bytes \<Rightarrow> al_controller \<times> (al_error, al_progress) result" where
  "al_accept_phase c payload =
     (case ac_phase c of
        AlWritingControl \<Rightarrow> (c\<lparr>ac_phase := AlReadingStatus, ac_pending := None\<rparr>, Ok ApControlWritten)
      | AlWritingErrorAcknowledge \<Rightarrow>
          (c\<lparr>ac_phase := AlReadingErrorAcknowledge, ac_pending := None\<rparr>, Ok ApControlWritten)
      | AlReadingStatus \<Rightarrow>
          (let status = decode_status payload;
               c1 = c\<lparr>ac_observed_status := status\<rparr>
           in if als_error status then
                (case begin_error_acknowledgement (c1\<lparr>ac_pending := None\<rparr>) status of
                   (c2, Inl e) \<Rightarrow> (c2, Err e)
                 | (c2, Inr _) \<Rightarrow> (c2, Ok ApPolling))
              else if als_state status = ac_expected_state c1
                then (c1\<lparr>ac_phase := AlComplete, ac_pending := None\<rparr>, Ok (ApReached (als_state status)))
              else (c1\<lparr>ac_pending := None\<rparr>, Ok ApPolling))
      | AlReadingErrorAcknowledge \<Rightarrow>
          (let status = decode_status payload;
               c1 = c\<lparr>ac_observed_status := status\<rparr>
           in if als_error status then (c1\<lparr>ac_pending := None\<rparr>, Ok ApPolling)
              else case ac_fault_record c1 of
                None \<Rightarrow> (c1, Err AeInvalidResponse)
              | Some fault \<Rightarrow>
                  if als_state status \<noteq> als_state (af_status fault)
                  then (al_fail c1 AeInvalidResponse, Err AeInvalidResponse)
                  else (al_fail (c1\<lparr>ac_fault_record := Some (fault\<lparr>af_acknowledgement := AckComplete\<rparr>)\<rparr>)
                          (AeAlErrorCode (als_code (af_status fault))),
                        Err (AeAlErrorCode (als_code (af_status fault)))))
      | _ \<Rightarrow> (c, Err AeInvalidResponse))"

definition al_accept ::
  "al_controller \<Rightarrow> u8 \<Rightarrow> u16 \<Rightarrow> bytes \<Rightarrow> u16 \<Rightarrow> u64 \<Rightarrow> al_controller \<times> (al_error, al_progress) result" where
  "al_accept c token generation payload wkc now =
     (case ac_pending c of
        None \<Rightarrow> (c, Err AeNoPendingAction)
      | Some a \<Rightarrow>
          if aa_token a \<noteq> token then (c, Err AeTokenMismatch)
          else if aa_generation a \<noteq> generation then (al_fail c AeGenerationMismatch, Err AeGenerationMismatch)
          else if aa_deadline_ns a < now then (al_fail c AeTimeout, Err AeTimeout)
          else if wkc \<noteq> aa_expected_wkc a
            then (al_fail c AeUnexpectedWorkingCounter, Err AeUnexpectedWorkingCounter)
          else if length payload \<noteq> unat (aa_read_len a)
            then (al_fail c AePayloadLengthMismatch, Err AePayloadLengthMismatch)
          else al_accept_phase c payload)"

definition al_timeout :: "al_controller \<Rightarrow> u8 \<Rightarrow> u64 \<Rightarrow> al_controller \<times> (al_error, unit) result" where
  "al_timeout c token now =
     (case ac_pending c of
        None \<Rightarrow> (c, Err AeNoPendingAction)
      | Some a \<Rightarrow>
          if aa_token a \<noteq> token then (c, Err AeTokenMismatch)
          else if now < aa_deadline_ns a then (c, Err AeTimeout)
          else (al_fail c AeTimeout, Err AeTimeout))"

section \<open>The invariant\<close>

text \<open>A legal step of the state machine, the direct way down to PREOP included.\<close>

definition legal_step :: "ethercat_state \<Rightarrow> ethercat_state \<Rightarrow> ethercat_state \<Rightarrow> bool" where
  "legal_step current requested expected \<longleftrightarrow>
     next_state current requested = Some expected \<or> (current = requested \<and> expected = requested) \<or>
     (requested = StPreOp \<and> expected = StPreOp \<and> current \<in> {StPreOp, StSafeOp, StOp})"

definition action_of_phase :: "al_controller \<Rightarrow> al_action \<Rightarrow> bool" where
  "action_of_phase c a \<longleftrightarrow>
     al_access c = Ok (Some (aa_operation a, aa_address a, aa_read_len a, aa_write_payload a, aa_write_len a)) \<and>
     aa_generation a = ac_generation c \<and> aa_expected_wkc a = 1 \<and> aa_deadline_ns a \<le> ac_scan_deadline_ns c"

definition in_progress :: "al_controller \<Rightarrow> bool" where
  "in_progress c \<longleftrightarrow> ac_phase c \<in> {AlWritingControl, AlReadingStatus, AlWritingErrorAcknowledge,
     AlReadingErrorAcknowledge}"

definition al_inv :: "al_controller \<Rightarrow> bool" where
  "al_inv c \<longleftrightarrow>
     (case ac_pending c of None \<Rightarrow> True | Some a \<Rightarrow> in_progress c \<and> action_of_phase c a) \<and>
     (ac_phase c \<in> {AlWritingErrorAcknowledge, AlReadingErrorAcknowledge} \<longrightarrow> ac_fault_record c \<noteq> None) \<and>
     (ac_phase c \<in> {AlWritingControl, AlReadingStatus, AlComplete} \<longrightarrow> ac_fault_record c = None) \<and>
     (ac_phase c = AlComplete \<longrightarrow> \<not> als_error (ac_observed_status c) \<and>
        als_state (ac_observed_status c) = ac_expected_state c) \<and>
     (ac_phase c = AlFaulted \<longrightarrow> ac_last_error c \<noteq> None) \<and>
     (ac_phase c \<noteq> AlIdle \<longrightarrow> legal_step (ac_current_state c) (ac_requested_state c) (ac_expected_state c))"

lemma al_new_inv: "al_inv al_controller_new"
  by (simp add: al_inv_def al_controller_new_def)

lemma al_fail_inv: "al_inv c \<Longrightarrow> in_progress c \<Longrightarrow> al_inv (al_fail c e)"
  by (auto simp: al_inv_def al_fail_def in_progress_def)

lemma al_pending_progress: "al_inv c \<Longrightarrow> ac_pending c = Some a \<Longrightarrow> in_progress c \<and> action_of_phase c a"
  by (simp add: al_inv_def)

lemma begin_ack_inv:
  assumes "ac_pending c = None" "ac_fault_record c = None"
    and "legal_step (ac_current_state c) (ac_requested_state c) (ac_expected_state c)"
  shows "al_inv (fst (begin_error_acknowledgement c status)) \<and>
    ac_phase (fst (begin_error_acknowledgement c status)) \<noteq> AlComplete \<and>
    ac_fault_record (fst (begin_error_acknowledgement c status)) \<noteq> None"
  using assms by (auto simp: begin_error_acknowledgement_def Let_def al_inv_def al_fail_def)

lemma al_expected_step_legal:
  "al_expected_step q d = Inr e \<Longrightarrow> legal_step (ar_current_state q) (ar_requested_state q) e"
  by (auto simp: al_expected_step_def legal_step_def ok_or_def split: if_splits option.splits)

lemma al_expected_same:
  "al_expected_step q d = Inr e \<Longrightarrow> ar_current_state q = ar_requested_state q \<Longrightarrow> e = ar_current_state q"
  by (auto simp: al_expected_step_def split: if_splits)

lemma al_start_inv:
  assumes "al_inv c"
  shows "al_inv (fst (al_start_inner c q status policy d))"
proof (cases "al_expected_step q d")
  case (Inl e)
  then show ?thesis using assms by (simp add: al_start_inner_def)
next
  case (Inr e)
  let ?c = "al_load c q status policy e"
  have load: "ac_pending ?c = None" "ac_fault_record ?c = None"
    "legal_step (ac_current_state ?c) (ac_requested_state ?c) (ac_expected_state ?c)"
    using al_expected_step_legal [OF Inr] by (simp_all add: al_load_def)
  have "al_inv (?c\<lparr>ac_phase := (if ar_current_state q = ar_requested_state q then AlComplete else AlWritingControl)\<rparr>)"
    if "als_state status = ar_current_state q" "\<not> als_error status"
    using that load al_expected_same [OF Inr] by (auto simp: al_inv_def al_load_def)
  with Inr assms begin_ack_inv [OF load] show ?thesis
    by (simp add: al_start_inner_def Let_def)
qed

lemma al_next_action_inv:
  assumes "al_inv c"
  shows "al_inv (fst (al_next_action c now))"
proof (cases "in_progress c \<and> ac_pending c = None \<and> now < ac_scan_deadline_ns c")
  case False
  then show ?thesis
    using assms al_fail_inv [OF assms]
    by (cases "ac_phase c") (auto simp: al_next_action_def in_progress_def not_less split: option.splits)
next
  case True
  then obtain op adr rl pl wl where acc: "al_access c = Ok (Some (op, adr, rl, pl, wl))"
    using assms by (cases "ac_phase c") (auto simp: al_access_def in_progress_def al_inv_def)
  define a where "a = \<lparr>aa_token = ac_next_token c, aa_datagram_index = ac_next_datagram_index c,
    aa_generation = ac_generation c, aa_station_address = ac_station_address c, aa_operation = op,
    aa_address = adr, aa_read_len = rl, aa_write_payload = pl, aa_write_len = wl,
    aa_deadline_ns = min (sat_add now (ac_request_timeout_ns c)) (ac_scan_deadline_ns c), aa_expected_wkc = 1\<rparr>"
  define t i where "t = max (ac_next_token c + 1) 1" and "i = max (ac_next_datagram_index c + 1) 1"
  have "ac_phase c \<noteq> AlIdle \<and> ac_phase c \<noteq> AlComplete \<and> ac_phase c \<noteq> AlFaulted"
    using True by (auto simp: in_progress_def)
  moreover have "\<not> ac_scan_deadline_ns c \<le> now" using True by auto
  ultimately have next_c: "fst (al_next_action c now) = c\<lparr>ac_next_token := t, ac_next_datagram_index := i, ac_pending := Some a\<rparr>"
    using True acc by (simp add: al_next_action_def Let_def a_def t_def i_def)
  have "al_access (c\<lparr>ac_next_token := t, ac_next_datagram_index := i, ac_pending := Some a\<rparr>) = al_access c"
    by (cases "ac_phase c"; cases "ac_fault_record c") (simp_all add: al_access_def)
  with assms True acc show ?thesis
    unfolding next_c by (auto simp: al_inv_def action_of_phase_def in_progress_def a_def)
qed

lemma al_accept_phase_inv:
  assumes "al_inv c" "ac_pending c = Some a"
  shows "al_inv (fst (al_accept_phase c payload))"
proof (cases "ac_phase c")
  case AlReadingStatus
  let ?c = "c\<lparr>ac_observed_status := decode_status payload, ac_pending := None\<rparr>"
  have b: "ac_pending ?c = None" "ac_fault_record ?c = None"
    "legal_step (ac_current_state ?c) (ac_requested_state ?c) (ac_expected_state ?c)"
    using assms(1) AlReadingStatus by (auto simp: al_inv_def)
  show ?thesis
  proof (cases "als_error (decode_status payload)")
    case True
    then have "fst (al_accept_phase c payload) = fst (begin_error_acknowledgement ?c (decode_status payload))"
      using AlReadingStatus by (simp add: al_accept_phase_def Let_def split: sum.split prod.split)
    then show ?thesis using begin_ack_inv [OF b, of "decode_status payload"] by simp
  next
    case False
    then show ?thesis
      using assms(1) b AlReadingStatus by (simp add: al_accept_phase_def Let_def al_inv_def)
  qed
next
  case AlReadingErrorAcknowledge
  then show ?thesis
    using assms by (auto simp: al_accept_phase_def Let_def al_inv_def al_fail_def split: if_splits)
qed (use assms in \<open>auto simp: al_accept_phase_def al_inv_def in_progress_def\<close>)

lemma al_accept_inv:
  assumes "al_inv c"
  shows "al_inv (fst (al_accept c token generation payload wkc now))"
proof (cases "ac_pending c")
  case None
  then show ?thesis using assms by (simp add: al_accept_def)
next
  case (Some a)
  then show ?thesis
    using assms al_fail_inv al_accept_phase_inv [OF assms Some] al_pending_progress [OF assms Some]
    by (simp add: al_accept_def)
qed

lemma al_timeout_inv:
  assumes "al_inv c"
  shows "al_inv (fst (al_timeout c token now))"
  using assms al_fail_inv al_pending_progress [OF assms]
  by (cases "ac_pending c") (auto simp: al_timeout_def)

datatype al_op = AlStart al_transition_request al_status al_ack_policy bool | AlNext u64
  | AlAccept u8 u16 bytes u16 u64 | AlTimeout u8 u64

fun al_exec :: "al_controller \<Rightarrow> al_op \<Rightarrow> al_controller" where
  "al_exec c (AlStart q status policy d) = fst (al_start_inner c q status policy d)"
| "al_exec c (AlNext now) = fst (al_next_action c now)"
| "al_exec c (AlAccept token generation payload wkc now) = fst (al_accept c token generation payload wkc now)"
| "al_exec c (AlTimeout token now) = fst (al_timeout c token now)"

interpretation al: step_system al_exec al_inv
proof
  fix c op assume "al_inv c"
  then show "al_inv (al_exec c op)"
    by (cases op) (simp_all add: al_start_inv al_next_action_inv al_accept_inv al_timeout_inv)
qed

section \<open>Properties\<close>

text \<open>C29. A transition is reported as reached only when the slave confirmed it: in any history of
  the controller, if \<open>accept\<close> reports a state, then the response answered the pending action, a
  read of the slave's AL status register, with the right token and generation, within the
  deadline and with working counter 1; the status it carried shows that state without an error,
  the state is the expected one, which is a legal step towards the requested state, and no
  error was recorded since the start.\<close>

theorem al_reached_is_confirmed:
  assumes "c = foldl al_exec al_controller_new history"
    and "al_accept c token generation payload wkc now = (c', Ok (ApReached s))"
  shows "(\<exists>a. ac_pending c = Some a \<and> aa_token a = token \<and> aa_operation a = RegRead \<and>
      aa_address a = fixed_address (ac_station_address c) ESC_AL_STATUS \<and>
      now \<le> aa_deadline_ns a \<and> aa_deadline_ns a \<le> ac_scan_deadline_ns c) \<and>
    generation = ac_generation c \<and> wkc = 1 \<and> length payload = 6 \<and>
    als_state (decode_status payload) = s \<and> \<not> als_error (decode_status payload) \<and>
    s = ac_expected_state c \<and> legal_step (ac_current_state c) (ac_requested_state c) s \<and>
    ac_phase c' = AlComplete \<and> ac_fault_record c' = None"
proof -
  have inv: "al_inv c" unfolding assms(1) by (rule al.run_invar [OF al_new_inv])
  obtain a where a: "ac_pending c = Some a" "aa_token a = token" "aa_generation a = generation"
    "now \<le> aa_deadline_ns a" "wkc = aa_expected_wkc a" "length payload = unat (aa_read_len a)"
    and ph: "al_accept_phase c payload = (c', Ok (ApReached s))"
    using assms(2) by (auto simp: al_accept_def not_less split: option.splits if_splits)
  have p: "ac_phase c = AlReadingStatus" "als_state (decode_status payload) = s"
    "\<not> als_error (decode_status payload)" "s = ac_expected_state c"
    "c' = c\<lparr>ac_observed_status := decode_status payload, ac_phase := AlComplete, ac_pending := None\<rparr>"
    using ph by (auto simp: al_accept_phase_def Let_def split: al_phase.splits if_splits sum.splits prod.splits option.splits)
  have act: "action_of_phase c a" using al_pending_progress [OF inv a(1)] by simp
  then have "aa_operation a = RegRead" "aa_address a = fixed_address (ac_station_address c) ESC_AL_STATUS"
    "aa_read_len a = AL_STATUS_WITH_CODE_LEN"
    using p(1) by (auto simp: action_of_phase_def al_access_def)
  with a act p inv show ?thesis
    by (auto simp: action_of_phase_def al_inv_def AL_STATUS_WITH_CODE_LEN_def)
qed



definition same_fault :: "al_fault_record option \<Rightarrow> al_fault_record option \<Rightarrow> bool" where
  "same_fault r r' \<longleftrightarrow> map_option (\<lambda>f. (af_status f, af_requested_state f)) r' = map_option (\<lambda>f. (af_status f, af_requested_state f)) r"

lemma same_fault_refl [simp]: "same_fault r r"
  by (simp add: same_fault_def)

lemma al_fail_fault [simp]: "ac_fault_record (al_fail c e) = ac_fault_record c"
  by (simp add: al_fail_def)






definition sample_transition :: al_transition_request where
  "sample_transition = \<lparr>ar_station_address = 0x1001, ar_current_state = StInit, ar_requested_state = StOp,
     ar_generation = 3, ar_now_ns = 10, ar_timeout_ns = 100, ar_request_timeout_ns = 20\<rparr>"

definition sample_history :: "al_op list" where
  "sample_history = [AlStart sample_transition (al_status_new 1 0) AckDisabled False, AlNext 12,
     AlAccept 1 3 [] 1 14, AlNext 16]"

lemma status_init: "al_status_new 1 0 = \<lparr>als_state = StInit, als_error = False, als_raw = 1, als_code = 0\<rparr>"
  using status_of_state [of StInit 0] by simp

lemma status_preop: "decode_status [2, 0, 0, 0, 0, 0] = \<lparr>als_state = StPreOp, als_error = False, als_raw = 2, als_code = 0\<rparr>"
  using status_of_state [of StPreOp 0] by (simp add: decode_status_def u16_from_le_def)

lemmas al_run_defs = al_start_inner_def al_load_def al_expected_step_def ok_or_def al_next_action_def
  al_access_def al_accept_def al_accept_phase_def al_controller_new_def sample_transition_def
  sat_add_def Let_def word_less_nat_alt word_le_nat_alt max_def min_def

lemma sample_reading:
  "\<exists>a. foldl al_exec al_controller_new sample_history = al_controller_new\<lparr>ac_phase := AlReadingStatus,
     ac_generation := 3, ac_station_address := 0x1001, ac_current_state := StInit, ac_requested_state := StOp,
     ac_expected_state := StPreOp, ac_observed_status := al_status_new 1 0, ac_scan_deadline_ns := 110,
     ac_request_timeout_ns := 20, ac_next_token := 3, ac_next_datagram_index := 3, ac_pending := Some a\<rparr> \<and>
     aa_token a = 2 \<and> aa_generation a = 3 \<and> aa_deadline_ns a = 36 \<and> aa_expected_wkc a = 1 \<and> aa_read_len a = 6"
  by (simp add: sample_history_def status_init al_run_defs AL_STATUS_WITH_CODE_LEN_def)

theorem al_reached_is_confirmed_witness:
  "\<exists>c'. al_accept (foldl al_exec al_controller_new sample_history) 2 3 [2, 0, 0, 0, 0, 0] 1 18 =
     (c', Ok (ApReached StPreOp)) \<and> ac_phase c' = AlComplete"
proof -
  obtain a where a: "foldl al_exec al_controller_new sample_history = al_controller_new\<lparr>ac_phase := AlReadingStatus,
     ac_generation := 3, ac_station_address := 0x1001, ac_current_state := StInit, ac_requested_state := StOp,
     ac_expected_state := StPreOp, ac_observed_status := al_status_new 1 0, ac_scan_deadline_ns := 110,
     ac_request_timeout_ns := 20, ac_next_token := 3, ac_next_datagram_index := 3, ac_pending := Some a\<rparr>"
     "aa_token a = 2" "aa_generation a = 3" "aa_deadline_ns a = 36" "aa_expected_wkc a = 1" "aa_read_len a = 6"
    using sample_reading by blast
  then obtain c' where r: "al_accept (foldl al_exec al_controller_new sample_history) 2 3 [2, 0, 0, 0, 0, 0] 1 18 =
     (c', Ok (ApReached StPreOp))"
    by (simp add: al_accept_def al_accept_phase_def Let_def status_preop word_less_nat_alt)
  with al_reached_is_confirmed [OF refl r] show ?thesis by blast
qed






end
