(* ===== verification/Cia402_Profile.thy ===== *)
theory Cia402_Profile
  imports System_Interfaces Bit_Scan
begin

text \<open>
  The drive profile (\<open>esop-profile-cia402/src/lib.rs\<close>): the supervision of the operating mode,
  the decoding of the Statusword, the controller of one drive and the bank of controllers. A
  signed machine integer is a word that \<open>sint\<close> reads.
\<close>

type_synonym i8 = "8 word"
type_synonym i16 = "16 word"
type_synonym i32 = "32 word"

definition CONTROLWORD_DISABLE_VOLTAGE :: u16 where
  "CONTROLWORD_DISABLE_VOLTAGE = 0x0000"

definition CONTROLWORD_SHUTDOWN :: u16 where
  "CONTROLWORD_SHUTDOWN = 0x0006"

definition CONTROLWORD_SWITCH_ON :: u16 where
  "CONTROLWORD_SWITCH_ON = 0x0007"

definition CONTROLWORD_ENABLE_OPERATION :: u16 where
  "CONTROLWORD_ENABLE_OPERATION = 0x000F"

definition CONTROLWORD_QUICK_STOP :: u16 where
  "CONTROLWORD_QUICK_STOP = 0x0002"

definition CONTROLWORD_FAULT_RESET :: u16 where
  "CONTROLWORD_FAULT_RESET = 0x0080"

lemmas controlwords = CONTROLWORD_DISABLE_VOLTAGE_def CONTROLWORD_SHUTDOWN_def CONTROLWORD_SWITCH_ON_def
  CONTROLWORD_ENABLE_OPERATION_def CONTROLWORD_QUICK_STOP_def CONTROLWORD_FAULT_RESET_def

section \<open>Drive states\<close>

datatype drive_state = NotReadyToSwitchOn | SwitchOnDisabled | ReadyToSwitchOn | SwitchedOn
  | OperationEnabled | QuickStopActive | FaultReactionActive | DriveFault | DriveUnknown

definition from_statusword :: "u16 \<Rightarrow> drive_state" where
  "from_statusword statusword =
     (let masked_4f = statusword AND 0x004F; masked_6f = statusword AND 0x006F
      in if masked_4f = 0x0000 then NotReadyToSwitchOn
         else if masked_4f = 0x0040 then SwitchOnDisabled
         else if masked_6f = 0x0021 then ReadyToSwitchOn
         else if masked_6f = 0x0023 then SwitchedOn
         else if masked_6f = 0x0027 then OperationEnabled
         else if masked_6f = 0x0007 then QuickStopActive
         else if masked_4f = 0x000F then FaultReactionActive
         else if masked_4f = 0x0008 then DriveFault
         else DriveUnknown)"

definition drive_is_fault :: "drive_state \<Rightarrow> bool" where
  "drive_is_fault s \<longleftrightarrow> s = DriveFault \<or> s = FaultReactionActive"

definition is_operation_enabled :: "drive_state \<Rightarrow> bool" where
  "is_operation_enabled s \<longleftrightarrow> s = OperationEnabled"

section \<open>Operating modes\<close>

datatype operating_mode = Csp | Csv | Cst | ModeUnknown

definition mode_from_raw :: "i8 \<Rightarrow> operating_mode" where
  "mode_from_raw value = (if value = 8 then Csp else if value = 9 then Csv else if value = 10 then Cst
     else ModeUnknown)"

fun mode_raw :: "operating_mode \<Rightarrow> i8" where
  "mode_raw Csp = 8"
| "mode_raw Csv = 9"
| "mode_raw Cst = 10"
| "mode_raw ModeUnknown = 0"

fun is_cyclic :: "operating_mode \<Rightarrow> bool" where
  "is_cyclic ModeUnknown = False"
| "is_cyclic _ = True"

datatype mode_switch_state = MsUnconfigured | MsAwaitingConfirmation | MsReady | MsTimedOut

datatype mode_switch_action = MaHoldDisabled | MaSetMode | MaReady | MaTimeout

datatype mode_request_error = UnsupportedMode | ZeroTimeout

record mode_switch_output =
  mo_state :: mode_switch_state
  mo_requested_mode :: operating_mode
  mo_actual_mode :: operating_mode
  mo_mode_command :: i8
  mo_action :: mode_switch_action
  mo_confirmed :: bool
  mo_cyclic_allowed :: bool

record mode_supervisor =
  ms_requested_mode :: operating_mode
  ms_state :: mode_switch_state
  ms_confirmation_cycles :: u16
  ms_confirmed_cycles :: u16
  ms_deadline_cycle :: u64

definition mode_supervisor_new :: "u16 \<Rightarrow> mode_supervisor" where
  "mode_supervisor_new confirmation_cycles =
     \<lparr>ms_requested_mode = ModeUnknown, ms_state = MsUnconfigured,
      ms_confirmation_cycles = (if confirmation_cycles = 0 then 1 else confirmation_cycles),
      ms_confirmed_cycles = 0, ms_deadline_cycle = 0\<rparr>"

definition mode_request ::
  "mode_supervisor \<Rightarrow> operating_mode \<Rightarrow> u64 \<Rightarrow> u64 \<Rightarrow> mode_supervisor \<times> (mode_request_error, unit) result" where
  "mode_request m mode cycle timeout_cycles =
     (if \<not> is_cyclic mode then (m, Err UnsupportedMode)
      else if timeout_cycles = 0 then (m, Err ZeroTimeout)
      else (m\<lparr>ms_requested_mode := mode, ms_state := MsAwaitingConfirmation, ms_confirmed_cycles := 0,
              ms_deadline_cycle := sat_add cycle timeout_cycles\<rparr>, Ok ()))"

definition mode_output ::
  "mode_supervisor \<Rightarrow> operating_mode \<Rightarrow> drive_state \<Rightarrow> mode_switch_action \<Rightarrow> bool \<Rightarrow> mode_switch_output" where
  "mode_output m actual_mode drive_state action confirmed =
     \<lparr>mo_state = ms_state m, mo_requested_mode = ms_requested_mode m, mo_actual_mode = actual_mode,
      mo_mode_command = mode_raw (ms_requested_mode m), mo_action = action, mo_confirmed = confirmed,
      mo_cyclic_allowed = (confirmed \<and> actual_mode = ms_requested_mode m \<and> is_operation_enabled drive_state)\<rparr>"

definition mode_step ::
  "mode_supervisor \<Rightarrow> i8 \<Rightarrow> drive_state \<Rightarrow> u64 \<Rightarrow> mode_supervisor \<times> mode_switch_output" where
  "mode_step m actual_mode_raw drive_state cycle =
     (let actual_mode = mode_from_raw actual_mode_raw
      in if ms_state m = MsUnconfigured then (m, mode_output m actual_mode drive_state MaHoldDisabled False)
         else if ms_state m = MsTimedOut then (m, mode_output m actual_mode drive_state MaTimeout False)
         else if actual_mode = ms_requested_mode m then
           let m1 = m\<lparr>ms_confirmed_cycles := sat_add (ms_confirmed_cycles m) 1\<rparr>
           in if ms_confirmation_cycles m1 \<le> ms_confirmed_cycles m1 then
                let m2 = m1\<lparr>ms_state := MsReady\<rparr>
                in (m2, mode_output m2 actual_mode drive_state MaReady True)
              else (m1, mode_output m1 actual_mode drive_state MaHoldDisabled False)
         else
           let m1 = m\<lparr>ms_confirmed_cycles := 0\<rparr>
           in if ms_deadline_cycle m1 \<le> cycle then
                let m2 = m1\<lparr>ms_state := MsTimedOut\<rparr>
                in (m2, mode_output m2 actual_mode drive_state MaTimeout False)
              else
                let action = (if is_operation_enabled drive_state then MaHoldDisabled else MaSetMode)
                in (m1, mode_output m1 actual_mode drive_state action False))"

section \<open>The controller of one drive\<close>

datatype drive_request = ReqDisable | ReqEnable | ReqQuickStop | ReqFaultReset

record cia402_output =
  co_state :: drive_state
  co_statusword :: u16
  co_controlword :: u16
  co_operation_enabled :: bool
  co_motion_allowed :: bool
  co_fault_reset_pulse :: bool

record cia402_controller =
  cc_fault_reset_issued :: bool

definition cia402_controller_new :: cia402_controller where
  "cia402_controller_new = \<lparr>cc_fault_reset_issued = False\<rparr>"

fun enable_controlword :: "drive_state \<Rightarrow> u16" where
  "enable_controlword SwitchOnDisabled = CONTROLWORD_SHUTDOWN"
| "enable_controlword ReadyToSwitchOn = CONTROLWORD_SWITCH_ON"
| "enable_controlword SwitchedOn = CONTROLWORD_ENABLE_OPERATION"
| "enable_controlword OperationEnabled = CONTROLWORD_ENABLE_OPERATION"
| "enable_controlword QuickStopActive = CONTROLWORD_ENABLE_OPERATION"
| "enable_controlword NotReadyToSwitchOn = CONTROLWORD_DISABLE_VOLTAGE"
| "enable_controlword FaultReactionActive = CONTROLWORD_DISABLE_VOLTAGE"
| "enable_controlword DriveFault = CONTROLWORD_DISABLE_VOLTAGE"
| "enable_controlword DriveUnknown = CONTROLWORD_DISABLE_VOLTAGE"

text \<open>Both arms of the match in the source give the same word.\<close>

definition disable_controlword :: "drive_state \<Rightarrow> u16" where
  "disable_controlword state = CONTROLWORD_DISABLE_VOLTAGE"

definition cia402_step ::
  "cia402_controller \<Rightarrow> u16 \<Rightarrow> drive_request \<Rightarrow> bool \<Rightarrow> cia402_controller \<times> cia402_output" where
  "cia402_step c statusword request motion_allowed =
     (let state = from_statusword statusword;
          c1 = (if drive_is_fault state then c else c\<lparr>cc_fault_reset_issued := False\<rparr>);
          enable_requested = (request = ReqEnable \<and> motion_allowed);
          (c2, controlword, pulse) =
            (case request of
               ReqFaultReset \<Rightarrow>
                 if state = DriveFault \<and> \<not> cc_fault_reset_issued c1
                 then (c1\<lparr>cc_fault_reset_issued := True\<rparr>, CONTROLWORD_FAULT_RESET, True)
                 else (c1, CONTROLWORD_DISABLE_VOLTAGE, False)
             | ReqQuickStop \<Rightarrow> (c1, CONTROLWORD_QUICK_STOP, False)
             | ReqEnable \<Rightarrow>
                 (c1, if enable_requested then enable_controlword state else disable_controlword state, False)
             | ReqDisable \<Rightarrow> (c1, disable_controlword state, False))
      in (c2, \<lparr>co_state = state, co_statusword = statusword, co_controlword = controlword,
               co_operation_enabled = is_operation_enabled state,
               co_motion_allowed = (enable_requested \<and> is_operation_enabled state),
               co_fault_reset_pulse = pulse\<rparr>))"

section \<open>The bank of drives\<close>

text \<open>\<open>[Cia402Controller; AXES]\<close>; the argument arrays have \<open>AXES\<close> entries too. The closure of
  \<open>from_fn\<close> runs once per index and touches only the controller of that index.\<close>

type_synonym axis_bank = "cia402_controller list"

definition axis_bank_new :: "nat \<Rightarrow> axis_bank" where
  "axis_bank_new AXES = replicate AXES cia402_controller_new"

definition axis_in_mask :: "u32 \<Rightarrow> nat \<Rightarrow> bool" where
  "axis_in_mask motion_mask index \<longleftrightarrow> index < 32 \<and> motion_mask AND push_bit index 1 \<noteq> 0"

definition axis_bank_from_fn ::
  "axis_bank \<Rightarrow> (nat \<Rightarrow> cia402_controller \<times> cia402_output) \<Rightarrow> axis_bank \<times> cia402_output list" where
  "axis_bank_from_fn bank f =
     (map (\<lambda>i. fst (f i)) [0..<length bank], map (\<lambda>i. snd (f i)) [0..<length bank])"

definition axis_bank_step ::
  "axis_bank \<Rightarrow> u16 list \<Rightarrow> drive_request list \<Rightarrow> u32 \<Rightarrow> axis_bank \<times> cia402_output list" where
  "axis_bank_step bank statuswords requests motion_mask =
     axis_bank_from_fn bank (\<lambda>index.
       cia402_step (bank ! index) (statuswords ! index) (requests ! index) (axis_in_mask motion_mask index))"

definition denied_request :: "drive_request \<Rightarrow> drive_request" where
  "denied_request stop_request =
     (case stop_request of
        ReqQuickStop \<Rightarrow> stop_request
      | ReqDisable \<Rightarrow> stop_request
      | ReqEnable \<Rightarrow> ReqDisable
      | ReqFaultReset \<Rightarrow> ReqDisable)"

definition step_with_axis_stop ::
  "axis_bank \<Rightarrow> u16 list \<Rightarrow> drive_request list \<Rightarrow> u32 \<Rightarrow> drive_request list \<Rightarrow> axis_bank \<times> cia402_output list" where
  "step_with_axis_stop bank statuswords requests motion_mask stop_requests =
     axis_bank_from_fn bank (\<lambda>index.
       let permitted = axis_in_mask motion_mask index;
           request = (if permitted then requests ! index else denied_request (stop_requests ! index))
       in cia402_step (bank ! index) (statuswords ! index) request permitted)"

definition step_with_stop ::
  "axis_bank \<Rightarrow> u16 list \<Rightarrow> drive_request list \<Rightarrow> u32 \<Rightarrow> drive_request \<Rightarrow> axis_bank \<times> cia402_output list" where
  "step_with_stop bank statuswords requests motion_mask stop_request =
     step_with_axis_stop bank statuswords requests motion_mask (replicate (length bank) stop_request)"

definition axis_bank_controller :: "axis_bank \<Rightarrow> nat \<Rightarrow> cia402_controller option" where
  "axis_bank_controller bank index = (if index < length bank then Some (bank ! index) else None)"

section \<open>What one step does\<close>

lemma cia402_step_output:
  assumes "cia402_step c sw req allowed = (c', out)"
  shows "co_state out = from_statusword sw"
    and "co_controlword out = CONTROLWORD_ENABLE_OPERATION \<longleftrightarrow> req = ReqEnable \<and> allowed \<and>
      from_statusword sw \<in> {SwitchedOn, OperationEnabled, QuickStopActive}"
    and "co_motion_allowed out \<longleftrightarrow> req = ReqEnable \<and> allowed \<and> from_statusword sw = OperationEnabled"
  using assms
  by (cases req; cases "from_statusword sw";
      auto simp: cia402_step_def Let_def controlwords disable_controlword_def is_operation_enabled_def
        split: if_splits)+

lemma cia402_step_pulse:
  assumes "cia402_step c sw req allowed = (c', out)"
  shows "co_fault_reset_pulse out \<longleftrightarrow>
      req = ReqFaultReset \<and> from_statusword sw = DriveFault \<and> \<not> cc_fault_reset_issued c"
    and "co_fault_reset_pulse out \<longleftrightarrow> co_controlword out = CONTROLWORD_FAULT_RESET"
    and "cc_fault_reset_issued c' \<longleftrightarrow>
      co_fault_reset_pulse out \<or> (cc_fault_reset_issued c \<and> drive_is_fault (from_statusword sw))"
  using assms
  by (cases req; cases "from_statusword sw";
      auto simp: cia402_step_def Let_def controlwords disable_controlword_def drive_is_fault_def
        split: if_splits)+

lemma cia402_step_stopping:
  assumes "cia402_step c sw req allowed = (c', out)" "req = ReqQuickStop \<or> req = ReqDisable"
  shows "co_controlword out = (if req = ReqQuickStop then CONTROLWORD_QUICK_STOP else CONTROLWORD_DISABLE_VOLTAGE)"
  using assms by (auto simp: cia402_step_def Let_def disable_controlword_def)

lemma axis_bank_from_fn_nth:
  assumes "axis_bank_from_fn bank f = (bank', outs)"
  shows "length bank' = length bank" "length outs = length bank"
    "i < length bank \<Longrightarrow> f i = (bank' ! i, outs ! i)"
  using assms by (auto simp: axis_bank_from_fn_def)

section \<open>Confirmation of a mode\<close>

text \<open>A supervisor in use: requests, and cycles with the displayed mode, the state of the drive and
  the cycle number.\<close>

type_synonym mode_sample = "i8 \<times> drive_state \<times> u64"

datatype mode_op = ModeRequest operating_mode u64 u64 | ModeSample mode_sample

definition mode_cycle :: "mode_supervisor \<Rightarrow> mode_sample \<Rightarrow> mode_supervisor \<times> mode_switch_output" where
  "mode_cycle m s = (case s of (raw, drive, cycle) \<Rightarrow> mode_step m raw drive cycle)"

fun mode_exec :: "mode_supervisor \<Rightarrow> mode_op \<Rightarrow> mode_supervisor" where
  "mode_exec m (ModeRequest mode cycle timeout) = fst (mode_request m mode cycle timeout)"
| "mode_exec m (ModeSample s) = fst (mode_cycle m s)"

definition mode_wf :: "u16 \<Rightarrow> mode_supervisor \<Rightarrow> bool" where
  "mode_wf n m \<longleftrightarrow> ms_confirmation_cycles m = (if n = 0 then 1 else n)"

lemma mode_cycle_frame:
  "ms_confirmation_cycles (fst (mode_cycle m s)) = ms_confirmation_cycles m"
  "ms_requested_mode (fst (mode_cycle m s)) = ms_requested_mode m"
  "ms_deadline_cycle (fst (mode_cycle m s)) = ms_deadline_cycle m"
  by (auto simp: mode_cycle_def mode_step_def Let_def split: prod.splits)

interpretation modes: step_system mode_exec "mode_wf n" for n
proof
  fix m op assume "mode_wf n m"
  then show "mode_wf n (mode_exec m op)"
    by (cases op) (simp_all add: mode_wf_def mode_cycle_frame, simp add: mode_request_def)
qed

text \<open>The specification: how many of the last samples show the requested mode without
  interruption, and whether a sample has shown another mode at or after the deadline.\<close>

definition shows_mode :: "operating_mode \<Rightarrow> mode_sample \<Rightarrow> bool" where
  "shows_mode mode s \<longleftrightarrow> mode_from_raw (fst s) = mode"

definition mode_streak :: "operating_mode \<Rightarrow> mode_sample list \<Rightarrow> nat" where
  "mode_streak mode ss = length (takeWhile (shows_mode mode) (rev ss))"

definition mode_late :: "operating_mode \<Rightarrow> u64 \<Rightarrow> mode_sample list \<Rightarrow> bool" where
  "mode_late mode deadline ss \<longleftrightarrow> (\<exists>s\<in>set ss. \<not> shows_mode mode s \<and> deadline \<le> snd (snd s))"

lemma mode_streak_snoc:
  "mode_streak mode (ss @ [s]) = (if shows_mode mode s then Suc (mode_streak mode ss) else 0)"
  by (simp add: mode_streak_def)

lemma mode_late_snoc:
  "mode_late mode d (ss @ [s]) \<longleftrightarrow> mode_late mode d ss \<or> (\<not> shows_mode mode s \<and> d \<le> snd (snd s))"
  by (auto simp: mode_late_def)

definition mode_tracks :: "operating_mode \<Rightarrow> u64 \<Rightarrow> mode_supervisor \<Rightarrow> mode_sample list \<Rightarrow> bool" where
  "mode_tracks mode d m ss \<longleftrightarrow> ms_requested_mode m = mode \<and> ms_deadline_cycle m = d \<and>
     ms_state m \<noteq> MsUnconfigured \<and> (ms_state m = MsTimedOut \<longleftrightarrow> mode_late mode d ss) \<and>
     (ms_state m \<noteq> MsTimedOut \<longrightarrow> unat (ms_confirmed_cycles m) = min (mode_streak mode ss) (2 ^ 16 - 1))"

lemma mode_cycle_tracks:
  assumes "mode_tracks mode d m ss" "mode_cycle m s = (m', out)" "ms_confirmation_cycles m \<noteq> 0"
  shows "mode_tracks mode d m' (ss @ [s])"
    and "mo_confirmed out \<longleftrightarrow> \<not> mode_late mode d (ss @ [s]) \<and>
      unat (ms_confirmation_cycles m) \<le> mode_streak mode (ss @ [s])"
    and "mo_mode_command out = mode_raw mode"
    and "mo_state out = MsTimedOut \<longleftrightarrow> mode_late mode d (ss @ [s])"
    and "mo_cyclic_allowed out \<longleftrightarrow> mo_confirmed out \<and> is_operation_enabled (fst (snd s))"
    and "mo_action out = MaSetMode \<longrightarrow> \<not> is_operation_enabled (fst (snd s))"
proof -
  obtain raw drive cycle where s: "s = (raw, drive, cycle)" by (cases s)
  have pos: "0 < unat (ms_confirmation_cycles m)" "unat (ms_confirmation_cycles m) \<le> 2 ^ 16 - 1"
    using assms(3) unat_less [of "ms_confirmation_cycles m"] by (simp_all add: unat_gt_0)
  have step: "mode_step m raw drive cycle = (m', out)" using assms(2) s by (simp add: mode_cycle_def)
  consider "ms_state m = MsTimedOut" | "ms_state m \<noteq> MsTimedOut" "mode_from_raw raw = mode"
    | "ms_state m \<noteq> MsTimedOut" "mode_from_raw raw \<noteq> mode" by blast
  then have "mode_tracks mode d m' (ss @ [s]) \<and> (mo_confirmed out \<longleftrightarrow> \<not> mode_late mode d (ss @ [s]) \<and>
      unat (ms_confirmation_cycles m) \<le> mode_streak mode (ss @ [s])) \<and> mo_mode_command out = mode_raw mode \<and>
      (mo_state out = MsTimedOut \<longleftrightarrow> mode_late mode d (ss @ [s])) \<and>
      (mo_cyclic_allowed out \<longleftrightarrow> mo_confirmed out \<and> is_operation_enabled (fst (snd s))) \<and>
      (mo_action out = MaSetMode \<longrightarrow> \<not> is_operation_enabled (fst (snd s)))"
  proof cases
    case 1
    then show ?thesis using assms(1) step
      by (auto simp: mode_step_def Let_def mode_output_def mode_tracks_def mode_late_snoc s)
  next
    case 2
    then show ?thesis using assms(1) step pos
      by (auto simp: mode_step_def Let_def mode_output_def mode_tracks_def mode_streak_snoc
          mode_late_snoc s shows_mode_def word_le_nat_alt unat_sat_add split: if_splits)
  next
    case 3
    then show ?thesis using assms(1) step pos
      by (auto simp: mode_step_def Let_def mode_output_def mode_tracks_def mode_streak_snoc
          mode_late_snoc s shows_mode_def split: if_splits)
  qed
  then show "mode_tracks mode d m' (ss @ [s])"
    and "mo_confirmed out \<longleftrightarrow> \<not> mode_late mode d (ss @ [s]) \<and>
      unat (ms_confirmation_cycles m) \<le> mode_streak mode (ss @ [s])"
    and "mo_mode_command out = mode_raw mode"
    and "mo_state out = MsTimedOut \<longleftrightarrow> mode_late mode d (ss @ [s])"
    and "mo_cyclic_allowed out \<longleftrightarrow> mo_confirmed out \<and> is_operation_enabled (fst (snd s))"
    and "mo_action out = MaSetMode \<longrightarrow> \<not> is_operation_enabled (fst (snd s))"
    by simp_all
qed

lemma mode_run_tracks:
  "mode_tracks mode d m ss \<Longrightarrow> ms_confirmation_cycles m \<noteq> 0 \<Longrightarrow> traced mode_cycle m ss' = (m', outs) \<Longrightarrow>
     mode_tracks mode d m' (ss @ ss') \<and> ms_confirmation_cycles m' = ms_confirmation_cycles m"
proof (induction ss' arbitrary: m ss outs)
  case (Cons s ss')
  obtain m1 e es where step: "mode_cycle m s = (m1, e)" "traced mode_cycle m1 ss' = (m', es)"
    using Cons.prems(3) by (auto split: prod.splits)
  then have "ms_confirmation_cycles m1 = ms_confirmation_cycles m" using mode_cycle_frame(1) [of m s] by simp
  with Cons.IH [OF mode_cycle_tracks(1) [OF Cons.prems(1) step(1) Cons.prems(2)] _ step(2)] Cons.prems(2)
  show ?case by simp
qed simp

lemma mode_request_tracks:
  "mode_request m mode cycle timeout = (m', Inr u) \<Longrightarrow>
     mode_tracks mode (sat_add cycle timeout) m' [] \<and> ms_confirmation_cycles m' = ms_confirmation_cycles m"
  by (auto simp: mode_request_def mode_tracks_def mode_late_def mode_streak_def split: if_splits)

text \<open>C33. After an accepted request for a mode, whatever the supervisor was used for before, the
  answer in every cycle is exact: cyclic operation is allowed if and only if the drive is
  operation enabled, the displayed mode has been the requested one in this and the preceding
  cycles, in at least as many consecutive cycles as configured, and it was never another one at
  or after the deadline; a single late mismatch is final. The mode command is always the
  requested mode, and the command to change the mode is never given to an enabled drive.\<close>

theorem mode_confirmation_exact:
  assumes "m = foldl mode_exec (mode_supervisor_new n) ops"
    and "mode_request m mode cycle timeout = (m0, Ok ())"
    and "traced mode_cycle m0 (ss @ [s]) = (m', outs)"
  shows "(mo_cyclic_allowed (last outs) \<longleftrightarrow> is_operation_enabled (fst (snd s)) \<and>
      max 1 (unat n) \<le> mode_streak mode (ss @ [s]) \<and> \<not> mode_late mode (sat_add cycle timeout) (ss @ [s])) \<and>
    (mo_state (last outs) = MsTimedOut \<longleftrightarrow> mode_late mode (sat_add cycle timeout) (ss @ [s])) \<and>
    mo_mode_command (last outs) = mode_raw mode \<and>
    (is_operation_enabled (fst (snd s)) \<longrightarrow> mo_action (last outs) \<noteq> MaSetMode)"
proof -
  have "mode_wf n m"
    unfolding assms(1) by (rule modes.run_invar) (simp add: mode_wf_def mode_supervisor_new_def)
  then have conf: "unat (ms_confirmation_cycles m) = max 1 (unat n)" "ms_confirmation_cycles m \<noteq> 0"
    by (auto simp: mode_wf_def max_def Suc_le_eq unat_gt_0 split: if_splits)
  obtain m1 es e where run: "traced mode_cycle m0 ss = (m1, es)" "mode_cycle m1 s = (m', e)" "outs = es @ [e]"
    using assms(3) unfolding traced_snoc by blast
  have track: "mode_tracks mode (sat_add cycle timeout) m1 ss" "ms_confirmation_cycles m1 = ms_confirmation_cycles m"
    using mode_request_tracks [OF assms(2)] mode_run_tracks [OF _ _ run(1), of mode "sat_add cycle timeout" "[]"]
      conf by auto
  from mode_cycle_tracks [OF track(1) run(2)] track(2) conf run(3) show ?thesis by auto
qed

theorem mode_confirmation_exact_witness:
  "mo_cyclic_allowed (last (snd (traced mode_cycle (fst (mode_request (mode_supervisor_new 2) Csv 10 5))
     ([(8, SwitchedOn, 11), (9, SwitchedOn, 12)] @ [(9, OperationEnabled, 15)]))))"
proof -
  let ?m = "mode_supervisor_new 2"
  have req: "mode_request ?m Csv 10 5 = (fst (mode_request ?m Csv 10 5), Inr ())"
    by (simp add: mode_request_def)
  have streak: "mode_streak Csv ([(8, SwitchedOn, 11), (9, SwitchedOn, 12)] @ [(9, OperationEnabled, 15)]) = 2"
    by (simp add: mode_streak_def shows_mode_def mode_from_raw_def)
  have late: "\<not> mode_late Csv (sat_add 10 5) ([(8, SwitchedOn, 11), (9, SwitchedOn, 12)] @ [(9, OperationEnabled, 15)])"
    by (simp add: mode_late_def shows_mode_def mode_from_raw_def sat_add_def)
  show ?thesis
    using mode_confirmation_exact [of ?m 2 "[]", OF _ req prod.collapse [symmetric],
        of "[(8, SwitchedOn, 11), (9, SwitchedOn, 12)]" "(9, OperationEnabled, 15)"] streak late
    by (simp add: is_operation_enabled_def)
qed

end
