(* ===== verification/Cia402_Pdo.thy ===== *)
theory Cia402_Pdo
  imports Cia402_Profile Pdo_Layout
begin

text \<open>
  The process data of a drive (\<open>esop-profile-cia402/src/pdo.rs\<close>): which entry of the process
  image holds which object of the profile, reading the feedback, and the gated writes of a
  command. Every write is checked against the whole image first, so that it happens completely
  or not at all. The map built from an SII projection is not modelled.
\<close>

section \<open>Fields\<close>

datatype pdo_field = FControlword | FModeOfOperation | FTargetPosition | FTargetVelocity | FTargetTorque
  | FStatusword | FModeDisplay | FErrorCode | FActualPosition | FActualVelocity | FActualTorque
  | FFollowingError

fun field_index :: "pdo_field \<Rightarrow> nat" where
  "field_index FControlword = 0"
| "field_index FModeOfOperation = 1"
| "field_index FTargetPosition = 2"
| "field_index FTargetVelocity = 3"
| "field_index FTargetTorque = 4"
| "field_index FStatusword = 5"
| "field_index FModeDisplay = 6"
| "field_index FErrorCode = 7"
| "field_index FActualPosition = 8"
| "field_index FActualVelocity = 9"
| "field_index FActualTorque = 10"
| "field_index FFollowingError = 11"

fun object_index :: "pdo_field \<Rightarrow> u16" where
  "object_index FControlword = 0x6040"
| "object_index FModeOfOperation = 0x6060"
| "object_index FTargetPosition = 0x607A"
| "object_index FTargetVelocity = 0x60FF"
| "object_index FTargetTorque = 0x6071"
| "object_index FStatusword = 0x6041"
| "object_index FModeDisplay = 0x6061"
| "object_index FErrorCode = 0x603F"
| "object_index FActualPosition = 0x6064"
| "object_index FActualVelocity = 0x606C"
| "object_index FActualTorque = 0x6077"
| "object_index FFollowingError = 0x60F4"

definition field_direction :: "pdo_field \<Rightarrow> pdo_direction" where
  "field_direction f =
     (if f \<in> {FControlword, FModeOfOperation, FTargetPosition, FTargetVelocity, FTargetTorque}
      then PdoRx else PdoTx)"

definition COMMON_FIELDS :: "pdo_field list" where
  "COMMON_FIELDS = [FControlword, FModeOfOperation, FStatusword, FModeDisplay, FErrorCode]"

definition ALL_FIELDS :: "pdo_field list" where
  "ALL_FIELDS = [FControlword, FModeOfOperation, FTargetPosition, FTargetVelocity, FTargetTorque,
     FStatusword, FModeDisplay, FErrorCode, FActualPosition, FActualVelocity, FActualTorque,
     FFollowingError]"

definition FIELD_COUNT :: nat where
  "FIELD_COUNT = 12"

record entry_spec =
  es_index :: u16
  es_direction :: pdo_direction
  es_bit_length :: u8
  es_signed :: bool

definition spec_of :: "pdo_field \<Rightarrow> entry_spec" where
  "spec_of f =
     (case f of
        FControlword \<Rightarrow> \<lparr>es_index = 0x6040, es_direction = PdoRx, es_bit_length = 16, es_signed = False\<rparr>
      | FModeOfOperation \<Rightarrow> \<lparr>es_index = 0x6060, es_direction = PdoRx, es_bit_length = 8, es_signed = True\<rparr>
      | FTargetPosition \<Rightarrow> \<lparr>es_index = 0x607A, es_direction = PdoRx, es_bit_length = 32, es_signed = True\<rparr>
      | FTargetVelocity \<Rightarrow> \<lparr>es_index = 0x60FF, es_direction = PdoRx, es_bit_length = 32, es_signed = True\<rparr>
      | FTargetTorque \<Rightarrow> \<lparr>es_index = 0x6071, es_direction = PdoRx, es_bit_length = 16, es_signed = True\<rparr>
      | FStatusword \<Rightarrow> \<lparr>es_index = 0x6041, es_direction = PdoTx, es_bit_length = 16, es_signed = False\<rparr>
      | FModeDisplay \<Rightarrow> \<lparr>es_index = 0x6061, es_direction = PdoTx, es_bit_length = 8, es_signed = True\<rparr>
      | FErrorCode \<Rightarrow> \<lparr>es_index = 0x603F, es_direction = PdoTx, es_bit_length = 16, es_signed = False\<rparr>
      | FActualPosition \<Rightarrow> \<lparr>es_index = 0x6064, es_direction = PdoTx, es_bit_length = 32, es_signed = True\<rparr>
      | FActualVelocity \<Rightarrow> \<lparr>es_index = 0x606C, es_direction = PdoTx, es_bit_length = 32, es_signed = True\<rparr>
      | FActualTorque \<Rightarrow> \<lparr>es_index = 0x6077, es_direction = PdoTx, es_bit_length = 16, es_signed = True\<rparr>
      | FFollowingError \<Rightarrow> \<lparr>es_index = 0x60F4, es_direction = PdoTx, es_bit_length = 32, es_signed = True\<rparr>)"

datatype cia402_pdo_error = CpCapacityExceeded | CpInvalidMode | CpMissingField pdo_field
  | CpDuplicateField pdo_field | CpInvalidEntry pdo_field | CpPdo pdo_error | CpMotionNotAllowed
  | CpControlwordNotOperationEnabled | CpTargetModeMismatch | CpInitialTargetMismatch | CpDomainOffsetOverflow

section \<open>Commands and feedback\<close>

record motion_gate =
  mg_lifecycle_permit :: bool
  mg_mode_confirmed :: bool
  mg_operation_enabled :: bool
  mg_setpoint_valid :: bool

definition allows_motion :: "motion_gate \<Rightarrow> bool" where
  "allows_motion g \<longleftrightarrow> mg_lifecycle_permit g \<and> mg_mode_confirmed g \<and> mg_operation_enabled g \<and> mg_setpoint_valid g"

record controlled_stop_gate =
  sg_lifecycle_stopping :: bool
  sg_mode_confirmed :: bool
  sg_operation_enabled :: bool
  sg_target_valid :: bool

definition allows_controlled_stop :: "controlled_stop_gate \<Rightarrow> bool" where
  "allows_controlled_stop g \<longleftrightarrow>
     sg_lifecycle_stopping g \<and> sg_mode_confirmed g \<and> sg_operation_enabled g \<and> sg_target_valid g"

datatype cia402_target = TPosition i32 | TVelocity i32 | TTorque i16

fun target_mode :: "cia402_target \<Rightarrow> operating_mode" where
  "target_mode (TPosition _) = Csp"
| "target_mode (TVelocity _) = Csv"
| "target_mode (TTorque _) = Cst"

record pdo_inputs =
  pi_statusword :: u16
  pi_actual_mode :: operating_mode
  pi_error_code :: u16
  pi_actual_position :: "i32 option"
  pi_actual_velocity :: "i32 option"
  pi_actual_torque :: "i16 option"
  pi_following_error :: "i32 option"

record pdo_command =
  pc_controlword :: u16
  pc_mode :: operating_mode
  pc_target :: cia402_target

fun target_field :: "operating_mode \<Rightarrow> pdo_field" where
  "target_field Csp = FTargetPosition"
| "target_field Csv = FTargetVelocity"
| "target_field Cst = FTargetTorque"
| "target_field ModeUnknown = FTargetPosition"

fun actual_field :: "operating_mode \<Rightarrow> pdo_field" where
  "actual_field Csp = FActualPosition"
| "actual_field Csv = FActualVelocity"
| "actual_field Cst = FActualTorque"
| "actual_field ModeUnknown = FActualPosition"

section \<open>The map of fields\<close>

type_synonym pdo_map = "pdo_entry option list"

definition pdo_map_new :: pdo_map where
  "pdo_map_new = replicate FIELD_COUNT None"

definition map_set_entry :: "pdo_map \<Rightarrow> pdo_field \<Rightarrow> pdo_entry \<Rightarrow> pdo_map" where
  "map_set_entry m f e = m[field_index f := Some e]"

definition map_clear_entry :: "pdo_map \<Rightarrow> pdo_field \<Rightarrow> pdo_map" where
  "map_clear_entry m f = m[field_index f := None]"

definition map_entry :: "pdo_map \<Rightarrow> pdo_field \<Rightarrow> pdo_entry option" where
  "map_entry m f = m ! field_index f"

definition map_require :: "pdo_map \<Rightarrow> pdo_field \<Rightarrow> (cia402_pdo_error, pdo_entry) result" where
  "map_require m f = ok_or (map_entry m f) (CpMissingField f)"

definition entry_as_specified :: "pdo_field \<Rightarrow> pdo_entry \<Rightarrow> bool" where
  "entry_as_specified f e \<longleftrightarrow> pe_index e = es_index (spec_of f) \<and> pe_subindex e = 0 \<and>
     pe_direction e = es_direction (spec_of f) \<and> pe_bit_length e = es_bit_length (spec_of f) \<and>
     pe_signed e = es_signed (spec_of f)"

text \<open>\<open>for field in fields\<close> with an early return from its body.\<close>

fun for_fields :: "(pdo_field \<Rightarrow> cia402_pdo_error option) \<Rightarrow> pdo_field list \<Rightarrow> (cia402_pdo_error, unit) result" where
  "for_fields body [] = Ok ()"
| "for_fields body (f # fs) = (case body f of Some e \<Rightarrow> Err e | None \<Rightarrow> for_fields body fs)"

definition validate_present_entries :: "pdo_map \<Rightarrow> (cia402_pdo_error, unit) result" where
  "validate_present_entries m =
     for_fields (\<lambda>f. case map_entry m f of
         None \<Rightarrow> None
       | Some e \<Rightarrow> if entry_as_specified f e then None else Some (CpInvalidEntry f)) ALL_FIELDS"

fun layout_loop :: "pdo_map \<Rightarrow> pdo_layout \<Rightarrow> pdo_field list \<Rightarrow> (cia402_pdo_error, unit) result" where
  "layout_loop m layout [] = Ok ()"
| "layout_loop m layout (f # fs) =
     (case map_entry m f of
        None \<Rightarrow> layout_loop m layout fs
      | Some e \<Rightarrow>
          (case pdo_layout_add FIELD_COUNT layout e of
             (layout1, Inl er) \<Rightarrow> Err (CpPdo er)
           | (layout1, Inr _) \<Rightarrow> layout_loop m layout1 fs))"

definition validate_layout :: "pdo_map \<Rightarrow> (cia402_pdo_error, unit) result" where
  "validate_layout m = layout_loop m (pdo_layout_new FIELD_COUNT) ALL_FIELDS"

definition missing_field :: "pdo_map \<Rightarrow> pdo_field \<Rightarrow> cia402_pdo_error option" where
  "missing_field m f = (case map_require m f of Inl e \<Rightarrow> Some e | Inr _ \<Rightarrow> None)"

definition validate_common :: "pdo_map \<Rightarrow> (cia402_pdo_error, unit) result" where
  "validate_common m =
     (case validate_present_entries m of Inl e \<Rightarrow> Err e | Inr _ \<Rightarrow>
        (case for_fields (missing_field m) COMMON_FIELDS of Inl e \<Rightarrow> Err e | Inr _ \<Rightarrow> validate_layout m))"

definition validate_for :: "pdo_map \<Rightarrow> operating_mode \<Rightarrow> (cia402_pdo_error, unit) result" where
  "validate_for m mode =
     (if \<not> is_cyclic mode then Err CpInvalidMode
      else case validate_common m of Inl e \<Rightarrow> Err e | Inr _ \<Rightarrow>
        for_fields (missing_field m) [target_field mode, actual_field mode])"

definition validate_all_modes :: "pdo_map \<Rightarrow> (cia402_pdo_error, unit) result" where
  "validate_all_modes m =
     (case validate_for m Csp of Inl e \<Rightarrow> Err e | Inr _ \<Rightarrow>
        (case validate_for m Csv of Inl e \<Rightarrow> Err e | Inr _ \<Rightarrow> validate_for m Cst))"

definition standard_field :: "pdo_entry \<Rightarrow> pdo_field option" where
  "standard_field e =
     List.find (\<lambda>f. pe_index e = object_index f \<and> pe_subindex e = 0 \<and> pe_direction e = field_direction f)
       ALL_FIELDS"

fun collect_entries :: "pdo_map \<Rightarrow> pdo_entry list \<Rightarrow> (cia402_pdo_error, pdo_map) result" where
  "collect_entries m [] = Ok m"
| "collect_entries m (e # es) =
     (case standard_field e of
        None \<Rightarrow> collect_entries m es
      | Some f \<Rightarrow>
          if map_entry m f \<noteq> None then Err (CpDuplicateField f)
          else collect_entries (map_set_entry m f e) es)"

definition from_pdo_entries :: "pdo_entry list \<Rightarrow> (cia402_pdo_error, pdo_map) result" where
  "from_pdo_entries es =
     (case collect_entries pdo_map_new es of
        Inl e \<Rightarrow> Err e
      | Inr m \<Rightarrow> (case validate_present_entries m of Inl e \<Rightarrow> Err e | Inr _ \<Rightarrow> Ok m))"

section \<open>Reading the feedback\<close>

definition pdo_failure :: "(pdo_error, 'a) result \<Rightarrow> cia402_pdo_error option" where
  "pdo_failure r = (case r of Inl e \<Rightarrow> Some (CpPdo e) | Inr _ \<Rightarrow> None)"

definition preflight_input :: "pdo_map \<Rightarrow> bytes \<Rightarrow> (cia402_pdo_error, unit) result" where
  "preflight_input m img =
     for_fields (\<lambda>f. case map_entry m f of
         None \<Rightarrow> None
       | Some e \<Rightarrow> if pe_direction e = PdoTx then pdo_failure (pdo_read_unsigned e img) else None) ALL_FIELDS"

definition map_read_unsigned :: "pdo_map \<Rightarrow> pdo_field \<Rightarrow> bytes \<Rightarrow> (cia402_pdo_error, u64) result" where
  "map_read_unsigned m f img =
     (case map_require m f of Inl e \<Rightarrow> Err e | Inr en \<Rightarrow>
        (case pdo_read_unsigned en img of Inl e \<Rightarrow> Err (CpPdo e) | Inr v \<Rightarrow> Ok v))"

definition map_read_signed :: "pdo_map \<Rightarrow> pdo_field \<Rightarrow> bytes \<Rightarrow> (cia402_pdo_error, u64) result" where
  "map_read_signed m f img =
     (case map_require m f of Inl e \<Rightarrow> Err e | Inr en \<Rightarrow>
        (case pdo_read_signed en img of Inl e \<Rightarrow> Err (CpPdo e) | Inr v \<Rightarrow> Ok v))"

text \<open>\<open>read_optional_i32\<close> and \<open>read_optional_i16\<close> differ in the width of the cast.\<close>

definition map_read_optional :: "pdo_map \<Rightarrow> pdo_field \<Rightarrow> bytes \<Rightarrow> (cia402_pdo_error, 'a::len word option) result" where
  "map_read_optional m f img =
     (case map_entry m f of
        None \<Rightarrow> Ok None
      | Some _ \<Rightarrow> (case map_read_signed m f img of Inl e \<Rightarrow> Err e | Inr v \<Rightarrow> Ok (Some (ucast v))))"

text \<open>The optional fields, read after the mandatory ones, and the snapshot built from all of them.\<close>

definition read_motion_inputs ::
  "pdo_map \<Rightarrow> bytes \<Rightarrow> u16 \<Rightarrow> operating_mode \<Rightarrow> u16 \<Rightarrow> (cia402_pdo_error, pdo_inputs) result" where
  "read_motion_inputs m img statusword mode code =
     (case map_read_optional m FActualPosition img of Inl e \<Rightarrow> Err e | Inr pos \<Rightarrow>
      case map_read_optional m FActualVelocity img of Inl e \<Rightarrow> Err e | Inr vel \<Rightarrow>
      case map_read_optional m FActualTorque img of Inl e \<Rightarrow> Err e | Inr torque \<Rightarrow>
      case map_read_optional m FFollowingError img of Inl e \<Rightarrow> Err e | Inr following \<Rightarrow>
        Ok \<lparr>pi_statusword = statusword, pi_actual_mode = mode, pi_error_code = code,
            pi_actual_position = pos, pi_actual_velocity = vel, pi_actual_torque = torque,
            pi_following_error = following\<rparr>)"

definition read_inputs :: "pdo_map \<Rightarrow> bytes \<Rightarrow> (cia402_pdo_error, pdo_inputs) result" where
  "read_inputs m img =
     (case validate_common m of Inl e \<Rightarrow> Err e | Inr _ \<Rightarrow>
      case preflight_input m img of Inl e \<Rightarrow> Err e | Inr _ \<Rightarrow>
      case map_read_unsigned m FStatusword img of Inl e \<Rightarrow> Err e | Inr sw \<Rightarrow>
      case map_read_signed m FModeDisplay img of Inl e \<Rightarrow> Err e | Inr mode \<Rightarrow>
      case map_read_unsigned m FErrorCode img of Inl e \<Rightarrow> Err e | Inr code \<Rightarrow>
        read_motion_inputs m img (ucast sw) (mode_from_raw (ucast mode)) (ucast code))"

definition read_inputs_for :: "pdo_map \<Rightarrow> bytes \<Rightarrow> operating_mode \<Rightarrow> (cia402_pdo_error, pdo_inputs) result" where
  "read_inputs_for m img mode =
     (case validate_for m mode of Inl e \<Rightarrow> Err e | Inr _ \<Rightarrow> read_inputs m img)"

section \<open>Writing a command\<close>

definition preflight_output :: "pdo_map \<Rightarrow> bytes \<Rightarrow> pdo_field list \<Rightarrow> (cia402_pdo_error, unit) result" where
  "preflight_output m img fs =
     for_fields (\<lambda>f. case map_require m f of
         Inl e \<Rightarrow> Some e
       | Inr en \<Rightarrow> pdo_failure (pdo_read_unsigned en img)) fs"

definition map_write_unsigned :: "pdo_map \<Rightarrow> pdo_field \<Rightarrow> bytes \<Rightarrow> u64 \<Rightarrow> bytes \<times> (cia402_pdo_error, unit) result" where
  "map_write_unsigned m f img v =
     (case map_require m f of Inl e \<Rightarrow> (img, Err e) | Inr en \<Rightarrow>
        (case pdo_write_unsigned en img v of (img1, Inl e) \<Rightarrow> (img1, Err (CpPdo e)) | (img1, Inr _) \<Rightarrow> (img1, Ok ())))"

definition map_write_signed :: "pdo_map \<Rightarrow> pdo_field \<Rightarrow> bytes \<Rightarrow> u64 \<Rightarrow> bytes \<times> (cia402_pdo_error, unit) result" where
  "map_write_signed m f img v =
     (case map_require m f of Inl e \<Rightarrow> (img, Err e) | Inr en \<Rightarrow>
        (case pdo_write_signed en img v of (img1, Inl e) \<Rightarrow> (img1, Err (CpPdo e)) | (img1, Inr _) \<Rightarrow> (img1, Ok ())))"

definition write_mode_and_control ::
  "pdo_map \<Rightarrow> bytes \<Rightarrow> u16 \<Rightarrow> operating_mode \<Rightarrow> bytes \<times> (cia402_pdo_error, unit) result" where
  "write_mode_and_control m img controlword mode =
     (case map_write_unsigned m FControlword img (ucast controlword) of
        (img1, Inl e) \<Rightarrow> (img1, Err e)
      | (img1, Inr _) \<Rightarrow> map_write_signed m FModeOfOperation img1 (scast (mode_raw mode)))"

definition write_control ::
  "pdo_map \<Rightarrow> bytes \<Rightarrow> operating_mode \<Rightarrow> u16 \<Rightarrow> bytes \<times> (cia402_pdo_error, unit) result" where
  "write_control m img mode controlword =
     (if \<not> is_cyclic mode then (img, Err CpInvalidMode)
      else case validate_common m of Inl e \<Rightarrow> (img, Err e) | Inr _ \<Rightarrow>
        (case preflight_output m img [FControlword, FModeOfOperation] of Inl e \<Rightarrow> (img, Err e) | Inr _ \<Rightarrow>
          write_mode_and_control m img controlword mode))"

fun target_value :: "cia402_target \<Rightarrow> u64" where
  "target_value (TPosition v) = scast v"
| "target_value (TVelocity v) = scast v"
| "target_value (TTorque v) = scast v"

definition write_validated_command ::
  "pdo_map \<Rightarrow> bytes \<Rightarrow> pdo_command \<Rightarrow> pdo_field \<Rightarrow> bytes \<times> (cia402_pdo_error, unit) result" where
  "write_validated_command m img c tf =
     (case write_mode_and_control m img (pc_controlword c) (pc_mode c) of
        (img1, Inl e) \<Rightarrow> (img1, Err e)
      | (img1, Inr _) \<Rightarrow> map_write_signed m tf img1 (target_value (pc_target c)))"

text \<open>The common tail of the three writers.\<close>

definition write_checked ::
  "pdo_map \<Rightarrow> bytes \<Rightarrow> pdo_command \<Rightarrow> bytes \<times> (cia402_pdo_error, unit) result" where
  "write_checked m img c =
     (case validate_for m (pc_mode c) of Inl e \<Rightarrow> (img, Err e) | Inr _ \<Rightarrow>
      case preflight_output m img [FControlword, FModeOfOperation, target_field (pc_mode c)] of
        Inl e \<Rightarrow> (img, Err e)
      | Inr _ \<Rightarrow> write_validated_command m img c (target_field (pc_mode c)))"

definition write_cyclic ::
  "pdo_map \<Rightarrow> bytes \<Rightarrow> pdo_command \<Rightarrow> motion_gate \<Rightarrow> bytes \<times> (cia402_pdo_error, unit) result" where
  "write_cyclic m img c g =
     (if \<not> is_cyclic (pc_mode c) then (img, Err CpInvalidMode)
      else if \<not> allows_motion g then (img, Err CpMotionNotAllowed)
      else if target_mode (pc_target c) \<noteq> pc_mode c then (img, Err CpTargetModeMismatch)
      else if pc_controlword c AND 0x000F \<noteq> CONTROLWORD_ENABLE_OPERATION
        then (img, Err CpControlwordNotOperationEnabled)
      else write_checked m img c)"

definition write_controlled_stop ::
  "pdo_map \<Rightarrow> bytes \<Rightarrow> pdo_command \<Rightarrow> controlled_stop_gate \<Rightarrow> bytes \<times> (cia402_pdo_error, unit) result" where
  "write_controlled_stop m img c g =
     (if \<not> is_cyclic (pc_mode c) then (img, Err CpInvalidMode)
      else if \<not> allows_controlled_stop g then (img, Err CpMotionNotAllowed)
      else if target_mode (pc_target c) \<noteq> pc_mode c then (img, Err CpTargetModeMismatch)
      else if pc_controlword c \<noteq> CONTROLWORD_ENABLE_OPERATION
        then (img, Err CpControlwordNotOperationEnabled)
      else write_checked m img c)"

fun matches_actual :: "cia402_target \<Rightarrow> pdo_inputs \<Rightarrow> bool" where
  "matches_actual (TPosition v) i \<longleftrightarrow> pi_actual_position i = Some v"
| "matches_actual (TVelocity v) i \<longleftrightarrow> pi_actual_velocity i = Some v"
| "matches_actual (TTorque v) i \<longleftrightarrow> pi_actual_torque i = Some v"

definition write_enable_with_actual_target ::
  "pdo_map \<Rightarrow> bytes \<Rightarrow> pdo_command \<Rightarrow> pdo_inputs \<Rightarrow> bytes \<times> (cia402_pdo_error, unit) result" where
  "write_enable_with_actual_target m img c inputs =
     (if \<not> is_cyclic (pc_mode c) then (img, Err CpInvalidMode)
      else if target_mode (pc_target c) \<noteq> pc_mode c then (img, Err CpTargetModeMismatch)
      else if pc_controlword c \<noteq> CONTROLWORD_ENABLE_OPERATION
        then (img, Err CpControlwordNotOperationEnabled)
      else if pi_actual_mode inputs \<noteq> pc_mode c \<or> from_statusword (pi_statusword inputs) \<noteq> SwitchedOn
        then (img, Err CpMotionNotAllowed)
      else if \<not> matches_actual (pc_target c) inputs then (img, Err CpInitialTargetMismatch)
      else write_checked m img c)"

section \<open>A validated map\<close>

lemma for_fields_Ok: "for_fields body fs = Inr u \<longleftrightarrow> (\<forall>f\<in>set fs. body f = None)"
  by (induction fs) (auto split: option.splits)

lemma all_fields: "f \<in> set ALL_FIELDS"
  by (cases f) (simp_all add: ALL_FIELDS_def)

definition fields_apart :: "pdo_map \<Rightarrow> pdo_field \<Rightarrow> pdo_field \<Rightarrow> bool" where
  "fields_apart m f g \<longleftrightarrow>
     (\<forall>a b. map_entry m f = Some a \<and> map_entry m g = Some b \<longrightarrow> entries_apart a b)"

lemma fields_apart_sym: "fields_apart m f g \<longleftrightarrow> fields_apart m g f"
  using entries_apart_sym by (auto simp: fields_apart_def)

lemma layout_last_apart:
  assumes "layout_inv n l" "pdo_layout_entries l = xs @ [e]" "x \<in> set xs"
  shows "entries_apart x e"
proof -
  obtain i where i: "i < length xs" "xs ! i = x" using assms(3) by (auto simp: in_set_conv_nth)
  have len: "pl_entry_count l = Suc (length xs)"
  proof -
    have "length (pdo_layout_entries l) = pl_entry_count l"
      using assms(1) by (simp add: layout_inv_def pdo_layout_entries_def)
    then show ?thesis by (simp add: assms(2))
  qed
  have "pl_entries l ! i = (xs @ [e]) ! i" "pl_entries l ! length xs = (xs @ [e]) ! length xs"
    using i len unfolding assms(2) [symmetric] pdo_layout_entries_def by simp_all
  with i have "pl_entries l ! i = x" "pl_entries l ! length xs = e" by (simp_all add: nth_append)
  moreover have "entries_apart (pl_entries l ! i) (pl_entries l ! length xs)"
    using assms(1) len i(1) by (simp add: layout_inv_def)
  ultimately show ?thesis by simp
qed

lemma layout_loop_apart:
  "layout_inv FIELD_COUNT l \<Longrightarrow> layout_loop m l fs = Inr u \<Longrightarrow>
     sorted_wrt (fields_apart m) fs \<and>
     (\<forall>f\<in>set fs. \<forall>e x. map_entry m f = Some e \<longrightarrow> x \<in> set (pdo_layout_entries l) \<longrightarrow> entries_apart x e)"
proof (induction fs arbitrary: l)
  case (Cons f fs)
  show ?case
  proof (cases "map_entry m f")
    case None
    with Cons show ?thesis by (auto simp: fields_apart_def)
  next
    case (Some e)
    then obtain l' i where add: "pdo_layout_add FIELD_COUNT l e = (l', Inr i)" and rest: "layout_loop m l' fs = Inr u"
      using Cons.prems(2) by (auto split: prod.splits sum.splits)
    have l': "layout_inv FIELD_COUNT l'" "pdo_layout_entries l' = pdo_layout_entries l @ [e]"
      using pdo_layout_add_Ok [OF Cons.prems(1) add] by simp_all
    show ?thesis
      using Cons.IH [OF l'(1) rest] layout_last_apart [OF l'] Some
      by (auto simp: l'(2) fields_apart_def)
  qed
qed simp

lemma validated_map:
  assumes "validate_common m = Inr u"
  shows "f \<noteq> g \<Longrightarrow> fields_apart m f g" and "map_entry m f = Some e \<Longrightarrow> entry_as_specified f e"
proof -
  have sorted: "sorted_wrt (fields_apart m) ALL_FIELDS"
    using assms layout_loop_apart [OF pdo_layout_new_inv]
    by (auto simp: validate_common_def validate_layout_def split: sum.splits)
  show "fields_apart m f g" if "f \<noteq> g"
  proof -
    obtain i j where ij: "i < length ALL_FIELDS" "ALL_FIELDS ! i = f" "j < length ALL_FIELDS" "ALL_FIELDS ! j = g"
      using all_fields [of f] all_fields [of g] by (auto simp: in_set_conv_nth)
    with that have "i < j \<or> j < i" by (metis nat_neq_iff)
    with sorted ij show ?thesis
      unfolding sorted_wrt_iff_nth_less by (metis fields_apart_sym)
  qed
  show "entry_as_specified f e" if "map_entry m f = Some e"
  proof -
    have "validate_present_entries m = Inr ()"
      using assms by (auto simp: validate_common_def split: sum.splits)
    then show ?thesis using that all_fields [of f]
      by (auto simp: validate_present_entries_def for_fields_Ok split: option.splits if_splits)
  qed
qed

lemma preflight_output_Ok:
  assumes "preflight_output m img fs = Inr u" "f \<in> set fs"
  shows "\<exists>e. map_entry m f = Some e \<and> pdo_validate e (length img) = Inr ()"
proof -
  have body: "(case map_require m f of Inl e \<Rightarrow> Some e | Inr en \<Rightarrow> pdo_failure (pdo_read_unsigned en img)) = None"
    using assms by (simp add: preflight_output_def for_fields_Ok)
  then obtain e where e: "map_entry m f = Some e"
    by (auto simp: map_require_def ok_or_def split: option.splits)
  with body have "pdo_failure (pdo_read_unsigned e img) = None" by (simp add: map_require_def ok_or_def)
  with e show ?thesis
    by (cases "pdo_validate e (length img)") (auto simp: pdo_failure_def pdo_read_unsigned_def)
qed

section \<open>Writing one field\<close>

definition field_bits :: "pdo_field \<Rightarrow> nat" where
  "field_bits f = unat (es_bit_length (spec_of f))"

definition field_fits :: "pdo_field \<Rightarrow> u64 \<Rightarrow> bool" where
  "field_fits f v \<longleftrightarrow>
     (if es_signed (spec_of f) then - (2 ^ (field_bits f - 1)) \<le> sint v \<and> sint v < 2 ^ (field_bits f - 1)
      else unat v < 2 ^ field_bits f)"

definition write_field :: "pdo_map \<Rightarrow> pdo_field \<Rightarrow> bytes \<Rightarrow> u64 \<Rightarrow> bytes \<times> (cia402_pdo_error, unit) result" where
  "write_field m f img v = (if es_signed (spec_of f) then map_write_signed m f img v else map_write_unsigned m f img v)"

definition read_field :: "pdo_map \<Rightarrow> pdo_field \<Rightarrow> bytes \<Rightarrow> (cia402_pdo_error, u64) result" where
  "read_field m f img = (if es_signed (spec_of f) then map_read_signed m f img else map_read_unsigned m f img)"

lemma write_field_ok:
  assumes "validate_common m = Inr ()" "map_entry m f = Some e" "pdo_validate e (length img) = Inr ()" "field_fits f v"
  shows "\<exists>img'. write_field m f img v = (img', Inr ()) \<and> length img' = length img \<and> read_field m f img' = Inr v \<and>
    (\<forall>g. g \<noteq> f \<longrightarrow> es_direction (spec_of g) = es_direction (spec_of f) \<longrightarrow> read_field m g img' = read_field m g img)"
proof -
  let ?n = "unat (pe_bit_length e)"
  let ?img = "write_bits img (pe_bit_offset e) ?n v"
  have spec: "pe_signed e = es_signed (spec_of f)" "?n = field_bits f" "pe_direction e = es_direction (spec_of f)"
    using validated_map(2) [OF assms(1,2)] by (simp_all add: entry_as_specified_def field_bits_def)
  have "write_field m f img v = (?img, Inr ())"
    using pdo_write_signed_cases [OF refl, of e img v] pdo_write_unsigned_cases [OF refl, of e img v] assms(2-4) spec
    by (auto simp: write_field_def map_write_signed_def map_write_unsigned_def map_require_def ok_or_def
        field_fits_def split: if_splits)
  moreover have "read_field m f ?img = Inr v"
    using pdo_read_signed_written [OF assms(3) _ refl, of v] pdo_read_unsigned_written [OF assms(3) refl, of v]
      assms(2,4) spec
    by (auto simp: read_field_def map_read_signed_def map_read_unsigned_def map_require_def ok_or_def
        field_fits_def split: if_splits)
  moreover have "read_field m g ?img = read_field m g img"
    if "g \<noteq> f" "es_direction (spec_of g) = es_direction (spec_of f)" for g
  proof (cases "map_entry m g")
    case None
    then show ?thesis by (simp add: read_field_def map_read_signed_def map_read_unsigned_def map_require_def ok_or_def)
  next
    case (Some b)
    have dir: "pe_direction e = pe_direction b"
      using validated_map(2) [OF assms(1) Some] that(2) spec(3) by (simp add: entry_as_specified_def)
    have "entries_apart e b"
      using validated_map(1) [OF assms(1), of f g] that(1) Some assms(2) by (simp add: fields_apart_def)
    from pdo_read_unsigned_apart [OF this dir assms(3)] Some show ?thesis
      by (simp add: read_field_def map_read_signed_def map_read_unsigned_def map_require_def ok_or_def
          pdo_read_signed_def)
  qed
  ultimately show ?thesis by auto
qed

lemma sint_scast_up:
  assumes "LENGTH('a) \<le> 64"
  shows "sint (scast (w :: 'a::len word) :: u64) = sint w"
proof -
  have "(2 :: int) ^ (LENGTH('a) - 1) \<le> 2 ^ 63" using assms by (intro power_increasing) auto
  then have "- (2 ^ 63) \<le> sint w" "sint w < 2 ^ 63"
    using sint_ge [of w] sint_lt [of w] by linarith+
  then have "signed_take_bit 63 (sint w) = sint w" by (intro signed_take_bit_int_eq_self)
  then show ?thesis by (simp add: signed_scast_eq)
qed

lemma command_fits:
  "field_fits FControlword (ucast (cw :: u16))" "field_fits FModeOfOperation (scast (mode_raw mode))"
  "field_fits (target_field (target_mode t)) (target_value t)"
proof -
  show "field_fits FControlword (ucast cw)"
    using le_less_trans [OF take_bit_nat_less_eq_self [of 64 "unat cw"] order.strict_trans2 [OF unat_less [of cw]], of 65536]
    by (simp add: field_fits_def field_bits_def spec_of_def unsigned_ucast_eq)
  show "field_fits FModeOfOperation (scast (mode_raw mode))"
    using sint_ge [of "mode_raw mode"] sint_lt [of "mode_raw mode"]
    by (simp add: field_fits_def field_bits_def spec_of_def sint_scast_up)
  show "field_fits (target_field (target_mode t)) (target_value t)"
  proof (cases t)
    case (TPosition v)
    then show ?thesis using sint_ge [of v] sint_lt [of v]
      by (simp add: field_fits_def field_bits_def spec_of_def sint_scast_up)
  next
    case (TVelocity v)
    then show ?thesis using sint_ge [of v] sint_lt [of v]
      by (simp add: field_fits_def field_bits_def spec_of_def sint_scast_up)
  next
    case (TTorque v)
    then show ?thesis using sint_ge [of v] sint_lt [of v]
      by (simp add: field_fits_def field_bits_def spec_of_def sint_scast_up)
  qed
qed

section \<open>Writing a command\<close>

definition command_written :: "pdo_map \<Rightarrow> pdo_command \<Rightarrow> bytes \<Rightarrow> bytes \<Rightarrow> bool" where
  "command_written m c img img' \<longleftrightarrow> length img' = length img \<and>
     map_read_unsigned m FControlword img' = Ok (ucast (pc_controlword c)) \<and>
     map_read_signed m FModeOfOperation img' = Ok (scast (mode_raw (pc_mode c))) \<and>
     map_read_signed m (target_field (pc_mode c)) img' = Ok (target_value (pc_target c)) \<and>
     (\<forall>f. field_direction f = PdoRx \<and> f \<notin> {FControlword, FModeOfOperation, target_field (pc_mode c)} \<longrightarrow>
        map_read_signed m f img' = map_read_signed m f img)"

lemma spec_simps:
  "es_direction (spec_of f) = field_direction f"
  "es_signed (spec_of FControlword) = False" "es_signed (spec_of FModeOfOperation) = True"
  "es_signed (spec_of (target_field mode)) = True"
  "field_direction (target_field mode) = PdoRx" "target_field mode \<noteq> FControlword" "target_field mode \<noteq> FModeOfOperation"
  by (cases f; simp add: spec_of_def field_direction_def)
    (simp_all add: spec_of_def, (cases mode; simp add: spec_of_def field_direction_def)+)

lemma write_validated_command_ok:
  assumes "validate_common m = Inr ()" "target_mode (pc_target c) = pc_mode c"
    and "preflight_output m img [FControlword, FModeOfOperation, target_field (pc_mode c)] = Inr u"
  shows "\<exists>img'. write_validated_command m img c (target_field (pc_mode c)) = (img', Inr ()) \<and> command_written m c img img'"
proof -
  let ?tf = "target_field (pc_mode c)"
  have rx: "field_direction FControlword = PdoRx" "field_direction FModeOfOperation = PdoRx"
    by (simp_all add: field_direction_def)
  obtain ec em et where e: "map_entry m FControlword = Some ec" "pdo_validate ec (length img) = Inr ()"
      "map_entry m FModeOfOperation = Some em" "pdo_validate em (length img) = Inr ()"
      "map_entry m ?tf = Some et" "pdo_validate et (length img) = Inr ()"
    using preflight_output_Ok [OF assms(3)] by (metis list.set_intros)
  obtain img1 where w1: "write_field m FControlword img (ucast (pc_controlword c)) = (img1, Inr ())"
      "length img1 = length img" "read_field m FControlword img1 = Inr (ucast (pc_controlword c))"
      "\<forall>g. g \<noteq> FControlword \<longrightarrow> field_direction g = PdoRx \<longrightarrow> read_field m g img1 = read_field m g img"
    using write_field_ok [OF assms(1) e(1,2) command_fits(1)] by (auto simp: spec_simps rx)
  obtain img2 where w2: "write_field m FModeOfOperation img1 (scast (mode_raw (pc_mode c))) = (img2, Inr ())"
      "length img2 = length img1" "read_field m FModeOfOperation img2 = Inr (scast (mode_raw (pc_mode c)))"
      "\<forall>g. g \<noteq> FModeOfOperation \<longrightarrow> field_direction g = PdoRx \<longrightarrow> read_field m g img2 = read_field m g img1"
    using write_field_ok [OF assms(1) e(3) _ command_fits(2), of img1] e(4) w1(2) by (auto simp: spec_simps rx)
  obtain img3 where w3: "write_field m ?tf img2 (target_value (pc_target c)) = (img3, Inr ())"
      "length img3 = length img2" "read_field m ?tf img3 = Inr (target_value (pc_target c))"
      "\<forall>g. g \<noteq> ?tf \<longrightarrow> field_direction g = PdoRx \<longrightarrow> read_field m g img3 = read_field m g img2"
    using write_field_ok [OF assms(1) e(5) _ command_fits(3) [of "pc_target c", unfolded assms(2)], of img2]
      e(6) w1(2) w2(2) by (auto simp: spec_simps)
  have "write_validated_command m img c ?tf = (img3, Inr ())"
    using w1(1) w2(1) w3(1)
    by (simp add: write_validated_command_def write_mode_and_control_def write_field_def spec_simps)
  moreover have "map_read_signed m f img3 = map_read_signed m f img"
    if "field_direction f = PdoRx" "f \<notin> {FControlword, FModeOfOperation, ?tf}" for f
  proof -
    have "es_signed (spec_of f)" using that by (cases f) (auto simp: spec_of_def field_direction_def)
    moreover have "read_field m f img3 = read_field m f img" using w1(4) w2(4) w3(4) that by simp
    ultimately show ?thesis by (simp add: read_field_def)
  qed
  moreover have "read_field m FControlword img3 = Inr (ucast (pc_controlword c))"
    using w1(3) w2(4) w3(4) rx(1) spec_simps(6) [of "pc_mode c"] by (metis pdo_field.distinct(1))
  moreover have "read_field m FModeOfOperation img3 = Inr (scast (mode_raw (pc_mode c)))"
    using w2(3) w3(4) rx(2) spec_simps(7) [of "pc_mode c"] by metis
  ultimately show ?thesis
    using w1(2) w2(2) w3(2,3) by (simp add: command_written_def read_field_def spec_simps)
qed

lemma write_checked_atomic:
  assumes "target_mode (pc_target c) = pc_mode c" "write_checked m img c = (img', r)"
  shows "case r of Inl e \<Rightarrow> img' = img | Inr _ \<Rightarrow> command_written m c img img'"
proof (cases "validate_for m (pc_mode c)")
  case (Inl e)
  with assms(2) have "r = Inl e \<and> img' = img" by (auto simp: write_checked_def)
  then show ?thesis by simp
next
  case (Inr u)
  then have common: "validate_common m = Inr ()"
    by (auto simp: validate_for_def split: if_splits sum.splits)
  show ?thesis
  proof (cases "preflight_output m img [FControlword, FModeOfOperation, target_field (pc_mode c)]")
    case (Inl e)
    with Inr assms(2) have "r = Inl e \<and> img' = img" by (auto simp: write_checked_def)
    then show ?thesis by simp
  next
    case pre: (Inr u')
    from write_validated_command_ok [OF common assms(1) pre] Inr pre assms(2) show ?thesis
      by (auto simp: write_checked_def)
  qed
qed

text \<open>C34. A command for a drive reaches the process image completely or not at all, through each
  of the three writers: a refused write leaves the image as it was; an accepted one leaves the
  command's Controlword, mode and target in it as the drive reads them, and no other output
  field of the drive changes. A write is accepted only with the Controlword that enables
  operation and a target for the commanded mode; for motion only if permit, mode, drive state
  and setpoint have all been confirmed, for a controlled stop only while stopping, and on the
  enabling edge only with a target equal to the current feedback of a switched on drive.\<close>

theorem command_written_atomically:
  assumes "w = write_cyclic m img c gate \<and> allowed = allows_motion gate \<or>
      w = write_controlled_stop m img c stop_gate \<and> allowed = allows_controlled_stop stop_gate \<or>
      w = write_enable_with_actual_target m img c inputs \<and>
        allowed = (matches_actual (pc_target c) inputs \<and> pi_actual_mode inputs = pc_mode c \<and>
          from_statusword (pi_statusword inputs) = SwitchedOn)"
  shows "case w of
      (img', Inl e) \<Rightarrow> img' = img
    | (img', Inr _) \<Rightarrow> allowed \<and> pc_controlword c AND 0x000F = CONTROLWORD_ENABLE_OPERATION \<and>
        target_mode (pc_target c) = pc_mode c \<and> command_written m c img img'"
proof -
  have and_f: "CONTROLWORD_ENABLE_OPERATION AND 0x000F = CONTROLWORD_ENABLE_OPERATION"
    by (simp add: CONTROLWORD_ENABLE_OPERATION_def)
  have checked: "case write_checked m img c of (img', Inl e) \<Rightarrow> img' = img | (img', Inr _) \<Rightarrow> command_written m c img img'"
    if "target_mode (pc_target c) = pc_mode c"
    using write_checked_atomic [OF that, of m img "fst (write_checked m img c)" "snd (write_checked m img c)"]
    by (auto split: prod.splits sum.splits)
  from assms show ?thesis
  proof (elim disjE conjE)
    assume "w = write_cyclic m img c gate" "allowed = allows_motion gate"
    then show ?thesis using checked by (auto simp: write_cyclic_def split: prod.splits sum.splits)
  next
    assume "w = write_controlled_stop m img c stop_gate" "allowed = allows_controlled_stop stop_gate"
    then show ?thesis using checked and_f by (auto simp: write_controlled_stop_def split: prod.splits sum.splits)
  next
    assume "w = write_enable_with_actual_target m img c inputs" "allowed = (matches_actual (pc_target c) inputs \<and>
      pi_actual_mode inputs = pc_mode c \<and> from_statusword (pi_statusword inputs) = SwitchedOn)"
    then show ?thesis using checked and_f
      by (auto simp: write_enable_with_actual_target_def split: prod.splits sum.splits)
  qed
qed

text \<open>When the layout of a map is accepted.\<close>

definition entry_accepted :: "pdo_entry list \<Rightarrow> pdo_entry \<Rightarrow> bool" where
  "entry_accepted xs e \<longleftrightarrow> 1 \<le> unat (pe_bit_length e) \<and> unat (pe_bit_length e) \<le> 64 \<and>
     pe_bit_offset e + unat (pe_bit_length e) \<le> usize_max \<and>
     list_all (\<lambda>x. \<not> same_object x e \<and> (pe_direction x = pe_direction e \<longrightarrow>
       pe_bit_offset x + unat (pe_bit_length x) \<le> pe_bit_offset e \<or>
       pe_bit_offset e + unat (pe_bit_length e) \<le> pe_bit_offset x)) xs"

fun layout_accepts :: "pdo_map \<Rightarrow> pdo_entry list \<Rightarrow> pdo_field list \<Rightarrow> bool" where
  "layout_accepts m xs [] = True"
| "layout_accepts m xs (f # fs) =
     (case map_entry m f of None \<Rightarrow> layout_accepts m xs fs
      | Some e \<Rightarrow> entry_accepted xs e \<and> layout_accepts m (xs @ [e]) fs)"

lemma layout_loop_accepts:
  "layout_inv FIELD_COUNT l \<Longrightarrow> layout_accepts m (pdo_layout_entries l) fs \<Longrightarrow>
     length (pdo_layout_entries l) + length fs \<le> FIELD_COUNT \<Longrightarrow> layout_loop m l fs = Inr ()"
proof (induction fs arbitrary: l)
  case (Cons f fs)
  show ?case
  proof (cases "map_entry m f")
    case (Some e)
    have count: "pl_entry_count l < FIELD_COUNT"
      using Cons.prems(1,3) by (simp add: layout_inv_def pdo_layout_entries_def)
    have "entry_accepted (pdo_layout_entries l) e" using Cons.prems(2) Some by simp
    then have "\<exists>l' i. pdo_layout_add FIELD_COUNT l e = (l', Inr i)"
      using count by (auto simp: pdo_layout_add_def entry_accepted_def list_all_iff usize_checked_add_def word_le_nat_alt)
    then obtain l' i where add: "pdo_layout_add FIELD_COUNT l e = (l', Inr i)" by blast
    with pdo_layout_add_Ok [OF Cons.prems(1) add] Cons.IH [of l'] Cons.prems(2,3) Some show ?thesis by simp
  qed (use Cons in simp)
qed simp

text \<open>A drive in cyclic synchronous position mode.\<close>

definition sample_field :: "pdo_field \<Rightarrow> nat \<Rightarrow> pdo_entry" where
  "sample_field f off = \<lparr>pe_index = es_index (spec_of f), pe_subindex = 0, pe_bit_offset = off,
     pe_bit_length = es_bit_length (spec_of f), pe_signed = es_signed (spec_of f),
     pe_direction = es_direction (spec_of f)\<rparr>"

definition sample_map :: pdo_map where
  "sample_map = [Some (sample_field FControlword 0), Some (sample_field FModeOfOperation 16),
     Some (sample_field FTargetPosition 24), None, None, Some (sample_field FStatusword 0),
     Some (sample_field FModeDisplay 16), Some (sample_field FErrorCode 24),
     Some (sample_field FActualPosition 40), None, None, None]"

definition sample_command :: pdo_command where
  "sample_command = \<lparr>pc_controlword = 0x000F, pc_mode = Csp, pc_target = TPosition (- 5)\<rparr>"

lemma sample_map_entries:
  "map_entry sample_map f = (case f of
     FControlword \<Rightarrow> Some (sample_field f 0) | FModeOfOperation \<Rightarrow> Some (sample_field f 16)
   | FTargetPosition \<Rightarrow> Some (sample_field f 24) | FStatusword \<Rightarrow> Some (sample_field f 0)
   | FModeDisplay \<Rightarrow> Some (sample_field f 16) | FErrorCode \<Rightarrow> Some (sample_field f 24)
   | FActualPosition \<Rightarrow> Some (sample_field f 40) | _ \<Rightarrow> None)"
  by (cases f) (simp_all add: map_entry_def sample_map_def)

lemma sample_map_valid: "validate_for sample_map Csp = Inr ()"
proof -
  have "validate_present_entries sample_map = Inr ()"
    by (auto simp: validate_present_entries_def for_fields_Ok sample_map_entries sample_field_def
        entry_as_specified_def split: pdo_field.splits option.splits)
  moreover have "validate_layout sample_map = Inr ()"
    unfolding validate_layout_def
  proof (rule layout_loop_accepts [OF pdo_layout_new_inv])
    show "layout_accepts sample_map (pdo_layout_entries (pdo_layout_new FIELD_COUNT)) ALL_FIELDS"
      by (simp add: ALL_FIELDS_def sample_map_entries pdo_layout_new_def pdo_layout_entries_def
          sample_field_def spec_of_def usize_max_def entry_accepted_def same_object_def)
  qed (simp add: ALL_FIELDS_def FIELD_COUNT_def pdo_layout_new_def pdo_layout_entries_def)
  ultimately show ?thesis
    by (simp add: validate_for_def validate_common_def COMMON_FIELDS_def missing_field_def map_require_def
        ok_or_def sample_map_entries)
qed

theorem command_written_atomically_witness:
  "\<exists>img'. write_cyclic sample_map (replicate 9 0) sample_command
       \<lparr>mg_lifecycle_permit = True, mg_mode_confirmed = True, mg_operation_enabled = True, mg_setpoint_valid = True\<rparr> =
     (img', Ok ()) \<and> command_written sample_map sample_command (replicate 9 0) img'"
proof -
  let ?g = "\<lparr>mg_lifecycle_permit = True, mg_mode_confirmed = True, mg_operation_enabled = True, mg_setpoint_valid = True\<rparr>"
  have pre: "preflight_output sample_map (replicate 9 0) [FControlword, FModeOfOperation, target_field Csp] = Inr ()"
    by (simp add: preflight_output_def map_require_def ok_or_def sample_map_entries pdo_failure_def
        pdo_read_unsigned_def pdo_validate_Ok pdo_validate_def usize_checked_add_def usize_max_def
        usize_sat_mul_def sample_field_def spec_of_def word_le_nat_alt)
  have "validate_common sample_map = Inr ()"
    using sample_map_valid by (auto simp: validate_for_def split: sum.splits)
  from write_validated_command_ok [OF this, of sample_command "replicate 9 0"] pre sample_map_valid
  obtain img' where "write_cyclic sample_map (replicate 9 0) sample_command ?g = (img', Inr ())"
    by (auto simp: sample_command_def write_cyclic_def write_checked_def allows_motion_def CONTROLWORD_ENABLE_OPERATION_def)
  then show ?thesis
    using command_written_atomically [of _ sample_map "replicate 9 0" sample_command ?g "allows_motion ?g"] by fastforce
qed

end
