(* ===== verification/Guard_Cia402.thy ===== *)
theory Guard_Cia402
  imports Guard_Model Cia402_Pdo
begin

text \<open>
  The drive adapter of the lifecycle guard (\<open>esop-lifecycle-guard/src/cia402.rs\<close>): the decision of
  a guard cycle applied to the bank of drives, the planner of controlled stops, and the stop
  evidence taken from drive feedback.
\<close>

section \<open>The decision applied to the drives\<close>

definition stop_request_of :: "axis_directive \<Rightarrow> drive_request" where
  "stop_request_of d =
     (case d of
        Stop QuickStop \<Rightarrow> ReqQuickStop
      | Inhibit \<Rightarrow> ReqDisable
      | EnableAllowed \<Rightarrow> ReqDisable
      | Stop _ \<Rightarrow> ReqDisable)"

definition step_axis_bank ::
  "axis_bank \<Rightarrow> axis_cycle_decision \<Rightarrow> u16 list \<Rightarrow> drive_request list \<Rightarrow> axis_bank \<times> cia402_output list" where
  "step_axis_bank bank decision statuswords requests =
     step_with_axis_stop bank statuswords requests (permitted_axis_mask decision)
       (map (\<lambda>index. stop_request_of (decision_axis decision index)) [0..<length bank])"

section \<open>Controlled stops\<close>

datatype stop_phase = PhIdle | PhApplying | PhZeroCommanded | PhDisableRequested

record stop_limits =
  sl_max_velocity_step :: u32
  sl_max_torque_step :: u16
  sl_max_stationary_velocity :: u32
  sl_max_zero_torque :: u16

datatype stop_error = SeNotControlledAction | SeStopSequenceReplayed | SeCycleReplayed | SeActionChanged
  | SeModeChanged | SeLimitsChanged | SeUnsupportedMode | SeModeNotConfirmed | SeMissingPosition
  | SeMissingVelocity | SeMissingTorque | SeInvalidLimits

record stop_command =
  sc_controlword :: u16
  sc_mode :: operating_mode
  sc_target :: "cia402_target option"
  sc_action :: stop_action
  sc_phase :: stop_phase

definition command_controlled :: "stop_command \<Rightarrow> bool" where
  "command_controlled c \<longleftrightarrow> sc_controlword c = CONTROLWORD_ENABLE_OPERATION \<and> sc_target c \<noteq> None"

record stop_planner =
  sp_initialized :: bool
  sp_stop_sequence :: u64
  sp_last_cycle :: u64
  sp_action :: stop_action
  sp_mode :: operating_mode
  sp_limits :: stop_limits
  sp_phase :: stop_phase
  sp_hold_position :: i32

record stop_preview =
  spv_next :: stop_planner
  spv_command :: stop_command

definition stop_planner_new :: stop_planner where
  "stop_planner_new = \<lparr>sp_initialized = False, sp_stop_sequence = 0, sp_last_cycle = 0, sp_action = Disable,
     sp_mode = ModeUnknown,
     sp_limits = \<lparr>sl_max_velocity_step = 0, sl_max_torque_step = 0, sl_max_stationary_velocity = 0,
       sl_max_zero_torque = 0\<rparr>,
     sp_phase = PhIdle, sp_hold_position = 0\<rparr>"

definition planner_stop_sequence :: "stop_planner \<Rightarrow> u64 option" where
  "planner_stop_sequence p = (if sp_initialized p then Some (sp_stop_sequence p) else None)"

definition target_command :: "stop_planner \<Rightarrow> cia402_target \<Rightarrow> stop_command" where
  "target_command p target = \<lparr>sc_controlword = CONTROLWORD_ENABLE_OPERATION, sc_mode = sp_mode p,
     sc_target = Some target, sc_action = sp_action p, sc_phase = sp_phase p\<rparr>"

definition disable_command :: "stop_planner \<Rightarrow> stop_command" where
  "disable_command p = \<lparr>sc_controlword = CONTROLWORD_DISABLE_VOLTAGE, sc_mode = sp_mode p,
     sc_target = None, sc_action = sp_action p, sc_phase = sp_phase p\<rparr>"

definition validate_limits :: "stop_action \<Rightarrow> operating_mode \<Rightarrow> stop_limits \<Rightarrow> (stop_error, unit) result" where
  "validate_limits action mode limits =
     (if action = Hold \<and> mode = Csp then Ok ()
      else if action = RampToZero \<and> mode = Csv \<and> sl_max_velocity_step limits \<noteq> 0 then Ok ()
      else if action = RampToZero \<and> mode = Cst \<and> sl_max_torque_step limits \<noteq> 0 then Ok ()
      else if action = RampToZero \<and> (mode = Csv \<or> mode = Cst) then Err SeInvalidLimits
      else if action = Hold \<or> action = RampToZero then Err SeUnsupportedMode
      else Err SeNotControlledAction)"

text \<open>\<open>unsigned_abs\<close> of a signed integer. \<open>toward_zero_i32\<close> and \<open>toward_zero_i16\<close> compute in the next
  wider signed type, where neither the difference nor the sum overflows, and truncate.\<close>

definition unsigned_abs :: "'a::len word \<Rightarrow> 'a word" where
  "unsigned_abs v = (if sint v < 0 then - v else v)"

definition toward_zero :: "'a::len word \<Rightarrow> 'a word \<Rightarrow> 'a word" where
  "toward_zero value step =
     (let v = sint value; s = uint step
      in if \<bar>v\<bar> \<le> s then 0 else if 0 < v then word_of_int (v - s) else word_of_int (v + s))"

definition planner_initialize ::
  "stop_planner \<Rightarrow> u64 \<Rightarrow> u64 \<Rightarrow> stop_action \<Rightarrow> operating_mode \<Rightarrow> pdo_inputs \<Rightarrow> stop_limits \<Rightarrow>
   stop_planner \<times> (stop_error, unit) result" where
  "planner_initialize p stop_sequence cycle action mode inputs limits =
     (case validate_limits action mode limits of Inl e \<Rightarrow> (p, Err e) | Inr _ \<Rightarrow>
      case (if action = Hold \<and> from_statusword (pi_statusword inputs) = OperationEnabled
            then ok_or (pi_actual_position inputs) SeMissingPosition else Ok 0) of
        Inl e \<Rightarrow> (p, Err e)
      | Inr hold_position \<Rightarrow>
          (p\<lparr>sp_initialized := True, sp_stop_sequence := stop_sequence, sp_last_cycle := cycle,
             sp_action := action, sp_mode := mode, sp_limits := limits, sp_phase := PhIdle,
             sp_hold_position := hold_position\<rparr>, Ok ()))"

definition hold_command ::
  "stop_planner \<Rightarrow> pdo_inputs \<Rightarrow> stop_limits \<Rightarrow> stop_planner \<times> (stop_error, stop_command) result" where
  "hold_command p inputs limits =
     (if sp_mode p \<noteq> Csp then (p, Err SeUnsupportedMode)
      else case pi_actual_velocity inputs of
        None \<Rightarrow> (p, Err SeMissingVelocity)
      | Some velocity \<Rightarrow>
          if sp_phase p = PhApplying \<and> unsigned_abs velocity \<le> sl_max_stationary_velocity limits then
            let p1 = p\<lparr>sp_phase := PhDisableRequested\<rparr> in (p1, Ok (disable_command p1))
          else
            let p1 = p\<lparr>sp_phase := PhApplying\<rparr>
            in (p1, Ok (target_command p1 (TPosition (sp_hold_position p1)))))"

definition ramp_target :: "stop_planner \<Rightarrow> i32 \<Rightarrow> pdo_inputs \<Rightarrow> stop_limits \<Rightarrow> (stop_error, cia402_target) result" where
  "ramp_target p velocity inputs limits =
     (case sp_mode p of
        Csv \<Rightarrow> Ok (TVelocity (toward_zero velocity (sl_max_velocity_step limits)))
      | Cst \<Rightarrow> (case pi_actual_torque inputs of
            None \<Rightarrow> Err SeMissingTorque
          | Some torque \<Rightarrow> Ok (TTorque (toward_zero torque (sl_max_torque_step limits))))
      | Csp \<Rightarrow> Err SeUnsupportedMode
      | ModeUnknown \<Rightarrow> Err SeUnsupportedMode)"

definition ramp_command ::
  "stop_planner \<Rightarrow> pdo_inputs \<Rightarrow> stop_limits \<Rightarrow> stop_planner \<times> (stop_error, stop_command) result" where
  "ramp_command p inputs limits =
     (case pi_actual_velocity inputs of
        None \<Rightarrow> (p, Err SeMissingVelocity)
      | Some velocity \<Rightarrow>
          if sp_phase p = PhZeroCommanded \<and> unsigned_abs velocity \<le> sl_max_stationary_velocity limits \<and>
             (sp_mode p \<noteq> Cst \<or> (case pi_actual_torque inputs of None \<Rightarrow> False
                | Some torque \<Rightarrow> unsigned_abs torque \<le> sl_max_zero_torque limits))
          then let p1 = p\<lparr>sp_phase := PhDisableRequested\<rparr> in (p1, Ok (disable_command p1))
          else case ramp_target p velocity inputs limits of
            Inl e \<Rightarrow> (p, Err e)
          | Inr target \<Rightarrow>
              let p1 = p\<lparr>sp_phase := if target = TVelocity 0 \<or> target = TTorque 0 then PhZeroCommanded else PhApplying\<rparr>
              in (p1, Ok (target_command p1 target)))"

definition planner_continue_error ::
  "stop_planner \<Rightarrow> u64 \<Rightarrow> u64 \<Rightarrow> stop_action \<Rightarrow> operating_mode \<Rightarrow> stop_limits \<Rightarrow> stop_error option" where
  "planner_continue_error p stop_sequence cycle action mode limits =
     (if stop_sequence < sp_stop_sequence p then Some SeStopSequenceReplayed
      else if stop_sequence = sp_stop_sequence p then
        (if cycle \<le> sp_last_cycle p then Some SeCycleReplayed
         else if action \<noteq> sp_action p then Some SeActionChanged
         else if mode \<noteq> sp_mode p then Some SeModeChanged
         else if limits \<noteq> sp_limits p then Some SeLimitsChanged
         else None)
      else None)"

text \<open>The start of \<open>advance\<close>: the checks against a stop in progress, and either the first cycle of a
  stop sequence or the next one.\<close>

definition planner_enter ::
  "stop_planner \<Rightarrow> u64 \<Rightarrow> u64 \<Rightarrow> stop_action \<Rightarrow> operating_mode \<Rightarrow> pdo_inputs \<Rightarrow> stop_limits \<Rightarrow>
   stop_planner \<times> (stop_error, unit) result" where
  "planner_enter p stop_sequence cycle action mode inputs limits =
     (case (if sp_initialized p then planner_continue_error p stop_sequence cycle action mode limits else None) of
        Some e \<Rightarrow> (p, Err e)
      | None \<Rightarrow>
          let p0 = (if sp_initialized p \<and> stop_sequence \<noteq> sp_stop_sequence p then stop_planner_new else p)
          in if \<not> sp_initialized p0
             then planner_initialize p0 stop_sequence cycle action mode inputs limits
             else (p0\<lparr>sp_last_cycle := cycle\<rparr>, Ok ()))"

definition planner_advance ::
  "stop_planner \<Rightarrow> u64 \<Rightarrow> u64 \<Rightarrow> stop_action \<Rightarrow> operating_mode \<Rightarrow> pdo_inputs \<Rightarrow> stop_limits \<Rightarrow>
   stop_planner \<times> (stop_error, stop_command) result" where
  "planner_advance p stop_sequence cycle action mode inputs limits =
     (if action \<noteq> Hold \<and> action \<noteq> RampToZero then (p, Err SeNotControlledAction)
      else case planner_enter p stop_sequence cycle action mode inputs limits of
        (p1, Inl e) \<Rightarrow> (p1, Err e)
      | (p1, Inr _) \<Rightarrow>
          if from_statusword (pi_statusword inputs) \<noteq> OperationEnabled then
            let p2 = p1\<lparr>sp_phase := PhDisableRequested\<rparr> in (p2, Ok (disable_command p2))
          else if pi_actual_mode inputs \<noteq> mode then (p1, Err SeModeNotConfirmed)
          else case action of
              Hold \<Rightarrow> hold_command p1 inputs limits
            | RampToZero \<Rightarrow> ramp_command p1 inputs limits
            | QuickStop \<Rightarrow> (p1, Err SeNotControlledAction)
            | Disable \<Rightarrow> (p1, Err SeNotControlledAction))"

definition planner_preview ::
  "stop_planner \<Rightarrow> u64 \<Rightarrow> u64 \<Rightarrow> stop_action \<Rightarrow> operating_mode \<Rightarrow> pdo_inputs \<Rightarrow> stop_limits \<Rightarrow>
   (stop_error, stop_preview) result" where
  "planner_preview p stop_sequence cycle action mode inputs limits =
     (case planner_advance p stop_sequence cycle action mode inputs limits of
        (p1, Inl e) \<Rightarrow> Err e
      | (p1, Inr c) \<Rightarrow> Ok \<lparr>spv_next = p1, spv_command = c\<rparr>)"

definition planner_commit :: "stop_planner \<Rightarrow> stop_preview \<Rightarrow> stop_planner" where
  "planner_commit p preview = spv_next preview"

definition planner_reset :: "stop_planner \<Rightarrow> stop_planner" where
  "planner_reset p = stop_planner_new"

section \<open>Stop evidence\<close>

definition stop_feedback_from_cia402 :: "u64 \<Rightarrow> u8 \<Rightarrow> pdo_inputs \<Rightarrow> u32 \<Rightarrow> stop_feedback option" where
  "stop_feedback_from_cia402 cycle axis_index inputs max_stationary_velocity =
     (if 32 \<le> unat axis_index then None
      else
        let axis_bit = push_bit (unat axis_index) 1;
            drive_state = from_statusword (pi_statusword inputs);
            stationary = (case pi_actual_velocity inputs of None \<Rightarrow> False
              | Some velocity \<Rightarrow> unsigned_abs velocity \<le> max_stationary_velocity);
            non_enabled = (drive_state \<notin> {OperationEnabled, FaultReactionActive, DriveUnknown})
        in Some \<lparr>sf_cycle = cycle, sf_observed_axis_mask = axis_bit,
                 sf_stationary_axis_mask = (if stationary then axis_bit else 0),
                 sf_non_enabled_axis_mask = (if non_enabled then axis_bit else 0)\<rparr>)"

section \<open>Values\<close>

lemma sint_of_int:
  assumes "- (2 ^ (LENGTH('a) - 1)) \<le> k" "k < 2 ^ (LENGTH('a) - 1)"
  shows "sint (word_of_int k :: 'a::len word) = k"
proof -
  have "sint (word_of_int k :: 'a word) = signed_take_bit (LENGTH('a) - 1) k"
    by (simp add: sint_sbintrunc')
  then show ?thesis using assms by (simp add: signed_take_bit_int_eq_self)
qed

text \<open>What a step towards zero does to the value.\<close>

definition toward :: "int \<Rightarrow> int \<Rightarrow> int" where
  "toward v s = (if \<bar>v\<bar> \<le> s then 0 else if 0 < v then v - s else v + s)"

lemma toward_abs: "0 \<le> s \<Longrightarrow> \<bar>toward v s\<bar> = max 0 (\<bar>v\<bar> - s)"
  by (auto simp: toward_def)

lemma sint_toward_zero: "sint (toward_zero v s) = toward (sint v) (uint s)"
proof -
  have "\<bar>toward (sint v) (uint s)\<bar> \<le> \<bar>sint v\<bar>" "sint v \<le> 0 \<longrightarrow> toward (sint v) (uint s) \<le> 0"
    using toward_abs [of "uint s" "sint v"] by (auto simp: toward_def)
  then have "- (2 ^ (LENGTH('a) - 1)) \<le> toward (sint v) (uint s)" "toward (sint v) (uint s) < 2 ^ (LENGTH('a) - 1)"
    using sint_ge [of v] sint_lt [of v] by linarith+
  then have "sint (word_of_int (toward (sint v) (uint s)) :: 'a word) = toward (sint v) (uint s)"
    by (rule sint_of_int)
  moreover have "toward_zero v s = word_of_int (toward (sint v) (uint s))"
    by (auto simp: toward_zero_def toward_def Let_def)
  ultimately show ?thesis by simp
qed

lemma uint_unsigned_abs: "uint (unsigned_abs v) = \<bar>sint v\<bar>"
proof -
  have pow: "(2 :: int) ^ LENGTH('a) = 2 * 2 ^ (LENGTH('a) - 1)"
    by (simp flip: power_Suc)
  have bounds: "- (2 ^ (LENGTH('a) - 1)) \<le> sint v" "sint v < 2 ^ (LENGTH('a) - 1)"
    using sint_ge [of v] sint_lt [of v] by simp_all
  have "uint (word_of_int k :: 'a word) = k" if "0 \<le> k" "k < 2 ^ LENGTH('a)" for k
    using that by (simp add: uint_word_of_int)
  from this [of "sint v"] this [of "- sint v"] bounds pow show ?thesis
    by (auto simp: unsigned_abs_def wi_hom_neg [symmetric])
qed

end
