(* ===== verification/Guard_Drives.thy ===== *)
theory Guard_Drives
  imports Guard_Cia402 Guard_Safety
begin

text \<open>
  Properties of the guard and the drives together: the Controlwords a bank of drives is sent
  under the guard's decisions, and the commands of a controlled stop.
\<close>

section \<open>The bank under the guard\<close>

type_synonym bank_input = "axis_cycle_decision \<times> u16 list \<times> drive_request list"

definition bank_cycle :: "axis_bank \<Rightarrow> bank_input \<Rightarrow> axis_bank \<times> cia402_output list" where
  "bank_cycle bank input = (case input of (d, sws, reqs) \<Rightarrow> step_axis_bank bank d sws reqs)"

lemma decision_enable_iff:
  "decision_axis d i = EnableAllowed \<longleftrightarrow> axis_in_mask (permitted_axis_mask d) i"
  by (auto simp: decision_axis_def axis_in_mask_def MAX_MOTION_AXES_def)

lemma bank_cycle_axis:
  assumes "bank_cycle bank (d, sws, reqs) = (bank', outs)" "i < length bank"
  shows "length bank' = length bank"
    and "cia402_step (bank ! i) (sws ! i)
      (if decision_axis d i = EnableAllowed then reqs ! i else denied_request (stop_request_of (decision_axis d i)))
      (decision_axis d i = EnableAllowed) = (bank' ! i, outs ! i)"
proof -
  have step: "axis_bank_from_fn bank (\<lambda>index.
       let permitted = axis_in_mask (permitted_axis_mask d) index;
           request = (if permitted then reqs ! index else denied_request
             (map (\<lambda>index. stop_request_of (decision_axis d index)) [0..<length bank] ! index))
       in cia402_step (bank ! index) (sws ! index) request permitted) = (bank', outs)"
    using assms(1) by (simp add: bank_cycle_def step_axis_bank_def step_with_axis_stop_def)
  show "length bank' = length bank" by (rule axis_bank_from_fn_nth(1) [OF step])
  from axis_bank_from_fn_nth(3) [OF step assms(2)] assms(2)
  show "cia402_step (bank ! i) (sws ! i)
      (if decision_axis d i = EnableAllowed then reqs ! i else denied_request (stop_request_of (decision_axis d i)))
      (decision_axis d i = EnableAllowed) = (bank' ! i, outs ! i)"
    by (cases "axis_in_mask (permitted_axis_mask d) i") (simp_all add: Let_def decision_enable_iff)
qed

lemma denied_stop_request:
  "denied_request (stop_request_of a) = (if a = Stop QuickStop then ReqQuickStop else ReqDisable)"
  by (auto simp: denied_request_def stop_request_of_def split: axis_directive.splits stop_action.splits)

text \<open>Once a fault reset has been issued to an axis, the controller remembers it for as long as
  the drive reports a fault.\<close>

lemma bank_remembers_reset:
  "traced bank_cycle bank inputs = (bank', outs) \<Longrightarrow> i < length bank \<Longrightarrow>
     length bank' = length bank \<and>
     (\<forall>j<length inputs. co_fault_reset_pulse (outs ! j ! i) \<longrightarrow>
        (\<forall>l. j < l \<and> l < length inputs \<longrightarrow> drive_is_fault (co_state (outs ! l ! i))) \<longrightarrow>
        cc_fault_reset_issued (bank' ! i))"
proof (induction inputs arbitrary: bank' outs rule: rev_induct)
  case (snoc x inputs)
  obtain bank1 es e where run: "traced bank_cycle bank inputs = (bank1, es)" "bank_cycle bank1 x = (bank', e)"
      "outs = es @ [e]" using snoc.prems(1) unfolding traced_snoc by blast
  obtain d sws reqs where x: "x = (d, sws, reqs)" by (cases x)
  note IH = snoc.IH [OF run(1) snoc.prems(2)]
  have i: "i < length bank1" using IH snoc.prems(2) by simp
  note step = bank_cycle_axis [OF run(2) [unfolded x] i]
  have len: "length es = length inputs" by (rule length_traced [OF run(1)])
  have keep: "cc_fault_reset_issued (bank' ! i) \<longleftrightarrow> co_fault_reset_pulse (e ! i) \<or>
      (cc_fault_reset_issued (bank1 ! i) \<and> drive_is_fault (co_state (e ! i)))"
    using cia402_step_pulse(3) [OF step(2)] cia402_step_output(1) [OF step(2)] by simp
  show ?case
  proof (intro conjI allI impI)
    show "length bank' = length bank" using step(1) IH by simp
  next
    fix j
    assume j: "j < length (inputs @ [x])" "co_fault_reset_pulse (outs ! j ! i)"
      and faults: "\<forall>l. j < l \<and> l < length (inputs @ [x]) \<longrightarrow> drive_is_fault (co_state (outs ! l ! i))"
    show "cc_fault_reset_issued (bank' ! i)"
    proof (cases "j = length inputs")
      case True
      with j(2) keep show ?thesis by (simp add: run(3) len nth_append)
    next
      case False
      then have lt: "j < length inputs" using j(1) by simp
      have "drive_is_fault (co_state (es ! l ! i))" if "j < l" "l < length inputs" for l
        using faults that by (auto simp: run(3) len nth_append dest!: spec [of _ l])
      moreover have "co_fault_reset_pulse (es ! j ! i)" using j(2) lt by (simp add: run(3) len nth_append)
      ultimately have "cc_fault_reset_issued (bank1 ! i)" using IH lt by blast
      moreover have "drive_is_fault (co_state (e ! i))"
        using faults lt by (auto simp: run(3) len nth_append dest!: spec [of _ "length inputs"])
      ultimately show ?thesis using keep by simp
    qed
  qed
qed simp

text \<open>C35. In every cycle of every run of a bank of drives under the guard's decisions, an axis is
  sent the Controlword that enables operation if and only if the decision of that cycle enables
  the axis, its operation is requested and its drive reports a state from which the profile
  enables it; an axis the decision does not enable is sent a quick stop if that is its stop
  directive and is disabled otherwise, whatever is requested. A fault is reset by one pulse: a
  second reset of the same axis is sent only after its drive has reported a state without fault.\<close>

theorem drive_enable_needs_guard:
  assumes "traced bank_cycle bank inputs = (bank', outs)" and "k < length inputs"
    and "inputs ! k = (d, sws, reqs)" and "i < length bank"
  shows "(co_controlword (outs ! k ! i) = CONTROLWORD_ENABLE_OPERATION \<longleftrightarrow>
      decision_axis d i = EnableAllowed \<and> reqs ! i = ReqEnable \<and>
      from_statusword (sws ! i) \<in> {SwitchedOn, OperationEnabled, QuickStopActive}) \<and>
    (decision_axis d i = EnableAllowed \<or> co_controlword (outs ! k ! i) =
      (if decision_axis d i = Stop QuickStop then CONTROLWORD_QUICK_STOP else CONTROLWORD_DISABLE_VOLTAGE)) \<and>
    (\<forall>j<k. co_fault_reset_pulse (outs ! j ! i) \<and> co_controlword (outs ! k ! i) = CONTROLWORD_FAULT_RESET \<longrightarrow>
      (\<exists>l. j < l \<and> l < k \<and> \<not> drive_is_fault (co_state (outs ! l ! i))))"
proof -
  obtain bank1 bank2 where run: "traced bank_cycle bank (take k inputs) = (bank1, take k outs)"
      "bank_cycle bank1 (d, sws, reqs) = (bank2, outs ! k)"
    using traced_nth [OF assms(1,2)] assms(3) by metis
  note before = bank_remembers_reset [OF run(1) assms(4)]
  have i: "i < length bank1" using before assms(4) by simp
  note step = bank_cycle_axis(2) [OF run(2) i]
  have "(\<exists>l. j < l \<and> l < k \<and> \<not> drive_is_fault (co_state (outs ! l ! i)))"
    if "j < k" "co_fault_reset_pulse (outs ! j ! i)" "co_controlword (outs ! k ! i) = CONTROLWORD_FAULT_RESET" for j
  proof -
    have "\<not> cc_fault_reset_issued (bank1 ! i)"
      using that(3) cia402_step_pulse(1,2) [OF step] by simp
    with before that(1,2) assms(2) show ?thesis by auto
  qed
  moreover have "decision_axis d i = EnableAllowed \<or> co_controlword (outs ! k ! i) =
      (if decision_axis d i = Stop QuickStop then CONTROLWORD_QUICK_STOP else CONTROLWORD_DISABLE_VOLTAGE)"
    using cia402_step_stopping [OF step]
    by (cases "decision_axis d i = EnableAllowed") (auto simp: denied_stop_request split: if_splits)
  ultimately show ?thesis
    using cia402_step_output(2) [OF step]
    by (cases "decision_axis d i = EnableAllowed") (auto simp: denied_stop_request)
qed

lemma sample_enables: "decision_axis (cycle_axes sample_active 2 20) 1 = EnableAllowed"
proof -
  have "\<forall>j<MAX_GATES. bit (8 :: u16) j \<longrightarrow> gate_active sample_active (lg_gates sample_active ! j) 2"
    unfolding sample_required_bit
    by (auto simp: gate_active_def MAX_GATES_def sample_policy_def guard_policy_conservative_def)
  then have "gates_active sample_active 2" by (simp add: gates_active_iff mask_exp_test)
  moreover have "permit_current sample_active 20"
    by (simp add: permit_current_def sample_permit_def sample_policy_def guard_policy_conservative_def)
  ultimately have "gates_active sample_active 2" "permit_current sample_active 20" by simp_all
  then have "snd (guard_cycle sample_active 2 20) = LaEnableAllowed"
    using guard_cycle_enable [OF sample_active_inv] by simp
  then show ?thesis
    using guard_cycle_enable_frame [of sample_active 2 20]
    by (simp add: decision_enable_iff axis_in_mask_def permitted_axis_mask_def)
qed

theorem drive_enable_needs_guard_witness:
  "co_controlword (snd (traced bank_cycle (axis_bank_new 2)
     [(cycle_axes sample_active 2 20, [0, 0x0023], [ReqEnable, ReqEnable])]) ! 0 ! 1) = CONTROLWORD_ENABLE_OPERATION"
proof -
  have "from_statusword 0x0023 = SwitchedOn" by (simp add: from_statusword_def)
  with drive_enable_needs_guard [of "axis_bank_new 2"
      "[(cycle_axes sample_active 2 20, [0, 0x0023], [ReqEnable, ReqEnable])]", OF prod.collapse [symmetric], of 0 _ _ _ 1]
    sample_enables
  show ?thesis by (simp add: axis_bank_new_def)
qed

end
