(* ===== verification/Controlled_Stop.thy ===== *)
theory Controlled_Stop
  imports Guard_Cia402 System_Interfaces
begin

text \<open>
  The planner of controlled stops over its history: what it commands is bounded by the feedback
  and tied to the first cycle of the stop, nothing is replayed, and a ramp ends with the command
  that disables the drive.
\<close>

section \<open>Histories\<close>

text \<open>One use of the planner: a preview, committed if the port accepted the frame. The answer is
  the command that was sent.\<close>

record stop_input =
  si_sequence :: u64
  si_cycle :: u64
  si_action :: stop_action
  si_mode :: operating_mode
  si_inputs :: pdo_inputs
  si_limits :: stop_limits
  si_accepted :: bool

definition planner_cycle :: "stop_planner \<Rightarrow> stop_input \<Rightarrow> stop_planner \<times> stop_command option" where
  "planner_cycle p i =
     (case planner_preview p (si_sequence i) (si_cycle i) (si_action i) (si_mode i) (si_inputs i) (si_limits i) of
        Inl e \<Rightarrow> (p, None)
      | Inr pv \<Rightarrow> if si_accepted i then (planner_commit p pv, Some (spv_command pv)) else (p, None))"

definition sent_inputs :: "stop_input list \<Rightarrow> stop_command option list \<Rightarrow> stop_input list" where
  "sent_inputs ins outs = map fst (filter (\<lambda>x. snd x \<noteq> None) (zip ins outs))"

definition drive_enabled :: "stop_input \<Rightarrow> bool" where
  "drive_enabled i \<longleftrightarrow> from_statusword (pi_statusword (si_inputs i)) = OperationEnabled"

text \<open>What a stop that begins with the input \<open>i\<close> records as the position to hold: the one reported, if the
  drive is enabled. Otherwise it records 0, whatever the drive reports.\<close>

definition records_position :: "stop_input \<Rightarrow> i32 \<Rightarrow> bool" where
  "records_position i x \<longleftrightarrow> (if drive_enabled i then pi_actual_position (si_inputs i) = Some x else x = 0)"

definition before :: "stop_input \<Rightarrow> stop_input \<Rightarrow> bool" where
  "before a b \<longleftrightarrow> si_sequence a < si_sequence b \<or> (si_sequence a = si_sequence b \<and> si_cycle a < si_cycle b)"

definition first_of :: "u64 \<Rightarrow> stop_input list \<Rightarrow> stop_input" where
  "first_of s H = hd (filter (\<lambda>h. si_sequence h = s) H)"

definition planner_tracks :: "stop_planner \<Rightarrow> stop_input list \<Rightarrow> bool" where
  "planner_tracks p H \<longleftrightarrow>
     (if H = [] then \<not> sp_initialized p
      else
        let i = last H
        in sp_initialized p \<and> sp_stop_sequence p = si_sequence i \<and> sp_last_cycle p = si_cycle i \<and>
           sp_action p = si_action i \<and> sp_mode p = si_mode i \<and> sp_limits p = si_limits i \<and>
           validate_limits (si_action i) (si_mode i) (si_limits i) = Inr () \<and>
           (si_action i = Hold \<longrightarrow> records_position (first_of (si_sequence i) H) (sp_hold_position p)) \<and>
           (\<forall>h\<in>set (butlast H). before h i))"

lemma planner_tracks_phase [simp]: "planner_tracks (p\<lparr>sp_phase := ph\<rparr>) H = planner_tracks p H"
  by (simp add: planner_tracks_def Let_def)

lemma before_trans: "before a b \<Longrightarrow> before b c \<Longrightarrow> before a c"
  by (auto simp: before_def)

lemma first_of_snoc:
  "first_of s (H @ [i]) = (if \<exists>h\<in>set H. si_sequence h = s then first_of s H
     else if si_sequence i = s then i else first_of s [])"
  by (auto simp: first_of_def filter_empty_conv hd_append)

lemma planner_enter_tracks:
  assumes "planner_tracks p H" "planner_enter p (si_sequence i) (si_cycle i) (si_action i) (si_mode i) (si_inputs i) (si_limits i) = (p1, Inr u)"
  shows "planner_tracks p1 (H @ [i])" and "\<forall>h\<in>set H. before h i"
proof -
  have "planner_tracks p1 (H @ [i]) \<and> (\<forall>h\<in>set H. before h i)"
  proof (cases "H \<noteq> [] \<and> si_sequence i = sp_stop_sequence p")
    case True
    let ?l = "last H"
    have p: "sp_initialized p" "si_sequence ?l = si_sequence i"
      using assms(1) True by (simp_all add: planner_tracks_def Let_def)
    have "planner_continue_error p (si_sequence i) (si_cycle i) (si_action i) (si_mode i) (si_limits i) = None"
      using assms(2) p(1) by (auto simp: planner_enter_def split: option.splits)
    then have same: "sp_last_cycle p < si_cycle i" "si_action i = sp_action p" "si_mode i = sp_mode p"
        "si_limits i = sp_limits p"
      using True by (auto simp: planner_continue_error_def not_le split: if_splits)
    have p1: "p1 = p\<lparr>sp_last_cycle := si_cycle i\<rparr>"
      using assms(2) p(1) True by (auto simp: planner_enter_def Let_def split: option.splits)
    have last: "before ?l i" "?l \<in> set H"
      using assms(1) True same(1) by (simp_all add: planner_tracks_def Let_def before_def)
    have "before h i" if "h \<in> set H" for h
    proof -
      have "h = ?l \<or> h \<in> set (butlast H)" using that True by (cases H rule: rev_cases) auto
      then show ?thesis
        using last(1) assms(1) True before_trans by (auto simp: planner_tracks_def Let_def)
    qed
    moreover have "first_of (si_sequence i) (H @ [i]) = first_of (si_sequence i) H"
      using last(2) p(2) by (auto simp: first_of_snoc)
    ultimately show ?thesis
      using assms(1) True same p by (simp add: planner_tracks_def Let_def p1)
  next
    case False
    define p0 where "p0 = (if sp_initialized p \<and> si_sequence i \<noteq> sp_stop_sequence p then stop_planner_new else p)"
    have p0: "\<not> sp_initialized p0"
      using assms(1) False by (auto simp: p0_def planner_tracks_def stop_planner_new_def Let_def split: if_splits)
    have "planner_initialize p0 (si_sequence i) (si_cycle i) (si_action i) (si_mode i) (si_inputs i) (si_limits i) = (p1, Inr u)"
      using assms(2) p0 by (auto simp: planner_enter_def Let_def p0_def split: option.splits)
    then have init: "validate_limits (si_action i) (si_mode i) (si_limits i) = Inr ()"
        "\<exists>x. (si_action i = Hold \<longrightarrow> records_position i x) \<and>
          p1 = p0\<lparr>sp_initialized := True, sp_stop_sequence := si_sequence i, sp_last_cycle := si_cycle i,
             sp_action := si_action i, sp_mode := si_mode i, sp_limits := si_limits i, sp_phase := PhIdle,
             sp_hold_position := x\<rparr>"
      by (auto simp: planner_initialize_def records_position_def drive_enabled_def ok_or_def
          split: sum.splits if_splits option.splits)
    have seq: "si_sequence (last H) < si_sequence i" if "H \<noteq> []"
    proof -
      have p: "sp_initialized p" "si_sequence (last H) = sp_stop_sequence p"
        using assms(1) that by (simp_all add: planner_tracks_def Let_def)
      have "planner_continue_error p (si_sequence i) (si_cycle i) (si_action i) (si_mode i) (si_limits i) = None"
        using assms(2) p(1) by (auto simp: planner_enter_def split: option.splits)
      then show ?thesis
        using p(2) that False by (auto simp: planner_continue_error_def split: if_splits)
    qed
    have upto: "h = last H \<or> before h (last H)" if "h \<in> set H" for h
      using that assms(1) by (cases H rule: rev_cases) (auto simp: planner_tracks_def Let_def)
    have lt: "si_sequence h < si_sequence i" if "h \<in> set H" for h
    proof -
      have "si_sequence h \<le> si_sequence (last H)" using upto [OF that] by (auto simp: before_def)
      moreover have "H \<noteq> []" using that by auto
      ultimately show ?thesis using seq le_less_trans by blast
    qed
    have less: "before h i" "si_sequence h \<noteq> si_sequence i" if "h \<in> set H" for h
      using lt [OF that] by (auto simp: before_def)
    then have "first_of (si_sequence i) (H @ [i]) = i" by (auto simp: first_of_snoc)
    with init less show ?thesis by (auto simp: planner_tracks_def Let_def)
  qed
  then show "planner_tracks p1 (H @ [i])" and "\<forall>h\<in>set H. before h i" by simp_all
qed

section \<open>What is commanded\<close>

text \<open>A command that answers the input \<open>i\<close>, with a position to hold that satisfies \<open>P\<close>.\<close>

definition command_fits :: "(i32 \<Rightarrow> bool) \<Rightarrow> stop_input \<Rightarrow> stop_command \<Rightarrow> bool" where
  "command_fits P i c \<longleftrightarrow> sc_action c = si_action i \<and> sc_mode c = si_mode i \<and>
     (case sc_target c of
        None \<Rightarrow> sc_controlword c = CONTROLWORD_DISABLE_VOLTAGE
      | Some t \<Rightarrow> sc_controlword c = CONTROLWORD_ENABLE_OPERATION \<and> drive_enabled i \<and>
          pi_actual_mode (si_inputs i) = si_mode i \<and> target_mode t = si_mode i \<and>
          (case t of
             TPosition x \<Rightarrow> si_action i = Hold \<and> P x
           | TVelocity x \<Rightarrow> si_action i = RampToZero \<and> (\<exists>v. pi_actual_velocity (si_inputs i) = Some v \<and>
               sl_max_velocity_step (si_limits i) \<noteq> 0 \<and>
               sint x = toward (sint v) (uint (sl_max_velocity_step (si_limits i))))
           | TTorque x \<Rightarrow> si_action i = RampToZero \<and> (\<exists>v. pi_actual_torque (si_inputs i) = Some v \<and>
               sl_max_torque_step (si_limits i) \<noteq> 0 \<and>
               sint x = toward (sint v) (uint (sl_max_torque_step (si_limits i))))))"

definition command_follows :: "stop_input list \<Rightarrow> stop_input \<Rightarrow> stop_command \<Rightarrow> bool" where
  "command_follows H i c \<longleftrightarrow> command_fits (records_position (first_of (si_sequence i) (H @ [i]))) i c"

text \<open>A safe command holds only a position that the drive reported, being enabled, in the first cycle of the stop.\<close>

definition command_safe :: "stop_input list \<Rightarrow> stop_input \<Rightarrow> stop_command \<Rightarrow> bool" where
  "command_safe H i c \<longleftrightarrow> command_fits (\<lambda>x. let f = first_of (si_sequence i) (H @ [i])
     in drive_enabled f \<and> pi_actual_position (si_inputs f) = Some x) i c"

lemma command_fits_mono: "command_fits P i c \<Longrightarrow> (\<And>x. si_action i = Hold \<Longrightarrow> P x \<Longrightarrow> Q x) \<Longrightarrow> command_fits Q i c"
  by (auto simp: command_fits_def split: option.splits cia402_target.splits)

lemma follows_safe:
  assumes "command_follows H i c" "si_action i = Hold \<Longrightarrow> drive_enabled (first_of (si_sequence i) (H @ [i]))"
  shows "command_safe H i c"
  using assms(1) unfolding command_safe_def command_follows_def Let_def
  by (rule command_fits_mono) (use assms(2) in \<open>simp add: records_position_def\<close>)

lemma disable_command_follows:
  "sp_action p = si_action i \<Longrightarrow> sp_mode p = si_mode i \<Longrightarrow> command_follows H i (disable_command p)"
  by (simp add: command_follows_def command_fits_def disable_command_def)

lemma hold_command_follows:
  assumes "planner_tracks p (H @ [i])" "hold_command p (si_inputs i) (si_limits i) = (p', Inr c)"
    and "si_action i = Hold" "drive_enabled i" "pi_actual_mode (si_inputs i) = si_mode i"
  shows "planner_tracks p' (H @ [i]) \<and> command_follows H i c"
proof -
  have p: "sp_action p = si_action i" "sp_mode p = si_mode i"
      "records_position (first_of (si_sequence i) (H @ [i])) (sp_hold_position p)"
    using assms(1,3) by (simp_all add: planner_tracks_def Let_def)
  have "(\<exists>ph. p' = p\<lparr>sp_phase := ph\<rparr> \<and> c = disable_command p') \<or>
      (\<exists>ph. p' = p\<lparr>sp_phase := ph\<rparr> \<and> sp_mode p = Csp \<and> c = target_command p' (TPosition (sp_hold_position p)))"
    using assms(2) by (auto simp: hold_command_def Let_def split: option.splits if_splits)
  then show ?thesis
    using assms(1,3-5) p
    by (elim disjE exE conjE) (simp add: disable_command_follows, simp add: command_follows_def command_fits_def target_command_def)
qed

lemma ramp_command_result:
  assumes "ramp_command p inputs limits = (p', Inr c)"
  shows "\<exists>ph. p' = p\<lparr>sp_phase := ph\<rparr> \<and>
    (c = disable_command p' \<or> (\<exists>v t. pi_actual_velocity inputs = Some v \<and> ramp_target p v inputs limits = Inr t \<and>
       c = target_command p' t))"
  using assms by (auto simp: ramp_command_def Let_def split: option.splits if_splits sum.splits)

lemma ramp_command_follows:
  assumes "planner_tracks p (H @ [i])" "ramp_command p (si_inputs i) (si_limits i) = (p', Inr c)"
    and "si_action i = RampToZero" "drive_enabled i" "pi_actual_mode (si_inputs i) = si_mode i"
  shows "planner_tracks p' (H @ [i]) \<and> command_follows H i c"
proof -
  have p: "sp_action p = si_action i" "sp_mode p = si_mode i"
      "validate_limits (si_action i) (si_mode i) (si_limits i) = Inr ()"
    using assms(1) by (simp_all add: planner_tracks_def Let_def)
  obtain ph where p': "p' = p\<lparr>sp_phase := ph\<rparr>" and "c = disable_command p' \<or>
      (\<exists>v t. pi_actual_velocity (si_inputs i) = Some v \<and> ramp_target p v (si_inputs i) (si_limits i) = Inr t \<and>
        c = target_command p' t)"
    using ramp_command_result [OF assms(2)] by blast
  then consider "c = disable_command p'"
    | v t where "pi_actual_velocity (si_inputs i) = Some v"
        "ramp_target p v (si_inputs i) (si_limits i) = Inr t" "c = target_command p' t" by blast
  then show ?thesis
  proof cases
    case 1
    then show ?thesis using assms(1) p by (simp add: p' disable_command_follows)
  next
    case 2
    then show ?thesis
      using assms(1,3-5) p
      by (cases "si_mode i") (auto simp: p' ramp_target_def command_follows_def command_fits_def target_command_def
          sint_toward_zero validate_limits_def split: option.splits if_splits)
  qed
qed

lemma planner_cycle_sent:
  assumes "planner_tracks p H" "planner_cycle p i = (p', Some c)"
  shows "planner_tracks p' (H @ [i]) \<and> command_follows H i c \<and> (\<forall>h\<in>set H. before h i)"
proof -
  have adv: "planner_advance p (si_sequence i) (si_cycle i) (si_action i) (si_mode i) (si_inputs i) (si_limits i) = (p', Inr c)"
    using assms(2) by (auto simp: planner_cycle_def planner_preview_def planner_commit_def
        split: sum.splits prod.splits if_splits)
  then have action: "si_action i = Hold \<or> si_action i = RampToZero"
    by (auto simp: planner_advance_def split: if_splits)
  obtain p1 u where enter: "planner_enter p (si_sequence i) (si_cycle i) (si_action i) (si_mode i) (si_inputs i) (si_limits i) = (p1, Inr u)"
    using adv by (auto simp: planner_advance_def split: prod.splits sum.splits if_splits)
  note tracks = planner_enter_tracks [OF assms(1) enter]
  have p1: "sp_action p1 = si_action i" "sp_mode p1 = si_mode i"
    using tracks(1) by (simp_all add: planner_tracks_def Let_def)
  show ?thesis
  proof (cases "drive_enabled i")
    case False
    then have "p' = p1\<lparr>sp_phase := PhDisableRequested\<rparr> \<and> c = disable_command p'"
      using adv action enter by (auto simp: planner_advance_def drive_enabled_def Let_def split: if_splits)
    then show ?thesis using tracks p1 by (simp add: disable_command_follows)
  next
    case True
    then have mode: "pi_actual_mode (si_inputs i) = si_mode i"
      using adv action enter by (auto simp: planner_advance_def drive_enabled_def split: if_splits)
    show ?thesis
    proof (cases "si_action i = Hold")
      case hold: True
      have "hold_command p1 (si_inputs i) (si_limits i) = (p', Inr c)"
        using adv hold enter True mode by (simp add: planner_advance_def drive_enabled_def)
      from hold_command_follows [OF tracks(1) this hold True mode] tracks(2) show ?thesis by simp
    next
      case False
      then have ramp: "si_action i = RampToZero" using action by simp
      have "ramp_command p1 (si_inputs i) (si_limits i) = (p', Inr c)"
        using adv ramp enter True mode by (simp add: planner_advance_def drive_enabled_def)
      from ramp_command_follows [OF tracks(1) this ramp True mode] tracks(2) show ?thesis by simp
    qed
  qed
qed

lemma planner_cycle_unsent: "planner_cycle p i = (p', None) \<Longrightarrow> p' = p"
  by (auto simp: planner_cycle_def split: sum.splits if_splits)

lemma planner_run_tracks:
  "traced planner_cycle stop_planner_new ins = (p, outs) \<Longrightarrow> planner_tracks p (sent_inputs ins outs)"
proof (induction ins arbitrary: p outs rule: rev_induct)
  case Nil
  then show ?case by (auto simp: sent_inputs_def planner_tracks_def stop_planner_new_def)
next
  case (snoc i ins)
  obtain p1 es e where run: "traced planner_cycle stop_planner_new ins = (p1, es)" "planner_cycle p1 i = (p, e)"
      "outs = es @ [e]" using snoc.prems unfolding traced_snoc by blast
  have "sent_inputs (ins @ [i]) outs = sent_inputs ins es @ (if e = None then [] else [i])"
    using length_traced [OF run(1)] by (simp add: sent_inputs_def run(3))
  moreover have "p = p1" if "e = None" using planner_cycle_unsent run(2) that by blast
  ultimately show ?case
    using planner_cycle_sent [OF snoc.IH [OF run(1)]] run(2) snoc.IH [OF run(1)] by (cases e) auto
qed

lemma planner_run_sent:
  assumes "traced planner_cycle stop_planner_new (ins @ [i]) = (p, outs)" "last outs = Some c"
    and "H = sent_inputs ins (butlast outs)"
  shows "command_follows H i c \<and> (\<forall>h\<in>set H. before h i)"
proof -
  obtain p1 es where run: "traced planner_cycle stop_planner_new ins = (p1, es)"
      "planner_cycle p1 i = (p, Some c)" "outs = es @ [Some c]"
    using assms(1,2) unfolding traced_snoc by fastforce
  from planner_cycle_sent [OF planner_run_tracks [OF run(1)] run(2)] show ?thesis
    by (simp add: assms(3) run(3))
qed

text \<open>C36. Over every history of a planner, whatever it is asked and whichever frames the port
  accepts, a command that is sent either disables the drive, or it is given to a drive that
  reports operation enabled in the confirmed mode of the stop, and carries a target of that mode:
  a ramp target is the current feedback moved towards zero by the configured nonzero step, and
  never beyond it; a hold target is the same for the whole stop sequence, namely the position
  that the drive, being operation enabled, reported in the first cycle that was sent for it. Sent
  commands are ordered: no sequence or cycle is used twice or goes back. For a hold this is under the
  hypothesis that the drive was operation enabled in that first cycle: without it the
  planner is not safe in this sense, as \<open>unverified_hold\<close> shows.\<close>

theorem controlled_stop_commands:
  assumes "traced planner_cycle stop_planner_new (ins @ [i]) = (p, outs)" and "last outs = Some c"
    and "H = sent_inputs ins (butlast outs)"
    and "si_action i = Hold \<Longrightarrow> drive_enabled (first_of (si_sequence i) (H @ [i]))"
  shows "command_safe H i c \<and> (\<forall>h\<in>set H. before h i)"
  using planner_run_sent [OF assms(1-3)] follows_safe assms(4) by blast

text \<open>A stop with \<open>Hold\<close> that begins while the drive still reports switched on, in the cycle before
  it reports operation enabled at position 1000.\<close>

definition sample_feedback :: "u16 \<Rightarrow> i32 \<Rightarrow> i32 \<Rightarrow> pdo_inputs" where
  "sample_feedback sw pos vel = \<lparr>pi_statusword = sw, pi_actual_mode = Csp, pi_error_code = 0,
     pi_actual_position = Some pos, pi_actual_velocity = Some vel, pi_actual_torque = None,
     pi_following_error = None\<rparr>"

definition sample_limits :: stop_limits where
  "sample_limits = \<lparr>sl_max_velocity_step = 30, sl_max_torque_step = 4, sl_max_stationary_velocity = 2,
     sl_max_zero_torque = 1\<rparr>"

definition sample_hold :: "u64 \<Rightarrow> u16 \<Rightarrow> stop_input" where
  "sample_hold cycle sw = \<lparr>si_sequence = 4, si_cycle = cycle, si_action = Hold, si_mode = Csp,
     si_inputs = sample_feedback sw 1000 0, si_limits = sample_limits, si_accepted = True\<rparr>"

lemma sample_statuswords:
  "from_statusword 0x0023 = SwitchedOn" "from_statusword 0x0027 = OperationEnabled"
  by (simp_all add: from_statusword_def)

lemma sample_hold_run:
  "traced planner_cycle stop_planner_new ([sample_hold 10 0x0023] @ [sample_hold 11 0x0027]) =
     (\<lparr>sp_initialized = True, sp_stop_sequence = 4, sp_last_cycle = 11, sp_action = Hold, sp_mode = Csp,
        sp_limits = sample_limits, sp_phase = PhApplying, sp_hold_position = 0\<rparr>,
      [Some \<lparr>sc_controlword = 0, sc_mode = Csp, sc_target = None, sc_action = Hold, sc_phase = PhDisableRequested\<rparr>,
       Some \<lparr>sc_controlword = 15, sc_mode = Csp, sc_target = Some (TPosition 0), sc_action = Hold, sc_phase = PhApplying\<rparr>])"
proof -
  have first: "planner_cycle stop_planner_new (sample_hold 10 0x0023) =
    (\<lparr>sp_initialized = True, sp_stop_sequence = 4, sp_last_cycle = 10, sp_action = Hold, sp_mode = Csp,
        sp_limits = sample_limits, sp_phase = PhDisableRequested, sp_hold_position = 0\<rparr>,
      Some \<lparr>sc_controlword = 0, sc_mode = Csp, sc_target = None, sc_action = Hold, sc_phase = PhDisableRequested\<rparr>)"
    by (simp add: planner_cycle_def planner_preview_def planner_advance_def planner_enter_def Let_def
        stop_planner_new_def sample_hold_def planner_initialize_def validate_limits_def sample_feedback_def
        sample_statuswords disable_command_def controlwords planner_commit_def)
  show ?thesis
    by (simp add: first)
      (simp add: planner_cycle_def planner_preview_def planner_advance_def planner_enter_def Let_def
        planner_continue_error_def sample_hold_def sample_feedback_def
        sample_statuswords hold_command_def target_command_def controlwords planner_commit_def)
qed

text \<open>The documents of the repository say that \<open>Hold\<close> locks the first verified position. This run shows the
  enabling Controlword with target 0 instead, a position the drive never reported.\<close>

lemma unverified_hold:
  "\<exists>c. last (snd (traced planner_cycle stop_planner_new ([sample_hold 10 0x0023] @ [sample_hold 11 0x0027]))) = Some c \<and>
     sc_controlword c = CONTROLWORD_ENABLE_OPERATION \<and> sc_target c = Some (TPosition 0) \<and>
     \<not> command_safe [sample_hold 10 0x0023] (sample_hold 11 0x0027) c"
proof -
  have "\<not> drive_enabled (first_of 4 [sample_hold 10 0x0023, sample_hold 11 0x0027])"
    by (simp add: first_of_def drive_enabled_def sample_hold_def sample_feedback_def sample_statuswords)
  then show ?thesis
    unfolding sample_hold_run
    by (simp add: command_safe_def command_fits_def Let_def controlwords) (simp add: sample_hold_def)
qed

text \<open>A stop with \<open>Hold\<close> of an enabled drive that is still moving.\<close>

definition moving_hold :: "u64 \<Rightarrow> i32 \<Rightarrow> stop_input" where
  "moving_hold cycle pos = (sample_hold cycle 0x0027)\<lparr>si_inputs := sample_feedback 0x0027 pos 50\<rparr>"

definition holding_at :: "i32 \<Rightarrow> stop_command" where
  "holding_at x = \<lparr>sc_controlword = 15, sc_mode = Csp, sc_target = Some (TPosition x), sc_action = Hold, sc_phase = PhApplying\<rparr>"

lemma moving_hold_run:
  "\<exists>p. traced planner_cycle stop_planner_new ([moving_hold 10 1000] @ [moving_hold 11 1040]) =
     (p, [Some (holding_at 1000), Some (holding_at 1000)])"
proof -
  have first: "planner_cycle stop_planner_new (moving_hold 10 1000) =
    (\<lparr>sp_initialized = True, sp_stop_sequence = 4, sp_last_cycle = 10, sp_action = Hold, sp_mode = Csp,
        sp_limits = sample_limits, sp_phase = PhApplying, sp_hold_position = 1000\<rparr>, Some (holding_at 1000))"
    by (simp add: planner_cycle_def planner_preview_def planner_advance_def planner_enter_def Let_def moving_hold_def
        stop_planner_new_def sample_hold_def planner_initialize_def validate_limits_def sample_feedback_def ok_or_def
        sample_statuswords hold_command_def target_command_def controlwords planner_commit_def holding_at_def)
  have fast: "\<not> unsigned_abs (50 :: i32) \<le> 2" by (simp add: unsigned_abs_def word_le_nat_alt)
  show ?thesis
    by (simp add: first)
      (simp add: planner_cycle_def planner_preview_def planner_advance_def planner_enter_def Let_def moving_hold_def
        planner_continue_error_def sample_hold_def sample_feedback_def sample_limits_def fast
        sample_statuswords hold_command_def target_command_def controlwords planner_commit_def holding_at_def)
qed

theorem controlled_stop_commands_witness:
  "command_safe [moving_hold 10 1000] (moving_hold 11 1040) (holding_at 1000) \<and> sc_target (holding_at 1000) = Some (TPosition 1000)"
proof -
  obtain p where run: "traced planner_cycle stop_planner_new ([moving_hold 10 1000] @ [moving_hold 11 1040]) =
     (p, [Some (holding_at 1000), Some (holding_at 1000)])" using moving_hold_run by blast
  have "sent_inputs [moving_hold 10 1000] [Some (holding_at 1000)] = [moving_hold 10 1000]" by (simp add: sent_inputs_def)
  moreover have "drive_enabled (first_of 4 [moving_hold 10 1000, moving_hold 11 1040])"
    by (simp add: first_of_def drive_enabled_def moving_hold_def sample_hold_def sample_feedback_def sample_statuswords)
  moreover have "si_sequence (moving_hold 11 1040) = 4" by (simp add: moving_hold_def sample_hold_def)
  ultimately show ?thesis using controlled_stop_commands [OF run, of "holding_at 1000"] by (simp add: holding_at_def)
qed

section \<open>A ramp ends\<close>

text \<open>The planner in a closed loop with a drive whose velocity in the next cycle is the target it
  was given.\<close>

definition next_feedback :: "stop_input \<Rightarrow> stop_command option \<Rightarrow> stop_input" where
  "next_feedback i out =
     i\<lparr>si_cycle := si_cycle i + 1,
       si_inputs := (case out of
           Some c \<Rightarrow> (case sc_target c of
               Some (TVelocity x) \<Rightarrow> (si_inputs i)\<lparr>pi_actual_velocity := Some x\<rparr>
             | _ \<Rightarrow> si_inputs i)
         | None \<Rightarrow> si_inputs i)\<rparr>"

primrec closed_loop :: "nat \<Rightarrow> stop_planner \<Rightarrow> stop_input \<Rightarrow> stop_command option list" where
  "closed_loop 0 p i = []"
| "closed_loop (Suc n) p i =
     (case planner_cycle p i of (p1, out) \<Rightarrow> out # closed_loop n p1 (next_feedback i out))"

definition ramp_input :: "stop_input \<Rightarrow> i32 \<Rightarrow> bool" where
  "ramp_input i v \<longleftrightarrow> si_action i = RampToZero \<and> si_mode i = Csv \<and> si_accepted i \<and> drive_enabled i \<and>
     pi_actual_mode (si_inputs i) = Csv \<and> pi_actual_velocity (si_inputs i) = Some v \<and>
     sl_max_velocity_step (si_limits i) \<noteq> 0"

text \<open>A planner that takes the input as the next cycle of its ramp, or as a new stop.\<close>

definition admits :: "stop_planner \<Rightarrow> stop_input \<Rightarrow> bool" where
  "admits p i \<longleftrightarrow> \<not> sp_initialized p \<or> sp_stop_sequence p < si_sequence i \<or>
     (sp_stop_sequence p = si_sequence i \<and> sp_last_cycle p < si_cycle i \<and> sp_action p = si_action i \<and>
      sp_mode p = si_mode i \<and> sp_limits p = si_limits i)"

definition fresh_phase :: "stop_planner \<Rightarrow> stop_input \<Rightarrow> stop_phase" where
  "fresh_phase p i = (if sp_initialized p \<and> sp_stop_sequence p = si_sequence i then sp_phase p else PhIdle)"

lemma planner_enter_admits:
  assumes "ramp_input i v" "admits p i"
  shows "\<exists>p1. planner_enter p (si_sequence i) (si_cycle i) (si_action i) (si_mode i) (si_inputs i) (si_limits i) = (p1, Inr ()) \<and>
    sp_initialized p1 \<and> sp_stop_sequence p1 = si_sequence i \<and> sp_last_cycle p1 = si_cycle i \<and>
    sp_action p1 = si_action i \<and> sp_mode p1 = si_mode i \<and> sp_limits p1 = si_limits i \<and> sp_phase p1 = fresh_phase p i"
proof -
  have limits: "validate_limits (si_action i) (si_mode i) (si_limits i) = Inr ()"
    using assms(1) by (simp add: ramp_input_def validate_limits_def)
  have ramp: "si_action i \<noteq> Hold" using assms(1) by (simp add: ramp_input_def)
  consider "\<not> sp_initialized p" | "sp_initialized p" "sp_stop_sequence p < si_sequence i"
    | "sp_initialized p" "sp_stop_sequence p = si_sequence i" "sp_last_cycle p < si_cycle i"
      "sp_action p = si_action i" "sp_mode p = si_mode i" "sp_limits p = si_limits i"
    using assms(2) by (auto simp: admits_def)
  then show ?thesis
  proof cases
    case 1
    then show ?thesis using limits ramp
      by (simp add: planner_enter_def planner_initialize_def fresh_phase_def)
  next
    case 2
    then have "planner_continue_error p (si_sequence i) (si_cycle i) (si_action i) (si_mode i) (si_limits i) = None"
      by (auto simp: planner_continue_error_def)
    with 2 show ?thesis using limits ramp
      by (auto simp: planner_enter_def planner_initialize_def fresh_phase_def stop_planner_new_def)
  next
    case 3
    then show ?thesis
      by (simp add: planner_enter_def planner_continue_error_def fresh_phase_def Let_def)
  qed
qed

lemma planner_cycle_ramp:
  assumes "ramp_input i v" "admits p i"
  obtains p1 where "sp_initialized p1" "sp_stop_sequence p1 = si_sequence i" "sp_last_cycle p1 = si_cycle i"
    "sp_action p1 = RampToZero" "sp_mode p1 = Csv" "sp_limits p1 = si_limits i" "sp_phase p1 = fresh_phase p i"
    "planner_cycle p i = (case ramp_command p1 (si_inputs i) (si_limits i) of
       (p', Inr c) \<Rightarrow> (p', Some c) | (p', Inl e) \<Rightarrow> (p, None))"
proof -
  obtain p1 where p1: "planner_enter p (si_sequence i) (si_cycle i) (si_action i) (si_mode i) (si_inputs i) (si_limits i) = (p1, Inr ())"
      "sp_initialized p1" "sp_stop_sequence p1 = si_sequence i" "sp_last_cycle p1 = si_cycle i"
      "sp_action p1 = si_action i" "sp_mode p1 = si_mode i" "sp_limits p1 = si_limits i" "sp_phase p1 = fresh_phase p i"
    using planner_enter_admits [OF assms] by blast
  have "planner_cycle p i = (case ramp_command p1 (si_inputs i) (si_limits i) of
       (p', Inr c) \<Rightarrow> (p', Some c) | (p', Inl e) \<Rightarrow> (p, None))"
    using p1(1) assms(1)
    by (simp add: planner_cycle_def planner_preview_def planner_advance_def ramp_input_def drive_enabled_def
        planner_commit_def split: prod.splits sum.splits)
  with p1 assms(1) show thesis by (intro that) (simp_all add: ramp_input_def)
qed

lemma ramp_cycle:
  assumes "ramp_input i v" "admits p i" "fresh_phase p i \<noteq> PhZeroCommanded" "si_cycle i < si_cycle i + 1"
    and "x = toward_zero v (sl_max_velocity_step (si_limits i))"
  obtains p' c where "planner_cycle p i = (p', Some c)" "sc_target c = Some (TVelocity x)"
    "ramp_input (next_feedback i (Some c)) x" "admits p' (next_feedback i (Some c))"
    "fresh_phase p' (next_feedback i (Some c)) = (if x = 0 then PhZeroCommanded else PhApplying)"
proof -
  obtain p1 where p1: "sp_initialized p1" "sp_stop_sequence p1 = si_sequence i" "sp_last_cycle p1 = si_cycle i"
    "sp_action p1 = RampToZero" "sp_mode p1 = Csv" "sp_limits p1 = si_limits i" "sp_phase p1 = fresh_phase p i"
    "planner_cycle p i = (case ramp_command p1 (si_inputs i) (si_limits i) of
       (p', Inr c) \<Rightarrow> (p', Some c) | (p', Inl e) \<Rightarrow> (p, None))"
    by (rule planner_cycle_ramp [OF assms(1,2)])
  let ?p = "p1\<lparr>sp_phase := if x = 0 then PhZeroCommanded else PhApplying\<rparr>"
  have vel: "pi_actual_velocity (si_inputs i) = Some v" using assms(1) by (simp add: ramp_input_def)
  have cycle: "planner_cycle p i = (?p, Some (target_command ?p (TVelocity x)))"
    using p1 assms(3,5) vel by (simp add: ramp_command_def ramp_target_def Let_def)
  show thesis
    by (rule that [OF cycle])
      (use p1 assms(1,4) in \<open>simp_all add: target_command_def next_feedback_def ramp_input_def drive_enabled_def
         admits_def fresh_phase_def\<close>)
qed

lemma disable_cycle:
  assumes "ramp_input i 0" "admits p i" "fresh_phase p i = PhZeroCommanded"
  obtains p' c where "planner_cycle p i = (p', Some c)" "sc_target c = None"
    "sc_controlword c = CONTROLWORD_DISABLE_VOLTAGE"
proof -
  obtain p1 where p1: "sp_mode p1 = Csv" "sp_phase p1 = fresh_phase p i"
    "planner_cycle p i = (case ramp_command p1 (si_inputs i) (si_limits i) of
       (p', Inr c) \<Rightarrow> (p', Some c) | (p', Inl e) \<Rightarrow> (p, None))"
    by (rule planner_cycle_ramp [OF assms(1,2)])
  let ?p = "p1\<lparr>sp_phase := PhDisableRequested\<rparr>"
  have "planner_cycle p i = (?p, Some (disable_command ?p))"
    using p1 assms(1,3) by (simp add: ramp_command_def ramp_input_def unsigned_abs_def Let_def)
  then show thesis by (rule that) (simp_all add: disable_command_def)
qed

definition ramp_value :: "int \<Rightarrow> int \<Rightarrow> nat \<Rightarrow> int" where
  "ramp_value v s k = sgn v * max 0 (\<bar>v\<bar> - int k * s)"

definition ramp_cycles :: "int \<Rightarrow> int \<Rightarrow> nat" where
  "ramp_cycles v s = max 1 (nat ((\<bar>v\<bar> + s - 1) div s))"

definition sent_velocity :: "stop_command option \<Rightarrow> int option" where
  "sent_velocity out = (case out of
       Some c \<Rightarrow> (case sc_target c of Some (TVelocity x) \<Rightarrow> Some (sint x) | _ \<Rightarrow> None)
     | None \<Rightarrow> None)"

lemma ramp_value_toward: "0 < s \<Longrightarrow> ramp_value (toward v s) s k = ramp_value v s (Suc k)"
proof -
  assume s: "0 < s"
  define m where "m = int k * s"
  have m: "0 \<le> m" "int (Suc k) * s = s + m" using s by (simp_all add: m_def algebra_simps)
  show ?thesis
    unfolding ramp_value_def m(2) m_def [symmetric]
    using s m(1) by (auto simp: toward_def sgn_if max_def)
qed

lemma ramp_value_Suc_0: "0 < s \<Longrightarrow> ramp_value v s (Suc 0) = toward v s"
  by (auto simp: ramp_value_def toward_def sgn_if max_def)

lemma ramp_cycles_last: "0 < s \<Longrightarrow> \<bar>v\<bar> \<le> s \<Longrightarrow> ramp_cycles v s = 1"
proof -
  assume s: "0 < s" "\<bar>v\<bar> \<le> s"
  have "(\<bar>v\<bar> + s - 1) div s \<le> (2 * s - 1) div s" using s by (intro zdiv_mono1) auto
  also have "(2 * s - 1) div s = 1" using s by (intro int_div_pos_eq [of _ _ _ "s - 1"]) auto
  finally show ?thesis by (simp add: ramp_cycles_def)
qed

lemma ramp_cycles_step: "0 < s \<Longrightarrow> s < \<bar>v\<bar> \<Longrightarrow> ramp_cycles v s = Suc (ramp_cycles (toward v s) s)"
proof -
  assume s: "0 < s" "s < \<bar>v\<bar>"
  have a: "\<bar>toward v s\<bar> = \<bar>v\<bar> - s" using toward_abs [of s v] s by simp
  have "(\<bar>v\<bar> + s - 1) div s = (\<bar>v\<bar> - s + s - 1) div s + 1"
    using s div_add_self2 [of s "\<bar>v\<bar> - 1"] by (simp add: algebra_simps)
  moreover have "1 \<le> (\<bar>v\<bar> - s + s - 1) div s" using s by (simp add: pos_imp_zdiv_pos_iff int_one_le_iff_zero_less)
  ultimately show ?thesis by (simp add: ramp_cycles_def a max_def nat_add_distrib)
qed

lemma ramp_loop:
  "ramp_input i v \<Longrightarrow> admits p i \<Longrightarrow> fresh_phase p i \<noteq> PhZeroCommanded \<Longrightarrow>
     s = uint (sl_max_velocity_step (si_limits i)) \<Longrightarrow> ramp_cycles (sint v) s = n \<Longrightarrow> unat (si_cycle i) + n < 2 ^ 64 \<Longrightarrow>
     map sent_velocity (closed_loop (Suc n) p i) = map (\<lambda>k. Some (ramp_value (sint v) s (Suc k))) [0..<n] @ [None] \<and>
     (\<exists>c. last (closed_loop (Suc n) p i) = Some c \<and> sc_target c = None \<and> sc_controlword c = CONTROLWORD_DISABLE_VOLTAGE)"
proof (induction n arbitrary: p i v)
  case 0
  then show ?case by (simp add: ramp_cycles_def)
next
  case (Suc n)
  have "sl_max_velocity_step (si_limits i) \<noteq> 0" using Suc.prems(1) by (simp add: ramp_input_def)
  then have s: "0 < s" unfolding Suc.prems(4) by (metis uint_nonnegative uint_0_iff order_le_less)
  have nowrap: "unat (si_cycle i + 1) = unat (si_cycle i) + 1" using Suc.prems(6) by (simp add: unat_word_ariths)
  then have less: "si_cycle i < si_cycle i + 1" by (simp add: word_less_nat_alt)
  obtain x p' c where x: "x = toward_zero v (sl_max_velocity_step (si_limits i))"
    and step: "planner_cycle p i = (p', Some c)" "sc_target c = Some (TVelocity x)"
      "ramp_input (next_feedback i (Some c)) x" "admits p' (next_feedback i (Some c))"
      "fresh_phase p' (next_feedback i (Some c)) = (if x = 0 then PhZeroCommanded else PhApplying)"
    using ramp_cycle [OF Suc.prems(1-3) less refl] by metis
  let ?j = "next_feedback i (Some c)"
  have sx: "sint x = toward (sint v) s" by (simp add: x sint_toward_zero Suc.prems(4))
  have j: "si_cycle ?j = si_cycle i + 1" "si_limits ?j = si_limits i" by (simp_all add: next_feedback_def)
  have head: "sent_velocity (Some c) = Some (ramp_value (sint v) s (Suc 0))"
    by (simp add: sent_velocity_def step(2) sx ramp_value_Suc_0 [OF s])
  show ?case
  proof (cases "\<bar>sint v\<bar> \<le> s")
    case True
    then have n: "n = 0" using ramp_cycles_last [OF s True] Suc.prems(5) by simp
    have x0: "x = 0" using True by (simp add: x toward_zero_def Suc.prems(4))
    obtain p2 d where d: "planner_cycle p' ?j = (p2, Some d)" "sc_target d = None"
        "sc_controlword d = CONTROLWORD_DISABLE_VOLTAGE"
      using disable_cycle [OF step(3) [unfolded x0] step(4)] step(5) x0 by auto
    have "sent_velocity (Some d) = None" by (simp add: sent_velocity_def d(2))
    with n step(1) d head show ?thesis by simp
  next
    case False
    then have far: "s < \<bar>sint v\<bar>" by simp
    have n: "ramp_cycles (sint x) s = n" using ramp_cycles_step [OF s far] Suc.prems(5) sx by simp
    have x0: "x \<noteq> 0" using sx far s by (auto simp: toward_def split: if_splits)
    have IH: "map sent_velocity (closed_loop (Suc n) p' ?j) = map (\<lambda>k. Some (ramp_value (sint x) s (Suc k))) [0..<n] @ [None] \<and>
       (\<exists>c. last (closed_loop (Suc n) p' ?j) = Some c \<and> sc_target c = None \<and> sc_controlword c = CONTROLWORD_DISABLE_VOLTAGE)"
      by (rule Suc.IH [OF step(3,4) _ _ n]) (use step(5) x0 j Suc.prems(4,6) nowrap in simp_all)
    have loop: "closed_loop (Suc (Suc n)) p i = Some c # closed_loop (Suc n) p' ?j" using step(1) by simp
    have "map (\<lambda>k. Some (ramp_value (sint v) s (Suc k))) [0..<Suc n] =
        Some (ramp_value (sint v) s (Suc 0)) # map (\<lambda>k. Some (ramp_value (sint x) s (Suc k))) [0..<n]"
      by (simp add: upt_conv_Cons map_Suc_upt [symmetric] sx ramp_value_toward [OF s] del: upt_Suc)
    moreover have "closed_loop (Suc n) p' ?j \<noteq> []" by (simp split: prod.splits)
    ultimately show ?thesis using IH head unfolding loop by (simp del: closed_loop.simps upt_Suc)
  qed
qed

text \<open>C37. A velocity ramp ends. If the drive follows its targets, a stop by ramp, started on a
  planner that is unused or belongs to an earlier stop, commands in its cycle \<open>k + 1\<close> the velocity of
  the start reduced by \<open>k + 1\<close> steps, keeping its sign and never crossing zero, for exactly the number
  of cycles that the steps need to reach zero (at least one), and in the cycle after these it
  disables the drive. The bound is \<open>\<lceil>|v| / step\<rceil> + 1\<close> cycles.\<close>

theorem ramp_reaches_disable:
  assumes "ramp_input i v" and "\<not> sp_initialized p \<or> sp_stop_sequence p < si_sequence i"
    and "s = uint (sl_max_velocity_step (si_limits i))" and "n = ramp_cycles (sint v) s"
    and "unat (si_cycle i) + n < 2 ^ 64"
  shows "map sent_velocity (closed_loop (Suc n) p i) = map (\<lambda>k. Some (ramp_value (sint v) s (Suc k))) [0..<n] @ [None] \<and>
    (\<exists>c. last (closed_loop (Suc n) p i) = Some c \<and> sc_target c = None \<and>
       sc_controlword c = CONTROLWORD_DISABLE_VOLTAGE)"
proof (rule ramp_loop [OF assms(1) _ _ assms(3) assms(4) [symmetric] assms(5)])
  show "admits p i" using assms(2) by (auto simp: admits_def)
  show "fresh_phase p i \<noteq> PhZeroCommanded" using assms(2) by (auto simp: fresh_phase_def)
qed

theorem ramp_reaches_disable_witness:
  "map sent_velocity (closed_loop 5 stop_planner_new
     ((sample_hold 10 0x0027)\<lparr>si_action := RampToZero, si_mode := Csv,
        si_inputs := (sample_feedback 0x0027 0 (- 100))\<lparr>pi_actual_mode := Csv\<rparr>\<rparr>)) =
   [Some (- 70), Some (- 40), Some (- 10), Some 0, None]"
proof -
  let ?i = "(sample_hold 10 0x0027)\<lparr>si_action := RampToZero, si_mode := Csv,
        si_inputs := (sample_feedback 0x0027 0 (- 100))\<lparr>pi_actual_mode := Csv\<rparr>\<rparr>"
  have i: "ramp_input ?i (- 100)"
    by (simp add: ramp_input_def sample_hold_def sample_feedback_def drive_enabled_def sample_statuswords sample_limits_def)
  have s: "uint (sl_max_velocity_step (si_limits ?i)) = 30" "sint (- 100 :: i32) = - 100"
    by (simp_all add: sample_hold_def sample_limits_def)
  have n: "ramp_cycles (sint (- 100 :: i32)) 30 = 4" by (simp add: ramp_cycles_def)
  have "[0..<4] = [0, 1, 2, 3 :: nat]" by (simp add: upt_rec)
  with ramp_reaches_disable [OF i _ s(1) [symmetric] n [symmetric], of stop_planner_new] s(2) show ?thesis
    by (simp add: stop_planner_new_def sample_hold_def ramp_value_def del: closed_loop.simps)
qed

end
