(* ===== verification/Dma_Ring.thy ===== *)
theory Dma_Ring
  imports System_Interfaces Bit_Scan
begin

text \<open>
  The descriptor rings of the network port (\<open>dma.rs\<close>): buffers that the processor and the
  hardware own in turn, handles with a generation that tells stale ones from current ones, and
  the cache maintenance at the edges of ownership. The trait \<open>DmaCacheOps\<close> is supplied by the
  port; its methods return nothing, so that the rings only determine which of them are called,
  on which buffer and in which order, and an operation returns that sequence of calls. A buffer or
  descriptor is named by its ring and position in place of its address.
\<close>

section \<open>Descriptors\<close>

datatype dma_owner = DoFree | DoCpuOwned | DoDmaOwned | DoCompleted

datatype dma_ring_error = DmaInvalidConfiguration | NoTxDescriptor | NoRxDescriptor | DmaInvalidHandle
  | DmaStaleHandle | DmaInvalidState dma_owner | DmaInvalidLength

datatype dma_place = TxPlace nat | RxPlace nat

datatype cache_call = CleanBuffer dma_place nat | CleanDescriptor dma_place | InvalidateBuffer dma_place nat
  | InvalidateDescriptor dma_place | BeforeDmaSubmit | AfterDmaComplete

text \<open>\<open>DmaTxHandle\<close> and \<open>DmaRxHandle\<close> have the same fields.\<close>

record dma_handle =
  dh_index :: u8
  dh_generation :: u16

record dma_descriptor =
  dd_frame :: bytes
  dd_length :: nat
  dd_owner :: dma_owner
  dd_generation :: u16
  dd_rx_generation :: u16
  dd_armed_indices :: "u64 list"

definition dma_descriptor_new :: "nat \<Rightarrow> dma_descriptor" where
  "dma_descriptor_new MTU = \<lparr>dd_frame = replicate MTU 0, dd_length = 0, dd_owner = DoFree,
     dd_generation = 0, dd_rx_generation = 0, dd_armed_indices = replicate 4 0\<rparr>"

record dma_ring =
  dr_tx :: "dma_descriptor list"
  dr_rx :: "dma_descriptor list"
  dr_tx_cursor :: nat
  dr_rx_cursor :: nat

definition dma_try_new :: "nat \<Rightarrow> nat \<Rightarrow> nat \<Rightarrow> (dma_ring_error, dma_ring) result" where
  "dma_try_new TX RX MTU =
     (if 255 < TX \<or> 255 < RX \<or> MTU = 0 then Err DmaInvalidConfiguration
      else Ok \<lparr>dr_tx = replicate TX (dma_descriptor_new MTU), dr_rx = replicate RX (dma_descriptor_new MTU),
               dr_tx_cursor = 0, dr_rx_cursor = 0\<rparr>)"

definition next_generation :: "u16 \<Rightarrow> u16" where
  "next_generation current = (let n = current + 1 in if n = 0 then 1 else n)"

definition count_non_free :: "dma_descriptor list \<Rightarrow> nat" where
  "count_non_free ds = length (filter (\<lambda>d. dd_owner d \<noteq> DoFree) ds)"

definition find_owner :: "dma_descriptor list \<Rightarrow> nat \<Rightarrow> dma_owner \<Rightarrow> nat option" where
  "find_owner ds cursor wanted =
     (if ds = [] then None
      else map_option (\<lambda>offset. (cursor + offset) mod length ds)
        (position (\<lambda>offset. dd_owner (ds ! ((cursor + offset) mod length ds)) = wanted) [0..<length ds]))"

definition validate_handle :: "dma_descriptor list \<Rightarrow> dma_handle \<Rightarrow> (dma_ring_error, nat) result" where
  "validate_handle ds h =
     (let index = unat (dh_index h)
      in if length ds \<le> index then Err DmaInvalidHandle
         else if dd_generation (ds ! index) \<noteq> dh_generation h then Err DmaStaleHandle
         else Ok index)"

text \<open>The common start of the operations: the position of a current handle whose descriptor has one
  of the owners the operation accepts.\<close>

definition require_owner ::
  "dma_descriptor list \<Rightarrow> dma_handle \<Rightarrow> (dma_owner \<Rightarrow> bool) \<Rightarrow> (dma_ring_error, nat) result" where
  "require_owner ds h accepted =
     (case validate_handle ds h of
        Inl e \<Rightarrow> Err e
      | Inr index \<Rightarrow>
          if accepted (dd_owner (ds ! index)) then Ok index else Err (DmaInvalidState (dd_owner (ds ! index))))"

definition tx_in_flight :: "dma_ring \<Rightarrow> nat" where
  "tx_in_flight r = count_non_free (dr_tx r)"

definition rx_in_flight :: "dma_ring \<Rightarrow> nat" where
  "rx_in_flight r = count_non_free (dr_rx r)"

definition tx_owner :: "dma_ring \<Rightarrow> dma_handle \<Rightarrow> (dma_ring_error, dma_owner) result" where
  "tx_owner r h = (case validate_handle (dr_tx r) h of Inl e \<Rightarrow> Err e | Inr i \<Rightarrow> Ok (dd_owner (dr_tx r ! i)))"

definition rx_owner :: "dma_ring \<Rightarrow> dma_handle \<Rightarrow> (dma_ring_error, dma_owner) result" where
  "rx_owner r h = (case validate_handle (dr_rx r) h of Inl e \<Rightarrow> Err e | Inr i \<Rightarrow> Ok (dd_owner (dr_rx r ! i)))"

section \<open>Transmit ring\<close>

text \<open>\<open>u8::try_from(index)\<close> fails after the descriptor has been taken.\<close>

definition handle_of :: "nat \<Rightarrow> u16 \<Rightarrow> (dma_ring_error, dma_handle) result" where
  "handle_of index generation =
     (if 255 < index then Err DmaInvalidConfiguration
      else Ok \<lparr>dh_index = of_nat index, dh_generation = generation\<rparr>)"

definition tx_acquire :: "dma_ring \<Rightarrow> dma_ring \<times> (dma_ring_error, dma_handle) result" where
  "tx_acquire r =
     (case find_owner (dr_tx r) (dr_tx_cursor r) DoFree of
        None \<Rightarrow> (r, Err NoTxDescriptor)
      | Some index \<Rightarrow>
          let d = (dr_tx r ! index)\<lparr>dd_generation := next_generation (dd_generation (dr_tx r ! index)),
                dd_length := 0, dd_owner := DoCpuOwned, dd_rx_generation := 0,
                dd_armed_indices := replicate 4 0\<rparr>
          in (r\<lparr>dr_tx := (dr_tx r)[index := d], dr_tx_cursor := (index + 1) mod max 1 (length (dr_tx r))\<rparr>,
              handle_of index (dd_generation d)))"

definition set_tx :: "dma_ring \<Rightarrow> nat \<Rightarrow> dma_descriptor \<Rightarrow> dma_ring" where
  "set_tx r i d = r\<lparr>dr_tx := (dr_tx r)[i := d]\<rparr>"

text \<open>\<open>tx_buffer_mut\<close> lends the buffer of \<open>MTU\<close> bytes to the caller, who leaves \<open>contents\<close> in it.\<close>

definition tx_buffer_mut :: "dma_ring \<Rightarrow> dma_handle \<Rightarrow> bytes \<Rightarrow> dma_ring \<times> (dma_ring_error, unit) result" where
  "tx_buffer_mut r h contents =
     (case require_owner (dr_tx r) h (\<lambda>w. w = DoCpuOwned) of
        Inl e \<Rightarrow> (r, Err e)
      | Inr i \<Rightarrow> (set_tx r i ((dr_tx r ! i)\<lparr>dd_frame := contents\<rparr>), Ok ()))"

definition tx_buffer :: "dma_ring \<Rightarrow> dma_handle \<Rightarrow> (dma_ring_error, bytes) result" where
  "tx_buffer r h =
     (case require_owner (dr_tx r) h (\<lambda>w. w \<noteq> DoFree) of
        Inl e \<Rightarrow> Err e
      | Inr i \<Rightarrow> Ok (take (dd_length (dr_tx r ! i)) (dd_frame (dr_tx r ! i))))"

definition tx_length :: "dma_ring \<Rightarrow> dma_handle \<Rightarrow> (dma_ring_error, nat) result" where
  "tx_length r h =
     (case require_owner (dr_tx r) h (\<lambda>w. w \<noteq> DoFree) of
        Inl e \<Rightarrow> Err e | Inr i \<Rightarrow> Ok (dd_length (dr_tx r ! i)))"

definition record_tx_armed ::
  "dma_ring \<Rightarrow> dma_handle \<Rightarrow> u8 \<Rightarrow> u16 \<Rightarrow> dma_ring \<times> (dma_ring_error, unit) result" where
  "record_tx_armed r h index rx_generation =
     (case require_owner (dr_tx r) h (\<lambda>w. w = DoCpuOwned) of
        Inl e \<Rightarrow> (r, Err e)
      | Inr i \<Rightarrow> (set_tx r i ((dr_tx r ! i)\<lparr>dd_rx_generation := rx_generation,
            dd_armed_indices := index_set (dd_armed_indices (dr_tx r ! i)) index\<rparr>), Ok ()))"

definition tx_armed :: "dma_ring \<Rightarrow> dma_handle \<Rightarrow> (dma_ring_error, u64 list \<times> u16) result" where
  "tx_armed r h =
     (case require_owner (dr_tx r) h (\<lambda>w. w \<noteq> DoFree) of
        Inl e \<Rightarrow> Err e
      | Inr i \<Rightarrow> Ok (dd_armed_indices (dr_tx r ! i), dd_rx_generation (dr_tx r ! i)))"

definition tx_submit ::
  "nat \<Rightarrow> dma_ring \<Rightarrow> dma_handle \<Rightarrow> nat \<Rightarrow> dma_ring \<times> cache_call list \<times> (dma_ring_error, unit) result" where
  "tx_submit MTU r h len =
     (if len = 0 \<or> MTU < len then (r, [], Err DmaInvalidLength)
      else case require_owner (dr_tx r) h (\<lambda>w. w = DoCpuOwned) of
        Inl e \<Rightarrow> (r, [], Err e)
      | Inr i \<Rightarrow> (set_tx r i ((dr_tx r ! i)\<lparr>dd_length := len, dd_owner := DoDmaOwned\<rparr>),
          [CleanBuffer (TxPlace i) len, CleanDescriptor (TxPlace i), BeforeDmaSubmit], Ok ()))"

definition tx_complete ::
  "dma_ring \<Rightarrow> dma_handle \<Rightarrow> dma_ring \<times> cache_call list \<times> (dma_ring_error, unit) result" where
  "tx_complete r h =
     (case require_owner (dr_tx r) h (\<lambda>w. w = DoDmaOwned) of
        Inl e \<Rightarrow> (r, [], Err e)
      | Inr i \<Rightarrow> (set_tx r i ((dr_tx r ! i)\<lparr>dd_owner := DoCompleted\<rparr>), [AfterDmaComplete], Ok ()))"

text \<open>\<open>tx_reclaim\<close>, \<open>tx_cancel\<close> and \<open>tx_abort\<close> free the descriptor from different owners.\<close>

definition tx_free :: "dma_ring \<Rightarrow> dma_handle \<Rightarrow> (dma_owner \<Rightarrow> bool) \<Rightarrow> dma_ring \<times> (dma_ring_error, unit) result" where
  "tx_free r h accepted =
     (case require_owner (dr_tx r) h accepted of
        Inl e \<Rightarrow> (r, Err e)
      | Inr i \<Rightarrow> (set_tx r i ((dr_tx r ! i)\<lparr>dd_length := 0, dd_owner := DoFree,
            dd_armed_indices := replicate 4 0\<rparr>), Ok ()))"

definition tx_reclaim :: "dma_ring \<Rightarrow> dma_handle \<Rightarrow> dma_ring \<times> (dma_ring_error, unit) result" where
  "tx_reclaim r h = tx_free r h (\<lambda>w. w = DoCompleted)"

definition tx_cancel :: "dma_ring \<Rightarrow> dma_handle \<Rightarrow> dma_ring \<times> (dma_ring_error, unit) result" where
  "tx_cancel r h = tx_free r h (\<lambda>w. w = DoCpuOwned)"

definition tx_abort :: "dma_ring \<Rightarrow> dma_handle \<Rightarrow> dma_ring \<times> (dma_ring_error, unit) result" where
  "tx_abort r h = tx_free r h (\<lambda>w. w = DoCpuOwned \<or> w = DoDmaOwned)"

section \<open>Receive ring\<close>

definition set_rx :: "dma_ring \<Rightarrow> nat \<Rightarrow> dma_descriptor \<Rightarrow> dma_ring" where
  "set_rx r i d = r\<lparr>dr_rx := (dr_rx r)[i := d]\<rparr>"

definition rx_acquire :: "dma_ring \<Rightarrow> dma_ring \<times> (dma_ring_error, dma_handle) result" where
  "rx_acquire r =
     (case find_owner (dr_rx r) (dr_rx_cursor r) DoFree of
        None \<Rightarrow> (r, Err NoRxDescriptor)
      | Some index \<Rightarrow>
          let d = (dr_rx r ! index)\<lparr>dd_generation := next_generation (dd_generation (dr_rx r ! index)),
                dd_length := 0, dd_owner := DoCpuOwned\<rparr>
          in (r\<lparr>dr_rx := (dr_rx r)[index := d], dr_rx_cursor := (index + 1) mod max 1 (length (dr_rx r))\<rparr>,
              handle_of index (dd_generation d)))"

definition rx_buffer_mut :: "dma_ring \<Rightarrow> dma_handle \<Rightarrow> bytes \<Rightarrow> dma_ring \<times> (dma_ring_error, unit) result" where
  "rx_buffer_mut r h contents =
     (case require_owner (dr_rx r) h (\<lambda>w. w = DoCpuOwned) of
        Inl e \<Rightarrow> (r, Err e)
      | Inr i \<Rightarrow> (set_rx r i ((dr_rx r ! i)\<lparr>dd_frame := contents\<rparr>), Ok ()))"

definition rx_submit ::
  "nat \<Rightarrow> dma_ring \<Rightarrow> dma_handle \<Rightarrow> dma_ring \<times> cache_call list \<times> (dma_ring_error, unit) result" where
  "rx_submit MTU r h =
     (case require_owner (dr_rx r) h (\<lambda>w. w = DoCpuOwned) of
        Inl e \<Rightarrow> (r, [], Err e)
      | Inr i \<Rightarrow> (set_rx r i ((dr_rx r ! i)\<lparr>dd_owner := DoDmaOwned\<rparr>),
          [InvalidateBuffer (RxPlace i) MTU, CleanDescriptor (RxPlace i), BeforeDmaSubmit], Ok ()))"

definition rx_complete :: "nat \<Rightarrow> dma_ring \<Rightarrow> dma_handle \<Rightarrow> nat \<Rightarrow> dma_ring \<times> (dma_ring_error, unit) result" where
  "rx_complete MTU r h len =
     (if len = 0 \<or> MTU < len then (r, Err DmaInvalidLength)
      else case require_owner (dr_rx r) h (\<lambda>w. w = DoDmaOwned) of
        Inl e \<Rightarrow> (r, Err e)
      | Inr i \<Rightarrow> (set_rx r i ((dr_rx r ! i)\<lparr>dd_length := len, dd_owner := DoCompleted\<rparr>), Ok ()))"

definition rx_poll :: "dma_ring \<Rightarrow> dma_ring \<times> cache_call list \<times> (dma_ring_error, dma_handle option) result" where
  "rx_poll r =
     (case find_owner (dr_rx r) (dr_rx_cursor r) DoCompleted of
        None \<Rightarrow> (r, [], Ok None)
      | Some i \<Rightarrow>
          (r\<lparr>dr_rx_cursor := (i + 1) mod max 1 (length (dr_rx r))\<rparr>,
           [AfterDmaComplete, InvalidateDescriptor (RxPlace i), InvalidateBuffer (RxPlace i) (dd_length (dr_rx r ! i))],
           case handle_of i (dd_generation (dr_rx r ! i)) of Inl e \<Rightarrow> Err e | Inr h \<Rightarrow> Ok (Some h)))"

definition rx_buffer :: "dma_ring \<Rightarrow> dma_handle \<Rightarrow> (dma_ring_error, bytes) result" where
  "rx_buffer r h =
     (case require_owner (dr_rx r) h (\<lambda>w. w = DoCompleted) of
        Inl e \<Rightarrow> Err e
      | Inr i \<Rightarrow> Ok (take (dd_length (dr_rx r ! i)) (dd_frame (dr_rx r ! i))))"

definition rx_rearm ::
  "nat \<Rightarrow> dma_ring \<Rightarrow> dma_handle \<Rightarrow> dma_ring \<times> cache_call list \<times> (dma_ring_error, unit) result" where
  "rx_rearm MTU r h =
     (case require_owner (dr_rx r) h (\<lambda>w. w = DoCompleted) of
        Inl e \<Rightarrow> (r, [], Err e)
      | Inr i \<Rightarrow> (set_rx r i ((dr_rx r ! i)\<lparr>dd_length := 0, dd_owner := DoDmaOwned\<rparr>),
          [InvalidateBuffer (RxPlace i) MTU, CleanDescriptor (RxPlace i), BeforeDmaSubmit], Ok ()))"

definition rx_release :: "dma_ring \<Rightarrow> dma_handle \<Rightarrow> dma_ring \<times> (dma_ring_error, unit) result" where
  "rx_release r h =
     (case require_owner (dr_rx r) h (\<lambda>w. w = DoCompleted) of
        Inl e \<Rightarrow> (r, Err e)
      | Inr i \<Rightarrow> (set_rx r i ((dr_rx r ! i)\<lparr>dd_length := 0, dd_owner := DoFree\<rparr>), Ok ()))"

section \<open>Histories of a ring\<close>

datatype dma_op = OpTxAcquire | OpTxWrite dma_handle bytes | OpTxArm dma_handle u8 u16
  | OpTxSubmit dma_handle nat | OpTxComplete dma_handle | OpTxReclaim dma_handle | OpTxCancel dma_handle
  | OpTxAbort dma_handle | OpRxAcquire | OpRxWrite dma_handle bytes | OpRxSubmit dma_handle
  | OpRxComplete dma_handle nat | OpRxPoll | OpRxRearm dma_handle | OpRxRelease dma_handle

datatype dma_event = Refused dma_ring_error | Granted | GotHandle dma_handle | Polled "dma_handle option"

definition unit_event :: "(dma_ring_error, unit) result \<Rightarrow> dma_event" where
  "unit_event res = (case res of Inl e \<Rightarrow> Refused e | Inr _ \<Rightarrow> Granted)"

definition handle_event :: "(dma_ring_error, dma_handle) result \<Rightarrow> dma_event" where
  "handle_event res = (case res of Inl e \<Rightarrow> Refused e | Inr h \<Rightarrow> GotHandle h)"

definition poll_event :: "(dma_ring_error, dma_handle option) result \<Rightarrow> dma_event" where
  "poll_event res = (case res of Inl e \<Rightarrow> Refused e | Inr x \<Rightarrow> Polled x)"

fun dma_exec :: "nat \<Rightarrow> dma_ring \<Rightarrow> dma_op \<Rightarrow> dma_ring \<times> dma_event" where
  "dma_exec MTU r OpTxAcquire = (case tx_acquire r of (r1, res) \<Rightarrow> (r1, handle_event res))"
| "dma_exec MTU r (OpTxWrite h b) = (case tx_buffer_mut r h b of (r1, res) \<Rightarrow> (r1, unit_event res))"
| "dma_exec MTU r (OpTxArm h j g) = (case record_tx_armed r h j g of (r1, res) \<Rightarrow> (r1, unit_event res))"
| "dma_exec MTU r (OpTxSubmit h n) = (case tx_submit MTU r h n of (r1, _, res) \<Rightarrow> (r1, unit_event res))"
| "dma_exec MTU r (OpTxComplete h) = (case tx_complete r h of (r1, _, res) \<Rightarrow> (r1, unit_event res))"
| "dma_exec MTU r (OpTxReclaim h) = (case tx_reclaim r h of (r1, res) \<Rightarrow> (r1, unit_event res))"
| "dma_exec MTU r (OpTxCancel h) = (case tx_cancel r h of (r1, res) \<Rightarrow> (r1, unit_event res))"
| "dma_exec MTU r (OpTxAbort h) = (case tx_abort r h of (r1, res) \<Rightarrow> (r1, unit_event res))"
| "dma_exec MTU r OpRxAcquire = (case rx_acquire r of (r1, res) \<Rightarrow> (r1, handle_event res))"
| "dma_exec MTU r (OpRxWrite h b) = (case rx_buffer_mut r h b of (r1, res) \<Rightarrow> (r1, unit_event res))"
| "dma_exec MTU r (OpRxSubmit h) = (case rx_submit MTU r h of (r1, _, res) \<Rightarrow> (r1, unit_event res))"
| "dma_exec MTU r (OpRxComplete h n) = (case rx_complete MTU r h n of (r1, res) \<Rightarrow> (r1, unit_event res))"
| "dma_exec MTU r OpRxPoll = (case rx_poll r of (r1, _, res) \<Rightarrow> (r1, poll_event res))"
| "dma_exec MTU r (OpRxRearm h) = (case rx_rearm MTU r h of (r1, _, res) \<Rightarrow> (r1, unit_event res))"
| "dma_exec MTU r (OpRxRelease h) = (case rx_release r h of (r1, res) \<Rightarrow> (r1, unit_event res))"

text \<open>The transmit handle an operation is applied to.\<close>

fun tx_handle_of :: "dma_op \<Rightarrow> dma_handle option" where
  "tx_handle_of (OpTxWrite h b) = Some h"
| "tx_handle_of (OpTxArm h j g) = Some h"
| "tx_handle_of (OpTxSubmit h n) = Some h"
| "tx_handle_of (OpTxComplete h) = Some h"
| "tx_handle_of (OpTxReclaim h) = Some h"
| "tx_handle_of (OpTxCancel h) = Some h"
| "tx_handle_of (OpTxAbort h) = Some h"
| "tx_handle_of _ = None"

text \<open>The specification of a transmit handle: a descriptor of its own, whose owner alone decides what
  is granted. A descriptor that is free stays so.\<close>

definition guarded_step :: "bool \<Rightarrow> dma_descriptor \<Rightarrow> dma_descriptor \<Rightarrow> dma_descriptor \<times> bool" where
  "guarded_step allowed d d' = (if allowed then (d', True) else (d, False))"

definition freed :: "dma_descriptor \<Rightarrow> dma_descriptor" where
  "freed d = d\<lparr>dd_length := 0, dd_owner := DoFree, dd_armed_indices := replicate 4 0\<rparr>"

fun own_step :: "nat \<Rightarrow> dma_descriptor \<Rightarrow> dma_op \<Rightarrow> dma_descriptor \<times> bool" where
  "own_step MTU d (OpTxWrite h b) = guarded_step (dd_owner d = DoCpuOwned) d (d\<lparr>dd_frame := b\<rparr>)"
| "own_step MTU d (OpTxArm h j g) = guarded_step (dd_owner d = DoCpuOwned) d
     (d\<lparr>dd_rx_generation := g, dd_armed_indices := index_set (dd_armed_indices d) j\<rparr>)"
| "own_step MTU d (OpTxSubmit h n) = guarded_step (0 < n \<and> n \<le> MTU \<and> dd_owner d = DoCpuOwned) d
     (d\<lparr>dd_length := n, dd_owner := DoDmaOwned\<rparr>)"
| "own_step MTU d (OpTxComplete h) = guarded_step (dd_owner d = DoDmaOwned) d (d\<lparr>dd_owner := DoCompleted\<rparr>)"
| "own_step MTU d (OpTxReclaim h) = guarded_step (dd_owner d = DoCompleted) d (freed d)"
| "own_step MTU d (OpTxCancel h) = guarded_step (dd_owner d = DoCpuOwned) d (freed d)"
| "own_step MTU d (OpTxAbort h) = guarded_step (dd_owner d = DoCpuOwned \<or> dd_owner d = DoDmaOwned) d (freed d)"
| "own_step MTU d _ = (d, False)"

lemma own_step_free: "dd_owner d = DoFree \<Longrightarrow> own_step MTU d op = (d, False)"
  by (cases op) (simp_all add: guarded_step_def)

lemma own_step_generation: "dd_generation (fst (own_step MTU d op)) = dd_generation d"
  by (cases op) (simp_all add: guarded_step_def freed_def)

section \<open>Generations\<close>

lemma unat_next_generation:
  assumes "g \<noteq> 0"
  shows "unat (next_generation g) = unat g mod 65535 + 1" and "next_generation g \<noteq> 0"
proof -
  have g: "0 < unat g" "unat g < 65536" using assms unat_less [of g] by (simp_all add: unat_gt_0)
  show "unat (next_generation g) = unat g mod 65535 + 1"
  proof (cases "unat g = 65535")
    case True
    then have "g + 1 = 0" by (simp add: word_unat_eq_iff unat_word_ariths)
    with True show ?thesis by (simp add: next_generation_def)
  next
    case False
    then have "unat (g + 1) = unat g + 1" using g by (simp add: unat_word_ariths)
    moreover from this have "g + 1 \<noteq> 0" by (metis unat_0 add_is_0 one_neq_zero)
    ultimately show ?thesis using False g by (simp add: next_generation_def)
  qed
  show "next_generation g \<noteq> 0" by (simp add: next_generation_def Let_def)
qed

lemma unat_generations:
  "g \<noteq> 0 \<Longrightarrow> unat ((next_generation ^^ n) g) = (unat g - 1 + n) mod 65535 + 1 \<and> (next_generation ^^ n) g \<noteq> 0"
proof (induction n)
  case 0
  have "0 < unat g" "unat g < 65536" using 0 unat_less [of g] by (simp_all add: unat_gt_0)
  with 0 show ?case by simp
next
  case (Suc n)
  then show ?case using unat_next_generation [of "(next_generation ^^ n) g"] by (simp add: mod_Suc_eq)
qed

lemma generation_repeats_late:
  assumes "g \<noteq> 0" "0 < n" "n < 65535"
  shows "(next_generation ^^ n) g \<noteq> g"
proof
  assume "(next_generation ^^ n) g = g"
  then have rep: "(unat g - 1 + n) mod 65535 + 1 = unat g"
    using unat_generations [OF assms(1), of n] by metis
  define m where "m = unat g - 1"
  have "unat g < 65536" using unat_less [of g] by simp
  moreover have "m = unat g - 1" by (rule m_def)
  ultimately have m: "(m + n) mod 65535 = m" "m < 65535"
    using rep [folded m_def] by linarith+
  show False
  proof (cases "m + n < 65535")
    case True
    with m assms(2) show ?thesis by simp
  next
    case False
    then have "(m + n) mod 65535 = (m + n - 65535) mod 65535" by (intro le_mod_geq) simp
    also have "\<dots> = m + n - 65535" using m(2) assms(3) by simp
    finally show ?thesis using m(1) assms(3) False by simp
  qed
qed

section \<open>One slot under one operation\<close>

lemma find_owner_Some:
  assumes "find_owner ds cursor wanted = Some i" shows "i < length ds" "dd_owner (ds ! i) = wanted"
proof -
  obtain k where k: "position (\<lambda>offset. dd_owner (ds ! ((cursor + offset) mod length ds)) = wanted) [0..<length ds] = Some k"
      "i = (cursor + k) mod length ds" "ds \<noteq> []"
    using assms by (auto simp: find_owner_def split: if_splits)
  from position_Some [OF k(1)] k(2,3) show "i < length ds" "dd_owner (ds ! i) = wanted" by auto
qed

lemma require_owner_Ok:
  "require_owner ds h acc = Inr i \<longleftrightarrow> i = unat (dh_index h) \<and> i < length ds \<and>
     dd_generation (ds ! i) = dh_generation h \<and> acc (dd_owner (ds ! i))"
  by (auto simp: require_owner_def validate_handle_def Let_def split: sum.splits if_splits)

lemma handle_of_Ok: "handle_of i g = Inr h \<longleftrightarrow> i \<le> 255 \<and> h = \<lparr>dh_index = of_nat i, dh_generation = g\<rparr>"
  by (auto simp: handle_of_def)

lemma unat_index: "i \<le> 255 \<Longrightarrow> unat (of_nat i :: u8) = i"
  by (simp add: unat_of_nat)

definition acquires :: "nat \<Rightarrow> dma_op \<Rightarrow> dma_event \<Rightarrow> bool" where
  "acquires i op e \<longleftrightarrow> op = OpTxAcquire \<and> (\<exists>h. e = GotHandle h \<and> unat (dh_index h) = i)"

lemma exec_acquire:
  assumes "dma_exec MTU r OpTxAcquire = (r', e)" "i < length (dr_tx r)" "i \<le> 255"
  shows "length (dr_tx r') = length (dr_tx r) \<and>
    (if acquires i OpTxAcquire e
     then dd_owner (dr_tx r ! i) = DoFree \<and> dd_generation (dr_tx r' ! i) = next_generation (dd_generation (dr_tx r ! i))
     else dr_tx r' ! i = dr_tx r ! i)"
proof (cases "find_owner (dr_tx r) (dr_tx_cursor r) DoFree")
  case None
  with assms show ?thesis by (auto simp: tx_acquire_def acquires_def handle_event_def)
next
  case (Some j)
  note j = find_owner_Some [OF Some]
  have "acquires i OpTxAcquire e \<longleftrightarrow> j = i"
    using assms(1,3) Some
    by (cases "255 < j") (auto simp: tx_acquire_def acquires_def handle_event_def handle_of_def Let_def unat_index)
  with assms(1,2) Some j show ?thesis by (auto simp: tx_acquire_def Let_def)
qed

lemmas tx_exec_defs = tx_buffer_mut_def record_tx_armed_def tx_submit_def tx_complete_def tx_reclaim_def
  tx_cancel_def tx_abort_def tx_free_def set_tx_def guarded_step_def freed_def unit_event_def

lemma exec_handle:
  assumes "dma_exec MTU r op = (r', e)" "tx_handle_of op = Some h" "i < length (dr_tx r)"
  shows "length (dr_tx r') = length (dr_tx r) \<and> dr_tx r' ! i =
      (if unat (dh_index h) = i \<and> dd_generation (dr_tx r ! i) = dh_generation h
       then fst (own_step MTU (dr_tx r ! i) op) else dr_tx r ! i) \<and>
    (unat (dh_index h) = i \<longrightarrow> (e = Granted) =
       (dd_generation (dr_tx r ! i) = dh_generation h \<and> snd (own_step MTU (dr_tx r ! i) op)))"
proof (cases "unat (dh_index h) = i")
  case True
  with assms show ?thesis
    by (cases op) (auto simp: tx_exec_defs require_owner_def validate_handle_def Let_def split: sum.splits if_splits)
next
  case False
  with assms show ?thesis
    by (cases op) (auto simp: tx_exec_defs require_owner_Ok split: sum.splits if_splits)
qed

lemma exec_other:
  "dma_exec MTU r op = (r', e) \<Longrightarrow> tx_handle_of op = None \<Longrightarrow> op \<noteq> OpTxAcquire \<Longrightarrow> dr_tx r' = dr_tx r"
  by (cases op) (auto simp: rx_acquire_def rx_buffer_mut_def rx_submit_def rx_complete_def rx_poll_def
      rx_rearm_def rx_release_def set_rx_def Let_def split: sum.splits option.splits if_splits prod.splits)

section \<open>A handle and its slot\<close>

text \<open>The slot of a handle while \<open>n\<close> later acquisitions have taken it: at first it is the handle's own
  descriptor; afterwards that descriptor is gone and the slot carries another generation.\<close>

definition slot_of :: "nat \<Rightarrow> u16 \<Rightarrow> nat \<Rightarrow> dma_ring \<Rightarrow> dma_descriptor \<Rightarrow> bool" where
  "slot_of i g n r d \<longleftrightarrow> i < length (dr_tx r) \<and> dd_generation d = g \<and>
     (if n = 0 then dr_tx r ! i = d
      else dd_owner d = DoFree \<and> dd_generation (dr_tx r ! i) = (next_generation ^^ n) g)"

lemma slot_of_step:
  assumes "slot_of i g n r d" "dma_exec MTU r op = (r', e)" "i \<le> 255" "g \<noteq> 0" "n < 65535"
    and "h = \<lparr>dh_index = of_nat i, dh_generation = g\<rparr>"
  shows "if tx_handle_of op = Some h
    then slot_of i g n r' (fst (own_step MTU d op)) \<and> (e = Granted) = snd (own_step MTU d op)
    else slot_of i g (if acquires i op e then Suc n else n) r' d"
proof -
  have i: "i < length (dr_tx r)" using assms(1) by (simp add: slot_of_def)
  have idx: "unat (dh_index h) = i" "dh_generation h = g" using assms(3,6) by (simp_all add: unat_index)
  consider "op = OpTxAcquire" | h' where "tx_handle_of op = Some h'" "op \<noteq> OpTxAcquire"
    | "tx_handle_of op = None" "op \<noteq> OpTxAcquire"
    by (cases "tx_handle_of op") auto
  then show ?thesis
  proof cases
    case 1
    with exec_acquire [OF assms(2) [unfolded 1] i assms(3)] assms(1) show ?thesis
      by (auto simp: slot_of_def split: if_splits)
  next
    case 2
    note step = exec_handle [OF assms(2) 2(1) i]
    have acq: "\<not> acquires i op e" using 2(2) by (simp add: acquires_def)
    show ?thesis
    proof (cases "h' = h")
      case True
      show ?thesis
      proof (cases "n = 0")
        case zero: True
        then have "dr_tx r ! i = d" "dd_generation d = g" using assms(1) by (simp_all add: slot_of_def)
        with step 2(1) True idx i zero show ?thesis
          by (simp add: slot_of_def own_step_generation)
      next
        case False
        then have "dd_owner d = DoFree" "dd_generation (dr_tx r ! i) \<noteq> g"
          using assms(1,4,5) generation_repeats_late by (auto simp: slot_of_def)
        with step 2(1) True idx assms(1) show ?thesis
          by (simp add: slot_of_def own_step_free)
      qed
    next
      case False
      have other: "h' = h" if "unat (dh_index h') = i" "dh_generation h' = g"
      proof (rule dma_handle.equality)
        show "dh_index h' = dh_index h" using that(1) idx(1) by (simp add: word_unat_eq_iff)
      qed (use that idx in simp_all)
      have "slot_of i g n r' d"
      proof (cases "unat (dh_index h') = i \<and> dd_generation (dr_tx r ! i) = dh_generation h'")
        case True
        then have "n \<noteq> 0" using assms(1) other False by (auto simp: slot_of_def split: if_splits)
        with assms(1) step True show ?thesis by (simp add: slot_of_def own_step_generation)
      next
        case False
        with assms(1) step show ?thesis by (auto simp: slot_of_def split: if_splits)
      qed
      with 2(1) False acq show ?thesis by simp
    qed
  next
    case 3
    with exec_other [OF assms(2) 3] assms(1) show ?thesis by (simp add: slot_of_def acquires_def)
  qed
qed

text \<open>What a history says about one handle: the operations on it with their outcome, and how often
  its slot was acquired again.\<close>

definition on_handle :: "dma_handle \<Rightarrow> dma_op list \<Rightarrow> dma_op list" where
  "on_handle h ops = filter (\<lambda>op. tx_handle_of op = Some h) ops"

definition outcomes :: "dma_handle \<Rightarrow> dma_op list \<Rightarrow> dma_event list \<Rightarrow> bool list" where
  "outcomes h ops evs = map (\<lambda>x. snd x = Granted) (filter (\<lambda>x. tx_handle_of (fst x) = Some h) (zip ops evs))"

definition reacquired :: "nat \<Rightarrow> dma_op list \<Rightarrow> dma_event list \<Rightarrow> nat" where
  "reacquired i ops evs = length (filter (\<lambda>x. acquires i (fst x) (snd x)) (zip ops evs))"

lemma slot_of_run:
  "slot_of i g n r d \<Longrightarrow> traced (dma_exec MTU) r ops = (r', evs) \<Longrightarrow> i \<le> 255 \<Longrightarrow> g \<noteq> 0 \<Longrightarrow>
     n + reacquired i ops evs < 65535 \<Longrightarrow> h = \<lparr>dh_index = of_nat i, dh_generation = g\<rparr> \<Longrightarrow>
     \<exists>d'. traced (own_step MTU) d (on_handle h ops) = (d', outcomes h ops evs) \<and>
       slot_of i g (n + reacquired i ops evs) r' d'"
proof (induction ops arbitrary: n r d evs)
  case Nil
  then show ?case by (auto simp: on_handle_def outcomes_def reacquired_def)
next
  case (Cons op ops)
  obtain r1 e es where run: "dma_exec MTU r op = (r1, e)" "traced (dma_exec MTU) r1 ops = (r', es)" "evs = e # es"
    using Cons.prems(2) by (auto split: prod.splits)
  have count: "reacquired i (op # ops) evs = (if acquires i op e then 1 else 0) + reacquired i ops es"
    by (simp add: reacquired_def run(3))
  have "n < 65535" using Cons.prems(5) by simp
  note step = slot_of_step [OF Cons.prems(1) run(1) Cons.prems(3,4) this Cons.prems(6)]
  show ?case
  proof (cases "tx_handle_of op = Some h")
    case True
    then have noacq: "\<not> acquires i op e" by (auto simp: acquires_def)
    obtain d1 b where own: "own_step MTU d op = (d1, b)" by fastforce
    have "slot_of i g n r1 d1" "(e = Granted) = b" using step True own by simp_all
    from Cons.IH [OF this(1) run(2) Cons.prems(3,4) _ Cons.prems(6)] Cons.prems(5) this(2) count noacq True own
    show ?thesis by (auto simp: on_handle_def outcomes_def run(3))
  next
    case False
    let ?n = "if acquires i op e then Suc n else n"
    have "slot_of i g ?n r1 d" using step False by simp
    from Cons.IH [OF this run(2) Cons.prems(3,4) _ Cons.prems(6)] Cons.prems(5) count False
    show ?thesis by (auto simp: on_handle_def outcomes_def run(3) split: if_splits)
  qed
qed

text \<open>C38. A transmit handle owns its descriptor. Whatever operations are made on the rings after it
  has been acquired, with this and any other handles, current, stale or invented, the operations
  on this handle are granted exactly as on a descriptor of its own, whose owner alone decides:
  the processor writes and arms while it owns the buffer, hands it to the hardware by a submit of a
  valid length, and gets it back only by completion and reclaim or by an abort; bytes and length
  never change in between, and the slot is not acquired again before the handle has given it
  back. Afterwards nothing is granted to the handle and nothing is read through it, for fewer than
  65535 further acquisitions of the slot (then the generation counter comes round).\<close>

theorem dma_handle_owns_descriptor:
  assumes "tx_acquire r0 = (r, Ok h)" and "traced (dma_exec MTU) r ops = (r', evs)"
    and "i = unat (dh_index h)" and "reacquired i ops evs < 65535"
    and "traced (own_step MTU) (dr_tx r ! i) (on_handle h ops) = (d, granted)"
  shows "outcomes h ops evs = granted \<and>
    (if dd_owner d = DoFree then \<exists>e. tx_buffer r' h = Err e
     else tx_owner r' h = Ok (dd_owner d) \<and> tx_buffer r' h = Ok (take (dd_length d) (dd_frame d)) \<and>
       tx_armed r' h = Ok (dd_armed_indices d, dd_rx_generation d) \<and> reacquired i ops evs = 0)"
proof -
  obtain j where j: "find_owner (dr_tx r0) (dr_tx_cursor r0) DoFree = Some j"
    using assms(1) by (auto simp: tx_acquire_def split: option.splits)
  note slot = find_owner_Some [OF j]
  have h: "i = j" "j \<le> 255" "h = \<lparr>dh_index = of_nat i, dh_generation = dh_generation h\<rparr>"
      "j < length (dr_tx r)" "dd_generation (dr_tx r ! j) = dh_generation h" "dh_generation h \<noteq> 0"
    using assms(1,3) j slot
    by (auto simp: tx_acquire_def Let_def handle_of_Ok unat_index) (simp add: next_generation_def Let_def split: if_splits)
  have "slot_of i (dh_generation h) 0 r (dr_tx r ! i)" using h by (simp add: slot_of_def)
  from slot_of_run [OF this assms(2) _ h(6) _ h(3)] h(1,2) assms(4)
  obtain d' where d': "traced (own_step MTU) (dr_tx r ! i) (on_handle h ops) = (d', outcomes h ops evs)"
      "slot_of i (dh_generation h) (reacquired i ops evs) r' d'" by auto
  then have d: "d' = d" "granted = outcomes h ops evs" using assms(5) by simp_all
  have idx: "unat (dh_index h) = i" using assms(3) by simp
  show ?thesis
  proof (cases "dd_owner d = DoFree")
    case True
    have "dr_tx r' ! i = d \<or> dd_generation (dr_tx r' ! i) \<noteq> dh_generation h"
      using d'(2) d(1) h(6) assms(4) generation_repeats_late
      by (cases "reacquired i ops evs = 0") (auto simp: slot_of_def)
    with True idx have "\<exists>e. tx_buffer r' h = Inl e"
      by (auto simp: tx_buffer_def require_owner_def validate_handle_def Let_def)
    with True d(2) show ?thesis by simp
  next
    case False
    then have "reacquired i ops evs = 0" "dr_tx r' ! i = d" "i < length (dr_tx r')" "dd_generation d = dh_generation h"
      using d'(2) d(1) by (auto simp: slot_of_def split: if_splits)
    with False d(2) idx show ?thesis
      by (simp add: tx_owner_def tx_buffer_def tx_armed_def require_owner_def validate_handle_def)
  qed
qed

definition sample_ring :: dma_ring where
  "sample_ring = \<lparr>dr_tx = [dma_descriptor_new 4, dma_descriptor_new 4], dr_rx = [],
     dr_tx_cursor = 0, dr_rx_cursor = 0\<rparr>"

definition sample_handle :: dma_handle where
  "sample_handle = \<lparr>dh_index = 0, dh_generation = 1\<rparr>"

definition sample_taken :: dma_ring where
  "sample_taken = sample_ring\<lparr>dr_tx := [(dma_descriptor_new 4)\<lparr>dd_generation := 1, dd_owner := DoCpuOwned\<rparr>,
     dma_descriptor_new 4], dr_tx_cursor := 1\<rparr>"

definition sample_dma_ops :: "dma_op list" where
  "sample_dma_ops = [OpTxWrite sample_handle [1, 2, 3, 4], OpTxSubmit sample_handle 3,
     OpTxAcquire, OpTxWrite sample_handle [9, 9, 9, 9], OpTxAbort (sample_handle\<lparr>dh_generation := 7\<rparr>)]"

lemma sample_dma_runs:
  "tx_acquire sample_ring = (sample_taken, Ok sample_handle)"
  "snd (traced (dma_exec 4) sample_taken sample_dma_ops) =
     [Granted, Granted, GotHandle \<lparr>dh_index = 1, dh_generation = 1\<rparr>, Refused (DmaInvalidState DoDmaOwned), Refused DmaStaleHandle]"
  "traced (own_step 4) (dr_tx sample_taken ! 0) (on_handle sample_handle sample_dma_ops) =
     ((dma_descriptor_new 4)\<lparr>dd_generation := 1, dd_owner := DoDmaOwned, dd_frame := [1, 2, 3, 4], dd_length := 3\<rparr>,
      [True, True, False])"
  by (simp_all add: sample_ring_def sample_taken_def sample_handle_def tx_acquire_def find_owner_def
      dma_descriptor_new_def Let_def handle_of_def next_generation_def sample_dma_ops_def tx_exec_defs
      require_owner_def validate_handle_def handle_event_def on_handle_def upt_rec)

theorem dma_handle_owns_descriptor_witness:
  "tx_buffer (fst (traced (dma_exec 4) sample_taken sample_dma_ops)) sample_handle = Ok [1, 2, 3]"
proof -
  have idx: "0 = unat (dh_index sample_handle)" by (simp add: sample_handle_def)
  have count: "reacquired 0 sample_dma_ops (snd (traced (dma_exec 4) sample_taken sample_dma_ops)) < 65535"
    unfolding sample_dma_runs(2) by (simp add: reacquired_def acquires_def sample_dma_ops_def)
  from dma_handle_owns_descriptor [OF sample_dma_runs(1) prod.collapse [symmetric] idx count sample_dma_runs(3)]
  show ?thesis by simp
qed

end
