(* ===== verification/Mailbox_Wire.thy ===== *)
theory Mailbox_Wire
  imports Control_Pool Slave_States Codec_Interface
begin

text \<open>
  The format and configuration of the EtherCAT mailbox (first part of \<open>mailbox.rs\<close>): headers and
  frames, mailbox errors, the layout of the two mailboxes and its validation, and the status bits
  that announce a full mailbox, read directly or through a mapped process data bit.
\<close>

definition MAILBOX_HEADER_LEN :: nat where "MAILBOX_HEADER_LEN = 6"
definition MAX_MAILBOX_BYTES :: nat where "MAX_MAILBOX_BYTES = MAX_CONTROL_PAYLOAD"
definition MAILBOX_FULL_STATUS_MASK :: u8 where "MAILBOX_FULL_STATUS_MASK = 0x08"
definition MAILBOX_LENGTH_MASK :: u16 where "MAILBOX_LENGTH_MASK = 0x07FF"
definition MAILBOX_COUNTER_MASK :: u8 where "MAILBOX_COUNTER_MASK = 0x07"
definition ESC_SYNC_MANAGER_BASE :: u16 where "ESC_SYNC_MANAGER_BASE = 0x0800"
definition ESC_SYNC_MANAGER_STRIDE :: u16 where "ESC_SYNC_MANAGER_STRIDE = 8"
definition SYNC_MANAGER_STATUS_OFFSET :: u16 where "SYNC_MANAGER_STATUS_OFFSET = 5"
definition MAX_ESC_SYNC_MANAGERS :: nat where "MAX_ESC_SYNC_MANAGERS = 16"

lemmas mailbox_lengths = MAILBOX_HEADER_LEN_def MAX_MAILBOX_BYTES_def MAX_CONTROL_PAYLOAD_def
lemmas mailbox_masks = MAILBOX_FULL_STATUS_MASK_def MAILBOX_LENGTH_MASK_def MAILBOX_COUNTER_MASK_def

section \<open>Headers and frames\<close>

datatype mailbox_protocol = MbxError | AoE | EoE | CoE | FoE | SoE | VoE

fun protocol_code :: "mailbox_protocol \<Rightarrow> u8" where
  "protocol_code MbxError = 0x00"
| "protocol_code AoE = 0x01"
| "protocol_code EoE = 0x02"
| "protocol_code CoE = 0x03"
| "protocol_code FoE = 0x04"
| "protocol_code SoE = 0x05"
| "protocol_code VoE = 0x0F"

definition protocol_from_u8 :: "u8 \<Rightarrow> mailbox_protocol option" where
  "protocol_from_u8 v =
     (if v = 0x00 then Some MbxError else if v = 0x01 then Some AoE else if v = 0x02 then Some EoE
      else if v = 0x03 then Some CoE else if v = 0x04 then Some FoE else if v = 0x05 then Some SoE
      else if v = 0x0F then Some VoE else None)"

record mailbox_error_response =
  mr_error_type :: u16
  mr_detail :: u16

datatype mailbox_error = MeBusy | MeNotStarted | MeNoPendingAction | MeActionMismatch | MeTokenMismatch
  | MeGenerationMismatch | MePayloadLengthMismatch | MeUnexpectedWorkingCounter | MeTimeout
  | MeInvalidConfiguration | MeMissingMappedStatusBinding | MeBufferTooSmall | MeLengthOutOfBounds
  | MeHeaderTruncated | MeUnknownProtocol | MeProtocolMismatch | MeCounterOutOfBounds | MeCounterMismatch
  | MeEmergencyUnconsumed | MeTransportNotOwned | MeRemoteError mailbox_error_response
  | MeMalformedErrorResponse | MeControl control_error

record mailbox_header =
  mh_length :: u16
  mh_address :: u16
  mh_priority :: u8
  mh_protocol :: mailbox_protocol
  mh_counter :: u8

definition mailbox_header_encode :: "mailbox_header \<Rightarrow> bytes \<Rightarrow> bytes \<times> (mailbox_error, unit) result" where
  "mailbox_header_encode h dst =
     (if length dst < MAILBOX_HEADER_LEN then (dst, Err MeBufferTooSmall)
      else if MAILBOX_LENGTH_MASK < mh_length h then (dst, Err MeLengthOutOfBounds)
      else if MAILBOX_COUNTER_MASK < mh_counter h then (dst, Err MeCounterOutOfBounds)
      else ((copy_at (copy_at dst 0 (u16_to_le (mh_length h))) 2 (u16_to_le (mh_address h)))
              [4 := mh_priority h, 5 := protocol_code (mh_protocol h) OR push_bit 4 (mh_counter h)], Ok ()))"

definition mailbox_header_decode :: "bytes \<Rightarrow> (mailbox_error, mailbox_header) result" where
  "mailbox_header_decode src =
     (if length src < MAILBOX_HEADER_LEN then Err MeHeaderTruncated
      else
        let type_counter = src ! 5
        in case protocol_from_u8 (type_counter AND 0x0F) of
             None \<Rightarrow> Err MeUnknownProtocol
           | Some protocol \<Rightarrow> Ok \<lparr>mh_length = u16_from_le (src ! 0) (src ! 1) AND MAILBOX_LENGTH_MASK,
               mh_address = u16_from_le (src ! 2) (src ! 3), mh_priority = src ! 4, mh_protocol = protocol,
               mh_counter = drop_bit 4 type_counter AND MAILBOX_COUNTER_MASK\<rparr>)"

record mailbox_frame =
  mf_header :: mailbox_header
  mf_payload :: bytes

definition mailbox_frame_parse :: "bytes \<Rightarrow> (mailbox_error, mailbox_frame) result" where
  "mailbox_frame_parse bs =
     (case mailbox_header_decode bs of
        Inl e \<Rightarrow> Err e
      | Inr header \<Rightarrow>
          (case usize_checked_add MAILBOX_HEADER_LEN (unat (mh_length header)) of
             None \<Rightarrow> Err MeLengthOutOfBounds
           | Some stop \<Rightarrow>
               if length bs < stop then Err MeLengthOutOfBounds
               else Ok \<lparr>mf_header = header, mf_payload = subslice bs MAILBOX_HEADER_LEN stop\<rparr>))"

definition mailbox_error_parse :: "bytes \<Rightarrow> (mailbox_error, mailbox_error_response) result" where
  "mailbox_error_parse payload =
     (if length payload \<noteq> 4 then Err MeMalformedErrorResponse
      else Ok \<lparr>mr_error_type = u16_from_le (payload ! 0) (payload ! 1),
               mr_detail = u16_from_le (payload ! 2) (payload ! 3)\<rparr>)"

section \<open>Status bits\<close>

record mailbox_status_bit =
  ms_address :: u16
  ms_mask :: u8
  ms_active_high :: bool

definition sync_manager_mailbox_full :: "u8 \<Rightarrow> mailbox_status_bit" where
  "sync_manager_mailbox_full sm =
     \<lparr>ms_address = ESC_SYNC_MANAGER_BASE + ucast sm * ESC_SYNC_MANAGER_STRIDE + SYNC_MANAGER_STATUS_OFFSET,
      ms_mask = MAILBOX_FULL_STATUS_MASK, ms_active_high = True\<rparr>"

record fmmu_config =
  fm_index :: u8
  fm_logical_start :: u32
  fm_length :: u16
  fm_logical_start_bit :: u8
  fm_logical_end_bit :: u8
  fm_physical_start :: u16
  fm_physical_start_bit :: u8
  fm_fmmu_type :: u8
  fm_enable :: bool

record mailbox_mapped_status_bit =
  mm_domain_id :: u8
  mm_domain_bit_offset :: u32
  mm_max_age_cycles :: u32
  mm_fmmu :: fmmu_config

datatype mailbox_mapped_status_error = MsZeroMaximumAge | MsLogicalAddressOverflow | MsInvalidFmmu
  | MsStatusBitMismatch | MsInputOutOfBounds

datatype mailbox_mapped_status_unavailable = MuDomainBusy | MuMissingDomain | MuInvalidQuality
  | MuNeverCommitted | MuStale | MuInputOutOfBounds

datatype mailbox_mapped_status_observation = ObsActive | ObsInactive
  | ObsUnavailable mailbox_mapped_status_unavailable

definition mapped_status_validate ::
  "mailbox_mapped_status_bit \<Rightarrow> u32 \<Rightarrow> mailbox_status_bit \<Rightarrow> (mailbox_mapped_status_error, unit) result" where
  "mapped_status_validate m domain_logical_start status_bit =
     (if mm_max_age_cycles m = 0 then Err MsZeroMaximumAge
      else case checked_add domain_logical_start (mm_domain_bit_offset m div 8) of
        None \<Rightarrow> Err MsLogicalAddressOverflow
      | Some logical_start \<Rightarrow>
          let logical_bit = (ucast (mm_domain_bit_offset m mod 8) :: u8); f = mm_fmmu m
          in if fm_length f \<noteq> 1 \<or> fm_logical_start f \<noteq> logical_start \<or> fm_logical_start_bit f \<noteq> logical_bit
                \<or> fm_logical_end_bit f \<noteq> logical_bit \<or> fm_fmmu_type f \<noteq> 1 \<or> \<not> fm_enable f
             then Err MsInvalidFmmu
             else if count_ones (ucast (ms_mask status_bit)) \<noteq> 1 \<or> \<not> ms_active_high status_bit
                \<or> fm_physical_start f \<noteq> ms_address status_bit
                \<or> fm_physical_start_bit f \<noteq> of_nat (trailing_zeros (ucast (ms_mask status_bit)))
             then Err MsStatusBitMismatch else Ok ())"

definition mapped_status_read :: "mailbox_mapped_status_bit \<Rightarrow> bytes \<Rightarrow> (mailbox_mapped_status_error, bool) result" where
  "mapped_status_read m input =
     (let byte = unat (mm_domain_bit_offset m div 8);
          b = unat (mm_domain_bit_offset m mod 8)
      in if byte < length input then Ok (input ! byte AND push_bit b 1 \<noteq> 0) else Err MsInputOutOfBounds)"

section \<open>Configuration\<close>

record mailbox_retry_policy =
  my_max_retries :: u8
  my_retry_delay_ns :: u64

definition retry_disabled :: mailbox_retry_policy where
  "retry_disabled = \<lparr>my_max_retries = 0, my_retry_delay_ns = 0\<rparr>"

record mailbox_config =
  mb_send_address :: u16
  mb_send_capacity :: u16
  mb_receive_address :: u16
  mb_receive_capacity :: u16
  mb_poll_interval_ns :: u64
  mb_timeout_ns :: u64
  mb_request_timeout_ns :: u64
  mb_retry_policy :: mailbox_retry_policy
  mb_status_bit :: "mailbox_status_bit option"
  mb_send_sync_manager :: u8
  mb_receive_sync_manager :: u8

definition mailbox_config_new :: "u16 \<Rightarrow> u16 \<Rightarrow> u16 \<Rightarrow> u16 \<Rightarrow> mailbox_config" where
  "mailbox_config_new send_address send_capacity receive_address receive_capacity =
     \<lparr>mb_send_address = send_address, mb_send_capacity = send_capacity,
      mb_receive_address = receive_address, mb_receive_capacity = receive_capacity,
      mb_poll_interval_ns = 1000, mb_timeout_ns = 1000000000, mb_request_timeout_ns = 1000000,
      mb_retry_policy = retry_disabled, mb_status_bit = None, mb_send_sync_manager = 0,
      mb_receive_sync_manager = 1\<rparr>"

definition mailbox_with_status_bit :: "mailbox_config \<Rightarrow> mailbox_status_bit \<Rightarrow> mailbox_config" where
  "mailbox_with_status_bit c status_bit =
     (let c1 = c\<lparr>mb_status_bit := Some status_bit\<rparr>;
          relative = ms_address status_bit - ESC_SYNC_MANAGER_BASE - SYNC_MANAGER_STATUS_OFFSET
      in if ms_active_high status_bit \<and> ms_mask status_bit = MAILBOX_FULL_STATUS_MASK
            \<and> ESC_SYNC_MANAGER_BASE + SYNC_MANAGER_STATUS_OFFSET \<le> ms_address status_bit
            \<and> relative mod ESC_SYNC_MANAGER_STRIDE = 0
         then c1\<lparr>mb_receive_sync_manager := ucast (relative div ESC_SYNC_MANAGER_STRIDE)\<rparr> else c1)"

definition receive_status_bit :: "mailbox_config \<Rightarrow> mailbox_status_bit" where
  "receive_status_bit c =
     (case mb_status_bit c of Some status \<Rightarrow> status | None \<Rightarrow> sync_manager_mailbox_full (mb_receive_sync_manager c))"

definition has_same_layout :: "mailbox_config \<Rightarrow> mailbox_config \<Rightarrow> bool" where
  "has_same_layout a b \<longleftrightarrow> mb_send_address a = mb_send_address b \<and> mb_send_capacity a = mb_send_capacity b \<and>
     mb_receive_address a = mb_receive_address b \<and> mb_receive_capacity a = mb_receive_capacity b"

datatype mailbox_direction = MdSend | MdReceive

datatype mailbox_config_error = McAddressZero mailbox_direction | McCapacityTooSmall mailbox_direction
  | McCapacityExceeded mailbox_direction | McAddressRangeOverflow mailbox_direction
  | McAddressRangeOverlap | McInvalidStatusBit | McInvalidSyncManager

definition mailbox_range :: "u16 \<Rightarrow> u16 \<Rightarrow> mailbox_direction \<Rightarrow> (mailbox_config_error, nat \<times> nat) result" where
  "mailbox_range address capacity direction =
     (if address = 0 then Err (McAddressZero direction)
      else if unat capacity < MAILBOX_HEADER_LEN then Err (McCapacityTooSmall direction)
      else if MAX_MAILBOX_BYTES < unat capacity then Err (McCapacityExceeded direction)
      else
        let start = unat address; stop = start + unat capacity
        in if 2 ^ 16 < stop then Err (McAddressRangeOverflow direction) else Ok (start, stop))"

definition mailbox_config_validate :: "mailbox_config \<Rightarrow> (mailbox_config_error, unit) result" where
  "mailbox_config_validate c =
     (if MAX_ESC_SYNC_MANAGERS \<le> unat (mb_send_sync_manager c)
         \<or> MAX_ESC_SYNC_MANAGERS \<le> unat (mb_receive_sync_manager c)
         \<or> mb_send_sync_manager c = mb_receive_sync_manager c then Err McInvalidSyncManager
      else case mailbox_range (mb_send_address c) (mb_send_capacity c) MdSend of Inl e \<Rightarrow> Err e | Inr send \<Rightarrow>
      case mailbox_range (mb_receive_address c) (mb_receive_capacity c) MdReceive of Inl e \<Rightarrow> Err e | Inr receive \<Rightarrow>
      if fst send < snd receive \<and> fst receive < snd send then Err McAddressRangeOverlap
      else if (case mb_status_bit c of None \<Rightarrow> False | Some s \<Rightarrow> ms_mask s = 0) then Err McInvalidStatusBit
      else Ok ())"

record mailbox_receive_sync_manager =
  rs_index :: u8
  rs_physical_start :: u16
  rs_length :: u16
  rs_control :: u8

datatype mailbox_receive_sync_manager_error = RmIndexOutOfBounds u8 | RmAddressMismatch u16 u16
  | RmCapacityMismatch u16 u16

definition receive_sync_manager_validate_for ::
  "mailbox_receive_sync_manager \<Rightarrow> mailbox_config \<Rightarrow> (mailbox_receive_sync_manager_error, unit) result" where
  "receive_sync_manager_validate_for s mailbox =
     (if MAX_ESC_SYNC_MANAGERS \<le> unat (rs_index s) then Err (RmIndexOutOfBounds (rs_index s))
      else if rs_physical_start s \<noteq> mb_receive_address mailbox
        then Err (RmAddressMismatch (mb_receive_address mailbox) (rs_physical_start s))
      else if rs_length s \<noteq> mb_receive_capacity mailbox
        then Err (RmCapacityMismatch (mb_receive_capacity mailbox) (rs_length s))
      else Ok ())"

section \<open>The frame of a request\<close>

text \<open>What \<open>start_impl\<close> writes into \<open>send_frame\<close>, and the counter it takes next.\<close>

definition mailbox_send_frame ::
  "u8 \<Rightarrow> mailbox_protocol \<Rightarrow> bytes \<Rightarrow> bytes \<times> (mailbox_error, unit) result" where
  "mailbox_send_frame counter protocol payload =
     (case mailbox_header_encode \<lparr>mh_length = of_nat (length payload), mh_address = 0, mh_priority = 0,
             mh_protocol = protocol, mh_counter = counter\<rparr> (replicate MAX_MAILBOX_BYTES 0) of
        (frame, Inl e) \<Rightarrow> (frame, Err e)
      | (frame, Inr _) \<Rightarrow> (copy_at frame MAILBOX_HEADER_LEN payload, Ok ()))"

definition mailbox_next_counter :: "u8 \<Rightarrow> u8" where
  "mailbox_next_counter counter = (if MAILBOX_COUNTER_MASK \<le> counter then 1 else counter + 1)"

section \<open>The header as a codec\<close>

definition mailbox_header_valid :: "mailbox_header \<Rightarrow> bool" where
  "mailbox_header_valid h \<longleftrightarrow> mh_length h \<le> MAILBOX_LENGTH_MASK \<and> mh_counter h \<le> MAILBOX_COUNTER_MASK"

definition mailbox_header_bytes :: "mailbox_header \<Rightarrow> bytes" where
  "mailbox_header_bytes h = u16_to_le (mh_length h) @ u16_to_le (mh_address h) @
     [mh_priority h, protocol_code (mh_protocol h) OR push_bit 4 (mh_counter h)]"

lemma mailbox_header_encode_bytes:
  assumes "mailbox_header_valid h" "MAILBOX_HEADER_LEN \<le> length dst"
  shows "mailbox_header_encode h dst = (mailbox_header_bytes h @ drop MAILBOX_HEADER_LEN dst, Ok ())"
proof -
  obtain a b c d e f rest where dst: "dst = a # b # c # d # e # f # rest"
    using assms(2) by (auto simp: MAILBOX_HEADER_LEN_def Suc_le_length_iff numeral_eq_Suc)
  show ?thesis
    using assms by (simp add: mailbox_header_encode_def mailbox_header_valid_def not_less dst MAILBOX_HEADER_LEN_def
        mailbox_header_bytes_def copy_at_def u16_to_le_def)
qed

lemma low_mask_u16: "w \<le> MAILBOX_LENGTH_MASK \<Longrightarrow> w AND MAILBOX_LENGTH_MASK = w"
proof -
  assume "w \<le> MAILBOX_LENGTH_MASK"
  then have "unat w < 2 ^ 11" by (simp add: word_le_nat_alt MAILBOX_LENGTH_MASK_def)
  then have "unat (take_bit 11 w) = unat w" by (simp add: unsigned_take_bit_eq take_bit_nat_eq_self_iff)
  then have "take_bit 11 w = w" by (simp add: word_unat_eq_iff)
  moreover have "MAILBOX_LENGTH_MASK = mask 11" by (simp add: MAILBOX_LENGTH_MASK_def mask_eq_exp_minus_1)
  ultimately show ?thesis by (simp add: take_bit_eq_mask)
qed

lemma counter_cases: "(c :: u8) \<le> 7 \<Longrightarrow> c \<in> {0, 1, 2, 3, 4, 5, 6, 7}"
proof -
  assume "c \<le> 7"
  then have "unat c \<le> 7" by (simp add: word_le_nat_alt)
  then have "unat c \<in> {0, 1, 2, 3, 4, 5, 6, 7}" by auto
  then show ?thesis by (simp add: word_unat_eq_iff)
qed

lemma type_counter_parts:
  assumes "c \<le> MAILBOX_COUNTER_MASK"
  shows "protocol_from_u8 ((protocol_code p OR push_bit 4 c) AND 0x0F) = Some p"
    and "drop_bit 4 (protocol_code p OR push_bit 4 c) AND MAILBOX_COUNTER_MASK = c"
  using counter_cases [of c] assms
  by (cases p; auto simp: protocol_from_u8_def MAILBOX_COUNTER_MASK_def)+

interpretation mailbox_codec: byte_codec MAILBOX_HEADER_LEN mailbox_header_valid mailbox_header_bytes mailbox_header_decode
proof (unfold_locales)
  show "length (mailbox_header_bytes h) = MAILBOX_HEADER_LEN" for h
    by (simp add: mailbox_header_bytes_def MAILBOX_HEADER_LEN_def)
  show "mailbox_header_decode (mailbox_header_bytes h @ rest) = Ok h" if "mailbox_header_valid h" for h rest
    using that type_counter_parts [of "mh_counter h" "mh_protocol h"] low_mask_u16 [of "mh_length h"]
    by (simp add: mailbox_header_decode_def mailbox_header_valid_def mailbox_header_bytes_def MAILBOX_HEADER_LEN_def
        u16_to_le_def)
qed

text \<open>A frame whose header announces the length of its payload is parsed into both.\<close>

lemma mailbox_frame_parse_bytes:
  assumes "mailbox_header_valid h" "unat (mh_length h) = length payload" 
  shows "mailbox_frame_parse (mailbox_header_bytes h @ payload @ rest) = Ok \<lparr>mf_header = h, mf_payload = payload\<rparr>"
proof -
  have "unat (mh_length h) < 2 ^ LENGTH(16)" by (rule unat_less)
  then have "usize_checked_add MAILBOX_HEADER_LEN (unat (mh_length h)) = Some (6 + length payload)"
    by (simp add: usize_checked_add_def usize_max_def MAILBOX_HEADER_LEN_def assms(2))
  moreover have "length (mailbox_header_bytes h) = 6"
    using mailbox_codec.encode_size by (simp add: MAILBOX_HEADER_LEN_def)
  ultimately show ?thesis
    by (simp add: mailbox_frame_parse_def mailbox_codec.decode_encode [OF assms(1)] MAILBOX_HEADER_LEN_def subslice_def)
qed

definition request_header :: "u8 \<Rightarrow> mailbox_protocol \<Rightarrow> bytes \<Rightarrow> mailbox_header" where
  "request_header counter protocol payload = \<lparr>mh_length = of_nat (length payload), mh_address = 0,
     mh_priority = 0, mh_protocol = protocol, mh_counter = counter\<rparr>"

lemma request_header_valid:
  assumes "length payload + MAILBOX_HEADER_LEN \<le> MAX_MAILBOX_BYTES" "counter \<le> MAILBOX_COUNTER_MASK"
  shows "mailbox_header_valid (request_header counter protocol payload)"
    and "unat (mh_length (request_header counter protocol payload)) = length payload"
proof -
  have "length payload < 2 ^ LENGTH(16)" using assms(1) by (simp add: mailbox_lengths)
  then have u: "unat (of_nat (length payload) :: u16) = length payload"
    by (simp add: unsigned_of_nat take_bit_nat_eq_self_iff)
  then show "unat (mh_length (request_header counter protocol payload)) = length payload"
    by (simp add: request_header_def)
  show "mailbox_header_valid (request_header counter protocol payload)"
    using assms u by (simp add: mailbox_header_valid_def request_header_def word_le_nat_alt mailbox_lengths
        MAILBOX_LENGTH_MASK_def)
qed

lemma mailbox_send_frame_bytes:
  assumes "length payload + MAILBOX_HEADER_LEN \<le> MAX_MAILBOX_BYTES" "counter \<le> MAILBOX_COUNTER_MASK"
  shows "mailbox_send_frame counter protocol payload =
    (mailbox_header_bytes (request_header counter protocol payload) @ payload @
       replicate (MAX_MAILBOX_BYTES - MAILBOX_HEADER_LEN - length payload) 0, Ok ())"
proof -
  have "length (mailbox_header_bytes (request_header counter protocol payload)) = 6"
    using mailbox_codec.encode_size by (simp add: MAILBOX_HEADER_LEN_def)
  then show ?thesis
    using mailbox_header_encode_bytes [OF request_header_valid(1) [OF assms], of "replicate MAX_MAILBOX_BYTES 0"]
    by (simp add: mailbox_send_frame_def request_header_def [symmetric] mailbox_lengths copy_at_def)
qed

lemma mailbox_next_counter_range: "mailbox_next_counter counter \<le> MAILBOX_COUNTER_MASK"
proof -
  have "counter + 1 \<le> 7" if "counter < 7"
    using that counter_cases [of counter] less_imp_le [OF that] by auto
  then show ?thesis by (auto simp: mailbox_next_counter_def MAILBOX_COUNTER_MASK_def)
qed

end
