(* ===== verification/Sdo_Transfer.thy ===== *)
theory Sdo_Transfer
  imports Diagnostics Mailbox_Wire
begin

text \<open>
  The CoE codec and the transfer of objects by SDO (\<open>coe.rs\<close>): headers, emergency messages, the
  parser of responses, and the transfer state machine for uploads and downloads, expedited,
  normal and segmented. A slice whose range the source has checked, or that its buffers always
  contain, is written with \<open>subslice\<close> and \<open>copy_at\<close>.
\<close>

definition COE_HEADER_LEN :: nat where "COE_HEADER_LEN = 2"
definition SDO_DATA_OFFSET :: nat where "SDO_DATA_OFFSET = 6"
definition MAX_SDO_DATA :: nat where "MAX_SDO_DATA = MAX_MAILBOX_BYTES - SDO_DATA_OFFSET"
definition MAX_SDO_SEGMENT_BYTES :: nat where "MAX_SDO_SEGMENT_BYTES = 7"
definition COE_EMERGENCY_LEN :: nat where "COE_EMERGENCY_LEN = 10"
definition SDO_INITIATE_LEN :: nat where "SDO_INITIATE_LEN = COE_HEADER_LEN + 8"
definition MAX_COE_PAYLOAD_BYTES :: nat where
  "MAX_COE_PAYLOAD_BYTES = MAX_MAILBOX_BYTES - MAILBOX_HEADER_LEN"

lemmas coe_lengths = mailbox_lengths COE_HEADER_LEN_def
  SDO_DATA_OFFSET_def MAX_SDO_SEGMENT_BYTES_def COE_EMERGENCY_LEN_def SDO_INITIATE_LEN_def MAX_COE_PAYLOAD_BYTES_def

definition SDO_UPLOAD_REQUEST :: u8 where "SDO_UPLOAD_REQUEST = 0x40"
definition SDO_DOWNLOAD_EXPEDITED :: u8 where "SDO_DOWNLOAD_EXPEDITED = 0x23"
definition SDO_DOWNLOAD_NORMAL :: u8 where "SDO_DOWNLOAD_NORMAL = 0x21"
definition SDO_ABORT :: u8 where "SDO_ABORT = 0x80"
definition SDO_DOWNLOAD_RESPONSE :: u8 where "SDO_DOWNLOAD_RESPONSE = 0x60"
definition SDO_UPLOAD_SEGMENT_REQUEST :: u8 where "SDO_UPLOAD_SEGMENT_REQUEST = 0x60"
definition SDO_DOWNLOAD_SEGMENT_RESPONSE :: u8 where "SDO_DOWNLOAD_SEGMENT_RESPONSE = 0x20"
definition SDO_COMPLETE_ACCESS :: u8 where "SDO_COMPLETE_ACCESS = 0x10"

lemmas sdo_commands = SDO_UPLOAD_REQUEST_def SDO_DOWNLOAD_EXPEDITED_def SDO_DOWNLOAD_NORMAL_def SDO_ABORT_def
  SDO_DOWNLOAD_RESPONSE_def SDO_UPLOAD_SEGMENT_REQUEST_def SDO_DOWNLOAD_SEGMENT_RESPONSE_def SDO_COMPLETE_ACCESS_def

section \<open>Headers and emergency messages\<close>

datatype coe_service = CoeSvcEmergency | SvcSdoRequest | SvcSdoResponse | SvcTxPdo | SvcRxPdo | SvcTxPdoRemote
  | SvcRxPdoRemote | SvcSdoInformation

fun service_code :: "coe_service \<Rightarrow> u8" where
  "service_code CoeSvcEmergency = 0x01"
| "service_code SvcSdoRequest = 0x02"
| "service_code SvcSdoResponse = 0x03"
| "service_code SvcTxPdo = 0x04"
| "service_code SvcRxPdo = 0x05"
| "service_code SvcTxPdoRemote = 0x06"
| "service_code SvcRxPdoRemote = 0x07"
| "service_code SvcSdoInformation = 0x08"

definition service_from_u8 :: "u8 \<Rightarrow> coe_service option" where
  "service_from_u8 v =
     (if v = 0x01 then Some CoeSvcEmergency else if v = 0x02 then Some SvcSdoRequest
      else if v = 0x03 then Some SvcSdoResponse else if v = 0x04 then Some SvcTxPdo
      else if v = 0x05 then Some SvcRxPdo else if v = 0x06 then Some SvcTxPdoRemote
      else if v = 0x07 then Some SvcRxPdoRemote else if v = 0x08 then Some SvcSdoInformation else None)"

datatype sdo_error = SdoBusy | SdoInvalidState | SdoBufferTooSmall | SdoPayloadTooLarge | SdoTruncated
  | SdoHeaderOutOfBounds | SdoUnknownService | SdoWrongService | SdoUnexpectedCommand | SdoIndexMismatch
  | SdoSubindexMismatch | SdoToggleMismatch | SdoSizeMismatch | SdoSegmentMalformed | SdoCompleteAccessDisabled
  | SdoInvalidCompleteAccessSubindex | SdoCompleteAccessMismatch | SdoTimeout | SdoAbort u32

record coe_header =
  ch_number :: u8
  ch_service :: coe_service

definition coe_header_encode :: "coe_header \<Rightarrow> bytes \<Rightarrow> bytes \<times> (sdo_error, unit) result" where
  "coe_header_encode h dst =
     (if length dst < COE_HEADER_LEN then (dst, Err SdoBufferTooSmall)
      else if 0x0F < ch_number h then (dst, Err SdoHeaderOutOfBounds)
      else (dst[0 := ch_number h, 1 := push_bit 4 (service_code (ch_service h))], Ok ()))"

definition coe_header_decode :: "bytes \<Rightarrow> (sdo_error, coe_header) result" where
  "coe_header_decode src =
     (if length src < COE_HEADER_LEN then Err SdoTruncated
      else case service_from_u8 (drop_bit 4 (src ! 1)) of
        None \<Rightarrow> Err SdoUnknownService
      | Some service \<Rightarrow> Ok \<lparr>ch_number = src ! 0 AND 0x0F, ch_service = service\<rparr>)"

definition coe_emergency_parse :: "bytes \<Rightarrow> (sdo_error, coe_emergency) result" where
  "coe_emergency_parse payload =
     (case coe_header_decode payload of
        Inl e \<Rightarrow> Err e
      | Inr header \<Rightarrow>
          if ch_service header \<noteq> CoeSvcEmergency then Err SdoWrongService
          else if length payload < COE_EMERGENCY_LEN then Err SdoTruncated
          else Ok \<lparr>ce_error_code = u16_from_le (payload ! 2) (payload ! 3), ce_error_register = payload ! 4,
                   ce_manufacturer_data = subslice payload 5 COE_EMERGENCY_LEN\<rparr>)"

section \<open>Responses\<close>

datatype sdo_direction = SdoUpload | SdoDownload

datatype sdo_access = SdoSingle | SdoComplete

record sdo_access_policy =
  sap_complete_access_enabled :: bool

definition policy_permits :: "sdo_access_policy \<Rightarrow> sdo_access \<Rightarrow> bool" where
  "policy_permits p access \<longleftrightarrow> access = SdoSingle \<or> sap_complete_access_enabled p"

datatype sdo_phase = SdoIdle | SdoAwaitInitiate | SdoAwaitSegment | SdoPhComplete | SdoAborted | SdoFaulted

datatype sdo_progress = SdoAdvanced | SdoPrComplete

record sdo_response =
  sr_index :: "u16 option"
  sr_subindex :: "u8 option"
  sr_data :: bytes
  sr_total_size :: "nat option"
  sr_toggle :: bool
  sr_last :: bool
  sr_abort_code :: "u32 option"
  sr_command :: u8
  sr_complete_access :: "bool option"

definition response_index :: "bytes \<Rightarrow> u16" where
  "response_index payload = u16_from_le (payload ! 3) (payload ! 4)"

definition response_u32 :: "bytes \<Rightarrow> u32" where
  "response_u32 payload = u32_from_le (payload ! 6) (payload ! 7) (payload ! 8) (payload ! 9)"

definition parse_abort :: "bytes \<Rightarrow> (sdo_error, sdo_response) result" where
  "parse_abort payload =
     (if length payload < SDO_DATA_OFFSET + 4 then Err SdoTruncated
      else Ok \<lparr>sr_index = Some (response_index payload), sr_subindex = Some (payload ! 5), sr_data = [],
        sr_total_size = None, sr_toggle = False, sr_last = True, sr_abort_code = Some (response_u32 payload),
        sr_command = payload ! 2, sr_complete_access = None\<rparr>)"

definition parse_upload_initiate :: "bytes \<Rightarrow> (sdo_error, sdo_response) result" where
  "parse_upload_initiate payload =
     (let command = payload ! 2
      in if length payload < SDO_INITIATE_LEN then Err SdoTruncated
         else if command AND 0x02 \<noteq> 0 then
           let data_len = (if command AND 0x01 \<noteq> 0 then 4 - unat (drop_bit 2 command AND 0x03) else 4)
           in Ok \<lparr>sr_index = Some (response_index payload), sr_subindex = Some (payload ! 5),
                sr_data = subslice payload SDO_DATA_OFFSET (SDO_DATA_OFFSET + data_len),
                sr_total_size = None, sr_toggle = False, sr_last = True, sr_abort_code = None,
                sr_command = command, sr_complete_access = Some (command AND SDO_COMPLETE_ACCESS \<noteq> 0)\<rparr>
         else if command AND 0x01 \<noteq> 0 \<and> length payload < SDO_DATA_OFFSET + 4 then Err SdoTruncated
         else Ok \<lparr>sr_index = Some (response_index payload), sr_subindex = Some (payload ! 5),
                sr_data = drop SDO_INITIATE_LEN payload,
                sr_total_size = (if command AND 0x01 \<noteq> 0 then Some (unat (response_u32 payload)) else None),
                sr_toggle = False, sr_last = False, sr_abort_code = None,
                sr_command = command, sr_complete_access = Some (command AND SDO_COMPLETE_ACCESS \<noteq> 0)\<rparr>)"

definition parse_download_response :: "bytes \<Rightarrow> (sdo_error, sdo_response) result" where
  "parse_download_response payload =
     (if length payload < SDO_DATA_OFFSET then Err SdoTruncated
      else Ok \<lparr>sr_index = Some (response_index payload), sr_subindex = Some (payload ! 5), sr_data = [],
        sr_total_size = None, sr_toggle = False, sr_last = True, sr_abort_code = None,
        sr_command = payload ! 2, sr_complete_access = None\<rparr>)"

definition parse_upload_segment :: "bytes \<Rightarrow> (sdo_error, sdo_response) result" where
  "parse_upload_segment payload =
     (let command = payload ! 2;
          unused = unat (drop_bit 1 command AND 0x07);
          segment_len = length payload - 3
      in if segment_len < MAX_SDO_SEGMENT_BYTES \<or>
            (unused \<noteq> 0 \<and> (command AND 0x01 = 0 \<or> segment_len \<noteq> MAX_SDO_SEGMENT_BYTES))
         then Err SdoSegmentMalformed
         else
           let data_len = (if command AND 0x01 \<noteq> 0 then segment_len - unused else segment_len)
           in Ok \<lparr>sr_index = None, sr_subindex = None, sr_data = subslice payload 3 (3 + data_len),
                sr_total_size = None, sr_toggle = (command AND 0x10 \<noteq> 0), sr_last = (command AND 0x01 \<noteq> 0),
                sr_abort_code = None, sr_command = command, sr_complete_access = None\<rparr>)"

definition parse_download_segment :: "bytes \<Rightarrow> (sdo_error, sdo_response) result" where
  "parse_download_segment payload =
     (let command = payload ! 2
      in if command AND 0x0F \<noteq> 0 then Err SdoSegmentMalformed
         else Ok \<lparr>sr_index = None, sr_subindex = None, sr_data = [], sr_total_size = None,
           sr_toggle = (command AND 0x10 \<noteq> 0), sr_last = True, sr_abort_code = None,
           sr_command = command, sr_complete_access = None\<rparr>)"

definition sdo_response_parse :: "bytes \<Rightarrow> (sdo_error, sdo_response) result" where
  "sdo_response_parse payload =
     (case coe_header_decode payload of
        Inl e \<Rightarrow> Err e
      | Inr header \<Rightarrow>
          if ch_service header \<noteq> SvcSdoResponse then Err SdoWrongService
          else if length payload < 3 then Err SdoTruncated
          else
            let command = payload ! 2
            in if command = SDO_ABORT then parse_abort payload
               else if command AND 0xE0 = 0x40 then parse_upload_initiate payload
               else if command = SDO_DOWNLOAD_RESPONSE then parse_download_response payload
               else if command AND 0xE0 = 0 then parse_upload_segment payload
               else if command AND 0xE0 = SDO_DOWNLOAD_SEGMENT_RESPONSE then parse_download_segment payload
               else Err SdoUnexpectedCommand)"

section \<open>Transfers\<close>

record sdo_transfer =
  st_phase :: sdo_phase
  st_direction :: sdo_direction
  st_index :: u16
  st_subindex :: u8
  st_access :: sdo_access
  st_access_policy :: sdo_access_policy
  st_data :: bytes
  st_data_len :: nat
  st_expected_size :: "nat option"
  st_offset :: nat
  st_toggle :: bool
  st_pending :: bytes
  st_pending_len :: nat
  st_abort_code :: "u32 option"
  st_last_error :: "sdo_error option"
  st_capacity :: nat

definition sdo_with_policy :: "nat \<Rightarrow> sdo_access_policy \<Rightarrow> sdo_transfer" where
  "sdo_with_policy OBJECT_BYTES policy = \<lparr>st_phase = SdoIdle, st_direction = SdoUpload, st_index = 0,
     st_subindex = 0, st_access = SdoSingle, st_access_policy = policy, st_data = replicate OBJECT_BYTES 0,
     st_data_len = 0, st_expected_size = None, st_offset = 0, st_toggle = False,
     st_pending = replicate MAX_MAILBOX_BYTES 0, st_pending_len = 0, st_abort_code = None,
     st_last_error = None, st_capacity = MAX_COE_PAYLOAD_BYTES\<rparr>"

definition sdo_with_capacity :: "nat \<Rightarrow> sdo_access_policy \<Rightarrow> nat \<Rightarrow> (sdo_error, sdo_transfer) result" where
  "sdo_with_capacity OBJECT_BYTES policy capacity =
     (if capacity < SDO_INITIATE_LEN \<or> MAX_COE_PAYLOAD_BYTES < capacity then Err SdoBufferTooSmall
      else Ok ((sdo_with_policy OBJECT_BYTES policy)\<lparr>st_capacity := capacity\<rparr>))"

definition sdo_data_len :: "sdo_transfer \<Rightarrow> nat" where
  "sdo_data_len t = (if st_phase t = SdoPhComplete then st_data_len t else 0)"

definition sdo_data :: "sdo_transfer \<Rightarrow> bytes" where
  "sdo_data t = take (sdo_data_len t) (st_data t)"

definition sdo_request :: "sdo_transfer \<Rightarrow> bytes option" where
  "sdo_request t = (if st_pending_len t = 0 then None else Some (take (st_pending_len t) (st_pending t)))"

definition sdo_fail :: "sdo_transfer \<Rightarrow> sdo_error \<Rightarrow> sdo_transfer \<times> (sdo_error, sdo_progress) result" where
  "sdo_fail t e = (t\<lparr>st_phase := SdoFaulted, st_pending_len := 0, st_last_error := Some e\<rparr>, Err e)"

definition sdo_complete :: "sdo_transfer \<Rightarrow> sdo_transfer" where
  "sdo_complete t = t\<lparr>st_phase := SdoPhComplete, st_pending_len := 0\<rparr>"

definition sdo_begin ::
  "sdo_transfer \<Rightarrow> sdo_direction \<Rightarrow> u16 \<Rightarrow> u8 \<Rightarrow> sdo_access \<Rightarrow> bytes \<Rightarrow> sdo_transfer \<times> (sdo_error, unit) result" where
  "sdo_begin t direction index subindex access data =
     (if st_phase t = SdoAwaitInitiate \<or> st_phase t = SdoAwaitSegment then (t, Err SdoBusy)
      else if length (st_data t) < length data \<or> 2 ^ 32 - 1 < length data then (t, Err SdoPayloadTooLarge)
      else if \<not> policy_permits (st_access_policy t) access then (t, Err SdoCompleteAccessDisabled)
      else if access = SdoComplete \<and> 1 < subindex then (t, Err SdoInvalidCompleteAccessSubindex)
      else (t\<lparr>st_phase := SdoAwaitInitiate, st_direction := direction, st_index := index, st_subindex := subindex,
              st_access := access, st_data := copy_at (replicate (length (st_data t)) 0) 0 data,
              st_data_len := length data, st_expected_size := None, st_offset := 0, st_toggle := False,
              st_pending := replicate (length (st_pending t)) 0, st_pending_len := 0,
              st_abort_code := None, st_last_error := None\<rparr>, Ok ()))"

definition check_object :: "sdo_transfer \<Rightarrow> u16 option \<Rightarrow> u8 option \<Rightarrow> (sdo_error, unit) result" where
  "check_object t index subindex =
     (if index \<noteq> Some (st_index t) then Err SdoIndexMismatch
      else if subindex \<noteq> Some (st_subindex t) then Err SdoSubindexMismatch else Ok ())"

text \<open>\<open>CoeHeader { number: 0, service }.encode(&mut self.pending[..COE_HEADER_LEN])\<close>, whose result is
  discarded.\<close>

definition put_header :: "bytes \<Rightarrow> coe_service \<Rightarrow> bytes" where
  "put_header pending service =
     copy_at pending 0 (fst (coe_header_encode \<lparr>ch_number = 0, ch_service = service\<rparr> (take COE_HEADER_LEN pending)))"

definition write_common_header :: "sdo_transfer \<Rightarrow> coe_service \<Rightarrow> u8 \<Rightarrow> sdo_transfer" where
  "write_common_header t service command =
     t\<lparr>st_pending := (copy_at ((put_header (st_pending t) service)[2 := command]) 3 (u16_to_le (st_index t)))[5 := st_subindex t]\<rparr>"

definition complete_access_bit :: "sdo_transfer \<Rightarrow> u8" where
  "complete_access_bit t = (if st_access t = SdoComplete then SDO_COMPLETE_ACCESS else 0)"

definition build_upload_initiate :: "sdo_transfer \<Rightarrow> sdo_transfer" where
  "build_upload_initiate t =
     (let t1 = write_common_header t SvcSdoRequest (SDO_UPLOAD_REQUEST OR complete_access_bit t)
      in t1\<lparr>st_pending := copy_at (st_pending t1) SDO_DATA_OFFSET (replicate (SDO_INITIATE_LEN - SDO_DATA_OFFSET) 0),
            st_pending_len := SDO_INITIATE_LEN\<rparr>)"

definition build_download_expedited :: "sdo_transfer \<Rightarrow> sdo_transfer" where
  "build_download_expedited t =
     (let unused = 4 - st_data_len t;
          t1 = write_common_header t SvcSdoRequest
            (SDO_DOWNLOAD_EXPEDITED OR push_bit 2 (of_nat unused) OR complete_access_bit t)
      in t1\<lparr>st_pending := copy_at (copy_at (st_pending t1) SDO_DATA_OFFSET (replicate 4 0))
              SDO_DATA_OFFSET (take (st_data_len t) (st_data t)),
            st_pending_len := SDO_DATA_OFFSET + 4, st_offset := st_data_len t\<rparr>)"

definition build_download_initiate :: "sdo_transfer \<Rightarrow> sdo_transfer" where
  "build_download_initiate t =
     (let t1 = write_common_header t SvcSdoRequest (SDO_DOWNLOAD_NORMAL OR complete_access_bit t);
          initial_len = min (st_data_len t) (st_capacity t - SDO_INITIATE_LEN)
      in t1\<lparr>st_pending := copy_at (copy_at (st_pending t1) SDO_DATA_OFFSET (u32_to_le (of_nat (st_data_len t))))
              SDO_INITIATE_LEN (take initial_len (st_data t)),
            st_pending_len := SDO_INITIATE_LEN + initial_len, st_offset := initial_len\<rparr>)"

definition build_upload_segment_request :: "sdo_transfer \<Rightarrow> sdo_transfer" where
  "build_upload_segment_request t =
     (let command = SDO_UPLOAD_SEGMENT_REQUEST OR (if st_toggle t then 0x10 else 0)
      in t\<lparr>st_pending := copy_at ((put_header (st_pending t) SvcSdoRequest)[2 := command]) 3 (replicate (SDO_INITIATE_LEN - 3) 0),
           st_pending_len := SDO_INITIATE_LEN, st_phase := SdoAwaitSegment\<rparr>)"

definition build_download_segment :: "sdo_transfer \<Rightarrow> sdo_transfer" where
  "build_download_segment t =
     (let remaining = st_data_len t - st_offset t;
          segment_len = min remaining (st_capacity t - 3);
          is_last = (segment_len = remaining);
          unused = (if is_last \<and> segment_len < MAX_SDO_SEGMENT_BYTES then MAX_SDO_SEGMENT_BYTES - segment_len else 0);
          command = (if st_toggle t then 0x10 else 0) OR push_bit 1 (of_nat unused) OR (if is_last then 1 else 0);
          body_len = max segment_len MAX_SDO_SEGMENT_BYTES
      in t\<lparr>st_pending := copy_at (copy_at ((put_header (st_pending t) SvcSdoRequest)[2 := command]) 3 (replicate body_len 0))
             3 (subslice (st_data t) (st_offset t) (st_offset t + segment_len)),
           st_pending_len := 3 + body_len, st_offset := st_offset t + segment_len, st_phase := SdoAwaitSegment\<rparr>)"

definition start_upload ::
  "sdo_transfer \<Rightarrow> u16 \<Rightarrow> u8 \<Rightarrow> sdo_access \<Rightarrow> sdo_transfer \<times> (sdo_error, unit) result" where
  "start_upload t index subindex access =
     (case sdo_begin t SdoUpload index subindex access [] of
        (t1, Inl e) \<Rightarrow> (t1, Err e)
      | (t1, Inr _) \<Rightarrow> (build_upload_initiate t1, Ok ()))"

definition start_download ::
  "sdo_transfer \<Rightarrow> u16 \<Rightarrow> u8 \<Rightarrow> bytes \<Rightarrow> sdo_access \<Rightarrow> sdo_transfer \<times> (sdo_error, unit) result" where
  "start_download t index subindex data access =
     (case sdo_begin t SdoDownload index subindex access data of
        (t1, Inl e) \<Rightarrow> (t1, Err e)
      | (t1, Inr _) \<Rightarrow>
          (if data \<noteq> [] \<and> length data \<le> 4 then build_download_expedited t1 else build_download_initiate t1, Ok ()))"

definition store_upload_data :: "sdo_transfer \<Rightarrow> bytes \<Rightarrow> sdo_transfer \<times> (sdo_error, unit) result" where
  "store_upload_data t data =
     (if length (st_data t) - st_data_len t < length data then (t, Err SdoPayloadTooLarge)
      else if (case st_expected_size t of None \<Rightarrow> False | Some sz \<Rightarrow> sz - st_data_len t < length data)
        then (t, Err SdoSizeMismatch)
      else (t\<lparr>st_data := copy_at (st_data t) (st_data_len t) data, st_data_len := st_data_len t + length data\<rparr>, Ok ()))"

text \<open>The four arms of \<open>accept_response\<close>.\<close>

definition accept_upload_initiate :: "sdo_transfer \<Rightarrow> sdo_response \<Rightarrow> sdo_transfer \<times> (sdo_error, sdo_progress) result" where
  "accept_upload_initiate t r =
     (if sr_command r AND 0xE0 \<noteq> 0x40 then sdo_fail t SdoUnexpectedCommand
      else case check_object t (sr_index r) (sr_subindex r) of Inl e \<Rightarrow> sdo_fail t e | Inr _ \<Rightarrow>
      if sr_complete_access r \<noteq> Some (st_access t = SdoComplete) then sdo_fail t SdoCompleteAccessMismatch
      else if sr_command r AND 0x02 \<noteq> 0 then
        (case store_upload_data t (sr_data r) of
           (t1, Inl e) \<Rightarrow> sdo_fail t1 e
         | (t1, Inr _) \<Rightarrow>
             (sdo_complete (t1\<lparr>st_expected_size := Some (length (sr_data r))\<rparr>), Ok SdoPrComplete))
      else if (case sr_total_size r of None \<Rightarrow> False | Some sz \<Rightarrow> length (st_data t) < sz)
        then sdo_fail t SdoPayloadTooLarge
      else
        (case store_upload_data (t\<lparr>st_expected_size := sr_total_size r\<rparr>) (sr_data r) of
           (t1, Inl e) \<Rightarrow> sdo_fail t1 e
         | (t1, Inr _) \<Rightarrow>
             if st_expected_size t1 = Some (st_data_len t1) then (sdo_complete t1, Ok SdoPrComplete)
             else (build_upload_segment_request (t1\<lparr>st_toggle := False\<rparr>), Ok SdoAdvanced)))"

definition accept_download_initiate :: "sdo_transfer \<Rightarrow> sdo_response \<Rightarrow> sdo_transfer \<times> (sdo_error, sdo_progress) result" where
  "accept_download_initiate t r =
     (case check_object t (sr_index r) (sr_subindex r) of Inl e \<Rightarrow> sdo_fail t e | Inr _ \<Rightarrow>
      if sr_command r \<noteq> SDO_DOWNLOAD_RESPONSE then sdo_fail t SdoUnexpectedCommand
      else if st_data_len t \<le> st_offset t then (sdo_complete t, Ok SdoPrComplete)
      else (build_download_segment (t\<lparr>st_toggle := False\<rparr>), Ok SdoAdvanced))"

definition accept_upload_segment :: "sdo_transfer \<Rightarrow> sdo_response \<Rightarrow> sdo_transfer \<times> (sdo_error, sdo_progress) result" where
  "accept_upload_segment t r =
     (if sr_index r \<noteq> None \<or> sr_subindex r \<noteq> None \<or> sr_command r AND 0xE0 \<noteq> 0 then sdo_fail t SdoUnexpectedCommand
      else if sr_toggle r \<noteq> st_toggle t then sdo_fail t SdoToggleMismatch
      else case store_upload_data t (sr_data r) of
        (t1, Inl e) \<Rightarrow> sdo_fail t1 e
      | (t1, Inr _) \<Rightarrow>
          if sr_last r then
            (if (case st_expected_size t1 of None \<Rightarrow> False | Some sz \<Rightarrow> sz \<noteq> st_data_len t1)
             then sdo_fail t1 SdoSizeMismatch else (sdo_complete t1, Ok SdoPrComplete))
          else (build_upload_segment_request (t1\<lparr>st_toggle := \<not> st_toggle t1\<rparr>), Ok SdoAdvanced))"

definition accept_download_segment :: "sdo_transfer \<Rightarrow> sdo_response \<Rightarrow> sdo_transfer \<times> (sdo_error, sdo_progress) result" where
  "accept_download_segment t r =
     (if sr_index r \<noteq> None \<or> sr_subindex r \<noteq> None then sdo_fail t SdoUnexpectedCommand
      else if sr_command r AND 0xE0 \<noteq> SDO_DOWNLOAD_SEGMENT_RESPONSE then sdo_fail t SdoUnexpectedCommand
      else if sr_toggle r \<noteq> st_toggle t then sdo_fail t SdoToggleMismatch
      else if st_data_len t \<le> st_offset t then (sdo_complete t, Ok SdoPrComplete)
      else (build_download_segment (t\<lparr>st_toggle := \<not> st_toggle t\<rparr>), Ok SdoAdvanced))"

definition accept_response :: "sdo_transfer \<Rightarrow> bytes \<Rightarrow> sdo_transfer \<times> (sdo_error, sdo_progress) result" where
  "accept_response t payload =
     (if st_phase t \<noteq> SdoAwaitInitiate \<and> st_phase t \<noteq> SdoAwaitSegment then (t, Err SdoInvalidState)
      else if MAX_COE_PAYLOAD_BYTES < length payload then sdo_fail t SdoPayloadTooLarge
      else case sdo_response_parse payload of
        Inl e \<Rightarrow> sdo_fail t e
      | Inr r \<Rightarrow>
          (case sr_abort_code r of
             Some code \<Rightarrow>
               (case check_object t (sr_index r) (sr_subindex r) of
                  Inl e \<Rightarrow> sdo_fail t e
                | Inr _ \<Rightarrow>
                    (t\<lparr>st_phase := SdoAborted, st_pending_len := 0, st_abort_code := Some code,
                       st_last_error := Some (SdoAbort code)\<rparr>, Err (SdoAbort code)))
           | None \<Rightarrow>
               if st_phase t = SdoAwaitInitiate then
                 (if st_direction t = SdoUpload then accept_upload_initiate t r else accept_download_initiate t r)
               else
                 (if st_direction t = SdoUpload then accept_upload_segment t r else accept_download_segment t r)))"

definition sdo_terminate :: "sdo_transfer \<Rightarrow> sdo_error \<Rightarrow> sdo_transfer \<times> (sdo_error, unit) result" where
  "sdo_terminate t e =
     (if st_phase t \<noteq> SdoAwaitInitiate \<and> st_phase t \<noteq> SdoAwaitSegment then (t, Err SdoInvalidState)
      else (t\<lparr>st_phase := SdoFaulted, st_pending_len := 0, st_last_error := Some e\<rparr>, Ok ()))"

end
