(* ===== verification/Sim_Esc.thy ===== *)
theory Sim_Esc
  imports Esop_Prelude
begin

text \<open>
  The mailbox of the simulated slave (\<open>esop-ethercat-sim/src/esc.rs\<close>): the two mailbox buffers with
  their sync managers, the object dictionary, and the server that answers SDO transfers and object
  information requests. The master's tests run against it. Of the record \<open>Esc\<close> the fields of the
  mailbox and the dictionary are kept; registers, process data and the drive are left out. A small
  and a large object have the same fields, with counts as natural numbers.
\<close>

definition MAX_OBJECT_BYTES :: nat where "MAX_OBJECT_BYTES = 1024"
definition SIM_MAILBOX :: nat where "SIM_MAILBOX = 128"
definition SMALL_OBJECTS :: nat where "SMALL_OBJECTS = 64"
definition RAM_BYTES :: nat where "RAM_BYTES = 128"

lemmas sim_sizes = MAX_OBJECT_BYTES_def SIM_MAILBOX_def SMALL_OBJECTS_def RAM_BYTES_def

datatype sim_error = SimObjectCapacity | SimMailboxFull

record sim_object =
  so_index :: u16
  so_sub :: u8
  so_len :: nat
  so_data :: bytes

definition object_empty :: sim_object where
  "object_empty = \<lparr>so_index = 0, so_sub = 0, so_len = 0, so_data = replicate 8 0\<rparr>"

definition large_object_empty :: sim_object where
  "large_object_empty = \<lparr>so_index = 0, so_sub = 0, so_len = 0, so_data = replicate MAX_OBJECT_BYTES 0\<rparr>"

record sim_transfer =
  tr_active :: bool
  tr_upload :: bool
  tr_index :: u16
  tr_sub :: u8
  tr_len :: nat
  tr_offset :: nat
  tr_toggle :: bool
  tr_data :: bytes

definition transfer_empty :: sim_transfer where
  "transfer_empty = \<lparr>tr_active = False, tr_upload = False, tr_index = 0, tr_sub = 0, tr_len = 0,
     tr_offset = 0, tr_toggle = False, tr_data = replicate MAX_OBJECT_BYTES 0\<rparr>"

record esc =
  es_sm :: "bytes list"
  es_send :: bytes
  es_receive :: bytes
  es_previous :: bytes
  es_send_full :: bool
  es_receive_full :: bool
  es_previous_valid :: bool
  es_objects :: "sim_object list"
  es_large :: "sim_object list"
  es_transfer :: sim_transfer
  es_online :: bool
  es_repeat_ack :: bool
  es_counter :: u8
  es_repeats :: u64

section \<open>Sync managers\<close>

definition sm_start :: "esc \<Rightarrow> nat \<Rightarrow> nat" where
  "sm_start e i = unat (u16_from_le (es_sm e ! i ! 0) (es_sm e ! i ! 1))"

definition sm_len :: "esc \<Rightarrow> nat \<Rightarrow> nat" where
  "sm_len e i = unat (u16_from_le (es_sm e ! i ! 2) (es_sm e ! i ! 3))"

definition sm_enabled :: "esc \<Rightarrow> nat \<Rightarrow> bool" where
  "sm_enabled e i \<longleftrightarrow> es_sm e ! i ! 6 AND 1 \<noteq> 0 \<and> es_sm e ! i ! 7 AND 1 = 0 \<and> 0 < sm_len e i \<and> sm_len e i \<le> RAM_BYTES"

text \<open>The branches of \<open>write\<close> and \<open>read\<close> for an address inside a mailbox; \<open>None\<close> where they return
  false.\<close>

definition mailbox_write :: "esc \<Rightarrow> nat \<Rightarrow> bytes \<Rightarrow> esc option" where
  "mailbox_write e address data =
     (let offset = address - sm_start e 0
      in if \<not> sm_enabled e 0 \<or> es_send_full e \<or> sm_len e 0 < offset + length data then None
         else
           let e1 = e\<lparr>es_send := copy_at (es_send e) offset data\<rparr>
           in Some (if offset + length data = sm_len e 0 then e1\<lparr>es_send_full := True\<rparr> else e1))"

definition mailbox_read :: "esc \<Rightarrow> nat \<Rightarrow> nat \<Rightarrow> (esc \<times> bytes) option" where
  "mailbox_read e address n =
     (let offset = address - sm_start e 1
      in if \<not> sm_enabled e 1 \<or> sm_len e 1 < offset + n \<or> \<not> es_receive_full e then None
         else
           let data = subslice (es_receive e) offset (offset + n)
           in Some (if offset + n = sm_len e 1 then e\<lparr>es_receive_full := False\<rparr> else e, data))"

text \<open>The sync manager registers, \<open>0x800\<close> to \<open>0x87f\<close>, of \<open>raw_read\<close> and \<open>raw_write\<close>. The status of the
  mailboxes is computed; a change of the repeat request bit makes the previous message available again.\<close>

definition mailbox_status :: "esc \<Rightarrow> nat \<Rightarrow> u8" where
  "mailbox_status e sm = (if (sm = 0 \<and> es_send_full e) \<or> (sm = 1 \<and> es_receive_full e) then 8 else 0)"

definition sm_register :: "esc \<Rightarrow> nat \<Rightarrow> u8" where
  "sm_register e a =
     (let sm = (a - 0x800) div 8; offset = a mod 8
      in if offset = 5 \<and> sm < 2 then mailbox_status e sm else es_sm e ! sm ! offset)"

definition set_sm :: "esc \<Rightarrow> nat \<Rightarrow> nat \<Rightarrow> u8 \<Rightarrow> esc" where
  "set_sm e sm offset value = e\<lparr>es_sm := (es_sm e)[sm := (es_sm e ! sm)[offset := value]]\<rparr>"

definition sm_register_write :: "esc \<Rightarrow> nat \<Rightarrow> u8 \<Rightarrow> esc" where
  "sm_register_write e a value =
     (let sm = (a - 0x800) div 8; offset = a mod 8;
          e1 = (if offset \<noteq> 5 then set_sm e sm offset (if offset = 6 then value AND 0xc3 else value) else e)
      in if sm = 1 \<and> offset = 6 \<and> es_repeat_ack e1 \<and> value AND 2 \<noteq> es_sm e1 ! 1 ! 7 AND 2 then
           let e2 = set_sm e1 1 7 ((es_sm e1 ! 1 ! 7 AND NOT 2) OR (value AND 2))
           in if es_previous_valid e2
              then e2\<lparr>es_receive := es_previous e2, es_receive_full := True, es_repeats := sat_add (es_repeats e2) 1\<rparr>
              else e2
         else e1)"

text \<open>\<open>read\<close> and \<open>write\<close> for addresses inside a mailbox or the sync manager registers; the process data
  buffers, which the source looks up in between, and the other registers are not part of this model.\<close>

definition esc_read :: "esc \<Rightarrow> nat \<Rightarrow> nat \<Rightarrow> (esc \<times> bytes) option" where
  "esc_read e address n =
     (if 65536 < address + n then None
      else if sm_start e 1 \<le> address \<and> address < sm_start e 1 + sm_len e 1 then mailbox_read e address n
      else if 0x800 \<le> address \<and> address + n \<le> 0x880 then Some (e, map (sm_register e) [address..<address + n])
      else None)"

definition esc_write :: "esc \<Rightarrow> nat \<Rightarrow> bytes \<Rightarrow> esc option" where
  "esc_write e address data =
     (if 65536 < address + length data then None
      else if sm_start e 0 \<le> address \<and> address < sm_start e 0 + sm_len e 0 then mailbox_write e address data
      else if 0x800 \<le> address \<and> address + length data \<le> 0x880 then
        Some (foldl (\<lambda>e1 (i, value). sm_register_write e1 (address + i) value) e (enumerate 0 data))
      else None)"

section \<open>The object dictionary\<close>

definition object_matches :: "u16 \<Rightarrow> u8 \<Rightarrow> sim_object \<Rightarrow> bool" where
  "object_matches index sub ob \<longleftrightarrow> so_len ob \<noteq> 0 \<and> so_index ob = index \<and> so_sub ob = sub"

definition object_fill :: "sim_object \<Rightarrow> bytes \<Rightarrow> sim_object" where
  "object_fill ob data = ob\<lparr>so_len := length data, so_data := copy_at (so_data ob) 0 data\<rparr>"

definition object_set :: "sim_object \<Rightarrow> u16 \<Rightarrow> u8 \<Rightarrow> bytes \<Rightarrow> sim_object" where
  "object_set ob index sub data = object_fill (ob\<lparr>so_index := index, so_sub := sub\<rparr>) data"

definition put_large :: "esc \<Rightarrow> nat \<Rightarrow> sim_object \<Rightarrow> esc" where
  "put_large e i ob = e\<lparr>es_large := (es_large e)[i := ob]\<rparr>"

definition put_small :: "esc \<Rightarrow> nat \<Rightarrow> sim_object \<Rightarrow> esc" where
  "put_small e i ob = e\<lparr>es_objects := (es_objects e)[i := ob]\<rparr>"

definition set_object :: "esc \<Rightarrow> u16 \<Rightarrow> u8 \<Rightarrow> bytes \<Rightarrow> esc \<times> (sim_error, unit) result" where
  "set_object e index sub data =
     (if data = [] \<or> MAX_OBJECT_BYTES < length data then (e, Err SimObjectCapacity)
      else case position (object_matches index sub) (es_large e) of
        Some i \<Rightarrow> (put_large e i (object_fill (es_large e ! i) data), Ok ())
      | None \<Rightarrow>
          if 8 < length data then
            (case position (object_matches index sub) (es_large e) of
               Some i \<Rightarrow> (put_large e i (object_set (es_large e ! i) index sub data), Ok ())
             | None \<Rightarrow>
                 (case position (\<lambda>ob. so_len ob = 0) (es_large e) of
                    None \<Rightarrow> (e, Err SimObjectCapacity)
                  | Some i \<Rightarrow> (put_large e i (object_set (es_large e ! i) index sub data), Ok ())))
          else
            (case position (\<lambda>ob. so_index ob = index \<and> so_sub ob = sub) (es_objects e) of
               Some i \<Rightarrow> (put_small e i (object_fill (es_objects e ! i) data), Ok ())
             | None \<Rightarrow>
                 (case position (\<lambda>ob. so_len ob = 0) (es_objects e) of
                    None \<Rightarrow> (e, Err SimObjectCapacity)
                  | Some i \<Rightarrow> (put_small e i (object_set object_empty index sub data), Ok ()))))"

definition object_value :: "sim_object \<Rightarrow> bytes" where
  "object_value ob = take (so_len ob) (so_data ob)"

definition object :: "esc \<Rightarrow> u16 \<Rightarrow> u8 \<Rightarrow> bytes option" where
  "object e index sub =
     (case find (object_matches index sub) (es_large e) of
        Some ob \<Rightarrow> Some (object_value ob)
      | None \<Rightarrow> map_option object_value (find (object_matches index sub) (es_objects e)))"

definition application_object :: "u16 \<Rightarrow> bool" where
  "application_object index \<longleftrightarrow>
     (0x1600 \<le> index \<and> index \<le> 0x17ff) \<or> (0x1a00 \<le> index \<and> index \<le> 0x1bff) \<or> index = 0x1c12 \<or> index = 0x1c13 \<or>
     (0x2000 \<le> index \<and> index \<le> 0x2007) \<or> index = 0x6040 \<or> index = 0x6060 \<or> index = 0x607a \<or> index = 0x60ff \<or> index = 0x6071"

definition store_download :: "esc \<Rightarrow> u16 \<Rightarrow> u8 \<Rightarrow> bytes \<Rightarrow> esc \<times> (sim_error, unit) result" where
  "store_download e index sub data =
     (if \<not> application_object index \<and> object e index sub = None then (e, Err SimObjectCapacity)
      else set_object e index sub data)"

section \<open>Answers\<close>

definition publish_mailbox :: "esc \<Rightarrow> bytes \<Rightarrow> u8 \<Rightarrow> esc" where
  "publish_mailbox e payload protocol =
     (let receive = copy_at (copy_at (replicate SIM_MAILBOX 0) 0 (u16_to_le (of_nat (length payload))))
            5 [protocol OR push_bit 4 (es_counter e AND 7)];
          receive = copy_at receive 6 payload
      in e\<lparr>es_receive := receive, es_counter := (if 7 \<le> es_counter e then 1 else es_counter e + 1),
           es_receive_full := True, es_previous := receive, es_previous_valid := True\<rparr>)"

definition sim_emergency :: "esc \<Rightarrow> u16 \<Rightarrow> u8 \<Rightarrow> bytes \<Rightarrow> esc \<times> (sim_error, unit) result" where
  "sim_emergency e code register data =
     (if es_receive_full e then (e, Err SimMailboxFull)
      else (publish_mailbox e ([0, 0x10] @ u16_to_le code @ [register] @ data) 3, Ok ()))"

definition sim_abort :: "esc \<Rightarrow> u16 \<Rightarrow> u8 \<Rightarrow> u32 \<Rightarrow> esc" where
  "sim_abort e index sub code =
     publish_mailbox (e\<lparr>es_transfer := (es_transfer e)\<lparr>tr_active := False\<rparr>\<rparr>)
       ([0, 0x30, 0x80] @ u16_to_le index @ [sub] @ u32_to_le code) 3"

definition upload_segment :: "esc \<Rightarrow> u8 \<Rightarrow> esc" where
  "upload_segment e command =
     (let t = es_transfer e
      in if (command AND 0x10 \<noteq> 0) \<noteq> tr_toggle t then sim_abort e (tr_index t) (tr_sub t) 0x05030000
         else
           let remaining = tr_len t - tr_offset t;
               capacity = max (sm_len e 1 - 9) 7;
               chunk = min remaining capacity;
               is_last = (chunk = remaining);
               wire = max chunk 7;
               command1 = push_bit 4 (of_bool (tr_toggle t)) OR of_bool is_last OR
                 (if is_last \<and> chunk < 7 then push_bit 1 (of_nat (7 - chunk)) else 0);
               reply = copy_at ((replicate SIM_MAILBOX 0)[1 := 0x30, 2 := command1]) 3
                 (subslice (tr_data t) (tr_offset t) (tr_offset t + chunk))
           in publish_mailbox (e\<lparr>es_transfer := t\<lparr>tr_offset := tr_offset t + chunk,
                tr_toggle := \<not> tr_toggle t, tr_active := \<not> is_last\<rparr>\<rparr>) (take (3 + wire) reply) 3)"

definition download_segment :: "esc \<Rightarrow> u8 \<Rightarrow> bytes \<Rightarrow> esc" where
  "download_segment e command p =
     (let t = es_transfer e
      in if (command AND 0x10 \<noteq> 0) \<noteq> tr_toggle t then sim_abort e (tr_index t) (tr_sub t) 0x05030000
         else
           let is_last = (command AND 1 \<noteq> 0);
               unused = unat (drop_bit 1 command AND 7)
           in if length p < 10 \<or> length p - 3 < unused \<or> (\<not> is_last \<and> unused \<noteq> 0) \<or> (unused \<noteq> 0 \<and> length p \<noteq> 10)
              then sim_abort e (tr_index t) (tr_sub t) 0x05040001
              else
                let n = length p - 3 - unused;
                    stop = tr_offset t + n
                in if tr_len t < stop \<or> is_last \<noteq> (stop = tr_len t)
                   then sim_abort e (tr_index t) (tr_sub t) 0x06070010
                   else
                     let reply = [0, 0x30, 0x20 OR push_bit 4 (of_bool (tr_toggle t))];
                         t1 = t\<lparr>tr_data := copy_at (tr_data t) (tr_offset t) (subslice p 3 (3 + n)),
                                tr_offset := stop, tr_toggle := \<not> tr_toggle t\<rparr>
                     in if is_last then
                          (case store_download (e\<lparr>es_transfer := t1\<lparr>tr_active := False\<rparr>\<rparr>) (tr_index t1) (tr_sub t1)
                                  (take (tr_len t1) (tr_data t1)) of
                             (e2, Inl _) \<Rightarrow> sim_abort e2 (tr_index t1) (tr_sub t1) 0x06040047
                           | (e2, Inr _) \<Rightarrow> publish_mailbox e2 reply 3)
                        else publish_mailbox (e\<lparr>es_transfer := t1\<rparr>) reply 3)"

text \<open>The two arms of \<open>process_mailbox\<close> that begin a transfer. \<open>p\<close> is the CoE payload.\<close>

definition serve_upload :: "esc \<Rightarrow> bytes \<Rightarrow> esc" where
  "serve_upload e p =
     (let command = p ! 2; index = u16_from_le (p ! 3) (p ! 4); sub = p ! 5;
          reply = copy_at ((replicate SIM_MAILBOX 0)[1 := 0x30]) 3 (subslice p 3 6)
      in case object e index sub of
           None \<Rightarrow> sim_abort e index sub 0x06020000
         | Some obj \<Rightarrow>
             let n = length obj;
                 bytes1 = copy_at (replicate MAX_OBJECT_BYTES 0) 0 obj
             in if n \<le> 4 then
                  publish_mailbox e (take 10 (copy_at
                    (reply[2 := 0x43 OR push_bit 2 (of_nat (4 - n)) OR (command AND 0x10)]) 6 (take n bytes1))) 3
                else
                  let reply = copy_at (reply[2 := 0x41 OR (command AND 0x10)]) 6 (u32_to_le (of_nat n));
                      chunk = min n (sm_len e 1 - 16);
                      reply = copy_at reply 10 (take chunk bytes1)
                  in publish_mailbox (e\<lparr>es_transfer := \<lparr>tr_active = chunk < n, tr_upload = True, tr_index = index,
                       tr_sub = sub, tr_len = n, tr_offset = chunk, tr_toggle = False, tr_data = bytes1\<rparr>\<rparr>)
                       (take (10 + chunk) reply) 3)"

definition serve_download :: "esc \<Rightarrow> bytes \<Rightarrow> esc" where
  "serve_download e p =
     (let command = p ! 2; index = u16_from_le (p ! 3) (p ! 4); sub = p ! 5;
          reply = copy_at ((replicate SIM_MAILBOX 0)[1 := 0x30]) 3 (subslice p 3 6)
      in if length p < 10 then sim_abort e index sub 0x05040001
         else
           let reply = reply[2 := 0x60]
           in if command AND 2 \<noteq> 0 then
                let n = (if command AND 1 \<noteq> 0 then 4 - unat (drop_bit 2 command AND 3) else 4)
                in case store_download e index sub (subslice p 6 (6 + n)) of
                     (e1, Inl _) \<Rightarrow> sim_abort e1 index sub 0x06040047
                   | (e1, Inr _) \<Rightarrow> publish_mailbox e1 (take 6 reply) 3
              else
                let n = unat (u32_from_le (p ! 6) (p ! 7) (p ! 8) (p ! 9))
                in if MAX_OBJECT_BYTES < n \<or> n < length p - 10 then sim_abort e index sub 0x05040005
                   else
                     let first = length p - 10;
                         e1 = e\<lparr>es_transfer := \<lparr>tr_active = first < n, tr_upload = False, tr_index = index,
                                tr_sub = sub, tr_len = n, tr_offset = first, tr_toggle = False,
                                tr_data = copy_at (replicate MAX_OBJECT_BYTES 0) 0 (drop 10 p)\<rparr>\<rparr>
                     in if first = n then
                          (case store_download e1 index sub (take n (tr_data (es_transfer e1))) of
                             (e2, Inl _) \<Rightarrow> sim_abort e2 index sub 0x06040047
                           | (e2, Inr _) \<Rightarrow> publish_mailbox e2 (take 6 reply) 3)
                        else publish_mailbox e1 (take 6 reply) 3)"

definition information_metadata :: "u16 \<Rightarrow> u8 \<Rightarrow> (u16 \<times> u16 \<times> u16) option" where
  "information_metadata index sub =
     (if (index = 0x7000 \<and> sub = 1) then Some (6, 16, 0x78)
      else if index = 0x6000 \<and> sub = 1 then Some (6, 16, 0x87)
      else if (index = 0x603f \<or> index = 0x6041) \<and> sub = 0 then Some (6, 16, 0x87)
      else if index = 0x6040 \<and> sub = 0 then Some (6, 16, 0x78)
      else if index = 0x6060 \<and> sub = 0 then Some (2, 8, 0x78)
      else if index = 0x6061 \<and> sub = 0 then Some (2, 8, 0x87)
      else if index = 0x6064 \<and> sub = 0 then Some (4, 32, 0x87)
      else if (index = 0x607a \<or> index = 0x60ff) \<and> sub = 0 then Some (4, 32, 0x78)
      else if index = 0x6071 \<and> sub = 0 then Some (3, 16, 0x78) else None)"

definition sim_information :: "esc \<Rightarrow> nat \<Rightarrow> esc" where
  "sim_information e sz =
     (let p = es_send e;
          failure = publish_mailbox e ([0, 0x80, 7, 0, 0, 0] @ u32_to_le 0x06020000) 3
      in if sz < 10 \<or> p ! 8 \<noteq> 5 then failure
         else
           let index = u16_from_le (p ! 12) (p ! 13); sub = p ! 14
           in case information_metadata index sub of
                Some (data_type, bits, access) \<Rightarrow>
                  publish_mailbox e ([0, 0x80, 6, 0, 0, 0] @ u16_to_le index @ [sub, 1] @ u16_to_le data_type @
                    u16_to_le bits @ u16_to_le access) 3
              | None \<Rightarrow> failure)"

definition process_mailbox :: "esc \<Rightarrow> esc" where
  "process_mailbox e =
     (let sz = unat (u16_from_le (es_send e ! 0) (es_send e ! 1))
      in if sz < 3 \<or> sm_len e 0 < sz + 6 \<or> es_send e ! 5 AND 15 \<noteq> 3 then publish_mailbox e [1, 0, 2, 0] 0
         else if drop_bit 4 (es_send e ! 7) = 8 then sim_information e sz
         else if drop_bit 4 (es_send e ! 7) \<noteq> 2 then publish_mailbox e [1, 0, 2, 0] 0
         else
           let p = subslice (es_send e) 6 (6 + sz);
               command = p ! 2;
               t = es_transfer e
           in if command = 0x80 then e\<lparr>es_transfer := t\<lparr>tr_active := False\<rparr>\<rparr>
              else if tr_active t \<and> tr_upload t \<and> command AND 0xef = 0x60 then upload_segment e command
              else if tr_active t \<and> \<not> tr_upload t \<and> command AND 0xe0 = 0 then download_segment e command p
              else if length p < 6 then sim_abort e 0 0 0x05040001
              else if command AND 0xe0 = 0x40 then serve_upload e p
              else if command AND 0xe0 = 0x20 then serve_download e p
              else sim_abort e (u16_from_le (p ! 3) (p ! 4)) (p ! 5) 0x05040001)"

text \<open>The part of \<open>tick\<close> that serves the mailbox.\<close>

definition tick_mailbox :: "esc \<Rightarrow> esc" where
  "tick_mailbox e =
     (if \<not> es_online e then e
      else if es_send_full e \<and> \<not> es_receive_full e \<and> sm_enabled e 0 \<and> sm_enabled e 1
      then (process_mailbox e)\<lparr>es_send_full := False\<rparr> else e)"

section \<open>The dictionary is a map\<close>

text \<open>The data arrays of the slots have their fixed lengths.\<close>

definition dictionary_ok :: "esc \<Rightarrow> bool" where
  "dictionary_ok e \<longleftrightarrow> (\<forall>ob\<in>set (es_large e). length (so_data ob) = MAX_OBJECT_BYTES) \<and>
     (\<forall>ob\<in>set (es_objects e). length (so_data ob) = 8)"

lemma find_position: "find p xs = map_option ((!) xs) (position p xs)"
  by (induction xs) (auto simp: option.map_comp comp_def)

lemma position_update_hit:
  assumes "i < length xs" "p y" "\<forall>j<i. \<not> p (xs ! j)"
  shows "position p (xs[i := y]) = Some i"
proof -
  have hit: "p (xs[i := y] ! i)" using assms(1,2) by simp
  then have "position p (xs[i := y]) \<noteq> None"
    using assms(1) by (metis length_list_update nth_mem position_None)
  then obtain k where k: "position p (xs[i := y]) = Some k" by auto
  then have "k < length xs" "p (xs[i := y] ! k)" "\<forall>j<k. \<not> p (xs[i := y] ! j)"
    using position_Some [OF k] by auto
  with hit assms have "k = i" by (metis nat_neq_iff nth_list_update_neq)
  with k show ?thesis by simp
qed

text \<open>Writing a slot that does not match before and after does not change what is found.\<close>

lemma find_update_miss:
  assumes "i < length xs" "\<not> p (xs ! i)" "\<not> p y"
  shows "find p (xs[i := y]) = find p xs"
  using assms
proof (induction xs arbitrary: i)
  case (Cons x xs)
  then show ?case by (cases i) auto
qed simp

lemma find_update_hit:
  assumes "i < length xs" "p y" "\<forall>j<i. \<not> p (xs ! j)"
  shows "find p (xs[i := y]) = Some y"
  using position_update_hit [of i xs p y] assms by (simp add: find_position)

lemma find_None_position: "find p xs = None \<longleftrightarrow> position p xs = None"
  by (simp add: find_position)

text \<open>A slot becomes the object \<open>(index, sub)\<close> with the given data, in an array in which no earlier slot
  holds it and the slot itself held it or nothing.\<close>

lemma find_slot_write:
  assumes i: "i < length xs" and new: "so_index y = index" "so_sub y = sub" "so_len y \<noteq> 0"
    and old: "object_matches index sub (xs ! i) \<or> so_len (xs ! i) = 0"
    and first: "\<forall>j<i. \<not> object_matches index sub (xs ! j)"
  shows "find (object_matches index' sub') (xs[i := y]) =
    (if index' = index \<and> sub' = sub then Some y else find (object_matches index' sub') xs)"
proof (cases "index' = index \<and> sub' = sub")
  case True
  then show ?thesis using find_update_hit [OF i, of "object_matches index sub" y] new first
    by (simp add: object_matches_def)
next
  case False
  then show ?thesis using new old i by (auto intro!: find_update_miss simp: object_matches_def)
qed

lemma object_value_fill [simp]:
  "length data \<le> length (so_data ob) \<Longrightarrow> object_value (object_fill ob data) = data"
  "length data \<le> length (so_data ob) \<Longrightarrow> object_value (object_set ob index sub data) = data"
  by (simp_all add: object_value_def object_fill_def object_set_def copy_at_def)

lemma object_fill_fields [simp]:
  "so_index (object_fill ob data) = so_index ob" "so_sub (object_fill ob data) = so_sub ob"
  "so_len (object_fill ob data) = length data"
  "so_index (object_set ob index sub data) = index" "so_sub (object_set ob index sub data) = sub"
  "so_len (object_set ob index sub data) = length data"
  by (simp_all add: object_fill_def object_set_def)

lemma object_fill_length [simp]:
  "length data \<le> length (so_data ob) \<Longrightarrow> length (so_data (object_fill ob data)) = length (so_data ob)"
  "length data \<le> length (so_data ob) \<Longrightarrow> length (so_data (object_set ob index sub data)) = length (so_data ob)"
  by (simp_all add: object_fill_def object_set_def)

lemma put_large_object:
  assumes ok: "dictionary_ok e" and i: "i < length (es_large e)"
    and new: "so_index y = index" "so_sub y = sub" "so_len y = length data" "data \<noteq> []"
      "object_value y = data" "length (so_data y) = MAX_OBJECT_BYTES"
    and old: "object_matches index sub (es_large e ! i) \<or> so_len (es_large e ! i) = 0"
    and first: "\<forall>j<i. \<not> object_matches index sub (es_large e ! j)"
  shows "dictionary_ok (put_large e i y)"
    and "object (put_large e i y) index' sub' = (if index' = index \<and> sub' = sub then Some data else object e index' sub')"
proof -
  show "dictionary_ok (put_large e i y)"
    using ok new(6) by (auto simp: dictionary_ok_def put_large_def dest: set_update_subset_insert [THEN subsetD])
  show "object (put_large e i y) index' sub' = (if index' = index \<and> sub' = sub then Some data else object e index' sub')"
    using find_slot_write [OF i new(1,2) _ old first, of index' sub'] new
    by (auto simp: object_def put_large_def split: option.splits)
qed

lemma put_small_object:
  assumes ok: "dictionary_ok e" and i: "i < length (es_objects e)"
    and new: "so_index y = index" "so_sub y = sub" "so_len y = length data" "data \<noteq> []"
      "object_value y = data" "length (so_data y) = 8"
    and old: "object_matches index sub (es_objects e ! i) \<or> so_len (es_objects e ! i) = 0"
    and first: "\<forall>j<i. \<not> object_matches index sub (es_objects e ! j)"
    and small: "find (object_matches index sub) (es_large e) = None"
  shows "dictionary_ok (put_small e i y)"
    and "object (put_small e i y) index' sub' = (if index' = index \<and> sub' = sub then Some data else object e index' sub')"
proof -
  show "dictionary_ok (put_small e i y)"
    using ok new(6) by (auto simp: dictionary_ok_def put_small_def dest: set_update_subset_insert [THEN subsetD])
  show "object (put_small e i y) index' sub' = (if index' = index \<and> sub' = sub then Some data else object e index' sub')"
    using find_slot_write [OF i new(1,2) _ old first, of index' sub'] new small
    by (auto simp: object_def put_small_def split: option.splits)
qed

text \<open>What a write leaves alone.\<close>

definition same_hardware :: "esc \<Rightarrow> esc \<Rightarrow> bool" where
  "same_hardware e e' \<longleftrightarrow> es_sm e' = es_sm e \<and> es_online e' = es_online e \<and> es_send e' = es_send e \<and>
     es_send_full e' = es_send_full e"

lemma same_hardware_refl [simp]: "same_hardware e e"
  by (simp add: same_hardware_def)

lemma same_hardware_put [simp]:
  "same_hardware e (put_large e i ob)" "same_hardware e (put_small e i ob)"
  "es_transfer (put_large e i ob) = es_transfer e" "es_transfer (put_small e i ob) = es_transfer e"
  by (simp_all add: same_hardware_def put_large_def put_small_def)

lemma set_object_rest: "set_object e index sub data = (e', r) \<Longrightarrow> same_hardware e e' \<and> es_transfer e' = es_transfer e"
  by (auto simp: set_object_def split: if_splits option.splits)

text \<open>A successful write is an update of the map.\<close>

lemma set_object_map:
  assumes ok: "dictionary_ok e" and run: "set_object e index sub data = (e', Ok ())"
  shows "dictionary_ok e' \<and> (\<forall>index' sub'. object e' index' sub' =
    (if index' = index \<and> sub' = sub then Some data else object e index' sub'))"
proof -
  have len: "data \<noteq> []" "length data \<le> MAX_OBJECT_BYTES"
    using run by (auto simp: set_object_def split: if_splits)
  have large: "length (so_data (es_large e ! i)) = MAX_OBJECT_BYTES" if "i < length (es_large e)" for i
    using ok that by (simp add: dictionary_ok_def)
  have small: "length (so_data (es_objects e ! i)) = 8" if "i < length (es_objects e)" for i
    using ok that by (simp add: dictionary_ok_def)
  show ?thesis
  proof (cases "position (object_matches index sub) (es_large e)")
    case (Some i)
    note p = position_Some [OF Some]
    have e': "e' = put_large e i (object_fill (es_large e ! i) data)"
      using run len Some by (auto simp: set_object_def)
    show ?thesis unfolding e'
      using put_large_object [OF ok, of i "object_fill (es_large e ! i) data" index sub data] p len large [of i]
      by (auto simp: object_matches_def)
  next
    case None
    then have no_large: "\<forall>ob\<in>set (es_large e). \<not> object_matches index sub ob"
      "find (object_matches index sub) (es_large e) = None"
      by (auto simp: position_None find_None_position)
    show ?thesis
    proof (cases "8 < length data")
      case True
      then obtain i where i: "position (\<lambda>ob. so_len ob = 0) (es_large e) = Some i"
          "e' = put_large e i (object_set (es_large e ! i) index sub data)"
        using run len None by (auto simp: set_object_def split: option.splits)
      note p = position_Some [OF i(1)]
      have "\<forall>j<i. \<not> object_matches index sub (es_large e ! j)" using no_large(1) p by auto
      then show ?thesis unfolding i(2)
        using put_large_object [OF ok, of i "object_set (es_large e ! i) index sub data" index sub data] p len large [of i]
        by auto
    next
      case short: False
      show ?thesis
      proof (cases "position (\<lambda>ob. so_index ob = index \<and> so_sub ob = sub) (es_objects e)")
        case (Some i)
        note p = position_Some [OF Some]
        have e': "e' = put_small e i (object_fill (es_objects e ! i) data)"
          using run len None short Some by (auto simp: set_object_def)
        have "\<forall>j<i. \<not> object_matches index sub (es_objects e ! j)" "object_matches index sub (es_objects e ! i) \<or> so_len (es_objects e ! i) = 0"
          using p by (auto simp: object_matches_def)
        then show ?thesis unfolding e'
          using put_small_object [OF ok, of i "object_fill (es_objects e ! i) data" index sub data] p len short
            no_large small [of i] by auto
      next
        case no_small: None
        then obtain i where i: "position (\<lambda>ob. so_len ob = 0) (es_objects e) = Some i"
            "e' = put_small e i (object_set object_empty index sub data)"
          using run len None short by (auto simp: set_object_def split: option.splits)
        note p = position_Some [OF i(1)]
        have "\<forall>j<i. \<not> object_matches index sub (es_objects e ! j)"
          using no_small p by (auto simp: position_None object_matches_def)
        then show ?thesis unfolding i(2)
          using put_small_object [OF ok, of i "object_set object_empty index sub data" index sub data] p len short
            no_large by (auto simp: object_empty_def)
      qed
    qed
  qed
qed

end
