(* ===== verification/Sdo_Exchange.thy ===== *)
theory Sdo_Exchange
  imports Sdo_Transfer Sim_Esc Wire_Roundtrip
begin

text \<open>
  The master's SDO transfer (\<open>coe.rs\<close>) against the simulated slave (\<open>esc.rs\<close>): a request is framed
  as \<open>start_impl\<close> of \<open>mailbox.rs\<close> does and written into the slave's mailbox, the slave serves it, and
  the payload of the frame read back is accepted. Downloads arrive exactly, whatever their size,
  and uploads read back what the slave holds.
\<close>

section \<open>One exchange\<close>

definition sdo_exchange :: "u8 \<Rightarrow> bytes \<Rightarrow> sdo_transfer \<times> esc \<Rightarrow> sdo_transfer \<times> esc" where
  "sdo_exchange counter payload s =
     (case s of (t, e) \<Rightarrow>
        (case mailbox_send_frame counter CoE payload of
           (frame, Inl _) \<Rightarrow> (t, e)
         | (frame, Inr _) \<Rightarrow>
             (case mailbox_write e (sm_start e 0) (take (sm_len e 0) frame) of
                None \<Rightarrow> (t, e)
              | Some e1 \<Rightarrow>
                  let e2 = tick_mailbox e1
                  in case mailbox_read e2 (sm_start e2 1) (sm_len e2 1) of
                       None \<Rightarrow> (t, e2)
                     | Some (e3, bs) \<Rightarrow>
                         (case mailbox_frame_parse bs of
                            Inl _ \<Rightarrow> (t, e3)
                          | Inr f \<Rightarrow> (fst (accept_response t (mf_payload f)), e3)))))"

text \<open>At most \<open>n\<close> exchanges, until the transfer has no request left.\<close>

fun sdo_session :: "nat \<Rightarrow> u8 \<Rightarrow> sdo_transfer \<times> esc \<Rightarrow> sdo_transfer \<times> esc" where
  "sdo_session 0 counter s = s"
| "sdo_session (Suc n) counter s =
     (case sdo_request (fst s) of
        None \<Rightarrow> s
      | Some payload \<Rightarrow> sdo_session n (mailbox_next_counter counter) (sdo_exchange counter payload s))"

section \<open>The transport\<close>

definition sim_ready :: "esc \<Rightarrow> bool" where
  "sim_ready e \<longleftrightarrow> es_online e \<and> \<not> es_send_full e \<and> \<not> es_receive_full e \<and> sm_enabled e 0 \<and> sm_enabled e 1 \<and>
     16 \<le> sm_len e 0 \<and> 16 \<le> sm_len e 1 \<and> length (es_send e) = SIM_MAILBOX \<and> dictionary_ok e"

definition serve :: "esc \<Rightarrow> bytes \<Rightarrow> esc" where
  "serve e p =
     (let command = p ! 2; t = es_transfer e
      in if command = 0x80 then e\<lparr>es_transfer := t\<lparr>tr_active := False\<rparr>\<rparr>
         else if tr_active t \<and> tr_upload t \<and> command AND 0xef = 0x60 then upload_segment e command
         else if tr_active t \<and> \<not> tr_upload t \<and> command AND 0xe0 = 0 then download_segment e command p
         else if length p < 6 then sim_abort e 0 0 0x05040001
         else if command AND 0xe0 = 0x40 then serve_upload e p
         else if command AND 0xe0 = 0x20 then serve_download e p
         else sim_abort e (u16_from_le (p ! 3) (p ! 4)) (p ! 5) 0x05040001)"

lemma process_mailbox_serve:
  assumes send: "es_send e = mailbox_header_bytes (request_header c CoE p) @ p @ rest"
    and len: "3 \<le> length p" "length p + 6 \<le> sm_len e 0" "length p + 6 \<le> SIM_MAILBOX"
    and svc: "p ! 1 = 0x20" and c: "c \<le> MAILBOX_COUNTER_MASK"
  shows "process_mailbox e = serve e p"
proof -
  let ?h = "request_header c CoE p"
  have val: "unat (mh_length ?h) = length p"
    by (rule request_header_valid(2)) (use len(3) c in \<open>simp_all add: mailbox_lengths sim_sizes\<close>)
  have "protocol_code CoE OR push_bit 4 c = 3 OR push_bit 4 c" by simp
  moreover have "(3 OR push_bit 4 c) AND 15 = (3 :: u8)"
    using counter_cases [of c] c by (auto simp: MAILBOX_COUNTER_MASK_def)
  moreover have n: "es_send e ! 0 = ucast (mh_length ?h)" "es_send e ! 1 = ucast (drop_bit 8 (mh_length ?h))"
    "es_send e ! 5 = protocol_code CoE OR push_bit 4 c"
    by (simp_all add: send mailbox_header_bytes_def u16_to_le_def request_header_def)
  ultimately have h5: "es_send e ! 5 AND 15 = 3" by simp
  have l: "length (mailbox_header_bytes ?h) = 6"
    using mailbox_codec.encode_size by (simp add: MAILBOX_HEADER_LEN_def)
  then have "es_send e ! 7 = p ! 1" using len(1) by (simp add: send nth_append)
  then have h7: "drop_bit 4 (es_send e ! 7) = 2" using svc by simp
  have "subslice (es_send e) 6 (6 + length p) = p"
    using l by (simp add: send subslice_def)
  moreover have "unat (u16_from_le (es_send e ! 0) (es_send e ! 1)) = length p"
    unfolding n(1,2) u16_from_to_le by (rule val)
  ultimately show ?thesis
    using len h5 h7 by (simp add: process_mailbox_def serve_def Let_def)
qed

lemma and_7_le: "(w :: u8) AND 7 \<le> MAILBOX_COUNTER_MASK"
proof -
  have "w AND 7 = take_bit 3 w" by (simp add: take_bit_eq_mask mask_eq_exp_minus_1)
  moreover have "unat (take_bit 3 w) < 2 ^ 3"
    using take_bit_nat_less_exp [of 3 "unat w"] by (simp add: unsigned_take_bit_eq)
  ultimately show ?thesis by (simp add: word_le_nat_alt MAILBOX_COUNTER_MASK_def)
qed

lemma publish_receive:
  assumes "length r + 6 \<le> SIM_MAILBOX"
  shows "es_receive (publish_mailbox e r 3) = mailbox_header_bytes (request_header (es_counter e AND 7) CoE r) @ r @
    replicate (SIM_MAILBOX - 6 - length r) 0"
proof -
  have "replicate SIM_MAILBOX (0 :: u8) = replicate 6 0 @ replicate (SIM_MAILBOX - 6) 0"
    by (simp flip: replicate_add add: sim_sizes)
  moreover have "replicate 6 (0 :: u8) = [0, 0, 0, 0, 0, 0]" by (simp add: numeral_eq_Suc)
  ultimately have z: "replicate SIM_MAILBOX (0 :: u8) = 0 # 0 # 0 # 0 # 0 # 0 # replicate (SIM_MAILBOX - 6) 0" by simp
  have "drop (6 + n) (a # b # c # d # e' # f # xs) = drop n xs" for n and a b c d e' f :: u8 and xs
    by (simp add: numeral_eq_Suc)
  then show ?thesis
    using assms by (simp add: publish_mailbox_def mailbox_header_bytes_def request_header_def copy_at_def z
        u16_to_le_def Let_def)
qed

lemma object_cong: "es_large e' = es_large e \<Longrightarrow> es_objects e' = es_objects e \<Longrightarrow> object e' = object e"
  by (auto simp: object_def split: option.splits intro!: ext)

text \<open>The slave with the frame in its mailbox.\<close>

definition sent :: "esc \<Rightarrow> u8 \<Rightarrow> bytes \<Rightarrow> esc" where
  "sent e c p = e\<lparr>es_send := copy_at (es_send e) 0 (take (sm_len e 0) (fst (mailbox_send_frame c CoE p))), es_send_full := True\<rparr>"

lemma sent_fields [simp]:
  "es_transfer (sent e c p) = es_transfer e" "es_sm (sent e c p) = es_sm e" "es_objects (sent e c p) = es_objects e"
  "es_large (sent e c p) = es_large e" "es_online (sent e c p) = es_online e" "es_receive_full (sent e c p) = es_receive_full e"
  "sm_len (sent e c p) i = sm_len e i" "sm_enabled (sent e c p) i = sm_enabled e i" "object (sent e c p) = object e"
  "dictionary_ok (sent e c p) = dictionary_ok e" "es_send_full (sent e c p)"
  by (auto simp: sent_def sm_len_def sm_enabled_def dictionary_ok_def intro!: object_cong)

text \<open>The slave after its answer has been read.\<close>

definition answered :: "esc \<Rightarrow> bytes \<Rightarrow> esc" where
  "answered e r = (publish_mailbox e r 3)\<lparr>es_send_full := False, es_receive_full := False\<rparr>"

lemma answered_fields [simp]:
  "es_transfer (answered e r) = es_transfer e" "es_sm (answered e r) = es_sm e" "es_objects (answered e r) = es_objects e"
  "es_large (answered e r) = es_large e" "es_online (answered e r) = es_online e"
  "sm_len (answered e r) i = sm_len e i" "sm_enabled (answered e r) i = sm_enabled e i" "object (answered e r) = object e"
  "dictionary_ok (answered e r) = dictionary_ok e" "\<not> es_send_full (answered e r)" "\<not> es_receive_full (answered e r)"
  "es_send (answered e r) = es_send e"
  by (auto simp: answered_def publish_mailbox_def Let_def sm_len_def sm_enabled_def dictionary_ok_def intro!: object_cong)

lemma sm_enabled_len: "sm_enabled e i \<Longrightarrow> sm_len e i \<le> SIM_MAILBOX"
  by (simp add: sm_enabled_def sim_sizes)

lemma same_hardware_sm: "same_hardware e e' \<Longrightarrow> sm_len e' i = sm_len e i \<and> sm_enabled e' i = sm_enabled e i \<and> sm_start e' i = sm_start e i"
  by (simp add: same_hardware_def sm_len_def sm_enabled_def sm_start_def)

lemma length_mailbox_header_bytes: "length (mailbox_header_bytes h) = 6"
  using mailbox_codec.encode_size by (simp add: MAILBOX_HEADER_LEN_def)

lemma sim_ready_len: "sim_ready e \<Longrightarrow> sm_len e 0 \<le> SIM_MAILBOX \<and> sm_len e 1 \<le> SIM_MAILBOX"
  by (simp add: sim_ready_def sm_enabled_len)

text \<open>The request lies in the slave's mailbox once its frame has been written.\<close>

lemma request_frame:
  assumes "sim_ready e" "c \<le> MAILBOX_COUNTER_MASK" "length p + 6 \<le> sm_len e 0"
  shows "mailbox_send_frame c CoE p = (mailbox_header_bytes (request_header c CoE p) @ p @ replicate (SIM_MAILBOX - 6 - length p) 0, Ok ())"
    and "length (fst (mailbox_send_frame c CoE p)) = SIM_MAILBOX"
proof -
  have "length p + 6 \<le> SIM_MAILBOX" using sim_ready_len [OF assms(1)] assms(3) by linarith
  then show F: "mailbox_send_frame c CoE p = (mailbox_header_bytes (request_header c CoE p) @ p @ replicate (SIM_MAILBOX - 6 - length p) 0, Ok ())"
    using mailbox_send_frame_bytes [of p c CoE] assms(2) by (simp add: mailbox_lengths sim_sizes)
  show "length (fst (mailbox_send_frame c CoE p)) = SIM_MAILBOX"
    using \<open>length p + 6 \<le> SIM_MAILBOX\<close> by (simp add: F length_mailbox_header_bytes)
qed

lemma request_written:
  assumes "sim_ready e" "c \<le> MAILBOX_COUNTER_MASK" "length p + 6 \<le> sm_len e 0"
  shows "mailbox_write e (sm_start e 0) (take (sm_len e 0) (fst (mailbox_send_frame c CoE p))) = Some (sent e c p)"
proof -
  have "length (take (sm_len e 0) (fst (mailbox_send_frame c CoE p))) = sm_len e 0"
    using request_frame(2) [OF assms] sim_ready_len [OF assms(1)] by simp
  then show ?thesis
    using assms(1) by (simp add: mailbox_write_def Let_def sent_def sim_ready_def)
qed

lemma sent_request:
  assumes "sim_ready e" "c \<le> MAILBOX_COUNTER_MASK" "length p + 6 \<le> sm_len e 0"
  shows "es_send (sent e c p) = mailbox_header_bytes (request_header c CoE p) @ p @
      replicate (sm_len e 0 - 6 - length p) 0 @ drop (sm_len e 0) (es_send e)"
proof -
  have "take (sm_len e 0) (fst (mailbox_send_frame c CoE p)) = mailbox_header_bytes (request_header c CoE p) @ p @
      replicate (sm_len e 0 - 6 - length p) 0"
    using assms(3) sim_ready_len [OF assms(1)] diff_le_mono [of "sm_len e 0" SIM_MAILBOX "6 + length p"]
    by (simp add: request_frame(1) [OF assms] length_mailbox_header_bytes min_absorb1)
  then show ?thesis
    using assms(3) by (simp add: sent_def copy_at_def length_mailbox_header_bytes)
qed

text \<open>The frame read back carries the answer.\<close>

lemma answer_parsed:
  assumes "length r + 6 \<le> n" "n \<le> SIM_MAILBOX"
  shows "mailbox_frame_parse (take n (es_receive (publish_mailbox e r 3))) =
    Ok \<lparr>mf_header = request_header (es_counter e AND 7) CoE r, mf_payload = r\<rparr>"
proof -
  have rl: "length r + 6 \<le> SIM_MAILBOX" using assms by simp
  have "take n (es_receive (publish_mailbox e r 3)) = mailbox_header_bytes (request_header (es_counter e AND 7) CoE r) @ r @
      replicate (n - 6 - length r) 0"
    using assms rl by (simp add: publish_receive length_mailbox_header_bytes)
  then show ?thesis
    using mailbox_frame_parse_bytes request_header_valid [of r "es_counter e AND 7" CoE] rl and_7_le
    by (simp add: mailbox_lengths sim_sizes)
qed

text \<open>The slave once it has served the request.\<close>

definition served :: "esc \<Rightarrow> bytes \<Rightarrow> esc" where
  "served e r = (publish_mailbox e r 3)\<lparr>es_send_full := False\<rparr>"

lemma served_fields [simp]:
  "es_transfer (served e r) = es_transfer e" "es_sm (served e r) = es_sm e" "es_objects (served e r) = es_objects e"
  "es_large (served e r) = es_large e" "es_online (served e r) = es_online e" "es_receive_full (served e r)"
  "\<not> es_send_full (served e r)" "es_receive (served e r) = es_receive (publish_mailbox e r 3)"
  "es_previous (served e r) = es_receive (publish_mailbox e r 3)" "es_previous_valid (served e r)"
  "es_repeat_ack (served e r) = es_repeat_ack e"
  by (simp_all add: served_def publish_mailbox_def Let_def)

lemma tick_serves:
  assumes "sim_ready e" "process_mailbox (sent e c p) = publish_mailbox e2 r 3"
  shows "tick_mailbox (sent e c p) = served e2 r"
  using assms by (simp add: tick_mailbox_def sim_ready_def served_def)

lemma exchange_answer:
  assumes ready: "sim_ready e" and c: "c \<le> MAILBOX_COUNTER_MASK"
    and p: "3 \<le> length p" "length p + 6 \<le> sm_len e 0" "p ! 1 = 0x20"
    and ans: "serve (sent e c p) p = publish_mailbox e2 r 3"
    and hw: "same_hardware (sent e c p) e2" and r: "length r + 6 \<le> sm_len e 1"
  shows "sdo_exchange c p (t, e) = (fst (accept_response t r), answered e2 r)"
proof -
  have lp: "length p + 6 \<le> SIM_MAILBOX" using p(2) sim_ready_len [OF ready] by linarith
  have "process_mailbox (sent e c p) = publish_mailbox e2 r 3"
    using process_mailbox_serve [OF sent_request [OF ready c p(2)] p(1)] p(2,3) c lp ans by simp
  note tick = tick_serves [OF ready this]
  have sm: "sm_len (served e2 r) 1 = sm_len e 1" "sm_enabled (served e2 r) 1"
    using same_hardware_sm [OF hw, of 1] ready by (simp_all add: sm_len_def sm_enabled_def sim_ready_def)
  have "mailbox_read (served e2 r) (sm_start (served e2 r) 1) (sm_len (served e2 r) 1) =
      Some (answered e2 r, take (sm_len e 1) (es_receive (publish_mailbox e2 r 3)))"
    using sm by (simp add: mailbox_read_def Let_def subslice_def) (simp add: served_def answered_def)
  moreover obtain h where "mailbox_frame_parse (take (sm_len e 1) (es_receive (publish_mailbox e2 r 3))) = Ok \<lparr>mf_header = h, mf_payload = r\<rparr>"
    using answer_parsed [OF r] sim_ready_len [OF ready] by blast
  ultimately show ?thesis
    using request_written [OF ready c p(2)] tick
    by (simp add: sdo_exchange_def Let_def) (simp add: request_frame(1) [OF ready c p(2)])
qed

lemma answered_ready:
  assumes "sim_ready e" "same_hardware (sent e c p) e2" "dictionary_ok e2"
  shows "sim_ready (answered e2 r)"
proof -
  have "length (es_send (sent e c p)) = SIM_MAILBOX"
  proof -
    have "length (take (sm_len e 0) (fst (mailbox_send_frame c CoE p))) \<le> SIM_MAILBOX"
      using assms(1) sm_enabled_len [of e 0] by (auto simp: sim_ready_def)
    then show ?thesis using assms(1) by (simp add: sent_def sim_ready_def)
  qed
  then show ?thesis
    using assms same_hardware_sm [OF assms(2)] by (auto simp: sim_ready_def same_hardware_def)
qed

section \<open>What the master sends\<close>

definition transfer_ok :: "sdo_transfer \<Rightarrow> bool" where
  "transfer_ok t \<longleftrightarrow> length (st_pending t) = MAX_MAILBOX_BYTES \<and> SDO_INITIATE_LEN \<le> st_capacity t \<and>
     st_capacity t \<le> MAX_COE_PAYLOAD_BYTES"

lemma put_header_request:
  assumes "2 \<le> length p"
  shows "put_header p SvcSdoRequest = 0 # 0x20 # drop 2 p"
proof -
  obtain a b rest where "p = a # b # rest"
    using assms by (auto simp: Suc_le_length_iff numeral_2_eq_2)
  then show ?thesis
    by (simp add: put_header_def coe_header_encode_def COE_HEADER_LEN_def copy_at_def)
qed

lemma three_or_more:
  assumes "3 \<le> length xs"
  obtains a b c rest where "xs = a # b # c # rest" "length rest = length xs - 3"
  using assms by (auto simp: Suc_le_length_iff numeral_3_eq_3)

definition request_prefix :: "u8 \<Rightarrow> u16 \<Rightarrow> u8 \<Rightarrow> bytes" where
  "request_prefix command index sub = [0, 0x20, command] @ u16_to_le index @ [sub]"

lemma request_prefix_length [simp]: "length (request_prefix command index sub) = 6"
  by (simp add: request_prefix_def)

lemma write_common_header_pending:
  assumes "6 \<le> length (st_pending t)"
  shows "write_common_header t SvcSdoRequest command =
    t\<lparr>st_pending := request_prefix command (st_index t) (st_subindex t) @ drop 6 (st_pending t)\<rparr>"
proof -
  obtain a b c d e f rest where "st_pending t = a # b # c # d # e # f # rest"
    using assms by (auto simp: Suc_le_length_iff numeral_eq_Suc)
  then show ?thesis
    by (simp add: write_common_header_def put_header_request request_prefix_def copy_at_def u16_to_le_def numeral_eq_Suc)
qed

lemma copy_at_prefix: "length P = n \<Longrightarrow> copy_at (P @ X) n Y = P @ Y @ drop (length Y) X"
  by (auto simp: copy_at_append)

definition expedited_command :: "sdo_transfer \<Rightarrow> u8" where
  "expedited_command t = SDO_DOWNLOAD_EXPEDITED OR push_bit 2 (of_nat (4 - st_data_len t)) OR complete_access_bit t"

lemma request_expedited:
  assumes "transfer_ok t" "st_data_len t \<le> 4" "take (st_data_len t) (st_data t) = data" "length data = st_data_len t"
  shows "sdo_request (build_download_expedited t) =
    Some (request_prefix (expedited_command t) (st_index t) (st_subindex t) @ data @ replicate (4 - length data) 0)"
  using assms
  by (simp add: build_download_expedited_def write_common_header_pending transfer_ok_def coe_lengths Let_def
      copy_at_prefix sdo_request_def expedited_command_def)

lemma request_normal:
  assumes "transfer_ok t" "take (min (st_data_len t) (st_capacity t - 10)) (st_data t) = chunk"
    "length chunk = min (st_data_len t) (st_capacity t - 10)"
  shows "sdo_request (build_download_initiate t) =
    Some (request_prefix (SDO_DOWNLOAD_NORMAL OR complete_access_bit t) (st_index t) (st_subindex t) @
      u32_to_le (of_nat (st_data_len t)) @ chunk)"
proof -
  have p: "copy_at (copy_at (P @ D) 6 (u32_to_le w)) 10 chunk = P @ u32_to_le w @ chunk @ drop (length chunk) (drop 4 D)"
    if "length P = 6" for P D w
    using that copy_at_prefix [of "P @ u32_to_le w" 10 "drop 4 D" chunk] by (simp add: copy_at_prefix)
  show ?thesis
    using assms
    by (simp add: build_download_initiate_def write_common_header_pending transfer_ok_def coe_lengths Let_def p
        sdo_request_def)
qed

lemma request_upload:
  assumes "transfer_ok t"
  shows "sdo_request (build_upload_initiate t) =
    Some (request_prefix (SDO_UPLOAD_REQUEST OR complete_access_bit t) (st_index t) (st_subindex t) @ replicate 4 0)"
  using assms
  by (simp add: build_upload_initiate_def write_common_header_pending transfer_ok_def coe_lengths Let_def copy_at_prefix
      sdo_request_def)

lemma request_upload_segment:
  assumes "transfer_ok t"
  shows "sdo_request (build_upload_segment_request t) =
    Some ([0, 0x20, SDO_UPLOAD_SEGMENT_REQUEST OR (if st_toggle t then 0x10 else 0)] @ replicate 7 0)"
proof -
  have long: "length (st_pending t) = 128" using assms by (simp add: transfer_ok_def coe_lengths)
  obtain a b c rest where "st_pending t = a # b # c # rest" "length rest = length (st_pending t) - 3"
    by (rule three_or_more [of "st_pending t"]) (use long in simp_all)
  then have pend: "st_pending t = a # b # c # rest" "length rest = 125" using long by simp_all
  have "copy_at (0 # 0x20 # cmd # rest) 3 (replicate 7 0) = [0, 0x20, cmd] @ replicate 7 0 @ drop 7 rest" for cmd
    using copy_at_prefix [of "[0, 0x20, cmd]" 3 rest "replicate 7 0"] by simp
  then show ?thesis
    using assms pend
    by (simp add: build_upload_segment_request_def put_header_request coe_lengths Let_def sdo_request_def take_Cons')
qed

lemma take_padded:
  assumes "length ys = n"
  shows "take (3 + max n 7) ([a, b, c] @ ys @ replicate (7 - n) z @ zs) = [a, b, c] @ ys @ replicate (7 - n) z"
proof -
  have "3 + max n 7 = length ([a, b, c] @ ys @ replicate (7 - n) z)" using assms by simp
  then show ?thesis by (metis append.assoc append_eq_conv_conj)
qed

definition segment_command :: "bool \<Rightarrow> bool \<Rightarrow> nat \<Rightarrow> u8" where
  "segment_command toggle is_last n = (if toggle then 0x10 else 0) OR
     push_bit 1 (of_nat (if is_last \<and> n < 7 then 7 - n else 0)) OR (if is_last then 1 else 0)"

definition next_chunk :: "sdo_transfer \<Rightarrow> nat" where
  "next_chunk t = min (st_data_len t - st_offset t) (st_capacity t - 3)"

lemma request_segment:
  assumes ok: "transfer_ok t" and n: "n = next_chunk t"
    and chunk: "subslice (st_data t) (st_offset t) (st_offset t + n) = chunk" "length chunk = n"
  shows "sdo_request (build_download_segment t) =
    Some ([0, 0x20, segment_command (st_toggle t) (n = st_data_len t - st_offset t) n] @ chunk @ replicate (7 - n) 0)"
proof -
  have "n \<le> st_capacity t - 3" unfolding n next_chunk_def by simp
  moreover have "st_capacity t \<le> 122" using ok by (simp add: transfer_ok_def coe_lengths)
  ultimately have cap: "n \<le> 119" by linarith
  have long: "length (st_pending t) = 128" using ok by (simp add: transfer_ok_def coe_lengths)
  obtain a b c rest where "st_pending t = a # b # c # rest" "length rest = length (st_pending t) - 3"
    by (rule three_or_more [of "st_pending t"]) (use long in simp_all)
  then have pend: "st_pending t = a # b # c # rest" "length rest = 125" using long by simp_all
  let ?cmd = "segment_command (st_toggle t) (n = st_data_len t - st_offset t) n"
  have "build_download_segment t = t\<lparr>st_pending := copy_at (copy_at (0 # 0x20 # ?cmd # rest) 3 (replicate (max n 7) 0)) 3 chunk,
      st_pending_len := 3 + max n 7, st_offset := st_offset t + n, st_phase := SdoAwaitSegment\<rparr>"
    by (simp only: build_download_segment_def Let_def next_chunk_def [symmetric] n [symmetric] segment_command_def
        coe_lengths chunk(1)) (simp add: pend put_header_request)
  moreover have "copy_at (copy_at (0 # 0x20 # ?cmd # rest) 3 (replicate (max n 7) 0)) 3 chunk =
      [0, 0x20, ?cmd] @ chunk @ replicate (7 - n) 0 @ drop (max n 7) rest"
  proof -
    have "max n 7 - n = 7 - n" by simp
    then show ?thesis
      using copy_at_prefix [of "[0, 0x20, ?cmd]" 3 rest "replicate (max n 7) 0"]
        copy_at_prefix [of "[0, 0x20, ?cmd]" 3 "replicate (max n 7) 0 @ drop (max n 7) rest" chunk] chunk(2) by simp
  qed
  moreover have "take (3 + max n 7) ([0, 0x20, ?cmd] @ chunk @ replicate (7 - n) 0 @ drop (max n 7) rest) =
      [0, 0x20, ?cmd] @ chunk @ replicate (7 - n) 0"
    by (rule take_padded) (rule chunk(2))
  ultimately show ?thesis by (simp add: sdo_request_def)
qed

section \<open>What the slave answers\<close>

definition response_prefix :: "u8 \<Rightarrow> u16 \<Rightarrow> u8 \<Rightarrow> bytes" where
  "response_prefix command index sub = [0, 0x30, command] @ u16_to_le index @ [sub]"

lemma response_prefix_length [simp]: "length (response_prefix command index sub) = 6"
  by (simp add: response_prefix_def)

lemma request_prefix_parts:
  assumes "p = request_prefix command index sub @ rest"
  shows "p ! 1 = 0x20" "p ! 2 = command" "u16_from_le (p ! 3) (p ! 4) = index" "p ! 5 = sub"
    "subslice p 3 6 = u16_to_le index @ [sub]" "subslice p 6 (6 + n) = take n rest" "drop 10 p = drop 4 rest"
    "length p = 6 + length rest" "p ! 6 = rest ! 0" "p ! 7 = rest ! 1" "p ! 8 = rest ! 2" "p ! 9 = rest ! 3"
  by (simp_all add: assms request_prefix_def u16_to_le_def subslice_def numeral_2_eq_2 numeral_3_eq_3)

lemma sim_mailbox_zeros: "replicate SIM_MAILBOX (0 :: u8) = 0 # 0 # 0 # 0 # 0 # 0 # replicate (SIM_MAILBOX - 6) 0"
proof -
  have "replicate SIM_MAILBOX (0 :: u8) = replicate 6 0 @ replicate (SIM_MAILBOX - 6) 0"
    by (simp flip: replicate_add add: sim_sizes)
  moreover have "replicate 6 (0 :: u8) = [0, 0, 0, 0, 0, 0]" by (simp add: numeral_eq_Suc)
  ultimately show ?thesis by simp
qed

lemma reply_head:
  "(copy_at ((replicate SIM_MAILBOX 0)[1 := 0x30]) 3 (u16_to_le index @ [sub]))[2 := command] =
     response_prefix command index sub @ replicate 122 0"
proof -
  have "SIM_MAILBOX - 6 = 122" by (simp add: sim_sizes)
  moreover have "drop (3 + 3) (0 # 0x30 # 0 # 0 # 0 # 0 # xs) = xs" for xs :: bytes
    by (simp add: numeral_eq_Suc)
  ultimately show ?thesis
    by (simp add: sim_mailbox_zeros copy_at_def response_prefix_def u16_to_le_def numeral_2_eq_2 numeral_3_eq_3)
qed

lemmas reply_heads = reply_head reply_head [simplified One_nat_def]

lemma serve_upload_small:
  assumes p: "p = request_prefix command index sub @ rest" and obj: "object e index sub = Some d" "length d \<le> 4"
  shows "serve_upload e p = publish_mailbox e
    (response_prefix (0x43 OR push_bit 2 (of_nat (4 - length d)) OR (command AND 0x10)) index sub @ d @ replicate (4 - length d) 0) 3"
  using obj(2)
  by (simp add: serve_upload_def request_prefix_parts [OF p] obj(1) Let_def reply_heads copy_at_prefix
      MAX_OBJECT_BYTES_def copy_at_def [of _ 0])

lemma copy_at_prefix2:
  assumes "length P = n" "length Y \<le> length X" "m = n + length Y"
  shows "copy_at (copy_at (P @ X) n Y) m Z = P @ Y @ Z @ drop (length Y + length Z) X"
proof -
  have "copy_at (P @ X) n Y = (P @ Y) @ drop (length Y) X" by (simp add: copy_at_prefix assms(1))
  then show ?thesis
    using copy_at_prefix [of "P @ Y" m "drop (length Y) X" Z] assms by (simp add: add.commute)
qed

lemma serve_upload_large:
  assumes p: "p = request_prefix command index sub @ rest" and obj: "object e index sub = Some d" "4 < length d"
      "length d \<le> MAX_OBJECT_BYTES"
    and chunk: "n = min (length d) (sm_len e 1 - 16)" and len: "sm_len e 1 \<le> SIM_MAILBOX"
  shows "serve_upload e p = publish_mailbox
    (e\<lparr>es_transfer := \<lparr>tr_active = n < length d, tr_upload = True, tr_index = index, tr_sub = sub, tr_len = length d,
       tr_offset = n, tr_toggle = False, tr_data = copy_at (replicate MAX_OBJECT_BYTES 0) 0 d\<rparr>\<rparr>)
    (response_prefix (0x41 OR (command AND 0x10)) index sub @ u32_to_le (of_nat (length d)) @ take n d) 3"
proof -
  have n: "n \<le> length d" "n \<le> 112" using chunk len by (simp_all add: sim_sizes)
  have c: "min (length d) (sm_len e (Suc 0) - 16) = n" using chunk by simp
  have "take n (copy_at (replicate MAX_OBJECT_BYTES 0) 0 d) = take n d" using n(1) by (simp add: copy_at_def)
  then show ?thesis
    using obj n
    by (simp add: serve_upload_def request_prefix_parts [OF p] Let_def reply_heads copy_at_prefix2 c)
qed

lemma serve_download_expedited:
  assumes p: "p = request_prefix command index sub @ rest" and len: "4 \<le> length rest"
    and cmd: "command AND 2 \<noteq> 0" "command AND 1 \<noteq> 0" "take (4 - unat (drop_bit 2 command AND 3)) rest = d"
    and store: "store_download e index sub d = (e1, Ok ())"
  shows "serve_download e p = publish_mailbox e1 (response_prefix 0x60 index sub) 3"
  using len cmd store
  by (simp add: serve_download_def request_prefix_parts [OF p] Let_def reply_heads)

lemma serve_download_normal:
  assumes p: "p = request_prefix command index sub @ u32_to_le (of_nat n) @ chunk" and n: "n \<le> MAX_OBJECT_BYTES" "length chunk \<le> n"
    and cmd: "command AND 2 = 0"
    and e1: "e1 = e\<lparr>es_transfer := \<lparr>tr_active = length chunk < n, tr_upload = False, tr_index = index, tr_sub = sub,
       tr_len = n, tr_offset = length chunk, tr_toggle = False,
       tr_data = copy_at (replicate MAX_OBJECT_BYTES 0) 0 chunk\<rparr>\<rparr>"
  shows "length chunk < n \<Longrightarrow> serve_download e p = publish_mailbox e1 (response_prefix 0x60 index sub) 3"
    and "length chunk = n \<Longrightarrow> store_download e1 index sub chunk = (e2, Ok ()) \<Longrightarrow>
      serve_download e p = publish_mailbox e2 (response_prefix 0x60 index sub) 3"
proof -
  have "n < 2 ^ 32" using n(1) by (simp add: sim_sizes)
  then have v: "unat (of_nat n :: u32) = n" by (simp add: unsigned_of_nat take_bit_nat_eq_self_iff)
  have "u32_from_le (p ! 6) (p ! 7) (p ! 8) (p ! 9) = of_nat n"
    by (simp add: request_prefix_parts [OF p] u32_to_le_def)
  then have u: "unat (u32_from_le (p ! 6) (p ! 7) (p ! 8) (p ! 9)) = n" by (simp add: v)
  have parts: "length p = 10 + length chunk" "drop 10 p = chunk"
    using request_prefix_parts(7,8) [OF p] by simp_all
  show "length chunk < n \<Longrightarrow> serve_download e p = publish_mailbox e1 (response_prefix 0x60 index sub) 3"
    using n cmd by (simp add: serve_download_def u parts request_prefix_parts(2-5) [OF p] Let_def reply_heads e1)
  show "serve_download e p = publish_mailbox e2 (response_prefix 0x60 index sub) 3"
    if "length chunk = n" "store_download e1 index sub chunk = (e2, Ok ())"
  proof -
    have "take n (copy_at (replicate MAX_OBJECT_BYTES 0) 0 chunk) = chunk" using that(1) by (simp add: copy_at_def)
    then show ?thesis
      using n cmd that by (simp add: serve_download_def u parts request_prefix_parts(2-5) [OF p] Let_def reply_heads e1)
  qed
qed

lemma upload_segment_answer:
  assumes t: "t = es_transfer e" "tr_offset t < tr_len t" "tr_len t \<le> length (tr_data t)"
    and cmd: "(command AND 0x10 \<noteq> 0) = tr_toggle t"
    and n: "n = min (tr_len t - tr_offset t) (max (sm_len e 1 - 9) 7)" and len: "sm_len e 1 \<le> SIM_MAILBOX"
  shows "upload_segment e command = publish_mailbox
    (e\<lparr>es_transfer := t\<lparr>tr_offset := tr_offset t + n, tr_toggle := \<not> tr_toggle t,
         tr_active := n \<noteq> tr_len t - tr_offset t\<rparr>\<rparr>)
    ([0, 0x30, segment_command (tr_toggle t) (n = tr_len t - tr_offset t) n] @
       subslice (tr_data t) (tr_offset t) (tr_offset t + n) @ replicate (7 - n) 0) 3"
proof -
  let ?chunk = "subslice (tr_data t) (tr_offset t) (tr_offset t + n)"
  have nn: "n \<le> tr_len t - tr_offset t" "n \<le> 119" using n len by (auto simp: sim_sizes)
  have lc: "length ?chunk = n" using nn t by simp
  have cmds: "push_bit 4 (of_bool (tr_toggle t)) OR of_bool b OR (if b \<and> n < 7 then push_bit 1 (of_nat (7 - n)) else 0) =
      segment_command (tr_toggle t) b n" for b
    by (simp add: segment_command_def or.assoc or.commute or.left_commute)
  have zeros: "(replicate SIM_MAILBOX 0)[1 := 0x30, 2 := c] = [0, 0x30, c] @ replicate 125 (0 :: u8)" for c
  proof -
    have "replicate 125 (0 :: u8) = replicate 3 0 @ replicate 122 0" by (simp flip: replicate_add)
    moreover have "SIM_MAILBOX - 6 = 122" by (simp add: sim_sizes)
    ultimately show ?thesis by (simp add: sim_mailbox_zeros numeral_2_eq_2 numeral_3_eq_3)
  qed
  have body: "copy_at ((replicate SIM_MAILBOX 0)[1 := 0x30, 2 := c]) 3 ?chunk =
      [0, 0x30, c] @ ?chunk @ replicate (SIM_MAILBOX - 3 - n) 0" for c
    unfolding zeros using copy_at_prefix [of "[0, 0x30, c]" 3 "replicate 125 0" ?chunk] lc
    by (simp add: sim_sizes)
  have wire: "take (3 + max n 7) ([0, 0x30, c] @ ?chunk @ replicate (SIM_MAILBOX - 3 - n) 0) =
      [0, 0x30, c] @ ?chunk @ replicate (7 - n) 0" for c
  proof -
    have "SIM_MAILBOX - 3 - n = (7 - n) + (SIM_MAILBOX - 3 - n - (7 - n))" using nn by (simp add: sim_sizes)
    then have "replicate (SIM_MAILBOX - 3 - n) (0 :: u8) =
        replicate (7 - n) 0 @ replicate (SIM_MAILBOX - 3 - n - (7 - n)) 0" by (metis replicate_add)
    then show ?thesis by (rule ssubst) (rule take_padded [OF lc])
  qed
  show ?thesis
    unfolding upload_segment_def Let_def t(1) [symmetric] n [symmetric] cmds body wire using cmd by simp
qed

lemma segment_command_bits:
  "segment_command toggle is_last n AND 0x10 \<noteq> 0 \<longleftrightarrow> toggle"
  "segment_command toggle is_last n AND 1 \<noteq> 0 \<longleftrightarrow> is_last"
  "unat (drop_bit 1 (segment_command toggle is_last n) AND 7) = (if is_last \<and> n < 7 then 7 - n else 0)"
  "segment_command toggle is_last n AND 0xE0 = 0"
  "segment_command toggle is_last n \<noteq> 0x80" "segment_command toggle is_last n \<noteq> 0x60"
proof -
  define u where "u = (if is_last \<and> n < 7 then 7 - n else 0)"
  have "u \<in> {0, 1, 2, 3, 4, 5, 6, 7}" by (auto simp: u_def)
  moreover have c: "segment_command toggle is_last n = (if toggle then 0x10 else 0) OR push_bit 1 (of_nat u) OR (if is_last then 1 else 0)"
    by (simp add: segment_command_def u_def)
  ultimately show "segment_command toggle is_last n AND 0x10 \<noteq> 0 \<longleftrightarrow> toggle"
    "segment_command toggle is_last n AND 1 \<noteq> 0 \<longleftrightarrow> is_last"
    "unat (drop_bit 1 (segment_command toggle is_last n) AND 7) = (if is_last \<and> n < 7 then 7 - n else 0)"
    "segment_command toggle is_last n AND 0xE0 = 0"
    "segment_command toggle is_last n \<noteq> 0x80" "segment_command toggle is_last n \<noteq> 0x60"
    unfolding c u_def [symmetric] by (auto split: if_splits)
qed

lemma download_segment_answer:
  assumes t: "t = es_transfer e" "tr_offset t + n \<le> tr_len t" "0 < n"
    and last: "is_last \<longleftrightarrow> tr_offset t + n = tr_len t" "is_last \<or> 7 \<le> n"
    and p: "p = [0, 0x20, segment_command (tr_toggle t) is_last n] @ chunk @ replicate (7 - n) 0" "length chunk = n"
    and t1: "t1 = t\<lparr>tr_data := copy_at (tr_data t) (tr_offset t) chunk, tr_offset := tr_offset t + n, tr_toggle := \<not> tr_toggle t\<rparr>"
    and reply: "reply = [0, 0x30, 0x20 OR push_bit 4 (of_bool (tr_toggle t))]"
  shows "\<not> is_last \<Longrightarrow> download_segment e (segment_command (tr_toggle t) is_last n) p = publish_mailbox (e\<lparr>es_transfer := t1\<rparr>) reply 3"
    and "is_last \<Longrightarrow> store_download (e\<lparr>es_transfer := t1\<lparr>tr_active := False\<rparr>\<rparr>) (tr_index t) (tr_sub t)
        (take (tr_len t) (tr_data t1)) = (e2, Ok ()) \<Longrightarrow>
      download_segment e (segment_command (tr_toggle t) is_last n) p = publish_mailbox e2 reply 3"
proof -
  let ?cmd = "segment_command (tr_toggle t) is_last n"
  define u where "u = (if is_last \<and> n < 7 then 7 - n else 0)"
  have lp: "length p = 3 + (n + (7 - n))" using p by simp
  have u: "unat (drop_bit 1 ?cmd AND 7) = u" unfolding u_def by (rule segment_command_bits(3))
  have ok: "10 \<le> length p" "u \<le> length p - 3" "is_last \<or> u = 0" "u = 0 \<or> length p = 10" "length p - 3 - u = n"
    using lp last(2) by (auto simp: u_def)
  have chunk: "subslice p 3 (3 + n) = chunk" using p by (simp add: subslice_def numeral_3_eq_3)
  show "download_segment e ?cmd p = publish_mailbox (e\<lparr>es_transfer := t1\<rparr>) reply 3" if "\<not> is_last"
    unfolding download_segment_def Let_def t(1) [symmetric] segment_command_bits(1,2) u ok(5) chunk
    using ok t(2) last(1) that by (auto simp: t1 reply)
  show "download_segment e ?cmd p = publish_mailbox e2 reply 3" if "is_last"
    "store_download (e\<lparr>es_transfer := t1\<lparr>tr_active := False\<rparr>\<rparr>) (tr_index t) (tr_sub t) (take (tr_len t) (tr_data t1)) = (e2, Ok ())"
    unfolding download_segment_def Let_def t(1) [symmetric] segment_command_bits(1,2) u ok(5) chunk
    using ok t(2) last(1) that by (auto simp: t1 reply)
qed

section \<open>What the master accepts\<close>

lemma decode_response:
  "coe_header_decode (response_prefix command index sub @ rest) = Ok \<lparr>ch_number = 0, ch_service = SvcSdoResponse\<rparr>"
  "coe_header_decode (0 # 0x30 # rest) = Ok \<lparr>ch_number = 0, ch_service = SvcSdoResponse\<rparr>"
  by (simp_all add: response_prefix_def coe_header_decode_def COE_HEADER_LEN_def service_from_u8_def)

lemma response_prefix_parts:
  assumes "p = response_prefix command index sub @ rest"
  shows "p ! 2 = command" "response_index p = index" "p ! 5 = sub"
    "subslice p 6 (6 + n) = take n rest" "drop 10 p = drop 4 rest" "length p = 6 + length rest"
    "response_u32 p = u32_from_le (rest ! 0) (rest ! 1) (rest ! 2) (rest ! 3)"
  by (simp_all add: assms response_prefix_def u16_to_le_def subslice_def response_index_def response_u32_def
      numeral_2_eq_2 numeral_3_eq_3)

lemma parse_download_prefix:
  "sdo_response_parse (response_prefix 0x60 index sub) = Ok \<lparr>sr_index = Some index, sr_subindex = Some sub, sr_data = [],
     sr_total_size = None, sr_toggle = False, sr_last = True, sr_abort_code = None, sr_command = 0x60, sr_complete_access = None\<rparr>"
proof -
  let ?p = "response_prefix 0x60 index sub"
  have p: "?p = response_prefix 0x60 index sub @ []" by simp
  show ?thesis
    using response_prefix_parts(1-3,6) [OF p] decode_response(1) [of _ _ _ "[]"]
    by (simp add: sdo_response_parse_def sdo_commands parse_download_response_def SDO_DATA_OFFSET_def)
qed

lemma parse_upload_small:
  assumes d: "d \<noteq> []" "length d \<le> 4" and ca: "ca = 0 \<or> ca = 0x10"
    and c: "c = 0x43 OR push_bit 2 (of_nat (4 - length d)) OR ca"
  shows "sdo_response_parse (response_prefix c index sub @ d @ replicate (4 - length d) 0) =
    Ok \<lparr>sr_index = Some index, sr_subindex = Some sub, sr_data = d, sr_total_size = None, sr_toggle = False, sr_last = True,
      sr_abort_code = None, sr_command = c, sr_complete_access = Some (ca \<noteq> 0)\<rparr>" "c AND 0xE0 = 0x40" "c AND 2 \<noteq> 0"
proof -
  let ?rest = "d @ replicate (4 - length d) 0"
  let ?p = "response_prefix c index sub @ ?rest"
  have "0 < length d" using d(1) by simp
  then have "4 - length d < 4" by linarith
  then have "4 - length d \<in> {0, 1, 2, 3}" unfolding numeral_eq_Suc less_Suc_eq by auto
  then have cmd: "c \<noteq> 0x80" "c AND 0xE0 = 0x40" "c AND 2 \<noteq> 0" "c AND 1 \<noteq> 0"
    "unat (drop_bit 2 c AND 3) = 4 - length d" "c AND 0x10 \<noteq> 0 \<longleftrightarrow> ca \<noteq> 0"
    using ca by (auto simp: c)
  have "4 - unat (drop_bit 2 c AND 3) = length d" using cmd(5) d(2) by simp
  moreover have "length ?p = 10" using d(2) by simp
  ultimately show "sdo_response_parse ?p =
    Ok \<lparr>sr_index = Some index, sr_subindex = Some sub, sr_data = d, sr_total_size = None, sr_toggle = False, sr_last = True,
      sr_abort_code = None, sr_command = c, sr_complete_access = Some (ca \<noteq> 0)\<rparr>"
    using response_prefix_parts(1-4) [OF refl, of c index sub ?rest] cmd(1-4,6)
    by (simp add: sdo_response_parse_def decode_response SDO_ABORT_def parse_upload_initiate_def SDO_COMPLETE_ACCESS_def Let_def
        SDO_INITIATE_LEN_def COE_HEADER_LEN_def SDO_DATA_OFFSET_def)
  show "c AND 0xE0 = 0x40" "c AND 2 \<noteq> 0" by (fact cmd(2), fact cmd(3))
qed

lemma unat_object_length: "n \<le> MAX_OBJECT_BYTES \<Longrightarrow> unat (of_nat n :: u32) = n"
  by (simp add: unsigned_of_nat take_bit_nat_eq_self_iff sim_sizes)

lemma parse_upload_large:
  assumes n: "n \<le> MAX_OBJECT_BYTES" and ca: "ca = 0 \<or> ca = 0x10" and c: "c = 0x41 OR ca"
  shows "sdo_response_parse (response_prefix c index sub @ u32_to_le (of_nat n) @ chunk) =
    Ok \<lparr>sr_index = Some index, sr_subindex = Some sub, sr_data = chunk, sr_total_size = Some n, sr_toggle = False, sr_last = False,
      sr_abort_code = None, sr_command = c, sr_complete_access = Some (ca \<noteq> 0)\<rparr>" "c AND 0xE0 = 0x40" "c AND 2 = 0"
proof -
  let ?rest = "u32_to_le (of_nat n) @ chunk"
  let ?p = "response_prefix c index sub @ ?rest"
  have cmd: "c \<noteq> 0x80" "c AND 0xE0 = 0x40" "c AND 2 = 0" "c AND 1 \<noteq> 0" "c AND 0x10 \<noteq> 0 \<longleftrightarrow> ca \<noteq> 0"
    using ca by (auto simp: c)
  have "response_u32 ?p = of_nat n"
    using response_prefix_parts(7) [OF refl, of c index sub ?rest] by (simp add: u32_to_le_def)
  then have u: "unat (response_u32 ?p) = n" using unat_object_length [OF n] by simp
  have "drop 10 ?p = chunk" using response_prefix_parts(5) [OF refl, of c index sub ?rest] by simp
  then show "sdo_response_parse ?p =
    Ok \<lparr>sr_index = Some index, sr_subindex = Some sub, sr_data = chunk, sr_total_size = Some n, sr_toggle = False, sr_last = False,
      sr_abort_code = None, sr_command = c, sr_complete_access = Some (ca \<noteq> 0)\<rparr>"
    using response_prefix_parts(1-3) [OF refl, of c index sub ?rest] cmd u
    by (simp add: sdo_response_parse_def decode_response SDO_ABORT_def parse_upload_initiate_def SDO_COMPLETE_ACCESS_def Let_def
        SDO_INITIATE_LEN_def COE_HEADER_LEN_def SDO_DATA_OFFSET_def)
  show "c AND 0xE0 = 0x40" "c AND 2 = 0" by (fact cmd(2), fact cmd(3))
qed

lemma parse_segment:
  assumes n: "0 < n" "is_last \<or> 7 \<le> n" "length chunk = n"
  shows "sdo_response_parse ([0, 0x30, segment_command toggle is_last n] @ chunk @ replicate (7 - n) 0) =
    Ok \<lparr>sr_index = None, sr_subindex = None, sr_data = chunk, sr_total_size = None, sr_toggle = toggle, sr_last = is_last,
      sr_abort_code = None, sr_command = segment_command toggle is_last n, sr_complete_access = None\<rparr>"
proof -
  let ?cmd = "segment_command toggle is_last n"
  let ?p = "[0, 0x30, ?cmd] @ chunk @ replicate (7 - n) 0"
  define u where "u = (if is_last \<and> n < 7 then 7 - n else 0)"
  have u: "unat (drop_bit 1 ?cmd AND 7) = u" unfolding u_def by (rule segment_command_bits(3))
  have lp: "length ?p = 3 + (n + (7 - n))" using n by simp
  have ok: "\<not> length ?p - 3 < 7" "\<not> (u \<noteq> 0 \<and> (\<not> is_last \<or> length ?p - 3 \<noteq> 7))"
    "(if is_last then length ?p - 3 - u else length ?p - 3) = n" "\<not> length ?p < 3"
    using n(2) unfolding lp by (auto simp: u_def)
  have chunk: "subslice ?p 3 (3 + n) = chunk" using n by (simp add: subslice_def numeral_3_eq_3)
  have c2: "?p ! 2 = ?cmd" by simp
  have last: "(?cmd AND 1 = 0) = (\<not> is_last)" using segment_command_bits(2) by blast
  have seg: "parse_upload_segment ?p = Ok \<lparr>sr_index = None, sr_subindex = None, sr_data = chunk, sr_total_size = None,
      sr_toggle = toggle, sr_last = is_last, sr_abort_code = None, sr_command = ?cmd, sr_complete_access = None\<rparr>"
    unfolding parse_upload_segment_def Let_def c2 u last segment_command_bits(1) MAX_SDO_SEGMENT_BYTES_def
      if_not_P [OF ok(1)] using ok chunk by (simp del: append.simps split: if_splits)
  have "coe_header_decode ?p = Ok \<lparr>ch_number = 0, ch_service = SvcSdoResponse\<rparr>"
    using decode_response(2) by simp
  then show ?thesis
    unfolding sdo_response_parse_def Let_def c2 segment_command_bits(4) seg
    using ok(4) segment_command_bits(5,6) [of toggle is_last n] by (simp add: SDO_ABORT_def SDO_DOWNLOAD_RESPONSE_def del: append.simps)
qed

lemma parse_confirmation:
  "sdo_response_parse [0, 0x30, 0x20 OR push_bit 4 (of_bool toggle)] =
    Ok \<lparr>sr_index = None, sr_subindex = None, sr_data = [], sr_total_size = None, sr_toggle = toggle, sr_last = True,
      sr_abort_code = None, sr_command = 0x20 OR push_bit 4 (of_bool toggle), sr_complete_access = None\<rparr>"
  by (cases toggle) (simp_all add: sdo_response_parse_def decode_response sdo_commands parse_download_segment_def Let_def)

lemma accept_download_confirmed:
  assumes "st_phase t = SdoAwaitInitiate" "st_direction t = SdoDownload"
  shows "accept_response t (response_prefix 0x60 (st_index t) (st_subindex t)) =
    (if st_data_len t \<le> st_offset t then (sdo_complete t, Ok SdoPrComplete)
     else (build_download_segment (t\<lparr>st_toggle := False\<rparr>), Ok SdoAdvanced))"
  using assms
  by (simp add: accept_response_def coe_lengths parse_download_prefix accept_download_initiate_def check_object_def sdo_commands)

lemma accept_segment_confirmed:
  assumes "st_phase t = SdoAwaitSegment" "st_direction t = SdoDownload" "toggle = st_toggle t"
  shows "accept_response t [0, 0x30, 0x20 OR push_bit 4 (of_bool toggle)] =
    (if st_data_len t \<le> st_offset t then (sdo_complete t, Ok SdoPrComplete)
     else (build_download_segment (t\<lparr>st_toggle := \<not> st_toggle t\<rparr>), Ok SdoAdvanced))"
proof -
  have "(0x20 OR push_bit 4 (of_bool toggle)) AND 0xE0 = (0x20 :: u8)" by (cases toggle) simp_all
  then show ?thesis
    using assms parse_confirmation [of toggle]
    by (simp add: accept_response_def coe_lengths accept_download_segment_def SDO_DOWNLOAD_SEGMENT_RESPONSE_def del: push_bit_of_1)
qed

end
