(* ===== verification/Sdo_Roundtrip.thy ===== *)
theory Sdo_Roundtrip
  imports Sdo_Exchange
begin

text \<open>
  Sessions of the master's SDO transfer with the simulated slave: a download of any size, in one
  or many segments, leaves exactly its data in the dictionary and no other object changed, and an
  upload returns what the dictionary holds. Both end within as many exchanges as the object has
  bytes, and one more.
\<close>

section \<open>Common\<close>

text \<open>What a transfer keeps: its buffers and its policy.\<close>

definition same_transfer :: "sdo_transfer \<Rightarrow> sdo_transfer \<Rightarrow> bool" where
  "same_transfer t t' \<longleftrightarrow> length (st_pending t') = length (st_pending t) \<and> st_capacity t' = st_capacity t \<and>
     length (st_data t') = length (st_data t) \<and> st_access_policy t' = st_access_policy t"

lemma same_transfer_trans: "same_transfer t t' \<Longrightarrow> same_transfer t' t'' \<Longrightarrow> same_transfer t t''"
  by (simp add: same_transfer_def)

lemma same_transfer_ok: "same_transfer t t' \<Longrightarrow> transfer_ok t \<Longrightarrow> transfer_ok t'"
  by (simp add: same_transfer_def transfer_ok_def)

text \<open>The dictionary after a download.\<close>

definition stored :: "esc \<Rightarrow> esc \<Rightarrow> u16 \<Rightarrow> u8 \<Rightarrow> bytes \<Rightarrow> bool" where
  "stored e e' index sub data \<longleftrightarrow> sim_ready e' \<and> es_sm e' = es_sm e \<and> (\<forall>index' sub'. object e' index' sub' =
     (if index' = index \<and> sub' = sub then Some data else object e index' sub'))"

lemma store_download_same:
  assumes "es_large e1 = es_large e" "es_objects e1 = es_objects e"
  shows "snd (store_download e1 index sub data) = snd (store_download e index sub data)"
  using assms object_cong [OF assms]
  by (simp add: store_download_def set_object_def split: option.splits)

lemma store_download_map:
  assumes "dictionary_ok e" "store_download e index sub data = (e', Ok ())"
  shows "dictionary_ok e'" "object e' index' sub' = (if index' = index \<and> sub' = sub then Some data else object e index' sub')"
    "same_hardware e e'" "es_transfer e' = es_transfer e"
proof -
  have run: "set_object e index sub data = (e', Ok ())"
    using assms(2) by (simp add: store_download_def split: if_splits)
  show "dictionary_ok e'" "object e' index' sub' = (if index' = index \<and> sub' = sub then Some data else object e index' sub')"
    using set_object_map [OF assms(1) run] by auto
  show "same_hardware e e'" "es_transfer e' = es_transfer e" using set_object_rest [OF run] by auto
qed

lemma session_done: "sdo_request t = None \<Longrightarrow> sdo_session n c (t, e) = (t, e)"
  by (cases n) simp_all

lemma session_step:
  "sdo_request t = Some p \<Longrightarrow> sdo_session (Suc n) c (t, e) = sdo_session n (mailbox_next_counter c) (sdo_exchange c p (t, e))"
  by simp

lemma complete_request [simp]: "sdo_request (sdo_complete t) = None" "st_phase (sdo_complete t) = SdoPhComplete"
  by (simp_all add: sdo_request_def sdo_complete_def)

lemma build_download_segment_keeps:
  "st_direction (build_download_segment t) = st_direction t" "st_index (build_download_segment t) = st_index t"
  "st_subindex (build_download_segment t) = st_subindex t" "st_data (build_download_segment t) = st_data t"
  "st_data_len (build_download_segment t) = st_data_len t" "st_capacity (build_download_segment t) = st_capacity t"
  "st_access_policy (build_download_segment t) = st_access_policy t" "st_toggle (build_download_segment t) = st_toggle t"
  "st_offset (build_download_segment t) = st_offset t + next_chunk t" "st_phase (build_download_segment t) = SdoAwaitSegment"
  by (simp_all add: build_download_segment_def Let_def next_chunk_def)

lemma length_put_header: "2 \<le> length p \<Longrightarrow> length (put_header p SvcSdoRequest) = length p"
  by (simp add: put_header_request)

lemma build_download_segment_pending:
  assumes "transfer_ok t" "st_offset t \<le> st_data_len t" "st_data_len t \<le> length (st_data t)"
  shows "length (st_pending (build_download_segment t)) = length (st_pending t)"
proof -
  have "next_chunk t \<le> st_capacity t - 3" "next_chunk t \<le> st_data_len t - st_offset t" by (simp_all add: next_chunk_def)
  moreover have "st_capacity t \<le> 122" "length (st_pending t) = 128" using assms(1) by (simp_all add: transfer_ok_def coe_lengths)
  ultimately have n: "next_chunk t \<le> 119" "next_chunk t \<le> st_data_len t - st_offset t" "length (st_pending t) = 128" by linarith+
  then have "max (next_chunk t) 7 \<le> 119" "st_offset t + next_chunk t \<le> length (st_data t)" using assms by auto
  with n show ?thesis
    by (simp add: build_download_segment_def Let_def next_chunk_def [symmetric] length_put_header coe_lengths)
qed

section \<open>Downloading in segments\<close>

definition downloading :: "sdo_transfer \<Rightarrow> esc \<Rightarrow> bytes \<Rightarrow> nat \<Rightarrow> bool" where
  "downloading t e data k \<longleftrightarrow>
     transfer_ok t \<and> st_direction t = SdoDownload \<and> st_data_len t = length data \<and> st_offset t = k \<and> k < length data \<and>
     length data \<le> length (st_data t) \<and> take (length data) (st_data t) = data \<and> length data \<le> MAX_OBJECT_BYTES \<and>
     sim_ready e \<and> st_capacity t + 6 \<le> sm_len e 0 \<and>
     tr_active (es_transfer e) \<and> \<not> tr_upload (es_transfer e) \<and> tr_index (es_transfer e) = st_index t \<and>
     tr_sub (es_transfer e) = st_subindex t \<and> tr_len (es_transfer e) = length data \<and> tr_offset (es_transfer e) = k \<and>
     tr_toggle (es_transfer e) = st_toggle t \<and> length (tr_data (es_transfer e)) = MAX_OBJECT_BYTES \<and>
     take k (tr_data (es_transfer e)) = take k data"

lemma take_subslice_prefix:
  assumes "take m xs = ys" "k + n \<le> m" "m \<le> length xs"
  shows "subslice xs k (k + n) = take n (drop k ys)"
  using assms by (auto simp: subslice_def drop_take min_def)

lemma take_extend:
  assumes "take k xs = take k ys" "k + n \<le> length xs" "k + n \<le> length ys"
  shows "take (k + n) (copy_at xs k (take n (drop k ys))) = take (k + n) ys"
proof -
  have len: "length (take k xs) = k" "length (take n (drop k ys)) = n" using assms(2,3) by simp_all
  then have "take (k + n) (copy_at xs k (take n (drop k ys))) = take k xs @ take n (drop k ys)"
    by (simp add: copy_at_def)
  then show ?thesis by (simp add: assms(1) take_add)
qed

lemma downloading_step:
  assumes st: "downloading t e data k" and c: "c \<le> MAILBOX_COUNTER_MASK"
    and store: "snd (store_download e (st_index t) (st_subindex t) data) = Ok ()"
    and n: "n = next_chunk t"
  obtains p e' where "sdo_request (build_download_segment t) = Some p" "0 < n"
    "k + n = length data \<Longrightarrow> sdo_exchange c p (build_download_segment t, e) = (sdo_complete (build_download_segment t), e') \<and>
       stored e e' (st_index t) (st_subindex t) data"
    "k + n < length data \<Longrightarrow> \<exists>t'. sdo_exchange c p (build_download_segment t, e) = (build_download_segment t', e') \<and>
       downloading t' e' data (k + n) \<and> same_transfer t t' \<and> st_index t' = st_index t \<and> st_subindex t' = st_subindex t \<and>
       es_large e' = es_large e \<and> es_objects e' = es_objects e \<and> es_sm e' = es_sm e"
    "k + n \<le> length data"
proof -
  note d = st [unfolded downloading_def]
  let ?b = "build_download_segment t" and ?tr = "es_transfer e"
  let ?chunk = "take n (drop k data)" and ?last = "k + n = length data"
  have cap: "10 \<le> st_capacity t" "st_capacity t \<le> 122" using d by (simp_all add: transfer_ok_def coe_lengths)
  have nn: "0 < n" "k + n \<le> length data" "n \<le> st_capacity t - 3" "?last \<or> n = st_capacity t - 3"
    using d n cap by (auto simp: next_chunk_def)
  have lc: "length ?chunk = n" using nn by simp
  have "(n = st_data_len t - st_offset t) = ?last" using d nn by auto
  moreover have "subslice (st_data t) (st_offset t) (st_offset t + n) = ?chunk"
    using take_subslice_prefix [of "length data" "st_data t" data k n] d nn by simp
  ultimately have req: "sdo_request ?b = Some ([0, 0x20, segment_command (st_toggle t) ?last n] @ ?chunk @ replicate (7 - n) 0)"
    using request_segment [of t n ?chunk] d n lc by simp
  define p where "p = [0, 0x20, segment_command (st_toggle t) ?last n] @ ?chunk @ replicate (7 - n) 0"
  define tr1 where "tr1 = ?tr\<lparr>tr_data := copy_at (tr_data ?tr) k ?chunk, tr_offset := k + n, tr_toggle := \<not> tr_toggle ?tr\<rparr>"
  define reply where "reply = [0, 0x30, 0x20 OR push_bit 4 (of_bool (st_toggle t)) :: u8]"
  have lp: "3 \<le> length p" "length p + 6 \<le> sm_len e 0" "p ! 1 = 0x20" "p ! 2 = segment_command (st_toggle t) ?last n"
    using nn cap d lc by (auto simp: p_def)
  have serve: "serve (sent e c p) p = download_segment (sent e c p) (segment_command (st_toggle t) ?last n) p"
    using d segment_command_bits(4,5) [of "st_toggle t" ?last n] by (simp add: serve_def Let_def lp(4))
  have seven: "?last \<or> 7 \<le> n" using nn cap by auto
  have data: "take (k + n) (tr_data tr1) = take (k + n) data"
    using take_extend [of k "tr_data ?tr" data n] d nn by (simp add: tr1_def)
  have fields: "es_transfer (sent e c p) = ?tr" "tr_offset ?tr + n \<le> tr_len ?tr" "(?last) = (tr_offset ?tr + n = tr_len ?tr)"
    using d nn by simp_all
  have tog: "st_toggle t = tr_toggle ?tr" "tr_offset ?tr = k" using d by simp_all
  have p_tr: "p = [0, 0x20, segment_command (tr_toggle ?tr) ?last n] @ ?chunk @ replicate (7 - n) 0"
    unfolding p_def tog ..
  have tr1_tr: "tr1 = ?tr\<lparr>tr_data := copy_at (tr_data ?tr) (tr_offset ?tr) ?chunk, tr_offset := tr_offset ?tr + n,
      tr_toggle := \<not> tr_toggle ?tr\<rparr>"
    unfolding tr1_def tog ..
  have reply_tr: "reply = [0, 0x30, 0x20 OR push_bit 4 (of_bool (tr_toggle ?tr))]"
    unfolding reply_def tog ..
  have acc: "fst (accept_response ?b reply) = (if ?last then sdo_complete ?b
      else build_download_segment (?b\<lparr>st_toggle := \<not> st_toggle t\<rparr>))"
    using accept_segment_confirmed [of ?b "st_toggle t"] d n nn
    by (auto simp: build_download_segment_keeps reply_def)
  have r: "length reply + 6 \<le> sm_len e 1" using d by (simp add: reply_def sim_ready_def)
  note ready = d [THEN conjunct2, THEN conjunct2, THEN conjunct2, THEN conjunct2, THEN conjunct2, THEN conjunct2,
      THEN conjunct2, THEN conjunct2, THEN conjunct1]
  show thesis
  proof (cases ?last)
    case True
    let ?f = "(sent e c p)\<lparr>es_transfer := tr1\<lparr>tr_active := False\<rparr>\<rparr>"
    have "snd (store_download ?f (st_index t) (st_subindex t) data) = Ok ()"
      using store_download_same [of ?f e] store by simp
    then obtain e2 where e2: "store_download ?f (st_index t) (st_subindex t) data = (e2, Ok ())"
      by (cases "store_download ?f (st_index t) (st_subindex t) data") simp
    have dic: "dictionary_ok ?f" using ready by (simp add: sim_ready_def dictionary_ok_def)
    note map = store_download_map [OF dic e2]
    have obj: "object ?f = object e" by (rule object_cong) simp_all
    have whole: "store_download ((sent e c p)\<lparr>es_transfer := tr1\<lparr>tr_active := False\<rparr>\<rparr>) (tr_index ?tr) (tr_sub ?tr)
        (take (tr_len ?tr) (tr_data tr1)) = (e2, Ok ())"
      using e2 data True d by simp
    have hw: "same_hardware (sent e c p) e2" using map(3) by (simp add: same_hardware_def)
    have ans: "serve (sent e c p) p = publish_mailbox e2 reply 3"
      unfolding serve
      unfolding tog
      by (rule download_segment_answer(2) [OF fields(1) [symmetric] fields(2) nn(1) fields(3) seven p_tr lc tr1_tr reply_tr True whole])
    have "sdo_exchange c p (?b, e) = (sdo_complete ?b, answered e2 reply)"
      using exchange_answer [OF ready c lp(1-3) ans hw r, of ?b] acc True by simp
    moreover have "stored e (answered e2 reply) (st_index t) (st_subindex t) data"
      using answered_ready [OF ready hw map(1)] map(2) hw obj by (simp add: stored_def same_hardware_def)
    ultimately show thesis using that [OF req [folded p_def] nn(1)] True by simp
  next
    case False
    let ?e2 = "(sent e c p)\<lparr>es_transfer := tr1\<rparr>" and ?t' = "?b\<lparr>st_toggle := \<not> st_toggle t\<rparr>"
    have hw: "same_hardware (sent e c p) ?e2" by (simp add: same_hardware_def)
    have ans: "serve (sent e c p) p = publish_mailbox ?e2 reply 3"
      unfolding serve
      unfolding tog
      by (rule download_segment_answer(1) [OF fields(1) [symmetric] fields(2) nn(1) fields(3) seven p_tr lc tr1_tr reply_tr False])
    have ex: "sdo_exchange c p (?b, e) = (build_download_segment ?t', answered ?e2 reply)"
      using exchange_answer [OF ready c lp(1-3) ans hw r, of ?b] acc False by simp
    have same: "same_transfer t ?t'"
      using build_download_segment_pending [of t] d by (simp add: same_transfer_def build_download_segment_keeps)
    have ready': "sim_ready (answered ?e2 reply)"
      using answered_ready [OF ready hw] ready by (simp add: sim_ready_def dictionary_ok_def)
    have "downloading ?t' (answered ?e2 reply) data (k + n)"
      unfolding downloading_def using d nn False data same_transfer_ok [OF same] n ready'
      by (simp add: build_download_segment_keeps tr1_def sm_len_def)
    then have "\<exists>t'. sdo_exchange c p (?b, e) = (build_download_segment t', answered ?e2 reply) \<and>
        downloading t' (answered ?e2 reply) data (k + n) \<and> same_transfer t t' \<and> st_index t' = st_index t \<and>
        st_subindex t' = st_subindex t \<and> es_large (answered ?e2 reply) = es_large e \<and>
        es_objects (answered ?e2 reply) = es_objects e \<and> es_sm (answered ?e2 reply) = es_sm e"
      using ex same by (intro exI [of _ ?t']) (simp add: build_download_segment_keeps)
    with False nn(2) show thesis
      by (intro that [OF req [folded p_def] nn(1), of "answered ?e2 reply"]) simp_all
  qed
qed

text \<open>The rest of the download, from any position.\<close>

lemma download_session:
  assumes "downloading t e data k" "c \<le> MAILBOX_COUNTER_MASK"
    "snd (store_download e (st_index t) (st_subindex t) data) = Ok ()" "length data - k \<le> m"
  shows "\<exists>t' e'. sdo_session m c (build_download_segment t, e) = (t', e') \<and> st_phase t' = SdoPhComplete \<and>
    same_transfer t t' \<and> stored e e' (st_index t) (st_subindex t) data"
  using assms
proof (induction m arbitrary: t e k c)
  case 0
  then show ?case by (simp add: downloading_def)
next
  case (Suc m)
  define n where "n = next_chunk t"
  obtain p e' where step: "sdo_request (build_download_segment t) = Some p" "0 < n"
      "k + n = length data \<Longrightarrow> sdo_exchange c p (build_download_segment t, e) = (sdo_complete (build_download_segment t), e') \<and>
         stored e e' (st_index t) (st_subindex t) data"
      "k + n < length data \<Longrightarrow> \<exists>t'. sdo_exchange c p (build_download_segment t, e) = (build_download_segment t', e') \<and>
         downloading t' e' data (k + n) \<and> same_transfer t t' \<and> st_index t' = st_index t \<and> st_subindex t' = st_subindex t \<and>
         es_large e' = es_large e \<and> es_objects e' = es_objects e \<and> es_sm e' = es_sm e"
      "k + n \<le> length data"
    using downloading_step [OF Suc.prems(1-3) n_def] by metis
  show ?case
  proof (cases "k + n = length data")
    case True
    have keep: "same_transfer t (sdo_complete (build_download_segment t))"
      using Suc.prems(1) build_download_segment_pending [of t]
      by (auto simp: same_transfer_def sdo_complete_def build_download_segment_keeps downloading_def)
    show ?thesis using step(3) [OF True] keep unfolding session_step [OF step(1)] by (simp add: session_done)
  next
    case False
    then obtain t' where t': "sdo_exchange c p (build_download_segment t, e) = (build_download_segment t', e')"
        "downloading t' e' data (k + n)" "same_transfer t t'" "st_index t' = st_index t" "st_subindex t' = st_subindex t"
        "es_large e' = es_large e" "es_objects e' = es_objects e" "es_sm e' = es_sm e"
      using step(4,5) by auto
    have store: "snd (store_download e' (st_index t') (st_subindex t') data) = Ok ()"
      using store_download_same [OF t'(6,7)] Suc.prems(3) t'(4,5) by simp
    have "length data - (k + n) \<le> m" using Suc.prems(4) step(2) by linarith
    then obtain t2 e2 where r: "sdo_session m (mailbox_next_counter c) (build_download_segment t', e') = (t2, e2)"
        "st_phase t2 = SdoPhComplete" "same_transfer t' t2" "stored e' e2 (st_index t') (st_subindex t') data"
      using Suc.IH [OF t'(2) mailbox_next_counter_range store] by blast
    have "stored e e2 (st_index t) (st_subindex t) data"
      using r(4) t'(4,5,8) object_cong [OF t'(6,7)] by (simp add: stored_def)
    then show ?thesis
      unfolding session_step [OF step(1)] t'(1) using r same_transfer_trans [OF t'(3) r(3)] by blast
  qed
qed

section \<open>Starting\<close>

lemma begin_fields:
  assumes "sdo_begin t dir index sub access data = (t0, Ok ())"
  shows "st_phase t0 = SdoAwaitInitiate" "st_direction t0 = dir" "st_index t0 = index" "st_subindex t0 = sub"
    "st_access t0 = access" "st_data_len t0 = length data" "st_offset t0 = 0" "st_expected_size t0 = None" "same_transfer t t0"
    "length data \<le> length (st_data t0)" "take (length data) (st_data t0) = data"
    "policy_permits (st_access_policy t) access" "access = SdoComplete \<Longrightarrow> sub \<le> 1"
  using assms
  by (auto simp: sdo_begin_def same_transfer_def copy_at_def not_less split: if_splits)

lemma access_bit: "complete_access_bit t = 0 \<or> complete_access_bit t = 0x10"
  by (simp add: complete_access_bit_def SDO_COMPLETE_ACCESS_def)

lemma expedited_command_bits:
  assumes "0 < st_data_len t" "st_data_len t \<le> 4"
  shows "expedited_command t \<noteq> 0x80" "expedited_command t AND 0xE0 = 0x20" "expedited_command t AND 0xEF \<noteq> 0x60"
    "expedited_command t AND 2 \<noteq> 0" "expedited_command t AND 1 \<noteq> 0"
    "4 - unat (drop_bit 2 (expedited_command t) AND 3) = st_data_len t"
proof -
  have "st_data_len t \<in> {1, 2, 3, 4}" using assms by auto
  then show "expedited_command t \<noteq> 0x80" "expedited_command t AND 0xE0 = 0x20" "expedited_command t AND 0xEF \<noteq> 0x60"
    "expedited_command t AND 2 \<noteq> 0" "expedited_command t AND 1 \<noteq> 0"
    "4 - unat (drop_bit 2 (expedited_command t) AND 3) = st_data_len t"
    using access_bit [of t] by (auto simp: expedited_command_def SDO_DOWNLOAD_EXPEDITED_def)
qed

lemma normal_command_bits:
  fixes t defines "c \<equiv> SDO_DOWNLOAD_NORMAL OR complete_access_bit t"
  shows "c \<noteq> 0x80" "c AND 0xE0 = 0x20" "c AND 0xEF \<noteq> 0x60" "c AND 2 = 0"
  using access_bit [of t] by (auto simp: c_def SDO_DOWNLOAD_NORMAL_def)

text \<open>An initiate request is served whatever transfer the slave believes to be in.\<close>

lemma serve_initiate:
  assumes "p = request_prefix command index sub @ rest" "command \<noteq> 0x80" "command AND 0xEF \<noteq> 0x60"
  shows "command AND 0xE0 = 0x20 \<Longrightarrow> serve e p = serve_download e p"
    and "command AND 0xE0 = 0x40 \<Longrightarrow> serve e p = serve_upload e p"
  using assms(2,3) request_prefix_parts(2,8) [OF assms(1)] by (simp_all add: serve_def Let_def)

lemma stored_answer:
  assumes "sim_ready e" "dictionary_ok f" "object f = object e" "same_hardware (sent e c p) f"
    and "store_download f index sub data = (e2, Ok ())"
  shows "same_hardware (sent e c p) e2" "stored e (answered e2 r) index sub data"
proof -
  note map = store_download_map [OF assms(2,5)]
  show hw: "same_hardware (sent e c p) e2" using assms(4) map(3) by (simp add: same_hardware_def)
  show "stored e (answered e2 r) index sub data"
    using answered_ready [OF assms(1) hw map(1)] map(2) hw assms(3) by (simp add: stored_def same_hardware_def)
qed

lemma store_download_Ok:
  assumes "snd (store_download e index sub data) = Ok ()"
  shows "data \<noteq> []" "length data \<le> MAX_OBJECT_BYTES"
    and "es_large f = es_large e \<Longrightarrow> es_objects f = es_objects e \<Longrightarrow> \<exists>e2. store_download f index sub data = (e2, Ok ())"
proof -
  show "data \<noteq> []" "length data \<le> MAX_OBJECT_BYTES"
    using assms by (auto simp: store_download_def set_object_def split: if_splits)
  show "\<exists>e2. store_download f index sub data = (e2, Ok ())" if "es_large f = es_large e" "es_objects f = es_objects e"
    using store_download_same [OF that, of index sub data] assms by (metis prod.collapse)
qed

lemma download_expedited:
  assumes beg: "sdo_begin t SdoDownload index sub access data = (t0, Ok ())" and ok: "transfer_ok t"
    and ready: "sim_ready e" and c: "c \<le> MAILBOX_COUNTER_MASK" and store: "snd (store_download e index sub data) = Ok ()"
    and small: "length data \<le> 4"
  shows "\<exists>t2 e2. sdo_session (Suc m) c (build_download_expedited t0, e) = (t2, e2) \<and> st_phase t2 = SdoPhComplete \<and>
    same_transfer t t2 \<and> stored e e2 index sub data"
proof -
  note b = begin_fields [OF beg]
  note so = store_download_Ok [OF store]
  let ?b = "build_download_expedited t0"
  have ok0: "transfer_ok t0" using same_transfer_ok [OF b(9) ok] .
  define p where "p = request_prefix (expedited_command t0) index sub @ data @ replicate (4 - length data) 0"
  have req: "sdo_request ?b = Some p"
    unfolding p_def using request_expedited [OF ok0, of data, unfolded b(3,4,6), OF small b(11) refl] .
  have p: "3 \<le> length p" "length p + 6 \<le> sm_len e 0" "p ! 1 = 0x20"
    using small ready request_prefix_parts(1,8) [OF p_def] by (simp_all add: sim_ready_def)
  have "0 < length data" using so(1) by simp
  then have cmd: "expedited_command t0 \<noteq> 0x80" "expedited_command t0 AND 0xE0 = 0x20" "expedited_command t0 AND 0xEF \<noteq> 0x60"
      "expedited_command t0 AND 2 \<noteq> 0" "expedited_command t0 AND 1 \<noteq> 0"
      "4 - unat (drop_bit 2 (expedited_command t0) AND 3) = length data"
    using expedited_command_bits [of t0] b(6) small by simp_all
  obtain e2 where e2: "store_download (sent e c p) index sub data = (e2, Ok ())"
    using so(3) [of "sent e c p"] by auto
  have dic: "dictionary_ok (sent e c p)" using ready by (simp add: sim_ready_def)
  note st = stored_answer [OF ready dic sent_fields(9) same_hardware_refl e2]
  have "serve (sent e c p) p = publish_mailbox e2 (response_prefix 0x60 index sub) 3"
    unfolding serve_initiate(1) [OF p_def cmd(1,3,2)]
    by (rule serve_download_expedited [OF p_def _ cmd(4,5) _ e2]) (use small in \<open>simp_all add: cmd(6)\<close>)
  from exchange_answer [OF ready c p this st(1)] ready
  have ex: "sdo_exchange c p (?b, e) = (fst (accept_response ?b (response_prefix 0x60 index sub)),
      answered e2 (response_prefix 0x60 index sub))" by (simp add: sim_ready_def)
  have keeps: "st_phase ?b = SdoAwaitInitiate" "st_direction ?b = SdoDownload" "st_index ?b = index" "st_subindex ?b = sub"
    "st_data_len ?b = st_offset ?b"
    using b by (simp_all add: build_download_expedited_def Let_def write_common_header_def)
  have "length (st_pending ?b) = length (st_pending t0)"
    using ok0 b(6,11,10) small
    by (simp add: build_download_expedited_def Let_def write_common_header_pending transfer_ok_def coe_lengths)
  then have "same_transfer t0 (sdo_complete ?b)"
    by (simp add: same_transfer_def sdo_complete_def build_download_expedited_def Let_def write_common_header_def)
  moreover have "fst (accept_response ?b (response_prefix 0x60 index sub)) = sdo_complete ?b"
    using accept_download_confirmed [of ?b] keeps by simp
  ultimately show ?thesis
    unfolding session_step [OF req] ex using st(2) same_transfer_trans [OF b(9)] by (simp add: session_done)
qed

lemma build_download_initiate_keeps:
  "st_phase (build_download_initiate t) = st_phase t" "st_direction (build_download_initiate t) = st_direction t"
  "st_index (build_download_initiate t) = st_index t" "st_subindex (build_download_initiate t) = st_subindex t"
  "st_data (build_download_initiate t) = st_data t" "st_data_len (build_download_initiate t) = st_data_len t"
  "st_capacity (build_download_initiate t) = st_capacity t" "st_access_policy (build_download_initiate t) = st_access_policy t"
  "st_offset (build_download_initiate t) = min (st_data_len t) (st_capacity t - 10)"
  by (simp_all add: build_download_initiate_def Let_def write_common_header_def coe_lengths)

lemma build_download_initiate_pending:
  assumes "transfer_ok t" "st_data_len t \<le> length (st_data t)"
  shows "length (st_pending (build_download_initiate t)) = length (st_pending t)"
proof -
  define n where "n = min (st_data_len t) (st_capacity t - 10)"
  have "st_capacity t \<le> 122" "length (st_pending t) = 128" using assms(1) by (simp_all add: transfer_ok_def coe_lengths)
  moreover have "n \<le> st_capacity t - 10" "n \<le> st_data_len t" by (simp_all add: n_def)
  ultimately have n: "n \<le> 112" "n \<le> length (st_data t)" "length (st_pending t) = 128" using assms(2) by linarith+
  show ?thesis using n
    by (simp add: build_download_initiate_def Let_def write_common_header_pending coe_lengths n_def [symmetric])
qed

lemma download_normal:
  assumes beg: "sdo_begin t SdoDownload index sub access data = (t0, Ok ())" and ok: "transfer_ok t"
    and ready: "sim_ready e" and cap: "st_capacity t + 6 \<le> sm_len e 0" and c: "c \<le> MAILBOX_COUNTER_MASK"
    and store: "snd (store_download e index sub data) = Ok ()"
  shows "\<exists>t2 e2. sdo_session (Suc (length data)) c (build_download_initiate t0, e) = (t2, e2) \<and> st_phase t2 = SdoPhComplete \<and>
    same_transfer t t2 \<and> stored e e2 index sub data"
proof -
  note b = begin_fields [OF beg]
  note so = store_download_Ok [OF store]
  let ?b = "build_download_initiate t0" and ?cmd = "SDO_DOWNLOAD_NORMAL OR complete_access_bit t0"
  have ok0: "transfer_ok t0" using same_transfer_ok [OF b(9) ok] .
  have cap0: "st_capacity t0 = st_capacity t" "10 \<le> st_capacity t"
    using b(9) ok by (simp_all add: same_transfer_def transfer_ok_def coe_lengths)
  define n where "n = min (length data) (st_capacity t - 10)"
  let ?chunk = "take n data"
  have n: "n \<le> length data" "n \<le> st_capacity t - 10" by (simp_all add: n_def)
  have lc: "length ?chunk = n" using n by simp
  have chunk: "take (min (st_data_len t0) (st_capacity t0 - 10)) (st_data t0) = ?chunk"
  proof -
    have "take n (st_data t0) = take n (take (length data) (st_data t0))" using n by simp
    then show ?thesis unfolding b(6,11) cap0(1) n_def .
  qed
  define p where "p = request_prefix ?cmd index sub @ u32_to_le (of_nat (length data)) @ ?chunk"
  have req: "sdo_request ?b = Some p"
    unfolding p_def using request_normal [OF ok0 chunk] lc b(3,4,6) cap0(1) by (simp add: n_def)
  have p: "3 \<le> length p" "length p + 6 \<le> sm_len e 0" "p ! 1 = 0x20"
    using n cap cap0(2) lc request_prefix_parts(1,8) [OF p_def] by simp_all
  define e1 where "e1 = (sent e c p)\<lparr>es_transfer := \<lparr>tr_active = length ?chunk < length data, tr_upload = False,
      tr_index = index, tr_sub = sub, tr_len = length data, tr_offset = length ?chunk, tr_toggle = False,
      tr_data = copy_at (replicate MAX_OBJECT_BYTES 0) 0 ?chunk\<rparr>\<rparr>"
  have lchunk: "length ?chunk \<le> length data" using n lc by simp
  note ans = serve_download_normal [OF p_def so(2) lchunk normal_command_bits(4) e1_def]
  have init: "serve (sent e c p) p = serve_download (sent e c p) p"
    by (rule serve_initiate(1) [OF p_def normal_command_bits(1,3,2)])
  have hw1: "same_hardware (sent e c p) e1" by (simp add: e1_def same_hardware_def)
  have r: "length (response_prefix 0x60 index sub) + 6 \<le> sm_len e 1" using ready by (simp add: sim_ready_def)
  have dic: "dictionary_ok e1" "object e1 = object e"
    using ready object_cong [of e1 e] by (simp_all add: e1_def sim_ready_def dictionary_ok_def)
  have keep: "same_transfer t0 ?b"
    using build_download_initiate_pending [OF ok0] b(6,10) by (simp add: same_transfer_def build_download_initiate_keeps)
  have off: "st_offset ?b = n" using b(6) cap0(1) by (simp add: build_download_initiate_keeps n_def)
  have acc: "fst (accept_response ?b (response_prefix 0x60 index sub)) =
      (if length data \<le> n then sdo_complete ?b else build_download_segment (?b\<lparr>st_toggle := False\<rparr>))"
    using accept_download_confirmed [of ?b] b(1-4,6) off by (simp add: build_download_initiate_keeps)
  show ?thesis
  proof (cases "n = length data")
    case True
    obtain e2 where e2: "store_download e1 index sub data = (e2, Ok ())"
      using so(3) [of e1] by (auto simp: e1_def)
    note st = stored_answer [OF ready dic hw1 e2]
    have "serve (sent e c p) p = publish_mailbox e2 (response_prefix 0x60 index sub) 3"
      unfolding init using ans(2) True e2 by simp
    from exchange_answer [OF ready c p this st(1) r] acc True
    have ex: "sdo_exchange c p (?b, e) = (sdo_complete ?b, answered e2 (response_prefix 0x60 index sub))" by simp
    have "same_transfer t (sdo_complete ?b)"
      using same_transfer_trans [OF b(9) keep] by (simp add: same_transfer_def sdo_complete_def)
    then show ?thesis unfolding session_step [OF req] ex using st(2) by (simp add: session_done)
  next
    case False
    let ?t' = "?b\<lparr>st_toggle := False\<rparr>" and ?r = "response_prefix 0x60 index sub"
    have lt: "n < length data" using False n by simp
    have "serve (sent e c p) p = publish_mailbox e1 ?r 3"
      unfolding init using ans(1) lt lc by simp
    from exchange_answer [OF ready c p this hw1 r] acc lt
    have ex: "sdo_exchange c p (?b, e) = (build_download_segment ?t', answered e1 ?r)" by simp
    have ready': "sim_ready (answered e1 ?r)" by (rule answered_ready [OF ready hw1 dic(1)])
    have keep': "same_transfer t ?t'" using same_transfer_trans [OF b(9) keep] by (simp add: same_transfer_def)
    have sm: "sm_len (answered e1 ?r) 0 = sm_len e 0" by (simp add: sm_len_def e1_def)
    have tr: "es_transfer (answered e1 ?r) = \<lparr>tr_active = True, tr_upload = False,
      tr_index = index, tr_sub = sub, tr_len = length data, tr_offset = n, tr_toggle = False,
      tr_data = copy_at (replicate MAX_OBJECT_BYTES 0) 0 ?chunk\<rparr>" using lt lc by (simp add: e1_def)
    have dl: "downloading ?t' (answered e1 ?r) data n"
      unfolding downloading_def tr sm
      using ready' same_transfer_ok [OF keep' ok] b(2-4,6,10,11) off lt so(2) cap cap0 lc
      by (simp add: build_download_initiate_keeps copy_at_def)
    have store': "snd (store_download (answered e1 ?r) (st_index ?t') (st_subindex ?t') data) = Ok ()"
      using store_download_same [of "answered e1 ?r" e] store b(3,4) by (simp add: build_download_initiate_keeps e1_def)
    obtain t2 e2 where s: "sdo_session (length data) (mailbox_next_counter c) (build_download_segment ?t', answered e1 ?r) = (t2, e2)"
        "st_phase t2 = SdoPhComplete" "same_transfer ?t' t2" "stored (answered e1 ?r) e2 (st_index ?t') (st_subindex ?t') data"
      using download_session [OF dl mailbox_next_counter_range store'] by (metis diff_le_self)
    have "stored e e2 index sub data"
      using s(4) b(3,4) dic(2) by (simp add: stored_def build_download_initiate_keeps e1_def)
    then show ?thesis
      unfolding session_step [OF req] ex using s same_transfer_trans [OF keep' s(3)] by blast
  qed
qed

text \<open>A download of any data the slave can store arrives.\<close>

lemma download_arrives:
  assumes "start_download t index sub data access = (t1, Ok ())" "transfer_ok t" "sim_ready e"
    "st_capacity t + 6 \<le> sm_len e 0" "c \<le> MAILBOX_COUNTER_MASK" "snd (store_download e index sub data) = Ok ()"
  shows "\<exists>t2 e2. sdo_session (Suc (length data)) c (t1, e) = (t2, e2) \<and> st_phase t2 = SdoPhComplete \<and>
    same_transfer t t2 \<and> stored e e2 index sub data"
proof -
  obtain t0 where t0: "sdo_begin t SdoDownload index sub access data = (t0, Ok ())"
      "t1 = (if data \<noteq> [] \<and> length data \<le> 4 then build_download_expedited t0 else build_download_initiate t0)"
    using assms(1) by (auto simp: start_download_def split: prod.splits sum.splits)
  show ?thesis
    using download_expedited [OF t0(1) assms(2,3,5,6)] download_normal [OF t0(1) assms(2-6)] by (simp add: t0(2))
qed

section \<open>Uploading in segments\<close>

lemma accept_upload_chunk:
  assumes t: "st_phase t = SdoAwaitSegment" "st_direction t = SdoUpload" "st_expected_size t = Some m"
      "m \<le> length (st_data t)"
    and n: "0 < n" "st_data_len t + n \<le> m" "n \<le> 119" "length chunk = n" "is_last \<longleftrightarrow> st_data_len t + n = m" "is_last \<or> 7 \<le> n"
    and t1: "t1 = t\<lparr>st_data := copy_at (st_data t) (st_data_len t) chunk, st_data_len := st_data_len t + n\<rparr>"
  shows "fst (accept_response t ([0, 0x30, segment_command (st_toggle t) is_last n] @ chunk @ replicate (7 - n) 0)) =
    (if is_last then sdo_complete t1 else build_upload_segment_request (t1\<lparr>st_toggle := \<not> st_toggle t\<rparr>))"
proof -
  have "\<not> 122 < length ([0, 0x30, segment_command (st_toggle t) is_last n] @ chunk @ replicate (7 - n) 0)"
    using n by simp
  then show ?thesis
    using t n segment_command_bits(4) unfolding accept_response_def parse_segment [OF n(1,6,4)]
    by (simp add: coe_lengths accept_upload_segment_def store_upload_data_def t1)
qed

definition uploading :: "sdo_transfer \<Rightarrow> esc \<Rightarrow> bytes \<Rightarrow> nat \<Rightarrow> bool" where
  "uploading t e d k \<longleftrightarrow>
     transfer_ok t \<and> st_direction t = SdoUpload \<and> st_data_len t = k \<and> k < length d \<and> length d \<le> length (st_data t) \<and>
     take k (st_data t) = take k d \<and> st_expected_size t = Some (length d) \<and> sim_ready e \<and>
     tr_active (es_transfer e) \<and> tr_upload (es_transfer e) \<and> tr_len (es_transfer e) = length d \<and>
     tr_offset (es_transfer e) = k \<and> tr_toggle (es_transfer e) = st_toggle t \<and> length d \<le> length (tr_data (es_transfer e)) \<and>
     take (length d) (tr_data (es_transfer e)) = d"

lemma build_upload_segment_request_keeps:
  "st_direction (build_upload_segment_request t) = st_direction t" "st_data (build_upload_segment_request t) = st_data t"
  "st_data_len (build_upload_segment_request t) = st_data_len t" "st_expected_size (build_upload_segment_request t) = st_expected_size t"
  "st_capacity (build_upload_segment_request t) = st_capacity t" "st_toggle (build_upload_segment_request t) = st_toggle t"
  "st_access_policy (build_upload_segment_request t) = st_access_policy t"
  "st_phase (build_upload_segment_request t) = SdoAwaitSegment"
  "transfer_ok t \<Longrightarrow> length (st_pending (build_upload_segment_request t)) = length (st_pending t)"
  by (simp_all add: build_upload_segment_request_def Let_def length_put_header transfer_ok_def coe_lengths)

text \<open>A finished upload: the transfer's data, and a slave whose dictionary is as before.\<close>

definition fetched :: "sdo_transfer \<Rightarrow> esc \<Rightarrow> sdo_transfer \<Rightarrow> esc \<Rightarrow> bytes \<Rightarrow> bool" where
  "fetched t e t' e' d \<longleftrightarrow> st_phase t' = SdoPhComplete \<and> sdo_data t' = d \<and> same_transfer t t' \<and> sim_ready e' \<and>
     object e' = object e"

lemma upload_command_bits:
  fixes b :: bool defines "c \<equiv> SDO_UPLOAD_SEGMENT_REQUEST OR (if b then 0x10 else 0)"
  shows "c \<noteq> 0x80" "c AND 0xEF = 0x60" "(c AND 0x10 \<noteq> 0) = b"
  by (auto simp: c_def SDO_UPLOAD_SEGMENT_REQUEST_def)

lemma uploading_step:
  assumes st: "uploading t e d k" and c: "c \<le> MAILBOX_COUNTER_MASK"
  obtains p t' e' n where "sdo_request (build_upload_segment_request t) = Some p" "0 < n" "k + n \<le> length d"
    "k + n = length d \<Longrightarrow> sdo_exchange c p (build_upload_segment_request t, e) = (t', e') \<and> fetched t e t' e' d \<and>
       sdo_request t' = None"
    "k + n < length d \<Longrightarrow> sdo_exchange c p (build_upload_segment_request t, e) = (build_upload_segment_request t', e') \<and>
       uploading t' e' d (k + n) \<and> same_transfer t t' \<and> object e' = object e"
proof -
  note d = st [unfolded uploading_def]
  let ?b = "build_upload_segment_request t" and ?tr = "es_transfer e"
  let ?cmd = "SDO_UPLOAD_SEGMENT_REQUEST OR (if st_toggle t then 0x10 else 0)"
  define n where "n = min (length d - k) (max (sm_len e 1 - 9) 7)"
  have sm: "16 \<le> sm_len e 1" "sm_len e 1 \<le> SIM_MAILBOX" "sm_len e 1 \<le> 128" "16 \<le> sm_len e 0"
    using d sm_enabled_len [of e 1] by (simp_all add: sim_ready_def sim_sizes)
  have nn: "0 < n" "k + n \<le> length d" "n \<le> sm_len e 1 - 9" "k + n = length d \<or> 7 \<le> n"
    using d sm unfolding n_def by linarith+
  let ?last = "k + n = length d" and ?chunk = "take n (drop k d)"
  have lc: "length ?chunk = n" using nn by simp
  define p where "p = [0, 0x20, ?cmd] @ replicate 7 0"
  have req: "sdo_request ?b = Some p" unfolding p_def using d by (intro request_upload_segment) simp
  have p: "3 \<le> length p" "length p + 6 \<le> sm_len e 0" "p ! 1 = 0x20" "p ! 2 = ?cmd"
    using sm by (simp_all add: p_def)
  define tr1 where "tr1 = ?tr\<lparr>tr_offset := k + n, tr_toggle := \<not> tr_toggle ?tr, tr_active := \<not> ?last\<rparr>"
  define e2 where "e2 = (sent e c p)\<lparr>es_transfer := tr1\<rparr>"
  define r where "r = [0, 0x30, segment_command (st_toggle t) ?last n] @ ?chunk @ replicate (7 - n) 0"
  have chunk: "subslice (tr_data ?tr) k (k + n) = ?chunk"
    using take_subslice_prefix [of "length d" "tr_data ?tr" d k n] d nn by simp
  have tr: "tr_toggle ?tr = st_toggle t" "tr_offset ?tr = k" "tr_len ?tr = length d" using d by simp_all
  have lasts: "(n = length d - k) = ?last" using nn d by auto
  have "upload_segment (sent e c p) ?cmd = publish_mailbox e2 r 3"
    using upload_segment_answer [of ?tr "sent e c p" ?cmd n] upload_command_bits(3) [of "st_toggle t"] d sm(2)
    unfolding tr lasts chunk by (simp add: n_def [symmetric, simplified] e2_def tr1_def r_def lasts tr)
  moreover have "serve (sent e c p) p = upload_segment (sent e c p) ?cmd"
    using d upload_command_bits(1,2) [of "st_toggle t"] by (simp add: serve_def Let_def p(4))
  ultimately have ans: "serve (sent e c p) p = publish_mailbox e2 r 3" by simp
  have hw: "same_hardware (sent e c p) e2" by (simp add: e2_def same_hardware_def)
  have lr: "length r + 6 \<le> sm_len e 1" using nn sm lc by (simp add: r_def)
  have ready: "sim_ready e" using d by simp
  note ex = exchange_answer [OF ready c p(1-3) ans hw lr, of ?b]
  have ready': "sim_ready (answered e2 r)"
    using answered_ready [OF ready hw] ready by (simp add: e2_def sim_ready_def dictionary_ok_def)
  have obj: "object (answered e2 r) = object e" using object_cong [of e2 e] by (simp add: e2_def)
  define t1 where "t1 = ?b\<lparr>st_data := copy_at (st_data t) k ?chunk, st_data_len := k + n\<rparr>"
  have n119: "n \<le> 119" using nn sm by simp
  have acc: "fst (accept_response ?b r) = (if ?last then sdo_complete t1 else build_upload_segment_request (t1\<lparr>st_toggle := \<not> st_toggle t\<rparr>))"
    using accept_upload_chunk [of ?b "length d" n ?chunk ?last t1] nn n119 lc d
    by (simp add: build_upload_segment_request_keeps r_def t1_def)
  have data: "take (k + n) (copy_at (st_data t) k ?chunk) = take (k + n) d"
    using take_extend [of k "st_data t" d n] d nn by simp
  have ldata: "length (copy_at (st_data t) k ?chunk) = length (st_data t)" using d nn lc by simp
  have same: "same_transfer t t1" "same_transfer t (sdo_complete t1)" "same_transfer t (t1\<lparr>st_toggle := \<not> st_toggle t\<rparr>)"
    using d ldata by (simp_all add: same_transfer_def t1_def sdo_complete_def build_upload_segment_request_keeps)
  show thesis
  proof (cases ?last)
    case True
    have "fetched t e (sdo_complete t1) (answered e2 r) d"
      using same(2) ready' obj data True by (simp add: fetched_def sdo_data_def sdo_data_len_def sdo_complete_def t1_def)
    then show thesis
      using that [OF req nn(1,2), of "sdo_complete t1" "answered e2 r"] ex acc True by simp
  next
    case False
    let ?t' = "t1\<lparr>st_toggle := \<not> st_toggle t\<rparr>"
    have "uploading ?t' (answered e2 r) d (k + n)"
      unfolding uploading_def using d nn False data ldata ready' same_transfer_ok [OF same(3)]
      by (simp add: t1_def e2_def tr1_def build_upload_segment_request_keeps)
    then show thesis
      using that [OF req nn(1,2), of ?t' "answered e2 r"] ex acc False same(3) obj by simp
  qed
qed

lemma upload_session:
  assumes "uploading t e d k" "c \<le> MAILBOX_COUNTER_MASK" "length d - k \<le> m"
  shows "\<exists>t' e'. sdo_session m c (build_upload_segment_request t, e) = (t', e') \<and> fetched t e t' e' d"
  using assms
proof (induction m arbitrary: t e k c)
  case 0
  then show ?case by (simp add: uploading_def)
next
  case (Suc m)
  obtain p t' e' n where step: "sdo_request (build_upload_segment_request t) = Some p" "0 < n" "k + n \<le> length d"
    "k + n = length d \<Longrightarrow> sdo_exchange c p (build_upload_segment_request t, e) = (t', e') \<and> fetched t e t' e' d \<and>
       sdo_request t' = None"
    "k + n < length d \<Longrightarrow> sdo_exchange c p (build_upload_segment_request t, e) = (build_upload_segment_request t', e') \<and>
       uploading t' e' d (k + n) \<and> same_transfer t t' \<and> object e' = object e"
    using uploading_step [OF Suc.prems(1,2)] by metis
  show ?case
  proof (cases "k + n = length d")
    case True
    show ?thesis using step(4) [OF True] unfolding session_step [OF step(1)] by (auto simp: session_done)
  next
    case False
    then have s: "sdo_exchange c p (build_upload_segment_request t, e) = (build_upload_segment_request t', e')"
       "uploading t' e' d (k + n)" "same_transfer t t'" "object e' = object e"
      using step(3,5) by auto
    have "length d - (k + n) \<le> m" using Suc.prems(3) step(2) by linarith
    then obtain t2 e2 where "sdo_session m (mailbox_next_counter c) (build_upload_segment_request t', e') = (t2, e2)"
        "fetched t' e' t2 e2 d"
      using Suc.IH [OF s(2) mailbox_next_counter_range] by blast
    then show ?thesis
      unfolding session_step [OF step(1)] s(1) using s(3,4) same_transfer_trans [OF s(3)] by (auto simp: fetched_def)
  qed
qed

lemma store_upload_first:
  assumes "st_data_len t = 0" "length d \<le> length (st_data t)"
    "st_expected_size t = None \<or> (\<exists>m. st_expected_size t = Some m \<and> length d \<le> m)"
  shows "store_upload_data t d = (t\<lparr>st_data := copy_at (st_data t) 0 d, st_data_len := length d\<rparr>, Ok ())"
  using assms by (auto simp: store_upload_data_def)

lemma accept_upload_small:
  assumes t: "st_phase t = SdoAwaitInitiate" "st_direction t = SdoUpload" "st_data_len t = 0" "st_expected_size t = None"
    and d: "d \<noteq> []" "length d \<le> 4" "length d \<le> length (st_data t)"
    and c: "c = 0x43 OR push_bit 2 (of_nat (4 - length d)) OR complete_access_bit t"
  shows "fst (accept_response t (response_prefix c (st_index t) (st_subindex t) @ d @ replicate (4 - length d) 0)) =
    sdo_complete (t\<lparr>st_data := copy_at (st_data t) 0 d, st_data_len := length d, st_expected_size := Some (length d)\<rparr>)"
proof -
  note parse = parse_upload_small [OF d(1,2) access_bit c]
  have "length (response_prefix c (st_index t) (st_subindex t) @ d @ replicate (4 - length d) 0) = 10" using d(2) by simp
  moreover have "complete_access_bit t \<noteq> 0 \<longleftrightarrow> st_access t = SdoComplete"
    by (simp add: complete_access_bit_def SDO_COMPLETE_ACCESS_def)
  ultimately show ?thesis
    using t parse(2,3) store_upload_first [of t d] d(3)
    by (simp add: accept_response_def coe_lengths parse(1) accept_upload_initiate_def check_object_def sdo_complete_def)
qed

lemma accept_upload_large:
  assumes t: "st_phase t = SdoAwaitInitiate" "st_direction t = SdoUpload" "st_data_len t = 0"
    and d: "m \<le> MAX_OBJECT_BYTES" "m \<le> length (st_data t)" "length chunk \<le> m" "length chunk \<le> 112"
    and c: "c = 0x41 OR complete_access_bit t"
    and t1: "t1 = t\<lparr>st_expected_size := Some m, st_data := copy_at (st_data t) 0 chunk, st_data_len := length chunk\<rparr>"
  shows "fst (accept_response t (response_prefix c (st_index t) (st_subindex t) @ u32_to_le (of_nat m) @ chunk)) =
    (if length chunk = m then sdo_complete t1 else build_upload_segment_request (t1\<lparr>st_toggle := False\<rparr>))"
proof -
  note parse = parse_upload_large [OF d(1) access_bit c]
  have "\<not> 122 < length (response_prefix c (st_index t) (st_subindex t) @ u32_to_le (of_nat m) @ chunk)" using d(4) by simp
  moreover have "complete_access_bit t \<noteq> 0 \<longleftrightarrow> st_access t = SdoComplete"
    by (simp add: complete_access_bit_def SDO_COMPLETE_ACCESS_def)
  moreover have "store_upload_data (t\<lparr>st_expected_size := Some m\<rparr>) chunk = (t1, Ok ())"
    using store_upload_first [of "t\<lparr>st_expected_size := Some m\<rparr>" chunk] t(3) d(2,3) by (simp add: t1)
  moreover have "st_expected_size t1 = Some m" "st_data_len t1 = length chunk" by (simp_all add: t1)
  ultimately show ?thesis
    using t parse(2,3) d(2)
    by (simp add: accept_response_def coe_lengths parse(1) accept_upload_initiate_def check_object_def eq_commute [of m])
qed

lemma upload_fetches:
  assumes start: "start_upload t index sub access = (t1, Ok ())" and ok: "transfer_ok t" and ready: "sim_ready e"
    and c: "c \<le> MAILBOX_COUNTER_MASK" and obj: "object e index sub = Some d" "d \<noteq> []" "length d \<le> length (st_data t)"
      "length d \<le> MAX_OBJECT_BYTES"
  shows "\<exists>t2 e2. sdo_session (Suc (length d)) c (t1, e) = (t2, e2) \<and> fetched t e t2 e2 d"
proof -
  obtain t0 where beg: "sdo_begin t SdoUpload index sub access [] = (t0, Ok ())" and t1: "t1 = build_upload_initiate t0"
    using start by (auto simp: start_upload_def split: prod.splits sum.splits)
  note b = begin_fields [OF beg]
  let ?b = "build_upload_initiate t0" and ?cmd = "SDO_UPLOAD_REQUEST OR complete_access_bit t0"
  have ok0: "transfer_ok t0" using same_transfer_ok [OF b(9) ok] .
  define p where "p = request_prefix ?cmd index sub @ replicate 4 0"
  have req: "sdo_request ?b = Some p" unfolding p_def using request_upload [OF ok0] by (simp add: b(3,4))
  have sm: "16 \<le> sm_len e 0" "16 \<le> sm_len e 1" "sm_len e 1 \<le> SIM_MAILBOX" "sm_len e 1 \<le> 128"
    using ready sm_enabled_len [of e 1] by (simp_all add: sim_ready_def sim_sizes)
  have p: "3 \<le> length p" "length p + 6 \<le> sm_len e 0" "p ! 1 = 0x20"
    using sm request_prefix_parts(1,8) [OF p_def] by simp_all
  have cmd: "?cmd \<noteq> 0x80" "?cmd AND 0xEF \<noteq> 0x60" "?cmd AND 0xE0 = 0x40" "?cmd AND 0x10 = complete_access_bit t0"
    using access_bit [of t0] by (auto simp: SDO_UPLOAD_REQUEST_def)
  have init: "serve (sent e c p) p = serve_upload (sent e c p) p"
    by (rule serve_initiate(2) [OF p_def cmd(1-3)])
  have keeps: "st_phase ?b = SdoAwaitInitiate" "st_direction ?b = SdoUpload" "st_index ?b = index" "st_subindex ?b = sub"
    "st_data_len ?b = 0" "st_expected_size ?b = None" "st_data ?b = st_data t0" "complete_access_bit ?b = complete_access_bit t0"
    "st_capacity ?b = st_capacity t0" "st_access_policy ?b = st_access_policy t0"
    using b by (simp_all add: build_upload_initiate_def Let_def write_common_header_def complete_access_bit_def)
  have pend: "length (st_pending ?b) = length (st_pending t0)"
    using ok0 by (simp add: build_upload_initiate_def Let_def write_common_header_pending transfer_ok_def coe_lengths)
  have fits: "length d \<le> length (st_data ?b)" using obj(3) b(9) keeps(7) by (simp add: same_transfer_def)
  have objs: "object (sent e c p) index sub = Some d" using obj(1) by simp
  show ?thesis
  proof (cases "length d \<le> 4")
    case True
    define r where "r = response_prefix (0x43 OR push_bit 2 (of_nat (4 - length d)) OR complete_access_bit t0) index sub @
      d @ replicate (4 - length d) 0"
    have "serve (sent e c p) p = publish_mailbox (sent e c p) r 3"
      unfolding init r_def using serve_upload_small [OF p_def objs True] by (simp add: cmd(4))
    moreover have "length r + 6 \<le> sm_len e 1" using sm True by (simp add: r_def)
    ultimately have ex: "sdo_exchange c p (?b, e) = (fst (accept_response ?b r), answered (sent e c p) r)"
      using exchange_answer [OF ready c p] by simp
    have acc: "fst (accept_response ?b r) = sdo_complete (?b\<lparr>st_data := copy_at (st_data ?b) 0 d, st_data_len := length d,
        st_expected_size := Some (length d)\<rparr>)"
      using accept_upload_small [OF keeps(1,2,5,6) obj(2) True fits refl] by (simp add: r_def keeps)
    have "fetched t e (fst (accept_response ?b r)) (answered (sent e c p) r) d"
      using answered_ready [OF ready same_hardware_refl] ready b(9) fits keeps(7,9,10) pend unfolding acc
      by (simp add: fetched_def sdo_data_def sdo_data_len_def sdo_complete_def same_transfer_def copy_at_def sim_ready_def)
    moreover have "sdo_request (fst (accept_response ?b r)) = None" unfolding acc by simp
    ultimately show ?thesis
      unfolding t1 session_step [OF req] ex by (auto simp: session_done)
  next
    case False
    then have four: "4 < length d" by simp
    define n where "n = min (length d) (sm_len e 1 - 16)"
    have n: "n \<le> length d" "n \<le> 112" "n + 16 \<le> sm_len e 1" using sm unfolding n_def by linarith+
    let ?chunk = "take n d"
    have lc: "length ?chunk = n" using n by simp
    define e2 where "e2 = (sent e c p)\<lparr>es_transfer := \<lparr>tr_active = n < length d, tr_upload = True, tr_index = index,
      tr_sub = sub, tr_len = length d, tr_offset = n, tr_toggle = False,
      tr_data = copy_at (replicate MAX_OBJECT_BYTES 0) 0 d\<rparr>\<rparr>"
    define r where "r = response_prefix (0x41 OR complete_access_bit t0) index sub @ u32_to_le (of_nat (length d)) @ ?chunk"
    have "serve (sent e c p) p = publish_mailbox e2 r 3"
      unfolding init r_def e2_def using serve_upload_large [OF p_def objs four obj(4), of n] sm(3) by (simp add: cmd(4) n_def)
    moreover have hw: "same_hardware (sent e c p) e2" by (simp add: e2_def same_hardware_def)
    moreover have "length r + 6 \<le> sm_len e 1" using n lc by (simp add: r_def)
    ultimately have ex: "sdo_exchange c p (?b, e) = (fst (accept_response ?b r), answered e2 r)"
      using exchange_answer [OF ready c p] by simp
    define u where "u = ?b\<lparr>st_expected_size := Some (length d), st_data := copy_at (st_data ?b) 0 ?chunk, st_data_len := length ?chunk\<rparr>"
    have acc: "fst (accept_response ?b r) = (if n = length d then sdo_complete u else build_upload_segment_request (u\<lparr>st_toggle := False\<rparr>))"
      using accept_upload_large [OF keeps(1,2,5) obj(4) fits _ _ refl, of ?chunk u] n lc by (simp add: r_def keeps u_def)
    have data: "take n (copy_at (st_data ?b) 0 ?chunk) = ?chunk" "length (copy_at (st_data ?b) 0 ?chunk) = length (st_data ?b)"
      using lc fits n by (simp_all add: copy_at_def)
    have ready': "sim_ready (answered e2 r)"
      using answered_ready [OF ready hw] ready by (simp add: e2_def sim_ready_def dictionary_ok_def)
    have ob: "object (answered e2 r) = object e" using object_cong [of e2 e] by (simp add: e2_def)
    have same: "same_transfer t u" "same_transfer t (u\<lparr>st_toggle := False\<rparr>)"
      using b(9) keeps(7,9,10) pend data(2) by (simp_all add: same_transfer_def u_def)
    show ?thesis
    proof (cases "n = length d")
      case True
      have "fetched t e (sdo_complete u) (answered e2 r) d"
        using ready' ob same(1) data True
        by (simp add: fetched_def sdo_data_def sdo_data_len_def sdo_complete_def u_def same_transfer_def)
      then show ?thesis unfolding t1 session_step [OF req] ex acc using True by (simp add: session_done)
    next
      case False
      then have lt: "n < length d" using n by simp
      have tr: "es_transfer (answered e2 r) = \<lparr>tr_active = True, tr_upload = True, tr_index = index,
          tr_sub = sub, tr_len = length d, tr_offset = n, tr_toggle = False,
          tr_data = copy_at (replicate MAX_OBJECT_BYTES 0) 0 d\<rparr>" using lt by (simp add: e2_def)
      have "uploading (u\<lparr>st_toggle := False\<rparr>) (answered e2 r) d n"
        unfolding uploading_def tr
        using ready' same_transfer_ok [OF same(2) ok] keeps(2) lc lt fits data obj(4) by (simp add: u_def copy_at_def [of "replicate _ _"])
      from upload_session [OF this mailbox_next_counter_range]
      obtain t2 e4 where s: "sdo_session (length d) (mailbox_next_counter c) (build_upload_segment_request (u\<lparr>st_toggle := False\<rparr>),
          answered e2 r) = (t2, e4)" "fetched (u\<lparr>st_toggle := False\<rparr>) (answered e2 r) t2 e4 d"
        by (metis diff_le_self)
      have "fetched t e t2 e4 d" using s(2) same_transfer_trans [OF same(2)] ob by (auto simp: fetched_def)
      then show ?thesis unfolding t1 session_step [OF req] ex acc using s(1) False by simp
    qed
  qed
qed

section \<open>The round trip\<close>

definition sample_sdo_esc :: esc where
  "sample_sdo_esc = \<lparr>es_sm = [[0, 0x10, 20, 0, 0x26, 0, 1, 0], [0, 0x11, 24, 0, 0x22, 0, 1, 0]],
     es_send = replicate SIM_MAILBOX 0, es_receive = replicate SIM_MAILBOX 0, es_previous = replicate SIM_MAILBOX 0,
     es_send_full = False, es_receive_full = False, es_previous_valid = False, es_objects = [object_empty],
     es_large = [large_object_empty], es_transfer = transfer_empty, es_online = True, es_repeat_ack = True,
     es_counter = 1, es_repeats = 0\<rparr>"

definition sample_sdo_transfer :: sdo_transfer where
  "sample_sdo_transfer = (sdo_with_policy 64 \<lparr>sap_complete_access_enabled = False\<rparr>)\<lparr>st_capacity := 12\<rparr>"

definition sample_sdo_data :: bytes where
  "sample_sdo_data = [1, 2, 3, 4, 5, 6, 7, 8, 9, 10, 11, 12, 13]"

text \<open>C39: Whatever data an application downloads through the master's SDO transfer into an object that the
  slave can store, expedited, in one normal request or in segments, the session ends complete within one
  exchange more than the data has bytes, the dictionary then holds exactly these data under the object and
  every other object is unchanged; an upload of the object started then completes as well and returns the
  same data. The mailbox sizes and the counters are arbitrary; the two sides may use different segment sizes.\<close>

theorem sdo_roundtrip:
  assumes "transfer_ok t" "sim_ready e" "st_capacity t + 6 \<le> sm_len e 0"
    "c \<le> MAILBOX_COUNTER_MASK" "c' \<le> MAILBOX_COUNTER_MASK"
    "start_download t index sub data access = (t1, Ok ())" "snd (store_download e index sub data) = Ok ()"
  shows "\<exists>t2 e2 t3 t4 e4. sdo_session (Suc (length data)) c (t1, e) = (t2, e2) \<and> st_phase t2 = SdoPhComplete \<and>
    (\<forall>index' sub'. object e2 index' sub' = (if index' = index \<and> sub' = sub then Some data else object e index' sub')) \<and>
    start_upload t2 index sub access = (t3, Ok ()) \<and>
    sdo_session (Suc (length data)) c' (t3, e2) = (t4, e4) \<and> st_phase t4 = SdoPhComplete \<and> sdo_data t4 = data \<and>
    object e4 = object e2"
proof -
  obtain t2 e2 where dl: "sdo_session (Suc (length data)) c (t1, e) = (t2, e2)" "st_phase t2 = SdoPhComplete"
      "same_transfer t t2" "stored e e2 index sub data"
    using download_arrives [OF assms(6,1,2,3,4,7)] by blast
  obtain t0 where "sdo_begin t SdoDownload index sub access data = (t0, Ok ())"
    using assms(6) by (auto simp: start_download_def split: prod.splits sum.splits)
  note b = begin_fields [OF this]
  have fits: "length data \<le> length (st_data t2)" using b(9,10) dl(3) by (simp add: same_transfer_def)
  have "\<not> (access = SdoComplete \<and> 1 < sub)" using b(13) by (auto simp: not_less)
  moreover have "policy_permits (st_access_policy t2) access" using b(12) dl(3) by (simp add: same_transfer_def)
  ultimately obtain t3 where t3: "start_upload t2 index sub access = (t3, Ok ())"
    using dl(2) by (simp add: start_upload_def sdo_begin_def)
  have ready: "sim_ready e2" and obj: "object e2 index sub = Some data" using dl(4) by (simp_all add: stored_def)
  obtain t4 e4 where "sdo_session (Suc (length data)) c' (t3, e2) = (t4, e4)" "fetched t2 e2 t4 e4 data"
    using upload_fetches [OF t3 same_transfer_ok [OF dl(3) assms(1)] ready assms(5) obj store_download_Ok(1) [OF assms(7)] fits
        store_download_Ok(2) [OF assms(7)]] by blast
  with dl t3 show ?thesis by (auto simp: fetched_def stored_def)
qed

lemma sdo_roundtrip_witness:
  "\<exists>t1 t2 e2 t3 t4 e4. start_download sample_sdo_transfer 0x2000 0 sample_sdo_data SdoSingle = (t1, Ok ()) \<and>
    sdo_session 14 1 (t1, sample_sdo_esc) = (t2, e2) \<and> object e2 0x2000 0 = Some sample_sdo_data \<and>
    start_upload t2 0x2000 0 SdoSingle = (t3, Ok ()) \<and> sdo_session 14 5 (t3, e2) = (t4, e4) \<and> sdo_data t4 = sample_sdo_data"
proof -
  have ok: "transfer_ok sample_sdo_transfer"
    by (simp add: transfer_ok_def sample_sdo_transfer_def sdo_with_policy_def coe_lengths)
  have sm: "sm_len sample_sdo_esc 0 = 20" "sm_len sample_sdo_esc 1 = 24"
    by (simp_all add: sm_len_def sample_sdo_esc_def u16_from_le_def)
  then have ready: "sim_ready sample_sdo_esc"
    by (simp add: sim_ready_def sm_enabled_def RAM_BYTES_def) (simp add: sample_sdo_esc_def dictionary_ok_def object_empty_def
        large_object_empty_def)
  have cap: "st_capacity sample_sdo_transfer + 6 \<le> sm_len sample_sdo_esc 0"
    by (simp add: sm sample_sdo_transfer_def)
  have len: "Suc (length sample_sdo_data) = 14" by (simp add: sample_sdo_data_def)
  obtain t1 where t1: "start_download sample_sdo_transfer 0x2000 0 sample_sdo_data SdoSingle = (t1, Ok ())"
    by (simp add: start_download_def sdo_begin_def sample_sdo_transfer_def sdo_with_policy_def policy_permits_def
        sample_sdo_data_def)
  have store: "snd (store_download sample_sdo_esc 0x2000 0 sample_sdo_data) = Ok ()"
    by (simp add: store_download_def application_object_def set_object_def sample_sdo_esc_def sample_sdo_data_def
        object_matches_def large_object_empty_def object_empty_def MAX_OBJECT_BYTES_def)
  show ?thesis
    using sdo_roundtrip [OF ok ready cap _ _ t1 store, of 1 5, unfolded len] t1
    by (fastforce simp: MAILBOX_COUNTER_MASK_def)
qed

end
