(* ===== verification/Mailbox_Controller.thy ===== *)
theory Mailbox_Controller
  imports Sdo_Transfer
begin

text \<open>
  The mailbox transport (second part of \<open>mailbox.rs\<close>): a controller for one slave that emits one
  register action at a time. A transaction waits until the slave's send mailbox is empty, writes the
  request, polls the receive mailbox, and, when an answer is lost, asks the slave to repeat it.
  A \<open>&dyn EmergencySink\<close> is an argument saying whether there is one; the event it is given is a
  result, and without one the controller's own queue of eight records it.
\<close>

section \<open>State\<close>

datatype mailbox_phase = MpIdle | MpCheckingSendStatus | MpSending | MpCheckingStatus | MpPolling
  | MpReadingRepeatActivation | MpWritingRepeatRequest | MpWaitingRepeatAck | MpPollingRepeat
  | MpComplete | MpFaulted

record mailbox_action =
  ma_token :: u8
  ma_datagram_index :: u8
  ma_generation :: u16
  ma_station_address :: u16
  ma_operation :: register_operation
  ma_address :: u32
  ma_read_len :: u16
  ma_write_payload :: bytes
  ma_write_len :: u8
  ma_deadline_ns :: u64
  ma_expected_wkc :: u16
  ma_working_counter_policy :: rx_working_counter_policy

definition ma_payload :: "mailbox_action \<Rightarrow> bytes" where
  "ma_payload a = take (unat (ma_write_len a)) (ma_write_payload a)"

definition ma_datagram_len :: "mailbox_action \<Rightarrow> nat" where
  "ma_datagram_len a =
     (if unat (ma_write_len a) < unat (ma_read_len a) then unat (ma_read_len a) else unat (ma_write_len a))"

datatype mailbox_progress = MgAdvanced | MgNoMessage | MgStatusUnavailable | MgRetryScheduled
  | MgEmergencyConsumed | MgComplete

datatype mailbox_status_source = SrcPollTime | SrcDirect | SrcMapped

record mailbox_transport_state =
  mt_station_address :: u16
  mt_next_counter :: u8
  mt_last_delivered_counter :: "u8 option"
  mt_next_token :: u8
  mt_next_datagram_index :: u8

record mailbox_controller =
  mc_phase :: mailbox_phase
  mc_config :: mailbox_config
  mc_generation :: u16
  mc_station_address :: u16
  mc_configuration_deadline_ns :: u64
  mc_protocol :: mailbox_protocol
  mc_counter :: u8
  mc_next_counter :: u8
  mc_send_frame :: bytes
  mc_send_len :: nat
  mc_response :: bytes
  mc_response_len :: nat
  mc_response_header :: "mailbox_header option"
  mc_poll_due_ns :: u64
  mc_pending :: "mailbox_action option"
  mc_next_token :: u8
  mc_next_datagram_index :: u8
  mc_last_error :: "mailbox_error option"
  mc_retry_count :: u8
  mc_last_retry_error :: "mailbox_error option"
  mc_discarded_frames :: u32
  mc_status_source :: mailbox_status_source
  mc_transport_owned :: bool
  mc_last_delivered_counter :: "u8 option"
  mc_repeat_activation :: u8
  mc_idle_receive :: bool
  mc_emergency_queue :: "coe_emergency_event event_queue"

definition MAILBOX_EMERGENCIES :: nat where "MAILBOX_EMERGENCIES = 8"

definition mailbox_controller_with :: "coe_emergency_event event_queue \<Rightarrow> mailbox_controller" where
  "mailbox_controller_with q = \<lparr>mc_phase = MpIdle, mc_config = mailbox_config_new 0 0 0 0, mc_generation = 0,
     mc_station_address = 0, mc_configuration_deadline_ns = 0, mc_protocol = MbxError, mc_counter = 0,
     mc_next_counter = 1, mc_send_frame = replicate MAX_MAILBOX_BYTES 0, mc_send_len = 0,
     mc_response = replicate MAX_MAILBOX_BYTES 0, mc_response_len = 0, mc_response_header = None,
     mc_poll_due_ns = 0, mc_pending = None, mc_next_token = 1, mc_next_datagram_index = 1, mc_last_error = None,
     mc_retry_count = 0, mc_last_retry_error = None, mc_discarded_frames = 0, mc_status_source = SrcPollTime,
     mc_transport_owned = True, mc_last_delivered_counter = None, mc_repeat_activation = 0, mc_idle_receive = False,
     mc_emergency_queue = q\<rparr>"

definition mailbox_controller_new :: "mailbox_controller option" where
  "mailbox_controller_new = map_option mailbox_controller_with (coe_emergency_queue_new MAILBOX_EMERGENCIES)"

definition mailbox_without_transport :: "mailbox_controller option" where
  "mailbox_without_transport = map_option (\<lambda>c. c\<lparr>mc_transport_owned := False\<rparr>) mailbox_controller_new"

definition mc_ended :: "mailbox_controller \<Rightarrow> bool" where
  "mc_ended c \<longleftrightarrow> mc_phase c = MpComplete \<or> mc_phase c = MpFaulted"

definition mc_inactive :: "mailbox_controller \<Rightarrow> bool" where
  "mc_inactive c \<longleftrightarrow> mc_phase c = MpIdle \<or> mc_phase c = MpComplete \<or> mc_phase c = MpFaulted"

definition is_action_due :: "mailbox_controller \<Rightarrow> u64 \<Rightarrow> bool" where
  "is_action_due c now \<longleftrightarrow> mc_transport_owned c \<and> \<not> mc_inactive c \<and>
     (mc_pending c \<noteq> None \<or> mc_configuration_deadline_ns c \<le> now \<or> mc_poll_due_ns c \<le> now)"

definition mailbox_pop_emergency :: "mailbox_controller \<Rightarrow> mailbox_controller \<times> coe_emergency_event pop_result" where
  "mailbox_pop_emergency c =
     (case coe_emergency_queue_pop MAILBOX_EMERGENCIES (mc_emergency_queue c) of
        (q, r) \<Rightarrow> (c\<lparr>mc_emergency_queue := q\<rparr>, r))"

definition mailbox_response :: "mailbox_controller \<Rightarrow> (mailbox_header \<times> bytes) option" where
  "mailbox_response c =
     (if mc_phase c \<noteq> MpComplete then None
      else map_option (\<lambda>h. (h, take (mc_response_len c) (mc_response c))) (mc_response_header c))"

definition transaction_matches :: "mailbox_controller \<Rightarrow> u16 \<Rightarrow> u16 \<Rightarrow> mailbox_protocol \<Rightarrow> bytes \<Rightarrow> bool" where
  "transaction_matches c station generation protocol payload \<longleftrightarrow>
     mc_phase c \<noteq> MpIdle \<and> length payload \<le> MAX_MAILBOX_BYTES - MAILBOX_HEADER_LEN \<and>
     mc_station_address c = station \<and> mc_generation c = generation \<and> mc_protocol c = protocol \<and>
     take 2 (mc_send_frame c) = u16_to_le (of_nat (length payload)) \<and>
     subslice (mc_send_frame c) MAILBOX_HEADER_LEN (MAILBOX_HEADER_LEN + length payload) = payload"

section \<open>Ownership of the transport\<close>

definition mailbox_abort_transaction ::
  "mailbox_controller \<Rightarrow> mailbox_error \<Rightarrow> mailbox_controller \<times> (mailbox_error, unit) result" where
  "mailbox_abort_transaction c e =
     (if mc_pending c \<noteq> None then (c, Err MeBusy)
      else if mc_inactive c then (c, Ok ())
      else (c\<lparr>mc_last_error := Some e, mc_phase := MpFaulted, mc_idle_receive := False\<rparr>, Ok ()))"

definition release_transport_state ::
  "mailbox_controller \<Rightarrow> mailbox_controller \<times> (mailbox_error, mailbox_transport_state) result" where
  "release_transport_state c =
     (if \<not> mc_transport_owned c then (c, Err MeTransportNotOwned)
      else if mc_pending c \<noteq> None \<or> \<not> mc_inactive c then (c, Err MeBusy)
      else (c\<lparr>mc_transport_owned := False\<rparr>,
        Ok \<lparr>mt_station_address = mc_station_address c, mt_next_counter = mc_next_counter c,
            mt_last_delivered_counter = mc_last_delivered_counter c, mt_next_token = mc_next_token c,
            mt_next_datagram_index = mc_next_datagram_index c\<rparr>))"

definition adopt_transport_state ::
  "mailbox_controller \<Rightarrow> mailbox_transport_state \<Rightarrow> mailbox_controller \<times> (mailbox_error, unit) result" where
  "adopt_transport_state c s =
     (if mc_transport_owned c \<or> mc_pending c \<noteq> None then (c, Err MeBusy)
      else (c\<lparr>mc_next_counter := mt_next_counter s, mc_station_address := mt_station_address s,
              mc_last_delivered_counter := mt_last_delivered_counter s, mc_next_token := mt_next_token s,
              mc_next_datagram_index := mt_next_datagram_index s, mc_transport_owned := True\<rparr>, Ok ()))"

definition adopt_transport_state_for ::
  "mailbox_controller \<Rightarrow> u16 \<Rightarrow> mailbox_transport_state \<Rightarrow> mailbox_controller \<times> (mailbox_error, unit) result" where
  "adopt_transport_state_for c station s =
     (if station = 0 \<or> (mt_station_address s \<noteq> 0 \<and> mt_station_address s \<noteq> station) then (c, Err MeInvalidConfiguration)
      else case adopt_transport_state c s of
        (c1, Inl e) \<Rightarrow> (c1, Err e)
      | (c1, Inr _) \<Rightarrow> (c1\<lparr>mc_station_address := station\<rparr>, Ok ()))"

section \<open>Starting\<close>

definition mailbox_start_impl ::
  "mailbox_controller \<Rightarrow> mailbox_config \<Rightarrow> u16 \<Rightarrow> u16 \<Rightarrow> u64 \<Rightarrow> mailbox_protocol \<Rightarrow> bytes \<Rightarrow> mailbox_status_source \<Rightarrow>
     mailbox_controller \<times> (mailbox_error, unit) result" where
  "mailbox_start_impl c config station generation now protocol payload source =
     (if \<not> mc_transport_owned c then (c, Err MeTransportNotOwned)
      else if station = 0 \<or> (mc_station_address c \<noteq> 0 \<and> mc_station_address c \<noteq> station) then (c, Err MeInvalidConfiguration)
      else if \<not> mc_inactive c then (c, Err MeBusy)
      else if \<not> is_ok (mailbox_config_validate config)
              \<or> unat (mb_send_capacity config) < length payload + MAILBOX_HEADER_LEN
              \<or> MAX_MAILBOX_BYTES < length payload + MAILBOX_HEADER_LEN then (c, Err MeInvalidConfiguration)
      else
        let counter = mc_next_counter c;
            c1 = c\<lparr>mc_next_counter := mailbox_next_counter counter\<rparr>
        in case mailbox_send_frame counter protocol payload of
             (frame, Inl e) \<Rightarrow> (c1\<lparr>mc_send_frame := frame\<rparr>, Err e)
           | (frame, Inr _) \<Rightarrow>
               (c1\<lparr>mc_send_frame := frame, mc_send_len := unat (mb_send_capacity config), mc_config := config,
                   mc_station_address := station, mc_generation := generation,
                   mc_configuration_deadline_ns := sat_add now (mb_timeout_ns config), mc_protocol := protocol,
                   mc_counter := counter, mc_response := replicate MAX_MAILBOX_BYTES 0, mc_response_len := 0,
                   mc_response_header := None, mc_poll_due_ns := now, mc_pending := None, mc_last_error := None,
                   mc_retry_count := 0, mc_last_retry_error := None, mc_discarded_frames := 0,
                   mc_status_source := source, mc_idle_receive := False, mc_phase := MpCheckingSendStatus\<rparr>, Ok ()))"

definition mailbox_start ::
  "mailbox_controller \<Rightarrow> mailbox_config \<Rightarrow> u16 \<Rightarrow> u16 \<Rightarrow> u64 \<Rightarrow> mailbox_protocol \<Rightarrow> bytes \<Rightarrow>
     mailbox_controller \<times> (mailbox_error, unit) result" where
  "mailbox_start c config station generation now protocol payload =
     mailbox_start_impl c config station generation now protocol payload SrcDirect"

definition mailbox_start_with_mapped_status ::
  "mailbox_controller \<Rightarrow> mailbox_config \<Rightarrow> u16 \<Rightarrow> u16 \<Rightarrow> u64 \<Rightarrow> mailbox_protocol \<Rightarrow> bytes \<Rightarrow>
     mailbox_controller \<times> (mailbox_error, unit) result" where
  "mailbox_start_with_mapped_status c config station generation now protocol payload =
     (if \<not> mc_transport_owned c then (c, Err MeTransportNotOwned)
      else if mb_status_bit config = None then (c, Err MeInvalidConfiguration)
      else mailbox_start_impl c config station generation now protocol payload SrcMapped)"

definition mailbox_start_receive_impl ::
  "mailbox_controller \<Rightarrow> mailbox_config \<Rightarrow> u16 \<Rightarrow> u16 \<Rightarrow> u64 \<Rightarrow> bool \<Rightarrow> mailbox_controller \<times> (mailbox_error, unit) result" where
  "mailbox_start_receive_impl c config station generation now mapped =
     (let counter = mc_next_counter c
      in case (if mapped then mailbox_start_with_mapped_status c config station generation now CoE []
               else mailbox_start c config station generation now CoE []) of
           (c1, Inl e) \<Rightarrow> (c1, Err e)
         | (c1, Inr _) \<Rightarrow> (c1\<lparr>mc_next_counter := counter, mc_idle_receive := True, mc_phase := MpCheckingStatus\<rparr>, Ok ()))"

definition finish_idle_receive :: "mailbox_controller \<Rightarrow> mailbox_controller \<times> (mailbox_error, unit) result" where
  "finish_idle_receive c =
     (if \<not> mc_idle_receive c \<or> mc_pending c \<noteq> None \<or> mc_phase c \<noteq> MpCheckingStatus then (c, Err MeBusy)
      else (c\<lparr>mc_phase := MpIdle, mc_idle_receive := False\<rparr>, Ok ()))"

section \<open>Failing and retrying\<close>

definition mailbox_fail :: "mailbox_controller \<Rightarrow> mailbox_error \<Rightarrow> mailbox_controller \<times> (mailbox_error, 'a) result" where
  "mailbox_fail c e =
     (if mc_ended c then (c, Err e)
      else (c\<lparr>mc_last_error := Some e, mc_pending := None, mc_phase := MpFaulted\<rparr>, Err e))"

definition retry_or_fail ::
  "mailbox_controller \<Rightarrow> mailbox_error \<Rightarrow> u64 \<Rightarrow> mailbox_controller \<times> (mailbox_error, mailbox_progress) result" where
  "retry_or_fail c e now =
     (if mc_retry_count c < my_max_retries (mb_retry_policy (mc_config c)) \<and> now < mc_configuration_deadline_ns c then
        (c\<lparr>mc_retry_count := sat_add (mc_retry_count c) 1, mc_last_retry_error := Some e, mc_pending := None,
           mc_poll_due_ns := sat_add now (my_retry_delay_ns (mb_retry_policy (mc_config c))),
           mc_discarded_frames := sat_add (mc_discarded_frames c) 1,
           mc_phase := (if mc_phase c = MpPolling \<or> mc_phase c = MpPollingRepeat then MpReadingRepeatActivation
                        else mc_phase c)\<rparr>, Ok MgRetryScheduled)
      else mailbox_fail c e)"

definition mailbox_timeout ::
  "mailbox_controller \<Rightarrow> mailbox_action \<Rightarrow> u64 \<Rightarrow> mailbox_controller \<times> (mailbox_error, mailbox_progress) result" where
  "mailbox_timeout c action now =
     (if mc_pending c \<noteq> Some action then mailbox_fail c MeActionMismatch
      else if now < ma_deadline_ns action then (c, Err MeTimeout)
      else retry_or_fail c MeTimeout now)"

definition mapped_status_due :: "mailbox_controller \<Rightarrow> u64 \<Rightarrow> bool" where
  "mapped_status_due c now \<longleftrightarrow> mc_status_source c = SrcMapped \<and> mc_phase c = MpCheckingStatus \<and> mc_pending c = None \<and>
     mc_poll_due_ns c \<le> now"

definition observe_mapped_status ::
  "mailbox_controller \<Rightarrow> mailbox_mapped_status_observation \<Rightarrow> u64 \<Rightarrow>
     mailbox_controller \<times> (mailbox_error, mailbox_progress) result" where
  "observe_mapped_status c observation now =
     (if \<not> mapped_status_due c now then (c, Err MeInvalidConfiguration)
      else if mc_configuration_deadline_ns c \<le> now then mailbox_fail c MeTimeout
      else case observation of
        ObsActive \<Rightarrow> (c\<lparr>mc_phase := MpPolling, mc_poll_due_ns := now\<rparr>, Ok MgAdvanced)
      | ObsInactive \<Rightarrow> (c\<lparr>mc_poll_due_ns := sat_add now (mb_poll_interval_ns (mc_config c))\<rparr>, Ok MgNoMessage)
      | ObsUnavailable _ \<Rightarrow> (c\<lparr>mc_poll_due_ns := sat_add now (mb_poll_interval_ns (mc_config c))\<rparr>, Ok MgStatusUnavailable))"

section \<open>Actions\<close>

definition wrapping_next :: "u8 \<Rightarrow> u8" where
  "wrapping_next x = max (x + 1) 1"

text \<open>Address of a register of the receive sync manager: its activation (6) and its PDI control (7).\<close>

definition receive_sync_register :: "mailbox_controller \<Rightarrow> u16 \<Rightarrow> u32" where
  "receive_sync_register c offset = fixed_address (mc_station_address c)
     (ESC_SYNC_MANAGER_BASE + ucast (mb_receive_sync_manager (mc_config c)) * ESC_SYNC_MANAGER_STRIDE + offset)"

definition no_payload :: bytes where "no_payload = replicate MAX_MAILBOX_BYTES 0"

text \<open>The match of \<open>next_action\<close>: operation, address, length read, payload and length written.\<close>

definition phase_action ::
  "mailbox_controller \<Rightarrow> (register_operation \<times> u32 \<times> u16 \<times> bytes \<times> u8) option" where
  "phase_action c =
     (let station = mc_station_address c; config = mc_config c
      in case mc_phase c of
           MpCheckingSendStatus \<Rightarrow>
             Some (RegRead, fixed_address station (ms_address (sync_manager_mailbox_full (mb_send_sync_manager config))), 1,
               no_payload, 0)
         | MpSending \<Rightarrow>
             Some (RegWrite, fixed_address station (mb_send_address config), of_nat (mc_send_len c), mc_send_frame c,
               of_nat (mc_send_len c))
         | MpCheckingStatus \<Rightarrow>
             if mc_status_source c = SrcMapped then None
             else Some (RegRead, fixed_address station (ms_address (receive_status_bit config)), 1, no_payload, 0)
         | MpPolling \<Rightarrow> Some (RegRead, fixed_address station (mb_receive_address config), mb_receive_capacity config, no_payload, 0)
         | MpPollingRepeat \<Rightarrow>
             Some (RegRead, fixed_address station (mb_receive_address config), mb_receive_capacity config, no_payload, 0)
         | MpReadingRepeatActivation \<Rightarrow> Some (RegRead, receive_sync_register c 6, 1, no_payload, 0)
         | MpWritingRepeatRequest \<Rightarrow>
             Some (RegWrite, receive_sync_register c 6, 1, no_payload[0 := mc_repeat_activation c], 1)
         | MpWaitingRepeatAck \<Rightarrow> Some (RegRead, receive_sync_register c 7, 1, no_payload, 0)
         | _ \<Rightarrow> None)"

definition mailbox_next_action ::
  "mailbox_controller \<Rightarrow> u64 \<Rightarrow> mailbox_controller \<times> (mailbox_error, mailbox_action option) result" where
  "mailbox_next_action c now =
     (if mc_phase c = MpIdle then (c, Err MeNotStarted)
      else if mc_ended c then (c, Ok None)
      else if mc_pending c \<noteq> None then (c, Ok (mc_pending c))
      else if mc_configuration_deadline_ns c \<le> now then mailbox_fail c MeTimeout
      else if now < mc_poll_due_ns c then (c, Ok None)
      else case phase_action c of
        None \<Rightarrow> (c, Ok None)
      | Some (operation, address, read_len, payload, write_len) \<Rightarrow>
          let action = \<lparr>ma_token = mc_next_token c, ma_datagram_index = mc_next_datagram_index c,
                ma_generation = mc_generation c, ma_station_address = mc_station_address c,
                ma_operation = operation, ma_address = address, ma_read_len = read_len,
                ma_write_payload = payload, ma_write_len = write_len,
                ma_deadline_ns = min (sat_add now (mb_request_timeout_ns (mc_config c))) (mc_configuration_deadline_ns c),
                ma_expected_wkc = 1,
                ma_working_counter_policy = (if mc_phase c = MpSending \<or> mc_phase c = MpPolling \<or> mc_phase c = MpPollingRepeat
                   then WkcZeroOrOne else WkcExact)\<rparr>
          in (c\<lparr>mc_next_token := wrapping_next (mc_next_token c),
                mc_next_datagram_index := wrapping_next (mc_next_datagram_index c), mc_pending := Some action\<rparr>,
              Ok (Some action)))"

definition mailbox_enqueue_pending ::
  "nat \<Rightarrow> mailbox_controller \<Rightarrow> control_pool \<Rightarrow> control_pool \<times> (control_error, nat) result" where
  "mailbox_enqueue_pending REQUESTS c p =
     (case mc_pending c of
        None \<Rightarrow> (p, Err CeInvalidState)
      | Some a \<Rightarrow> control_acquire_with_wkc_policy REQUESTS p (ma_datagram_index a) (ma_generation a) (ma_address a)
          (ma_operation a) (ma_payload a) (ma_datagram_len a) (ma_deadline_ns a) (ma_working_counter_policy a))"

section \<open>Answers\<close>

text \<open>A message that is not there: wait one poll interval and check the status again.\<close>

definition mailbox_no_message :: "mailbox_controller \<Rightarrow> mailbox_phase \<Rightarrow> u64 \<Rightarrow> mailbox_controller" where
  "mailbox_no_message c phase now =
     c\<lparr>mc_pending := None, mc_phase := phase, mc_poll_due_ns := sat_add now (mb_poll_interval_ns (mc_config c))\<rparr>"

definition mailbox_advance :: "mailbox_controller \<Rightarrow> mailbox_phase \<Rightarrow> u64 \<Rightarrow> mailbox_controller" where
  "mailbox_advance c phase now = c\<lparr>mc_pending := None, mc_phase := phase, mc_poll_due_ns := now\<rparr>"

text \<open>The arm of \<open>Polling\<close> and \<open>PollingRepeat\<close>: a frame of the receive mailbox, or none. The second result is
  the event given to an external sink.\<close>

definition accept_message ::
  "bool \<Rightarrow> mailbox_controller \<Rightarrow> bytes \<Rightarrow> u16 \<Rightarrow> u64 \<Rightarrow>
     mailbox_controller \<times> coe_emergency_event option \<times> (mailbox_error, mailbox_progress) result" where
  "accept_message external c payload wkc now =
     (if wkc = 0 then (mailbox_no_message c MpCheckingStatus now, None, Ok MgNoMessage)
      else case mailbox_frame_parse payload of
        Inl e \<Rightarrow> (case retry_or_fail c e now of (c1, r) \<Rightarrow> (c1, None, r))
      | Inr frame \<Rightarrow>
          let header = mf_header frame
          in if mh_length header = 0 then (mailbox_no_message c MpCheckingStatus now, None, Ok MgNoMessage)
             else if mh_protocol header = MbxError then
               (case mailbox_error_parse (mf_payload frame) of
                  Inl e \<Rightarrow> (case mailbox_fail c e of (c1, r) \<Rightarrow> (c1, None, r))
                | Inr e \<Rightarrow> (case mailbox_fail c (MeRemoteError e) of (c1, r) \<Rightarrow> (c1, None, r)))
             else if mh_protocol header = CoE \<and> is_ok (coe_emergency_parse (mf_payload frame)) then
               (case coe_emergency_parse (mf_payload frame) of
                  Inl _ \<Rightarrow> (c, None, Ok MgEmergencyConsumed)
                | Inr emergency \<Rightarrow>
                    let event = coe_emergency_event_new now (mc_station_address c) (mc_generation c) (mh_counter header) emergency;
                        c1 = (if external then c
                              else c\<lparr>mc_emergency_queue := fst (coe_emergency_queue_record MAILBOX_EMERGENCIES (mc_emergency_queue c) event)\<rparr>)
                    in ((mailbox_no_message c1 MpCheckingStatus now)\<lparr>mc_last_delivered_counter := Some (mh_counter header),
                          mc_discarded_frames := sat_add (mc_discarded_frames c1) 1\<rparr>,
                        if external then Some event else None, Ok MgEmergencyConsumed))
             else if mh_protocol header \<noteq> mc_protocol c then
               (case retry_or_fail c MeProtocolMismatch now of (c1, r) \<Rightarrow> (c1, None, r))
             else
               (c\<lparr>mc_last_delivered_counter := Some (mh_counter header),
                  mc_response := copy_at (mc_response c) 0 (mf_payload frame), mc_response_len := length (mf_payload frame),
                  mc_response_header := Some header, mc_phase := MpComplete, mc_pending := None\<rparr>,
                None, Ok MgComplete))"

definition mailbox_accept_impl ::
  "bool \<Rightarrow> mailbox_controller \<Rightarrow> mailbox_action \<Rightarrow> u16 \<Rightarrow> bytes \<Rightarrow> u16 \<Rightarrow> u64 \<Rightarrow>
     mailbox_controller \<times> coe_emergency_event option \<times> (mailbox_error, mailbox_progress) result" where
  "mailbox_accept_impl external c action generation payload wkc now =
     (if mc_pending c \<noteq> Some action then (case mailbox_fail c MeActionMismatch of (c1, r) \<Rightarrow> (c1, None, r))
      else if ma_generation action \<noteq> generation then (case mailbox_fail c MeGenerationMismatch of (c1, r) \<Rightarrow> (c1, None, r))
      else if ma_deadline_ns action < now then (case retry_or_fail c MeTimeout now of (c1, r) \<Rightarrow> (c1, None, r))
      else if \<not> wkc_accepts (ma_working_counter_policy action) (ma_expected_wkc action) wkc then
        (case retry_or_fail c MeUnexpectedWorkingCounter now of (c1, r) \<Rightarrow> (c1, None, r))
      else if length payload \<noteq> ma_datagram_len action then
        (case retry_or_fail c MePayloadLengthMismatch now of (c1, r) \<Rightarrow> (c1, None, r))
      else case mc_phase c of
        MpCheckingSendStatus \<Rightarrow>
          if payload ! 0 AND MAILBOX_FULL_STATUS_MASK \<noteq> 0
          then (mailbox_no_message c MpCheckingSendStatus now, None, Ok MgNoMessage)
          else (mailbox_advance c MpSending now, None, Ok MgAdvanced)
      | MpSending \<Rightarrow>
          if wkc = 0 then (mailbox_no_message c MpCheckingSendStatus now, None, Ok MgNoMessage)
          else (mailbox_advance c (if mc_status_source c = SrcPollTime then MpPolling else MpCheckingStatus) now, None, Ok MgAdvanced)
      | MpCheckingStatus \<Rightarrow>
          if mc_status_source c \<noteq> SrcDirect then (case mailbox_fail c MeInvalidConfiguration of (c1, r) \<Rightarrow> (c1, None, r))
          else
            let status_bit = receive_status_bit (mc_config c);
                active = (payload ! 0 AND ms_mask status_bit \<noteq> 0);
                active = (if ms_active_high status_bit then active else \<not> active)
            in if active then (mailbox_advance c MpPolling now, None, Ok MgAdvanced)
               else (mailbox_no_message c MpCheckingStatus now, None, Ok MgNoMessage)
      | MpReadingRepeatActivation \<Rightarrow>
          ((mailbox_advance c MpWritingRepeatRequest now)\<lparr>mc_repeat_activation := payload ! 0 XOR 0x02\<rparr>, None, Ok MgAdvanced)
      | MpWritingRepeatRequest \<Rightarrow> (mailbox_advance c MpWaitingRepeatAck now, None, Ok MgAdvanced)
      | MpWaitingRepeatAck \<Rightarrow>
          if payload ! 0 AND 0x02 \<noteq> mc_repeat_activation c AND 0x02
          then (mailbox_no_message c MpWaitingRepeatAck now, None, Ok MgNoMessage)
          else (mailbox_advance c MpPollingRepeat now, None, Ok MgAdvanced)
      | MpPolling \<Rightarrow> accept_message external c payload wkc now
      | MpPollingRepeat \<Rightarrow> accept_message external c payload wkc now
      | _ \<Rightarrow> (case mailbox_fail c MeNoPendingAction of (c1, r) \<Rightarrow> (c1, None, r)))"

definition mailbox_accept ::
  "mailbox_controller \<Rightarrow> mailbox_action \<Rightarrow> u16 \<Rightarrow> bytes \<Rightarrow> u16 \<Rightarrow> u64 \<Rightarrow>
     mailbox_controller \<times> (mailbox_error, mailbox_progress) result" where
  "mailbox_accept c action generation payload wkc now =
     (case mailbox_accept_impl False c action generation payload wkc now of (c1, _, r) \<Rightarrow> (c1, r))"

definition mailbox_accept_with_emergency_sink ::
  "mailbox_controller \<Rightarrow> mailbox_action \<Rightarrow> u16 \<Rightarrow> bytes \<Rightarrow> u16 \<Rightarrow> u64 \<Rightarrow>
     mailbox_controller \<times> coe_emergency_event option \<times> (mailbox_error, mailbox_progress) result" where
  "mailbox_accept_with_emergency_sink = mailbox_accept_impl True"

text \<open>The request of the pool that carries the pending action; a failed one is compared without its length.\<close>

definition carries_action :: "control_request \<Rightarrow> mailbox_action \<Rightarrow> bool" where
  "carries_action r a \<longleftrightarrow> cr_action_datagram_index r = ma_datagram_index a \<and> cr_generation r = ma_generation a \<and>
     cr_address r = ma_address a \<and> cr_response_length r = ma_datagram_len a \<and> cr_operation r = ma_operation a \<and>
     cr_deadline_ns r = ma_deadline_ns a \<and> cr_working_counter_policy r = ma_working_counter_policy a"

definition mailbox_accept_completed ::
  "bool \<Rightarrow> nat \<Rightarrow> mailbox_controller \<Rightarrow> control_pool \<Rightarrow> nat \<Rightarrow> u64 \<Rightarrow>
     mailbox_controller \<times> control_pool \<times> coe_emergency_event option \<times> (mailbox_error, mailbox_progress) result" where
  "mailbox_accept_completed external REQUESTS c p handle now =
     (case mc_pending c of
        None \<Rightarrow> (case mailbox_fail c MeNoPendingAction of (c1, r) \<Rightarrow> (c1, p, None, r))
      | Some a \<Rightarrow>
          (case control_get REQUESTS p handle of
             None \<Rightarrow> (case mailbox_fail c (MeControl CeInvalidHandle) of (c1, r) \<Rightarrow> (c1, p, None, r))
           | Some q \<Rightarrow>
               if cr_state q = RsComplete then
                 if \<not> carries_action q a \<or> cr_length q \<noteq> ma_datagram_len a then
                   (case mailbox_fail c MeActionMismatch of (c1, r) \<Rightarrow> (c1, fst (control_release REQUESTS p handle), None, r))
                 else
                   let response = copy_at (replicate MAX_MAILBOX_BYTES 0) 0 (request_payload q)
                   in case mailbox_accept_impl external c a (cr_generation q) (take (ma_datagram_len a) response)
                             (cr_actual_wkc q) now of
                        (c1, event, progress) \<Rightarrow>
                          (case control_release REQUESTS p handle of
                             (p1, release) \<Rightarrow>
                               (case progress of
                                  Inl e \<Rightarrow> (c1, p1, event, Err e)
                                | Inr g \<Rightarrow>
                                    (case release of
                                       Inr _ \<Rightarrow> (c1, p1, event, Ok g)
                                     | Inl e \<Rightarrow> (case mailbox_fail c1 (MeControl e) of (c2, r) \<Rightarrow> (c2, p1, event, r)))))
               else if cr_state q = RsFailed then
                 if \<not> carries_action q a then (case mailbox_fail c MeActionMismatch of (c1, r) \<Rightarrow> (c1, p, None, r))
                 else
                   let e = (case cr_last_error q of None \<Rightarrow> CeInvalidState | Some e \<Rightarrow> e);
                       p1 = fst (control_release REQUESTS p handle)
                   in if e = CeWorkingCounterMismatch then
                        (case retry_or_fail c MeUnexpectedWorkingCounter now of (c1, r) \<Rightarrow> (c1, p1, None, r))
                      else if e = CeTimeout then (case mailbox_timeout c a now of (c1, r) \<Rightarrow> (c1, p1, None, r))
                      else if e = CeTransmitFailed then
                        (case retry_or_fail c (MeControl e) now of (c1, r) \<Rightarrow> (c1, p1, None, r))
                      else (case mailbox_fail c (MeControl e) of (c1, r) \<Rightarrow> (c1, p1, None, r))
               else (c, p, None, Err (MeControl CeInvalidState))))"

end
