(* ===== verification/Mailbox_Recovery.thy ===== *)
theory Mailbox_Recovery
  imports Mailbox_Controller Sdo_Exchange
begin

text \<open>
  A mailbox transaction over a link that loses frames. The controller's actions are executed by the
  simulated slave; the frame of each may be lost on the way to the slave or on the way back. The
  retries and the repeat procedure of the mailbox recover the answer: the request is served once
  and its answer delivered, as long as the losses are within the retry policy and the time within
  the deadline.
\<close>

section \<open>The slave on the link\<close>

text \<open>What a slave does with the datagram of an action (\<open>lib.rs\<close> of the simulator, the arms of the
  configured address): the data on the way back and the working counter.\<close>

definition esc_execute :: "esc \<Rightarrow> mailbox_action \<Rightarrow> esc \<times> bytes \<times> u16" where
  "esc_execute e a =
     (let n = ma_datagram_len a;
          address = unat (register_from_address (ma_address a));
          data = ma_payload a @ replicate (n - length (ma_payload a)) 0
      in case ma_operation a of
           RegRead \<Rightarrow> (case esc_read e address n of None \<Rightarrow> (e, data, 0) | Some (e1, bs) \<Rightarrow> (e1, bs, 1))
         | RegWrite \<Rightarrow> (case esc_write e address data of None \<Rightarrow> (e, data, 0) | Some e1 \<Rightarrow> (e1, data, 1))
         | _ \<Rightarrow> (e, data, 0))"

datatype link_outcome = Arrives u64 | RequestLost | AnswerLost

fun arrives :: "link_outcome \<Rightarrow> bool" where
  "arrives (Arrives d) = True"
| "arrives _ = False"

text \<open>One round: the next action when it is due, its execution, and its answer after some delay or its
  timeout at the action's deadline. The slave works on its mailbox in between.\<close>

definition drive_round :: "u64 \<times> mailbox_controller \<times> esc \<Rightarrow> link_outcome \<Rightarrow> u64 \<times> mailbox_controller \<times> esc" where
  "drive_round s outcome =
     (case s of (now, c, e) \<Rightarrow>
        let due = max now (mc_poll_due_ns c)
        in case mailbox_next_action c due of
             (c1, Inr (Some a)) \<Rightarrow>
               (case esc_execute e a of (e1, data, wkc) \<Rightarrow>
                  (case outcome of
                     Arrives d \<Rightarrow> (due + d, fst (mailbox_accept c1 a (ma_generation a) data wkc (due + d)), tick_mailbox e1)
                   | RequestLost \<Rightarrow> (ma_deadline_ns a, fst (mailbox_timeout c1 a (ma_deadline_ns a)), tick_mailbox e)
                   | AnswerLost \<Rightarrow> (ma_deadline_ns a, fst (mailbox_timeout c1 a (ma_deadline_ns a)), tick_mailbox e1)))
           | (c1, _) \<Rightarrow> (due, c1, tick_mailbox e))"

definition drive :: "u64 \<times> mailbox_controller \<times> esc \<Rightarrow> link_outcome list \<Rightarrow> u64 \<times> mailbox_controller \<times> esc" where
  "drive = foldl drive_round"

section \<open>What serving keeps\<close>

definition keeps_hardware :: "esc \<Rightarrow> esc \<Rightarrow> bool" where
  "keeps_hardware e e' \<longleftrightarrow> es_sm e' = es_sm e \<and> es_online e' = es_online e \<and> es_repeat_ack e' = es_repeat_ack e"

lemma keeps_hardware_basic [simp]:
  "keeps_hardware e e" "keeps_hardware e (publish_mailbox e1 r k) \<longleftrightarrow> keeps_hardware e e1"
  "keeps_hardware e (sim_abort e1 i s code) \<longleftrightarrow> keeps_hardware e e1"
  "keeps_hardware e (e1\<lparr>es_transfer := t\<rparr>) \<longleftrightarrow> keeps_hardware e e1"
  "keeps_hardware (e1\<lparr>es_transfer := t\<rparr>) e \<longleftrightarrow> keeps_hardware e1 e"
  by (simp_all add: keeps_hardware_def publish_mailbox_def sim_abort_def Let_def)

lemma keeps_hardware_store: "store_download e index sub data = (e', r) \<Longrightarrow> keeps_hardware e e'"
  by (auto simp: store_download_def set_object_def keeps_hardware_def put_large_def put_small_def split: if_splits option.splits)

lemma keeps_hardware_if: "keeps_hardware e x \<Longrightarrow> keeps_hardware e y \<Longrightarrow> keeps_hardware e (if b then x else y)"
  by simp

lemma keeps_hardware_store_case:
  assumes "keeps_hardware e e1" "\<And>e2. keeps_hardware e e2 \<Longrightarrow> keeps_hardware e (f e2)" "\<And>e2. keeps_hardware e e2 \<Longrightarrow> keeps_hardware e (g e2)"
  shows "keeps_hardware e (case store_download e1 index sub data of (e2, Inl _) \<Rightarrow> f e2 | (e2, Inr _) \<Rightarrow> g e2)"
  using keeps_hardware_store [of e1 index sub data] assms
  by (cases "store_download e1 index sub data") (auto simp: keeps_hardware_def split: sum.split)

lemmas keeps_hardware_intros = keeps_hardware_if keeps_hardware_store_case

lemma serve_keeps_hardware:
  "keeps_hardware e (upload_segment e command)" "keeps_hardware e (download_segment e command p)"
  "keeps_hardware e (serve_upload e p)" "keeps_hardware e (serve_download e p)" "keeps_hardware e (sim_information e n)"
proof -
  show "keeps_hardware e (upload_segment e command)" by (simp add: upload_segment_def Let_def)
  show "keeps_hardware e (download_segment e command p)"
    unfolding download_segment_def Let_def by (intro keeps_hardware_intros; simp only: keeps_hardware_basic)
  show "keeps_hardware e (serve_upload e p)" by (simp add: serve_upload_def Let_def split: option.splits)
  show "keeps_hardware e (serve_download e p)"
    unfolding serve_download_def Let_def by (intro keeps_hardware_intros; simp only: keeps_hardware_basic)
  show "keeps_hardware e (sim_information e n)" by (simp add: sim_information_def Let_def split: option.splits)
qed

lemma process_keeps_hardware: "keeps_hardware e (process_mailbox e)"
  by (simp add: process_mailbox_def Let_def serve_keeps_hardware)

section \<open>States of a transaction\<close>

text \<open>The constants of a transaction: a slave \<open>e\<close> at rest, the controller's configuration for it, the request
  \<open>p\<close> with its counter, the slave \<open>e2\<close> and the payload \<open>r\<close> it publishes as the answer.\<close>

definition transaction_setup :: "esc \<Rightarrow> mailbox_config \<Rightarrow> u8 \<Rightarrow> bytes \<Rightarrow> esc \<Rightarrow> bytes \<Rightarrow> bool" where
  "transaction_setup e cfg counter p e2 r \<longleftrightarrow>
     sim_ready e \<and> es_repeat_ack e \<and> 2 \<le> length (es_sm e) \<and> length (es_sm e ! 1) = 8 \<and>
     es_sm e ! 1 ! 6 AND 2 = es_sm e ! 1 ! 7 AND 2 \<and>
     0x1000 \<le> sm_start e 0 \<and> sm_start e 0 + sm_len e 0 \<le> 65536 \<and> 0x1000 \<le> sm_start e 1 \<and> sm_start e 1 + sm_len e 1 \<le> 65536 \<and>
     unat (mb_send_address cfg) = sm_start e 0 \<and> unat (mb_send_capacity cfg) = sm_len e 0 \<and>
     unat (mb_receive_address cfg) = sm_start e 1 \<and> unat (mb_receive_capacity cfg) = sm_len e 1 \<and>
     mb_status_bit cfg = None \<and> mb_send_sync_manager cfg = 0 \<and> mb_receive_sync_manager cfg = 1 \<and>
     counter \<le> MAILBOX_COUNTER_MASK \<and> length p + 6 \<le> sm_len e 0 \<and>
     process_mailbox (sent e counter p) = publish_mailbox e2 r 3 \<and>
     r \<noteq> [] \<and> length r + 6 \<le> sm_len e 1 \<and> \<not> is_ok (coe_emergency_parse r)"

text \<open>A slave that has served the request, its answer still there or already read.\<close>

definition has_served :: "esc \<Rightarrow> esc \<Rightarrow> bytes \<Rightarrow> esc \<Rightarrow> bool" where
  "has_served e e2 r x \<longleftrightarrow>
     es_transfer x = es_transfer e2 \<and> es_objects x = es_objects e2 \<and> es_large x = es_large e2 \<and> \<not> es_send_full x \<and>
     es_previous x = es_receive (publish_mailbox e2 r 3) \<and> es_previous_valid x \<and>
     (es_receive_full x \<longrightarrow> es_receive x = es_receive (publish_mailbox e2 r 3)) \<and> es_repeat_ack x \<and>
     2 \<le> length (es_sm x) \<and> length (es_sm x ! 1) = 8 \<and> es_sm x ! 0 = es_sm e ! 0 \<and> (\<forall>j<6. es_sm x ! 1 ! j = es_sm e ! 1 ! j) \<and>
     es_sm x ! 1 ! 6 AND 1 \<noteq> 0 \<and> es_sm x ! 1 ! 7 AND 1 = 0"

definition repeat_acked :: "esc \<Rightarrow> bool" where
  "repeat_acked x \<longleftrightarrow> es_sm x ! 1 ! 6 AND 2 = es_sm x ! 1 ! 7 AND 2"

definition phase_holds :: "esc \<Rightarrow> esc \<Rightarrow> bytes \<Rightarrow> mailbox_controller \<Rightarrow> esc \<Rightarrow> bool" where
  "phase_holds e e2 r c x \<longleftrightarrow>
     (case mc_phase c of
        MpCheckingSendStatus \<Rightarrow> x = e
      | MpSending \<Rightarrow> x = e
      | MpCheckingStatus \<Rightarrow> has_served e e2 r x \<and> es_receive_full x \<and> repeat_acked x
      | MpPolling \<Rightarrow> has_served e e2 r x \<and> es_receive_full x \<and> repeat_acked x
      | MpReadingRepeatActivation \<Rightarrow> has_served e e2 r x \<and> repeat_acked x
      | MpWritingRepeatRequest \<Rightarrow> has_served e e2 r x \<and> mc_repeat_activation c AND 1 \<noteq> 0 \<and>
          (es_sm x ! 1 ! 7 AND 2 \<noteq> mc_repeat_activation c AND 2 \<or>
           es_receive_full x)
      | MpWaitingRepeatAck \<Rightarrow> has_served e e2 r x \<and> es_receive_full x \<and> repeat_acked x \<and>
          es_sm x ! 1 ! 7 AND 2 = mc_repeat_activation c AND 2
      | MpPollingRepeat \<Rightarrow> has_served e e2 r x \<and> es_receive_full x \<and> repeat_acked x
      | MpComplete \<Rightarrow> has_served e e2 r x \<and> \<not> es_receive_full x \<and> map_option snd (mailbox_response c) = Some r
      | _ \<Rightarrow> False)"

definition transaction_ctl :: "esc \<Rightarrow> mailbox_config \<Rightarrow> u8 \<Rightarrow> bytes \<Rightarrow> u64 \<Rightarrow> mailbox_controller \<Rightarrow> bool" where
  "transaction_ctl e cfg counter p deadline c \<longleftrightarrow>
     mc_config c = cfg \<and> mc_status_source c = SrcDirect \<and> mc_protocol c = CoE \<and>
     mc_configuration_deadline_ns c = deadline \<and> mc_send_frame c = fst (mailbox_send_frame counter CoE p) \<and>
     mc_send_len c = sm_len e 0 \<and> length (mc_response c) = MAX_MAILBOX_BYTES \<and> mc_pending c = None"

fun phase_after :: "mailbox_phase \<Rightarrow> mailbox_phase" where
  "phase_after MpCheckingSendStatus = MpSending"
| "phase_after MpSending = MpCheckingStatus"
| "phase_after MpCheckingStatus = MpPolling"
| "phase_after MpPolling = MpComplete"
| "phase_after MpReadingRepeatActivation = MpWritingRepeatRequest"
| "phase_after MpWritingRepeatRequest = MpWaitingRepeatAck"
| "phase_after MpWaitingRepeatAck = MpPollingRepeat"
| "phase_after MpPollingRepeat = MpComplete"
| "phase_after ph = ph"

fun phase_lost :: "mailbox_phase \<Rightarrow> mailbox_phase" where
  "phase_lost MpPolling = MpReadingRepeatActivation"
| "phase_lost MpPollingRepeat = MpReadingRepeatActivation"
| "phase_lost ph = ph"

fun rounds_left :: "mailbox_phase \<Rightarrow> nat" where
  "rounds_left MpCheckingSendStatus = 4"
| "rounds_left MpSending = 3"
| "rounds_left MpCheckingStatus = 2"
| "rounds_left MpPolling = 1"
| "rounds_left MpReadingRepeatActivation = 4"
| "rounds_left MpWritingRepeatRequest = 3"
| "rounds_left MpWaitingRepeatAck = 2"
| "rounds_left MpPollingRepeat = 1"
| "rounds_left _ = 0"

section \<open>Executing the actions\<close>

text \<open>The action of the current phase, its address and lengths.\<close>

definition issued :: "mailbox_controller \<Rightarrow> u64 \<Rightarrow> mailbox_action" where
  "issued c now = (case phase_action c of Some (operation, address, read_len, payload, write_len) \<Rightarrow>
     \<lparr>ma_token = mc_next_token c, ma_datagram_index = mc_next_datagram_index c,
      ma_generation = mc_generation c, ma_station_address = mc_station_address c,
      ma_operation = operation, ma_address = address, ma_read_len = read_len,
      ma_write_payload = payload, ma_write_len = write_len,
      ma_deadline_ns = min (sat_add now (mb_request_timeout_ns (mc_config c))) (mc_configuration_deadline_ns c),
      ma_expected_wkc = 1,
      ma_working_counter_policy = (if mc_phase c = MpSending \<or> mc_phase c = MpPolling \<or> mc_phase c = MpPollingRepeat
         then WkcZeroOrOne else WkcExact)\<rparr>)"

definition issuing :: "mailbox_controller \<Rightarrow> u64 \<Rightarrow> mailbox_controller" where
  "issuing c now = c\<lparr>mc_next_token := wrapping_next (mc_next_token c),
     mc_next_datagram_index := wrapping_next (mc_next_datagram_index c), mc_pending := Some (issued c now)\<rparr>"

lemma next_action_issues:
  assumes "\<not> mc_inactive c" "mc_pending c = None" "now < mc_configuration_deadline_ns c" "mc_poll_due_ns c \<le> now"
    "phase_action c \<noteq> None"
  shows "mailbox_next_action c now = (issuing c now, Ok (Some (issued c now)))"
  using assms by (auto simp: mailbox_next_action_def mc_inactive_def mc_ended_def issued_def issuing_def Let_def)

lemma issuing_fields [simp]:
  "mc_phase (issuing c now) = mc_phase c" "mc_config (issuing c now) = mc_config c"
  "mc_pending (issuing c now) = Some (issued c now)" "mc_status_source (issuing c now) = mc_status_source c"
  "mc_retry_count (issuing c now) = mc_retry_count c" "mc_protocol (issuing c now) = mc_protocol c"
  "mc_configuration_deadline_ns (issuing c now) = mc_configuration_deadline_ns c"
  "mc_send_frame (issuing c now) = mc_send_frame c" "mc_send_len (issuing c now) = mc_send_len c"
  "mc_response (issuing c now) = mc_response c" "mc_repeat_activation (issuing c now) = mc_repeat_activation c"
  by (simp_all add: issuing_def)

lemma has_served_sm:
  assumes "has_served e e2 r x"
  shows "sm_start x 0 = sm_start e 0" "sm_len x 0 = sm_len e 0" "sm_start x 1 = sm_start e 1" "sm_len x 1 = sm_len e 1"
  using assms by (simp_all add: has_served_def sm_start_def sm_len_def)

lemma has_served_enabled:
  assumes "has_served e e2 r x" "sm_enabled e 1"
  shows "sm_enabled x 1"
  using assms has_served_sm [OF assms(1)] by (simp add: sm_enabled_def has_served_def)

lemma tick_idle: "\<not> es_send_full x \<Longrightarrow> tick_mailbox x = x"
  by (simp add: tick_mailbox_def)

text \<open>A one byte read of a sync manager register.\<close>

lemma execute_register_read:
  assumes "ma_operation a = RegRead" "ma_address a = fixed_address station reg" "ma_read_len a = 1" "ma_write_len a = 0"
    and "0x1000 \<le> sm_start x 1" "0x800 \<le> unat reg" "unat reg < 0x880"
  shows "esc_execute x a = (x, [sm_register x (unat reg)], 1)" "ma_datagram_len a = 1"
proof -
  show n: "ma_datagram_len a = 1" using assms(3,4) by (simp add: ma_datagram_len_def)
  have "esc_read x (unat reg) 1 = Some (x, [sm_register x (unat reg)])"
    using assms(5-7) by (simp add: esc_read_def)
  then show "esc_execute x a = (x, [sm_register x (unat reg)], 1)"
    using n by (simp add: esc_execute_def Let_def assms(1,2))
qed

text \<open>Reading the whole receive mailbox.\<close>

lemma execute_poll:
  assumes "ma_operation a = RegRead" "ma_address a = fixed_address station reg" "unat (ma_read_len a) = sm_len x 1"
    "ma_write_len a = 0" "unat reg = sm_start x 1" "sm_enabled x 1" "sm_start x 1 + sm_len x 1 \<le> 65536" "es_receive_full x"
  shows "esc_execute x a = (x\<lparr>es_receive_full := False\<rparr>, take (sm_len x 1) (es_receive x), 1)" "ma_datagram_len a = sm_len x 1"
proof -
  have pos: "0 < sm_len x 1" using assms(6) by (simp add: sm_enabled_def)
  show n: "ma_datagram_len a = sm_len x 1" using assms(3,4) pos by (simp add: ma_datagram_len_def)
  have "esc_read x (unat reg) (sm_len x 1) = Some (x\<lparr>es_receive_full := False\<rparr>, take (sm_len x 1) (es_receive x))"
    using assms(5-8) pos by (simp add: esc_read_def mailbox_read_def Let_def subslice_def)
  then show "esc_execute x a = (x\<lparr>es_receive_full := False\<rparr>, take (sm_len x 1) (es_receive x), 1)"
    using n by (simp add: esc_execute_def Let_def assms(1,2))
qed

lemma execute_send:
  assumes su: "transaction_setup e cfg counter p e2 r" and ctl: "transaction_ctl e cfg counter p deadline c"
    and ph: "mc_phase c = MpSending"
  shows "\<exists>data. esc_execute e (issued c now) = (sent e counter p, data, 1) \<and> length data = ma_datagram_len (issued c now)"
proof -
  note s = su [unfolded transaction_setup_def] and k = ctl [unfolded transaction_ctl_def]
  let ?a = "issued c now" and ?F = "fst (mailbox_send_frame counter CoE p)" and ?n = "sm_len e 0"
  have ready: "sim_ready e" "counter \<le> MAILBOX_COUNTER_MASK" "length p + 6 \<le> ?n" using s by simp_all
  have n: "?n \<le> 128" "0 < ?n" using sim_ready_len [OF ready(1)] ready by (simp_all add: sim_sizes sim_ready_def)
  have un: "unat (of_nat ?n :: u8) = ?n" "unat (of_nat ?n :: u16) = ?n"
    using n(1) by (simp_all add: unsigned_of_nat take_bit_nat_eq_self_iff)
  have a: "ma_operation ?a = RegWrite" "ma_address ?a = fixed_address (mc_station_address c) (mb_send_address cfg)"
    "ma_payload ?a = take ?n ?F" "ma_datagram_len ?a = ?n"
    using k ph un by (simp_all add: issued_def phase_action_def Let_def ma_payload_def ma_datagram_len_def)
  have len: "length (take ?n ?F) = ?n" using request_frame(2) [OF ready] sim_ready_len [OF ready(1)] by simp
  have "esc_write e (sm_start e 0) (take ?n ?F) = Some (sent e counter p)"
    using request_written [OF ready] s n(2) len by (simp add: esc_write_def)
  then show ?thesis
    using a len s by (simp add: esc_execute_def Let_def)
qed

lemma sent_tick:
  assumes "transaction_setup e cfg counter p e2 r"
  shows "tick_mailbox (sent e counter p) = served e2 r" "has_served e e2 r (served e2 r)" "repeat_acked (served e2 r)"
proof -
  note s = assms [unfolded transaction_setup_def]
  have "keeps_hardware (sent e counter p) (publish_mailbox e2 r 3)"
    using process_keeps_hardware [of "sent e counter p"] s by simp
  then have hw: "es_sm e2 = es_sm e" "es_repeat_ack e2 = es_repeat_ack e"
    by (simp_all add: keeps_hardware_def publish_mailbox_def Let_def) (simp add: sent_def)
  show "tick_mailbox (sent e counter p) = served e2 r" using tick_serves s by simp
  show "has_served e e2 r (served e2 r)"
    using s hw by (simp add: has_served_def sim_ready_def sm_enabled_def)
  show "repeat_acked (served e2 r)" using s hw by (simp add: repeat_acked_def)
qed

text \<open>Writing the repeat request: the previous message becomes available again unless it already is.\<close>

lemma execute_repeat_write:
  assumes x: "has_served e e2 r x" and far: "0x1000 \<le> sm_start e 0"
    and act: "act AND 1 \<noteq> 0" and full: "es_sm x ! 1 ! 7 AND 2 \<noteq> act AND 2 \<or> es_receive_full x"
    and a: "ma_operation a = RegWrite" "ma_address a = fixed_address station 0x80E" "ma_payload a = [act]" "ma_datagram_len a = 1"
  shows "\<exists>x'. esc_execute x a = (x', [act], 1) \<and> has_served e e2 r x' \<and> es_receive_full x' \<and> repeat_acked x' \<and>
    es_sm x' ! 1 ! 7 AND 2 = act AND 2"
proof -
  note h = x [unfolded has_served_def]
  obtain s0 s1 rest where sm: "es_sm x = s0 # s1 # rest" using h by (auto simp: Suc_le_length_iff numeral_2_eq_2)
  have len: "length s1 = 8" using h sm by simp
  let ?x' = "sm_register_write x 0x80E act"
  have "esc_write x 0x80E [act] = Some ?x'"
    using has_served_sm [OF x] far by (simp add: esc_write_def)
  then have ex: "esc_execute x a = (?x', [act], 1)" using a by (simp add: esc_execute_def Let_def)
  have mask: "(act AND 0xc3) AND 1 = act AND 1" "(act AND 0xc3) AND 2 = act AND 2"
    by (simp_all add: and.assoc)
  have ack: "((w AND NOT 2) OR (act AND 2)) AND 1 = w AND 1" "((w AND NOT 2) OR (act AND 2)) AND 2 = act AND 2" for w :: u8
    by (simp_all add: bit.conj_disj_distrib2 and.assoc)
  define t1 where "t1 = s1[6 := act AND 0xc3]"
  have t1: "length t1 = 8" "t1 ! 6 = act AND 0xc3" "t1 ! 7 = s1 ! 7" "\<forall>j<6. t1 ! j = s1 ! j"
    using len by (simp_all add: t1_def)
  have written: "?x' = (let e1 = x\<lparr>es_sm := s0 # t1 # rest\<rparr>
      in if act AND 2 \<noteq> s1 ! 7 AND 2
         then x\<lparr>es_sm := s0 # t1[7 := (s1 ! 7 AND NOT 2) OR (act AND 2)] # rest, es_receive := es_previous x,
                es_receive_full := True, es_repeats := sat_add (es_repeats x) 1\<rparr> else e1)"
    using h t1 by (simp add: sm_register_write_def set_sm_def Let_def sm t1_def [symmetric])
  show ?thesis
  proof (cases "act AND 2 = s1 ! 7 AND 2")
    case True
    then have x': "?x' = x\<lparr>es_sm := s0 # t1 # rest\<rparr>" by (simp add: written)
    have "es_receive_full x" using full True sm by auto
    then show ?thesis
      using ex h act t1 mask True unfolding x' by (simp add: has_served_def repeat_acked_def sm)
  next
    case False
    then have x': "?x' = x\<lparr>es_sm := s0 # t1[7 := (s1 ! 7 AND NOT 2) OR (act AND 2)] # rest, es_receive := es_previous x,
                es_receive_full := True, es_repeats := sat_add (es_repeats x) 1\<rparr>" by (simp add: written)
    show ?thesis
      using ex h act t1 mask ack [of "s1 ! 7"] unfolding x' by (simp add: has_served_def repeat_acked_def sm)
  qed
qed

section \<open>Rounds\<close>

text \<open>Times within the deadline are exact.\<close>

lemma action_deadline:
  assumes "unat now + unat (mb_request_timeout_ns (mc_config c)) < unat (mc_configuration_deadline_ns c)"
    and "phase_action c \<noteq> None"
  shows "ma_deadline_ns (issued c now) = now + mb_request_timeout_ns (mc_config c)"
    and "unat (ma_deadline_ns (issued c now)) = unat now + unat (mb_request_timeout_ns (mc_config c))"
proof -
  let ?r = "mb_request_timeout_ns (mc_config c)"
  have lt: "unat now + unat ?r < 2 ^ LENGTH(64)" using assms(1) unat_less [of "mc_configuration_deadline_ns c"] by linarith
  have s: "sat_add now ?r = now + ?r" "unat (now + ?r) = unat now + unat ?r"
    using sat_add_eq_plus [OF lt] lt by (simp_all add: unat_word_ariths)
  then have "now + ?r \<le> mc_configuration_deadline_ns c" using assms(1) by (simp add: word_le_nat_alt)
  then show "ma_deadline_ns (issued c now) = now + ?r" using assms(2) s by (auto simp: issued_def)
  then show "unat (ma_deadline_ns (issued c now)) = unat now + unat ?r" using s by simp
qed

lemma accept_arrived:
  assumes "ma_deadline_ns (issued c now) = now + w" "t \<le> now + w" "phase_action c \<noteq> None" "length data = ma_datagram_len (issued c now)"
  shows "mailbox_accept (issuing c now) (issued c now) (ma_generation (issued c now)) data 1 t =
    (case (case mc_phase c of
        MpCheckingSendStatus \<Rightarrow>
          if data ! 0 AND MAILBOX_FULL_STATUS_MASK \<noteq> 0
          then (mailbox_no_message (issuing c now) MpCheckingSendStatus t, None, Ok MgNoMessage)
          else (mailbox_advance (issuing c now) MpSending t, None, Ok MgAdvanced)
      | MpSending \<Rightarrow>
          (mailbox_advance (issuing c now) (if mc_status_source c = SrcPollTime then MpPolling else MpCheckingStatus) t, None, Ok MgAdvanced)
      | MpCheckingStatus \<Rightarrow>
          if mc_status_source c \<noteq> SrcDirect then (case mailbox_fail (issuing c now) MeInvalidConfiguration of (c1, r) \<Rightarrow> (c1, None, r))
          else
            let status_bit = receive_status_bit (mc_config c);
                active = (data ! 0 AND ms_mask status_bit \<noteq> 0);
                active = (if ms_active_high status_bit then active else \<not> active)
            in if active then (mailbox_advance (issuing c now) MpPolling t, None, Ok MgAdvanced)
               else (mailbox_no_message (issuing c now) MpCheckingStatus t, None, Ok MgNoMessage)
      | MpReadingRepeatActivation \<Rightarrow>
          ((mailbox_advance (issuing c now) MpWritingRepeatRequest t)\<lparr>mc_repeat_activation := data ! 0 XOR 0x02\<rparr>, None, Ok MgAdvanced)
      | MpWritingRepeatRequest \<Rightarrow> (mailbox_advance (issuing c now) MpWaitingRepeatAck t, None, Ok MgAdvanced)
      | MpWaitingRepeatAck \<Rightarrow>
          if data ! 0 AND 0x02 \<noteq> mc_repeat_activation c AND 0x02
          then (mailbox_no_message (issuing c now) MpWaitingRepeatAck t, None, Ok MgNoMessage)
          else (mailbox_advance (issuing c now) MpPollingRepeat t, None, Ok MgAdvanced)
      | MpPolling \<Rightarrow> accept_message False (issuing c now) data 1 t
      | MpPollingRepeat \<Rightarrow> accept_message False (issuing c now) data 1 t
      | _ \<Rightarrow> (case mailbox_fail (issuing c now) MeNoPendingAction of (c1, r) \<Rightarrow> (c1, None, r))) of (c1, _, r) \<Rightarrow> (c1, r))"
proof -
  have "ma_expected_wkc (issued c now) = 1" using assms(3) by (auto simp: issued_def)
  then have "wkc_accepts (ma_working_counter_policy (issued c now)) (ma_expected_wkc (issued c now)) 1"
    by (cases "ma_working_counter_policy (issued c now)") simp_all
  moreover have "\<not> ma_deadline_ns (issued c now) < t" using assms(1,2) by simp
  ultimately show ?thesis
    using assms(4) by (simp add: mailbox_accept_def mailbox_accept_impl_def cong: mailbox_phase.case_cong)
qed

lemma accept_answer:
  assumes su: "transaction_setup e cfg counter p e2 r" and x: "has_served e e2 r x" "es_receive_full x"
    and c: "mc_protocol c = CoE" "length (mc_response c) = MAX_MAILBOX_BYTES"
  shows "\<exists>h. accept_message False c (take (sm_len e 1) (es_receive x)) 1 t =
    (c\<lparr>mc_last_delivered_counter := Some (mh_counter h), mc_response := copy_at (mc_response c) 0 r, mc_response_len := length r,
       mc_response_header := Some h, mc_phase := MpComplete, mc_pending := None\<rparr>, None, Ok MgComplete)"
proof -
  note s = su [unfolded transaction_setup_def]
  let ?h = "request_header (es_counter e2 AND 7) CoE r"
  have len: "sm_len e 1 \<le> SIM_MAILBOX" "length r + 6 \<le> sm_len e 1" using s sim_ready_len by auto
  have "mailbox_frame_parse (take (sm_len e 1) (es_receive x)) = Ok \<lparr>mf_header = ?h, mf_payload = r\<rparr>"
    using answer_parsed [OF len(2,1)] x by (simp add: has_served_def)
  moreover have "mh_length ?h \<noteq> 0"
  proof -
    have "unat (mh_length ?h) = length r"
      using request_header_valid(2) [of r "es_counter e2 AND 7" CoE] len and_7_le by (simp add: mailbox_lengths sim_sizes)
    then show ?thesis using s by (auto simp: unat_eq_0)
  qed
  moreover have "mh_protocol ?h = CoE" by (simp add: request_header_def)
  ultimately show ?thesis
    using s c by (intro exI [of _ ?h]) (simp add: accept_message_def Let_def)
qed

lemma transaction_phase_action:
  assumes "transaction_ctl e cfg counter p deadline c" "\<not> mc_inactive c"
  shows "phase_action c \<noteq> None"
  using assms by (cases "mc_phase c") (simp_all add: phase_action_def Let_def transaction_ctl_def mc_inactive_def)

text \<open>The registers the controller reads.\<close>

lemma register_values:
  assumes "2 \<le> length (es_sm x)"
  shows "sm_register x 0x805 = mailbox_status x 0" "sm_register x 0x80D = mailbox_status x 1"
    "sm_register x 0x80E = es_sm x ! 1 ! 6" "sm_register x 0x80F = es_sm x ! 1 ! 7"
  by (simp_all add: sm_register_def)

text \<open>What a phase's action achieves: executed on the slave it succeeds; accepted, it takes the transaction to
  the next phase; and if its answer is lost, the slave is in a state from which the retry goes on.\<close>

definition action_works :: "esc \<Rightarrow> mailbox_config \<Rightarrow> u8 \<Rightarrow> bytes \<Rightarrow> esc \<Rightarrow> bytes \<Rightarrow> u64 \<Rightarrow> mailbox_controller \<Rightarrow> esc \<Rightarrow> u64 \<Rightarrow> u64 \<Rightarrow> bool" where
  "action_works e cfg counter p e2 r deadline c x now t \<longleftrightarrow> (\<exists>x1 data c'.
     esc_execute x (issued c now) = (x1, data, 1) \<and>
     fst (mailbox_accept (issuing c now) (issued c now) (ma_generation (issued c now)) data 1 t) = c' \<and>
     transaction_ctl e cfg counter p deadline c' \<and> phase_holds e e2 r c' (tick_mailbox x1) \<and>
     mc_phase c' = phase_after (mc_phase c) \<and> mc_retry_count c' = mc_retry_count c \<and> mc_poll_due_ns c' \<le> t \<and>
     (mc_phase c \<noteq> MpSending \<longrightarrow> (\<forall>c2. mc_phase c2 = phase_lost (mc_phase c) \<and>
        mc_repeat_activation c2 = mc_repeat_activation c \<longrightarrow> phase_holds e e2 r c2 (tick_mailbox x1))))"

lemma transaction_ctl_advance:
  "transaction_ctl e cfg counter p deadline c \<Longrightarrow>
     transaction_ctl e cfg counter p deadline (mailbox_advance (issuing c now) ph t)"
  by (simp add: transaction_ctl_def mailbox_advance_def)

lemma mailbox_advance_fields [simp]:
  "mc_phase (mailbox_advance c ph t) = ph" "mc_retry_count (mailbox_advance c ph t) = mc_retry_count c"
  "mc_poll_due_ns (mailbox_advance c ph t) = t" "mc_repeat_activation (mailbox_advance c ph t) = mc_repeat_activation c"
  by (simp_all add: mailbox_advance_def)

lemma has_served_idle: "has_served e e2 r x \<Longrightarrow> tick_mailbox x = x"
  by (simp add: has_served_def tick_idle)

lemma has_served_read: "has_served e e2 r x \<Longrightarrow> has_served e e2 r (x\<lparr>es_receive_full := False\<rparr>)"
  by (simp add: has_served_def)

lemma sync_manager_addresses:
  "ms_address (sync_manager_mailbox_full 0) = 0x805" "ms_address (sync_manager_mailbox_full 1) = 0x80D"
  "ms_mask (sync_manager_mailbox_full 1) = 8" "ms_active_high (sync_manager_mailbox_full 1)"
  by (simp_all add: sync_manager_mailbox_full_def ESC_SYNC_MANAGER_BASE_def ESC_SYNC_MANAGER_STRIDE_def
      SYNC_MANAGER_STATUS_OFFSET_def MAILBOX_FULL_STATUS_MASK_def)

lemma receive_registers:
  "mb_receive_sync_manager (mc_config c) = 1 \<Longrightarrow> receive_sync_register c 6 = fixed_address (mc_station_address c) 0x80E"
  "mb_receive_sync_manager (mc_config c) = 1 \<Longrightarrow> receive_sync_register c 7 = fixed_address (mc_station_address c) 0x80F"
  by (simp_all add: receive_sync_register_def ESC_SYNC_MANAGER_BASE_def ESC_SYNC_MANAGER_STRIDE_def)

lemma works_check_send:
  assumes su: "transaction_setup e cfg counter p e2 r" and ctl: "transaction_ctl e cfg counter p deadline c"
    and ph: "mc_phase c = MpCheckingSendStatus" "phase_holds e e2 r c x"
    and t: "ma_deadline_ns (issued c now) = now + w" "t \<le> now + w" "mc_poll_due_ns c \<le> t"
  shows "action_works e cfg counter p e2 r deadline c x now t"
proof -
  note s = su [unfolded transaction_setup_def] and k = ctl [unfolded transaction_ctl_def]
  let ?a = "issued c now"
  have x: "x = e" using ph by (simp add: phase_holds_def)
  have a: "ma_operation ?a = RegRead" "ma_address ?a = fixed_address (mc_station_address c) 0x805" "ma_read_len ?a = 1" "ma_write_len ?a = 0"
    using ph(1) k s by (simp_all add: issued_def phase_action_def Let_def sync_manager_addresses)
  have ready: "sim_ready e" "0x1000 \<le> sm_start e 1" using s by simp_all
  have idle: "\<not> es_send_full e" using ready by (simp add: sim_ready_def)
  have "esc_execute e ?a = (e, [sm_register e 0x805], 1)" "ma_datagram_len ?a = 1"
    using execute_register_read [OF a] ready(2) by simp_all
  moreover have "sm_register e 0x805 = 0" using s idle by (simp add: register_values mailbox_status_def)
  ultimately have ex: "esc_execute x ?a = (e, [0], 1)" "length [0 :: u8] = ma_datagram_len ?a" by (simp_all add: x)
  have pa: "phase_action c \<noteq> None" using ph(1) by (simp add: phase_action_def Let_def)
  have "mailbox_accept (issuing c now) ?a (ma_generation ?a) [0] 1 t = (mailbox_advance (issuing c now) MpSending t, Ok MgAdvanced)"
    unfolding accept_arrived [OF t(1,2) pa ex(2)] by (simp add: ph(1))
  then show ?thesis
    unfolding action_works_def using ex(1) transaction_ctl_advance [OF ctl] ph(1) idle
    by (intro exI [of _ e] exI [of _ "[0]"] exI [of _ "mailbox_advance (issuing c now) MpSending t"])
      (simp add: phase_holds_def tick_idle)
qed

lemma works_send:
  assumes su: "transaction_setup e cfg counter p e2 r" and ctl: "transaction_ctl e cfg counter p deadline c"
    and ph: "mc_phase c = MpSending" "phase_holds e e2 r c x"
    and t: "ma_deadline_ns (issued c now) = now + w" "t \<le> now + w" "mc_poll_due_ns c \<le> t"
  shows "action_works e cfg counter p e2 r deadline c x now t"
proof -
  note k = ctl [unfolded transaction_ctl_def]
  let ?a = "issued c now"
  have x: "x = e" using ph by (simp add: phase_holds_def)
  obtain data where ex: "esc_execute e ?a = (sent e counter p, data, 1)" "length data = ma_datagram_len ?a"
    using execute_send [OF su ctl ph(1)] by blast
  have pa: "phase_action c \<noteq> None" using ph(1) by (simp add: phase_action_def Let_def)
  have "mailbox_accept (issuing c now) ?a (ma_generation ?a) data 1 t = (mailbox_advance (issuing c now) MpCheckingStatus t, Ok MgAdvanced)"
    unfolding accept_arrived [OF t(1,2) pa ex(2)] using k by (simp add: ph(1))
  then show ?thesis
    unfolding action_works_def using ex(1) transaction_ctl_advance [OF ctl] ph(1) sent_tick [OF su]
    by (intro exI [of _ "sent e counter p"] exI [of _ data] exI [of _ "mailbox_advance (issuing c now) MpCheckingStatus t"])
      (simp add: phase_holds_def x)
qed

lemma works_check_status:
  assumes su: "transaction_setup e cfg counter p e2 r" and ctl: "transaction_ctl e cfg counter p deadline c"
    and ph: "mc_phase c = MpCheckingStatus" "phase_holds e e2 r c x"
    and t: "ma_deadline_ns (issued c now) = now + w" "t \<le> now + w" "mc_poll_due_ns c \<le> t"
  shows "action_works e cfg counter p e2 r deadline c x now t"
proof -
  note s = su [unfolded transaction_setup_def] and k = ctl [unfolded transaction_ctl_def]
  let ?a = "issued c now"
  have x: "has_served e e2 r x" "es_receive_full x" "repeat_acked x" using ph by (simp_all add: phase_holds_def)
  have a: "ma_operation ?a = RegRead" "ma_address ?a = fixed_address (mc_station_address c) 0x80D" "ma_read_len ?a = 1" "ma_write_len ?a = 0"
    using ph(1) k s by (simp_all add: issued_def phase_action_def Let_def receive_status_bit_def sync_manager_addresses)
  have "0x1000 \<le> sm_start x 1" using s has_served_sm(3) [OF x(1)] by simp
  then have "esc_execute x ?a = (x, [sm_register x 0x80D], 1)" "ma_datagram_len ?a = 1"
    using execute_register_read [OF a] by simp_all
  moreover have "sm_register x 0x80D = 8" using x by (simp add: register_values mailbox_status_def has_served_def)
  ultimately have ex: "esc_execute x ?a = (x, [8], 1)" "length [8 :: u8] = ma_datagram_len ?a" by simp_all
  have pa: "phase_action c \<noteq> None" using ph(1) k by (simp add: phase_action_def Let_def)
  have "mailbox_accept (issuing c now) ?a (ma_generation ?a) [8] 1 t = (mailbox_advance (issuing c now) MpPolling t, Ok MgAdvanced)"
    unfolding accept_arrived [OF t(1,2) pa ex(2)] using k s
    by (simp add: ph(1) receive_status_bit_def sync_manager_addresses)
  then show ?thesis
    unfolding action_works_def using ex(1) transaction_ctl_advance [OF ctl] ph(1) x has_served_idle [OF x(1)]
    by (intro exI [of _ x] exI [of _ "[8]"] exI [of _ "mailbox_advance (issuing c now) MpPolling t"])
      (simp add: phase_holds_def)
qed

lemma works_poll:
  assumes su: "transaction_setup e cfg counter p e2 r" and ctl: "transaction_ctl e cfg counter p deadline c"
    and ph: "mc_phase c = MpPolling \<or> mc_phase c = MpPollingRepeat" "phase_holds e e2 r c x"
    and t: "ma_deadline_ns (issued c now) = now + w" "t \<le> now + w" "mc_poll_due_ns c \<le> t"
  shows "action_works e cfg counter p e2 r deadline c x now t"
proof -
  note s = su [unfolded transaction_setup_def] and k = ctl [unfolded transaction_ctl_def]
  let ?a = "issued c now" and ?x = "x\<lparr>es_receive_full := False\<rparr>"
  have x: "has_served e e2 r x" "es_receive_full x" "repeat_acked x" using ph by (auto simp: phase_holds_def)
  note sm = has_served_sm [OF x(1)]
  have a: "ma_operation ?a = RegRead" "ma_address ?a = fixed_address (mc_station_address c) (mb_receive_address cfg)"
    "ma_read_len ?a = mb_receive_capacity cfg" "ma_write_len ?a = 0"
    using ph(1) k by (auto simp: issued_def phase_action_def Let_def)
  have en: "sm_enabled x 1" using has_served_enabled [OF x(1)] s by (simp add: sim_ready_def)
  have "esc_execute x ?a = (?x, take (sm_len x 1) (es_receive x), 1)" "ma_datagram_len ?a = sm_len x 1"
    using execute_poll [OF a(1,2) _ a(4) _ en _ x(2)] a(3) s sm by simp_all
  moreover have "length (take (sm_len x 1) (es_receive x)) = sm_len x 1"
  proof -
    have "length (es_receive x) = SIM_MAILBOX"
      using x s sim_ready_len [of e] publish_receive [of r e2] by (simp add: has_served_def length_mailbox_header_bytes)
    then show ?thesis using sm sim_ready_len [of e] s by simp
  qed
  ultimately have ex: "esc_execute x ?a = (?x, take (sm_len e 1) (es_receive x), 1)"
    "length (take (sm_len e 1) (es_receive x)) = ma_datagram_len ?a" using sm by simp_all
  have pa: "phase_action c \<noteq> None" using ph(1) by (auto simp: phase_action_def Let_def)
  obtain h where h: "accept_message False (issuing c now) (take (sm_len e 1) (es_receive x)) 1 t =
    ((issuing c now)\<lparr>mc_last_delivered_counter := Some (mh_counter h), mc_response := copy_at (mc_response (issuing c now)) 0 r,
       mc_response_len := length r, mc_response_header := Some h, mc_phase := MpComplete, mc_pending := None\<rparr>, None, Ok MgComplete)"
    using accept_answer [OF su x(1,2), of "issuing c now" t] k by auto
  let ?c = "(issuing c now)\<lparr>mc_last_delivered_counter := Some (mh_counter h), mc_response := copy_at (mc_response (issuing c now)) 0 r,
       mc_response_len := length r, mc_response_header := Some h, mc_phase := MpComplete, mc_pending := None\<rparr>"
  have acc: "mailbox_accept (issuing c now) ?a (ma_generation ?a) (take (sm_len e 1) (es_receive x)) 1 t = (?c, Ok MgComplete)"
    unfolding accept_arrived [OF t(1,2) pa ex(2)] using ph(1) h by auto
  have lr: "length r \<le> MAX_MAILBOX_BYTES" using s sim_ready_len [of e] by (simp add: mailbox_lengths sim_sizes)
  have "transaction_ctl e cfg counter p deadline ?c" using k lr by (simp add: transaction_ctl_def)
  moreover have "phase_holds e e2 r ?c (tick_mailbox ?x)"
    using has_served_read [OF x(1)] has_served_idle [OF has_served_read [OF x(1)]] lr k
    by (simp add: phase_holds_def mailbox_response_def copy_at_def)
  moreover have "phase_holds e e2 r c2 (tick_mailbox ?x)" if "mc_phase c2 = MpReadingRepeatActivation" for c2
    using that has_served_read [OF x(1)] has_served_idle [OF has_served_read [OF x(1)]] x(3)
    by (simp add: phase_holds_def repeat_acked_def)
  moreover have "mc_poll_due_ns ?c \<le> t" using t(3) by (simp add: issuing_def)
  ultimately show ?thesis
    unfolding action_works_def using ex(1) acc ph(1)
    by (intro exI [of _ ?x] exI [of _ "take (sm_len e 1) (es_receive x)"] exI [of _ ?c]) auto
qed

lemma works_read_activation:
  assumes su: "transaction_setup e cfg counter p e2 r" and ctl: "transaction_ctl e cfg counter p deadline c"
    and ph: "mc_phase c = MpReadingRepeatActivation" "phase_holds e e2 r c x"
    and t: "ma_deadline_ns (issued c now) = now + w" "t \<le> now + w" "mc_poll_due_ns c \<le> t"
  shows "action_works e cfg counter p e2 r deadline c x now t"
proof -
  note s = su [unfolded transaction_setup_def] and k = ctl [unfolded transaction_ctl_def]
  let ?a = "issued c now" and ?v = "es_sm x ! 1 ! 6"
  have x: "has_served e e2 r x" "repeat_acked x" using ph by (simp_all add: phase_holds_def)
  have a: "ma_operation ?a = RegRead" "ma_address ?a = fixed_address (mc_station_address c) 0x80E" "ma_read_len ?a = 1" "ma_write_len ?a = 0"
    using ph(1) k s receive_registers(1) [of c] by (simp_all add: issued_def phase_action_def Let_def)
  have "0x1000 \<le> sm_start x 1" using s has_served_sm(3) [OF x(1)] by simp
  then have "esc_execute x ?a = (x, [sm_register x 0x80E], 1)" "ma_datagram_len ?a = 1"
    using execute_register_read [OF a] by simp_all
  moreover have "sm_register x 0x80E = ?v" using x by (simp add: register_values has_served_def)
  ultimately have ex: "esc_execute x ?a = (x, [?v], 1)" "length [?v] = ma_datagram_len ?a" by simp_all
  have pa: "phase_action c \<noteq> None" using ph(1) by (simp add: phase_action_def Let_def)
  let ?c = "(mailbox_advance (issuing c now) MpWritingRepeatRequest t)\<lparr>mc_repeat_activation := ?v XOR 2\<rparr>"
  have acc: "mailbox_accept (issuing c now) ?a (ma_generation ?a) [?v] 1 t = (?c, Ok MgAdvanced)"
    unfolding accept_arrived [OF t(1,2) pa ex(2)] by (simp add: ph(1))
  have xor: "(?v XOR 2) AND 1 = ?v AND 1" "(?v XOR 2) AND 2 = (?v AND 2) XOR 2"
    by (simp_all add: bit.conj_xor_distrib2)
  have "?v AND 2 \<noteq> (?v AND 2) XOR 2"
  proof
    assume "?v AND 2 = (?v AND 2) XOR 2"
    then have "(?v AND 2) XOR ((?v AND 2) XOR 2) = 0" by (metis bit.xor_self)
    then show False by (simp add: xor.assoc [symmetric])
  qed
  then have "phase_holds e e2 r ?c x"
    using x xor by (simp add: phase_holds_def has_served_def repeat_acked_def)
  moreover have "transaction_ctl e cfg counter p deadline ?c"
    using transaction_ctl_advance [OF ctl, of now MpWritingRepeatRequest t] by (simp add: transaction_ctl_def)
  moreover have "phase_holds e e2 r c2 x" if "mc_phase c2 = MpReadingRepeatActivation" for c2
    using that x by (simp add: phase_holds_def)
  ultimately show ?thesis
    unfolding action_works_def using ex(1) acc ph(1) has_served_idle [OF x(1)]
    by (intro exI [of _ x] exI [of _ "[?v]"] exI [of _ ?c]) simp
qed

lemma no_payload_Cons: "no_payload = 0 # replicate 127 0"
proof -
  have "replicate (Suc 127) 0 = 0 # replicate 127 (0 :: u8)" by (rule replicate_Suc)
  then show ?thesis by (simp add: no_payload_def mailbox_lengths)
qed

lemma works_repeat_write:
  assumes su: "transaction_setup e cfg counter p e2 r" and ctl: "transaction_ctl e cfg counter p deadline c"
    and ph: "mc_phase c = MpWritingRepeatRequest" "phase_holds e e2 r c x"
    and t: "ma_deadline_ns (issued c now) = now + w" "t \<le> now + w" "mc_poll_due_ns c \<le> t"
  shows "action_works e cfg counter p e2 r deadline c x now t"
proof -
  note s = su [unfolded transaction_setup_def] and k = ctl [unfolded transaction_ctl_def]
  let ?a = "issued c now" and ?v = "mc_repeat_activation c"
  have x: "has_served e e2 r x" "?v AND 1 \<noteq> 0" "es_sm x ! 1 ! 7 AND 2 \<noteq> ?v AND 2 \<or> es_receive_full x"
    using ph by (simp_all add: phase_holds_def)
  have a: "ma_operation ?a = RegWrite" "ma_address ?a = fixed_address (mc_station_address c) 0x80E" "ma_payload ?a = [?v]"
    "ma_datagram_len ?a = 1"
    using ph(1) k s receive_registers(1) [of c]
    by (simp_all add: issued_def phase_action_def Let_def ma_payload_def ma_datagram_len_def no_payload_Cons)
  have "0x1000 \<le> sm_start e 0" using s by simp
  from execute_repeat_write [OF x(1) this x(2,3) a] obtain x'
    where x': "esc_execute x ?a = (x', [?v], 1)" "has_served e e2 r x'" "es_receive_full x'" "repeat_acked x'"
      "es_sm x' ! 1 ! 7 AND 2 = ?v AND 2" by blast
  have len: "length [?v] = ma_datagram_len ?a" using a(4) by simp
  have pa: "phase_action c \<noteq> None" using ph(1) by (simp add: phase_action_def Let_def)
  have acc: "mailbox_accept (issuing c now) ?a (ma_generation ?a) [?v] 1 t = (mailbox_advance (issuing c now) MpWaitingRepeatAck t, Ok MgAdvanced)"
    unfolding accept_arrived [OF t(1,2) pa len] by (simp add: ph(1))
  show ?thesis
    unfolding action_works_def using x' acc ph(1) x(2) has_served_idle [OF x'(2)] transaction_ctl_advance [OF ctl]
    by (intro exI [of _ x'] exI [of _ "[?v]"] exI [of _ "mailbox_advance (issuing c now) MpWaitingRepeatAck t"])
      (simp add: phase_holds_def)
qed

lemma works_repeat_ack:
  assumes su: "transaction_setup e cfg counter p e2 r" and ctl: "transaction_ctl e cfg counter p deadline c"
    and ph: "mc_phase c = MpWaitingRepeatAck" "phase_holds e e2 r c x"
    and t: "ma_deadline_ns (issued c now) = now + w" "t \<le> now + w" "mc_poll_due_ns c \<le> t"
  shows "action_works e cfg counter p e2 r deadline c x now t"
proof -
  note s = su [unfolded transaction_setup_def] and k = ctl [unfolded transaction_ctl_def]
  let ?a = "issued c now" and ?v = "es_sm x ! 1 ! 7"
  have x: "has_served e e2 r x" "es_receive_full x" "repeat_acked x" "?v AND 2 = mc_repeat_activation c AND 2"
    using ph by (simp_all add: phase_holds_def)
  have a: "ma_operation ?a = RegRead" "ma_address ?a = fixed_address (mc_station_address c) 0x80F" "ma_read_len ?a = 1" "ma_write_len ?a = 0"
    using ph(1) k s receive_registers(2) [of c] by (simp_all add: issued_def phase_action_def Let_def)
  have "0x1000 \<le> sm_start x 1" using s has_served_sm(3) [OF x(1)] by simp
  then have "esc_execute x ?a = (x, [sm_register x 0x80F], 1)" "ma_datagram_len ?a = 1"
    using execute_register_read [OF a] by simp_all
  moreover have "sm_register x 0x80F = ?v" using x by (simp add: register_values has_served_def)
  ultimately have ex: "esc_execute x ?a = (x, [?v], 1)" "length [?v] = ma_datagram_len ?a" by simp_all
  have pa: "phase_action c \<noteq> None" using ph(1) by (simp add: phase_action_def Let_def)
  have acc: "mailbox_accept (issuing c now) ?a (ma_generation ?a) [?v] 1 t = (mailbox_advance (issuing c now) MpPollingRepeat t, Ok MgAdvanced)"
    unfolding accept_arrived [OF t(1,2) pa ex(2)] using x(4) by (simp add: ph(1))
  show ?thesis
    unfolding action_works_def using x acc ex(1) ph(1) has_served_idle [OF x(1)] transaction_ctl_advance [OF ctl]
    by (intro exI [of _ x] exI [of _ "[?v]"] exI [of _ "mailbox_advance (issuing c now) MpPollingRepeat t"])
      (simp add: phase_holds_def)
qed

lemma action_always_works:
  assumes "transaction_setup e cfg counter p e2 r" "transaction_ctl e cfg counter p deadline c"
    and "phase_holds e e2 r c x" "mc_phase c \<noteq> MpComplete"
    and "ma_deadline_ns (issued c now) = now + w" "t \<le> now + w" "mc_poll_due_ns c \<le> t"
  shows "action_works e cfg counter p e2 r deadline c x now t"
proof (cases "mc_phase c")
  case MpCheckingSendStatus then show ?thesis by (rule works_check_send [OF assms(1,2) _ assms(3,5-7)])
next
  case MpSending then show ?thesis by (rule works_send [OF assms(1,2) _ assms(3,5-7)])
next
  case MpCheckingStatus then show ?thesis by (rule works_check_status [OF assms(1,2) _ assms(3,5-7)])
next
  case MpReadingRepeatActivation then show ?thesis by (rule works_read_activation [OF assms(1,2) _ assms(3,5-7)])
next
  case MpWritingRepeatRequest then show ?thesis by (rule works_repeat_write [OF assms(1,2) _ assms(3,5-7)])
next
  case MpWaitingRepeatAck then show ?thesis by (rule works_repeat_ack [OF assms(1,2) _ assms(3,5-7)])
next
  case MpPolling then show ?thesis using works_poll [OF assms(1,2) _ assms(3,5-7)] by simp
next
  case MpPollingRepeat then show ?thesis using works_poll [OF assms(1,2) _ assms(3,5-7)] by simp
qed (use assms(3,4) in \<open>simp_all add: phase_holds_def\<close>)

section \<open>Runs\<close>

definition losses :: "link_outcome list \<Rightarrow> nat" where
  "losses os = length (filter (\<lambda>o1. \<not> arrives o1) os)"

text \<open>The rounds that write the request are those after the first arrival, up to the second. An answer
  lost there makes the controller write the request again; the others may lose anything.\<close>

definition before_arrival :: "link_outcome list \<Rightarrow> link_outcome list" where
  "before_arrival os = takeWhile (\<lambda>o1. \<not> arrives o1) os"

definition request_rounds :: "link_outcome list \<Rightarrow> link_outcome list" where
  "request_rounds os = before_arrival (tl (dropWhile (\<lambda>o1. \<not> arrives o1) os))"

definition worst_round :: "mailbox_config \<Rightarrow> nat" where
  "worst_round cfg = unat (mb_request_timeout_ns cfg) + unat (my_retry_delay_ns (mb_retry_policy cfg))"

lemma unat_plus_within: "unat (a :: u64) + unat b \<le> unat (m :: u64) \<Longrightarrow> unat (a + b) = unat a + unat b"
  using unat_less [of m] by (simp add: unat_word_ariths)

lemma unat_max_word: "unat (max a b :: 'a::len word) = max (unat a) (unat b)"
  by (simp add: max_def word_le_nat_alt)

lemma phase_active:
  assumes "phase_holds e e2 r c x" "mc_phase c \<noteq> MpComplete"
  shows "\<not> mc_inactive c" "rounds_left (phase_after (mc_phase c)) + 1 = rounds_left (mc_phase c)"
    "rounds_left (phase_lost (mc_phase c)) \<le> rounds_left (mc_phase c) + 3" "0 < rounds_left (mc_phase c)"
  using assms by (cases "mc_phase c"; simp add: phase_holds_def mc_inactive_def)+

lemma timeout_retries:
  assumes "mc_retry_count c < my_max_retries (mb_retry_policy (mc_config c))" "ma_deadline_ns (issued c due) < mc_configuration_deadline_ns c"
  shows "fst (mailbox_timeout (issuing c due) (issued c due) (ma_deadline_ns (issued c due))) =
    (issuing c due)\<lparr>mc_retry_count := sat_add (mc_retry_count c) 1, mc_last_retry_error := Some MeTimeout, mc_pending := None,
       mc_poll_due_ns := sat_add (ma_deadline_ns (issued c due)) (my_retry_delay_ns (mb_retry_policy (mc_config c))),
       mc_discarded_frames := sat_add (mc_discarded_frames (issuing c due)) 1, mc_phase := phase_lost (mc_phase c)\<rparr>"
  using assms by (cases "mc_phase c") (simp_all add: mailbox_timeout_def retry_or_fail_def)

lemma round_step:
  assumes su: "transaction_setup e cfg counter p e2 r" and ctl: "transaction_ctl e cfg counter p deadline c"
    and x: "phase_holds e e2 r c x" "mc_phase c \<noteq> MpComplete"
    and time: "unat (max now (mc_poll_due_ns c)) + worst_round cfg < unat deadline"
    and arr: "\<And>d. out = Arrives d \<Longrightarrow> d \<le> mb_request_timeout_ns cfg"
    and lost: "\<not> arrives out \<Longrightarrow> mc_retry_count c < my_max_retries (mb_retry_policy cfg)"
    and send: "mc_phase c = MpSending \<Longrightarrow> out \<noteq> AnswerLost"
  obtains now' c' x' where "drive_round (now, c, x) out = (now', c', x')"
    "transaction_ctl e cfg counter p deadline c'" "phase_holds e e2 r c' x'"
    "mc_phase c' = (if arrives out then phase_after else phase_lost) (mc_phase c)"
    "unat (mc_retry_count c') = unat (mc_retry_count c) + (if arrives out then 0 else 1)"
    "unat (max now' (mc_poll_due_ns c')) \<le> unat (max now (mc_poll_due_ns c)) + worst_round cfg"
proof -
  note k = ctl [unfolded transaction_ctl_def]
  let ?req = "mb_request_timeout_ns cfg" and ?delay = "my_retry_delay_ns (mb_retry_policy cfg)"
  define due where "due = max now (mc_poll_due_ns c)"
  have le: "mc_poll_due_ns c \<le> due" by (simp add: due_def)
  have time': "unat due + unat ?req < unat deadline" using time by (simp add: due_def worst_round_def)
  then have lt: "due < mc_configuration_deadline_ns c" using k by (simp add: word_less_nat_alt)
  note act = phase_active [OF x]
  have pa: "phase_action c \<noteq> None" by (rule transaction_phase_action [OF ctl act(1)])
  have nxt: "mailbox_next_action c due = (issuing c due, Ok (Some (issued c due)))"
    by (rule next_action_issues [OF act(1) _ lt le pa]) (use k in simp)
  have dl: "ma_deadline_ns (issued c due) = due + ?req" "unat (ma_deadline_ns (issued c due)) = unat due + unat ?req"
    using action_deadline [of due c] time' k pa by simp_all
  have w: "action_works e cfg counter p e2 r deadline c x due t" if "t \<le> due + ?req" "due \<le> t" for t
    by (rule action_always_works [OF su ctl x dl(1) that(1)]) (use le that(2) in simp)
  show thesis
  proof (cases "\<exists>d. out = Arrives d")
    case True
    then obtain d where d: "out = Arrives d" "unat d \<le> unat ?req" using arr by (auto simp: word_le_nat_alt)
    have u: "unat (due + d) = unat due + unat d" using unat_plus_within [of due d deadline] d(2) time' by simp
    have t: "due + d \<le> due + ?req" "due \<le> due + d"
      using u d(2) dl unfolding word_le_nat_alt by simp_all
    obtain x1 data c' where r1: "esc_execute x (issued c due) = (x1, data, 1)"
        "fst (mailbox_accept (issuing c due) (issued c due) (ma_generation (issued c due)) data 1 (due + d)) = c'"
        "transaction_ctl e cfg counter p deadline c'" "phase_holds e e2 r c' (tick_mailbox x1)"
        "mc_phase c' = phase_after (mc_phase c)" "mc_retry_count c' = mc_retry_count c" "mc_poll_due_ns c' \<le> due + d"
      using w [OF t] unfolding action_works_def by blast
    have "drive_round (now, c, x) out = (due + d, c', tick_mailbox x1)"
      using nxt r1 by (simp add: drive_round_def due_def [symmetric] Let_def d(1))
    moreover have "unat (max (due + d) (mc_poll_due_ns c')) \<le> unat due + worst_round cfg"
      using r1(7) u d(2) by (simp add: max_absorb1 worst_round_def)
    ultimately show thesis using that r1(3-6) d(1) by (simp add: due_def)
  next
    case False
    then have na: "\<not> arrives out" "out = RequestLost \<or> out = AnswerLost" by (cases out; auto)+
    have rc: "mc_retry_count c < my_max_retries (mb_retry_policy (mc_config c))" using lost [OF na(1)] k by simp
    define c' where "c' = fst (mailbox_timeout (issuing c due) (issued c due) (ma_deadline_ns (issued c due)))"
    have "ma_deadline_ns (issued c due) < mc_configuration_deadline_ns c"
      using dl(2) time' k by (simp add: word_less_nat_alt)
    note c' = timeout_retries [OF rc this, folded c'_def]
    have inc: "unat (sat_add (mc_retry_count c) 1) = unat (mc_retry_count c) + 1"
    proof -
      have "unat (mc_retry_count c) < unat (my_max_retries (mb_retry_policy (mc_config c)))" using rc by (simp add: word_less_nat_alt)
      then show ?thesis using unat_less [of "my_max_retries (mb_retry_policy (mc_config c))"] by (simp add: unat_sat_add)
    qed
    have f: "mc_phase c' = phase_lost (mc_phase c)" "mc_repeat_activation c' = mc_repeat_activation c"
      "unat (mc_retry_count c') = unat (mc_retry_count c) + 1" "transaction_ctl e cfg counter p deadline c'"
      using inc k unfolding c' by (simp_all add: transaction_ctl_def)
    have "unat (mc_poll_due_ns c') \<le> unat due + worst_round cfg"
      using dl(2) k unfolding c' by (simp add: unat_sat_add worst_round_def)
    then have bound: "unat (max (ma_deadline_ns (issued c due)) (mc_poll_due_ns c')) \<le> unat due + worst_round cfg"
      using dl(2) by (simp add: unat_max_word worst_round_def)
    have tt: "due + ?req \<le> due + ?req" "due \<le> due + ?req" using dl by (simp_all add: word_le_nat_alt)
    obtain x1 data where r1: "esc_execute x (issued c due) = (x1, data, 1)"
        "mc_phase c \<noteq> MpSending \<Longrightarrow> phase_holds e e2 r c' (tick_mailbox x1)"
      using w [OF tt] f(1,2) unfolding action_works_def by blast
    show thesis
    proof (cases "out = RequestLost")
      case True
      have "phase_holds e e2 r c' (tick_mailbox x)"
      proof -
        have idle: "tick_mailbox x = x"
          using x su by (cases "mc_phase c") (auto simp: phase_holds_def has_served_def tick_idle transaction_setup_def sim_ready_def)
        show ?thesis unfolding idle using x f(1,2) by (cases "mc_phase c") (simp_all add: phase_holds_def)
      qed
      moreover have "drive_round (now, c, x) out = (ma_deadline_ns (issued c due), c', tick_mailbox x)"
        using nxt r1(1) True by (simp add: drive_round_def due_def [symmetric] Let_def c'_def)
      ultimately show thesis using that f bound na(1) by (simp add: due_def)
    next
      case False
      with na have al: "out = AnswerLost" by simp
      have "drive_round (now, c, x) out = (ma_deadline_ns (issued c due), c', tick_mailbox x1)"
        using nxt r1(1) al by (simp add: drive_round_def due_def [symmetric] Let_def c'_def)
      moreover have "mc_phase c \<noteq> MpSending" using send al by blast
      ultimately show thesis using that f bound na(1) r1(2) al by (simp add: due_def)
    qed
  qed
qed

text \<open>A completed transaction stays as it is.\<close>

lemma drive_complete:
  assumes "mc_phase c = MpComplete" "\<not> es_send_full x"
  shows "\<exists>now'. drive (now, c, x) os = (now', c, x)"
proof (induction os arbitrary: now)
  case Nil
  then show ?case by (simp add: drive_def)
next
  case (Cons o1 os)
  have "drive_round (now, c, x) o1 = (max now (mc_poll_due_ns c), c, x)"
    using assms by (simp add: drive_round_def Let_def mailbox_next_action_def mc_ended_def tick_idle)
  then show ?case using Cons.IH by (simp add: drive_def)
qed

lemma losses_Cons: "losses (o1 # os) = (if arrives o1 then losses os else Suc (losses os))"
  by (simp add: losses_def)

lemma drive_finishes:
  assumes su: "transaction_setup e cfg counter p e2 r"
  shows "transaction_ctl e cfg counter p deadline c \<Longrightarrow> phase_holds e e2 r c x \<Longrightarrow>
    unat (max now (mc_poll_due_ns c)) + length os * worst_round cfg < unat deadline \<Longrightarrow>
    \<forall>d. Arrives d \<in> set os \<longrightarrow> d \<le> mb_request_timeout_ns cfg \<Longrightarrow>
    unat (mc_retry_count c) + losses os \<le> unat (my_max_retries (mb_retry_policy cfg)) \<Longrightarrow>
    rounds_left (mc_phase c) + 4 * losses os \<le> length os \<Longrightarrow>
    (mc_phase c = MpCheckingSendStatus \<Longrightarrow> AnswerLost \<notin> set (request_rounds os)) \<Longrightarrow>
    (mc_phase c = MpSending \<Longrightarrow> AnswerLost \<notin> set (before_arrival os)) \<Longrightarrow>
    \<exists>now' c' x'. drive (now, c, x) os = (now', c', x') \<and> phase_holds e e2 r c' x' \<and> mc_phase c' = MpComplete"
proof (induction os arbitrary: now c x)
  case Nil
  have "mc_phase c = MpComplete"
    using phase_active(4) [OF Nil.prems(2)] Nil.prems(6) by auto
  then show ?case using Nil.prems(2) by (simp add: drive_def)
next
  case (Cons o1 os)
  show ?case
  proof (cases "mc_phase c = MpComplete")
    case True
    then have "\<not> es_send_full x" using Cons.prems(2) by (simp add: phase_holds_def has_served_def)
    then show ?thesis using drive_complete [OF True, of x now "o1 # os"] Cons.prems(2) True by auto
  next
    case False
    note act = phase_active [OF Cons.prems(2) False]
    have time: "unat (max now (mc_poll_due_ns c)) + worst_round cfg < unat deadline" using Cons.prems(3) by simp
    have lost: "mc_retry_count c < my_max_retries (mb_retry_policy cfg)" if "\<not> arrives o1"
      using Cons.prems(5) that by (simp add: losses_Cons word_less_nat_alt)
    have send: "o1 \<noteq> AnswerLost" if "mc_phase c = MpSending"
      using Cons.prems(8) [OF that] by (auto simp: before_arrival_def)
    obtain now' c' x' where st: "drive_round (now, c, x) o1 = (now', c', x')"
      "transaction_ctl e cfg counter p deadline c'" "phase_holds e e2 r c' x'"
      "mc_phase c' = (if arrives o1 then phase_after else phase_lost) (mc_phase c)"
      "unat (mc_retry_count c') = unat (mc_retry_count c) + (if arrives o1 then 0 else 1)"
      "unat (max now' (mc_poll_due_ns c')) \<le> unat (max now (mc_poll_due_ns c)) + worst_round cfg"
      using round_step [OF su Cons.prems(1,2) False time _ lost send] Cons.prems(4) by auto
    have t: "unat (max now' (mc_poll_due_ns c')) + length os * worst_round cfg < unat deadline"
      using st(6) Cons.prems(3) by simp
    have ret: "unat (mc_retry_count c') + losses os \<le> unat (my_max_retries (mb_retry_policy cfg))"
      using st(5) Cons.prems(5) by (simp add: losses_Cons split: if_splits)
    have left: "rounds_left (mc_phase c') + 4 * losses os \<le> length os"
      using st(4) act(2,3) Cons.prems(6) by (simp add: losses_Cons split: if_splits)
    have s1: "AnswerLost \<notin> set (request_rounds os)" if "mc_phase c' = MpCheckingSendStatus"
    proof -
      have "\<not> arrives o1 \<and> mc_phase c = MpCheckingSendStatus"
        using that st(4) Cons.prems(2) by (cases "mc_phase c"; auto simp: phase_holds_def split: if_splits)
      then show ?thesis using Cons.prems(7) by (simp add: request_rounds_def)
    qed
    have s2: "AnswerLost \<notin> set (before_arrival os)" if "mc_phase c' = MpSending"
    proof (cases "arrives o1")
      case True
      then have "mc_phase c = MpCheckingSendStatus"
        using that st(4) Cons.prems(2) by (cases "mc_phase c"; auto simp: phase_holds_def)
      then show ?thesis using Cons.prems(7) True by (simp add: request_rounds_def)
    next
      case False
      then have "mc_phase c = MpSending"
        using that st(4) Cons.prems(2) by (cases "mc_phase c"; auto simp: phase_holds_def)
      then show ?thesis using Cons.prems(8) False by (simp add: before_arrival_def)
    qed
    have "\<forall>d. Arrives d \<in> set os \<longrightarrow> d \<le> mb_request_timeout_ns cfg" using Cons.prems(4) by simp
    from Cons.IH [OF st(2,3) t this ret left s1 s2] show ?thesis using st(1) by (simp add: drive_def)
  qed
qed

section \<open>The theorem\<close>

lemma started_transaction:
  assumes "mailbox_start c0 cfg station generation now CoE p = (c, Ok ())" "transaction_setup e cfg (mc_next_counter c0) p e2 r"
  shows "transaction_ctl e cfg (mc_next_counter c0) p (sat_add now (mb_timeout_ns cfg)) c" "phase_holds e e2 r c e"
    "mc_phase c = MpCheckingSendStatus" "mc_poll_due_ns c = now" "mc_retry_count c = 0"
  using assms
  by (auto simp: mailbox_start_def mailbox_start_impl_def Let_def transaction_ctl_def phase_holds_def transaction_setup_def
      split: if_splits prod.splits sum.splits)

text \<open>A slave at rest and the configuration of its mailbox in the controller, with the default sync managers.\<close>

definition mailbox_link :: "esc \<Rightarrow> mailbox_config \<Rightarrow> bool" where
  "mailbox_link e cfg \<longleftrightarrow>
     sim_ready e \<and> es_repeat_ack e \<and> 2 \<le> length (es_sm e) \<and> length (es_sm e ! 1) = 8 \<and>
     es_sm e ! 1 ! 6 AND 2 = es_sm e ! 1 ! 7 AND 2 \<and>
     0x1000 \<le> sm_start e 0 \<and> sm_start e 0 + sm_len e 0 \<le> 65536 \<and> 0x1000 \<le> sm_start e 1 \<and> sm_start e 1 + sm_len e 1 \<le> 65536 \<and>
     unat (mb_send_address cfg) = sm_start e 0 \<and> unat (mb_send_capacity cfg) = sm_len e 0 \<and>
     unat (mb_receive_address cfg) = sm_start e 1 \<and> unat (mb_receive_capacity cfg) = sm_len e 1 \<and>
     mb_status_bit cfg = None \<and> mb_send_sync_manager cfg = 0 \<and> mb_receive_sync_manager cfg = 1"

lemma start_fits:
  "mailbox_start c0 cfg station generation now protocol p = (c, Ok ()) \<Longrightarrow> length p + MAILBOX_HEADER_LEN \<le> unat (mb_send_capacity cfg)"
  by (auto simp: mailbox_start_def mailbox_start_impl_def Let_def split: if_splits prod.splits sum.splits)

definition sample_mailbox_config :: mailbox_config where
  "sample_mailbox_config = (mailbox_config_new 0x1000 20 0x1100 24)
     \<lparr>mb_retry_policy := \<lparr>my_max_retries = 3, my_retry_delay_ns = 1000\<rparr>\<rparr>"

definition sample_upload_request :: bytes where
  "sample_upload_request = request_prefix 0x40 0x2000 0 @ [0, 0, 0, 0]"

definition sample_upload_answer :: bytes where
  "sample_upload_answer = response_prefix 0x4B 0x2000 0 @ [7, 9] @ [0, 0]"

definition sample_object_esc :: esc where
  "sample_object_esc = \<lparr>es_sm = [[0, 0x10, 20, 0, 0x26, 0, 1, 0], [0, 0x11, 24, 0, 0x22, 0, 1, 0]],
     es_send = replicate SIM_MAILBOX 0, es_receive = replicate SIM_MAILBOX 0, es_previous = replicate SIM_MAILBOX 0,
     es_send_full = False, es_receive_full = False, es_previous_valid = False,
     es_objects = [\<lparr>so_index = 0x2000, so_sub = 0, so_len = 2, so_data = [7, 9, 0, 0, 0, 0, 0, 0]\<rparr>],
     es_large = [], es_transfer = transfer_empty, es_online = True, es_repeat_ack = True, es_counter = 1, es_repeats = 0\<rparr>"

text \<open>The poll is lost on its way back, and so is the first write of the repeat request.\<close>

definition sample_outcomes :: "link_outcome list" where
  "sample_outcomes = [Arrives 10, Arrives 10, Arrives 10, AnswerLost, Arrives 10, AnswerLost, Arrives 10, Arrives 10,
     Arrives 10, Arrives 10, Arrives 10, Arrives 10]"

text \<open>C40: A mailbox transaction survives the losses of the link. The controller drives a slave whose frames may be
  lost in either direction, in any phase, but not the acknowledgement of the request's own write. If the losses are
  within the retry policy, the rounds are enough for the retries (four, and four more per loss) and fit into the
  timeout of the transaction, then the transaction completes with exactly the payload the slave answered, and the slave
  has served the request once: its transfer and its dictionary are those after a single service, and both
  mailboxes are empty. An answer that was read and lost is recovered by the repeat procedure.\<close>

theorem mailbox_recovers_lost_frames:
  assumes "mailbox_link e cfg" "mc_next_counter c0 \<le> MAILBOX_COUNTER_MASK"
    "mailbox_start c0 cfg station generation now CoE p = (c, Ok ())"
    "process_mailbox (sent e (mc_next_counter c0) p) = publish_mailbox e2 r 3"
    "r \<noteq> []" "length r + 6 \<le> sm_len e 1" "\<not> is_ok (coe_emergency_parse r)"
    "AnswerLost \<notin> set (request_rounds os)"
    "losses os \<le> unat (my_max_retries (mb_retry_policy cfg))" "4 + 4 * losses os \<le> length os"
    "\<forall>d. Arrives d \<in> set os \<longrightarrow> d \<le> mb_request_timeout_ns cfg"
    "unat now + unat (mb_timeout_ns cfg) < 2 ^ 64" "length os * worst_round cfg < unat (mb_timeout_ns cfg)"
  shows "\<exists>now' c' x h. drive (now, c, e) os = (now', c', x) \<and> mailbox_response c' = Some (h, r) \<and>
    es_transfer x = es_transfer e2 \<and> object x = object e2 \<and> \<not> es_send_full x \<and> \<not> es_receive_full x"
proof -
  have su: "transaction_setup e cfg (mc_next_counter c0) p e2 r"
    using assms(1,2,4-7) start_fits [OF assms(3)]
    unfolding transaction_setup_def mailbox_link_def MAILBOX_HEADER_LEN_def by simp
  note st = started_transaction [OF assms(3) su]
  have "unat (sat_add now (mb_timeout_ns cfg)) = unat now + unat (mb_timeout_ns cfg)"
    using assms(12) by (simp add: unat_sat_add)
  then have time: "unat (max now (mc_poll_due_ns c)) + length os * worst_round cfg < unat (sat_add now (mb_timeout_ns cfg))"
    using assms(13) st(4) by simp
  obtain now' c' x where "drive (now, c, e) os = (now', c', x)" "phase_holds e e2 r c' x" "mc_phase c' = MpComplete"
    using drive_finishes [OF su st(1,2) time assms(11)] assms(8-10) st(3,5) by auto
  then show ?thesis
    using object_cong [of x e2] by (auto simp: phase_holds_def has_served_def)
qed

lemma mailbox_recovers_lost_frames_witness:
  "\<exists>c0 c now' c' x h. mailbox_controller_new = Some c0 \<and>
    mailbox_start c0 sample_mailbox_config 1 1 0 CoE sample_upload_request = (c, Ok ()) \<and>
    drive (0, c, sample_object_esc) sample_outcomes = (now', c', x) \<and> mailbox_response c' = Some (h, sample_upload_answer)"
proof -
  let ?e = sample_object_esc and ?p = sample_upload_request
  have "coe_emergency_queue_new MAILBOX_EMERGENCIES \<noteq> None"
    by (simp add: coe_emergency_queue_new_def queue_new_def spsc_new_def is_power_of_two.simps MAILBOX_EMERGENCIES_def)
  then obtain q where "mailbox_controller_new = Some (mailbox_controller_with q)"
    by (auto simp: mailbox_controller_new_def)
  then obtain c0 where c0: "mailbox_controller_new = Some c0" "mc_next_counter c0 = 1" "mc_station_address c0 = 0"
      "mc_phase c0 = MpIdle" "mc_transport_owned c0"
    by (simp add: mailbox_controller_with_def)
  have sm0: "sm_len ?e 0 = 20" "sm_len ?e 1 = 24" "sm_start ?e 0 = 0x1000" "sm_start ?e 1 = 0x1100"
    by (simp_all add: sm_len_def sm_start_def sample_object_esc_def u16_from_le_def)
  note sm = sm0 sm0 [unfolded One_nat_def]
  have ready: "sim_ready ?e"
    by (simp add: sim_ready_def sm_enabled_def sm RAM_BYTES_def)
      (simp add: sample_object_esc_def dictionary_ok_def)
  have link: "mailbox_link ?e sample_mailbox_config"
    using ready sm by (simp add: mailbox_link_def sample_mailbox_config_def mailbox_config_new_def)
      (simp add: sample_object_esc_def)
  have lp: "length ?p = 10" by (simp add: sample_upload_request_def)
  have cfg: "mb_send_capacity sample_mailbox_config = 20" "mailbox_config_validate sample_mailbox_config = Ok ()"
    by (simp_all add: sample_mailbox_config_def mailbox_config_new_def mailbox_config_validate_def mailbox_range_def
        mailbox_lengths MAX_ESC_SYNC_MANAGERS_def)
  have one: "mc_next_counter c0 \<le> MAILBOX_COUNTER_MASK" by (simp add: c0(2) MAILBOX_COUNTER_MASK_def)
  obtain frame where "mailbox_send_frame 1 CoE ?p = (frame, Ok ())"
    using mailbox_send_frame_bytes [of ?p 1 CoE] lp by (simp add: mailbox_lengths MAILBOX_COUNTER_MASK_def)
  then obtain c where start: "mailbox_start c0 sample_mailbox_config 1 1 0 CoE ?p = (c, Ok ())"
    using c0 lp cfg
    by (simp add: mailbox_start_def mailbox_start_impl_def mc_inactive_def Let_def mailbox_lengths)
  have parts: "?p = request_prefix 0x40 0x2000 0 @ [0, 0, 0, 0]" by (simp add: sample_upload_request_def)
  have obj: "object (sent ?e 1 ?p) 0x2000 0 = Some [7, 9]"
    by (simp add: object_def sample_object_esc_def object_matches_def object_value_def)
  have one': "1 \<le> MAILBOX_COUNTER_MASK" by (simp add: MAILBOX_COUNTER_MASK_def)
  have "process_mailbox (sent ?e 1 ?p) = serve (sent ?e 1 ?p) ?p"
    using process_mailbox_serve [OF sent_request [OF ready one']] lp sm request_prefix_parts(1) [OF parts] one' by (simp add: sim_sizes)
  also have "\<dots> = serve_upload (sent ?e 1 ?p) ?p"
    using request_prefix_parts(2) [OF parts] lp by (simp add: serve_def Let_def)
  also have "\<dots> = publish_mailbox (sent ?e 1 ?p) sample_upload_answer 3"
    using serve_upload_small [OF parts obj] by (simp add: sample_upload_answer_def numeral_2_eq_2)
  finally have ans: "process_mailbox (sent ?e (mc_next_counter c0) ?p) = publish_mailbox (sent ?e 1 ?p) sample_upload_answer 3"
    by (simp add: c0(2))
  have emerg: "\<not> is_ok (coe_emergency_parse sample_upload_answer)"
    using decode_response(1) [of "0x4B" "0x2000" 0 "[7, 9] @ [0, 0]"]
    by (simp add: coe_emergency_parse_def sample_upload_answer_def)
  have "\<exists>now' c' x h. drive (0, c, ?e) sample_outcomes = (now', c', x) \<and> mailbox_response c' = Some (h, sample_upload_answer) \<and>
    es_transfer x = es_transfer (sent ?e 1 ?p) \<and> object x = object (sent ?e 1 ?p) \<and> \<not> es_send_full x \<and> \<not> es_receive_full x"
    by (rule mailbox_recovers_lost_frames [OF link one start ans _ _ emerg])
      (simp_all add: sm sample_upload_answer_def sample_outcomes_def request_rounds_def before_arrival_def losses_def
        sample_mailbox_config_def mailbox_config_new_def worst_round_def)
  then show ?thesis using c0(1) start by blast
qed

end
