(* ===== verification/Double_Page.thy ===== *)
theory Double_Page
  imports System_Interfaces
begin

text \<open>
  The two-page channel of the process buffer (\<open>DoublePage\<close> in \<open>esop-procbuf/src/lib.rs\<close>). A
  writer and a reader own its two pages in turn through the state of each page; the token
  \<open>published\<close> holds the sequence number of the newest publication in its upper 31 bits and the index of
  its page in bit 0. The operations here are the sequential ones: without overlap the channel is a
  mailbox for the newest value. \<open>Double_Page_Concurrent\<close> takes them apart into their atomic steps.
\<close>

section \<open>State and operations\<close>

datatype page_state = PageFree | PageWriting | PagePublished | PageReading

record 'a double_page =
  dp_pages :: "'a list"
  dp_state :: "page_state list"
  dp_published :: u32

definition double_page_new :: "'a \<Rightarrow> 'a double_page" where
  "double_page_new initial =
     \<lparr>dp_pages = [initial, initial], dp_state = [PageFree, PageFree], dp_published = 0\<rparr>"

text \<open>\<open>compare_exchange\<close> on the state of a page.\<close>

definition page_cas :: "'a double_page \<Rightarrow> nat \<Rightarrow> page_state \<Rightarrow> page_state \<Rightarrow> 'a double_page \<times> bool" where
  "page_cas p i expected new =
     (if dp_state p ! i = expected then (p\<lparr>dp_state := (dp_state p)[i := new]\<rparr>, True) else (p, False))"

definition page_index :: "u32 \<Rightarrow> nat" where
  "page_index token = unat (token AND 1)"

definition candidate_page :: "u32 \<Rightarrow> nat" where
  "candidate_page token = (if token = 0 then 0 else 1 - page_index token)"

definition next_sequence :: "u32 \<Rightarrow> u32" where
  "next_sequence token =
     (let sequence = drop_bit 1 token + 1 in if sequence = 0 then 1 else sequence)"

definition next_token :: "u32 \<Rightarrow> u32" where
  "next_token token = push_bit 1 (next_sequence token) OR of_nat (candidate_page token)"

definition page_publish :: "'a double_page \<Rightarrow> 'a \<Rightarrow> 'a double_page \<times> (unit, u64) result" where
  "page_publish p value =
     (let token = dp_published p; candidate = candidate_page token;
          (p1, taken) = page_cas p candidate PageFree PageWriting;
          (p2, taken) = (if taken then (p1, True) else page_cas p1 candidate PagePublished PageWriting)
      in if \<not> taken then (p2, Err ())
         else (p2\<lparr>dp_pages := (dp_pages p2)[candidate := value],
                  dp_state := (dp_state p2)[candidate := PagePublished],
                  dp_published := next_token token\<rparr>, Ok (ucast (next_sequence token))))"

definition page_read :: "'a double_page \<Rightarrow> 'a double_page \<times> (u64 \<times> 'a) option" where
  "page_read p =
     (let token = dp_published p
      in if token = 0 then (p, None)
         else
           let index = page_index token;
               (p1, _) = page_cas p (1 - index) PagePublished PageFree;
               (p2, taken) = page_cas p1 index PagePublished PageReading
           in if \<not> taken then (p2, None)
              else (p2\<lparr>dp_state := (dp_state p2)[index := PageFree]\<rparr>,
                    Some (ucast (drop_bit 1 token), dp_pages p2 ! index)))"

section \<open>The token\<close>

text \<open>The token after \<open>k\<close> publications. The sequence number wraps to 0 after \<open>2 ^ 31\<close> of them: the
  check for 0 in \<open>publish\<close> comes before the shift and never fires.\<close>

definition token_of :: "nat \<Rightarrow> u32" where
  "token_of k = (if k = 0 then 0 else of_nat (2 * k + (k - 1) mod 2))"

lemma token_of_unat: "0 < k \<Longrightarrow> unat (token_of k) = 2 * (k mod 2 ^ 31) + (k - 1) mod 2"
proof -
  assume k: "0 < k"
  have "2 * (k mod 2 ^ 31) = 2 * k mod 2 ^ 32"
    using mult_mod_right [of 2 k "2 ^ 31"] by simp
  moreover have "(2 * k + (k - 1) mod 2) mod 2 ^ 32 = 2 * k mod 2 ^ 32 + (k - 1) mod 2"
  proof -
    have "even (2 * k mod 2 ^ 32)" by (rule dvd_mod) simp_all
    then have "2 * k mod 2 ^ 32 \<noteq> 2 ^ 32 - 1" by fastforce
    then have "2 * k mod 2 ^ 32 + (k - 1) mod 2 < 2 ^ 32"
      using mod_less_divisor [of "2 ^ 32" "2 * k"] mod_less_divisor [of 2 "k - 1"] by simp
    then show ?thesis by (metis mod_add_left_eq mod_less)
  qed
  ultimately show ?thesis using k
    unfolding token_of_def by (simp add: unat_of_nat del: of_nat_add of_nat_mult)
qed

lemma token_of_nonzero: "0 < k \<Longrightarrow> token_of k \<noteq> 0"
proof
  assume k: "0 < k" and "token_of k = 0"
  then have "2 * (k mod 2 ^ 31) + (k - 1) mod 2 = 0" using token_of_unat [OF k] by simp
  then have "k mod 2 ^ 31 = 0" "(k - 1) mod 2 = 0" by simp_all
  then have "even k" "even (k - 1)"
    by (auto simp: mod_0_imp_dvd intro: dvd_trans [of 2 "2 ^ 31"])
  then show False using k by simp
qed

lemma token_of_index: "0 < k \<Longrightarrow> page_index (token_of k) = (k - 1) mod 2"
proof -
  assume k: "0 < k"
  have "page_index w = unat w mod 2" for w :: u32
    by (simp add: page_index_def and_one_eq unat_mod)
  then show ?thesis by (simp add: token_of_unat [OF k])
qed

lemma token_of_sequence: "0 < k \<Longrightarrow> unat (drop_bit 1 (token_of k)) = k mod 2 ^ 31"
  using unat_drop_bit_eq [of 1 "token_of k"] token_of_unat [of k] by (simp add: drop_bit_Suc)

lemma token_of_candidate: "candidate_page (token_of k) = k mod 2"
proof (cases "k = 0")
  case True
  then show ?thesis by (simp add: token_of_def candidate_page_def)
next
  case False
  then obtain j where "k = Suc j" by (cases k) auto
  then show ?thesis
    using token_of_nonzero [of k] token_of_index [of k]
    by (cases "even j") (simp_all add: candidate_page_def mod_2_eq_odd)
qed

lemma next_sequence_of: "unat (next_sequence (token_of k)) = k mod 2 ^ 31 + 1"
proof -
  define d where "d = drop_bit 1 (token_of k)"
  have seq: "unat d = k mod 2 ^ 31"
    unfolding d_def using token_of_sequence [of k] by (cases "k = 0") (simp_all add: token_of_def)
  moreover have "k mod 2 ^ 31 < 2 ^ 31" by simp
  ultimately have "unat d + unat (1 :: u32) < 2 ^ LENGTH(32)" by simp
  then have u: "unat (d + 1) = k mod 2 ^ 31 + 1"
    by (subst unat_add_lem [THEN iffD1]) (simp_all add: seq)
  then have "d + 1 \<noteq> 0" by (metis Suc_eq_plus1 nat.distinct(1) unat_0)
  with u show ?thesis unfolding next_sequence_def d_def [symmetric] Let_def by simp
qed

lemma next_token_of: "next_token (token_of k) = token_of (Suc k)"
proof -
  have b: "bit (of_nat (k mod 2) :: u32) n \<Longrightarrow> n = 0" for n
    by (cases "even k") (auto simp: bit_simps mod_2_eq_odd)
  have "next_token (token_of k) = push_bit 1 (next_sequence (token_of k)) + of_nat (k mod 2)"
    unfolding next_token_def token_of_candidate
  proof (rule disjunctive_add [symmetric])
    show "\<not> bit (push_bit 1 (next_sequence (token_of k))) n \<or> \<not> bit (of_nat (k mod 2) :: u32) n" for n
      using b [of n] unfolding bit_push_bit_iff by auto
  qed
  also have "\<dots> = of_nat (2 * unat (next_sequence (token_of k)) + k mod 2)"
    by (simp add: push_bit_eq_mult)
  also have "\<dots> = of_nat (2 * (k mod 2 ^ 31 + 1) + k mod 2)"
    by (simp only: next_sequence_of)
  also have "\<dots> = (of_nat (2 * Suc k + k mod 2) :: u32)"
  proof -
    have "2 * (k mod 2 ^ 31) = 2 * k mod (2 ^ 32 :: nat)"
      using mult_mod_right [of 2 k "2 ^ 31"] by simp
    then have "(of_nat (2 * (k mod 2 ^ 31)) :: u32) = of_nat (2 * k)"
      by (simp add: word_of_nat_eq_iff take_bit_eq_mod del: of_nat_mult)
    then show ?thesis by (simp add: distrib_left)
  qed
  finally show ?thesis by (simp add: token_of_def)
qed

lemma ucast_u64: "(ucast (w :: u32) :: u64) = of_nat (unat w)"
  by simp

lemma token_sequence_word: "0 < k \<Longrightarrow> (ucast (drop_bit 1 (token_of k)) :: u64) = of_nat (k mod 2 ^ 31)"
  unfolding ucast_u64 by (simp only: token_of_sequence)

section \<open>Without overlap: a mailbox for the newest value\<close>

text \<open>The specification: the number of publications and the newest value while it is unread.\<close>

datatype 'a page_op = PublishPage 'a | ReadPage

datatype 'a page_event = PagePublication "(unit, u64) result" | PageDelivery "(u64 \<times> 'a) option"

definition page_exec :: "'a double_page \<Rightarrow> 'a page_op \<Rightarrow> 'a double_page \<times> 'a page_event" where
  "page_exec p op =
     (case op of
        PublishPage v \<Rightarrow> (case page_publish p v of (p1, r) \<Rightarrow> (p1, PagePublication r))
      | ReadPage \<Rightarrow> (case page_read p of (p1, r) \<Rightarrow> (p1, PageDelivery r)))"

fun newest_exec :: "nat \<times> 'a option \<Rightarrow> 'a page_op \<Rightarrow> (nat \<times> 'a option) \<times> 'a page_event" where
  "newest_exec (k, unread) (PublishPage v) =
     ((Suc k, Some v), PagePublication (Ok (of_nat (k mod 2 ^ 31 + 1))))"
| "newest_exec (k, unread) ReadPage =
     ((k, None), PageDelivery (map_option (\<lambda>v. (of_nat (k mod 2 ^ 31), v)) unread))"

text \<open>The newest publication is in page \<open>(k - 1) mod 2\<close>.\<close>

definition page_holds :: "'a double_page \<Rightarrow> nat \<Rightarrow> 'a option \<Rightarrow> bool" where
  "page_holds p k unread \<longleftrightarrow>
     length (dp_pages p) = 2 \<and> length (dp_state p) = 2 \<and> dp_published p = token_of k \<and>
     (\<forall>i<2. dp_state p ! i = PageFree \<or> dp_state p ! i = PagePublished) \<and> (k = 0 \<longrightarrow> unread = None) \<and>
     (0 < k \<longrightarrow> (case unread of
        None \<Rightarrow> dp_state p ! ((k - 1) mod 2) = PageFree
      | Some v \<Rightarrow> dp_state p ! ((k - 1) mod 2) = PagePublished \<and> dp_pages p ! ((k - 1) mod 2) = v))"

lemma page_holds_new: "page_holds (double_page_new i) 0 None"
  by (simp add: page_holds_def double_page_new_def token_of_def less_2_cases_iff)

lemma page_publish_newest:
  assumes "page_holds p k u"
  shows "\<exists>p1. page_publish p v = (p1, Ok (of_nat (k mod 2 ^ 31 + 1))) \<and> page_holds p1 (Suc k) (Some v)"
proof -
  let ?c = "k mod 2"
  note h = assms [unfolded page_holds_def]
  let ?p = "p\<lparr>dp_pages := (dp_pages p)[?c := v], dp_state := (dp_state p)[?c := PagePublished],
      dp_published := token_of (Suc k)\<rparr>"
  have seq: "(ucast (next_sequence (token_of k)) :: u64) = of_nat (k mod 2 ^ 31 + 1)"
    unfolding ucast_u64 by (simp only: next_sequence_of)
  have tok: "dp_published p = token_of k" using h by blast
  have "dp_state p ! ?c = PageFree \<or> dp_state p ! ?c = PagePublished" using h by simp
  then have "page_publish p v = (?p, Ok (of_nat (k mod 2 ^ 31 + 1)))"
    unfolding page_publish_def Let_def
    by (elim disjE) (simp_all add: page_cas_def tok token_of_candidate next_token_of seq del: of_nat_add)
  moreover have "page_holds ?p (Suc k) (Some v)"
    using h by (auto simp: page_holds_def nth_list_update)
  ultimately show ?thesis by blast
qed

lemma page_read_newest:
  assumes "page_holds p k u"
  shows "\<exists>p1. page_read p = (p1, map_option (\<lambda>v. (of_nat (k mod 2 ^ 31), v)) u) \<and> page_holds p1 k None"
proof (cases "k = 0")
  case True
  then show ?thesis using assms by (auto simp: page_holds_def page_read_def token_of_def)
next
  case False
  define i where "i = (k - 1) mod 2"
  note h = assms [unfolded page_holds_def, folded i_def]
  have tok: "dp_published p = token_of k" and len: "length (dp_state p) = 2" using h by blast+
  have t: "token_of k \<noteq> 0" "page_index (token_of k) = i"
      "(ucast (drop_bit 1 (token_of k)) :: u64) = of_nat (k mod 2 ^ 31)"
    using False token_of_nonzero token_of_index token_sequence_word unfolding i_def by blast+
  have "i < 2" unfolding i_def by (rule mod_less_divisor) simp
  then have i: "i < 2" "1 - i < 2" "1 - i \<noteq> i" by arith+
  have "dp_state p ! (1 - i) = PageFree \<or> dp_state p ! (1 - i) = PagePublished" using h i(2) by blast
  then have other: "\<exists>q. page_cas p (1 - i) PagePublished PageFree = (p\<lparr>dp_state := (dp_state p)[1 - i := PageFree]\<rparr>, q)"
  proof
    assume free: "dp_state p ! (1 - i) = PageFree"
    then have "(dp_state p)[1 - i := PageFree] = dp_state p" by (metis list_update_id)
    then have "p = p\<lparr>dp_state := (dp_state p)[1 - i := PageFree]\<rparr>" by simp
    with free show ?thesis by (auto simp: page_cas_def)
  next
    assume "dp_state p ! (1 - i) = PagePublished"
    then show ?thesis by (auto simp: page_cas_def)
  qed
  show ?thesis
  proof (cases u)
    case None
    then have "dp_state p ! i = PageFree" using h False by simp
    then have "\<exists>p1. page_read p = (p1, None) \<and> dp_published p1 = dp_published p \<and> dp_pages p1 = dp_pages p \<and>
        dp_state p1 = (dp_state p)[1 - i := PageFree]"
      using other i by (auto simp: page_read_def tok t Let_def) (simp add: page_cas_def tok)
    with \<open>dp_state p ! i = PageFree\<close> None show ?thesis
      using h i by (auto simp: page_holds_def nth_list_update i_def [symmetric, unfolded One_nat_def])
  next
    case (Some v)
    then have st: "dp_state p ! i = PagePublished" "dp_pages p ! i = v" using h False by simp_all
    then have "\<exists>p1. page_read p = (p1, Some (of_nat (k mod 2 ^ 31), v)) \<and> dp_published p1 = dp_published p \<and>
        dp_pages p1 = dp_pages p \<and> dp_state p1 = (dp_state p)[1 - i := PageFree, i := PageFree]"
      using other i len by (auto simp: page_read_def tok t Let_def) (simp add: page_cas_def tok t(3) [unfolded One_nat_def])
    with Some show ?thesis
      using h i by (auto simp: page_holds_def nth_list_update i_def [symmetric, unfolded One_nat_def])
  qed
qed

text \<open>
  C20: When publications and reads do not overlap, the channel behaves as one cell: every publication is
  accepted and replaces what was not read, a read takes the newest value with its sequence number, and nothing is read twice.
\<close>

theorem double_page_newest_value:
  "snd (traced page_exec (double_page_new initial) ops) = snd (traced newest_exec (0, None) ops)"
proof -
  have "snd (traced page_exec p ops) = snd (traced newest_exec (k, u) ops)" if "page_holds p k u" for p k u
    using that
  proof (induction ops arbitrary: p k u)
    case (Cons op ops)
    have "\<exists>p1 ev k1 u1. page_exec p op = (p1, ev) \<and> newest_exec (k, u) op = ((k1, u1), ev) \<and> page_holds p1 k1 u1"
    proof (cases op)
      case (PublishPage v)
      then show ?thesis using page_publish_newest [OF Cons.prems, of v] by (auto simp: page_exec_def)
    next
      case ReadPage
      then show ?thesis using page_read_newest [OF Cons.prems] by (auto simp: page_exec_def)
    qed
    then obtain p1 ev k1 u1 where "page_exec p op = (p1, ev)" "newest_exec (k, u) op = ((k1, u1), ev)"
        "page_holds p1 k1 u1" by blast
    with Cons.IH [of p1 k1 u1] show ?case
      by (cases "traced page_exec p1 ops"; cases "traced newest_exec (k1, u1) ops") simp
  qed simp
  from this [OF page_holds_new] show ?thesis .
qed

end
