(* ===== verification/Process_Buffer.thy ===== *)
theory Process_Buffer
  imports Double_Page Spsc_Ring
begin

text \<open>
  The process buffer (\<open>esop-procbuf/src/lib.rs\<close>): the header that identifies a region, the command,
  state and event records, the admission of commands on both sides, the event ring, and the buffer that
  composes them. A \<open>f64\<close> is its 64 bits, with the comparisons the source makes written out; so is an \<open>i64\<close>.
\<close>

section \<open>Floating-point numbers\<close>

type_synonym f64 = u64

definition f64_is_nan :: "f64 \<Rightarrow> bool" where
  "f64_is_nan x \<longleftrightarrow> drop_bit 52 x AND 0x7FF = 0x7FF \<and> take_bit 52 x \<noteq> 0"

definition f64_is_finite :: "f64 \<Rightarrow> bool" where
  "f64_is_finite x \<longleftrightarrow> drop_bit 52 x AND 0x7FF \<noteq> 0x7FF"

text \<open>\<open>x == 0.0\<close> and \<open>x >= 0.0\<close>.\<close>

definition f64_is_zero :: "f64 \<Rightarrow> bool" where
  "f64_is_zero x \<longleftrightarrow> x = 0 \<or> x = 0x8000000000000000"

definition f64_non_negative :: "f64 \<Rightarrow> bool" where
  "f64_non_negative x \<longleftrightarrow> \<not> f64_is_nan x \<and> (\<not> bit x 63 \<or> f64_is_zero x)"

section \<open>The header\<close>

definition ABI_MAGIC :: u32 where "ABI_MAGIC = 0x45534F50"
definition ABI_VERSION :: u16 where "ABI_VERSION = 7"

datatype header_error = HeMagicMismatch | HeAbiVersionMismatch | HeHeaderSizeMismatch | HeLayoutHashMismatch
  | HeRobotIdMismatch | HeBootIdMismatch | HeRegionSizeMismatch | HeCapacityMismatch

record proc_buf_dimensions =
  pd_axes :: u16
  pd_io_channels :: u16
  pd_domains :: u16
  pd_event_capacity :: u16

record proc_buf_header =
  ph_magic :: u32
  ph_abi_version :: u16
  ph_header_bytes :: u16
  ph_layout_hash :: u64
  ph_robot_id :: u64
  ph_boot_id :: u64
  ph_region_bytes :: u32
  ph_axes :: u16
  ph_io_channels :: u16
  ph_domains :: u16
  ph_event_capacity :: u16
  ph_reserved :: u32

definition proc_buf_header_new ::
  "nat \<Rightarrow> u64 \<Rightarrow> u64 \<Rightarrow> u64 \<Rightarrow> u32 \<Rightarrow> proc_buf_dimensions \<Rightarrow> proc_buf_header" where
  "proc_buf_header_new header_size layout_hash robot_id boot_id region_bytes d =
     \<lparr>ph_magic = ABI_MAGIC, ph_abi_version = ABI_VERSION, ph_header_bytes = of_nat header_size,
      ph_layout_hash = layout_hash, ph_robot_id = robot_id, ph_boot_id = boot_id, ph_region_bytes = region_bytes,
      ph_axes = pd_axes d, ph_io_channels = pd_io_channels d, ph_domains = pd_domains d,
      ph_event_capacity = pd_event_capacity d, ph_reserved = 0\<rparr>"

text \<open>\<open>header_size\<close>, \<open>region_size\<close> and \<open>layout_hash\<close> are those of the instance; \<open>Process_Layout\<close>
  computes them.\<close>

definition header_validate ::
  "nat \<Rightarrow> nat \<Rightarrow> u64 \<Rightarrow> nat \<times> nat \<times> nat \<times> nat \<Rightarrow> proc_buf_header \<Rightarrow> u64 \<Rightarrow> u64 \<Rightarrow> (header_error, unit) result" where
  "header_validate header_size region_size layout_hash capacities h robot_id boot_id =
     (if ph_magic h \<noteq> ABI_MAGIC then Err HeMagicMismatch
      else if ph_abi_version h \<noteq> ABI_VERSION then Err HeAbiVersionMismatch
      else if unat (ph_header_bytes h) \<noteq> header_size then Err HeHeaderSizeMismatch
      else if ph_layout_hash h \<noteq> layout_hash then Err HeLayoutHashMismatch
      else if ph_robot_id h \<noteq> robot_id then Err HeRobotIdMismatch
      else if ph_boot_id h \<noteq> boot_id then Err HeBootIdMismatch
      else if unat (ph_region_bytes h) \<noteq> region_size then Err HeRegionSizeMismatch
      else if (unat (ph_axes h), unat (ph_io_channels h), unat (ph_domains h), unat (ph_event_capacity h)) \<noteq> capacities
        then Err HeCapacityMismatch
      else Ok ())"

section \<open>Commands\<close>

datatype control_mode = PbCsp | PbCsv | PbCst | PbUnknown

definition control_mode_from_raw :: "u8 \<Rightarrow> control_mode" where
  "control_mode_from_raw v = (if v = 8 then PbCsp else if v = 9 then PbCsv else if v = 10 then PbCst else PbUnknown)"

record joint_command =
  jc_position :: f64
  jc_velocity :: f64
  jc_torque :: f64
  jc_max_velocity :: f64
  jc_max_torque :: f64

definition joint_command_empty :: joint_command where
  "joint_command_empty = \<lparr>jc_position = 0, jc_velocity = 0, jc_torque = 0, jc_max_velocity = 0, jc_max_torque = 0\<rparr>"

definition joint_command_finite :: "joint_command \<Rightarrow> bool" where
  "joint_command_finite c \<longleftrightarrow> f64_is_finite (jc_position c) \<and> f64_is_finite (jc_velocity c) \<and> f64_is_finite (jc_torque c) \<and>
     f64_is_finite (jc_max_velocity c) \<and> f64_is_finite (jc_max_torque c)"

text \<open>\<open>axis == JointCommand::EMPTY\<close>.\<close>

definition joint_command_is_empty :: "joint_command \<Rightarrow> bool" where
  "joint_command_is_empty c \<longleftrightarrow> f64_is_zero (jc_position c) \<and> f64_is_zero (jc_velocity c) \<and> f64_is_zero (jc_torque c) \<and>
     f64_is_zero (jc_max_velocity c) \<and> f64_is_zero (jc_max_torque c)"

record io_command =
  ic_output_bits :: u32
  ic_output_mask :: u32

definition io_command_empty :: io_command where
  "io_command_empty = \<lparr>ic_output_bits = 0, ic_output_mask = 0\<rparr>"

record command_page =
  cm_boot_id :: u64
  cm_sequence :: u64
  cm_deadline_ns :: u64
  cm_source_id :: u64
  cm_permit_epoch :: u64
  cm_permit_expires_at_ns :: u64
  cm_axis_mask :: u32
  cm_requested_mode :: control_mode
  cm_motion_enable_request :: u8
  cm_authority :: u8
  cm_reserved :: bytes
  cm_policy_version :: u32
  cm_axes :: "joint_command list"
  cm_io :: "io_command list"

definition command_page_new :: "nat \<Rightarrow> nat \<Rightarrow> u64 \<Rightarrow> command_page" where
  "command_page_new AXES IO boot_id = \<lparr>cm_boot_id = boot_id, cm_sequence = 0, cm_deadline_ns = 0, cm_source_id = 0,
     cm_permit_epoch = 0, cm_permit_expires_at_ns = 0, cm_axis_mask = 0, cm_requested_mode = PbUnknown,
     cm_motion_enable_request = 0, cm_authority = 0, cm_reserved = replicate 3 0, cm_policy_version = 0,
     cm_axes = replicate AXES joint_command_empty, cm_io = replicate IO io_command_empty\<rparr>"

definition command_well_formed :: "command_page \<Rightarrow> bool" where
  "command_well_formed c \<longleftrightarrow>
     (let AXES = length (cm_axes c);
          axis_mask_fits = (AXES \<le> 32 \<and> (AXES = 32 \<or> cm_axis_mask c AND NOT (push_bit AXES 1 - 1) = 0));
          targets_valid = (\<forall>(index, axis)\<in>set (enumerate 0 (cm_axes c)).
            joint_command_finite axis \<and> f64_non_negative (jc_max_velocity axis) \<and> f64_non_negative (jc_max_torque axis) \<and>
            (index < 32 \<and> cm_axis_mask c AND push_bit index 1 \<noteq> 0 \<or> joint_command_is_empty axis));
          permit_valid = (cm_motion_enable_request c = 0 \<or>
            cm_source_id c \<noteq> 0 \<and> cm_permit_epoch c \<noteq> 0 \<and> cm_permit_expires_at_ns c \<noteq> 0 \<and>
            cm_deadline_ns c = cm_permit_expires_at_ns c \<and> cm_authority c \<noteq> 0 \<and> cm_policy_version c \<noteq> 0 \<and>
            cm_axis_mask c \<noteq> 0)
      in cm_sequence c \<noteq> 0 \<and> cm_requested_mode c \<noteq> PbUnknown \<and> cm_motion_enable_request c \<le> 1 \<and>
         cm_reserved c = replicate 3 0 \<and> axis_mask_fits \<and> targets_valid \<and> permit_valid)"

datatype command_publish_error = CpBootMismatch | CpInvalidCommand | CpNoFreePage

datatype command_read_error = CrUnavailable | CrBootMismatch | CrReplayed | CrExpired | CrPermitExpired | CrInvalidCommand

record command_snapshot =
  cs_publish_sequence :: u64
  cs_command :: command_page

text \<open>What \<open>read_command\<close> does with the page it got. The second component is the replay floor.\<close>

definition admit_command ::
  "u64 \<Rightarrow> u64 \<Rightarrow> u64 \<Rightarrow> (u64 \<times> command_page) option \<Rightarrow> u64 \<times> (command_read_error, command_snapshot) result" where
  "admit_command boot_id now_ns last_sequence page =
     (case page of
        None \<Rightarrow> (last_sequence, Err CrUnavailable)
      | Some (publish_sequence, command) \<Rightarrow>
          if cm_boot_id command \<noteq> boot_id then (last_sequence, Err CrBootMismatch)
          else if cm_sequence command \<le> last_sequence then (last_sequence, Err CrReplayed)
          else (cm_sequence command,
            if \<not> command_well_formed command then Err CrInvalidCommand
            else if cm_deadline_ns command \<le> now_ns then Err CrExpired
            else if cm_motion_enable_request command \<noteq> 0 \<and> cm_permit_expires_at_ns command \<le> now_ns then Err CrPermitExpired
            else Ok \<lparr>cs_publish_sequence = publish_sequence, cs_command = command\<rparr>))"

section \<open>State pages\<close>

record joint_state =
  js_position :: f64
  js_velocity :: f64
  js_torque :: f64
  js_following_error :: f64
  js_statusword :: u16
  js_controlword :: u16
  js_error_code :: u16
  js_drive_state :: u8
  js_actual_mode :: u8
  js_quality :: u8
  js_reserved :: u8

definition joint_state_empty :: joint_state where
  "joint_state_empty = \<lparr>js_position = 0, js_velocity = 0, js_torque = 0, js_following_error = 0, js_statusword = 0,
     js_controlword = 0, js_error_code = 0, js_drive_state = 255, js_actual_mode = 255, js_quality = 0, js_reserved = 0\<rparr>"

record io_state =
  is_input_bits :: u32
  is_quality :: u32

record domain_quality_page =
  dq_expected_wkc :: u16
  dq_actual_wkc :: u16
  dq_valid :: u8
  dq_complete :: u8
  dq_consecutive_wkc_mismatches :: u16
  dq_last_valid_cycle :: u64
  dq_input_age_cycles :: u64

datatype quality_fact = QfPlatform | QfConfiguration | QfTopology | QfDistributedClock | QfDrive | QfDomain | QfWkc
  | QfCommand | QfSupervisor | QfExternalSafety | QfCycleBudget

fun quality_fact_index :: "quality_fact \<Rightarrow> nat" where
  "quality_fact_index QfPlatform = 0"
| "quality_fact_index QfConfiguration = 1"
| "quality_fact_index QfTopology = 2"
| "quality_fact_index QfDistributedClock = 3"
| "quality_fact_index QfDrive = 4"
| "quality_fact_index QfDomain = 5"
| "quality_fact_index QfWkc = 6"
| "quality_fact_index QfCommand = 7"
| "quality_fact_index QfSupervisor = 8"
| "quality_fact_index QfExternalSafety = 9"
| "quality_fact_index QfCycleBudget = 10"

definition QUALITY_ALL_MASK :: u16 where "QUALITY_ALL_MASK = push_bit 11 1 - 1"

definition quality_fact_bit :: "quality_fact \<Rightarrow> u16" where
  "quality_fact_bit f = push_bit (quality_fact_index f) 1"

record cyclic_quality_mask =
  cq_known_mask :: u16
  cq_good_mask :: u16

definition cyclic_well_formed :: "cyclic_quality_mask \<Rightarrow> bool" where
  "cyclic_well_formed q \<longleftrightarrow> cq_known_mask q AND NOT QUALITY_ALL_MASK = 0 \<and> cq_good_mask q AND NOT (cq_known_mask q) = 0"

definition cyclic_complete :: "cyclic_quality_mask \<Rightarrow> bool" where
  "cyclic_complete q \<longleftrightarrow> cyclic_well_formed q \<and> cq_known_mask q = QUALITY_ALL_MASK"

definition cyclic_good :: "cyclic_quality_mask \<Rightarrow> quality_fact \<Rightarrow> bool" where
  "cyclic_good q f \<longleftrightarrow> cq_good_mask q AND quality_fact_bit f \<noteq> 0"

record quality_page =
  qp_sequence :: u64
  qp_link_up :: u8
  qp_al_state :: u8
  qp_dc_locked :: u8
  qp_reserved :: u8
  qp_fault_bitmap :: u32
  qp_command_age_cycles :: u64
  qp_deadline_misses :: u64
  qp_dc_offset_ns :: u64
  qp_cyclic :: cyclic_quality_mask
  qp_domains :: "domain_quality_page list"

definition quality_page_new :: "nat \<Rightarrow> quality_page" where
  "quality_page_new DOMAINS = \<lparr>qp_sequence = 0, qp_link_up = 0, qp_al_state = 0, qp_dc_locked = 0, qp_reserved = 0,
     qp_fault_bitmap = 0, qp_command_age_cycles = 0, qp_deadline_misses = 0, qp_dc_offset_ns = 0,
     qp_cyclic = \<lparr>cq_known_mask = 0, cq_good_mask = 0\<rparr>,
     qp_domains = replicate DOMAINS \<lparr>dq_expected_wkc = 0, dq_actual_wkc = 0, dq_valid = 0, dq_complete = 0,
       dq_consecutive_wkc_mismatches = 0, dq_last_valid_cycle = 0, dq_input_age_cycles = 0\<rparr>\<rparr>"

record lifecycle_summary =
  ls_state :: u8
  ls_stop_action :: u8
  ls_gates_ready :: u8
  ls_motion_permit :: u8
  ls_required_gate_mask :: u16
  ls_valid_gate_mask :: u16
  ls_qualified_gate_mask :: u16
  ls_ready_gate_mask :: u16
  ls_first_blocking_code :: u32
  ls_latched_fault_code :: u32
  ls_permit_epoch :: u64
  ls_permit_expires_at_ns :: u64
  ls_transition_sequence :: u64
  ls_transition_cycle :: u64
  ls_transition_time_ns :: u64
  ls_recovery_count :: u64
  ls_permit_audit_sequence :: u64

definition lifecycle_summary_empty :: lifecycle_summary where
  "lifecycle_summary_empty = \<lparr>ls_state = 0, ls_stop_action = 0, ls_gates_ready = 0, ls_motion_permit = 0,
     ls_required_gate_mask = 0, ls_valid_gate_mask = 0, ls_qualified_gate_mask = 0, ls_ready_gate_mask = 0,
     ls_first_blocking_code = 0, ls_latched_fault_code = 0, ls_permit_epoch = 0, ls_permit_expires_at_ns = 0,
     ls_transition_sequence = 0, ls_transition_cycle = 0, ls_transition_time_ns = 0, ls_recovery_count = 0,
     ls_permit_audit_sequence = 0\<rparr>"

record axis_stop_evidence =
  ae_request_cycle :: u64
  ae_feedback_cycle :: u64
  ae_requested_action :: u8
  ae_issued_action :: u8
  ae_feedback_valid :: u8
  ae_stationary :: u8
  ae_non_enabled :: u8
  ae_reserved :: bytes

definition axis_stop_evidence_empty :: axis_stop_evidence where
  "axis_stop_evidence_empty = \<lparr>ae_request_cycle = 0, ae_feedback_cycle = 0, ae_requested_action = 0, ae_issued_action = 0,
     ae_feedback_valid = 0, ae_stationary = 0, ae_non_enabled = 0, ae_reserved = replicate 3 0\<rparr>"

definition LIFECYCLE_HISTORY_CAPACITY :: nat where "LIFECYCLE_HISTORY_CAPACITY = 8"

record lifecycle_transition_record =
  lt_sequence :: u64
  lt_timestamp_ns :: u64
  lt_from_state :: u8
  lt_to_state :: u8
  lt_reserved :: u16
  lt_fault_code :: u32

definition lifecycle_transition_record_empty :: lifecycle_transition_record where
  "lifecycle_transition_record_empty = \<lparr>lt_sequence = 0, lt_timestamp_ns = 0, lt_from_state = 0, lt_to_state = 0,
     lt_reserved = 0, lt_fault_code = 0\<rparr>"

record lifecycle_history =
  lh_records :: "lifecycle_transition_record list"
  lh_head :: u8
  lh_count :: u8
  lh_reserved :: bytes

definition lifecycle_history_empty :: lifecycle_history where
  "lifecycle_history_empty = \<lparr>lh_records = replicate LIFECYCLE_HISTORY_CAPACITY lifecycle_transition_record_empty,
     lh_head = 0, lh_count = 0, lh_reserved = replicate 6 0\<rparr>"

definition history_push :: "lifecycle_history \<Rightarrow> lifecycle_transition_record \<Rightarrow> lifecycle_history" where
  "history_push h r =
     (let index = unat (lh_head h)
      in h\<lparr>lh_records := (lh_records h)[index := r], lh_head := of_nat ((index + 1) mod LIFECYCLE_HISTORY_CAPACITY),
           lh_count := min (sat_add (lh_count h) 1) (of_nat LIFECYCLE_HISTORY_CAPACITY)\<rparr>)"

definition history_len :: "lifecycle_history \<Rightarrow> nat" where
  "history_len h = unat (lh_count h)"

definition history_is_empty :: "lifecycle_history \<Rightarrow> bool" where
  "history_is_empty h \<longleftrightarrow> lh_count h = 0"

definition history_get :: "lifecycle_history \<Rightarrow> nat \<Rightarrow> lifecycle_transition_record option" where
  "history_get h index =
     (if history_len h \<le> index then None
      else
        let oldest = (unat (lh_head h) + LIFECYCLE_HISTORY_CAPACITY - history_len h) mod LIFECYCLE_HISTORY_CAPACITY
        in Some (lh_records h ! ((oldest + index) mod LIFECYCLE_HISTORY_CAPACITY)))"

interpretation history: audit_ring LIFECYCLE_HISTORY_CAPACITY lh_records "\<lambda>h. unat (lh_head h)" history_len history_push
proof
  show "unat (lh_head (history_push h r)) = (unat (lh_head h) + 1) mod LIFECYCLE_HISTORY_CAPACITY" for h r
  proof -
    have small: "unat (of_nat n :: u8) = n" if "n < 8" for n
      using that by (simp add: unat_of_nat)
    have "unat (of_nat ((unat (lh_head h) + 1) mod 8) :: u8) = (unat (lh_head h) + 1) mod 8"
      by (rule small) simp
    moreover have "lh_head (history_push h r) = of_nat ((unat (lh_head h) + 1) mod 8)"
      by (simp add: history_push_def Let_def LIFECYCLE_HISTORY_CAPACITY_def)
    ultimately show ?thesis unfolding LIFECYCLE_HISTORY_CAPACITY_def by (simp only:)
  qed
  show "history_len (history_push h r) = min (history_len h + 1) LIFECYCLE_HISTORY_CAPACITY" for h r
  proof -
    have "unat (min a b) = min (unat a) (unat b)" for a b :: u8
      by (simp add: min_def word_le_nat_alt)
    then show ?thesis
      by (simp add: history_push_def history_len_def Let_def LIFECYCLE_HISTORY_CAPACITY_def unat_sat_add)
  qed
qed (simp_all add: LIFECYCLE_HISTORY_CAPACITY_def history_push_def Let_def)

text \<open>\<open>get\<close> enumerates the view of the ring.\<close>

lemma history_get_view:
  "history_get h i = (if i < history_len h then Some (history.view h ! i) else None)"
  by (simp add: history_get_def history.view_def history.entry_def Let_def)

lemma history_shows_recent:
  assumes "history.ring_wf h"
  shows "history.view (foldl history_push h rs) = recent LIFECYCLE_HISTORY_CAPACITY (history.view h @ rs) \<and>
    history.ring_wf (foldl history_push h rs)"
  using assms
proof (induction rs rule: rev_induct)
  case Nil
  then show ?case by (simp add: recent_all history.length_view history.ring_wf_def)
next
  case (snoc r rs)
  then show ?case by (simp add: history.view_append history.append_wf recent_append)
qed

record runtime_observation =
  ro_latest_incident_id :: u64
  ro_agent_epoch :: u64
  ro_observed_at_ns :: u64
  ro_observation_window_ns :: u64
  ro_lost_events :: u32
  ro_incident_count :: u32
  ro_health :: u8
  ro_reserved :: bytes

definition runtime_observation_empty :: runtime_observation where
  "runtime_observation_empty = \<lparr>ro_latest_incident_id = 0, ro_agent_epoch = 0, ro_observed_at_ns = 0,
     ro_observation_window_ns = 0, ro_lost_events = 0, ro_incident_count = 0, ro_health = 0, ro_reserved = replicate 7 0\<rparr>"

record state_page =
  sp_boot_id :: u64
  sp_sequence :: u64
  sp_ecat_time_ns :: u64
  sp_monotonic_time_ns :: u64
  sp_axes :: "joint_state list"
  sp_io :: "io_state list"
  sp_quality :: quality_page
  sp_lifecycle :: lifecycle_summary
  sp_axis_stops :: "axis_stop_evidence list"
  sp_lifecycle_history :: lifecycle_history
  sp_runtime_observation :: runtime_observation

definition state_page_new :: "nat \<Rightarrow> nat \<Rightarrow> nat \<Rightarrow> u64 \<Rightarrow> state_page" where
  "state_page_new AXES IO DOMAINS boot_id = \<lparr>sp_boot_id = boot_id, sp_sequence = 0, sp_ecat_time_ns = 0,
     sp_monotonic_time_ns = 0, sp_axes = replicate AXES joint_state_empty,
     sp_io = replicate IO \<lparr>is_input_bits = 0, is_quality = 0\<rparr>, sp_quality = quality_page_new DOMAINS,
     sp_lifecycle = lifecycle_summary_empty, sp_axis_stops = replicate AXES axis_stop_evidence_empty,
     sp_lifecycle_history = lifecycle_history_empty, sp_runtime_observation = runtime_observation_empty\<rparr>"

datatype state_publish_error = SpBootMismatch | SpZeroSequence | SpNoFreePage

record state_snapshot =
  ss_publish_sequence :: u64
  ss_state :: state_page

section \<open>The event ring\<close>

datatype proc_event_severity = PevInfo | PevWarning | PevError | PevFault

fun proc_event_severity_value :: "proc_event_severity \<Rightarrow> u8" where
  "proc_event_severity_value PevInfo = 1"
| "proc_event_severity_value PevWarning = 2"
| "proc_event_severity_value PevError = 3"
| "proc_event_severity_value PevFault = 4"

record proc_buf_event =
  ev_sequence :: u64
  ev_timestamp_ns :: u64
  ev_source :: u16
  ev_severity :: proc_event_severity
  ev_code :: u16
  ev_axis_or_device :: u16
  ev_value :: u32
  ev_aux :: u32

definition proc_buf_event_empty :: proc_buf_event where
  "proc_buf_event_empty = \<lparr>ev_sequence = 0, ev_timestamp_ns = 0, ev_source = 0, ev_severity = PevInfo, ev_code = 0,
     ev_axis_or_device = 0, ev_value = 0, ev_aux = 0\<rparr>"

datatype event_push_error = EvInvalidCapacity | EvFull

record event_ring =
  er_events :: "proc_buf_event list"
  er_head :: u32
  er_tail :: u32
  er_lost_events :: u32

text \<open>\<open>EventRing::new\<close>; \<open>None\<close> is the panic.\<close>

definition event_ring_new :: "nat \<Rightarrow> event_ring option" where
  "event_ring_new EVENTS =
     (if EVENTS = 0 \<or> \<not> is_power_of_two EVENTS then None
      else Some \<lparr>er_events = replicate EVENTS proc_buf_event_empty, er_head = 0, er_tail = 0, er_lost_events = 0\<rparr>)"

definition event_push :: "nat \<Rightarrow> event_ring \<Rightarrow> proc_buf_event \<Rightarrow> event_ring \<times> (event_push_error, unit) result" where
  "event_push EVENTS r event =
     (if EVENTS = 0 \<or> \<not> is_power_of_two EVENTS then (r, Err EvInvalidCapacity)
      else
        let head = er_head r; tail = er_tail r
        in if of_nat EVENTS \<le> head - tail then (r\<lparr>er_lost_events := er_lost_events r + 1\<rparr>, Err EvFull)
           else
             let index = unat head AND (EVENTS - 1)
             in (r\<lparr>er_events := (er_events r)[index := event], er_head := head + 1\<rparr>, Ok ()))"

definition event_pop :: "nat \<Rightarrow> event_ring \<Rightarrow> event_ring \<times> proc_buf_event option" where
  "event_pop EVENTS r =
     (let tail = er_tail r; head = er_head r
      in if tail = head then (r, None)
         else
           let index = unat tail AND (EVENTS - 1)
           in (r\<lparr>er_tail := tail + 1\<rparr>, Some (er_events r ! index)))"

definition event_pending :: "nat \<Rightarrow> event_ring \<Rightarrow> nat" where
  "event_pending EVENTS r = min (unat (er_head r - er_tail r)) EVENTS"

text \<open>The specification: a bounded queue that counts what it refuses.\<close>

datatype event_op = PushEvent proc_buf_event | PopEvent

datatype event_result = EventPushed "(event_push_error, unit) result" | EventPopped "proc_buf_event option"

definition event_exec :: "nat \<Rightarrow> event_ring \<Rightarrow> event_op \<Rightarrow> event_ring \<times> event_result" where
  "event_exec EVENTS r op =
     (case op of
        PushEvent e \<Rightarrow> (case event_push EVENTS r e of (r1, x) \<Rightarrow> (r1, EventPushed x))
      | PopEvent \<Rightarrow> (case event_pop EVENTS r of (r1, x) \<Rightarrow> (r1, EventPopped x)))"

fun queue_spec :: "nat \<Rightarrow> proc_buf_event list \<times> u32 \<Rightarrow> event_op \<Rightarrow> (proc_buf_event list \<times> u32) \<times> event_result" where
  "queue_spec cap (q, lost) (PushEvent e) =
     (if length q < cap then ((q @ [e], lost), EventPushed (Ok ())) else ((q, lost + 1), EventPushed (Err EvFull)))"
| "queue_spec cap (q, lost) PopEvent =
     (case q of [] \<Rightarrow> (([], lost), EventPopped None) | e # q1 \<Rightarrow> ((q1, lost), EventPopped (Some e)))"

definition event_contents :: "nat \<Rightarrow> event_ring \<Rightarrow> proc_buf_event list" where
  "event_contents N r = map (\<lambda>i. er_events r ! ((unat (er_tail r) + i) mod N)) [0..<unat (er_head r - er_tail r)]"

definition event_inv :: "nat \<Rightarrow> event_ring \<Rightarrow> bool" where
  "event_inv N r \<longleftrightarrow> is_power_of_two N \<and> N < 2 ^ 32 \<and> length (er_events r) = N \<and> unat (er_head r - er_tail r) \<le> N"

lemma event_index:
  assumes "is_power_of_two N" "N < 2 ^ 32"
  shows "n AND (N - 1) = n mod N" "unat (t + of_nat i :: u32) mod N = (unat t + i) mod N" "0 < N"
proof -
  obtain k where k: "N = 2 ^ k" using assms(1) by (auto simp: is_power_of_two_iff)
  then show "n AND (N - 1) = n mod N"
    by (simp add: take_bit_eq_mod [symmetric] take_bit_eq_mask mask_eq_exp_minus_1)
  have "k < 32"
  proof (rule power_less_imp_less_exp)
    show "(2 :: nat) ^ k < 2 ^ 32" using assms(2) k by simp
  qed simp
  then have "N dvd 2 ^ 32" unfolding k by (intro le_imp_power_dvd) simp
  then show "unat (t + of_nat i :: u32) mod N = (unat t + i) mod N"
    by (simp add: unat_word_ariths unat_of_nat mod_mod_cancel mod_add_right_eq)
  show "0 < N" using k by simp
qed

lemma event_index_head:
  assumes "event_inv N r"
  shows "unat (er_head r) mod N = (unat (er_tail r) + unat (er_head r - er_tail r)) mod N"
  using event_index(2) [of N "er_tail r" "unat (er_head r - er_tail r)"] assms by (simp add: event_inv_def)

lemma event_push_refines:
  assumes inv: "event_inv N r" and push: "event_push N r e = (r1, x)"
  shows "event_inv N r1 \<and>
    queue_spec N (event_contents N r, er_lost_events r) (PushEvent e) = ((event_contents N r1, er_lost_events r1), EventPushed x)"
proof -
  let ?n = "unat (er_head r - er_tail r)"
  have N: "is_power_of_two N" "N < 2 ^ 32" "length (er_events r) = N" "?n \<le> N"
    using inv by (simp_all add: event_inv_def)
  note idx = event_index [OF N(1,2)]
  have full: "of_nat N \<le> er_head r - er_tail r \<longleftrightarrow> N \<le> ?n"
    using N(2) by (simp add: word_le_nat_alt unat_of_nat)
  have len: "length (event_contents N r) = ?n" by (simp add: event_contents_def)
  show ?thesis
  proof (cases "N \<le> ?n")
    case True
    then have "r1 = r\<lparr>er_lost_events := er_lost_events r + 1\<rparr>" "x = Err EvFull"
      using push N(1) idx(3) full by (auto simp: event_push_def)
    then show ?thesis using inv True len by (simp add: event_inv_def event_contents_def)
  next
    case False
    let ?i = "unat (er_head r) mod N"
    have r1: "r1 = r\<lparr>er_events := (er_events r)[?i := e], er_head := er_head r + 1\<rparr>" "x = Ok ()"
      using push N(1) idx(1,3) full False by (auto simp: event_push_def Let_def)
    have n1: "unat (er_head r + 1 - er_tail r) = Suc ?n"
    proof -
      have "er_head r + 1 - er_tail r = (er_head r - er_tail r) + 1" by simp
      moreover have "unat ((er_head r - er_tail r) + 1) = ?n + 1"
        using False N(2) by (subst unat_add_lem [THEN iffD1]) auto
      ultimately show ?thesis by (simp only: Suc_eq_plus1)
    qed
    have old: "(unat (er_tail r) + i) mod N \<noteq> ?i" if "i < ?n" for i
      using that False event_index_head [OF inv] mod_add_inj [of "unat (er_tail r)" i N ?n] by auto
    have "event_contents N r1 = event_contents N r @ [e]"
    proof -
      have sel: "er_events r1 = (er_events r)[?i := e]" "er_head r1 = er_head r + 1" "er_tail r1 = er_tail r"
        by (simp_all add: r1)
      have new: "(er_events r)[?i := e] ! ((unat (er_tail r) + i) mod N) =
          (if i = ?n then e else er_events r ! ((unat (er_tail r) + i) mod N))" if "i \<le> ?n" for i
        using N(3) idx(3) old [of i] that event_index_head [OF inv] by (cases "i = ?n") (auto simp: nth_list_update)
      have "event_contents N r1 = map (\<lambda>i. (er_events r)[?i := e] ! ((unat (er_tail r) + i) mod N)) [0..<Suc ?n]"
        unfolding event_contents_def sel n1 ..
      also have "\<dots> = event_contents N r @ [e]" by (simp add: new event_contents_def)
      finally show ?thesis .
    qed
    moreover have "event_inv N r1" using N False n1 by (simp add: event_inv_def r1)
    ultimately show ?thesis using False len r1 by simp
  qed
qed

lemma event_pop_refines:
  assumes inv: "event_inv N r" and pop: "event_pop N r = (r1, x)"
  shows "event_inv N r1 \<and>
    queue_spec N (event_contents N r, er_lost_events r) PopEvent = ((event_contents N r1, er_lost_events r1), EventPopped x)"
proof -
  let ?n = "unat (er_head r - er_tail r)"
  have N: "is_power_of_two N" "N < 2 ^ 32" "length (er_events r) = N" "?n \<le> N"
    using inv by (simp_all add: event_inv_def)
  note idx = event_index [OF N(1,2)]
  show ?thesis
  proof (cases "er_tail r = er_head r")
    case True
    then show ?thesis using pop inv by (auto simp: event_pop_def event_contents_def)
  next
    case False
    then have ne: "er_head r - er_tail r \<noteq> 0" by simp
    have r1: "r1 = r\<lparr>er_tail := er_tail r + 1\<rparr>" "x = Some (er_events r ! (unat (er_tail r) mod N))"
      using pop False idx(1) by (auto simp: event_pop_def Let_def)
    have n1: "?n = Suc (unat (er_head r - (er_tail r + 1)))"
    proof -
      have "er_head r - (er_tail r + 1) = (er_head r - er_tail r) - 1" by simp
      then have "unat (er_head r - (er_tail r + 1)) = ?n - 1" using unat_minus_one [OF ne] by (simp only:)
      moreover have "0 < ?n" using ne by (simp add: unat_gt_0)
      ultimately show ?thesis by linarith
    qed
    have "event_contents N r = er_events r ! (unat (er_tail r) mod N) # event_contents N r1"
    proof -
      have shift: "unat (er_tail r + 1) mod N = (unat (er_tail r) + 1) mod N" using idx(2) [of "er_tail r" 1] by simp
      have "(unat (er_tail r + 1) + i) mod N = (unat (er_tail r) + Suc i) mod N" for i
        using shift by (metis add_Suc_right add_Suc_shift mod_add_left_eq Suc_eq_plus1)
      then show ?thesis
        unfolding event_contents_def n1 r1(1) by (simp add: map_upt_Suc del: upt_Suc)
    qed
    moreover have "event_inv N r1" using N n1 by (simp add: event_inv_def r1)
    ultimately show ?thesis using r1 by simp
  qed
qed

interpretation events: traced_refinement "event_exec N" "queue_spec N" "\<lambda>r. (event_contents N r, er_lost_events r)" "event_inv N"
proof
  show "event_inv N r1 \<and> queue_spec N (event_contents N r, er_lost_events r) op = ((event_contents N r1, er_lost_events r1), ev)"
    if inv: "event_inv N r" and op: "event_exec N r op = (r1, ev)" for r op r1 ev
  proof (cases op)
    case (PushEvent e)
    obtain r2 x where "event_push N r e = (r2, x)" by fastforce
    then show ?thesis using event_push_refines [OF inv] op PushEvent by (simp add: event_exec_def del: queue_spec.simps)
  next
    case PopEvent
    obtain r2 x where "event_pop N r = (r2, x)" by fastforce
    then show ?thesis using event_pop_refines [OF inv] op PopEvent by (simp add: event_exec_def del: queue_spec.simps)
  qed
qed

section \<open>The buffer\<close>

record proc_buf =
  pb_header :: proc_buf_header
  pb_command :: "command_page double_page"
  pb_state :: "state_page double_page"
  pb_events :: event_ring

text \<open>\<open>ProcBuf::new\<close> for the sizes of the instance; \<open>None\<close> is the panic of the ring.\<close>

definition proc_buf_new ::
  "nat \<Rightarrow> nat \<Rightarrow> u64 \<Rightarrow> nat \<times> nat \<times> nat \<times> nat \<Rightarrow> u64 \<Rightarrow> u64 \<Rightarrow> proc_buf option" where
  "proc_buf_new header_size region_size layout_hash capacities robot_id boot_id =
     (case capacities of (AXES, IO, DOMAINS, EVENTS) \<Rightarrow>
        map_option (\<lambda>ring. \<lparr>pb_header = proc_buf_header_new header_size layout_hash robot_id boot_id (of_nat region_size)
            \<lparr>pd_axes = of_nat AXES, pd_io_channels = of_nat IO, pd_domains = of_nat DOMAINS, pd_event_capacity = of_nat EVENTS\<rparr>,
          pb_command = double_page_new (command_page_new AXES IO boot_id),
          pb_state = double_page_new (state_page_new AXES IO DOMAINS boot_id), pb_events = ring\<rparr>) (event_ring_new EVENTS))"

definition publish_command :: "proc_buf \<Rightarrow> command_page \<Rightarrow> proc_buf \<times> (command_publish_error, u64) result" where
  "publish_command b command =
     (if cm_boot_id command \<noteq> ph_boot_id (pb_header b) then (b, Err CpBootMismatch)
      else if \<not> command_well_formed command then (b, Err CpInvalidCommand)
      else case page_publish (pb_command b) command of
        (p, Inl _) \<Rightarrow> (b\<lparr>pb_command := p\<rparr>, Err CpNoFreePage)
      | (p, Inr sequence) \<Rightarrow> (b\<lparr>pb_command := p\<rparr>, Ok sequence))"

definition read_command :: "proc_buf \<Rightarrow> u64 \<Rightarrow> u64 \<Rightarrow> proc_buf \<times> u64 \<times> (command_read_error, command_snapshot) result" where
  "read_command b now_ns last_sequence =
     (case page_read (pb_command b) of
        (p, page) \<Rightarrow> (b\<lparr>pb_command := p\<rparr>, admit_command (ph_boot_id (pb_header b)) now_ns last_sequence page))"

definition publish_state :: "proc_buf \<Rightarrow> state_page \<Rightarrow> proc_buf \<times> (state_publish_error, u64) result" where
  "publish_state b st =
     (if sp_boot_id st \<noteq> ph_boot_id (pb_header b) then (b, Err SpBootMismatch)
      else if sp_sequence st = 0 then (b, Err SpZeroSequence)
      else case page_publish (pb_state b) st of
        (p, Inl _) \<Rightarrow> (b\<lparr>pb_state := p\<rparr>, Err SpNoFreePage)
      | (p, Inr sequence) \<Rightarrow> (b\<lparr>pb_state := p\<rparr>, Ok sequence))"

definition read_state :: "proc_buf \<Rightarrow> proc_buf \<times> state_snapshot option" where
  "read_state b =
     (case page_read (pb_state b) of
        (p, page) \<Rightarrow> (b\<lparr>pb_state := p\<rparr>, map_option (\<lambda>(n, st). \<lparr>ss_publish_sequence = n, ss_state = st\<rparr>) page))"

definition record_event :: "nat \<Rightarrow> proc_buf \<Rightarrow> proc_buf_event \<Rightarrow> proc_buf \<times> (event_push_error, unit) result" where
  "record_event EVENTS b e = (case event_push EVENTS (pb_events b) e of (r, x) \<Rightarrow> (b\<lparr>pb_events := r\<rparr>, x))"

definition pop_event :: "nat \<Rightarrow> proc_buf \<Rightarrow> proc_buf \<times> proc_buf_event option" where
  "pop_event EVENTS b = (case event_pop EVENTS (pb_events b) of (r, x) \<Rightarrow> (b\<lparr>pb_events := r\<rparr>, x))"

end
