(* ===== verification/Double_Page_Concurrent.thy ===== *)
theory Double_Page_Concurrent
  imports Double_Page
begin

text \<open>
  The writer and the reader of the two-page channel running concurrently. \<open>publish\<close> and \<open>read\<close> are
  taken apart into their atomic steps: the load of the token, each \<open>compare_exchange\<close>, the stores, and
  the copy of the page, which moves one cell at a time. Each side takes its steps in program order; a
  schedule says who moves. The atomic accesses are interleaved sequentially.

  A page is a list of \<open>L\<close> cells. The state carries three histories: the values whose page has been
  marked published, the number of publications that have returned \<open>Ok\<close> and of those refused, and what
  the reader was given.
\<close>

section \<open>Atomic steps\<close>

datatype 'c writer_pc =
    WIdle
  | WLoaded "'c list" u32
  | WRetry "'c list" u32
  | WCopying "'c list" u32 nat
  | WMarked u32

datatype 'c reader_pc =
    RIdle
  | RLoaded u32
  | RReleased u32
  | RCopying u32 "'c list"

record 'c dual_page =
  dc_page :: "'c list double_page"
  dc_writer :: "'c writer_pc"
  dc_reader :: "'c reader_pc"
  dc_marked :: "'c list list"
  dc_accepted :: nat
  dc_refused :: nat
  dc_reads :: "(u64 \<times> 'c list) list"

datatype 'c page_move = StartPublish "'c list" | WriterMoves | ReaderMoves

definition dual_init :: "'c list \<Rightarrow> 'c dual_page" where
  "dual_init initial = \<lparr>dc_page = double_page_new initial, dc_writer = WIdle, dc_reader = RIdle, dc_marked = [],
     dc_accepted = 0, dc_refused = 0, dc_reads = []\<rparr>"

definition writer_move :: "'c dual_page \<Rightarrow> 'c dual_page" where
  "writer_move s =
     (case dc_writer s of
        WIdle \<Rightarrow> s
      | WLoaded v token \<Rightarrow>
          (case page_cas (dc_page s) (candidate_page token) PageFree PageWriting of
             (p, taken) \<Rightarrow> s\<lparr>dc_page := p, dc_writer := (if taken then WCopying v token 0 else WRetry v token)\<rparr>)
      | WRetry v token \<Rightarrow>
          (case page_cas (dc_page s) (candidate_page token) PagePublished PageWriting of
             (p, taken) \<Rightarrow>
               if taken then s\<lparr>dc_page := p, dc_writer := WCopying v token 0\<rparr>
               else s\<lparr>dc_writer := WIdle, dc_refused := Suc (dc_refused s)\<rparr>)
      | WCopying v token n \<Rightarrow>
          let p = dc_page s; i = candidate_page token
          in if n < length v then
               s\<lparr>dc_page := p\<lparr>dp_pages := (dp_pages p)[i := (dp_pages p ! i)[n := v ! n]]\<rparr>, dc_writer := WCopying v token (Suc n)\<rparr>
             else
               s\<lparr>dc_page := p\<lparr>dp_state := (dp_state p)[i := PagePublished]\<rparr>, dc_writer := WMarked token,
                 dc_marked := dc_marked s @ [v]\<rparr>
      | WMarked token \<Rightarrow>
          s\<lparr>dc_page := (dc_page s)\<lparr>dp_published := next_token token\<rparr>, dc_writer := WIdle, dc_accepted := Suc (dc_accepted s)\<rparr>)"

definition reader_move :: "'c dual_page \<Rightarrow> 'c dual_page" where
  "reader_move s =
     (case dc_reader s of
        RIdle \<Rightarrow> if dp_published (dc_page s) = 0 then s else s\<lparr>dc_reader := RLoaded (dp_published (dc_page s))\<rparr>
      | RLoaded token \<Rightarrow>
          s\<lparr>dc_page := fst (page_cas (dc_page s) (1 - page_index token) PagePublished PageFree), dc_reader := RReleased token\<rparr>
      | RReleased token \<Rightarrow>
          (case page_cas (dc_page s) (page_index token) PagePublished PageReading of
             (p, taken) \<Rightarrow> s\<lparr>dc_page := p, dc_reader := (if taken then RCopying token [] else RIdle)\<rparr>)
      | RCopying token xs \<Rightarrow>
          let p = dc_page s; i = page_index token
          in if length xs < length (dp_pages p ! i) then s\<lparr>dc_reader := RCopying token (xs @ [dp_pages p ! i ! length xs])\<rparr>
             else s\<lparr>dc_page := p\<lparr>dp_state := (dp_state p)[i := PageFree]\<rparr>, dc_reader := RIdle,
                    dc_reads := dc_reads s @ [(ucast (drop_bit 1 token), xs)]\<rparr>)"

text \<open>A page type has a fixed size, so only values of \<open>L\<close> cells are published.\<close>

definition dual_move :: "nat \<Rightarrow> 'c dual_page \<Rightarrow> 'c page_move \<Rightarrow> 'c dual_page" where
  "dual_move L s m =
     (case m of
        StartPublish v \<Rightarrow>
          if dc_writer s = WIdle \<and> length v = L then s\<lparr>dc_writer := WLoaded v (dp_published (dc_page s))\<rparr> else s
      | WriterMoves \<Rightarrow> writer_move s
      | ReaderMoves \<Rightarrow> reader_move s)"

section \<open>Which publication a page holds\<close>

definition home :: "nat \<Rightarrow> nat" where
  "home k = (k - 1) mod 2"

text \<open>The newest of \<open>m\<close> publications that was written to page \<open>i\<close>.\<close>

definition newest :: "nat \<Rightarrow> nat \<Rightarrow> nat" where
  "newest m i = (if home m = i then m else m - 1)"

lemma home_less [simp]: "home k < 2"
  by (simp add: home_def)

lemma home_alternates: "0 < k \<Longrightarrow> home (Suc k) = 1 - home k"
  unfolding home_def by (cases "even k") (auto simp: mod_2_eq_odd)

lemma newest_home: "newest (Suc m) i = (if i = home (Suc m) then Suc m else m)"
  by (auto simp: newest_def)

lemma newest_other: "i < 2 \<Longrightarrow> i \<noteq> home (Suc m) \<Longrightarrow> 0 < m \<Longrightarrow> newest m i = m"
  unfolding newest_def home_def by (cases "even m") (auto simp: mod_2_eq_odd less_2_cases_iff)

lemma newest_bounds: "newest m i \<le> m" "m \<le> newest m i + 1"
  by (auto simp: newest_def)

lemma newest_above:
  assumes "0 < j" "j \<le> m" "home j = i"
  shows "j \<le> newest m i" "home (newest m i) = i"
  using assms unfolding newest_def home_def
  by (cases "j = m"; cases "even m"; auto simp: mod_2_eq_odd)+

lemma candidate_home: "candidate_page (token_of n) = home (Suc n)"
  by (simp add: token_of_candidate home_def)

lemma index_home: "0 < j \<Longrightarrow> page_index (token_of j) = home j"
  by (simp add: token_of_index home_def)

section \<open>Invariant\<close>

fun writer_copying :: "'c writer_pc \<Rightarrow> bool" where
  "writer_copying (WCopying v t n) = True"
| "writer_copying _ = False"

fun reader_page :: "'c reader_pc \<Rightarrow> nat option" where
  "reader_page (RCopying t xs) = Some (page_index t)"
| "reader_page _ = None"

text \<open>One page: its state says who owns it, and a published page holds its newest publication, which
  nobody has taken. \<open>ids\<close> are the numbers of the publications taken so far.\<close>

definition page_ok :: "nat \<Rightarrow> nat list \<Rightarrow> 'c list list \<Rightarrow> bool \<Rightarrow> nat option \<Rightarrow> 'c list double_page \<Rightarrow> nat \<Rightarrow> bool" where
  "page_ok L ids marked copying reading p i \<longleftrightarrow>
     length (dp_pages p ! i) = L \<and>
     (dp_state p ! i = PageWriting \<longleftrightarrow> copying \<and> i = home (Suc (length marked))) \<and>
     (dp_state p ! i = PageReading \<longleftrightarrow> reading = Some i) \<and>
     (dp_state p ! i = PagePublished \<longrightarrow>
        0 < newest (length marked) i \<and> newest (length marked) i \<notin> set ids \<and>
        dp_pages p ! i = marked ! (newest (length marked) i - 1))"

definition writer_ok :: "nat \<Rightarrow> nat \<Rightarrow> nat \<Rightarrow> 'c list list \<Rightarrow> 'c writer_pc \<Rightarrow> bool" where
  "writer_ok L n m pages w \<longleftrightarrow>
     (case w of
        WIdle \<Rightarrow> m = n
      | WLoaded v token \<Rightarrow> m = n \<and> token = token_of n \<and> length v = L
      | WRetry v token \<Rightarrow> m = n \<and> token = token_of n \<and> length v = L
      | WCopying v token k \<Rightarrow> m = n \<and> token = token_of n \<and> length v = L \<and> k \<le> L \<and>
          take k (pages ! home (Suc n)) = take k v
      | WMarked token \<Rightarrow> m = Suc n \<and> token = token_of n)"

text \<open>\<open>taken\<close> is the publication the reader is copying, if any.\<close>

definition reader_ok :: "nat \<Rightarrow> nat option \<Rightarrow> nat \<Rightarrow> 'c list list \<Rightarrow> 'c list list \<Rightarrow> 'c reader_pc \<Rightarrow> bool" where
  "reader_ok L taken n marked pages r \<longleftrightarrow>
     (case r of
        RIdle \<Rightarrow> taken = None
      | RLoaded token \<Rightarrow> taken = None \<and> (\<exists>j. 0 < j \<and> j \<le> n \<and> token = token_of j)
      | RReleased token \<Rightarrow> taken = None \<and> (\<exists>j. 0 < j \<and> j \<le> n \<and> token = token_of j)
      | RCopying token xs \<Rightarrow>
          (\<exists>j k. taken = Some k \<and> 0 < j \<and> j \<le> k \<and> home k = home j \<and> token = token_of j \<and> k \<le> length marked \<and>
             length xs \<le> L \<and> xs = take (length xs) (marked ! (k - 1)) \<and> pages ! home j = marked ! (k - 1)))"

definition delivered :: "'c list list \<Rightarrow> nat \<Rightarrow> u64 \<times> 'c list \<Rightarrow> bool" where
  "delivered marked k r \<longleftrightarrow> 0 < k \<and> k \<le> length marked \<and> snd r = marked ! (k - 1) \<and>
     (\<exists>j. 0 < j \<and> j \<le> k \<and> home j = home k \<and> fst r = of_nat (j mod 2 ^ 31))"

text \<open>Publications are taken at most once, and never overtaken by more than one.\<close>

definition nearly_ordered :: "nat list \<Rightarrow> bool" where
  "nearly_ordered ids \<longleftrightarrow> distinct ids \<and> (\<forall>a b. a < b \<and> b < length ids \<longrightarrow> ids ! a \<le> ids ! b + 1)"

definition with_taken :: "nat list \<Rightarrow> nat option \<Rightarrow> nat list" where
  "with_taken ids taken = ids @ (case taken of None \<Rightarrow> [] | Some k \<Rightarrow> [k])"

definition dual_ok :: "nat \<Rightarrow> nat list \<Rightarrow> nat option \<Rightarrow> 'c dual_page \<Rightarrow> bool" where
  "dual_ok L ids taken s \<longleftrightarrow>
     (let p = dc_page s; marked = dc_marked s; n = dc_accepted s
      in length (dp_pages p) = 2 \<and> length (dp_state p) = 2 \<and> dp_published p = token_of n \<and>
         (\<forall>v\<in>set marked. length v = L) \<and> (\<forall>i\<in>set (with_taken ids taken). i \<le> length marked) \<and>
         (\<forall>i<2. page_ok L (with_taken ids taken) marked (writer_copying (dc_writer s)) (reader_page (dc_reader s)) p i) \<and>
         writer_ok L n (length marked) (dp_pages p) (dc_writer s) \<and>
         reader_ok L taken n marked (dp_pages p) (dc_reader s) \<and>
         list_all2 (delivered marked) ids (dc_reads s) \<and> nearly_ordered (with_taken ids taken))"

definition dual_inv :: "nat \<Rightarrow> 'c dual_page \<Rightarrow> bool" where
  "dual_inv L s \<longleftrightarrow> (\<exists>ids taken. dual_ok L ids taken s)"

lemma dual_init_ok: "length initial = L \<Longrightarrow> dual_ok L [] None (dual_init initial)"
  by (simp add: dual_ok_def Let_def page_ok_def writer_ok_def reader_ok_def with_taken_def dual_init_def
      double_page_new_def token_of_def nearly_ordered_def less_2_cases_iff)

lemma delivered_mono: "delivered marked k r \<Longrightarrow> delivered (marked @ later) k r"
  by (auto simp: delivered_def nth_append)

lemma nearly_ordered_snoc:
  assumes "nearly_ordered ids" "k \<notin> set ids" "\<forall>i\<in>set ids. i \<le> k + 1"
  shows "nearly_ordered (ids @ [k])"
  using assms by (auto simp: nearly_ordered_def nth_append less_Suc_eq)

lemma writer_pages_frame: "pages ! home (Suc n) = pages' ! home (Suc n) \<Longrightarrow> writer_ok L n m pages w = writer_ok L n m pages' w"
  by (simp add: writer_ok_def cong: writer_pc.case_cong)

text \<open>The page being written is not the page being read.\<close>

lemma reader_apart:
  assumes "\<forall>i<2. page_ok L ids marked True (reader_page r) p i" "r = RCopying t xs"
  shows "page_index t \<noteq> home (Suc (length marked))"
proof
  assume "page_index t = home (Suc (length marked))"
  then have "reader_page r = Some (home (Suc (length marked)))" using assms(2) by simp
  then show False using assms(1) [rule_format, OF home_less [of "Suc (length marked)"]] by (auto simp: page_ok_def)
qed

lemma reader_pages_frame:
  assumes "reader_ok L taken n marked pages r"
    "\<And>j xs. r = RCopying (token_of j) xs \<Longrightarrow> 0 < j \<Longrightarrow> pages' ! home j = pages ! home j"
  shows "reader_ok L taken n marked pages' r"
proof (cases r)
  case (RCopying t xs)
  then obtain j k where "taken = Some k" "0 < j" "j \<le> k" "home k = home j" "t = token_of j" "k \<le> length marked"
      "length xs \<le> L" "xs = take (length xs) (marked ! (k - 1))" "pages ! home j = marked ! (k - 1)"
    using assms(1) by (auto simp: reader_ok_def)
  moreover from this have "pages' ! home j = pages ! home j" using assms(2) RCopying by blast
  ultimately show ?thesis using RCopying unfolding reader_ok_def by (auto intro!: exI [of _ j])
qed (use assms(1) in \<open>auto simp: reader_ok_def\<close>)

lemma nth_before: "0 < j \<Longrightarrow> j \<le> k \<Longrightarrow> k \<le> length xs \<Longrightarrow> (xs @ ys) ! (k - Suc 0) = xs ! (k - Suc 0)"
  by (rule nth_append_left) arith

text \<open>The writer.\<close>

lemma start_publish_ok:
  assumes "dual_ok L ids taken s" "dc_writer s = WIdle" "length v = L"
  shows "dual_ok L ids taken (s\<lparr>dc_writer := WLoaded v (dp_published (dc_page s))\<rparr>)"
  using assms by (auto simp: dual_ok_def Let_def writer_ok_def)

lemma writer_takes:
  assumes ok: "dual_ok L ids taken s" and w: "dc_writer s = WLoaded v t \<or> dc_writer s = WRetry v t"
    and e: "expected = PageFree \<or> expected = PagePublished"
    and cas: "page_cas (dc_page s) (candidate_page t) expected PageWriting = (p, True)"
  shows "dual_ok L ids taken (s\<lparr>dc_page := p, dc_writer := WCopying v t 0\<rparr>)"
proof -
  note h = ok [unfolded dual_ok_def Let_def]
  let ?i = "home (Suc (dc_accepted s))"
  have t: "length (dc_marked s) = dc_accepted s" "t = token_of (dc_accepted s)" "length v = L"
      "\<not> writer_copying (dc_writer s)"
    using h w by (auto simp: writer_ok_def)
  have p: "p = (dc_page s)\<lparr>dp_state := (dp_state (dc_page s))[?i := PageWriting]\<rparr>"
      "dp_state (dc_page s) ! ?i = expected"
    using cas by (auto simp: page_cas_def t(2) candidate_home split: if_splits)
  have "page_ok L (with_taken ids taken) (dc_marked s) True (reader_page (dc_reader s)) p i" if "i < 2" for i
    using h t that p(2) e unfolding p(1) by (auto simp: page_ok_def nth_list_update)
  then show ?thesis
    using h t by (simp add: dual_ok_def Let_def p(1) writer_ok_def)
qed

lemma writer_copies:
  assumes ok: "dual_ok L ids taken s" and w: "dc_writer s = WCopying v t n" and n: "n < length v"
  shows "dual_ok L ids taken (writer_move s)"
proof -
  note h = ok [unfolded dual_ok_def Let_def]
  let ?i = "home (Suc (dc_accepted s))"
  let ?p = "(dc_page s)\<lparr>dp_pages := (dp_pages (dc_page s))[?i := (dp_pages (dc_page s) ! ?i)[n := v ! n]]\<rparr>"
  have t: "length (dc_marked s) = dc_accepted s" "t = token_of (dc_accepted s)" "length v = L"
      "take n (dp_pages (dc_page s) ! ?i) = take n v"
    using h w by (auto simp: writer_ok_def)
  have move: "writer_move s = s\<lparr>dc_page := ?p, dc_writer := WCopying v t (Suc n)\<rparr>"
    using n by (simp add: writer_move_def w t(2) candidate_home Let_def)
  have old: "page_ok L (with_taken ids taken) (dc_marked s) True (reader_page (dc_reader s)) (dc_page s) i" if "i < 2" for i
    using h w that by auto
  then have len: "length (dp_pages (dc_page s) ! ?i) = L" using home_less by (auto simp: page_ok_def)
  have pages: "page_ok L (with_taken ids taken) (dc_marked s) True (reader_page (dc_reader s)) ?p i" if "i < 2" for i
    using old [OF that] h t(1) that by (auto simp: page_ok_def nth_list_update)
  have "take (Suc n) ((dp_pages (dc_page s) ! ?i)[n := v ! n]) = take (Suc n) v"
    using n t(3,4) len by (simp add: take_Suc_conv_app_nth)
  then have "writer_ok L (dc_accepted s) (length (dc_marked s)) (dp_pages ?p) (WCopying v t (Suc n))"
    using t n h by (simp add: writer_ok_def)
  moreover have "reader_ok L taken (dc_accepted s) (dc_marked s) (dp_pages ?p) (dc_reader s)"
  proof -
    have apart: "home j \<noteq> ?i" if "dc_reader s = RCopying (token_of j) xs" "0 < j" for j xs
    proof -
      have "\<forall>i<2. page_ok L (with_taken ids taken) (dc_marked s) True (reader_page (dc_reader s)) (dc_page s) i"
        using old by blast
      from reader_apart [OF this that(1)] show ?thesis using t(1) index_home [OF that(2)] by simp
    qed
    have "reader_ok L taken (dc_accepted s) (dc_marked s) (dp_pages (dc_page s)) (dc_reader s)" using h by blast
    then show ?thesis by (rule reader_pages_frame) (use apart in \<open>simp add: not_sym\<close>)
  qed
  ultimately show ?thesis using h pages unfolding move dual_ok_def Let_def by simp
qed

lemma writer_marks:
  assumes ok: "dual_ok L ids taken s" and w: "dc_writer s = WCopying v t n" and n: "\<not> n < length v"
  shows "dual_ok L ids taken (writer_move s)"
proof -
  note h = ok [unfolded dual_ok_def Let_def]
  let ?i = "home (Suc (dc_accepted s))" and ?marked = "dc_marked s @ [v]"
  let ?p = "(dc_page s)\<lparr>dp_state := (dp_state (dc_page s))[?i := PagePublished]\<rparr>"
  have t: "length (dc_marked s) = dc_accepted s" "t = token_of (dc_accepted s)" "length v = L" "n = L"
      "take n (dp_pages (dc_page s) ! ?i) = take n v"
    using h w n by (auto simp: writer_ok_def)
  have move: "writer_move s = s\<lparr>dc_page := ?p, dc_writer := WMarked t, dc_marked := ?marked\<rparr>"
    using n by (simp add: writer_move_def w t(2) candidate_home Let_def)
  have old: "page_ok L (with_taken ids taken) (dc_marked s) True (reader_page (dc_reader s)) (dc_page s) i" if "i < 2" for i
    using h w that by auto
  have new: "dp_pages (dc_page s) ! ?i = v"
    using t old [OF home_less] by (simp add: page_ok_def)
  have pages: "page_ok L (with_taken ids taken) ?marked False (reader_page (dc_reader s)) ?p i" if i: "i < 2" for i
  proof (cases "i = ?i")
    case True
    have "Suc (dc_accepted s) \<notin> set (with_taken ids taken)" using h t(1) by auto
    moreover have "dp_state (dc_page s) ! ?i = PageWriting" "reader_page (dc_reader s) \<noteq> Some ?i"
      using old [OF home_less, of "Suc (dc_accepted s)"] t(1) by (auto simp: page_ok_def)
    moreover have "length (dp_state (dc_page s)) = 2" using h by blast
    ultimately show ?thesis
      using True new t(1,3) by (simp add: page_ok_def newest_home nth_append)
  next
    case False
    have "dp_state (dc_page s) ! i = PagePublished \<Longrightarrow> 0 < dc_accepted s"
      using old [OF i] t(1) newest_bounds(1) [of "dc_accepted s" i] by (simp add: page_ok_def)
    then show ?thesis
      using False old [OF i] h t(1) newest_other [OF i False]
      by (auto simp: page_ok_def newest_home nth_append)
  qed
  have "list_all2 (delivered ?marked) ids (dc_reads s)"
    using h by (auto elim: list_all2_mono delivered_mono)
  moreover have "reader_ok L taken (dc_accepted s) ?marked (dp_pages ?p) (dc_reader s)"
    using h by (auto simp: reader_ok_def nth_before split: reader_pc.splits)
  ultimately show ?thesis
    using h pages t unfolding move dual_ok_def Let_def by (auto simp: writer_ok_def)
qed

lemma writer_publishes:
  assumes ok: "dual_ok L ids taken s" and w: "dc_writer s = WMarked t"
  shows "dual_ok L ids taken (writer_move s)"
proof -
  note h = ok [unfolded dual_ok_def Let_def]
  have t: "length (dc_marked s) = Suc (dc_accepted s)" "t = token_of (dc_accepted s)"
    using h w by (auto simp: writer_ok_def)
  have "reader_ok L taken (Suc (dc_accepted s)) (dc_marked s) (dp_pages (dc_page s)) (dc_reader s)"
    using h by (auto simp: reader_ok_def split: reader_pc.splits intro: le_SucI)
  moreover have "page_ok L (with_taken ids taken) (dc_marked s) False (reader_page (dc_reader s))
      ((dc_page s)\<lparr>dp_published := tok\<rparr>) i" if "i < 2" for i tok
    using h w that by (auto simp: page_ok_def)
  ultimately show ?thesis
    using h t by (simp add: dual_ok_def Let_def writer_move_def w next_token_of writer_ok_def)
qed

lemma writer_move_ok:
  assumes ok: "dual_ok L ids taken s"
  shows "dual_ok L ids taken (writer_move s)"
proof (cases "dc_writer s")
  case WIdle
  then show ?thesis using ok by (simp add: writer_move_def)
next
  case (WLoaded v t)
  obtain p q where c: "page_cas (dc_page s) (candidate_page t) PageFree PageWriting = (p, q)" by fastforce
  show ?thesis
  proof (cases q)
    case True
    then show ?thesis using writer_takes [OF ok, of v t PageFree] c WLoaded by (simp add: writer_move_def)
  next
    case False
    then have "p = dc_page s" using c by (auto simp: page_cas_def split: if_splits)
    then show ?thesis
      using ok WLoaded c False by (auto simp: writer_move_def dual_ok_def Let_def writer_ok_def)
  qed
next
  case (WRetry v t)
  obtain p q where c: "page_cas (dc_page s) (candidate_page t) PagePublished PageWriting = (p, q)" by fastforce
  show ?thesis
  proof (cases q)
    case True
    then show ?thesis using writer_takes [OF ok, of v t PagePublished] c WRetry by (simp add: writer_move_def)
  next
    case False
    then show ?thesis
      using ok WRetry c by (auto simp: writer_move_def dual_ok_def Let_def writer_ok_def)
  qed
next
  case (WCopying v t n)
  then show ?thesis using writer_copies [OF ok] writer_marks [OF ok] by blast
next
  case (WMarked t)
  then show ?thesis by (rule writer_publishes [OF ok])
qed

text \<open>The reader.\<close>

lemma newest_distinct: "i < 2 \<Longrightarrow> i' < 2 \<Longrightarrow> i \<noteq> i' \<Longrightarrow> 0 < m \<Longrightarrow> newest m i \<noteq> newest m i'"
  unfolding newest_def home_def by (cases "even m") (auto simp: mod_2_eq_odd less_2_cases_iff)

lemma with_taken_simps [simp]: "with_taken ids None = ids" "with_taken ids (Some k) = ids @ [k]"
  by (simp_all add: with_taken_def)

lemma reader_loads:
  assumes ok: "dual_ok L ids taken s" and r: "dc_reader s = RIdle"
  shows "dual_ok L ids taken (reader_move s)"
proof (cases "dp_published (dc_page s) = 0")
  case True
  then show ?thesis using ok by (simp add: reader_move_def r)
next
  case False
  then have "0 < dc_accepted s" using ok by (intro gr0I) (simp add: dual_ok_def Let_def token_of_def)
  then show ?thesis
    using ok False by (auto simp: reader_move_def r dual_ok_def Let_def reader_ok_def)
qed

lemma reader_releases:
  assumes ok: "dual_ok L ids taken s" and r: "dc_reader s = RLoaded t"
  shows "dual_ok L ids taken (reader_move s)"
proof -
  note h = ok [unfolded dual_ok_def Let_def]
  let ?p = "fst (page_cas (dc_page s) (1 - page_index t) PagePublished PageFree)"
  have p: "dp_pages ?p = dp_pages (dc_page s)" "dp_published ?p = dp_published (dc_page s)"
      "length (dp_state ?p) = length (dp_state (dc_page s))"
    by (simp_all add: page_cas_def)
  have "page_ok L ids (dc_marked s) (writer_copying (dc_writer s)) None ?p i" if "i < 2" for i
    using h r that by (auto simp: page_ok_def page_cas_def nth_list_update reader_ok_def)
  then show ?thesis
    using h r p by (auto simp: reader_move_def dual_ok_def Let_def reader_ok_def)
qed

lemma reader_takes:
  assumes ok: "dual_ok L ids taken s" and r: "dc_reader s = RReleased t"
  shows "\<exists>taken'. dual_ok L ids taken' (reader_move s)"
proof -
  note h = ok [unfolded dual_ok_def Let_def]
  obtain j where j: "taken = None" "0 < j" "j \<le> dc_accepted s" "t = token_of j"
    using h r by (auto simp: reader_ok_def)
  let ?i = "home j" and ?m = "length (dc_marked s)"
  have m: "dc_accepted s \<le> ?m" using h by (cases "dc_writer s") (auto simp: writer_ok_def)
  show ?thesis
  proof (cases "dp_state (dc_page s) ! ?i = PagePublished")
    case False
    then have "reader_move s = s\<lparr>dc_reader := RIdle\<rparr>"
      by (simp add: reader_move_def r j index_home page_cas_def)
    then show ?thesis
      using h r j by (intro exI [of _ None]) (auto simp: dual_ok_def Let_def reader_ok_def)
  next
    case True
    let ?k = "newest ?m ?i" and ?p = "(dc_page s)\<lparr>dp_state := (dp_state (dc_page s))[?i := PageReading]\<rparr>"
    have move: "reader_move s = s\<lparr>dc_page := ?p, dc_reader := RCopying t []\<rparr>"
      using True by (simp add: reader_move_def r j index_home page_cas_def)
    have old: "page_ok L ids (dc_marked s) (writer_copying (dc_writer s)) None (dc_page s) i" if "i < 2" for i
      using h r j(1) that by auto
    have k: "0 < ?k" "?k \<notin> set ids" "dp_pages (dc_page s) ! ?i = dc_marked s ! (?k - 1)"
      using old [OF home_less, of j] True by (auto simp: page_ok_def)
    have above: "j \<le> ?k" "home ?k = ?i" "?k \<le> ?m" "?m \<le> ?k + 1"
      using newest_above [of j ?m ?i] newest_bounds [of ?m ?i] j m by auto
    have pages: "page_ok L (ids @ [?k]) (dc_marked s) (writer_copying (dc_writer s)) (Some ?i) ?p i" if i: "i < 2" for i
    proof (cases "i = ?i")
      case True
      have "dp_state (dc_page s) ! ?i = PagePublished" by fact
      then show ?thesis using True old [OF i] h i by (auto simp: page_ok_def)
    next
      case False
      have "0 < ?m" using k(1) above(3) by linarith
      then show ?thesis
        using False old [OF i] i newest_distinct [OF i home_less False] by (auto simp: page_ok_def)
    qed
    have "nearly_ordered (ids @ [?k])"
      using h j(1) k(2) above(4) by (intro nearly_ordered_snoc) fastforce+
    moreover have "reader_ok L (Some ?k) (dc_accepted s) (dc_marked s) (dp_pages ?p) (RCopying t [])"
      using j k above unfolding reader_ok_def by (auto intro!: exI [of _ j])
    ultimately show ?thesis
      using h j pages above(3) unfolding move
      by (intro exI [of _ "Some ?k"]) (auto simp: dual_ok_def Let_def index_home)
  qed
qed

lemma reader_copies:
  assumes ok: "dual_ok L ids taken s" and r: "dc_reader s = RCopying t xs"
  shows "\<exists>ids' taken'. dual_ok L ids' taken' (reader_move s)"
proof -
  note h = ok [unfolded dual_ok_def Let_def]
  obtain j k where j: "taken = Some k" "0 < j" "j \<le> k" "home k = home j" "t = token_of j" "k \<le> length (dc_marked s)"
      "length xs \<le> L" "xs = take (length xs) (dc_marked s ! (k - 1))"
      "dp_pages (dc_page s) ! home j = dc_marked s ! (k - 1)"
    using h r by (auto simp: reader_ok_def)
  have old: "page_ok L (ids @ [k]) (dc_marked s) (writer_copying (dc_writer s)) (Some (home j)) (dc_page s) i" if "i < 2" for i
    using h r j that index_home [OF j(2)] by auto
  have len: "length (dc_marked s ! (k - 1)) = L" using old [OF home_less, of j] j(9) by (simp add: page_ok_def)
  show ?thesis
  proof (cases "length xs < L")
    case True
    have move: "reader_move s = s\<lparr>dc_reader := RCopying t (xs @ [dc_marked s ! (k - 1) ! length xs])\<rparr>"
      using True len by (simp add: reader_move_def r j(2,5,9) index_home Let_def)
    have "xs @ [dc_marked s ! (k - 1) ! length xs] = take (Suc (length xs)) (dc_marked s ! (k - 1))"
      using j(8) True len by (metis take_Suc_conv_app_nth)
    then have "reader_ok L taken (dc_accepted s) (dc_marked s) (dp_pages (dc_page s)) (RCopying t (xs @ [dc_marked s ! (k - 1) ! length xs]))"
      using j True len unfolding reader_ok_def by (auto intro!: exI [of _ j])
    then show ?thesis
      using h r unfolding move by (intro exI [of _ ids] exI [of _ taken]) (simp add: dual_ok_def Let_def)
  next
    case False
    let ?p = "(dc_page s)\<lparr>dp_state := (dp_state (dc_page s))[home j := PageFree]\<rparr>"
    have xs: "xs = dc_marked s ! (k - 1)" using False j(7,8) len by simp
    have move: "reader_move s = s\<lparr>dc_page := ?p, dc_reader := RIdle, dc_reads := dc_reads s @ [(ucast (drop_bit 1 t), xs)]\<rparr>"
      using False len by (simp add: reader_move_def r j(2,5,9) index_home Let_def)
    have pages: "page_ok L (ids @ [k]) (dc_marked s) (writer_copying (dc_writer s)) None ?p i" if "i < 2" for i
      using old [OF that] h that by (auto simp: page_ok_def nth_list_update)
    have "delivered (dc_marked s) k (ucast (drop_bit 1 t), xs)"
      using j xs token_sequence_word [OF j(2)] by (auto simp: delivered_def)
    then have "list_all2 (delivered (dc_marked s)) (ids @ [k]) (dc_reads s @ [(ucast (drop_bit 1 t), xs)])"
      using h by (intro list_all2_appendI) auto
    then show ?thesis
      using h j(1) pages unfolding move
      by (intro exI [of _ "ids @ [k]"] exI [of _ None]) (auto simp: dual_ok_def Let_def reader_ok_def)
  qed
qed

lemma reader_move_ok: "dual_ok L ids taken s \<Longrightarrow> dual_inv L (reader_move s)"
  using reader_loads reader_releases reader_takes reader_copies
  by (cases "dc_reader s") (fastforce simp: dual_inv_def)+

interpretation dual: step_system "dual_move L" "dual_inv L"
proof
  show "dual_inv L (dual_move L s m)" if "dual_inv L s" for s :: "'c dual_page" and m
    using that start_publish_ok [of L _ _ s] writer_move_ok [of L _ _ s] reader_move_ok [of L _ _ s]
    by (cases m) (fastforce simp: dual_move_def dual_inv_def)+
qed

section \<open>What a reader can see\<close>

text \<open>Only values handed to \<open>publish\<close> are ever marked.\<close>

lemma marked_values:
  "set (dc_marked (foldl (dual_move L) (dual_init initial) moves)) \<subseteq> {v. StartPublish v \<in> set moves}"
proof -
  let ?vals = "\<lambda>s. set (dc_marked s) \<union> (case dc_writer s of WLoaded v _ \<Rightarrow> {v} | WRetry v _ \<Rightarrow> {v} | WCopying v _ _ \<Rightarrow> {v} | _ \<Rightarrow> {})"
  have step: "?vals (dual_move L s m) \<subseteq> ?vals s \<union> {v. m = StartPublish v}" for s :: "'a dual_page" and m
    by (cases m; cases "dc_writer s"; cases "dc_reader s")
      (auto simp: dual_move_def writer_move_def reader_move_def Let_def split: prod.splits if_splits)
  have "?vals (foldl (dual_move L) (dual_init initial) moves) \<subseteq> {v. StartPublish v \<in> set moves}"
  proof (induction moves rule: rev_induct)
    case Nil
    then show ?case by (simp add: dual_init_def)
  next
    case (snoc m moves)
    then show ?case using step [of "foldl (dual_move L) (dual_init initial) moves" m] by fastforce
  qed
  then show ?thesis by blast
qed

lemma dual_run_ok:
  assumes "length initial = L" "s = foldl (dual_move L) (dual_init initial) moves"
  obtains ids taken where "dual_ok L ids taken s"
proof -
  have "dual_inv L (dual_init initial)" using dual_init_ok [OF assms(1)] by (auto simp: dual_inv_def)
  then have "dual_inv L s" unfolding assms(2) by (rule dual.run_invar)
  then show thesis using that by (auto simp: dual_inv_def)
qed

lemma dual_reads:
  assumes "length initial = L" "s = foldl (dual_move L) (dual_init initial) moves"
  shows "\<exists>ids. list_all2 (delivered (dc_marked s)) ids (dc_reads s) \<and> nearly_ordered ids"
proof -
  obtain ids taken where ok: "dual_ok L ids taken s" using dual_run_ok [OF assms] .
  then have "nearly_ordered ids"
    unfolding dual_ok_def Let_def nearly_ordered_def with_taken_def by (auto simp: nth_append split: if_splits)
  with ok show ?thesis unfolding dual_ok_def Let_def by blast
qed

text \<open>
  C12: However the steps of one writer and one reader interleave (each load, store and compare-exchange,
  and each cell of a copy, is a step of its own), a snapshot the reader returns is one whole value that was
  given to \<open>publish\<close>, never a mixture of two; no publication is returned twice, and the order of the
  snapshots is that of their publications up to an exchange of neighbours. Writer and reader never copy the same page
  at the same time.
\<close>

theorem page_snapshots_untorn:
  assumes "length initial = L" "s = foldl (dual_move L) (dual_init initial) moves"
  shows "(\<exists>ids. list_all2 (delivered (dc_marked s)) ids (dc_reads s) \<and> distinct ids \<and>
      (\<forall>a b. a < b \<and> b < length ids \<longrightarrow> ids ! a \<le> ids ! b + 1)) \<and>
    set (dc_marked s) \<subseteq> {v. StartPublish v \<in> set moves} \<and>
    \<not> (\<exists>v t n t' xs. dc_writer s = WCopying v t n \<and> dc_reader s = RCopying t' xs \<and> candidate_page t = page_index t')"
proof (intro conjI)
  show "\<exists>ids. list_all2 (delivered (dc_marked s)) ids (dc_reads s) \<and> distinct ids \<and>
      (\<forall>a b. a < b \<and> b < length ids \<longrightarrow> ids ! a \<le> ids ! b + 1)"
    using dual_reads [OF assms] unfolding nearly_ordered_def .
  show "set (dc_marked s) \<subseteq> {v. StartPublish v \<in> set moves}" unfolding assms(2) by (rule marked_values)
  show "\<not> (\<exists>v t n t' xs. dc_writer s = WCopying v t n \<and> dc_reader s = RCopying t' xs \<and> candidate_page t = page_index t')"
  proof clarify
    fix v t n t' xs
    assume w: "dc_writer s = WCopying v t n" "dc_reader s = RCopying t' xs" "candidate_page t = page_index t'"
    obtain ids taken where "dual_ok L ids taken s" using dual_run_ok [OF assms] .
    note h = this [unfolded dual_ok_def Let_def]
    then have "\<forall>i<2. page_ok L (with_taken ids taken) (dc_marked s) True (reader_page (dc_reader s)) (dc_page s) i"
      using w(1) by auto
    from reader_apart [OF this w(2)] show False
      using h w by (auto simp: writer_ok_def candidate_home)
  qed
qed

text \<open>The steps of one publication of a page of one cell, and of one read.\<close>

definition publication :: "'c \<Rightarrow> 'c page_move list" where
  "publication v = [StartPublish [v], WriterMoves, WriterMoves, WriterMoves, WriterMoves]"

definition complete_read :: "'c page_move list" where
  "complete_read = [ReaderMoves, ReaderMoves, ReaderMoves, ReaderMoves, ReaderMoves]"

text \<open>A read between the last two stores of the second publication; and a read that starts after the first
  publication and goes on before the last store of the third.\<close>

definition lost_update :: "nat page_move list" where
  "lost_update = publication 10 @ [StartPublish [20], WriterMoves, WriterMoves, WriterMoves] @ complete_read @
     [WriterMoves, ReaderMoves, ReaderMoves, ReaderMoves]"

definition swapped_updates :: "nat page_move list" where
  "swapped_updates = publication 10 @ [ReaderMoves, ReaderMoves] @ publication 20 @
     [StartPublish [30], WriterMoves, WriterMoves, WriterMoves, WriterMoves, ReaderMoves, ReaderMoves, ReaderMoves] @
     complete_read @ [WriterMoves]"

lemma token_evals:
  "candidate_page 0 = 0" "candidate_page 2 = 1" "candidate_page 5 = 0" "page_index 2 = 0" "page_index 5 = 1"
  "next_token 0 = 2" "next_token 2 = 5" "next_token 5 = 6" "drop_bit (Suc 0) (2 :: u32) = 1" "drop_bit (Suc 0) (5 :: u32) = 2"
  by (simp_all add: candidate_page_def page_index_def next_token_def next_sequence_def)

lemmas schedule_defs = publication_def complete_read_def dual_init_def double_page_new_def dual_move_def writer_move_def
  reader_move_def page_cas_def token_evals Let_def

lemma swapped_reads: "dc_reads (foldl (dual_move 1) (dual_init [0]) swapped_updates) = [(1, [30]), (2, [20])]"
  by (simp add: swapped_updates_def schedule_defs)

lemma page_snapshots_untorn_witness:
  "\<exists>s. s = foldl (dual_move 1) (dual_init [0]) swapped_updates \<and> dc_reads s = [(1, [30]), (2, [20])] \<and>
     set (dc_marked s) \<subseteq> {v. StartPublish v \<in> set swapped_updates}"
  using page_snapshots_untorn [of "[0]" 1 _ swapped_updates, OF _ refl] swapped_reads by simp

text \<open>
  The channel can lose its newest value and swap two. The page is marked published before the token
  that names it is stored. A reader that still holds the old token takes the other page to be stale and
  frees it: then both publications have been accepted, the channel is at rest and empty, and the second value can
  never be read. With a read that spans two publications the value 30 is even returned, under the sequence
  number of the first publication, before the older value 20.
\<close>

lemma updates_swapped_and_lost:
  "(\<exists>s. s = foldl (dual_move 1) (dual_init [0]) lost_update \<and> dc_accepted s = 2 \<and> dc_writer s = WIdle \<and>
     dc_reader s = RIdle \<and> dc_reads s = [(1, [10])] \<and> dp_state (dc_page s) = [PageFree, PageFree]) \<and>
   dc_reads (foldl (dual_move 1) (dual_init [0]) swapped_updates) = [(1, [30]), (2, [20])]"
proof
  show "\<exists>s. s = foldl (dual_move 1) (dual_init [0]) lost_update \<and> dc_accepted s = 2 \<and> dc_writer s = WIdle \<and>
     dc_reader s = RIdle \<and> dc_reads s = [(1, [10])] \<and> dp_state (dc_page s) = [PageFree, PageFree]"
    by (simp add: lost_update_def schedule_defs)
qed (rule swapped_reads)

end
