(* ===== verification/Command_Channel.thy ===== *)
theory Command_Channel
  imports Process_Buffer Double_Page_Concurrent
begin

text \<open>
  Commands through the process buffer while writer and reader run concurrently: the two-page channel of
  \<open>Double_Page_Concurrent\<close> below the admission of \<open>read_command\<close>, whose replay floor belongs to the
  reader.
\<close>

fun admit_run :: "u64 \<Rightarrow> u64 \<Rightarrow> (u64 \<times> (u64 \<times> command_page) option) list \<Rightarrow> (command_read_error, command_snapshot) result list" where
  "admit_run boot floor [] = []"
| "admit_run boot floor ((now, page) # rest) =
     (case admit_command boot now floor page of (floor1, r) \<Rightarrow> r # admit_run boot floor1 rest)"

definition accepted_sequences :: "(command_read_error, command_snapshot) result list \<Rightarrow> u64 list" where
  "accepted_sequences rs = map cm_sequence (List.map_filter (\<lambda>r. case r of Inl _ \<Rightarrow> None | Inr s \<Rightarrow> Some (cs_command s)) rs)"

definition command_current :: "u64 \<Rightarrow> u64 \<Rightarrow> command_page \<Rightarrow> bool" where
  "command_current boot now c \<longleftrightarrow> cm_boot_id c = boot \<and> command_well_formed c \<and> now < cm_deadline_ns c \<and>
     (cm_motion_enable_request c \<noteq> 0 \<longrightarrow> now < cm_permit_expires_at_ns c)"

lemma accepted_sequences_simps [simp]:
  "accepted_sequences [] = []" "accepted_sequences (Inl e # rs) = accepted_sequences rs"
  "accepted_sequences (Inr s # rs) = cm_sequence (cs_command s) # accepted_sequences rs"
  by (simp_all add: accepted_sequences_def List.map_filter_simps)

lemma admit_command_floor: "admit_command boot now floor page = (floor1, r) \<Longrightarrow> floor \<le> floor1"
  by (auto simp: admit_command_def split: option.splits if_splits)

lemma admit_command_Ok:
  assumes "admit_command boot now floor page = (floor1, Ok s)"
  shows "floor < cm_sequence (cs_command s)" "floor1 = cm_sequence (cs_command s)"
    "command_current boot now (cs_command s)" "page = Some (cs_publish_sequence s, cs_command s)"
  using assms by (auto simp: admit_command_def command_current_def not_le split: option.splits if_splits)

lemma admit_run_increasing:
  "sorted_wrt (<) (accepted_sequences (admit_run boot floor xs)) \<and> (\<forall>q\<in>set (accepted_sequences (admit_run boot floor xs)). floor < q)"
proof (induction boot floor xs rule: admit_run.induct)
  case (2 boot floor now page rest)
  obtain floor1 r where a: "admit_command boot now floor page = (floor1, r)" by fastforce
  note IH = "2.IH" [OF a [symmetric]]
  show ?case
  proof (cases r)
    case (Inl e)
    then show ?thesis using IH a admit_command_floor [OF a] by (auto intro: le_less_trans)
  next
    case (Inr s)
    note ok = admit_command_Ok [of boot now floor page floor1 s]
    show ?thesis using IH a Inr ok by (auto intro: less_trans)
  qed
qed simp

lemma admit_run_nth:
  assumes "i < length xs" "admit_run boot floor xs ! i = Ok s"
  shows "command_current boot (fst (xs ! i)) (cs_command s) \<and> snd (xs ! i) = Some (cs_publish_sequence s, cs_command s)"
  using assms
proof (induction boot floor xs arbitrary: i rule: admit_run.induct)
  case (2 boot floor now page rest)
  obtain floor1 r where a: "admit_command boot now floor page = (floor1, r)" by fastforce
  then have run: "admit_run boot floor ((now, page) # rest) = r # admit_run boot floor1 rest" by simp
  show ?case
  proof (cases i)
    case 0
    then have "r = Ok s" using "2.prems"(2) run by simp
    then show ?thesis using admit_command_Ok(3,4) [of boot now floor page floor1 s] a 0 by simp
  next
    case (Suc k)
    then have "k < length rest" "admit_run boot floor1 rest ! k = Ok s" using "2.prems" run by simp_all
    then show ?thesis using "2.IH" [OF a [symmetric], of k] Suc by simp
  qed
qed simp

lemma length_admit_run [simp]: "length (admit_run boot floor xs) = length xs"
  by (induction boot floor xs rule: admit_run.induct) (simp_all split: prod.splits)

text \<open>What the reader gets when it reads the commands of a schedule at the times \<open>nows\<close>. \<open>decode\<close> is the
  command that the cells of a page represent.\<close>

definition admitted :: "('c list \<Rightarrow> command_page) \<Rightarrow> u64 \<Rightarrow> u64 list \<Rightarrow> 'c dual_page \<Rightarrow> (command_read_error, command_snapshot) result list" where
  "admitted decode boot nows s = admit_run boot 0 (zip nows (map (\<lambda>(n, cells). Some (n, decode cells)) (dc_reads s)))"

text \<open>
  C13: Whatever the interleaving of writer and reader, and although the channel may exchange neighbouring publications,
  the commands that \<open>read_command\<close> admits have strictly increasing sequence numbers; each of them is a
  command that was given to the channel, is well formed, belongs to the current boot and had not expired when it was read.
\<close>

theorem commands_admitted_in_order:
  assumes "length initial = L" "s = foldl (dual_move L) (dual_init initial) moves" "length nows = length (dc_reads s)"
  shows "sorted_wrt (<) (accepted_sequences (admitted decode boot nows s)) \<and>
    (\<forall>i < length (dc_reads s). \<forall>snapshot. admitted decode boot nows s ! i = Ok snapshot \<longrightarrow>
       command_current boot (nows ! i) (cs_command snapshot) \<and>
       (\<exists>v. StartPublish v \<in> set moves \<and> cs_command snapshot = decode v))"
proof (intro conjI allI impI)
  let ?xs = "zip nows (map (\<lambda>(n, cells). Some (n, decode cells)) (dc_reads s))"
  show "sorted_wrt (<) (accepted_sequences (admitted decode boot nows s))"
    unfolding admitted_def using admit_run_increasing by blast
  fix i snapshot
  assume i: "i < length (dc_reads s)" and ok: "admitted decode boot nows s ! i = Ok snapshot"
  then have a: "command_current boot (nows ! i) (cs_command snapshot)"
      "cs_command snapshot = decode (snd (dc_reads s ! i))"
    using admit_run_nth [of i ?xs boot 0 snapshot] assms(3) by (auto simp: admitted_def split: prod.splits)
  show "command_current boot (nows ! i) (cs_command snapshot)" by (rule a(1))
  obtain ids where "list_all2 (delivered (dc_marked s)) ids (dc_reads s)"
    using dual_reads [OF assms(1,2)] by blast
  then have "delivered (dc_marked s) (ids ! i) (dc_reads s ! i)" using i by (simp add: list_all2_conv_all_nth)
  then have "snd (dc_reads s ! i) \<in> set (dc_marked s)" by (auto simp: delivered_def)
  then show "\<exists>v. StartPublish v \<in> set moves \<and> cs_command snapshot = decode v"
    using marked_values [of L initial moves] a(2) assms(2) by blast
qed

text \<open>Two commands that the channel delivers in the wrong order.\<close>

definition sample_command :: "nat list \<Rightarrow> command_page" where
  "sample_command cells = (command_page_new 0 0 1)\<lparr>cm_sequence := of_nat (hd cells), cm_deadline_ns := 100,
     cm_requested_mode := PbCsp\<rparr>"

lemma commands_admitted_in_order_witness:
  "\<exists>s. s = foldl (dual_move 1) (dual_init [0]) swapped_updates \<and>
     accepted_sequences (admitted sample_command 1 [5, 6] s) = [30] \<and>
     admitted sample_command 1 [5, 6] s ! 1 = Err CrReplayed \<and>
     sorted_wrt (<) (accepted_sequences (admitted sample_command 1 [5, 6] s))"
proof -
  define s where "s = foldl (dual_move 1) (dual_init [0]) swapped_updates"
  have reads: "dc_reads s = [(1, [30]), (2, [20])]" unfolding s_def by (rule swapped_reads)
  have wf: "command_well_formed (sample_command [30])"
    by (simp add: sample_command_def command_well_formed_def command_page_new_def)
  have res: "admitted sample_command 1 [5, 6] s =
      [Ok \<lparr>cs_publish_sequence = 1, cs_command = sample_command [30]\<rparr>, Err CrReplayed]"
    using wf by (simp add: admitted_def reads admit_command_def)
      (simp add: sample_command_def command_page_new_def)
  have "sorted_wrt (<) (accepted_sequences (admitted sample_command 1 [5, 6] s))"
    using commands_admitted_in_order [of "[0]" 1 s swapped_updates "[5, 6]" sample_command 1] reads s_def by simp
  with res s_def show ?thesis by (auto simp: sample_command_def)
qed

end
