(* ===== verification/Process_Layout.thy ===== *)
theory Process_Layout
  imports Process_Buffer
begin

text \<open>
  The ABI shape of the process buffer. \<open>describe_layout\<close> computes, for capacities known at run time,
  what the compiler lays out for the const-generic types: its sizes and the hash that a peer compares when
  it attaches. Types are described by \<open>ctype\<close> with the size and alignment rules of \<open>repr(C)\<close>; the
  declarations of the records are transcribed field by field.
\<close>

section \<open>The rules of \<open>repr(C)\<close>\<close>

text \<open>A primitive of \<open>n\<close> bytes, an array, a struct. Enums are \<open>repr(u8)\<close>; an atomic and an \<open>UnsafeCell\<close>
  are laid out as what they hold.\<close>

datatype ctype = CPrim nat | CArray nat ctype | CStruct "ctype list"

definition round_up :: "nat \<Rightarrow> nat \<Rightarrow> nat" where
  "round_up n a = (n + a - 1) div a * a"

fun place :: "nat \<times> nat \<Rightarrow> nat \<times> nat \<Rightarrow> nat \<times> nat" where
  "place (offset, align) (sz, a) = (round_up offset a + sz, max align a)"

fun shape :: "ctype \<Rightarrow> nat \<times> nat" where
  "shape (CPrim n) = (n, n)"
| "shape (CArray k t) = (k * fst (shape t), snd (shape t))"
| "shape (CStruct ts) = (case foldl place (0, 1) (map shape ts) of (sz, a) \<Rightarrow> (round_up sz a, a))"

definition size_of :: "ctype \<Rightarrow> nat" where
  "size_of t = fst (shape t)"

section \<open>The declarations\<close>

abbreviation "c_u8 \<equiv> CPrim 1"
abbreviation "c_u16 \<equiv> CPrim 2"
abbreviation "c_u32 \<equiv> CPrim 4"
abbreviation "c_u64 \<equiv> CPrim 8"

definition header_type :: ctype where
  "header_type = CStruct [c_u32, c_u16, c_u16, c_u64, c_u64, c_u64, c_u32, c_u16, c_u16, c_u16, c_u16, c_u32]"

definition joint_command_type :: ctype where
  "joint_command_type = CStruct [c_u64, c_u64, c_u64, c_u64, c_u64]"

definition io_command_type :: ctype where
  "io_command_type = CStruct [c_u32, c_u32]"

definition command_page_type :: "nat \<Rightarrow> nat \<Rightarrow> ctype" where
  "command_page_type AXES IO = CStruct [c_u64, c_u64, c_u64, c_u64, c_u64, c_u64, c_u32, c_u8, c_u8, c_u8,
     CArray 3 c_u8, c_u32, CArray AXES joint_command_type, CArray IO io_command_type]"

definition joint_state_type :: ctype where
  "joint_state_type = CStruct [c_u64, c_u64, c_u64, c_u64, c_u16, c_u16, c_u16, c_u8, c_u8, c_u8, c_u8]"

definition io_state_type :: ctype where
  "io_state_type = CStruct [c_u32, c_u32]"

definition domain_quality_type :: ctype where
  "domain_quality_type = CStruct [c_u16, c_u16, c_u8, c_u8, c_u16, c_u64, c_u64]"

definition cyclic_quality_type :: ctype where
  "cyclic_quality_type = CStruct [c_u16, c_u16]"

definition quality_page_type :: "nat \<Rightarrow> ctype" where
  "quality_page_type DOMAINS = CStruct [c_u64, c_u8, c_u8, c_u8, c_u8, c_u32, c_u64, c_u64, c_u64, cyclic_quality_type,
     CArray DOMAINS domain_quality_type]"

definition lifecycle_summary_type :: ctype where
  "lifecycle_summary_type = CStruct [c_u8, c_u8, c_u8, c_u8, c_u16, c_u16, c_u16, c_u16, c_u32, c_u32, c_u64, c_u64, c_u64,
     c_u64, c_u64, c_u64, c_u64]"

definition axis_stop_type :: ctype where
  "axis_stop_type = CStruct [c_u64, c_u64, c_u8, c_u8, c_u8, c_u8, c_u8, CArray 3 c_u8]"

definition transition_record_type :: ctype where
  "transition_record_type = CStruct [c_u64, c_u64, c_u8, c_u8, c_u16, c_u32]"

definition history_type :: ctype where
  "history_type = CStruct [CArray LIFECYCLE_HISTORY_CAPACITY transition_record_type, c_u8, c_u8, CArray 6 c_u8]"

definition observation_type :: ctype where
  "observation_type = CStruct [c_u64, c_u64, c_u64, c_u64, c_u32, c_u32, c_u8, CArray 7 c_u8]"

definition state_page_type :: "nat \<Rightarrow> nat \<Rightarrow> nat \<Rightarrow> ctype" where
  "state_page_type AXES IO DOMAINS = CStruct [c_u64, c_u64, c_u64, c_u64, CArray AXES joint_state_type,
     CArray IO io_state_type, quality_page_type DOMAINS, lifecycle_summary_type, CArray AXES axis_stop_type,
     history_type, observation_type]"

definition event_type :: ctype where
  "event_type = CStruct [c_u64, c_u64, c_u16, c_u8, c_u16, c_u16, c_u32, c_u32]"

definition event_ring_type :: "nat \<Rightarrow> ctype" where
  "event_ring_type EVENTS = CStruct [CArray EVENTS event_type, c_u32, c_u32, c_u32]"

definition double_page_type :: "ctype \<Rightarrow> ctype" where
  "double_page_type page = CStruct [CArray 2 page, CArray 2 c_u32, c_u32]"

definition proc_buf_type :: "nat \<Rightarrow> nat \<Rightarrow> nat \<Rightarrow> nat \<Rightarrow> ctype" where
  "proc_buf_type AXES IO DOMAINS EVENTS = CStruct [header_type, double_page_type (command_page_type AXES IO),
     double_page_type (state_page_type AXES IO DOMAINS), event_ring_type EVENTS]"

section \<open>The hash\<close>

definition hash_bytes :: "u64 \<Rightarrow> u64 \<Rightarrow> u64" where
  "hash_bytes hash value =
     foldl (\<lambda>h shift. (h XOR (drop_bit shift value AND 0xFF)) * 0x00000100000001B3) hash [0, 8, 16, 24, 32, 40, 48, 56]"

text \<open>\<open>layout_hash::<AXES, IO, DOMAINS, EVENTS>()\<close>.\<close>

definition layout_hash :: "nat \<Rightarrow> nat \<Rightarrow> nat \<Rightarrow> nat \<Rightarrow> u64" where
  "layout_hash AXES IO DOMAINS EVENTS =
     (let hash = 0xCBF29CE484222325;
          hash = hash_bytes hash (ucast ABI_VERSION);
          hash = hash_bytes hash (of_nat AXES);
          hash = hash_bytes hash (of_nat IO);
          hash = hash_bytes hash (of_nat DOMAINS);
          hash = hash_bytes hash (of_nat EVENTS);
          hash = hash_bytes hash (of_nat (size_of header_type));
          hash = hash_bytes hash (of_nat (size_of (command_page_type AXES IO)));
          hash = hash_bytes hash (of_nat (size_of (state_page_type AXES IO DOMAINS)));
          hash = hash_bytes hash (of_nat (size_of event_type))
      in hash_bytes hash (of_nat (size_of (proc_buf_type AXES IO DOMAINS EVENTS))))"

section \<open>The layout computed at run time\<close>

datatype layout_error = LeAxisCapacityExceeded | LeInvalidEventCapacity | LeLayoutOverflow | LeRegionSizeOverflow

record layout_descriptor =
  ld_dimensions :: proc_buf_dimensions
  ld_header_bytes :: u32
  ld_command_page_bytes :: u32
  ld_state_page_bytes :: u32
  ld_event_record_bytes :: u32
  ld_event_ring_bytes :: u32
  ld_region_bytes :: u32
  ld_layout_hash :: u64

text \<open>\<open>core::alloc::Layout\<close>: a size and an alignment, where the size rounded up to the alignment must not
  exceed \<open>isize::MAX\<close>. \<open>Layout::new::<T>()\<close> is the shape of the type.\<close>

definition isize_max :: nat where "isize_max = 2 ^ 63 - 1"

definition from_size_align :: "nat \<Rightarrow> nat \<Rightarrow> (layout_error, nat \<times> nat) result" where
  "from_size_align sz align = (if isize_max - (align - 1) < sz then Err LeLayoutOverflow else Ok (sz, align))"

fun layout_extend :: "nat \<times> nat \<Rightarrow> nat \<times> nat \<Rightarrow> (layout_error, nat \<times> nat) result" where
  "layout_extend (sz, align) (next_size, next_align) =
     (case usize_checked_add (round_up sz next_align) next_size of
        None \<Rightarrow> Err LeLayoutOverflow
      | Some new_size \<Rightarrow> from_size_align new_size (max align next_align))"

definition array_layout :: "nat \<times> nat \<Rightarrow> nat \<Rightarrow> (layout_error, nat \<times> nat) result" where
  "array_layout element n =
     (case usize_checked_mul (fst element) n of
        None \<Rightarrow> Err LeLayoutOverflow
      | Some sz \<Rightarrow> from_size_align sz (snd element))"

definition repeated_layout :: "nat \<times> nat \<Rightarrow> nat \<Rightarrow> (layout_error, nat \<times> nat) result" where
  "repeated_layout layout n =
     (case usize_checked_mul (fst layout) n of
        None \<Rightarrow> Err LeLayoutOverflow
      | Some sz \<Rightarrow> from_size_align sz (snd layout))"

definition and_then :: "('e, 'a) result \<Rightarrow> ('a \<Rightarrow> ('e, 'b) result) \<Rightarrow> ('e, 'b) result" where
  "and_then r f = (case r of Inl e \<Rightarrow> Err e | Inr x \<Rightarrow> f x)"

fun extend_all :: "nat \<times> nat \<Rightarrow> (layout_error, nat \<times> nat) result list \<Rightarrow> (layout_error, nat \<times> nat) result" where
  "extend_all layout [] = Ok layout"
| "extend_all layout (f # fs) = and_then f (\<lambda>field. and_then (layout_extend layout field) (\<lambda>l. extend_all l fs))"

text \<open>The fields of the array literal are computed before the struct; with errors of one kind only the first
  one is returned either way.\<close>

definition c_struct_layout :: "(layout_error, nat \<times> nat) result list \<Rightarrow> (layout_error, nat \<times> nat) result" where
  "c_struct_layout parts = and_then (extend_all (0, 1) parts) (\<lambda>(sz, align). Ok (round_up sz align, align))"

definition double_page_layout :: "nat \<times> nat \<Rightarrow> (layout_error, nat \<times> nat) result" where
  "double_page_layout page = c_struct_layout [repeated_layout page 2, array_layout (shape c_u32) 2, Ok (shape c_u32)]"

definition size_to_u32 :: "nat \<Rightarrow> (layout_error, u32) result" where
  "size_to_u32 n = (if n < 2 ^ 32 then Ok (of_nat n) else Err LeRegionSizeOverflow)"

definition describe_layout :: "proc_buf_dimensions \<Rightarrow> (layout_error, layout_descriptor) result" where
  "describe_layout d =
     (if 32 < pd_axes d then Err LeAxisCapacityExceeded
      else if pd_event_capacity d = 0 \<or> \<not> is_power_of_two (unat (pd_event_capacity d)) then Err LeInvalidEventCapacity
      else
        let axes = unat (pd_axes d); io_channels = unat (pd_io_channels d); domains = unat (pd_domains d);
            events = unat (pd_event_capacity d)
        in and_then (c_struct_layout [array_layout (shape c_u64) 6, Ok (shape c_u32), Ok (shape c_u8), Ok (shape c_u8),
             Ok (shape c_u8), array_layout (shape c_u8) 3, Ok (shape c_u32), array_layout (shape joint_command_type) axes,
             array_layout (shape io_command_type) io_channels]) (\<lambda>command_page.
           and_then (c_struct_layout [Ok (shape c_u64), array_layout (shape c_u8) 4, Ok (shape c_u32),
             array_layout (shape c_u64) 2, Ok (shape c_u64), Ok (shape cyclic_quality_type),
             array_layout (shape domain_quality_type) domains]) (\<lambda>quality_page.
           and_then (c_struct_layout [array_layout (shape c_u64) 4, array_layout (shape joint_state_type) axes,
             array_layout (shape io_state_type) io_channels, Ok quality_page, Ok (shape lifecycle_summary_type),
             array_layout (shape axis_stop_type) axes, Ok (shape history_type), Ok (shape observation_type)]) (\<lambda>state_page.
           and_then (double_page_layout command_page) (\<lambda>command_pages.
           and_then (double_page_layout state_page) (\<lambda>state_pages.
           and_then (c_struct_layout [array_layout (shape event_type) events, array_layout (shape c_u32) 3]) (\<lambda>event_ring.
           and_then (c_struct_layout [Ok (shape header_type), Ok command_pages, Ok state_pages, Ok event_ring]) (\<lambda>region.
           and_then (size_to_u32 (size_of header_type)) (\<lambda>header_bytes.
           and_then (size_to_u32 (fst command_page)) (\<lambda>command_page_bytes.
           and_then (size_to_u32 (fst state_page)) (\<lambda>state_page_bytes.
           and_then (size_to_u32 (size_of event_type)) (\<lambda>event_record_bytes.
           and_then (size_to_u32 (fst event_ring)) (\<lambda>event_ring_bytes.
           and_then (size_to_u32 (fst region)) (\<lambda>region_bytes.
             Ok \<lparr>ld_dimensions = d, ld_header_bytes = header_bytes, ld_command_page_bytes = command_page_bytes,
                 ld_state_page_bytes = state_page_bytes, ld_event_record_bytes = event_record_bytes,
                 ld_event_ring_bytes = event_ring_bytes, ld_region_bytes = region_bytes,
                 ld_layout_hash = foldl hash_bytes 0xCBF29CE484222325 [ucast ABI_VERSION, ucast (pd_axes d),
                   ucast (pd_io_channels d), ucast (pd_domains d), ucast (pd_event_capacity d), ucast header_bytes,
                   ucast command_page_bytes, ucast state_page_bytes, ucast event_record_bytes,
                   ucast region_bytes]\<rparr>))))))))))))))"

section \<open>Closed forms\<close>

text \<open>Alignments are at most 8 and sizes far below \<open>isize::MAX\<close>, so nothing overflows.\<close>

definition aligned :: "nat \<times> nat \<Rightarrow> bool" where
  "aligned l \<longleftrightarrow> 0 < snd l \<and> snd l \<le> 8"

lemma round_up_ge: "0 < a \<Longrightarrow> n \<le> round_up n a"
proof -
  assume a: "0 < a"
  have "n + a - 1 = (n + a - 1) div a * a + (n + a - 1) mod a" by simp
  moreover have "(n + a - 1) mod a < a" using a by simp
  ultimately show ?thesis unfolding round_up_def using a by linarith
qed

lemma round_up_dvd: "0 < a \<Longrightarrow> a dvd n \<Longrightarrow> round_up n a = n"
proof -
  assume a: "0 < a" and "a dvd n"
  then obtain k where n: "n = a * k" by (elim dvdE)
  have "n + a - 1 = (a - 1) + a * k" using a n by simp
  moreover have "((a - 1) + a * k) div a = k" using a by (subst div_mult_self2) auto
  ultimately have "(n + a - 1) div a = k" by (simp only:)
  then show ?thesis by (simp add: round_up_def n)
qed

lemma round_up_evals [simp]:
  "round_up 0 a = 0" "round_up n 1 = n" "round_up n (Suc 0) = n"
  by (simp_all add: round_up_def) (cases a; simp)

lemma place_grows:
  "\<forall>l\<in>set ls. aligned l \<Longrightarrow> sz \<le> fst (foldl place (sz, a) ls)"
proof (induction ls arbitrary: sz a)
  case (Cons l ls)
  obtain s b where l: "l = (s, b)" by fastforce
  then have "sz \<le> round_up sz b + s" using Cons.prems round_up_ge [of b sz] by (auto simp: aligned_def)
  also have "\<dots> \<le> fst (foldl place (round_up sz b + s, max a b) ls)" using Cons by simp
  finally show ?case using l by simp
qed simp

lemma from_size_align_ok: "sz \<le> 2 ^ 62 \<Longrightarrow> a \<le> 8 \<Longrightarrow> from_size_align sz a = Ok (sz, a)"
  by (simp add: from_size_align_def isize_max_def)

lemma extend_all_ok:
  assumes "\<forall>l\<in>set ls. aligned l" "fst (foldl place (sz, a) ls) \<le> 2 ^ 62" "a \<le> 8"
  shows "extend_all (sz, a) (map Ok ls) = Ok (foldl place (sz, a) ls)"
  using assms
proof (induction ls arbitrary: sz a)
  case (Cons l ls)
  obtain s b where l: "l = (s, b)" by fastforce
  then have b: "0 < b" "b \<le> 8" using Cons.prems(1) by (auto simp: aligned_def)
  have le: "round_up sz b + s \<le> 2 ^ 62"
    using place_grows [of ls "round_up sz b + s" "max a b"] Cons.prems(1,2) l by simp
  then have "layout_extend (sz, a) l = Ok (round_up sz b + s, max a b)"
    using l b Cons.prems(3) by (simp add: usize_checked_add_def usize_max_def from_size_align_ok)
  then show ?case using Cons.IH [of "round_up sz b + s" "max a b"] Cons.prems l b by (simp add: and_then_def)
qed simp

lemma c_struct_layout_ok:
  assumes "\<forall>l\<in>set ls. aligned l" "foldl place (0, 1) ls = (sz, a)" "sz \<le> 2 ^ 62"
  shows "c_struct_layout (map Ok ls) = Ok (round_up sz a, a)"
  using extend_all_ok [of ls 0 1] assms by (simp add: c_struct_layout_def and_then_def)

lemma array_layout_ok:
  assumes "aligned l" "fst l * n \<le> 2 ^ 62"
  shows "array_layout l n = Ok (n * fst l, snd l)" "repeated_layout l n = Ok (n * fst l, snd l)"
  using assms by (simp_all add: array_layout_def repeated_layout_def usize_checked_mul_def usize_max_def from_size_align_ok
      aligned_def mult.commute)

lemma record_shapes:
  "shape header_type = (48, 8)" "shape joint_command_type = (40, 8)" "shape io_command_type = (8, 4)"
  "shape joint_state_type = (48, 8)" "shape io_state_type = (8, 4)" "shape domain_quality_type = (24, 8)"
  "shape cyclic_quality_type = (4, 2)" "shape lifecycle_summary_type = (80, 8)" "shape axis_stop_type = (24, 8)"
  "shape history_type = (200, 8)" "shape observation_type = (48, 8)" "shape event_type = (32, 8)"
  by code_simp+

lemma command_page_shape:
  "foldl place (0, 1) [(48, 8), (4, 4), (1, 1), (1, 1), (1, 1), (3, 1), (4, 4), (axes * 40, 8), (io * 8, 4)] = (64 + axes * 40 + io * 8, 8)"
  "shape (command_page_type axes io) = (64 + axes * 40 + io * 8, 8)"
proof -
  have d: "8 dvd 64 + axes * 40" "4 dvd 64 + axes * 40" "8 dvd 64 + axes * 40 + io * 8" by presburger+
  have u: "round_up 58 4 = 60" by (simp add: round_up_def)
  show "foldl place (0, 1) [(48, 8), (4, 4), (1, 1), (1, 1), (1, 1), (3, 1), (4, 4), (axes * 40, 8), (io * 8, 4)] = (64 + axes * 40 + io * 8, 8)"
    using d u by (simp add: round_up_dvd)
  show "shape (command_page_type axes io) = (64 + axes * 40 + io * 8, 8)"
    using d u by (simp add: command_page_type_def record_shapes round_up_dvd)
qed

lemma quality_page_shape:
  "foldl place (0, 1) [(8, 8), (4, 1), (4, 4), (16, 8), (8, 8), (4, 2), (domains * 24, 8)] = (48 + domains * 24, 8)"
  "shape (quality_page_type domains) = (48 + domains * 24, 8)"
proof -
  have d: "8 dvd 48 + domains * 24" by presburger
  have u: "round_up 44 8 = 48" by (simp add: round_up_def)
  show "foldl place (0, 1) [(8, 8), (4, 1), (4, 4), (16, 8), (8, 8), (4, 2), (domains * 24, 8)] = (48 + domains * 24, 8)"
    using u by (simp add: round_up_dvd)
  show "shape (quality_page_type domains) = (48 + domains * 24, 8)"
    using d u by (simp add: quality_page_type_def record_shapes round_up_dvd)
qed

definition state_bytes :: "nat \<Rightarrow> nat \<Rightarrow> nat \<Rightarrow> nat" where
  "state_bytes axes io domains = 408 + axes * 72 + io * 8 + domains * 24"

lemma state_page_shape:
  "foldl place (0, 1) [(32, 8), (axes * 48, 8), (io * 8, 4), (48 + domains * 24, 8), (80, 8), (axes * 24, 8), (200, 8), (48, 8)] =
     (state_bytes axes io domains, 8)"
  "shape (state_page_type axes io domains) = (state_bytes axes io domains, 8)"
proof -
  have d: "8 dvd 32 + axes * 48" "4 dvd 32 + axes * 48" "8 dvd 32 + axes * 48 + io * 8"
    "8 dvd 80 + axes * 48 + io * 8 + domains * 24" "8 dvd 160 + axes * 48 + io * 8 + domains * 24"
    "8 dvd 160 + axes * 72 + io * 8 + domains * 24" "8 dvd 360 + axes * 72 + io * 8 + domains * 24"
    "8 dvd 408 + axes * 72 + io * 8 + domains * 24" by presburger+
  show "foldl place (0, 1) [(32, 8), (axes * 48, 8), (io * 8, 4), (48 + domains * 24, 8), (80, 8), (axes * 24, 8), (200, 8), (48, 8)] =
     (state_bytes axes io domains, 8)"
    using d by (simp add: round_up_dvd state_bytes_def)
  show "shape (state_page_type axes io domains) = (state_bytes axes io domains, 8)"
    using d by (simp add: state_page_type_def record_shapes quality_page_shape round_up_dvd state_bytes_def)
qed

lemma double_page_shape:
  assumes "8 dvd n"
  shows "foldl place (0, 1) [(2 * n, 8), (8, 4), (4, 4)] = (2 * n + 12, 8)" "round_up (2 * n + 12) 8 = 2 * n + 16"
    "shape t = (n, 8) \<Longrightarrow> shape (double_page_type t) = (2 * n + 16, 8)"
proof -
  obtain k where n: "n = 8 * k" using assms by (elim dvdE)
  have d: "4 dvd 2 * n" "4 dvd 2 * n + 8" unfolding n by presburger+
  have "(2 * n + 12 + 8 - 1) div 8 = 2 * k + 2" unfolding n by simp
  then show u: "round_up (2 * n + 12) 8 = 2 * n + 16" by (simp add: round_up_def n)
  show f: "foldl place (0, 1) [(2 * n, 8), (8, 4), (4, 4)] = (2 * n + 12, 8)" using d by (simp add: round_up_dvd)
  show "shape (double_page_type t) = (2 * n + 16, 8)" if "shape t = (n, 8)"
    using d u by (simp add: double_page_type_def that round_up_dvd add.commute)
qed

lemma event_ring_shape:
  "foldl place (0, 1) [(events * 32, 8), (12, 4)] = (events * 32 + 12, 8)" "round_up (events * 32 + 12) 8 = events * 32 + 16"
  "shape (event_ring_type events) = (events * 32 + 16, 8)"
proof -
  have d: "4 dvd events * 32" "4 dvd events * 32 + 4" "4 dvd events * 32 + 8" by presburger+
  have "(events * 32 + 12 + 8 - 1) div 8 = 4 * events + 2" by simp
  then show u: "round_up (events * 32 + 12) 8 = events * 32 + 16" by (simp add: round_up_def)
  show "foldl place (0, 1) [(events * 32, 8), (12, 4)] = (events * 32 + 12, 8)" using d by (simp add: round_up_dvd)
  show "shape (event_ring_type events) = (events * 32 + 16, 8)"
    using d u by (simp add: event_ring_type_def record_shapes round_up_dvd add.commute add.left_commute)
qed

definition region_bytes :: "nat \<Rightarrow> nat \<Rightarrow> nat \<Rightarrow> nat" where
  "region_bytes c s events = 48 + (2 * c + 16) + (2 * s + 16) + (events * 32 + 16)"

lemma region_shape:
  assumes "8 dvd c" "8 dvd s"
  shows "foldl place (0, 1) [(48, 8), (2 * c + 16, 8), (2 * s + 16, 8), (events * 32 + 16, 8)] = (region_bytes c s events, 8)"
    "round_up (region_bytes c s events) 8 = region_bytes c s events"
proof -
  obtain i j where n: "c = 8 * i" "s = 8 * j" using assms by (elim dvdE)
  have d: "8 dvd 48 + (2 * c + 16)" "8 dvd 48 + (2 * c + 16) + (2 * s + 16)" "8 dvd region_bytes c s events"
    unfolding n region_bytes_def by presburger+
  then show "round_up (region_bytes c s events) 8 = region_bytes c s events" by (simp add: round_up_dvd)
  show "foldl place (0, 1) [(48, 8), (2 * c + 16, 8), (2 * s + 16, 8), (events * 32 + 16, 8)] = (region_bytes c s events, 8)"
    using d by (simp add: round_up_dvd region_bytes_def add.assoc)
qed

text \<open>The structs of \<open>describe_layout\<close>.\<close>

definition command_bytes :: "nat \<Rightarrow> nat \<Rightarrow> nat" where
  "command_bytes axes io = 64 + axes * 40 + io * 8"

lemma page_bytes_dvd: "8 dvd command_bytes axes io" "8 dvd state_bytes axes io domains"
  unfolding command_bytes_def state_bytes_def by presburger+

lemma command_layout:
  assumes "axes \<le> 32" "io < 65536"
  shows "c_struct_layout [array_layout (shape c_u64) 6, Ok (shape c_u32), Ok (shape c_u8), Ok (shape c_u8),
     Ok (shape c_u8), array_layout (shape c_u8) 3, Ok (shape c_u32), array_layout (shape joint_command_type) axes,
     array_layout (shape io_command_type) io] = Ok (command_bytes axes io, 8)"
  using c_struct_layout_ok [OF _ command_page_shape(1) [of axes io]] assms page_bytes_dvd(1) [of axes io]
  by (simp add: array_layout_ok aligned_def record_shapes round_up_dvd command_bytes_def)

lemma quality_layout:
  assumes "domains < 65536"
  shows "c_struct_layout [Ok (shape c_u64), array_layout (shape c_u8) 4, Ok (shape c_u32),
     array_layout (shape c_u64) 2, Ok (shape c_u64), Ok (shape cyclic_quality_type),
     array_layout (shape domain_quality_type) domains] = Ok (48 + domains * 24, 8)"
proof -
  have d: "8 dvd 48 + domains * 24" by presburger
  show ?thesis
    using c_struct_layout_ok [OF _ quality_page_shape(1) [of domains]] assms d
    by (simp add: array_layout_ok aligned_def record_shapes round_up_dvd)
qed

lemma state_layout:
  assumes "axes \<le> 32" "io < 65536" "domains < 65536"
  shows "c_struct_layout [array_layout (shape c_u64) 4, array_layout (shape joint_state_type) axes,
     array_layout (shape io_state_type) io, Ok (48 + domains * 24, 8), Ok (shape lifecycle_summary_type),
     array_layout (shape axis_stop_type) axes, Ok (shape history_type), Ok (shape observation_type)] =
     Ok (state_bytes axes io domains, 8)"
  using c_struct_layout_ok [OF _ state_page_shape(1) [of axes io domains]] assms page_bytes_dvd(2) [of axes io domains]
  by (simp add: array_layout_ok aligned_def record_shapes round_up_dvd) (simp add: state_bytes_def)

lemma double_page_layout_ok:
  assumes "8 dvd n" "n < 2 ^ 32"
  shows "double_page_layout (n, 8) = Ok (2 * n + 16, 8)"
  using c_struct_layout_ok [OF _ double_page_shape(1) [OF assms(1)]] assms double_page_shape(2) [OF assms(1)]
  by (simp add: double_page_layout_def array_layout_ok aligned_def)

lemma event_ring_layout:
  assumes "events < 65536"
  shows "c_struct_layout [array_layout (shape event_type) events, array_layout (shape c_u32) 3] = Ok (events * 32 + 16, 8)"
  using c_struct_layout_ok [OF _ event_ring_shape(1) [of events]] assms event_ring_shape(2) [of events]
  by (simp add: array_layout_ok aligned_def record_shapes)

lemma region_layout:
  assumes "8 dvd c" "8 dvd s" "c < 2 ^ 32" "s < 2 ^ 32" "events < 65536"
  shows "c_struct_layout [Ok (shape header_type), Ok (2 * c + 16, 8), Ok (2 * s + 16, 8), Ok (events * 32 + 16, 8)] =
     Ok (region_bytes c s events, 8)"
  using c_struct_layout_ok [OF _ region_shape(1) [OF assms(1,2), of events]] assms region_shape(2) [OF assms(1,2), of events]
  by (simp add: aligned_def record_shapes) (simp add: region_bytes_def)

section \<open>Both layouts agree\<close>

lemma size_to_u32_ok: "n < 2 ^ 32 \<Longrightarrow> size_to_u32 n = Ok (of_nat n)"
  by (simp add: size_to_u32_def)

lemma unat_small_u32: "n < 2 ^ 32 \<Longrightarrow> unat (of_nat n :: u32) = n"
  by (simp add: unat_of_nat)

lemma ucast_small_u32: "n < 2 ^ 32 \<Longrightarrow> (ucast (of_nat n :: u32) :: u64) = of_nat n"
  by (simp add: ucast_u64 unat_of_nat)

lemma ucast_u16_u64: "(ucast (w :: u16) :: u64) = of_nat (unat w)"
  by simp

lemma instance_sizes:
  "size_of header_type = 48" "size_of event_type = 32" "size_of (command_page_type axes io) = command_bytes axes io"
  "size_of (state_page_type axes io domains) = state_bytes axes io domains" "size_of (event_ring_type events) = events * 32 + 16"
  "size_of (proc_buf_type axes io domains events) = region_bytes (command_bytes axes io) (state_bytes axes io domains) events"
proof -
  note c = command_page_shape(2) [of axes io, folded command_bytes_def] and st = state_page_shape(2) [of axes io domains]
  note dp = double_page_shape(3) [OF page_bytes_dvd(1) c] double_page_shape(3) [OF page_bytes_dvd(2) st]
  have "map shape [header_type, double_page_type (command_page_type axes io),
      double_page_type (state_page_type axes io domains), event_ring_type events] =
    [(48, 8), (2 * command_bytes axes io + 16, 8), (2 * state_bytes axes io domains + 16, 8), (events * 32 + 16, 8)]"
    by (simp add: dp record_shapes event_ring_shape(3))
  then show "size_of (proc_buf_type axes io domains events) = region_bytes (command_bytes axes io) (state_bytes axes io domains) events"
    using region_shape [OF page_bytes_dvd, of axes io axes io domains events]
    by (simp only: size_of_def proc_buf_type_def shape.simps) simp
qed (simp_all add: size_of_def record_shapes command_page_shape(2) command_bytes_def state_page_shape(2) event_ring_shape(3))

text \<open>
  C28: For every configuration with at most 32 axes and a power of two of events the layout computed at run time
  (\<open>describe_layout\<close>) is the layout of the compiled types: every size is that of the \<open>repr(C)\<close> struct
  with the same dimensions, no arithmetic overflows, the hash is that of the compiled type, and a header made
  from the description passes the validation of that type.
\<close>

theorem runtime_layout_agrees:
  fixes d :: proc_buf_dimensions
  defines "axes \<equiv> unat (pd_axes d)" and "io \<equiv> unat (pd_io_channels d)" and "domains \<equiv> unat (pd_domains d)"
    and "events \<equiv> unat (pd_event_capacity d)"
  assumes "pd_axes d \<le> 32" "is_power_of_two events"
  shows "\<exists>l. describe_layout d = Ok l \<and>
    unat (ld_header_bytes l) = size_of header_type \<and> unat (ld_event_record_bytes l) = size_of event_type \<and>
    unat (ld_command_page_bytes l) = size_of (command_page_type axes io) \<and>
    unat (ld_state_page_bytes l) = size_of (state_page_type axes io domains) \<and>
    unat (ld_event_ring_bytes l) = size_of (event_ring_type events) \<and>
    unat (ld_region_bytes l) = size_of (proc_buf_type axes io domains events) \<and>
    ld_layout_hash l = layout_hash axes io domains events \<and>
    header_validate (size_of header_type) (size_of (proc_buf_type axes io domains events)) (layout_hash axes io domains events)
      (axes, io, domains, events)
      (proc_buf_header_new (size_of header_type) (ld_layout_hash l) robot boot (ld_region_bytes l) d) robot boot = Ok ()"
proof -
  have dims: "axes \<le> 32" "io < 65536" "domains < 65536" "events < 65536" "pd_event_capacity d \<noteq> 0"
    using assms(5,6) unsigned_less [of "pd_io_channels d"] unsigned_less [of "pd_domains d"] unsigned_less [of "pd_event_capacity d"]
    by (auto simp: axes_def io_def domains_def events_def word_le_nat_alt is_power_of_two.simps [of 0])
  let ?c = "command_bytes axes io" and ?s = "state_bytes axes io domains"
  let ?r = "region_bytes ?c ?s events"
  have small: "?c < 2 ^ 32" "?s < 2 ^ 32" "?r < 2 ^ 32" "events * 32 + 16 < 2 ^ 32"
    using dims by (simp_all add: command_bytes_def state_bytes_def region_bytes_def)
  note layouts = command_layout [OF dims(1,2)] quality_layout [OF dims(3)] state_layout [OF dims(1-3)]
    double_page_layout_ok [OF page_bytes_dvd(1) small(1)] double_page_layout_ok [OF page_bytes_dvd(2) small(2)]
    event_ring_layout [OF dims(4)] region_layout [OF page_bytes_dvd small(1,2) dims(4)]
  let ?l = "\<lparr>ld_dimensions = d, ld_header_bytes = of_nat 48, ld_command_page_bytes = of_nat ?c, ld_state_page_bytes = of_nat ?s,
      ld_event_record_bytes = of_nat 32, ld_event_ring_bytes = of_nat (events * 32 + 16), ld_region_bytes = of_nat ?r,
      ld_layout_hash = layout_hash axes io domains events\<rparr>"
  have "describe_layout d = Ok ?l"
  proof -
    have hash: "foldl hash_bytes 0xCBF29CE484222325 [ucast ABI_VERSION, ucast (pd_axes d), ucast (pd_io_channels d),
        ucast (pd_domains d), ucast (pd_event_capacity d), ucast (of_nat 48 :: u32), ucast (of_nat ?c :: u32),
        ucast (of_nat ?s :: u32), ucast (of_nat 32 :: u32), ucast (of_nat ?r :: u32)] = layout_hash axes io domains events"
      unfolding layout_hash_def Let_def instance_sizes ucast_u16_u64 ucast_small_u32 [OF small(1)] ucast_small_u32 [OF small(2)]
        ucast_small_u32 [OF small(3)] by (simp add: axes_def io_def domains_def events_def)
    show ?thesis
      unfolding describe_layout_def Let_def axes_def [symmetric] io_def [symmetric] domains_def [symmetric] events_def [symmetric]
        layouts and_then_def sum.case instance_sizes prod.sel size_to_u32_ok [OF small(1)] size_to_u32_ok [OF small(2)]
        size_to_u32_ok [OF small(3)] size_to_u32_ok [OF small(4)]
      using hash assms(5,6) dims(5) by (simp add: size_to_u32_def not_less)
  qed
  moreover have "unat (of_nat events * 32 + 16 :: u32) = events * 32 + 16" using unat_small_u32 [OF small(4)] by simp
  ultimately show ?thesis
    using small by (intro exI [of _ ?l])
      (simp add: instance_sizes unat_small_u32 header_validate_def proc_buf_header_new_def
        axes_def [symmetric] io_def [symmetric] domains_def [symmetric] events_def [symmetric])
qed

definition sample_dimensions :: proc_buf_dimensions where
  "sample_dimensions = \<lparr>pd_axes = 2, pd_io_channels = 1, pd_domains = 1, pd_event_capacity = 4\<rparr>"

lemma runtime_layout_agrees_witness:
  "\<exists>l. describe_layout sample_dimensions = Ok l \<and> unat (ld_command_page_bytes l) = size_of (command_page_type 2 1) \<and>
    unat (ld_region_bytes l) = size_of (proc_buf_type 2 1 1 4) \<and> ld_layout_hash l = layout_hash 2 1 1 4"
proof -
  have "is_power_of_two 4" by (simp add: is_power_of_two.simps)
  then show ?thesis
    using runtime_layout_agrees [of sample_dimensions 1 1] by (auto simp: sample_dimensions_def)
qed

end
