(* ===== verification/Ipc_Frame.thy ===== *)
theory Ipc_Frame
  imports Esop_Prelude
begin

text \<open>
  The datagrams between the processes of the runtime (\<open>esop-ipc/src/frame.rs\<close>): a fixed header of 80
  bytes, a payload and its CRC-32. Encoding and decoding are translated byte for byte, with every check
  of the decoder in its order. A decoded frame is exactly an encoded one, and corruption of the payload
  that stays within four consecutive bytes is always detected.
\<close>

section \<open>Constants and errors\<close>

definition IPC_MAGIC :: u32 where "IPC_MAGIC = u32_from_le 0x45 0x53 0x49 0x50"
definition IPC_VERSION :: u16 where "IPC_VERSION = 1"
definition HEADER_BYTES :: nat where "HEADER_BYTES = 80"
definition MAX_PAYLOAD_BYTES :: nat where "MAX_PAYLOAD_BYTES = 4096"
definition MAX_DATAGRAM_BYTES :: nat where "MAX_DATAGRAM_BYTES = HEADER_BYTES + MAX_PAYLOAD_BYTES"
definition CRC32_POLYNOMIAL :: u32 where "CRC32_POLYNOMIAL = 0xEDB88320"

datatype message_kind = MkCommand | MkState | MkEvent | MkHeartbeat | MkDiagnostic

fun kind_code :: "message_kind \<Rightarrow> u16" where
  "kind_code MkCommand = 1"
| "kind_code MkState = 2"
| "kind_code MkEvent = 3"
| "kind_code MkHeartbeat = 4"
| "kind_code MkDiagnostic = 5"

datatype frame_error = DatagramTooShort nat nat | DatagramTooLarge nat nat | OutputTooSmall nat nat | MagicMismatch u32
  | ProtocolVersionMismatch u16 | HeaderSizeMismatch u16 | UnknownMessageKind u16 | ReservedBitsSet u16
  | ZeroPayloadSchemaVersion | ZeroLayoutHash | ZeroRobotId | ZeroBootId | ZeroSourceId | ZeroSequence
  | PayloadTooLarge nat nat | LengthMismatch nat nat | HeartbeatPayloadNotEmpty | PayloadRequired
  | PayloadCrcMismatch u32 u32

definition kind_try_from :: "u16 \<Rightarrow> (frame_error, message_kind) result" where
  "kind_try_from v =
     (if v = 1 then Ok MkCommand else if v = 2 then Ok MkState else if v = 3 then Ok MkEvent
      else if v = 4 then Ok MkHeartbeat else if v = 5 then Ok MkDiagnostic else Err (UnknownMessageKind v))"

record ipc_header =
  ih_kind :: message_kind
  ih_payload_schema_version :: u32
  ih_layout_hash :: u64
  ih_robot_id :: u64
  ih_boot_id :: u64
  ih_source_id :: u64
  ih_sequence :: u64
  ih_monotonic_time_ns :: u64
  ih_quality_bits :: u64

record ipc_frame =
  if_header :: ipc_header
  if_payload :: bytes
  if_payload_len :: nat

section \<open>The CRC\<close>

definition crc_bit :: "u32 \<Rightarrow> u32" where
  "crc_bit crc = drop_bit 1 crc XOR (CRC32_POLYNOMIAL AND - (crc AND 1))"

definition crc_byte :: "u32 \<Rightarrow> u8 \<Rightarrow> u32" where
  "crc_byte crc b = (crc_bit ^^ 8) (crc XOR ucast b)"

definition crc32 :: "bytes \<Rightarrow> u32" where
  "crc32 bs = NOT (foldl crc_byte (- 1) bs)"

section \<open>Words in little-endian order\<close>

definition u64_to_le :: "u64 \<Rightarrow> bytes" where
  "u64_to_le w = u32_to_le (ucast w) @ u32_to_le (ucast (drop_bit 32 w))"

definition write_u16 :: "bytes \<Rightarrow> nat \<Rightarrow> u16 \<Rightarrow> bytes" where
  "write_u16 output offset v = copy_at output offset (u16_to_le v)"

definition write_u32 :: "bytes \<Rightarrow> nat \<Rightarrow> u32 \<Rightarrow> bytes" where
  "write_u32 output offset v = copy_at output offset (u32_to_le v)"

definition write_u64 :: "bytes \<Rightarrow> nat \<Rightarrow> u64 \<Rightarrow> bytes" where
  "write_u64 output offset v = copy_at output offset (u64_to_le v)"

definition read_u16 :: "bytes \<Rightarrow> nat \<Rightarrow> u16" where
  "read_u16 input i = u16_from_le (input ! i) (input ! (i + 1))"

definition read_u32 :: "bytes \<Rightarrow> nat \<Rightarrow> u32" where
  "read_u32 input i = u32_from_le (input ! i) (input ! (i + 1)) (input ! (i + 2)) (input ! (i + 3))"

definition read_u64 :: "bytes \<Rightarrow> nat \<Rightarrow> u64" where
  "read_u64 input i = ucast (read_u32 input i) OR push_bit 32 (ucast (read_u32 input (i + 4)))"

section \<open>Frames\<close>

definition validate_header :: "ipc_header \<Rightarrow> (frame_error, unit) result" where
  "validate_header h =
     (if ih_payload_schema_version h = 0 then Err ZeroPayloadSchemaVersion
      else if ih_layout_hash h = 0 then Err ZeroLayoutHash
      else if ih_robot_id h = 0 then Err ZeroRobotId
      else if ih_boot_id h = 0 then Err ZeroBootId
      else if ih_source_id h = 0 then Err ZeroSourceId
      else if ih_sequence h = 0 then Err ZeroSequence
      else Ok ())"

definition validate_payload :: "message_kind \<Rightarrow> nat \<Rightarrow> (frame_error, unit) result" where
  "validate_payload kind payload_len =
     (if MAX_PAYLOAD_BYTES < payload_len then Err (PayloadTooLarge MAX_PAYLOAD_BYTES payload_len)
      else if kind = MkHeartbeat then if payload_len \<noteq> 0 then Err HeartbeatPayloadNotEmpty else Ok ()
      else if payload_len = 0 then Err PayloadRequired else Ok ())"

definition ipc_frame_new :: "ipc_header \<Rightarrow> bytes \<Rightarrow> (frame_error, ipc_frame) result" where
  "ipc_frame_new header payload =
     (case validate_header header of Inl e \<Rightarrow> Err e | Inr _ \<Rightarrow>
      case validate_payload (ih_kind header) (length payload) of Inl e \<Rightarrow> Err e | Inr _ \<Rightarrow>
      Ok \<lparr>if_header = header, if_payload = copy_at (replicate MAX_PAYLOAD_BYTES 0) 0 payload, if_payload_len = length payload\<rparr>)"

definition frame_payload :: "ipc_frame \<Rightarrow> bytes" where
  "frame_payload f = take (if_payload_len f) (if_payload f)"

definition encoded_len :: "ipc_frame \<Rightarrow> nat" where
  "encoded_len f = HEADER_BYTES + if_payload_len f"

definition encode_into :: "ipc_frame \<Rightarrow> bytes \<Rightarrow> bytes \<times> (frame_error, nat) result" where
  "encode_into f output =
     (let len = encoded_len f; h = if_header f
      in if length output < len then (output, Err (OutputTooSmall len (length output)))
         else
           let o1 = copy_at output 0 (replicate len 0);
               o2 = write_u32 o1 0 IPC_MAGIC;
               o3 = write_u16 o2 4 IPC_VERSION;
               o4 = write_u16 o3 6 (of_nat HEADER_BYTES);
               o5 = write_u16 o4 8 (kind_code (ih_kind h));
               o6 = write_u32 o5 12 (ih_payload_schema_version h);
               o7 = write_u64 o6 16 (ih_layout_hash h);
               o8 = write_u64 o7 24 (ih_robot_id h);
               o9 = write_u64 o8 32 (ih_boot_id h);
               o10 = write_u64 o9 40 (ih_source_id h);
               o11 = write_u64 o10 48 (ih_sequence h);
               o12 = write_u64 o11 56 (ih_monotonic_time_ns h);
               o13 = write_u64 o12 64 (ih_quality_bits h);
               o14 = write_u32 o13 72 (of_nat (if_payload_len f));
               o15 = write_u32 o14 76 (crc32 (frame_payload f));
               o16 = copy_at o15 HEADER_BYTES (frame_payload f)
           in (o16, Ok len))"

definition ipc_frame_decode :: "bytes \<Rightarrow> (frame_error, ipc_frame) result" where
  "ipc_frame_decode datagram =
     (if length datagram < HEADER_BYTES then Err (DatagramTooShort HEADER_BYTES (length datagram))
      else if MAX_DATAGRAM_BYTES < length datagram then Err (DatagramTooLarge MAX_DATAGRAM_BYTES (length datagram))
      else if read_u32 datagram 0 \<noteq> IPC_MAGIC then Err (MagicMismatch (read_u32 datagram 0))
      else if read_u16 datagram 4 \<noteq> IPC_VERSION then Err (ProtocolVersionMismatch (read_u16 datagram 4))
      else if unat (read_u16 datagram 6) \<noteq> HEADER_BYTES then Err (HeaderSizeMismatch (read_u16 datagram 6))
      else case kind_try_from (read_u16 datagram 8) of Inl e \<Rightarrow> Err e | Inr kind \<Rightarrow>
      if read_u16 datagram 10 \<noteq> 0 then Err (ReservedBitsSet (read_u16 datagram 10))
      else
        let payload_len = unat (read_u32 datagram 72)
        in if MAX_PAYLOAD_BYTES < payload_len then Err (PayloadTooLarge MAX_PAYLOAD_BYTES payload_len)
           else if length datagram \<noteq> HEADER_BYTES + payload_len
             then Err (LengthMismatch (HEADER_BYTES + payload_len) (length datagram))
           else
             let header = \<lparr>ih_kind = kind, ih_payload_schema_version = read_u32 datagram 12,
                   ih_layout_hash = read_u64 datagram 16, ih_robot_id = read_u64 datagram 24,
                   ih_boot_id = read_u64 datagram 32, ih_source_id = read_u64 datagram 40,
                   ih_sequence = read_u64 datagram 48, ih_monotonic_time_ns = read_u64 datagram 56,
                   ih_quality_bits = read_u64 datagram 64\<rparr>
             in case validate_header header of Inl e \<Rightarrow> Err e | Inr _ \<Rightarrow>
                case validate_payload kind payload_len of Inl e \<Rightarrow> Err e | Inr _ \<Rightarrow>
                let payload = drop HEADER_BYTES datagram
                in if crc32 payload \<noteq> read_u32 datagram 76
                   then Err (PayloadCrcMismatch (read_u32 datagram 76) (crc32 payload))
                   else ipc_frame_new header payload)"

section \<open>What is written\<close>

lemma u32_to_from_le [simp]: "u32_to_le (u32_from_le a b c d) = [a, b, c, d]"
proof -
  have "ucast (u32_from_le a b c d) = a"
    by (rule bit_word_eqI) (auto simp: u32_from_le_def bit_simps)
  moreover have "ucast (drop_bit 8 (u32_from_le a b c d)) = b"
    by (rule bit_word_eqI) (auto simp: u32_from_le_def bit_simps dest: bit_imp_le_length)
  moreover have "ucast (drop_bit 16 (u32_from_le a b c d)) = c"
    by (rule bit_word_eqI) (auto simp: u32_from_le_def bit_simps dest: bit_imp_le_length)
  moreover have "ucast (drop_bit 24 (u32_from_le a b c d)) = d"
    by (rule bit_word_eqI) (auto simp: u32_from_le_def bit_simps dest: bit_imp_le_length)
  ultimately show ?thesis by (simp add: u32_to_le_def)
qed

lemma u64_halves: "(ucast (lo :: u32) OR push_bit 32 (ucast (hi :: u32)) :: u64) = w \<longleftrightarrow> lo = ucast w \<and> hi = ucast (drop_bit 32 w)"
proof
  assume w: "(ucast lo OR push_bit 32 (ucast hi) :: u64) = w"
  have "ucast w = lo" unfolding w [symmetric] by (rule bit_word_eqI) (auto simp: bit_simps)
  moreover have "ucast (drop_bit 32 w) = hi"
    unfolding w [symmetric] by (rule bit_word_eqI) (auto simp: bit_simps dest: bit_imp_le_length)
  ultimately show "lo = ucast w \<and> hi = ucast (drop_bit 32 w)" by simp
next
  assume "lo = ucast w \<and> hi = ucast (drop_bit 32 w)"
  then show "(ucast lo OR push_bit 32 (ucast hi) :: u64) = w"
    by (intro bit_word_eqI) (auto simp: bit_simps)
qed

lemma length_u64_to_le [simp]: "length (u64_to_le w) = 8"
  by (simp add: u64_to_le_def)

definition header_image :: "ipc_header \<Rightarrow> nat \<Rightarrow> u32 \<Rightarrow> bytes" where
  "header_image h n crc = u32_to_le IPC_MAGIC @ u16_to_le IPC_VERSION @ u16_to_le (of_nat HEADER_BYTES) @
     u16_to_le (kind_code (ih_kind h)) @ [0, 0] @ u32_to_le (ih_payload_schema_version h) @ u64_to_le (ih_layout_hash h) @
     u64_to_le (ih_robot_id h) @ u64_to_le (ih_boot_id h) @ u64_to_le (ih_source_id h) @ u64_to_le (ih_sequence h) @
     u64_to_le (ih_monotonic_time_ns h) @ u64_to_le (ih_quality_bits h) @ u32_to_le (of_nat n) @ u32_to_le crc"

lemma length_header_image [simp]: "length (header_image h n crc) = HEADER_BYTES"
  by (simp add: header_image_def HEADER_BYTES_def)

definition datagram_of :: "ipc_frame \<Rightarrow> bytes" where
  "datagram_of f = header_image (if_header f) (if_payload_len f) (crc32 (frame_payload f)) @ frame_payload f"

text \<open>Consecutive writes build the concatenation.\<close>

fun consecutive :: "nat \<Rightarrow> (nat \<times> bytes) list \<Rightarrow> bool" where
  "consecutive off [] = True"
| "consecutive off ((i, src) # ws) \<longleftrightarrow> i = off \<and> consecutive (off + length src) ws"

lemma writes_consecutive:
  "consecutive (length b) ws \<Longrightarrow>
     foldl (\<lambda>buf (i, src). copy_at buf i src) (b @ z) ws = b @ concat (map snd ws) @ drop (length (concat (map snd ws))) z"
proof (induction ws arbitrary: b z)
  case (Cons w ws)
  obtain i src where w: "w = (i, src)" by fastforce
  then have "copy_at (b @ z) i src = (b @ src) @ drop (length src) z" using Cons.prems by (simp add: copy_at_def)
  then show ?case using Cons.IH [of "b @ src" "drop (length src) z"] Cons.prems w by (simp add: add.commute)
qed simp

lemma encode_into_image:
  assumes "encoded_len f \<le> length output" "length (frame_payload f) = if_payload_len f"
  shows "encode_into f output = (datagram_of f @ drop (encoded_len f) output, Ok (encoded_len f))"
proof -
  let ?n = "encoded_len f" and ?h = "if_header f" and ?wr = "\<lambda>buf (i, src). copy_at buf i src"
  have z: "copy_at output 0 (replicate ?n 0) = replicate ?n (0 :: u8) @ drop ?n output" by (simp add: copy_at_def)
  have n: "?n = 80 + if_payload_len f" by (simp add: encoded_len_def HEADER_BYTES_def)
  define first :: "(nat \<times> bytes) list" where "first = [(0, u32_to_le IPC_MAGIC), (4, u16_to_le IPC_VERSION), (6, u16_to_le (of_nat HEADER_BYTES)),
      (8, u16_to_le (kind_code (ih_kind ?h)))]"
  define rest :: "(nat \<times> bytes) list" where "rest = [(12, u32_to_le (ih_payload_schema_version ?h)), (16, u64_to_le (ih_layout_hash ?h)), (24, u64_to_le (ih_robot_id ?h)),
      (32, u64_to_le (ih_boot_id ?h)), (40, u64_to_le (ih_source_id ?h)), (48, u64_to_le (ih_sequence ?h)),
      (56, u64_to_le (ih_monotonic_time_ns ?h)), (64, u64_to_le (ih_quality_bits ?h)), (72, u32_to_le (of_nat (if_payload_len f))),
      (76, u32_to_le (crc32 (frame_payload f))), (80, frame_payload f)]"
  let ?out = "foldl ?wr (foldl ?wr (replicate ?n 0 @ drop ?n output) first) rest"
  have enc: "encode_into f output = (?out, Ok ?n)"
    using assms(1) z unfolding encode_into_def Let_def
    by (simp add: write_u16_def write_u32_def write_u64_def HEADER_BYTES_def first_def rest_def)
  define b where "b = concat (map snd first) @ [0 :: u8, 0]"
  have head: "foldl ?wr (replicate ?n 0 @ drop ?n output) first = b @ replicate (68 + if_payload_len f) 0 @ drop ?n output"
  proof -
    have "replicate ?n (0 :: u8) = replicate 10 0 @ [0, 0] @ replicate (68 + if_payload_len f) 0"
      unfolding n by (simp flip: replicate_add add: numeral_eq_Suc)
    then show ?thesis
      using writes_consecutive [of "[]" first "replicate ?n 0 @ drop ?n output"] by (simp add: b_def first_def)
  qed
  have "?out = b @ concat (map snd rest) @ drop (length (concat (map snd rest))) (replicate (68 + if_payload_len f) 0 @ drop ?n output)"
    unfolding head by (rule writes_consecutive) (simp add: b_def first_def rest_def)
  also have "\<dots> = datagram_of f @ drop ?n output"
    using assms(2) by (simp add: b_def first_def rest_def datagram_of_def header_image_def)
  finally show ?thesis unfolding enc by simp
qed

section \<open>What is read\<close>

lemma u16_to_le_eq [simp]: "u16_to_le v = u16_to_le w \<longleftrightarrow> v = w"
proof
  assume eq: "u16_to_le v = u16_to_le w"
  have "u16_from_le (u16_to_le v ! 0) (u16_to_le v ! 1) = v" for v by (simp add: u16_to_le_def)
  from this [of v] this [of w] show "v = w" unfolding eq by simp
qed simp

lemma u32_to_le_eq [simp]: "u32_to_le v = u32_to_le w \<longleftrightarrow> v = w"
proof
  assume eq: "u32_to_le v = u32_to_le w"
  have "u32_from_le (u32_to_le v ! 0) (u32_to_le v ! 1) (u32_to_le v ! 2) (u32_to_le v ! 3) = v" for v
    by (simp add: u32_to_le_def)
  from this [of v] this [of w] show "v = w" unfolding eq by simp
qed simp

lemma u64_to_le_eq [simp]: "u64_to_le v = u64_to_le w \<longleftrightarrow> v = w"
proof
  assume "u64_to_le v = u64_to_le w"
  then have "ucast v = (ucast w :: u32)" "ucast (drop_bit 32 v) = (ucast (drop_bit 32 w) :: u32)"
    by (simp_all add: u64_to_le_def)
  then show "v = w" using u64_halves by metis
qed simp

lemma u16_cell: "i + 2 \<le> length d \<Longrightarrow> u16_to_le (read_u16 d i) = subslice d i (i + 2)"
  by (rule nth_equalityI) (auto simp: read_u16_def subslice_def less_Suc_eq numeral_eq_Suc)

lemma u32_cell: "i + 4 \<le> length d \<Longrightarrow> u32_to_le (read_u32 d i) = subslice d i (i + 4)"
  by (rule nth_equalityI) (auto simp: read_u32_def subslice_def less_Suc_eq numeral_eq_Suc)

lemma subslice_join: "\<lbrakk>i \<le> j; j \<le> k\<rbrakk> \<Longrightarrow> subslice d i j @ subslice d j k = subslice d i k"
proof -
  assume le: "i \<le> j" "j \<le> k"
  have "take (j - i) (drop i d) @ take (k - j) (drop (j - i) (drop i d)) = take (j - i + (k - j)) (drop i d)"
    by (rule take_add [symmetric])
  then show ?thesis using le by (simp add: subslice_def)
qed

lemma subslice_join_front: "\<lbrakk>i \<le> j; j \<le> k\<rbrakk> \<Longrightarrow> subslice d i j @ subslice d j k @ z = subslice d i k @ z"
  using subslice_join [of i j k d] by (metis append_assoc)

lemma u64_cell:
  assumes "i + 8 \<le> length d"
  shows "u64_to_le (read_u64 d i) = subslice d i (i + 8)"
proof -
  have "ucast (read_u64 d i) = read_u32 d i \<and> ucast (drop_bit 32 (read_u64 d i)) = read_u32 d (i + 4)"
    using u64_halves [THEN iffD1, of "read_u32 d i" "read_u32 d (i + 4)" "read_u64 d i"] by (simp add: read_u64_def)
  then have "u64_to_le (read_u64 d i) = subslice d i (i + 4) @ subslice d (i + 4) (i + 4 + 4)"
    using assms u32_cell [of i d] u32_cell [of "i + 4" d] by (simp add: u64_to_le_def)
  then show ?thesis by (simp add: subslice_join add.commute [of 8])
qed

lemma header_cells:
  assumes len: "HEADER_BYTES \<le> length d"
  shows "take HEADER_BYTES d = header_image h n crc \<longleftrightarrow>
    read_u32 d 0 = IPC_MAGIC \<and> read_u16 d 4 = IPC_VERSION \<and> read_u16 d 6 = of_nat HEADER_BYTES \<and>
    read_u16 d 8 = kind_code (ih_kind h) \<and> read_u16 d 10 = 0 \<and> read_u32 d 12 = ih_payload_schema_version h \<and>
    read_u64 d 16 = ih_layout_hash h \<and> read_u64 d 24 = ih_robot_id h \<and> read_u64 d 32 = ih_boot_id h \<and>
    read_u64 d 40 = ih_source_id h \<and> read_u64 d 48 = ih_sequence h \<and> read_u64 d 56 = ih_monotonic_time_ns h \<and>
    read_u64 d 64 = ih_quality_bits h \<and> read_u32 d 72 = of_nat n \<and> read_u32 d 76 = crc"
proof -
  have len: "80 \<le> length d" using len by (simp add: HEADER_BYTES_def)
  have "take 80 d = u32_to_le (read_u32 d 0) @ u16_to_le (read_u16 d 4) @ u16_to_le (read_u16 d 6) @
    u16_to_le (read_u16 d 8) @ u16_to_le (read_u16 d 10) @ u32_to_le (read_u32 d 12) @ u64_to_le (read_u64 d 16) @
    u64_to_le (read_u64 d 24) @ u64_to_le (read_u64 d 32) @ u64_to_le (read_u64 d 40) @ u64_to_le (read_u64 d 48) @
    u64_to_le (read_u64 d 56) @ u64_to_le (read_u64 d 64) @ u32_to_le (read_u32 d 72) @ u32_to_le (read_u32 d 76)"
    using len by (simp add: u16_cell u32_cell u64_cell subslice_join subslice_join_front)
      (simp add: subslice_def)
  moreover have "[0, 0] = u16_to_le 0" by (simp add: u16_to_le_def)
  ultimately show ?thesis
    unfolding header_image_def by (simp add: HEADER_BYTES_def)
qed

lemma kind_try_from_Ok [simp]: "kind_try_from v = Ok k \<longleftrightarrow> v = kind_code k"
  by (cases k) (auto simp: kind_try_from_def)

lemma kind_try_from_code [simp]: "kind_try_from (kind_code k) = Ok k"
  by simp

lemma ipc_frame_new_Ok:
  "ipc_frame_new h p = Ok f \<longleftrightarrow>
     validate_header h = Ok () \<and> validate_payload (ih_kind h) (length p) = Ok () \<and>
     f = \<lparr>if_header = h, if_payload = copy_at (replicate MAX_PAYLOAD_BYTES 0) 0 p, if_payload_len = length p\<rparr>"
  by (auto simp: ipc_frame_new_def split: sum.splits)

lemma validate_payload_bound: "validate_payload k n = Ok () \<Longrightarrow> n \<le> MAX_PAYLOAD_BYTES"
  by (simp add: validate_payload_def split: if_splits)

lemma frame_payload_new: "ipc_frame_new h p = Ok f \<Longrightarrow> frame_payload f = p"
  by (auto simp: ipc_frame_new_Ok frame_payload_def copy_at_def)

lemma header_bytes_word: "unat (of_nat HEADER_BYTES :: u16) = HEADER_BYTES"
  by (simp add: HEADER_BYTES_def)

lemma payload_length_word: "n \<le> MAX_PAYLOAD_BYTES \<Longrightarrow> unat (of_nat n :: u32) = n"
  by (simp add: unat_of_nat MAX_PAYLOAD_BYTES_def)

lemma ipc_header_eta:
  "\<lparr>ih_kind = ih_kind h, ih_payload_schema_version = ih_payload_schema_version h, ih_layout_hash = ih_layout_hash h,
    ih_robot_id = ih_robot_id h, ih_boot_id = ih_boot_id h, ih_source_id = ih_source_id h, ih_sequence = ih_sequence h,
    ih_monotonic_time_ns = ih_monotonic_time_ns h, ih_quality_bits = ih_quality_bits h\<rparr> = h"
  by simp

lemma decode_image:
  assumes "validate_header h = Ok ()" "validate_payload (ih_kind h) (length p) = Ok ()"
  shows "ipc_frame_decode (header_image h (length p) crc @ p) =
    (if crc32 p = crc then ipc_frame_new h p else Err (PayloadCrcMismatch crc (crc32 p)))"
proof -
  let ?d = "header_image h (length p) crc @ p"
  have len: "length p \<le> MAX_PAYLOAD_BYTES" by (rule validate_payload_bound [OF assms(2)])
  have "take HEADER_BYTES ?d = header_image h (length p) crc" "drop HEADER_BYTES ?d = p" by simp_all
  moreover have "HEADER_BYTES \<le> length ?d" by simp
  ultimately show ?thesis
    using len assms header_bytes_word payload_length_word [OF len]
    unfolding header_cells [OF \<open>HEADER_BYTES \<le> length ?d\<close>] ipc_frame_decode_def
    by (simp add: MAX_DATAGRAM_BYTES_def Let_def ipc_header_eta)
qed

lemma decode_Ok_image:
  assumes ok: "ipc_frame_decode d = Ok f"
  shows "\<exists>h p. ipc_frame_new h p = Ok f \<and> d = header_image h (length p) (crc32 p) @ p"
proof -
  obtain k where k: "kind_try_from (read_u16 d 8) = Ok k"
    using ok by (auto simp: ipc_frame_decode_def split: if_splits sum.splits)
  let ?h = "\<lparr>ih_kind = k, ih_payload_schema_version = read_u32 d 12, ih_layout_hash = read_u64 d 16, ih_robot_id = read_u64 d 24,
    ih_boot_id = read_u64 d 32, ih_source_id = read_u64 d 40, ih_sequence = read_u64 d 48, ih_monotonic_time_ns = read_u64 d 56,
    ih_quality_bits = read_u64 d 64\<rparr>"
  let ?p = "drop HEADER_BYTES d"
  have facts: "\<not> length d < HEADER_BYTES" "read_u32 d 0 = IPC_MAGIC" "read_u16 d 4 = IPC_VERSION" "unat (read_u16 d 6) = HEADER_BYTES"
      "read_u16 d 10 = 0" "length d = HEADER_BYTES + unat (read_u32 d 72)" "read_u32 d 76 = crc32 ?p" "ipc_frame_new ?h ?p = Ok f"
    using ok k by (simp_all add: ipc_frame_decode_def Let_def split: if_splits sum.splits)
  have len: "HEADER_BYTES \<le> length d" using facts(1) by simp
  have n: "length ?p = unat (read_u32 d 72)" using facts(6) by simp
  have "read_u32 d 72 = of_nat (length ?p)" unfolding n by simp
  moreover have "read_u16 d 6 = of_nat HEADER_BYTES" unfolding facts(4) [symmetric] by simp
  moreover have "read_u16 d 8 = kind_code k" using k by simp
  ultimately have "take HEADER_BYTES d = header_image ?h (length ?p) (crc32 ?p)"
    unfolding header_cells [OF len] using facts(2,3,5,7) by simp
  then have "d = header_image ?h (length ?p) (crc32 ?p) @ ?p" using append_take_drop_id [of HEADER_BYTES d] by simp
  with facts(8) show ?thesis by blast
qed

section \<open>Encoding and decoding\<close>

lemma encode_into_short: "length buffer < encoded_len f \<Longrightarrow> encode_into f buffer = (buffer, Err (OutputTooSmall (encoded_len f) (length buffer)))"
  by (simp add: encode_into_def)

text \<open>
  C24: The decoder accepts exactly what the encoder writes: a datagram decodes to a frame if and only if the frame
  can be constructed by \<open>new\<close> and \<open>encode_into\<close>, applied to it and any buffer whatever it holds, writes exactly
  this datagram to its front, keeps the rest and answers its length, or, if the buffer is shorter, refuses
  without touching it. So decoding inverts encoding, no two datagrams mean the same
  frame, and every bit of the header and the payload is determined.
\<close>

theorem ipc_decoder_accepts_encodings:
  "ipc_frame_decode d = Ok f \<longleftrightarrow>
     (\<exists>h p. ipc_frame_new h p = Ok f) \<and>
     (\<forall>buffer. encode_into f buffer =
        (if length buffer < encoded_len f then (buffer, Err (OutputTooSmall (encoded_len f) (length buffer)))
         else (d @ drop (length d) buffer, Ok (length d))))"
proof -
  have image: "encode_into f buffer = (if length buffer < encoded_len f
        then (buffer, Err (OutputTooSmall (encoded_len f) (length buffer)))
        else (datagram_of f @ drop (encoded_len f) buffer, Ok (encoded_len f)))"
      "datagram_of f = header_image h (length p) (crc32 p) @ p" "length (datagram_of f) = encoded_len f"
    if "ipc_frame_new h p = Ok f" for h p buffer
  proof -
    have p: "frame_payload f = p" by (rule frame_payload_new [OF that])
    have n: "if_payload_len f = length p" "if_header f = h" using that by (simp_all add: ipc_frame_new_Ok)
    show "encode_into f buffer = (if length buffer < encoded_len f
        then (buffer, Err (OutputTooSmall (encoded_len f) (length buffer)))
        else (datagram_of f @ drop (encoded_len f) buffer, Ok (encoded_len f)))"
      using encode_into_image [of f buffer] encode_into_short [of buffer f] p n by (simp add: not_less)
    show "datagram_of f = header_image h (length p) (crc32 p) @ p" using p n by (simp add: datagram_of_def)
    show "length (datagram_of f) = encoded_len f" using p n by (simp add: datagram_of_def encoded_len_def)
  qed
  show ?thesis (is "_ \<longleftrightarrow> _ \<and> (\<forall>buffer. ?writes buffer)")
  proof
    assume "ipc_frame_decode d = Ok f"
    then obtain h p where f: "ipc_frame_new h p = Ok f" and d: "d = header_image h (length p) (crc32 p) @ p"
      using decode_Ok_image by blast
    then have "?writes buffer" for buffer using image [OF f] by simp
    with f show "(\<exists>h p. ipc_frame_new h p = Ok f) \<and> (\<forall>buffer. ?writes buffer)" by blast
  next
    assume enc: "(\<exists>h p. ipc_frame_new h p = Ok f) \<and> (\<forall>buffer. ?writes buffer)"
    then obtain h p where f: "ipc_frame_new h p = Ok f" by blast
    have "?writes (replicate (encoded_len f) 0)" using enc by blast
    then have "d = header_image h (length p) (crc32 p) @ p" using image [OF f] by simp
    then show "ipc_frame_decode d = Ok f" using f decode_image [of h p "crc32 p"] by (simp add: ipc_frame_new_Ok)
  qed
qed

section \<open>What the CRC detects\<close>

text \<open>One step of the CRC is linear over exclusive or and injective.\<close>

lemma xor_zero_eq: "(a :: 'a :: len word) XOR b = 0 \<Longrightarrow> a = b"
proof -
  assume "a XOR b = 0"
  then have "(a XOR b) XOR b = b" by simp
  then show "a = b" by (simp add: xor.assoc)
qed

lemma crc_bit_odd: "crc_bit c = drop_bit 1 c XOR (if bit c 0 then CRC32_POLYNOMIAL else 0)"
proof -
  have "c AND 1 = (if bit c 0 then 1 else 0)" by (simp add: and_one_eq odd_iff_mod_2_eq_one bit_0)
  then show ?thesis by (simp add: crc_bit_def)
qed

lemma crc_bit_xor: "crc_bit (a XOR b) = crc_bit a XOR crc_bit b"
  by (rule bit_word_eqI) (auto simp: crc_bit_odd bit_simps)

lemma crc_bit_zero [simp]: "crc_bit 0 = 0"
  by (simp add: crc_bit_def)

lemma crc_bit_kernel:
  assumes "crc_bit c = 0"
  shows "c = 0"
proof (rule bit_word_eqI)
  have eq: "drop_bit 1 c = (if bit c 0 then CRC32_POLYNOMIAL else 0)"
    using assms unfolding crc_bit_odd by (rule xor_zero_eq)
  have "\<not> bit (drop_bit 1 c) 31" by (auto simp: bit_simps dest: bit_imp_le_length)
  moreover have "bit CRC32_POLYNOMIAL 31" by (simp add: CRC32_POLYNOMIAL_def)
  ultimately have low: "\<not> bit c 0" using eq by auto
  then have "drop_bit 1 c = 0" using eq by simp
  then have "\<not> bit (drop_bit 1 c) n" for n by simp
  then have high: "\<not> bit c (Suc n)" for n by (simp add: bit_drop_bit_eq)
  fix n show "bit c n = bit 0 n" using low high by (cases n) simp_all
qed

lemma crc_bits_xor: "(crc_bit ^^ k) (a XOR b) = (crc_bit ^^ k) a XOR (crc_bit ^^ k) b"
  by (induction k) (simp_all add: crc_bit_xor)

lemma crc_bits_zero [simp]: "(crc_bit ^^ k) 0 = 0"
  by (induction k) simp_all

lemma crc_bits_kernel: "(crc_bit ^^ k) c = 0 \<Longrightarrow> c = 0"
  by (induction k) (auto dest: crc_bit_kernel)

lemma crc_byte_xor: "crc_byte (s XOR t) (x XOR y) = crc_byte s x XOR crc_byte t y"
proof -
  have "ucast (x XOR y) = (ucast x XOR ucast y :: u32)" by (rule bit_word_eqI) (simp add: bit_simps)
  then have "(s XOR t) XOR ucast (x XOR y) = (s XOR ucast x) XOR (t XOR ucast y :: u32)" by (simp add: ac_simps)
  then show ?thesis unfolding crc_byte_def by (simp only: crc_bits_xor [symmetric])
qed

lemma crc_byte_inject: "crc_byte s x = crc_byte t x \<longleftrightarrow> s = t"
proof
  assume "crc_byte s x = crc_byte t x"
  then have "crc_byte (s XOR t) (x XOR x) = 0" unfolding crc_byte_xor by simp
  then have "(crc_bit ^^ 8) (s XOR t) = 0" by (simp add: crc_byte_def)
  then show "s = t" by (rule xor_zero_eq [OF crc_bits_kernel])
qed simp

lemma crc_bytes_inject: "foldl crc_byte s xs = foldl crc_byte t xs \<longleftrightarrow> s = t"
  by (induction xs arbitrary: s t) (simp_all add: crc_byte_inject)

lemma crc_bytes_xor:
  "length xs = length ys \<Longrightarrow>
     foldl crc_byte (s XOR t) (map2 (XOR) xs ys) = foldl crc_byte s xs XOR foldl crc_byte t ys"
  by (induction xs ys arbitrary: s t rule: list_induct2) (simp_all add: crc_byte_xor)

text \<open>Four bytes from the zero state are one word shifted through, so they leave a state other than zero.\<close>

lemma crc_bit_shift: "Suc m \<le> 24 \<Longrightarrow> crc_bit (push_bit (Suc m) (ucast (b :: u8))) = push_bit m (ucast b)"
  by (rule bit_word_eqI) (auto simp: crc_bit_odd bit_simps simp del: push_bit_Suc dest: bit_imp_le_length)

lemma crc_bits_shift: "k + m \<le> 24 \<Longrightarrow> (crc_bit ^^ k) (push_bit (k + m) (ucast (b :: u8))) = push_bit m (ucast b)"
  by (induction k) (simp_all add: crc_bit_shift funpow_Suc_right del: funpow.simps push_bit_Suc)

lemma crc_four_bytes: "foldl crc_byte 0 [a, b, c, d] = (crc_bit ^^ 32) (u32_from_le a b c d)"
proof -
  let ?T = "crc_bit ^^ 8" and ?w = "\<lambda>x :: u8. ucast x :: u32"
  have T: "?T (push_bit 8 (?w x)) = ?w x" "?T (push_bit 16 (?w x)) = push_bit 8 (?w x)"
      "?T (push_bit 24 (?w x)) = push_bit 16 (?w x)" for x
    using crc_bits_shift [of 8 0 x] crc_bits_shift [of 8 8 x] crc_bits_shift [of 8 16 x] by simp_all
  have split: "u32_from_le a b c d = ((?w a XOR push_bit 8 (?w b)) XOR push_bit 16 (?w c)) XOR push_bit 24 (?w d)"
    by (rule bit_word_eqI) (auto simp: u32_from_le_def bit_simps dest: bit_imp_le_length)
  have "crc_bit ^^ 32 = ?T \<circ> ?T \<circ> ?T \<circ> ?T" by (simp flip: funpow_add)
  then have "(crc_bit ^^ 32) (u32_from_le a b c d) = ?T (?T (?T (?T (u32_from_le a b c d))))" by simp
  also have "\<dots> = ?T (?T (?T (?T (?w a) XOR ?w b) XOR ?w c) XOR ?w d)"
    unfolding split crc_bits_xor T by simp
  finally show ?thesis by (simp add: crc_byte_def)
qed

lemma crc_zero_bytes: "foldl crc_byte 0 (replicate n 0) = 0"
  by (induction n) (simp_all add: crc_byte_def)

lemma length_four: "length xs = 4 \<Longrightarrow> \<exists>a b c d. xs = [a, b, c, d]"
  by (auto simp: length_Suc_conv numeral_eq_Suc)

lemma crc_short_nonzero:
  assumes "length e \<le> 4" "foldl crc_byte 0 e = 0"
  shows "e = replicate (length e) 0"
proof -
  let ?e = "replicate (4 - length e) 0 @ e"
  have "length ?e = 4" using assms(1) by simp
  then obtain a b c d where e: "?e = [a, b, c, d]"
    using length_four by blast
  have "foldl crc_byte 0 ?e = 0" using assms(2) crc_zero_bytes by simp
  then have "u32_from_le a b c d = 0" unfolding e crc_four_bytes by (rule crc_bits_kernel)
  then have "[a, b, c, d] = u32_to_le 0" using u32_to_from_le [of a b c d] by simp
  then have "?e = replicate 4 0" unfolding e by (simp add: u32_to_le_def numeral_eq_Suc)
  then have "set e \<subseteq> {0}" by (metis Un_subset_iff set_append set_replicate_conv_if subset_singleton_iff)
  then show ?thesis by (metis replicate_length_same singletonD subsetD)
qed

lemma crc_detects:
  assumes "length x = length y" "length y \<le> 4" "x \<noteq> y"
  shows "crc32 (u @ x @ v) \<noteq> crc32 (u @ y @ v)"
proof
  assume "crc32 (u @ x @ v) = crc32 (u @ y @ v)"
  then have "foldl crc_byte (foldl crc_byte (- 1) u) x = foldl crc_byte (foldl crc_byte (- 1) u) y"
    by (simp add: crc32_def crc_bytes_inject)
  then have zero: "foldl crc_byte 0 (map2 (XOR) x y) = 0"
    using crc_bytes_xor [OF assms(1), of "foldl crc_byte (- 1) u" "foldl crc_byte (- 1) u"] by simp
  have "map2 (XOR) x y = replicate (length (map2 (XOR) x y)) 0"
    by (rule crc_short_nonzero [OF _ zero]) (use assms in simp)
  then have zeros: "x ! i XOR y ! i = 0" if "i < length x" for i
    using that assms(1) by (metis (no_types, lifting) length_map length_zip min.idem nth_map nth_replicate nth_zip prod.case)
  have "x ! i = y ! i" if "i < length x" for i
    by (rule xor_zero_eq [OF zeros [OF that]])
  with assms(1,3) show False by (simp add: nth_equalityI)
qed

text \<open>
  C11: If up to four consecutive bytes of the payload of an accepted datagram are changed, in any way and at any
  position, the datagram is rejected, with the error that names both checksums.
\<close>

theorem payload_corruption_rejected:
  assumes accepted: "ipc_frame_decode (hdr @ u @ x @ v) = Ok f" and header: "length hdr = HEADER_BYTES"
    and burst: "length x = length y" "length y \<le> 4" "x \<noteq> y"
  shows "ipc_frame_decode (hdr @ u @ y @ v) = Err (PayloadCrcMismatch (crc32 (u @ x @ v)) (crc32 (u @ y @ v)))"
proof -
  obtain h p where f: "ipc_frame_new h p = Ok f" and d: "hdr @ u @ x @ v = header_image h (length p) (crc32 p) @ p"
    using decode_Ok_image [OF accepted] by blast
  have p: "p = u @ x @ v" and hdr: "hdr = header_image h (length (u @ y @ v)) (crc32 (u @ x @ v))"
    using d header burst(1) by auto
  have "validate_header h = Ok ()" "validate_payload (ih_kind h) (length (u @ y @ v)) = Ok ()"
    using f burst(1) by (simp_all add: ipc_frame_new_Ok p)
  then show ?thesis using decode_image [of h "u @ y @ v"] crc_detects [OF burst, of u v] by (simp add: hdr)
qed

definition event_header :: ipc_header where
  "event_header = \<lparr>ih_kind = MkEvent, ih_payload_schema_version = 7, ih_layout_hash = 0x1122, ih_robot_id = 23, ih_boot_id = 29,
     ih_source_id = 31, ih_sequence = 37, ih_monotonic_time_ns = 41, ih_quality_bits = 0x55aa\<rparr>"

theorem payload_corruption_rejected_witness:
  "ipc_frame_decode (header_image event_header 3 (crc32 [1, 2, 3]) @ [1] @ [7] @ [3]) =
     Err (PayloadCrcMismatch (crc32 [1, 2, 3]) (crc32 [1, 7, 3]))"
proof -
  have "ipc_frame_decode (header_image event_header 3 (crc32 [1, 2, 3]) @ [1, 2, 3]) = ipc_frame_new event_header [1, 2, 3]"
    using decode_image [of event_header "[1, 2, 3]" "crc32 [1, 2, 3]"] by (simp add: event_header_def validate_header_def validate_payload_def MAX_PAYLOAD_BYTES_def flip: numeral_3_eq_3)
  moreover have "ipc_frame_new event_header [1, 2, 3] = Ok \<lparr>if_header = event_header,
      if_payload = copy_at (replicate MAX_PAYLOAD_BYTES 0) 0 [1, 2, 3], if_payload_len = 3\<rparr>"
    by (simp add: ipc_frame_new_Ok event_header_def validate_header_def validate_payload_def MAX_PAYLOAD_BYTES_def)
  ultimately show ?thesis
    using payload_corruption_rejected [of "header_image event_header 3 (crc32 [1, 2, 3])" "[1]" "[2]" "[3]" _ "[7]"] by simp
qed

end
