(* ===== verification/Watchdog.thy ===== *)
theory Watchdog
  imports Slave_States Control_Pool System_Interfaces
begin

text \<open>
  The configuration of the watchdogs of the slaves (\<open>watchdog.rs\<close>): a plan of slaves, and a controller
  that writes each configured register and reads it back before it goes on to the next one. Completion
  means that every configured register was written and read back exactly, in plan order, in answers that count
  as acknowledgements, whatever responses were offered to the controller in between.
\<close>

section \<open>Plans\<close>

definition ESC_WATCHDOG_DIVIDER :: u16 where "ESC_WATCHDOG_DIVIDER = 0x0400"
definition ESC_PROCESS_DATA_WATCHDOG_TIME :: u16 where "ESC_PROCESS_DATA_WATCHDOG_TIME = 0x0420"
definition ESC_WATCHDOG_REGISTER_LEN :: nat where "ESC_WATCHDOG_REGISTER_LEN = 2"

datatype watchdog_config_error = WcEmpty | WcZeroDivider | WcZeroProcessDataIntervals

datatype watchdog_field = WfDivider | WfProcessDataIntervals

record esc_watchdog_config =
  ew_divider :: "u16 option"
  ew_process_data_intervals :: "u16 option"

definition watchdog_config_validate :: "esc_watchdog_config \<Rightarrow> (watchdog_config_error, unit) result" where
  "watchdog_config_validate c =
     (if ew_divider c = None \<and> ew_process_data_intervals c = None then Err WcEmpty
      else if ew_divider c = Some 0 then Err WcZeroDivider
      else if ew_process_data_intervals c = Some 0 then Err WcZeroProcessDataIntervals
      else Ok ())"

definition first_field :: "esc_watchdog_config \<Rightarrow> watchdog_field" where
  "first_field c = (if ew_divider c \<noteq> None then WfDivider else WfProcessDataIntervals)"

fun field_value :: "esc_watchdog_config \<Rightarrow> watchdog_field \<Rightarrow> u16 option" where
  "field_value c WfDivider = ew_divider c"
| "field_value c WfProcessDataIntervals = ew_process_data_intervals c"

fun field_register :: "watchdog_field \<Rightarrow> u16" where
  "field_register WfDivider = ESC_WATCHDOG_DIVIDER"
| "field_register WfProcessDataIntervals = ESC_PROCESS_DATA_WATCHDOG_TIME"

text \<open>\<open>WatchdogProgrammedSlave\<close> has the fields of a plan entry.\<close>

record watchdog_entry =
  we_position :: u16
  we_station_address :: u16
  we_config :: esc_watchdog_config

definition watchdog_entry_empty :: watchdog_entry where
  "watchdog_entry_empty = \<lparr>we_position = 0, we_station_address = 0,
     we_config = \<lparr>ew_divider = None, ew_process_data_intervals = None\<rparr>\<rparr>"

datatype watchdog_plan_error = WpCapacityExceeded | WpInvalidConfig u16 watchdog_config_error
  | WpDuplicatePosition u16 | WpDuplicateStationAddress u16

record watchdog_plan =
  wp_entries :: "watchdog_entry list"
  wp_len :: nat

definition watchdog_plan_new :: "nat \<Rightarrow> watchdog_plan" where
  "watchdog_plan_new MAX_SLAVES = \<lparr>wp_entries = replicate MAX_SLAVES watchdog_entry_empty, wp_len = 0\<rparr>"

definition plan_entries :: "watchdog_plan \<Rightarrow> watchdog_entry list" where
  "plan_entries p = take (wp_len p) (wp_entries p)"

definition watchdog_plan_push ::
  "nat \<Rightarrow> watchdog_plan \<Rightarrow> watchdog_entry \<Rightarrow> watchdog_plan \<times> (watchdog_plan_error, unit) result" where
  "watchdog_plan_push MAX_SLAVES p e =
     (case watchdog_config_validate (we_config e) of
        Inl err \<Rightarrow> (p, Err (WpInvalidConfig (we_position e) err))
      | Inr _ \<Rightarrow>
          if wp_len p = MAX_SLAVES then (p, Err WpCapacityExceeded)
          else if \<exists>c\<in>set (plan_entries p). we_position c = we_position e then (p, Err (WpDuplicatePosition (we_position e)))
          else if \<exists>c\<in>set (plan_entries p). we_station_address c = we_station_address e
            then (p, Err (WpDuplicateStationAddress (we_station_address e)))
          else (p\<lparr>wp_entries := (wp_entries p)[wp_len p := e], wp_len := wp_len p + 1\<rparr>, Ok ()))"

section \<open>The controller\<close>

record watchdog_controller_config =
  wcc_timeout_ns :: u64
  wcc_request_timeout_ns :: u64

definition watchdog_controller_config_new :: watchdog_controller_config where
  "watchdog_controller_config_new = \<lparr>wcc_timeout_ns = 1000000000, wcc_request_timeout_ns = 1000000\<rparr>"

datatype watchdog_phase = WdIdle | WdWriting | WdVerifying | WdComplete | WdFaulted

datatype watchdog_error = WdeBusy | WdeNotStarted | WdeNoPendingAction | WdeInvalidConfiguration | WdeDeadlineOverflow
  | WdeActionMismatch | WdeGenerationMismatch | WdePayloadLengthMismatch | WdeUnexpectedWorkingCounter
  | WdeReadbackMismatch u16 watchdog_field u16 u16 | WdeTimeout | WdeControl control_error

datatype watchdog_progress = WdAdvanced | WdCompleted

definition watchdog_controller_config_validate :: "watchdog_controller_config \<Rightarrow> (watchdog_error, unit) result" where
  "watchdog_controller_config_validate c =
     (if wcc_timeout_ns c = 0 \<or> wcc_request_timeout_ns c = 0 then Err WdeInvalidConfiguration else Ok ())"

record watchdog_action =
  wa_token :: u8
  wa_datagram_index :: u8
  wa_generation :: u16
  wa_position :: u16
  wa_station_address :: u16
  wa_field :: watchdog_field
  wa_operation :: register_operation
  wa_address :: u32
  wa_read_len :: u16
  wa_write_payload :: bytes
  wa_write_len :: u8
  wa_deadline_ns :: u64
  wa_expected_wkc :: u16

definition wa_payload :: "watchdog_action \<Rightarrow> bytes" where
  "wa_payload a = take (unat (wa_write_len a)) (wa_write_payload a)"

definition wa_datagram_len :: "watchdog_action \<Rightarrow> nat" where
  "wa_datagram_len a =
     (if unat (wa_write_len a) < unat (wa_read_len a) then unat (wa_read_len a) else unat (wa_write_len a))"

definition wa_response_len :: "watchdog_action \<Rightarrow> nat" where
  "wa_response_len a = unat (wa_read_len a)"

record watchdog_controller =
  wd_phase :: watchdog_phase
  wd_config :: watchdog_controller_config
  wd_generation :: u16
  wd_deadline_ns :: u64
  wd_plan :: "watchdog_entry list"
  wd_plan_len :: nat
  wd_current_index :: nat
  wd_current_field :: watchdog_field
  wd_staged :: "watchdog_entry list"
  wd_published_len :: nat
  wd_completed_action_count :: nat
  wd_pending :: "watchdog_action option"
  wd_next_token :: u8
  wd_next_datagram_index :: u8
  wd_last_error :: "watchdog_error option"

definition watchdog_new :: "nat \<Rightarrow> watchdog_controller" where
  "watchdog_new MAX_SLAVES = \<lparr>wd_phase = WdIdle, wd_config = watchdog_controller_config_new, wd_generation = 0,
     wd_deadline_ns = 0, wd_plan = replicate MAX_SLAVES watchdog_entry_empty, wd_plan_len = 0, wd_current_index = 0,
     wd_current_field = WfDivider, wd_staged = replicate MAX_SLAVES watchdog_entry_empty, wd_published_len = 0,
     wd_completed_action_count = 0, wd_pending = None, wd_next_token = 1, wd_next_datagram_index = 1, wd_last_error = None\<rparr>"

definition programmed_slaves :: "watchdog_controller \<Rightarrow> watchdog_entry list" where
  "programmed_slaves c = take (wd_published_len c) (wd_staged c)"

definition programmed_slave :: "watchdog_controller \<Rightarrow> u16 \<Rightarrow> watchdog_entry option" where
  "programmed_slave c p = find (\<lambda>s. we_position s = p) (programmed_slaves c)"

definition wd_failed :: "watchdog_controller \<Rightarrow> watchdog_error \<Rightarrow> watchdog_controller" where
  "wd_failed c e = c\<lparr>wd_phase := WdFaulted, wd_pending := None, wd_published_len := 0,
     wd_last_error := (if wd_last_error c = None then Some e else wd_last_error c)\<rparr>"

definition wd_fail :: "watchdog_controller \<Rightarrow> watchdog_error \<Rightarrow> watchdog_controller \<times> (watchdog_error, 'a) result" where
  "wd_fail c e = (wd_failed c e, Err e)"

definition wd_cleared :: "nat \<Rightarrow> watchdog_controller \<Rightarrow> watchdog_error \<Rightarrow> watchdog_controller" where
  "wd_cleared MAX_SLAVES c e = c\<lparr>wd_phase := WdFaulted, wd_plan := replicate MAX_SLAVES watchdog_entry_empty,
     wd_plan_len := 0, wd_current_index := 0, wd_staged := replicate MAX_SLAVES watchdog_entry_empty,
     wd_published_len := 0, wd_completed_action_count := 0, wd_pending := None, wd_last_error := Some e\<rparr>"

definition wd_start_failed ::
  "nat \<Rightarrow> watchdog_controller \<Rightarrow> watchdog_error \<Rightarrow> watchdog_controller \<times> (watchdog_error, 'a) result" where
  "wd_start_failed MAX_SLAVES c e = (wd_cleared MAX_SLAVES c e, Err e)"

definition wd_reset_for_start ::
  "nat \<Rightarrow> watchdog_controller \<Rightarrow> watchdog_controller_config \<Rightarrow> u16 \<Rightarrow> u64 \<Rightarrow> watchdog_controller" where
  "wd_reset_for_start MAX_SLAVES c config generation deadline = c\<lparr>wd_config := config, wd_generation := generation,
     wd_deadline_ns := deadline, wd_plan := replicate MAX_SLAVES watchdog_entry_empty, wd_plan_len := 0,
     wd_current_index := 0, wd_current_field := WfDivider, wd_staged := replicate MAX_SLAVES watchdog_entry_empty,
     wd_published_len := 0, wd_completed_action_count := 0, wd_pending := None, wd_next_token := 1,
     wd_next_datagram_index := 1, wd_last_error := None\<rparr>"

definition wd_start ::
  "nat \<Rightarrow> watchdog_controller \<Rightarrow> watchdog_controller_config \<Rightarrow> watchdog_plan \<Rightarrow> u16 \<Rightarrow> u64 \<Rightarrow>
     watchdog_controller \<times> (watchdog_error, unit) result" where
  "wd_start MAX_SLAVES c config plan generation now =
     (if \<not> (wd_phase c = WdIdle \<or> wd_phase c = WdComplete \<or> wd_phase c = WdFaulted) then (c, Err WdeBusy)
      else case watchdog_controller_config_validate config of
        Inl e \<Rightarrow> wd_start_failed MAX_SLAVES c e
      | Inr _ \<Rightarrow>
          (case checked_add now (wcc_timeout_ns config) of
             None \<Rightarrow> wd_start_failed MAX_SLAVES c WdeDeadlineOverflow
           | Some deadline \<Rightarrow>
               let c1 = wd_reset_for_start MAX_SLAVES c config generation deadline
               in if wp_len plan = 0 then (c1\<lparr>wd_phase := WdComplete\<rparr>, Ok ())
                  else
                    let c2 = c1\<lparr>wd_plan := copy_at (wd_plan c1) 0 (plan_entries plan), wd_plan_len := wp_len plan\<rparr>
                    in (c2\<lparr>wd_current_field := first_field (we_config (wd_plan c2 ! 0)), wd_phase := WdWriting\<rparr>, Ok ())))"

definition wd_next_action ::
  "watchdog_controller \<Rightarrow> u64 \<Rightarrow> watchdog_controller \<times> (watchdog_error, watchdog_action option) result" where
  "wd_next_action c now =
     (if wd_phase c = WdIdle then (c, Err WdeNotStarted)
      else if wd_phase c = WdComplete \<or> wd_phase c = WdFaulted then (c, Ok None)
      else case wd_pending c of
        Some a \<Rightarrow> (c, Ok (Some a))
      | None \<Rightarrow>
          if wd_deadline_ns c \<le> now then wd_fail c WdeTimeout
          else case checked_add now (wcc_request_timeout_ns (wd_config c)) of
            None \<Rightarrow> wd_fail c WdeDeadlineOverflow
          | Some deadline \<Rightarrow>
              let entry = wd_plan c ! wd_current_index c
              in case field_value (we_config entry) (wd_current_field c) of
                None \<Rightarrow> wd_fail c WdeInvalidConfiguration
              | Some v \<Rightarrow>
                  let (operation, read_len, write_len, payload) =
                        (if wd_phase c = WdWriting then (RegWrite, 0, 2, u16_to_le v) else (RegRead, 2, 0, [0, 0]));
                      a = \<lparr>wa_token = wd_next_token c, wa_datagram_index = wd_next_datagram_index c,
                           wa_generation = wd_generation c, wa_position = we_position entry,
                           wa_station_address = we_station_address entry, wa_field = wd_current_field c,
                           wa_operation = operation,
                           wa_address = fixed_address (we_station_address entry) (field_register (wd_current_field c)),
                           wa_read_len = read_len, wa_write_payload = payload, wa_write_len = write_len,
                           wa_deadline_ns = min deadline (wd_deadline_ns c), wa_expected_wkc = 1\<rparr>
                  in (c\<lparr>wd_next_token := max (wd_next_token c + 1) 1,
                        wd_next_datagram_index := max (wd_next_datagram_index c + 1) 1,
                        wd_pending := Some a\<rparr>, Ok (Some a)))"

definition wd_enqueue_pending ::
  "nat \<Rightarrow> watchdog_controller \<Rightarrow> control_pool \<Rightarrow> control_pool \<times> (control_error, nat) result" where
  "wd_enqueue_pending REQUESTS c pool =
     (case wd_pending c of
        None \<Rightarrow> (pool, Err CeInvalidState)
      | Some a \<Rightarrow> control_acquire_with_response_len REQUESTS pool (wa_datagram_index a) (wa_generation a)
          (wa_address a) (wa_operation a) (wa_payload a) (wa_datagram_len a) (wa_deadline_ns a))"

definition wd_advance_after_readback :: "watchdog_controller \<Rightarrow> watchdog_controller \<times> watchdog_progress" where
  "wd_advance_after_readback c =
     (let entry = wd_plan c ! wd_current_index c
      in if wd_current_field c = WfDivider \<and> ew_process_data_intervals (we_config entry) \<noteq> None
         then (c\<lparr>wd_current_field := WfProcessDataIntervals, wd_phase := WdWriting\<rparr>, WdAdvanced)
         else
           let c1 = c\<lparr>wd_staged := (wd_staged c)[wd_current_index c := entry], wd_current_index := wd_current_index c + 1\<rparr>
           in if wd_current_index c1 = wd_plan_len c1
              then (c1\<lparr>wd_phase := WdComplete, wd_published_len := wd_plan_len c1\<rparr>, WdCompleted)
              else (c1\<lparr>wd_current_field := first_field (we_config (wd_plan c1 ! wd_current_index c1)),
                      wd_phase := WdWriting\<rparr>, WdAdvanced))"

definition wd_accept ::
  "watchdog_controller \<Rightarrow> watchdog_action \<Rightarrow> u16 \<Rightarrow> bytes \<Rightarrow> u16 \<Rightarrow> u64 \<Rightarrow>
     watchdog_controller \<times> (watchdog_error, watchdog_progress) result" where
  "wd_accept c a generation payload working_counter now =
     (if wd_pending c \<noteq> Some a then wd_fail c WdeActionMismatch
      else if wa_generation a \<noteq> generation then wd_fail c WdeGenerationMismatch
      else if wa_deadline_ns a < now then wd_fail c WdeTimeout
      else if working_counter \<noteq> wa_expected_wkc a then wd_fail c WdeUnexpectedWorkingCounter
      else if length payload \<noteq> wa_response_len a then wd_fail c WdePayloadLengthMismatch
      else
        let c1 = c\<lparr>wd_completed_action_count := wd_completed_action_count c + 1\<rparr>
        in if wd_phase c1 = WdWriting then (c1\<lparr>wd_phase := WdVerifying, wd_pending := None\<rparr>, Ok WdAdvanced)
           else if wd_phase c1 = WdVerifying then
             (if length payload \<noteq> 2 then wd_fail c1 WdePayloadLengthMismatch
              else
                let actual = u16_from_le (payload ! 0) (payload ! 1)
                in case field_value (we_config (wd_plan c1 ! wd_current_index c1)) (wd_current_field c1) of
                     None \<Rightarrow> wd_fail c1 WdeInvalidConfiguration
                   | Some expected \<Rightarrow>
                       if actual \<noteq> expected
                       then wd_fail c1 (WdeReadbackMismatch (wa_position a) (wa_field a) expected actual)
                       else (case wd_advance_after_readback c1 of
                               (c2, progress) \<Rightarrow> (c2\<lparr>wd_pending := None\<rparr>, Ok progress)))
           else wd_fail c1 WdeNoPendingAction)"

definition wd_timeout ::
  "watchdog_controller \<Rightarrow> watchdog_action \<Rightarrow> u64 \<Rightarrow> watchdog_controller \<times> (watchdog_error, watchdog_progress) result" where
  "wd_timeout c a now =
     (if wd_pending c \<noteq> Some a then wd_fail c WdeActionMismatch
      else if now < wa_deadline_ns a then (c, Err WdeTimeout)
      else wd_fail c WdeTimeout)"

definition wd_request_matches :: "watchdog_action \<Rightarrow> control_request \<Rightarrow> bool" where
  "wd_request_matches a r = matches_action r (wa_datagram_index a) (wa_generation a) (wa_address a) (wa_operation a)
     (wa_payload a) (wa_datagram_len a) (wa_deadline_ns a)"

definition wd_accept_completed ::
  "nat \<Rightarrow> watchdog_controller \<Rightarrow> control_pool \<Rightarrow> nat \<Rightarrow> u64 \<Rightarrow>
     watchdog_controller \<times> control_pool \<times> (watchdog_error, watchdog_progress) result" where
  "wd_accept_completed REQUESTS c pool h now =
     (case wd_pending c of
        None \<Rightarrow> (case wd_fail c WdeNoPendingAction of (c1, r) \<Rightarrow> (c1, pool, r))
      | Some a \<Rightarrow>
          (case control_get REQUESTS pool h of
             None \<Rightarrow> (case wd_fail c (WdeControl CeInvalidHandle) of (c1, r) \<Rightarrow> (c1, pool, r))
           | Some q \<Rightarrow>
               if cr_state q = RsComplete then
                 if \<not> wd_request_matches a q then
                   (case wd_fail c WdeActionMismatch of (c1, r) \<Rightarrow> (c1, fst (control_release REQUESTS pool h), r))
                 else
                   let response = copy_at (replicate MAX_CONTROL_PAYLOAD 0) 0 (request_payload q);
                       (c1, progress) = wd_accept c a (cr_generation q) (take (wa_response_len a) response) (cr_actual_wkc q) now;
                       (pool1, release) = control_release REQUESTS pool h
                   in (case (progress, release) of
                         (Inr p, Inr _) \<Rightarrow> (c1, pool1, Ok p)
                       | (Inr _, Inl e) \<Rightarrow> (case wd_fail c1 (WdeControl e) of (c2, r) \<Rightarrow> (c2, pool1, r))
                       | (Inl e, _) \<Rightarrow> (c1, pool1, Err e))
               else if cr_state q = RsFailed then
                 if \<not> wd_request_matches a q then
                   (case wd_fail c WdeActionMismatch of (c1, r) \<Rightarrow> (c1, fst (control_release REQUESTS pool h), r))
                 else
                   let e = (case cr_last_error q of None \<Rightarrow> CeInvalidState | Some e \<Rightarrow> e)
                   in (case control_release REQUESTS pool h of
                         (pool1, Inl release_error) \<Rightarrow>
                           (case wd_fail c (WdeControl release_error) of (c1, r) \<Rightarrow> (c1, pool1, r))
                       | (pool1, Inr _) \<Rightarrow>
                           (case (if e = CeTimeout then wd_timeout c a now else wd_fail c (WdeControl e)) of
                              (c1, r) \<Rightarrow> (c1, pool1, r)))
               else (c, pool, Err (WdeControl CeInvalidState))))"

section \<open>Plans built by push\<close>

definition build_plan :: "nat \<Rightarrow> watchdog_entry list \<Rightarrow> watchdog_plan" where
  "build_plan MAX_SLAVES es = foldl (\<lambda>p e. fst (watchdog_plan_push MAX_SLAVES p e)) (watchdog_plan_new MAX_SLAVES) es"

definition valid_entries :: "nat \<Rightarrow> watchdog_entry list \<Rightarrow> bool" where
  "valid_entries MAX_SLAVES es \<longleftrightarrow> length es \<le> MAX_SLAVES \<and> distinct (map we_position es) \<and>
     distinct (map we_station_address es) \<and> (\<forall>e\<in>set es. watchdog_config_validate (we_config e) = Ok ())"

definition plan_ok :: "nat \<Rightarrow> watchdog_plan \<Rightarrow> bool" where
  "plan_ok MAX_SLAVES p \<longleftrightarrow> length (wp_entries p) = MAX_SLAVES \<and> wp_len p \<le> MAX_SLAVES \<and> valid_entries MAX_SLAVES (plan_entries p)"

lemma watchdog_plan_new_ok: "plan_ok MAX_SLAVES (watchdog_plan_new MAX_SLAVES)"
  by (simp add: plan_ok_def watchdog_plan_new_def plan_entries_def valid_entries_def)

lemma plan_push_ok:
  assumes "plan_ok MAX_SLAVES p"
  shows "plan_ok MAX_SLAVES (fst (watchdog_plan_push MAX_SLAVES p e))"
proof (cases "snd (watchdog_plan_push MAX_SLAVES p e)")
  case (Inl err)
  then have "fst (watchdog_plan_push MAX_SLAVES p e) = p"
    by (auto simp: watchdog_plan_push_def split: sum.splits if_splits)
  with assms show ?thesis by simp
next
  case (Inr u)
  let ?p = "p\<lparr>wp_entries := (wp_entries p)[wp_len p := e], wp_len := wp_len p + 1\<rparr>"
  have push: "fst (watchdog_plan_push MAX_SLAVES p e) = ?p" "watchdog_config_validate (we_config e) = Ok ()" "wp_len p \<noteq> MAX_SLAVES"
      "\<not> (\<exists>c\<in>set (plan_entries p). we_position c = we_position e)"
      "\<not> (\<exists>c\<in>set (plan_entries p). we_station_address c = we_station_address e)"
    using Inr by (auto simp: watchdog_plan_push_def split: sum.splits if_splits)
  have len: "wp_len p < length (wp_entries p)" using assms push(3) by (auto simp: plan_ok_def)
  then have "plan_entries ?p = plan_entries p @ [e]" by (simp add: plan_entries_def take_Suc_conv_app_nth)
  with assms push len show ?thesis by (auto simp: plan_ok_def valid_entries_def plan_entries_def)
qed

lemma build_plan_ok: "plan_ok MAX_SLAVES (build_plan MAX_SLAVES es)"
proof -
  have "plan_ok MAX_SLAVES (foldl (\<lambda>p e. fst (watchdog_plan_push MAX_SLAVES p e)) p es)" if "plan_ok MAX_SLAVES p" for p
    using that by (induction es arbitrary: p) (auto intro: plan_push_ok)
  then show ?thesis using watchdog_plan_new_ok by (auto simp: build_plan_def)
qed

section \<open>The script of a plan\<close>

text \<open>The register accesses that a plan asks for: station and register, direction and the two bytes on the wire.\<close>

type_synonym register_access = "u32 \<times> register_operation \<times> bytes"

definition field_script :: "watchdog_entry \<Rightarrow> watchdog_field \<Rightarrow> register_access list" where
  "field_script e f = (case field_value (we_config e) f of
       None \<Rightarrow> []
     | Some v \<Rightarrow> let address = fixed_address (we_station_address e) (field_register f)
         in [(address, RegWrite, u16_to_le v), (address, RegRead, u16_to_le v)])"

definition entry_script :: "watchdog_entry \<Rightarrow> register_access list" where
  "entry_script e = field_script e WfDivider @ field_script e WfProcessDataIntervals"

definition plan_script :: "watchdog_entry list \<Rightarrow> register_access list" where
  "plan_script es = concat (map entry_script es)"

text \<open>The part of the script before a field of an entry, with its write when it has been verified only in part.\<close>

definition script_before :: "watchdog_entry list \<Rightarrow> nat \<Rightarrow> watchdog_field \<Rightarrow> bool \<Rightarrow> register_access list" where
  "script_before es i f written =
     plan_script (take i es) @ (if f = WfProcessDataIntervals then field_script (es ! i) WfDivider else []) @
     (if written then take 1 (field_script (es ! i) f) else [])"

section \<open>Histories\<close>

datatype watchdog_op = WdoStart watchdog_controller_config "watchdog_entry list" u16 u64
  | WdoNext u64
  | WdoAccept watchdog_action u16 bytes u16 u64
  | WdoTimeout watchdog_action u64
  | WdoCompleted nat control_pool nat u64

text \<open>The controller with the plan, the generation and the deadline of the last accepted start, and the
  accesses that slaves have acknowledged since.\<close>

record watchdog_history =
  wh_controller :: watchdog_controller
  wh_plan :: "watchdog_entry list"
  wh_acknowledged :: "register_access list"
  wh_generation :: u16
  wh_deadline :: u64

definition history_start :: "nat \<Rightarrow> watchdog_history" where
  "history_start MAX_SLAVES = \<lparr>wh_controller = watchdog_new MAX_SLAVES, wh_plan = [], wh_acknowledged = [], wh_generation = 0, wh_deadline = 0\<rparr>"

definition access_of :: "watchdog_action \<Rightarrow> bytes \<Rightarrow> register_access" where
  "access_of a payload = (wa_address a, wa_operation a, if wa_operation a = RegWrite then wa_payload a else payload)"

text \<open>What counts as acknowledged is read off the answer and not off what the controller makes of it: the
  answer is to the pending action, of the generation of the run, with working counter 1, of the length that was
  asked for, and it arrives before the deadlines of the action and of the run. A completed request of the pool is
  such an answer if it carries the index, the address and the operation of the action.\<close>

definition completed_response :: "control_request \<Rightarrow> watchdog_action \<Rightarrow> bytes" where
  "completed_response q a = take (wa_response_len a) (copy_at (replicate MAX_CONTROL_PAYLOAD 0) 0 (request_payload q))"

definition answers_action :: "watchdog_action \<Rightarrow> control_request \<Rightarrow> bool" where
  "answers_action a q \<longleftrightarrow> cr_state q = RsComplete \<and> cr_action_datagram_index q = wa_datagram_index a \<and>
     cr_address q = wa_address a \<and> cr_operation q = wa_operation a"

definition acknowledged_answer ::
  "watchdog_history \<Rightarrow> watchdog_action \<Rightarrow> u16 \<Rightarrow> bytes \<Rightarrow> u16 \<Rightarrow> u64 \<Rightarrow> register_access list" where
  "acknowledged_answer s a generation payload wkc now =
     (if wd_pending (wh_controller s) = Some a \<and> generation = wh_generation s \<and> wkc = 1 \<and>
         length payload = wa_response_len a \<and> now \<le> wa_deadline_ns a \<and> now \<le> wh_deadline s
      then [access_of a payload] else [])"

fun acknowledged_access :: "watchdog_history \<Rightarrow> watchdog_op \<Rightarrow> register_access list" where
  "acknowledged_access s (WdoAccept a generation payload wkc now) = acknowledged_answer s a generation payload wkc now"
| "acknowledged_access s (WdoCompleted REQUESTS pool h now) =
     (case (wd_pending (wh_controller s), control_get REQUESTS pool h) of
        (Some a, Some q) \<Rightarrow>
          if answers_action a q
          then acknowledged_answer s a (cr_generation q) (completed_response q a) (cr_actual_wkc q) now else []
      | _ \<Rightarrow> [])"
| "acknowledged_access s _ = []"

fun controller_after :: "nat \<Rightarrow> watchdog_controller \<Rightarrow> watchdog_op \<Rightarrow> watchdog_controller" where
  "controller_after MAX_SLAVES c (WdoStart config es generation now) = fst (wd_start MAX_SLAVES c config (build_plan MAX_SLAVES es) generation now)"
| "controller_after MAX_SLAVES c (WdoNext now) = fst (wd_next_action c now)"
| "controller_after MAX_SLAVES c (WdoAccept a generation payload wkc now) = fst (wd_accept c a generation payload wkc now)"
| "controller_after MAX_SLAVES c (WdoTimeout a now) = fst (wd_timeout c a now)"
| "controller_after MAX_SLAVES c (WdoCompleted REQUESTS pool h now) = fst (wd_accept_completed REQUESTS c pool h now)"

definition history_exec :: "nat \<Rightarrow> watchdog_history \<Rightarrow> watchdog_op \<Rightarrow> watchdog_history" where
  "history_exec MAX_SLAVES s op =
     (let c = wh_controller s; c1 = controller_after MAX_SLAVES c op
      in case op of
        WdoStart config es generation now \<Rightarrow>
          (case snd (wd_start MAX_SLAVES c config (build_plan MAX_SLAVES es) generation now) of
             Inl _ \<Rightarrow> s\<lparr>wh_controller := c1\<rparr>
           | Inr _ \<Rightarrow> \<lparr>wh_controller = c1, wh_plan = plan_entries (build_plan MAX_SLAVES es), wh_acknowledged = [],
               wh_generation = generation, wh_deadline = now + wcc_timeout_ns config\<rparr>)
      | _ \<Rightarrow> s\<lparr>wh_controller := c1, wh_acknowledged := wh_acknowledged s @ acknowledged_access s op\<rparr>)"

section \<open>The invariant\<close>

definition wd_active :: "watchdog_controller \<Rightarrow> bool" where
  "wd_active c \<longleftrightarrow> wd_phase c = WdWriting \<or> wd_phase c = WdVerifying"

definition pending_fits :: "watchdog_controller \<Rightarrow> watchdog_entry list \<Rightarrow> bool" where
  "pending_fits c es \<longleftrightarrow>
     (case wd_pending c of
        None \<Rightarrow> True
      | Some a \<Rightarrow> wd_active c \<and>
          wa_address a = fixed_address (we_station_address (es ! wd_current_index c)) (field_register (wd_current_field c)) \<and>
          (if wd_phase c = WdWriting
           then wa_operation a = RegWrite \<and> Some (wa_payload a) = map_option u16_to_le (field_value (we_config (es ! wd_current_index c)) (wd_current_field c)) \<and>
             wa_response_len a = 0
           else wa_operation a = RegRead \<and> wa_response_len a = 2))"

definition active_ok :: "nat \<Rightarrow> watchdog_controller \<Rightarrow> watchdog_entry list \<Rightarrow> register_access list \<Rightarrow> bool" where
  "active_ok MAX_SLAVES c es log \<longleftrightarrow>
     valid_entries MAX_SLAVES es \<and> wd_plan_len c = length es \<and> take (length es) (wd_plan c) = es \<and>
     length (wd_staged c) = MAX_SLAVES \<and> take (wd_current_index c) (wd_staged c) = take (wd_current_index c) es \<and>
     wd_completed_action_count c = length log \<and>
     (if wd_active c
      then wd_current_index c < length es \<and> wd_published_len c = 0 \<and>
        field_value (we_config (es ! wd_current_index c)) (wd_current_field c) \<noteq> None \<and>
        log = script_before es (wd_current_index c) (wd_current_field c) (wd_phase c = WdVerifying)
      else wd_current_index c = length es \<and> wd_published_len c = length es \<and> log = plan_script es)"

definition script_inv :: "nat \<Rightarrow> watchdog_history \<Rightarrow> bool" where
  "script_inv MAX_SLAVES s \<longleftrightarrow>
     (let c = wh_controller s
      in pending_fits c (wh_plan s) \<and>
         (if wd_active c \<or> wd_phase c = WdComplete then active_ok MAX_SLAVES c (wh_plan s) (wh_acknowledged s)
          else wd_published_len c = 0))"

text \<open>A run that goes on has the generation and the deadline of its start, and so has its pending action.\<close>

definition run_fits :: "watchdog_history \<Rightarrow> bool" where
  "run_fits s \<longleftrightarrow>
     (let c = wh_controller s
      in wd_active c \<longrightarrow> wd_generation c = wh_generation s \<and> wd_deadline_ns c = wh_deadline s \<and>
         (\<forall>a. wd_pending c = Some a \<longrightarrow> wa_generation a = wh_generation s \<and> wa_expected_wkc a = 1 \<and>
            wa_deadline_ns a \<le> wh_deadline s))"

definition history_inv :: "nat \<Rightarrow> watchdog_history \<Rightarrow> bool" where
  "history_inv MAX_SLAVES s \<longleftrightarrow> script_inv MAX_SLAVES s \<and> run_fits s"

lemma history_start_inv: "history_inv MAX_SLAVES (history_start MAX_SLAVES)"
  by (simp add: history_inv_def run_fits_def script_inv_def history_start_def watchdog_new_def pending_fits_def wd_active_def)

lemma fst_wd_fail [simp]: "fst (wd_fail c e) = wd_failed c e" "snd (wd_fail c e) = Err e"
  by (simp_all add: wd_fail_def)

lemma failed_inv [simp]:
  "script_inv MAX_SLAVES (s\<lparr>wh_controller := wd_failed c e\<rparr>)"
  "script_inv MAX_SLAVES \<lparr>wh_controller = wd_failed c e, wh_plan = es, wh_acknowledged = log, wh_generation = g, wh_deadline = d\<rparr>"
  by (simp_all add: script_inv_def wd_failed_def pending_fits_def wd_active_def)

lemma first_field_value: "watchdog_config_validate c = Ok () \<Longrightarrow> field_value c (first_field c) \<noteq> None"
  by (auto simp: watchdog_config_validate_def first_field_def split: if_splits)

lemma first_field_script: "i < length es \<Longrightarrow> script_before es i (first_field (we_config (es ! i))) False = plan_script (take i es)"
  by (simp add: script_before_def first_field_def field_script_def)

lemma start_inv:
  assumes "wd_start MAX_SLAVES c config (build_plan MAX_SLAVES es) generation now = (c1, Inr u)"
  shows "script_inv MAX_SLAVES \<lparr>wh_controller = c1, wh_plan = plan_entries (build_plan MAX_SLAVES es), wh_acknowledged = [],
    wh_generation = g, wh_deadline = d\<rparr>"
proof -
  let ?p = "build_plan MAX_SLAVES es"
  obtain deadline where deadline: "checked_add now (wcc_timeout_ns config) = Some deadline"
    using assms by (auto simp: wd_start_def wd_start_failed_def split: if_splits sum.splits option.splits)
  let ?c = "wd_reset_for_start MAX_SLAVES c config generation deadline"
  have p: "plan_ok MAX_SLAVES ?p" by (rule build_plan_ok)
  have len: "length (plan_entries ?p) = wp_len ?p" "wp_len ?p \<le> MAX_SLAVES" using p by (simp_all add: plan_ok_def plan_entries_def)
  show ?thesis
  proof (cases "wp_len ?p = 0")
    case True
    then have "c1 = ?c\<lparr>wd_phase := WdComplete\<rparr>" "plan_entries ?p = []"
      using assms deadline len
      by (auto simp: wd_start_def wd_start_failed_def Let_def split: if_splits sum.splits)
    then show ?thesis
      by (simp add: script_inv_def wd_reset_for_start_def pending_fits_def wd_active_def active_ok_def valid_entries_def plan_script_def)
  next
    case False
    let ?plan = "copy_at (replicate MAX_SLAVES watchdog_entry_empty) 0 (plan_entries ?p)"
    have plan: "take (wp_len ?p) ?plan = plan_entries ?p" using len by (simp add: copy_at_def)
    then have first: "?plan ! 0 = plan_entries ?p ! 0" using False len by (metis gr_zeroI nth_take)
    have c1: "c1 = ?c\<lparr>wd_plan := ?plan, wd_plan_len := wp_len ?p, wd_current_field := first_field (we_config (plan_entries ?p ! 0)),
        wd_phase := WdWriting\<rparr>"
      using assms deadline False first
      by (auto simp: wd_start_def wd_start_failed_def Let_def wd_reset_for_start_def split: if_splits sum.splits)
    have valid: "valid_entries MAX_SLAVES (plan_entries ?p)" using p by (simp add: plan_ok_def)
    then have "watchdog_config_validate (we_config (plan_entries ?p ! 0)) = Ok ()" using len False by (simp add: valid_entries_def)
    from first_field_value [OF this] show ?thesis
      using valid plan len False first_field_script [of 0 "plan_entries ?p"]
      by (simp add: c1 script_inv_def wd_reset_for_start_def pending_fits_def wd_active_def active_ok_def plan_script_def)
  qed
qed

lemma pending_none_inv:
  "script_inv MAX_SLAVES s \<Longrightarrow> \<not> wd_active (wh_controller s) \<Longrightarrow> wd_pending (wh_controller s) = None"
  by (simp add: script_inv_def Let_def pending_fits_def split: option.splits)

lemma next_action_inv:
  assumes inv: "script_inv MAX_SLAVES s"
  shows "script_inv MAX_SLAVES (s\<lparr>wh_controller := fst (wd_next_action (wh_controller s) now)\<rparr>)"
proof -
  let ?c = "wh_controller s"
  have keep: ?thesis if "fst (wd_next_action ?c now) = ?c" using that inv by simp
  show ?thesis
  proof (cases "wd_active ?c \<and> wd_pending ?c = None")
    case False
    then show ?thesis
      by (intro keep) (cases "wd_phase ?c"; auto simp: wd_next_action_def wd_active_def)
  next
    case True
    then have act: "active_ok MAX_SLAVES ?c (wh_plan s) (wh_acknowledged s)" using inv by (simp add: script_inv_def Let_def)
    have ph: "wd_phase ?c \<noteq> WdIdle" "wd_phase ?c \<noteq> WdComplete" "wd_phase ?c \<noteq> WdFaulted"
      using True by (auto simp: wd_active_def)
    have entry: "wd_plan ?c ! wd_current_index ?c = wh_plan s ! wd_current_index ?c"
      using act True by (auto simp: active_ok_def) (metis nth_take)
    obtain v where v: "field_value (we_config (wh_plan s ! wd_current_index ?c)) (wd_current_field ?c) = Some v"
      using act True by (auto simp: active_ok_def)
    show ?thesis
    proof (cases "wd_deadline_ns ?c \<le> now \<or> checked_add now (wcc_request_timeout_ns (wd_config ?c)) = None")
      case F: True
      then show ?thesis
        using ph True by (auto simp: wd_next_action_def)
    next
      case F: False
      then obtain a where c1: "fst (wd_next_action ?c now) = ?c\<lparr>wd_next_token := max (wd_next_token ?c + 1) 1,
            wd_next_datagram_index := max (wd_next_datagram_index ?c + 1) 1, wd_pending := Some a\<rparr>"
          and a: "wa_address a = fixed_address (we_station_address (wh_plan s ! wd_current_index ?c)) (field_register (wd_current_field ?c))"
          "if wd_phase ?c = WdWriting then wa_operation a = RegWrite \<and> wa_payload a = u16_to_le v \<and> wa_response_len a = 0
           else wa_operation a = RegRead \<and> wa_response_len a = 2"
        using ph True v entry
        by (cases "wd_phase ?c = WdWriting") (auto simp: wd_next_action_def Let_def wa_payload_def wa_response_len_def u16_to_le_def)
      show ?thesis
        using inv True a v unfolding c1
        by (auto simp: script_inv_def Let_def wd_active_def pending_fits_def active_ok_def)
    qed
  qed
qed

lemma take_entry_script:
  "i < length es \<Longrightarrow> plan_script (take (Suc i) es) = plan_script (take i es) @ entry_script (es ! i)"
  by (simp add: plan_script_def take_Suc_conv_app_nth)

lemma script_step:
  assumes "i < length es" "field_value (we_config (es ! i)) f = Some v"
  shows "script_before es i f True = script_before es i f False @
      [(fixed_address (we_station_address (es ! i)) (field_register f), RegWrite, u16_to_le v)]"
    and "f = WfDivider \<Longrightarrow> script_before es i WfProcessDataIntervals False = script_before es i f True @
      [(fixed_address (we_station_address (es ! i)) (field_register f), RegRead, u16_to_le v)]"
    and "f = WfProcessDataIntervals \<or> ew_process_data_intervals (we_config (es ! i)) = None \<Longrightarrow>
      plan_script (take (Suc i) es) = script_before es i f True @
      [(fixed_address (we_station_address (es ! i)) (field_register f), RegRead, u16_to_le v)]"
  using assms take_entry_script [OF assms(1)]
  by (cases f; auto simp: script_before_def field_script_def entry_script_def Let_def)+

lemma advance_inv:
  assumes c: "wd_phase c = WdVerifying" and inv: "active_ok MAX_SLAVES c es log"
    and v: "field_value (we_config (es ! wd_current_index c)) (wd_current_field c) = Some v"
    and log1: "log1 = log @ [(fixed_address (we_station_address (es ! wd_current_index c)) (field_register (wd_current_field c)), RegRead, u16_to_le v)]"
  shows "script_inv MAX_SLAVES \<lparr>wh_controller = (fst (wd_advance_after_readback (c\<lparr>wd_completed_action_count := wd_completed_action_count c + 1\<rparr>)))\<lparr>wd_pending := None\<rparr>,
    wh_plan = es, wh_acknowledged = log1, wh_generation = g, wh_deadline = d\<rparr>"
proof -
  let ?i = "wd_current_index c" and ?f = "wd_current_field c"
  have i: "?i < length es" and len: "wd_plan_len c = length es" "take (length es) (wd_plan c) = es" "length (wd_staged c) = MAX_SLAVES"
      "take ?i (wd_staged c) = take ?i es" "length es \<le> MAX_SLAVES" "valid_entries MAX_SLAVES es"
      and log: "log = script_before es ?i ?f True" and cnt: "wd_completed_action_count c = length log"
    using inv c by (auto simp: active_ok_def wd_active_def valid_entries_def)
  have entry: "wd_plan c ! ?i = es ! ?i" using len(2) i by (metis nth_take)
  note steps = script_step(2,3) [OF i v]
  show ?thesis
  proof (cases "?f = WfDivider \<and> ew_process_data_intervals (we_config (es ! ?i)) \<noteq> None")
    case True
    then have "log1 = script_before es ?i WfProcessDataIntervals False" using steps(1) log log1 by simp
    with True inv cnt entry log1 c show ?thesis
      by (auto simp: wd_advance_after_readback_def Let_def script_inv_def pending_fits_def wd_active_def active_ok_def)
  next
    case False
    then have log1: "log1 = plan_script (take (Suc ?i) es)" "length log1 = Suc (length log)"
      using steps(2) log log1 by (cases ?f; auto)+
    have staged: "take (Suc ?i) ((wd_staged c)[?i := es ! ?i]) = take (Suc ?i) es"
      using i len by (simp add: take_Suc_conv_app_nth take_update_cancel)
    show ?thesis
    proof (cases "Suc ?i = length es")
      case True
      with False entry log1 len staged cnt c show ?thesis
        by (auto simp: wd_advance_after_readback_def Let_def script_inv_def pending_fits_def wd_active_def active_ok_def)
    next
      case more: False
      then have j: "Suc ?i < length es" using i by simp
      then have next_entry: "wd_plan c ! Suc ?i = es ! Suc ?i" using len(2) by (metis nth_take)
      have "field_value (we_config (es ! Suc ?i)) (first_field (we_config (es ! Suc ?i))) \<noteq> None"
        using len(6) j by (intro first_field_value) (simp add: valid_entries_def)
      moreover have "wd_published_len c = 0" using inv c by (simp add: active_ok_def wd_active_def)
      ultimately show ?thesis
        using False more j entry next_entry log1 len staged cnt first_field_script [OF j]
        by (auto simp: wd_advance_after_readback_def Let_def script_inv_def pending_fits_def wd_active_def active_ok_def)
    qed
  qed
qed

lemma accept_failed: "snd (wd_accept c a g payload w now) = Inl e \<Longrightarrow> \<exists>c1 e1. fst (wd_accept c a g payload w now) = wd_failed c1 e1"
  by (auto simp: wd_accept_def Let_def split: if_splits option.splits prod.splits)

lemma accept_ok:
  assumes "snd (wd_accept c a g payload w now) = Inr progress"
  shows "wd_pending c = Some a" "length payload = wa_response_len a" "now \<le> wa_deadline_ns a"
    "wd_phase c = WdWriting \<and> fst (wd_accept c a g payload w now) =
       c\<lparr>wd_completed_action_count := wd_completed_action_count c + 1, wd_phase := WdVerifying, wd_pending := None\<rparr> \<or>
     wd_phase c = WdVerifying \<and> length payload = 2 \<and>
       field_value (we_config (wd_plan c ! wd_current_index c)) (wd_current_field c) = Some (u16_from_le (payload ! 0) (payload ! 1)) \<and>
       fst (wd_accept c a g payload w now) =
         (fst (wd_advance_after_readback (c\<lparr>wd_completed_action_count := wd_completed_action_count c + 1\<rparr>)))\<lparr>wd_pending := None\<rparr>"
    "g = wa_generation a" "w = wa_expected_wkc a"
  using assms by (auto simp: wd_accept_def Let_def split: if_splits option.splits prod.splits)

lemma accept_inv:
  assumes hinv: "history_inv MAX_SLAVES s"
  shows "script_inv MAX_SLAVES (s\<lparr>wh_controller := fst (wd_accept (wh_controller s) a g payload w now),
    wh_acknowledged := wh_acknowledged s @ acknowledged_answer s a g payload w now\<rparr>)"
proof (cases "snd (wd_accept (wh_controller s) a g payload w now)")
  case (Inl e)
  then obtain c1 e1 where "fst (wd_accept (wh_controller s) a g payload w now) = wd_failed c1 e1" using accept_failed by blast
  then show ?thesis by (cases s) simp
next
  case (Inr progress)
  let ?c = "wh_controller s" and ?es = "wh_plan s" and ?log = "wh_acknowledged s"
  let ?i = "wd_current_index ?c" and ?f = "wd_current_field ?c"
  note ok = accept_ok [OF Inr]
  have inv: "script_inv MAX_SLAVES s" using hinv by (simp add: history_inv_def)
  have act: "wd_active ?c" using ok(4) by (auto simp: wd_active_def)
  then have active: "active_ok MAX_SLAVES ?c ?es ?log" using inv by (simp add: script_inv_def Let_def)
  have fits: "pending_fits ?c ?es" using inv by (simp add: script_inv_def Let_def)
  have i: "?i < length ?es" using active act by (simp add: active_ok_def)
  obtain v where v: "field_value (we_config (?es ! ?i)) ?f = Some v" using active act by (auto simp: active_ok_def)
  have entry: "wd_plan ?c ! ?i = ?es ! ?i" using active i by (auto simp: active_ok_def) (metis nth_take)
  have address: "wa_address a = fixed_address (we_station_address (?es ! ?i)) (field_register ?f)"
    using fits ok(1) by (simp add: pending_fits_def)
  have "run_fits s" using hinv by (simp add: history_inv_def)
  then have ack: "acknowledged_answer s a g payload w now = [access_of a payload]"
    using act ok(1-3,5,6) by (auto simp: run_fits_def Let_def acknowledged_answer_def)
  from ok(4) show ?thesis
  proof
    assume w: "wd_phase ?c = WdWriting \<and> fst (wd_accept ?c a g payload w now) =
       ?c\<lparr>wd_completed_action_count := wd_completed_action_count ?c + 1, wd_phase := WdVerifying, wd_pending := None\<rparr>"
    then have "access_of a payload = (fixed_address (we_station_address (?es ! ?i)) (field_register ?f), RegWrite, u16_to_le v)"
      using fits ok(1) v by (simp add: access_of_def address pending_fits_def)
    moreover have "?log = script_before ?es ?i ?f False" using active act w by (simp add: active_ok_def)
    ultimately show ?thesis
      using w active act i v ack script_step(1) [OF i v]
      by (simp add: script_inv_def Let_def pending_fits_def wd_active_def active_ok_def)
  next
    assume r: "wd_phase ?c = WdVerifying \<and> length payload = 2 \<and>
       field_value (we_config (wd_plan ?c ! wd_current_index ?c)) (wd_current_field ?c) = Some (u16_from_le (payload ! 0) (payload ! 1)) \<and>
       fst (wd_accept ?c a g payload w now) =
         (fst (wd_advance_after_readback (?c\<lparr>wd_completed_action_count := wd_completed_action_count ?c + 1\<rparr>)))\<lparr>wd_pending := None\<rparr>"
    then have "u16_from_le (payload ! 0) (payload ! 1) = v" using entry v by simp
    then have "u16_to_le v = [payload ! 0, payload ! 1]" by (metis u16_to_from_le)
    also have "\<dots> = payload" using r by (intro nth_equalityI) (auto simp: less_Suc_eq)
    finally have "access_of a payload = (fixed_address (we_station_address (?es ! ?i)) (field_register ?f), RegRead, u16_to_le v)"
      using fits ok(1) r by (simp add: access_of_def address pending_fits_def)
    then have "?log @ [access_of a payload] =
        ?log @ [(fixed_address (we_station_address (?es ! ?i)) (field_register ?f), RegRead, u16_to_le v)]" by simp
    from advance_inv [OF _ active v this] r ack show ?thesis by (cases s) simp
  qed
qed

lemma advance_keeps [simp]:
  "wd_config (fst (wd_advance_after_readback c)) = wd_config c"
  "wd_generation (fst (wd_advance_after_readback c)) = wd_generation c"
  "wd_deadline_ns (fst (wd_advance_after_readback c)) = wd_deadline_ns c"
  by (simp_all add: wd_advance_after_readback_def Let_def)

lemma run_fits_failed [simp]: "run_fits (s\<lparr>wh_controller := wd_failed c e\<rparr>)"
  by (simp add: run_fits_def wd_failed_def wd_active_def)

lemma run_fits_acknowledged [simp]: "run_fits (s\<lparr>wh_acknowledged := log\<rparr>) = run_fits s"
  by (simp add: run_fits_def)

lemma accept_fits:
  assumes "run_fits s"
  shows "run_fits (s\<lparr>wh_controller := fst (wd_accept (wh_controller s) a g payload w now)\<rparr>)"
proof (cases "snd (wd_accept (wh_controller s) a g payload w now)")
  case (Inl e)
  then show ?thesis using accept_failed by fastforce
next
  case (Inr progress)
  from accept_ok(4) [OF Inr] assms show ?thesis
    by (auto simp: run_fits_def Let_def wd_active_def)
qed

lemma next_action_cases:
  obtains "fst (wd_next_action c now) = c" | e where "fst (wd_next_action c now) = wd_failed c e"
    | a t i where "fst (wd_next_action c now) = c\<lparr>wd_next_token := t, wd_next_datagram_index := i, wd_pending := Some a\<rparr>"
      "wa_generation a = wd_generation c" "wa_expected_wkc a = 1" "wa_deadline_ns a \<le> wd_deadline_ns c"
proof (cases "wd_phase c = WdIdle \<or> wd_phase c = WdComplete \<or> wd_phase c = WdFaulted \<or> wd_pending c \<noteq> None")
  case True
  then have "fst (wd_next_action c now) = c" by (auto simp: wd_next_action_def split: option.split)
  then show thesis by (rule that)
next
  case False
  show thesis
  proof (cases "wd_deadline_ns c \<le> now \<or> checked_add now (wcc_request_timeout_ns (wd_config c)) = None \<or>
      field_value (we_config (wd_plan c ! wd_current_index c)) (wd_current_field c) = None")
    case True
    then have "\<exists>e. fst (wd_next_action c now) = wd_failed c e"
      using False by (auto simp: wd_next_action_def Let_def split: option.split)
    then show thesis using that by blast
  next
    case F: False
    then obtain d v where "checked_add now (wcc_request_timeout_ns (wd_config c)) = Some d" "\<not> wd_deadline_ns c \<le> now"
        "field_value (we_config (wd_plan c ! wd_current_index c)) (wd_current_field c) = Some v" by auto
    with False have "\<exists>a t i. fst (wd_next_action c now) = c\<lparr>wd_next_token := t, wd_next_datagram_index := i, wd_pending := Some a\<rparr> \<and>
        wa_generation a = wd_generation c \<and> wa_expected_wkc a = 1 \<and> wa_deadline_ns a \<le> wd_deadline_ns c"
      by (cases "wd_phase c = WdWriting") (clarsimp simp: wd_next_action_def Let_def, intro exI conjI, rule refl, simp, simp, simp)+
    then show thesis using that(3) by blast
  qed
qed

lemma next_action_fits:
  assumes "run_fits s"
  shows "run_fits (s\<lparr>wh_controller := fst (wd_next_action (wh_controller s) now)\<rparr>)"
  by (rule next_action_cases [of "wh_controller s" now]) (use assms in \<open>auto simp: run_fits_def Let_def wd_active_def wd_failed_def\<close>)

lemma start_run_fits:
  assumes "wd_start MAX_SLAVES c config plan generation now = (c1, Inr u)"
  shows "run_fits \<lparr>wh_controller = c1, wh_plan = es, wh_acknowledged = log, wh_generation = generation,
    wh_deadline = now + wcc_timeout_ns config\<rparr>"
  using assms by (auto simp: wd_start_def wd_start_failed_def wd_reset_for_start_def run_fits_def Let_def wd_active_def
      checked_add_def split: if_splits sum.splits option.splits)

lemma accept_completed_Ok:
  assumes "snd (snd (wd_accept_completed REQUESTS c pool h now)) = Inr p"
  shows "\<exists>a q. wd_pending c = Some a \<and> control_get REQUESTS pool h = Some q \<and> answers_action a q \<and>
    snd (wd_accept c a (cr_generation q) (completed_response q a) (cr_actual_wkc q) now) = Inr p \<and>
    fst (wd_accept_completed REQUESTS c pool h now) =
      fst (wd_accept c a (cr_generation q) (completed_response q a) (cr_actual_wkc q) now)"
proof -
  obtain a where a: "wd_pending c = Some a"
    using assms by (auto simp: wd_accept_completed_def wd_fail_def split: option.splits)
  obtain q where q: "control_get REQUESTS pool h = Some q"
    using assms a by (auto simp: wd_accept_completed_def wd_fail_def split: option.splits)
  have state: "cr_state q = RsComplete"
    using assms a q by (auto simp: wd_accept_completed_def wd_timeout_def wd_fail_def Let_def split: if_splits prod.splits sum.splits)
  have matches: "wd_request_matches a q"
    by (rule ccontr) (use assms a q state in \<open>simp add: wd_accept_completed_def wd_fail_def\<close>)
  then have "answers_action a q" using state by (simp add: answers_action_def wd_request_matches_def matches_action_def)
  moreover have "snd (wd_accept c a (cr_generation q) (completed_response q a) (cr_actual_wkc q) now) = Inr p \<and>
      fst (wd_accept_completed REQUESTS c pool h now) =
      fst (wd_accept c a (cr_generation q) (completed_response q a) (cr_actual_wkc q) now)"
    using assms a q state matches
    by (auto simp: wd_accept_completed_def wd_fail_def Let_def completed_response_def split: prod.splits sum.splits)
  ultimately show ?thesis using a q by blast
qed

lemma accept_completed_Err:
  assumes "snd (snd (wd_accept_completed REQUESTS c pool h now)) = Inl e"
  shows "fst (wd_accept_completed REQUESTS c pool h now) = c \<and>
      (\<forall>a q. wd_pending c = Some a \<and> control_get REQUESTS pool h = Some q \<longrightarrow> \<not> answers_action a q) \<or>
    (\<exists>c1 e1. fst (wd_accept_completed REQUESTS c pool h now) = wd_failed c1 e1)"
proof (cases "wd_pending c")
  case None
  then show ?thesis by (auto simp: wd_accept_completed_def wd_fail_def)
next
  case (Some a)
  show ?thesis
  proof (cases "control_get REQUESTS pool h")
    case None
    with Some show ?thesis by (auto simp: wd_accept_completed_def wd_fail_def)
  next
    case q: (Some q)
    show ?thesis
    proof (cases "cr_state q = RsComplete \<and> wd_request_matches a q")
      case True
      let ?r = "wd_accept c a (cr_generation q) (completed_response q a) (cr_actual_wkc q) now"
      show ?thesis
      proof (cases "snd ?r")
        case (Inl e1)
        with Some q True show ?thesis
          using accept_failed [OF Inl]
          by clarsimp (auto simp: wd_accept_completed_def Let_def completed_response_def split: prod.splits sum.splits)
      next
        case (Inr p)
        with Some q True assms show ?thesis
          by (auto simp: wd_accept_completed_def wd_fail_def Let_def completed_response_def split: prod.splits sum.splits)
      qed
    next
      case False
      with Some q show ?thesis
        by (auto simp: wd_accept_completed_def wd_timeout_def wd_fail_def Let_def answers_action_def split: prod.splits sum.splits)
    qed
  qed
qed

lemma start_refused:
  "snd (wd_start MAX_SLAVES c config plan generation now) = Inl e \<Longrightarrow>
     fst (wd_start MAX_SLAVES c config plan generation now) = c \<or>
     (\<exists>e. fst (wd_start MAX_SLAVES c config plan generation now) = wd_cleared MAX_SLAVES c e)"
  by (simp add: wd_start_def wd_start_failed_def Let_def split: if_splits sum.splits option.splits) blast+

lemma failed_history [simp]: "history_inv MAX_SLAVES (s\<lparr>wh_controller := wd_failed c e, wh_acknowledged := log\<rparr>)"
  "history_inv MAX_SLAVES (s\<lparr>wh_controller := wd_failed c e\<rparr>)"
  by (simp_all add: history_inv_def script_inv_def run_fits_def wd_failed_def pending_fits_def wd_active_def)

lemma accept_history:
  assumes "history_inv MAX_SLAVES s"
  shows "history_inv MAX_SLAVES (s\<lparr>wh_controller := fst (wd_accept (wh_controller s) a g payload w now),
    wh_acknowledged := wh_acknowledged s @ acknowledged_answer s a g payload w now\<rparr>)"
  unfolding history_inv_def
proof
  let ?s = "s\<lparr>wh_controller := fst (wd_accept (wh_controller s) a g payload w now)\<rparr>"
  show "script_inv MAX_SLAVES (?s\<lparr>wh_acknowledged := wh_acknowledged s @ acknowledged_answer s a g payload w now\<rparr>)"
    by (rule accept_inv [OF assms])
  have "run_fits ?s" using assms by (intro accept_fits) (simp add: history_inv_def)
  then show "run_fits (?s\<lparr>wh_acknowledged := wh_acknowledged s @ acknowledged_answer s a g payload w now\<rparr>)"
    by (simp only: run_fits_acknowledged)
qed

lemma history_exec_inv:
  assumes inv: "history_inv MAX_SLAVES s"
  shows "history_inv MAX_SLAVES (history_exec MAX_SLAVES s op)"
proof (cases op)
  case (WdoStart config es generation now)
  let ?r = "wd_start MAX_SLAVES (wh_controller s) config (build_plan MAX_SLAVES es) generation now"
  show ?thesis
  proof (cases "snd ?r")
    case (Inl e)
    then have "fst ?r = wh_controller s \<or> (\<exists>e. fst ?r = wd_cleared MAX_SLAVES (wh_controller s) e)"
      by (rule start_refused)
    moreover have "history_inv MAX_SLAVES (s\<lparr>wh_controller := wd_cleared MAX_SLAVES c e\<rparr>)" for c e
      by (simp add: wd_cleared_def history_inv_def script_inv_def run_fits_def pending_fits_def wd_active_def)
    moreover have "history_exec MAX_SLAVES s op = s\<lparr>wh_controller := fst ?r\<rparr>"
      using Inl WdoStart by (simp add: history_exec_def Let_def)
    ultimately show ?thesis using inv by auto
  next
    case (Inr u)
    then have "?r = (fst ?r, Inr u)" by (cases ?r) simp
    from start_inv [OF this] start_run_fits [OF this] show ?thesis
      using Inr WdoStart by (simp add: history_exec_def Let_def history_inv_def)
  qed
next
  case (WdoNext now)
  then show ?thesis
    using inv next_action_inv [of MAX_SLAVES s now] next_action_fits [of s now]
    by (simp add: history_exec_def Let_def history_inv_def)
next
  case (WdoAccept a g payload w now)
  then show ?thesis using accept_history [OF inv, of a g payload w now] by (simp add: history_exec_def Let_def)
next
  case (WdoTimeout a now)
  have "fst (wd_timeout (wh_controller s) a now) = wh_controller s \<or> (\<exists>c e. fst (wd_timeout (wh_controller s) a now) = wd_failed c e)"
    by (auto simp: wd_timeout_def)
  then show ?thesis using inv WdoTimeout by (auto simp: history_exec_def Let_def)
next
  case (WdoCompleted REQUESTS pool h now)
  show ?thesis
  proof (cases "snd (snd (wd_accept_completed REQUESTS (wh_controller s) pool h now))")
    case (Inl e)
    from accept_completed_Err [OF Inl] show ?thesis
    proof
      assume keep: "fst (wd_accept_completed REQUESTS (wh_controller s) pool h now) = wh_controller s \<and>
        (\<forall>a q. wd_pending (wh_controller s) = Some a \<and> control_get REQUESTS pool h = Some q \<longrightarrow> \<not> answers_action a q)"
      then have "acknowledged_access s op = []" using WdoCompleted by (auto split: option.split)
      then show ?thesis using keep inv WdoCompleted by (simp add: history_exec_def Let_def)
    qed (auto simp: history_exec_def Let_def WdoCompleted)
  next
    case (Inr p)
    then obtain a q where a: "wd_pending (wh_controller s) = Some a" "control_get REQUESTS pool h = Some q" "answers_action a q"
        "fst (wd_accept_completed REQUESTS (wh_controller s) pool h now) =
         fst (wd_accept (wh_controller s) a (cr_generation q) (completed_response q a) (cr_actual_wkc q) now)"
      using accept_completed_Ok by blast
    then show ?thesis
      using accept_history [OF inv, of a "cr_generation q" "completed_response q a" "cr_actual_wkc q" now] WdoCompleted
      by (simp add: history_exec_def Let_def)
  qed
qed

interpretation watchdog: step_system "history_exec MAX_SLAVES" "history_inv MAX_SLAVES"
  for MAX_SLAVES
  by unfold_locales (rule history_exec_inv)

section \<open>Completion\<close>

lemma history_run_inv: "history_inv MAX_SLAVES (foldl (history_exec MAX_SLAVES) (history_start MAX_SLAVES) ops)"
  by (rule watchdog.run_invar [OF history_start_inv])

lemma active_prefix:
  assumes act: "active_ok MAX_SLAVES c es log" and active: "wd_active c"
  shows "\<exists>todo. todo \<noteq> [] \<and> log @ todo = plan_script es"
proof -
  let ?i = "wd_current_index c" and ?f = "wd_current_field c"
  obtain v where i: "?i < length es" and v: "field_value (we_config (es ! ?i)) ?f = Some v"
    and log: "log = script_before es ?i ?f (wd_phase c = WdVerifying)"
    using act active by (auto simp: active_ok_def)
  have "plan_script es = plan_script (take ?i es @ es ! ?i # drop (Suc ?i) es)"
    using id_take_nth_drop [OF i] by (rule arg_cong)
  also have "\<dots> = plan_script (take ?i es) @ entry_script (es ! ?i) @ plan_script (drop (Suc ?i) es)"
    by (simp add: plan_script_def)
  finally have "plan_script es = plan_script (take ?i es) @ entry_script (es ! ?i) @ plan_script (drop (Suc ?i) es)" .
  then show ?thesis
    using v log by (cases ?f) (auto simp: script_before_def entry_script_def field_script_def Let_def)
qed

text \<open>
  C17: In every history of starts, actions, responses and completed requests, whatever was offered, the controller
  publishes programmed slaves only when it is complete, and then exactly the slaves of the plan, at distinct
  positions and addresses, after the slaves acknowledged, in plan order and nothing else in between, for each
  configured register its write and a read that returned the same two bytes. An access counts as acknowledged by
  what was answered, not by what the controller made of it: an answer to the pending action, of the generation
  given at the start, with working counter 1, of the right length, and before the deadlines of the action and
  of the start. While the controller runs, the acknowledged accesses are a proper prefix of this script.
\<close>

theorem watchdogs_verified_in_order:
  "let s = foldl (history_exec MAX_SLAVES) (history_start MAX_SLAVES) ops; c = wh_controller s; es = wh_plan s
   in if wd_phase c = WdComplete
      then programmed_slaves c = es \<and> wh_acknowledged s = plan_script es \<and>
        distinct (map we_station_address es) \<and> distinct (map we_position es)
      else programmed_slaves c = [] \<and>
        (if wd_phase c = WdWriting \<or> wd_phase c = WdVerifying
         then \<exists>todo. todo \<noteq> [] \<and> wh_acknowledged s @ todo = plan_script es else True)"
proof -
  define s c es where defs: "s = foldl (history_exec MAX_SLAVES) (history_start MAX_SLAVES) ops"
    "c = wh_controller s" "es = wh_plan s"
  have inv: "history_inv MAX_SLAVES s" unfolding defs(1) by (rule history_run_inv)
  have complete: "programmed_slaves c = es \<and> wh_acknowledged s = plan_script es \<and>
      distinct (map we_station_address es) \<and> distinct (map we_position es)" if "wd_phase c = WdComplete"
    using inv that defs(2,3)
    by (auto simp: history_inv_def script_inv_def Let_def active_ok_def wd_active_def programmed_slaves_def valid_entries_def)
  have "\<exists>todo. todo \<noteq> [] \<and> wh_acknowledged s @ todo = plan_script es" if "wd_active c"
    using active_prefix [of MAX_SLAVES c es "wh_acknowledged s"] inv that defs(2,3) by (simp add: history_inv_def script_inv_def Let_def)
  moreover have "programmed_slaves c = []" if "wd_phase c \<noteq> WdComplete"
    using inv that defs(2,3) by (auto simp: history_inv_def script_inv_def Let_def active_ok_def programmed_slaves_def split: if_splits)
  ultimately show ?thesis using complete unfolding Let_def defs(2,3) [symmetric] defs(1) [symmetric] by (simp add: wd_active_def)
qed

section \<open>Slaves that obey\<close>

text \<open>The registers of the segment by address. A write changes one, a read returns one.\<close>

definition serve :: "(u32 \<Rightarrow> u16) \<Rightarrow> watchdog_action \<Rightarrow> (u32 \<Rightarrow> u16) \<times> bytes" where
  "serve regs a =
     (if wa_operation a = RegWrite
      then (regs(wa_address a := u16_from_le (wa_payload a ! 0) (wa_payload a ! 1)), [])
      else (regs, u16_to_le (regs (wa_address a))))"

definition watchdog_round :: "nat \<Rightarrow> watchdog_history \<times> (u32 \<Rightarrow> u16) \<Rightarrow> u64 \<times> u64 \<Rightarrow> watchdog_history \<times> (u32 \<Rightarrow> u16)" where
  "watchdog_round MAX_SLAVES sr moments =
     (let s = history_exec MAX_SLAVES (fst sr) (WdoNext (fst moments))
      in case wd_pending (wh_controller s) of
           None \<Rightarrow> (s, snd sr)
         | Some a \<Rightarrow>
             let (regs, response) = serve (snd sr) a
             in (history_exec MAX_SLAVES s (WdoAccept a (wa_generation a) response 1 (snd moments)), regs))"

definition timely :: "watchdog_controller_config \<Rightarrow> u64 \<Rightarrow> u64 \<times> u64 \<Rightarrow> bool" where
  "timely config deadline moments \<longleftrightarrow> fst moments < deadline \<and>
     (case checked_add (fst moments) (wcc_request_timeout_ns config) of
        None \<Rightarrow> False | Some d \<Rightarrow> snd moments \<le> min d deadline)"

fun apply_access :: "(u32 \<Rightarrow> u16) \<Rightarrow> register_access \<Rightarrow> (u32 \<Rightarrow> u16)" where
  "apply_access regs (address, operation, content) =
     (if operation = RegWrite then regs(address := u16_from_le (content ! 0) (content ! 1)) else regs)"

definition obedient :: "nat \<Rightarrow> watchdog_history \<Rightarrow> (u32 \<Rightarrow> u16) \<Rightarrow> (u32 \<Rightarrow> u16) \<Rightarrow> watchdog_controller_config \<Rightarrow> u64 \<Rightarrow> bool" where
  "obedient MAX_SLAVES s regs0 regs config deadline \<longleftrightarrow>
     history_inv MAX_SLAVES s \<and> wd_pending (wh_controller s) = None \<and> regs = foldl apply_access regs0 (wh_acknowledged s) \<and>
     wd_config (wh_controller s) = config \<and> wd_deadline_ns (wh_controller s) = deadline"

lemma u16_le_bytes: "u16_from_le (u16_to_le v ! 0) (u16_to_le v ! 1) = v"
  by (simp add: u16_to_le_def)

lemma next_action_active:
  assumes "wd_active c" "wd_pending c = None" "timely (wd_config c) (wd_deadline_ns c) moments"
    and "field_value (we_config (wd_plan c ! wd_current_index c)) (wd_current_field c) \<noteq> None"
  shows "\<exists>a t i. fst (wd_next_action c (fst moments)) = c\<lparr>wd_next_token := t, wd_next_datagram_index := i, wd_pending := Some a\<rparr> \<and>
    wa_expected_wkc a = 1 \<and> snd moments \<le> wa_deadline_ns a"
proof -
  have ph: "wd_phase c \<noteq> WdIdle" "wd_phase c \<noteq> WdComplete" "wd_phase c \<noteq> WdFaulted" using assms(1) by (auto simp: wd_active_def)
  obtain d where d: "checked_add (fst moments) (wcc_request_timeout_ns (wd_config c)) = Some d"
      "snd moments \<le> min d (wd_deadline_ns c)" "\<not> wd_deadline_ns c \<le> fst moments"
    using assms(3) by (auto simp: timely_def split: option.splits)
  with ph assms show ?thesis
    by (cases "wd_phase c = WdWriting") (clarsimp simp: wd_next_action_def Let_def, intro exI conjI, rule refl, simp, simp)+
qed

lemma advance_phase:
  "wd_phase (fst (wd_advance_after_readback c)) = WdWriting \<or> wd_phase (fst (wd_advance_after_readback c)) = WdComplete"
  by (simp add: wd_advance_after_readback_def Let_def)

lemma watchdog_round_step:
  assumes ob: "obedient MAX_SLAVES s regs0 regs config deadline" and act: "wd_active (wh_controller s)" and t: "timely config deadline moments"
    and r: "watchdog_round MAX_SLAVES (s, regs) moments = (s1, regs1)"
  shows "obedient MAX_SLAVES s1 regs0 regs1 config deadline \<and> length (wh_acknowledged s1) = Suc (length (wh_acknowledged s)) \<and> wh_plan s1 = wh_plan s \<and>
    (wd_active (wh_controller s1) \<or> wd_phase (wh_controller s1) = WdComplete)"
proof -
  let ?c = "wh_controller s" and ?es = "wh_plan s" and ?log = "wh_acknowledged s"
  let ?i = "wd_current_index ?c" and ?f = "wd_current_field ?c"
  have inv: "history_inv MAX_SLAVES s" and none: "wd_pending ?c = None" and regs: "regs = foldl apply_access regs0 ?log"
    and cfg: "wd_config ?c = config" "wd_deadline_ns ?c = deadline" using ob by (simp_all add: obedient_def)
  have active: "active_ok MAX_SLAVES ?c ?es ?log" using inv act by (simp add: history_inv_def script_inv_def Let_def)
  have i: "?i < length ?es" using active act by (simp add: active_ok_def)
  obtain v where v: "field_value (we_config (?es ! ?i)) ?f = Some v" using active act by (auto simp: active_ok_def)
  have entry: "wd_plan ?c ! ?i = ?es ! ?i" using active i by (auto simp: active_ok_def) (metis nth_take)
  obtain a tk dx where c2: "fst (wd_next_action ?c (fst moments)) = ?c\<lparr>wd_next_token := tk, wd_next_datagram_index := dx, wd_pending := Some a\<rparr>"
    and a: "wa_expected_wkc a = 1" "snd moments \<le> wa_deadline_ns a"
    using next_action_active [of ?c moments] act none t cfg entry v by auto
  define s2 where "s2 = s\<lparr>wh_controller := ?c\<lparr>wd_next_token := tk, wd_next_datagram_index := dx, wd_pending := Some a\<rparr>\<rparr>"
  have s2: "history_exec MAX_SLAVES s (WdoNext (fst moments)) = s2" using c2 by (simp add: history_exec_def s2_def)
  then have inv2: "history_inv MAX_SLAVES s2" using history_exec_inv [OF inv, of "WdoNext (fst moments)"] by simp
  let ?c2 = "wh_controller s2"
  have fits: "pending_fits ?c2 ?es" using inv2 by (simp add: history_inv_def script_inv_def Let_def s2_def)
  have same: "wd_pending ?c2 = Some a" "wd_phase ?c2 = wd_phase ?c" "wd_plan ?c2 = wd_plan ?c" "wd_current_index ?c2 = ?i"
    "wd_current_field ?c2 = ?f" by (simp_all add: s2_def)
  have address: "wa_address a = fixed_address (we_station_address (?es ! ?i)) (field_register ?f)"
    using fits same by (simp add: pending_fits_def)
  obtain regs2 response where srv: "serve regs a = (regs2, response)" by fastforce
  let ?op = "WdoAccept a (wa_generation a) response 1 (snd moments)"
  have s1: "s1 = history_exec MAX_SLAVES s2 ?op" "regs1 = regs2"
    using r by (simp_all add: watchdog_round_def s2 same(1) srv)
  have read: "response = u16_to_le v" if "wd_phase ?c = WdVerifying"
  proof -
    have op: "wa_operation a = RegRead" using fits same that by (simp add: pending_fits_def)
    have "?log = script_before ?es ?i ?f False @ [(wa_address a, RegWrite, u16_to_le v)]"
      using active act that script_step(1) [OF i v] by (simp add: active_ok_def address)
    then have "regs (wa_address a) = v" unfolding regs by (simp add: u16_le_bytes [unfolded One_nat_def])
    with srv op show ?thesis by (auto simp: serve_def)
  qed
  have ph: "wd_phase ?c = WdWriting \<or> wd_phase ?c = WdVerifying" using act by (simp add: wd_active_def)
  have len: "length response = wa_response_len a"
    using fits same srv read ph by (auto simp: pending_fits_def serve_def u16_to_le_def split: if_splits)
  have "\<exists>p. snd (wd_accept ?c2 a (wa_generation a) response 1 (snd moments)) = Inr p"
    using ph
  proof
    assume "wd_phase ?c = WdWriting"
    with a len same show ?thesis by (simp add: wd_accept_def not_less Let_def)
  next
    assume verifying: "wd_phase ?c = WdVerifying"
    then have "response = u16_to_le v" "wa_response_len a = 2" using read len by simp_all
    with verifying a same v entry u16_le_bytes [of v, unfolded One_nat_def] show ?thesis
      by (simp add: wd_accept_def not_less Let_def case_prod_unfold)
  qed
  then obtain p where acc: "snd (wd_accept ?c2 a (wa_generation a) response 1 (snd moments)) = Inr p" by blast
  note ok = accept_ok [OF acc]
  have "run_fits s2" "wd_active ?c2" using inv2 act same(2) by (simp_all add: history_inv_def wd_active_def)
  then have "wa_generation a = wh_generation s2" "wa_deadline_ns a \<le> wh_deadline s2"
    using same(1) by (simp_all add: run_fits_def Let_def)
  then have ack: "acknowledged_answer s2 a (wa_generation a) response 1 (snd moments) = [access_of a response]" "wh_acknowledged s2 = ?log"
    using same(1) len a(2) by (simp_all add: acknowledged_answer_def s2_def)
  have new: "wh_controller s1 = fst (wd_accept ?c2 a (wa_generation a) response 1 (snd moments))"
      "wh_acknowledged s1 = ?log @ [access_of a response]" "wh_plan s1 = ?es"
    using ack by (simp_all add: s1(1) history_exec_def Let_def) (simp add: s2_def)
  have after: "wd_pending (wh_controller s1) = None" "wd_config (wh_controller s1) = config" "wd_deadline_ns (wh_controller s1) = deadline"
      "wd_active (wh_controller s1) \<or> wd_phase (wh_controller s1) = WdComplete"
    using ok(4) cfg advance_phase [of "?c2\<lparr>wd_completed_action_count := wd_completed_action_count ?c2 + 1\<rparr>"]
    unfolding new(1) by (auto simp: wd_active_def s2_def)
  have "regs1 = foldl apply_access regs0 (wh_acknowledged s1)"
    using srv fits same ph v by (auto simp: s1(2) new(2) regs [symmetric] serve_def access_of_def pending_fits_def)
  with after new history_exec_inv [OF inv2, of ?op] show ?thesis by (simp add: obedient_def s1(1) [symmetric])
qed

lemma rounds_complete:
  "wd_phase (wh_controller s) = WdComplete \<Longrightarrow> wd_pending (wh_controller s) = None \<Longrightarrow>
     foldl (watchdog_round MAX_SLAVES) (s, regs) moments = (s, regs)"
  by (induction moments) (simp_all add: watchdog_round_def history_exec_def wd_next_action_def)

lemma rounds_progress:
  assumes "obedient MAX_SLAVES s regs0 regs config deadline" "wd_active (wh_controller s) \<or> wd_phase (wh_controller s) = WdComplete"
    and "\<forall>t\<in>set moments. timely config deadline t" "foldl (watchdog_round MAX_SLAVES) (s, regs) moments = (s1, regs1)"
  shows "obedient MAX_SLAVES s1 regs0 regs1 config deadline \<and> wh_plan s1 = wh_plan s \<and>
    (wd_phase (wh_controller s1) = WdComplete \<or>
     wd_active (wh_controller s1) \<and> length (wh_acknowledged s1) = length (wh_acknowledged s) + length moments)"
  using assms
proof (induction moments arbitrary: s regs)
  case (Cons t moments)
  obtain s2 regs2 where r: "watchdog_round MAX_SLAVES (s, regs) t = (s2, regs2)" by fastforce
  show ?case
  proof (cases "wd_active (wh_controller s)")
    case True
    note step = watchdog_round_step [OF Cons.prems(1) True _ r]
    with Cons.prems(3) have "obedient MAX_SLAVES s2 regs0 regs2 config deadline" "wh_plan s2 = wh_plan s"
        "length (wh_acknowledged s2) = Suc (length (wh_acknowledged s))"
        "wd_active (wh_controller s2) \<or> wd_phase (wh_controller s2) = WdComplete" by simp_all
    with Cons.IH [of s2 regs2] Cons.prems(3,4) r show ?thesis by simp
  next
    case False
    then have "wd_phase (wh_controller s) = WdComplete" "wd_pending (wh_controller s) = None"
      using Cons.prems(1,2) by (auto simp: obedient_def)
    from rounds_complete [OF this, of MAX_SLAVES regs "t # moments"] Cons.prems(1,4) this show ?thesis by simp
  qed
qed auto

text \<open>What the accesses of a script leave in a register.\<close>

lemma apply_script:
  assumes "\<forall>x\<in>set log. fst x = address \<and> fst (snd x) = RegWrite \<longrightarrow> snd (snd x) = u16_to_le v"
    and "\<exists>x\<in>set log. fst x = address \<and> fst (snd x) = RegWrite"
  shows "foldl apply_access regs log address = v"
  using assms
proof (induction log rule: rev_induct)
  case (snoc x log)
  obtain ad operation content where x: "x = (ad, operation, content)" by (cases x) auto
  show ?case
  proof (cases "ad = address \<and> operation = RegWrite")
    case True
    with snoc.prems(1) x have "content = u16_to_le v" by simp
    with True x show ?thesis by (simp add: u16_le_bytes [unfolded One_nat_def])
  next
    case False
    then have "apply_access r x address = r address" for r using x by auto
    moreover have "\<exists>y\<in>set log. fst y = address \<and> fst (snd y) = RegWrite" using snoc.prems(2) False x by auto
    ultimately show ?thesis using snoc by simp
  qed
qed simp

lemma fixed_address_inject: "fixed_address st r = fixed_address st2 r2 \<longleftrightarrow> st = st2 \<and> r = r2"
  by (metis address_parts(1,2))

lemma field_register_inject: "field_register f = field_register g \<longleftrightarrow> f = g"
  by (cases f; cases g) (simp_all add: ESC_WATCHDOG_DIVIDER_def ESC_PROCESS_DATA_WATCHDOG_TIME_def)

lemma script_writes:
  "(address, RegWrite, content) \<in> set (plan_script es) \<longleftrightarrow>
     (\<exists>e\<in>set es. \<exists>f v. field_value (we_config e) f = Some v \<and> address = fixed_address (we_station_address e) (field_register f) \<and>
        content = u16_to_le v)"
proof -
  have field: "(address, RegWrite, content) \<in> set (field_script e f) \<longleftrightarrow>
      (\<exists>v. field_value (we_config e) f = Some v \<and> address = fixed_address (we_station_address e) (field_register f) \<and> content = u16_to_le v)" for e f
    by (cases "field_value (we_config e) f") (auto simp: field_script_def Let_def)
  have "x \<in> set (entry_script e) \<longleftrightarrow> (\<exists>f. x \<in> set (field_script e f))" for x e
  proof -
    have "(\<exists>f. x \<in> set (field_script e f)) \<longleftrightarrow> x \<in> set (field_script e WfDivider) \<or> x \<in> set (field_script e WfProcessDataIntervals)"
      using watchdog_field.exhaust by metis
    then show ?thesis by (simp add: entry_script_def)
  qed
  then show ?thesis by (simp add: plan_script_def field)
qed

lemma script_result:
  assumes "distinct (map we_station_address es)" "e \<in> set es" "field_value (we_config e) f = Some v"
  shows "foldl apply_access regs (plan_script es) (fixed_address (we_station_address e) (field_register f)) = v"
proof (rule apply_script)
  show "\<forall>x\<in>set (plan_script es). fst x = fixed_address (we_station_address e) (field_register f) \<and> fst (snd x) = RegWrite \<longrightarrow>
      snd (snd x) = u16_to_le v"
  proof (clarsimp)
    fix content
    assume "(fixed_address (we_station_address e) (field_register f), RegWrite, content) \<in> set (plan_script es)"
    then obtain e2 f2 v2 where e2: "e2 \<in> set es" "field_value (we_config e2) f2 = Some v2" "content = u16_to_le v2"
        "we_station_address e = we_station_address e2" "f = f2"
      unfolding script_writes by (auto simp: fixed_address_inject field_register_inject)
    then have "e = e2" using assms(1,2) by (auto simp: distinct_map inj_on_def)
    with e2 assms(3) show "content = u16_to_le v" by simp
  qed
  show "\<exists>x\<in>set (plan_script es). fst x = fixed_address (we_station_address e) (field_register f) \<and> fst (snd x) = RegWrite"
    using script_writes [THEN iffD2, of es "fixed_address (we_station_address e) (field_register f)" "u16_to_le v"] assms(2,3)
    by (metis fst_conv snd_conv)
qed

text \<open>
  C18: On slaves that obey, every accepted configuration is carried out: from any history, after a start that is
  accepted and one timely round for each access of the script (an action, its effect on the registers of the
  segment, its response in time), the controller is complete and every configured register holds its configured value.
\<close>

theorem watchdogs_programmed:
  assumes "s = foldl (history_exec MAX_SLAVES) (history_start MAX_SLAVES) ops"
    and "snd (wd_start MAX_SLAVES (wh_controller s) config (build_plan MAX_SLAVES es) generation now) = Ok ()"
    and "plan = plan_entries (build_plan MAX_SLAVES es)" "length moments = length (plan_script plan)"
    and "\<forall>t\<in>set moments. timely config (now + wcc_timeout_ns config) t"
  shows "\<exists>s1 regs1. foldl (watchdog_round MAX_SLAVES) (history_exec MAX_SLAVES s (WdoStart config es generation now), regs) moments = (s1, regs1) \<and>
    wd_phase (wh_controller s1) = WdComplete \<and> programmed_slaves (wh_controller s1) = plan \<and>
    (\<forall>e\<in>set plan. \<forall>f v. field_value (we_config e) f = Some v \<longrightarrow>
       regs1 (fixed_address (we_station_address e) (field_register f)) = v)"
proof -
  let ?s = "history_exec MAX_SLAVES s (WdoStart config es generation now)" and ?p = "build_plan MAX_SLAVES es"
  obtain s1 regs1 where run: "foldl (watchdog_round MAX_SLAVES) (?s, regs) moments = (s1, regs1)" by fastforce
  have hist: "?s = \<lparr>wh_controller = fst (wd_start MAX_SLAVES (wh_controller s) config ?p generation now), wh_plan = plan, wh_acknowledged = [],
    wh_generation = generation, wh_deadline = now + wcc_timeout_ns config\<rparr>"
    using assms(2,3) by (simp add: history_exec_def Let_def)
  have "history_inv MAX_SLAVES s" unfolding assms(1) by (rule history_run_inv)
  then have inv: "history_inv MAX_SLAVES ?s" by (rule history_exec_inv)
  have c: "wd_pending (wh_controller ?s) = None \<and> wd_config (wh_controller ?s) = config \<and>
      wd_deadline_ns (wh_controller ?s) = now + wcc_timeout_ns config \<and>
      (wd_active (wh_controller ?s) \<or> wd_phase (wh_controller ?s) = WdComplete)"
    using assms(2) unfolding hist
    by (auto simp: wd_start_def wd_start_failed_def wd_reset_for_start_def Let_def wd_active_def checked_add_def split: if_splits sum.splits option.splits)
  then have "obedient MAX_SLAVES ?s regs regs config (now + wcc_timeout_ns config)" using inv hist by (simp add: obedient_def)
  from rounds_progress [OF this _ assms(5) run] c hist
  have end_: "obedient MAX_SLAVES s1 regs regs1 config (now + wcc_timeout_ns config)" "wh_plan s1 = plan"
    "wd_phase (wh_controller s1) = WdComplete \<or> wd_active (wh_controller s1) \<and> length (wh_acknowledged s1) = length moments" by simp_all
  have inv1: "history_inv MAX_SLAVES s1" using end_(1) by (simp add: obedient_def)
  have "\<not> wd_active (wh_controller s1)" if "length (wh_acknowledged s1) = length moments"
  proof
    assume active: "wd_active (wh_controller s1)"
    then have "active_ok MAX_SLAVES (wh_controller s1) plan (wh_acknowledged s1)" using inv1 end_(2) by (simp add: history_inv_def script_inv_def Let_def)
    from active_prefix [OF this active] that assms(4) show False by (metis append_eq_conv_conj length_append self_append_conv length_0_conv add_cancel_left_right)
  qed
  with end_(3) have complete: "wd_phase (wh_controller s1) = WdComplete" by blast
  then have "active_ok MAX_SLAVES (wh_controller s1) plan (wh_acknowledged s1)" using inv1 end_(2) by (simp add: history_inv_def script_inv_def Let_def)
  then have fin: "programmed_slaves (wh_controller s1) = plan" "wh_acknowledged s1 = plan_script plan" "distinct (map we_station_address plan)"
    using complete by (auto simp: active_ok_def wd_active_def programmed_slaves_def valid_entries_def)
  moreover have "regs1 = foldl apply_access regs (wh_acknowledged s1)" using end_(1) by (simp add: obedient_def)
  ultimately show ?thesis using run complete script_result [OF fin(3)] by auto
qed

definition sample_entry :: watchdog_entry where
  "sample_entry = \<lparr>we_position = 3, we_station_address = 0x1003,
     we_config = \<lparr>ew_divider = Some 2498, ew_process_data_intervals = Some 1000\<rparr>\<rparr>"

lemma watchdogs_programmed_witness:
  "\<exists>s1 regs1. foldl (watchdog_round 2)
       (history_exec 2 (history_start 2) (WdoStart watchdog_controller_config_new [sample_entry] 7 0), \<lambda>_. 0) [(1, 2), (3, 4), (5, 6), (7, 8)] =
     (s1, regs1) \<and> wd_phase (wh_controller s1) = WdComplete \<and> programmed_slaves (wh_controller s1) = [sample_entry] \<and>
     regs1 (fixed_address 0x1003 0x0400) = 2498 \<and> regs1 (fixed_address 0x1003 0x0420) = 1000"
proof -
  have valid: "watchdog_config_validate (we_config sample_entry) = Ok ()"
    by (simp add: watchdog_config_validate_def sample_entry_def)
  have plan: "plan_entries (build_plan 2 [sample_entry]) = [sample_entry]"
    using valid by (simp add: build_plan_def watchdog_plan_push_def watchdog_plan_new_def plan_entries_def numeral_2_eq_2)
  have len: "wp_len (build_plan 2 [sample_entry]) = 1"
    using valid by (simp add: build_plan_def watchdog_plan_push_def watchdog_plan_new_def plan_entries_def)
  have start: "snd (wd_start 2 (wh_controller (history_start 2)) watchdog_controller_config_new (build_plan 2 [sample_entry]) 7 0) = Ok ()"
    by (simp add: wd_start_def history_start_def watchdog_new_def watchdog_controller_config_validate_def watchdog_controller_config_new_def
      checked_add_def len Let_def)
  have n: "length [(1 :: u64, 2 :: u64), (3, 4), (5, 6), (7, 8)] = length (plan_script [sample_entry])"
    by (simp add: plan_script_def entry_script_def field_script_def sample_entry_def Let_def)
  have timely: "\<forall>t\<in>set [(1, 2), (3, 4), (5, 6), (7, 8)]. timely watchdog_controller_config_new (0 + wcc_timeout_ns watchdog_controller_config_new) t"
    by (simp add: timely_def watchdog_controller_config_new_def checked_add_def)
  from watchdogs_programmed [of _ 2 "[]", OF _ _ plan [symmetric] n timely, OF _ start, where regs = "\<lambda>_. 0"]
  obtain s1 regs1 where run: "foldl (watchdog_round 2)
       (history_exec 2 (history_start 2) (WdoStart watchdog_controller_config_new [sample_entry] 7 0), \<lambda>_. 0) [(1, 2), (3, 4), (5, 6), (7, 8)] = (s1, regs1)"
    "wd_phase (wh_controller s1) = WdComplete" "programmed_slaves (wh_controller s1) = [sample_entry]"
    and regs: "\<And>f v. field_value (we_config sample_entry) f = Some v \<Longrightarrow>
       regs1 (fixed_address (we_station_address sample_entry) (field_register f)) = v" by auto
  from regs [of WfDivider] regs [of WfProcessDataIntervals]
  have "regs1 (fixed_address 0x1003 0x0400) = 2498" "regs1 (fixed_address 0x1003 0x0420) = 1000"
    by (simp_all add: sample_entry_def ESC_WATCHDOG_DIVIDER_def ESC_PROCESS_DATA_WATCHDOG_TIME_def)
  with run show ?thesis by blast
qed

end
