(* ===== verification/Fault_Reset.thy ===== *)
theory Fault_Reset
  imports Guard_Model Domain_Image Frame_Plan Cia402_Pdo System_Interfaces
begin

text \<open>
  The maintenance authority to reset faulted drives (\<open>esop-lifecycle-guard/src/maintenance.rs\<close>) with the
  checks of \<open>ethercat.rs\<close> it shares with the stop frames. An explicit request admits bounded attempts of
  one reset pulse, and after a pulse was accepted for transmission a zero frame is mandatory. \<open>AXES\<close> and
  \<open>BYTES\<close> are the lengths of the lists of maps and of the safe image.
\<close>

section \<open>What a cycle received\<close>

record cycle_report =
  cy_cycle :: u64
  cy_received_frames :: nat
  cy_received_bytes :: nat
  cy_parsed_datagrams :: nat
  cy_unmatched_datagrams :: nat
  cy_corrupt_frames :: nat
  cy_wkc_mismatches :: nat
  cy_timed_out_datagrams :: nat
  cy_consumer_rejections :: nat
  cy_budget_exhausted :: bool
  cy_link_down :: bool

definition cycle_report_new :: "u64 \<Rightarrow> cycle_report" where
  "cycle_report_new cycle = \<lparr>cy_cycle = cycle, cy_received_frames = 0, cy_received_bytes = 0, cy_parsed_datagrams = 0,
     cy_unmatched_datagrams = 0, cy_corrupt_frames = 0, cy_wkc_mismatches = 0, cy_timed_out_datagrams = 0,
     cy_consumer_rejections = 0, cy_budget_exhausted = False, cy_link_down = False\<rparr>"

definition rx_current :: "cycle_report \<Rightarrow> bool" where
  "rx_current r \<longleftrightarrow> \<not> cy_link_down r \<and> cy_received_frames r \<noteq> 0 \<and> cy_parsed_datagrams r \<noteq> 0 \<and>
     cy_unmatched_datagrams r = 0 \<and> cy_corrupt_frames r = 0 \<and> cy_wkc_mismatches r = 0 \<and>
     cy_timed_out_datagrams r = 0 \<and> cy_consumer_rejections r = 0"

definition domain_current :: "cycle_report \<Rightarrow> domain_quality \<Rightarrow> bool" where
  "domain_current r q \<longleftrightarrow> dq_valid q \<and> dq_complete q \<and> dq_expected_wkc q \<noteq> 0 \<and>
     dq_actual_wkc q = dq_expected_wkc q \<and> dq_last_valid_cycle q = cy_cycle r \<and> dq_input_age_cycles q = 0"

section \<open>Fields that a frame plan writes\<close>

text \<open>\<open>u32::try_from(offset).and_then(|o| logical_address.checked_add(o))\<close>.\<close>

definition logical_offset :: "domain_image \<Rightarrow> nat \<Rightarrow> u32 option" where
  "logical_offset domain offset =
     (if offset < 2 ^ 32 then checked_add (do_logical_address domain) (of_nat offset) else None)"

definition writes_logical :: "datagram_plan \<Rightarrow> bool" where
  "writes_logical d \<longleftrightarrow> dp_command d = Lrw \<or> dp_command d = Lwr"

definition rewrites_field :: "domain_image \<Rightarrow> u32 \<Rightarrow> u32 \<Rightarrow> datagram_plan \<Rightarrow> bool" where
  "rewrites_field domain field_start field_end d \<longleftrightarrow>
     writes_logical d \<and>
     (case checked_add (dp_address d) (of_nat (dp_payload_len d)) of
        None \<Rightarrow> True
      | Some stop \<Rightarrow> dp_address d < field_end \<and> field_start < stop \<and>
          logical_offset domain (dp_payload_offset d) \<noteq> Some (dp_address d))"

definition writes_field :: "nat \<Rightarrow> domain_image \<Rightarrow> nat \<Rightarrow> nat \<Rightarrow> datagram_plan \<Rightarrow> bool" where
  "writes_field BYTES domain first_byte end_byte d \<longleftrightarrow>
     writes_logical d \<and> dp_payload_offset d \<le> first_byte \<and>
     (case usize_checked_add (dp_payload_offset d) (dp_payload_len d) of
        None \<Rightarrow> False | Some stop \<Rightarrow> end_byte \<le> stop \<and> stop \<le> BYTES) \<and>
     logical_offset domain (dp_payload_offset d) = Some (dp_address d) \<and>
     (\<exists>s\<in>set (domain_segments domain). dseg_datagram_index s = dp_index d \<and> dseg_input_offset s = dp_payload_offset d \<and>
        dseg_len s = dp_payload_len d \<and> dseg_expected_wkc s \<noteq> 0 \<and> dseg_expected_wkc s = dp_expected_wkc d)"

definition writable_domain_field :: "nat \<Rightarrow> pdo_map \<Rightarrow> pdo_field \<Rightarrow> domain_image \<Rightarrow> frame_plan \<Rightarrow> bool" where
  "writable_domain_field BYTES m f domain plan =
     (case map_entry m f of
        None \<Rightarrow> False
      | Some en \<Rightarrow>
          (case usize_checked_add (pe_bit_offset en) (unat (pe_bit_length en)) of
             None \<Rightarrow> False
           | Some end_bit \<Rightarrow>
               let first_byte = pe_bit_offset en div 8; end_byte = (end_bit + 7) div 8
               in (case (logical_offset domain first_byte, logical_offset domain end_byte) of
                     (Some field_start, Some field_end) \<Rightarrow>
                       \<not> (\<exists>d\<in>set (frame_plan_datagrams plan). rewrites_field domain field_start field_end d) \<and>
                       (\<exists>d\<in>set (frame_plan_datagrams plan). writes_field BYTES domain first_byte end_byte d)
                   | _ \<Rightarrow> False)))"

section \<open>The controller\<close>

record fault_reset_request =
  fq_boot_id :: u64
  fq_sequence :: u64
  fq_transition_sequence :: u64
  fq_axis_mask :: u32
  fq_deadline_ns :: u64

datatype fault_reset_phase = FrIdle | FrPending | FrZeroRequired | FrComplete | FrFailed

datatype fault_reset_error = FrInvalidPolicy | FrBootMismatch | FrSequenceReplayed | FrTransitionMismatch
  | FrInvalidAxisMask | FrInvalidLifecycle | FrPermitPresent | FrStopPending | FrDeadline | FrBusy | FrErrZeroRequired
  | FrNoRequest | FrCycleReplayed | FrUnverifiedInput | FrNotInFault nat | FrInvalidMapping nat
  | FrOverlappingOutputs | FrAttemptsExhausted

record fault_reset_controller =
  fr_boot_id :: u64
  fr_max_pulse_attempts :: u8
  fr_last_sequence :: u64
  fr_request :: "fault_reset_request option"
  fr_phase :: fault_reset_phase
  fr_attempts :: u8
  fr_last_attempt_cycle :: "u64 option"
  fr_pulse_accepted_cycle :: "u64 option"
  fr_zero_accepted_cycle :: "u64 option"
  fr_last_error :: "fault_reset_error option"

record fault_reset_preview =
  fv_outputs :: "cia402_output list"
  fv_pulse_mask :: u32
  fv_cycle :: u64
  fv_sequence :: u64
  fv_deadline_ns :: u64

definition fault_reset_new :: "u64 \<Rightarrow> u8 \<Rightarrow> (fault_reset_error, fault_reset_controller) result" where
  "fault_reset_new boot_id max_pulse_attempts =
     (if max_pulse_attempts = 0 \<or> 8 < max_pulse_attempts then Err FrInvalidPolicy
      else Ok \<lparr>fr_boot_id = boot_id, fr_max_pulse_attempts = max_pulse_attempts, fr_last_sequence = 0, fr_request = None,
        fr_phase = FrIdle, fr_attempts = 0, fr_last_attempt_cycle = None, fr_pulse_accepted_cycle = None,
        fr_zero_accepted_cycle = None, fr_last_error = None\<rparr>)"

definition expire_pending :: "fault_reset_controller \<Rightarrow> u64 \<Rightarrow> fault_reset_controller" where
  "expire_pending c now =
     (if fr_phase c = FrPending \<and> (case fr_request c of None \<Rightarrow> False | Some q \<Rightarrow> fq_deadline_ns q \<le> now)
      then c\<lparr>fr_phase := FrFailed, fr_last_error := Some FrDeadline\<rparr> else c)"

definition validate_guard :: "fault_reset_controller \<Rightarrow> lifecycle_guard \<Rightarrow> (fault_reset_error, unit) result" where
  "validate_guard c g =
     (if lg_boot_id g \<noteq> fr_boot_id c then Err FrBootMismatch
      else if \<not> (lg_state g = Maintenance \<or> lg_state g = FaultLatched) then Err FrInvalidLifecycle
      else if lg_permit g \<noteq> None then Err FrPermitPresent
      else if lg_motion_axes_mask g \<noteq> 0 \<or> lg_maintenance_stop_pending g then Err FrStopPending
      else Ok ())"

definition fault_reset_submit ::
  "fault_reset_controller \<Rightarrow> lifecycle_guard \<Rightarrow> fault_reset_request \<Rightarrow> u64 \<Rightarrow>
     fault_reset_controller \<times> (fault_reset_error, unit) result" where
  "fault_reset_submit c0 g q now =
     (let c = expire_pending c0 now
      in case validate_guard c g of
           Inl e \<Rightarrow> (c, Err e)
         | Inr _ \<Rightarrow>
             if fq_boot_id q \<noteq> fr_boot_id c then (c, Err FrBootMismatch)
             else if fq_sequence q = 0 \<or> fq_sequence q \<le> fr_last_sequence c then (c, Err FrSequenceReplayed)
             else if fr_phase c = FrZeroRequired then (c, Err FrErrZeroRequired)
             else if fr_phase c = FrPending then (c, Err FrBusy)
             else if fq_transition_sequence q \<noteq> lg_transition_sequence g then (c, Err FrTransitionMismatch)
             else if fq_axis_mask q = 0 \<or> fq_axis_mask q AND NOT (gp_allowed_axis_mask (lg_policy g)) \<noteq> 0
               then (c, Err FrInvalidAxisMask)
             else if fq_deadline_ns q \<le> now then (c, Err FrDeadline)
             else (c\<lparr>fr_last_sequence := fq_sequence q, fr_request := Some q, fr_phase := FrPending, fr_attempts := 0,
                     fr_last_attempt_cycle := None, fr_pulse_accepted_cycle := None, fr_zero_accepted_cycle := None,
                     fr_last_error := None\<rparr>, Ok ()))"

text \<open>What \<open>prepare\<close> is given of the cycle.\<close>

record reset_cycle =
  rc_report :: cycle_report
  rc_domain :: domain_image
  rc_maps :: "pdo_map list"
  rc_modes :: "operating_mode list"
  rc_safe :: bytes
  rc_plan :: frame_plan
  rc_now_ns :: u64

text \<open>The loop over the axes: the outputs, with the image in which the mode and Controlword fields are written.\<close>

definition reset_output :: "u16 \<Rightarrow> bool \<Rightarrow> cia402_output" where
  "reset_output statusword selected =
     \<lparr>co_state = from_statusword statusword, co_statusword = statusword,
      co_controlword = (if selected then CONTROLWORD_FAULT_RESET else CONTROLWORD_DISABLE_VOLTAGE),
      co_operation_enabled = False, co_motion_allowed = False, co_fault_reset_pulse = selected\<rparr>"

definition prepare_axis :: "reset_cycle \<Rightarrow> u32 \<Rightarrow> bytes \<Rightarrow> nat \<Rightarrow> (fault_reset_error, bytes \<times> cia402_output) result" where
  "prepare_axis r pulse img axis =
     (let m = rc_maps r ! axis; mode = rc_modes r ! axis
      in case read_inputs_for m (do_committed (rc_domain r)) mode of
           Inl _ \<Rightarrow> Err (FrInvalidMapping axis)
         | Inr inputs \<Rightarrow>
             let selected = (pulse AND push_bit axis 1 \<noteq> 0)
             in if selected \<and> from_statusword (pi_statusword inputs) \<noteq> DriveFault then Err (FrNotInFault axis)
                else if \<exists>f\<in>set [FControlword, FModeOfOperation].
                     \<not> writable_domain_field (length (rc_safe r)) m f (rc_domain r) (rc_plan r)
                  then Err (FrInvalidMapping axis)
                else
                  let output = reset_output (pi_statusword inputs) selected
                  in (case write_control m img mode (co_controlword output) of
                        (_, Inl _) \<Rightarrow> Err (FrInvalidMapping axis)
                      | (img1, Inr _) \<Rightarrow> Ok (img1, output)))"

fun prepare_axes :: "reset_cycle \<Rightarrow> u32 \<Rightarrow> bytes \<Rightarrow> nat list \<Rightarrow> (fault_reset_error, cia402_output list) result" where
  "prepare_axes r pulse img [] = Ok []"
| "prepare_axes r pulse img (axis # axes) =
     (case prepare_axis r pulse img axis of
        Inl e \<Rightarrow> Err e
      | Inr (img1, output) \<Rightarrow>
          (case prepare_axes r pulse img1 axes of Inl e \<Rightarrow> Err e | Inr outputs \<Rightarrow> Ok (output # outputs)))"

definition bits_overlap :: "pdo_entry \<Rightarrow> pdo_entry \<Rightarrow> bool" where
  "bits_overlap a b \<longleftrightarrow> pe_bit_offset a < usize_sat_add (pe_bit_offset b) (unat (pe_bit_length b)) \<and>
     pe_bit_offset b < usize_sat_add (pe_bit_offset a) (unat (pe_bit_length a))"

definition OUTPUT_FIELDS :: "pdo_field list" where
  "OUTPUT_FIELDS = [FControlword, FModeOfOperation, FTargetPosition, FTargetVelocity, FTargetTorque]"

definition overlaps_other :: "pdo_map list \<Rightarrow> nat \<Rightarrow> pdo_field \<Rightarrow> pdo_entry \<Rightarrow> bool" where
  "overlaps_other maps axis f en \<longleftrightarrow>
     (\<exists>other_axis\<in>set [0..<length maps]. \<exists>other_field\<in>set OUTPUT_FIELDS.
        \<not> (axis = other_axis \<and> f = other_field) \<and>
        (case map_entry (maps ! other_axis) other_field of None \<Rightarrow> False | Some other \<Rightarrow> bits_overlap en other))"

fun check_overlaps :: "pdo_map list \<Rightarrow> (nat \<times> pdo_field) list \<Rightarrow> (fault_reset_error, unit) result" where
  "check_overlaps maps [] = Ok ()"
| "check_overlaps maps ((axis, f) # rest) =
     (case map_entry (maps ! axis) f of
        None \<Rightarrow> Err (FrInvalidMapping axis)
      | Some en \<Rightarrow> if overlaps_other maps axis f en then Err FrOverlappingOutputs else check_overlaps maps rest)"

definition controlled_fields :: "nat \<Rightarrow> (nat \<times> pdo_field) list" where
  "controlled_fields AXES = concat (map (\<lambda>axis. [(axis, FControlword), (axis, FModeOfOperation)]) [0..<AXES])"

definition fault_reset_prepare ::
  "fault_reset_controller \<Rightarrow> lifecycle_guard \<Rightarrow> reset_cycle \<Rightarrow> fault_reset_controller \<times> (fault_reset_error, fault_reset_preview) result" where
  "fault_reset_prepare c0 g r =
     (let c = expire_pending c0 (rc_now_ns r); AXES = length (rc_maps r); report = rc_report r
      in case validate_guard c g of Inl e \<Rightarrow> (c, Err e) | Inr _ \<Rightarrow>
         case fr_request c of None \<Rightarrow> (c, Err FrNoRequest) | Some q \<Rightarrow>
         if MAX_MOTION_AXES < AXES \<or> AXES < MAX_MOTION_AXES \<and> drop_bit AXES (fq_axis_mask q) \<noteq> 0
         then (c, Err FrInvalidAxisMask)
         else
           case (case fr_phase c of
                   FrPending \<Rightarrow>
                     if fq_transition_sequence q \<noteq> lg_transition_sequence g then (c, Err FrTransitionMismatch)
                     else if fq_deadline_ns q \<le> rc_now_ns r
                       then (c\<lparr>fr_phase := FrFailed, fr_last_error := Some FrDeadline\<rparr>, Err FrDeadline)
                     else if fr_max_pulse_attempts c \<le> fr_attempts c then (c, Err FrAttemptsExhausted)
                     else (c, Ok (fq_axis_mask q))
                 | FrZeroRequired \<Rightarrow> (c, Ok 0)
                 | FrFailed \<Rightarrow> (c, Err (case fr_last_error c of None \<Rightarrow> FrNoRequest | Some e \<Rightarrow> e))
                 | _ \<Rightarrow> (c, Err FrNoRequest)) of
             (c1, Inl e) \<Rightarrow> (c1, Err e)
           | (c1, Inr pulse) \<Rightarrow>
               if (case fr_last_attempt_cycle c1 of None \<Rightarrow> False | Some cycle \<Rightarrow> cy_cycle report \<le> cycle)
               then (c1, Err FrCycleReplayed)
               else if cy_cycle report = 0 \<or> cy_budget_exhausted report \<or> \<not> rx_current report \<or>
                       \<not> domain_current report (do_quality (rc_domain r))
               then (c1, Err FrUnverifiedInput)
               else
                 case prepare_axes r pulse (rc_safe r) [0..<AXES] of Inl e \<Rightarrow> (c1, Err e) | Inr outputs \<Rightarrow>
                 case check_overlaps (rc_maps r) (controlled_fields AXES) of Inl e \<Rightarrow> (c1, Err e) | Inr _ \<Rightarrow>
                   (c1, Ok \<lparr>fv_outputs = outputs, fv_pulse_mask = pulse, fv_cycle = cy_cycle report,
                       fv_sequence = fq_sequence q,
                       fv_deadline_ns = (if pulse \<noteq> 0 then fq_deadline_ns q else - 1)\<rparr>))"

definition fault_reset_attempted ::
  "fault_reset_controller \<Rightarrow> fault_reset_preview \<Rightarrow> bool \<Rightarrow> fault_reset_controller" where
  "fault_reset_attempted c p accepted =
     (if (case fr_request c of None \<Rightarrow> True | Some q \<Rightarrow> fq_sequence q \<noteq> fv_sequence p) then c
      else
        let c1 = c\<lparr>fr_last_attempt_cycle := Some (fv_cycle p)\<rparr>
        in if fv_pulse_mask p \<noteq> 0 then
             let c2 = c1\<lparr>fr_attempts := sat_add (fr_attempts c1) 1\<rparr>
             in if accepted then c2\<lparr>fr_phase := FrZeroRequired, fr_pulse_accepted_cycle := Some (fv_cycle p), fr_last_error := None\<rparr>
                else if fr_max_pulse_attempts c2 \<le> fr_attempts c2
                  then c2\<lparr>fr_phase := FrFailed, fr_last_error := Some FrAttemptsExhausted\<rparr>
                else c2
           else if accepted then c1\<lparr>fr_phase := FrComplete, fr_zero_accepted_cycle := Some (fv_cycle p), fr_last_error := None\<rparr>
           else c1)"

section \<open>Histories\<close>

text \<open>A cycle prepares a frame and, unless it is abandoned in between, reports whether its transmission was accepted.\<close>

datatype reset_op = RoSubmit lifecycle_guard fault_reset_request u64 | RoCycle lifecycle_guard reset_cycle "bool option"

record reset_event =
  re_guard :: lifecycle_guard
  re_cycle :: reset_cycle
  re_preview :: fault_reset_preview
  re_accepted :: bool

record reset_history =
  rh_controller :: fault_reset_controller
  rh_trace :: "reset_event list"

definition reset_exec :: "reset_history \<Rightarrow> reset_op \<Rightarrow> reset_history" where
  "reset_exec h op =
     (case op of
        RoSubmit g q now \<Rightarrow> h\<lparr>rh_controller := fst (fault_reset_submit (rh_controller h) g q now)\<rparr>
      | RoCycle g r outcome \<Rightarrow>
          (case (fault_reset_prepare (rh_controller h) g r, outcome) of
             ((c, Inr p), Some accepted) \<Rightarrow>
               h\<lparr>rh_controller := fault_reset_attempted c p accepted,
                 rh_trace := rh_trace h @ [\<lparr>re_guard = g, re_cycle = r, re_preview = p, re_accepted = accepted\<rparr>]\<rparr>
           | ((c, _), _) \<Rightarrow> h\<lparr>rh_controller := c\<rparr>))"

definition is_pulse :: "reset_event \<Rightarrow> bool" where
  "is_pulse e \<longleftrightarrow> fv_pulse_mask (re_preview e) \<noteq> 0"

definition event_sequence :: "reset_event \<Rightarrow> u64" where
  "event_sequence e = fv_sequence (re_preview e)"

text \<open>Pulse and zero of one request after the other, with increasing sequence numbers; the last zero may be missing.\<close>

fun pulse_then_zero :: "reset_event list \<Rightarrow> bool" where
  "pulse_then_zero [] = True"
| "pulse_then_zero [p] = is_pulse p"
| "pulse_then_zero (p # z # rest) \<longleftrightarrow> is_pulse p \<and> \<not> is_pulse z \<and> event_sequence z = event_sequence p \<and>
     pulse_then_zero rest \<and> (\<forall>e\<in>set rest. event_sequence p < event_sequence e)"

definition accepted_events :: "reset_event list \<Rightarrow> reset_event list" where
  "accepted_events es = filter re_accepted es"

definition pulse_attempts :: "reset_event list \<Rightarrow> u64 \<Rightarrow> nat" where
  "pulse_attempts es s = length (filter (\<lambda>e. is_pulse e \<and> event_sequence e = s) es)"

text \<open>What a frame may ask of the drives, and when.\<close>

definition output_safe :: "u32 \<Rightarrow> nat \<Rightarrow> cia402_output \<Rightarrow> bool" where
  "output_safe pulse axis out \<longleftrightarrow> \<not> co_motion_allowed out \<and> \<not> co_operation_enabled out \<and>
     (if pulse AND push_bit axis 1 \<noteq> 0
      then co_controlword out = CONTROLWORD_FAULT_RESET \<and> co_state out = DriveFault
      else co_controlword out = CONTROLWORD_DISABLE_VOLTAGE)"

definition event_safe :: "u64 \<Rightarrow> reset_event \<Rightarrow> bool" where
  "event_safe boot e \<longleftrightarrow>
     (let g = re_guard e; r = re_cycle e; p = re_preview e
      in lg_boot_id g = boot \<and> (lg_state g = Maintenance \<or> lg_state g = FaultLatched) \<and> lg_permit g = None \<and>
         lg_motion_axes_mask g = 0 \<and> rx_current (rc_report r) \<and> domain_current (rc_report r) (do_quality (rc_domain r)) \<and>
         length (fv_outputs p) = length (rc_maps r) \<and> (\<forall>i<length (rc_maps r). output_safe (fv_pulse_mask p) i (fv_outputs p ! i)) \<and>
         (is_pulse e \<longrightarrow> rc_now_ns r < fv_deadline_ns p))"

section \<open>Preparation\<close>

lemma prepare_axes_Ok:
  "prepare_axes r pulse img axes = Inr outputs \<Longrightarrow>
     length outputs = length axes \<and> (\<forall>i<length axes. output_safe pulse (axes ! i) (outputs ! i))"
proof (induction axes arbitrary: img outputs)
  case (Cons axis axes)
  obtain img1 out where out: "prepare_axis r pulse img axis = Inr (img1, out)"
    using Cons.prems by (auto split: sum.splits)
  then obtain rest where rest: "prepare_axes r pulse img1 axes = Inr rest" "outputs = out # rest"
    using Cons.prems by (auto split: sum.splits)
  have "output_safe pulse axis out"
    using out by (auto simp: prepare_axis_def Let_def reset_output_def output_safe_def split: sum.splits prod.splits if_splits)
  then show ?case using Cons.IH [OF rest(1)] rest(2) by (auto simp: nth_Cons split: nat.split)
qed simp

lemma validate_guard_Ok:
  "validate_guard c g = Inr u \<longleftrightarrow> lg_boot_id g = fr_boot_id c \<and> (lg_state g = Maintenance \<or> lg_state g = FaultLatched) \<and>
     lg_permit g = None \<and> lg_motion_axes_mask g = 0 \<and> \<not> lg_maintenance_stop_pending g"
  by (auto simp: validate_guard_def)

lemma expire_pending_cases:
  "expire_pending c now = c \<or> fr_phase c = FrPending \<and> expire_pending c now = c\<lparr>fr_phase := FrFailed, fr_last_error := Some FrDeadline\<rparr>"
  by (simp add: expire_pending_def)

lemma expired_pending:
  "fr_phase (expire_pending c now) = FrPending \<Longrightarrow> fr_request (expire_pending c now) = Some q \<Longrightarrow> now < fq_deadline_ns q"
  by (auto simp: expire_pending_def not_le split: if_splits)

text \<open>\<open>prepare\<close> changes the controller only by expiring it.\<close>

lemma prepare_controller: "fst (fault_reset_prepare c g r) = expire_pending c (rc_now_ns r)"
proof -
  let ?c = "expire_pending c (rc_now_ns r)"
  have "\<not> (fr_phase ?c = FrPending \<and> fr_request ?c = Some q \<and> fq_deadline_ns q \<le> rc_now_ns r)" for q
    using expired_pending [of c "rc_now_ns r" q] by (auto simp: not_le)
  then show ?thesis
    unfolding fault_reset_prepare_def Let_def
    by (cases "fr_phase ?c"; cases "fr_request ?c") (auto split: sum.split option.split)
qed

lemma prepare_Ok:
  assumes "fault_reset_prepare c g r = (c1, Inr p)"
  shows "\<exists>q. fr_request c1 = Some q \<and> fv_sequence p = fq_sequence q \<and> fv_cycle p = cy_cycle (rc_report r) \<and>
    (fr_phase c1 = FrPending \<and> fv_pulse_mask p = fq_axis_mask q \<and> fr_attempts c1 < fr_max_pulse_attempts c1 \<and>
       (fv_pulse_mask p \<noteq> 0 \<longrightarrow> rc_now_ns r < fv_deadline_ns p) \<or>
     fr_phase c1 = FrZeroRequired \<and> fv_pulse_mask p = 0)"
    "event_safe (fr_boot_id c1) \<lparr>re_guard = g, re_cycle = r, re_preview = p, re_accepted = accepted\<rparr>"
proof -
  let ?c = "expire_pending c (rc_now_ns r)"
  have c1: "c1 = ?c" using prepare_controller [of c g r] assms by simp
  have g: "validate_guard ?c g = Inr ()"
    using assms by (auto simp: fault_reset_prepare_def Let_def split: sum.splits)
  obtain q where q: "fr_request ?c = Some q"
    using assms g by (auto simp: fault_reset_prepare_def Let_def split: option.splits)
  have ph: "fr_phase ?c = FrPending \<and> fr_attempts ?c < fr_max_pulse_attempts ?c \<or> fr_phase ?c = FrZeroRequired"
    using assms g q by (cases "fr_phase ?c") (auto simp: fault_reset_prepare_def Let_def split: if_splits)
  define pulse where "pulse = (if fr_phase ?c = FrPending then fq_axis_mask q else 0)"
  have sel: "(case fr_phase ?c of
                   FrPending \<Rightarrow>
                     if fq_transition_sequence q \<noteq> lg_transition_sequence g then (?c, Err FrTransitionMismatch)
                     else if fq_deadline_ns q \<le> rc_now_ns r
                       then (?c\<lparr>fr_phase := FrFailed, fr_last_error := Some FrDeadline\<rparr>, Err FrDeadline)
                     else if fr_max_pulse_attempts ?c \<le> fr_attempts ?c then (?c, Err FrAttemptsExhausted)
                     else (?c, Ok (fq_axis_mask q))
                 | FrZeroRequired \<Rightarrow> (?c, Ok 0)
                 | FrFailed \<Rightarrow> (?c, Err (case fr_last_error ?c of None \<Rightarrow> FrNoRequest | Some e \<Rightarrow> e))
                 | _ \<Rightarrow> (?c, Err FrNoRequest)) = (?c, Ok pulse)"
    using assms g q ph by (auto simp: fault_reset_prepare_def Let_def pulse_def split: if_splits)
  obtain outputs where outputs: "prepare_axes r pulse (rc_safe r) [0..<length (rc_maps r)] = Inr outputs"
      and p: "p = \<lparr>fv_outputs = outputs, fv_pulse_mask = pulse, fv_cycle = cy_cycle (rc_report r),
                       fv_sequence = fq_sequence q, fv_deadline_ns = (if pulse \<noteq> 0 then fq_deadline_ns q else - 1)\<rparr>"
      and cur: "rx_current (rc_report r)" "domain_current (rc_report r) (do_quality (rc_domain r))"
    using assms unfolding fault_reset_prepare_def Let_def g q sum.case option.case sel prod.case
    by (auto split: if_splits sum.splits)
  have deadline: "rc_now_ns r < fq_deadline_ns q" if "fr_phase ?c = FrPending" using expired_pending [OF that q] .
  show "\<exists>q. fr_request c1 = Some q \<and> fv_sequence p = fq_sequence q \<and> fv_cycle p = cy_cycle (rc_report r) \<and>
    (fr_phase c1 = FrPending \<and> fv_pulse_mask p = fq_axis_mask q \<and> fr_attempts c1 < fr_max_pulse_attempts c1 \<and>
       (fv_pulse_mask p \<noteq> 0 \<longrightarrow> rc_now_ns r < fv_deadline_ns p) \<or>
     fr_phase c1 = FrZeroRequired \<and> fv_pulse_mask p = 0)"
    using ph q p deadline by (auto simp: c1 pulse_def)
  have "rc_now_ns r < fv_deadline_ns p" if "pulse \<noteq> 0"
    using that p deadline by (simp add: pulse_def split: if_splits)
  then show "event_safe (fr_boot_id c1) \<lparr>re_guard = g, re_cycle = r, re_preview = p, re_accepted = accepted\<rparr>"
    using g cur prepare_axes_Ok [OF outputs] p by (auto simp: event_safe_def Let_def validate_guard_Ok c1 is_pulse_def)
qed

section \<open>The invariant\<close>

lemma pulse_then_zero_pulse:
  "\<lbrakk>pulse_then_zero es; even (length es); is_pulse p; \<forall>e\<in>set es. event_sequence e < event_sequence p\<rbrakk> \<Longrightarrow> pulse_then_zero (es @ [p])"
  by (induction es rule: pulse_then_zero.induct) auto

lemma pulse_then_zero_zero:
  "\<lbrakk>pulse_then_zero (es @ [p]); even (length es); \<not> is_pulse z; event_sequence z = event_sequence p\<rbrakk> \<Longrightarrow> pulse_then_zero (es @ [p, z])"
  by (induction es rule: pulse_then_zero.induct) auto

lemma trace_snoc [simp]:
  "accepted_events (es @ [e]) = accepted_events es @ (if re_accepted e then [e] else [])"
  "pulse_attempts (es @ [e]) s = pulse_attempts es s + (if is_pulse e \<and> event_sequence e = s then 1 else 0)"
  by (simp_all add: accepted_events_def pulse_attempts_def)

definition phase_inv :: "fault_reset_controller \<Rightarrow> reset_event list \<Rightarrow> bool" where
  "phase_inv c acc \<longleftrightarrow> pulse_then_zero acc \<and>
     (case fr_phase c of
        FrPending \<Rightarrow> fr_attempts c < fr_max_pulse_attempts c \<and> even (length acc) \<and> (\<forall>e\<in>set acc. event_sequence e < fr_last_sequence c)
      | FrZeroRequired \<Rightarrow> (\<exists>closed p. acc = closed @ [p] \<and> even (length closed) \<and> event_sequence p = fr_last_sequence c)
      | _ \<Rightarrow> even (length acc))"

definition reset_inv :: "u64 \<Rightarrow> u8 \<Rightarrow> reset_history \<Rightarrow> bool" where
  "reset_inv boot limit h \<longleftrightarrow>
     (let c = rh_controller h; es = rh_trace h
      in fr_boot_id c = boot \<and> fr_max_pulse_attempts c = limit \<and> 0 < limit \<and> limit \<le> 8 \<and>
         (\<forall>e\<in>set es. event_safe boot e \<and> event_sequence e \<le> fr_last_sequence c) \<and>
         (case fr_request c of
            None \<Rightarrow> fr_phase c = FrIdle
          | Some q \<Rightarrow> fq_sequence q = fr_last_sequence c \<and> fq_axis_mask q \<noteq> 0) \<and>
         (fr_phase c \<noteq> FrIdle \<longrightarrow> fr_request c \<noteq> None \<and> pulse_attempts es (fr_last_sequence c) = unat (fr_attempts c)) \<and>
         (\<forall>s. pulse_attempts es s \<le> unat limit) \<and> phase_inv c (accepted_events es))"

lemma expire_inv:
  assumes "reset_inv boot limit h"
  shows "reset_inv boot limit (h\<lparr>rh_controller := expire_pending (rh_controller h) now\<rparr>)"
  using expire_pending_cases [of "rh_controller h" now]
proof
  assume "fr_phase (rh_controller h) = FrPending \<and>
    expire_pending (rh_controller h) now = (rh_controller h)\<lparr>fr_phase := FrFailed, fr_last_error := Some FrDeadline\<rparr>"
  then show ?thesis using assms by (auto simp: reset_inv_def Let_def phase_inv_def split: option.splits)
qed (use assms in simp)

lemma phase_inv_closed:
  "phase_inv c acc \<Longrightarrow> fr_phase c \<noteq> FrZeroRequired \<Longrightarrow> even (length acc) \<and> pulse_then_zero acc"
  by (cases "fr_phase c") (auto simp: phase_inv_def)

lemma no_attempts: "\<forall>e\<in>set es. event_sequence e < s \<Longrightarrow> pulse_attempts es s = 0"
  by (auto simp: pulse_attempts_def filter_empty_conv)

lemma submit_refused: "snd (fault_reset_submit c g q now) = Inl e \<Longrightarrow> fst (fault_reset_submit c g q now) = expire_pending c now"
  unfolding fault_reset_submit_def Let_def by (cases "validate_guard (expire_pending c now) g") (auto split: if_split_asm)

lemma submit_accepted:
  assumes "snd (fault_reset_submit c0 g q now) = Inr u"
  defines "c \<equiv> expire_pending c0 now"
  shows "fst (fault_reset_submit c0 g q now) = c\<lparr>fr_last_sequence := fq_sequence q, fr_request := Some q,
      fr_phase := FrPending, fr_attempts := 0, fr_last_attempt_cycle := None, fr_pulse_accepted_cycle := None,
      fr_zero_accepted_cycle := None, fr_last_error := None\<rparr> \<and>
    fr_last_sequence c < fq_sequence q \<and> fr_phase c \<noteq> FrZeroRequired \<and> fr_phase c \<noteq> FrPending \<and> fq_axis_mask q \<noteq> 0"
  using assms(1) unfolding fault_reset_submit_def Let_def c_def [symmetric]
  by (cases "validate_guard c g") (simp_all add: not_le split: if_split_asm)

lemma submit_inv:
  assumes inv: "reset_inv boot limit h"
  shows "reset_inv boot limit (h\<lparr>rh_controller := fst (fault_reset_submit (rh_controller h) g q now)\<rparr>)"
proof (cases "snd (fault_reset_submit (rh_controller h) g q now)")
  case (Inl e)
  then show ?thesis using submit_refused expire_inv [OF inv] by metis
next
  case (Inr u)
  let ?c = "expire_pending (rh_controller h) now"
  have inv: "reset_inv boot limit (h\<lparr>rh_controller := ?c\<rparr>)" by (rule expire_inv [OF inv])
  note accepted = submit_accepted [OF Inr]
  then have c1: "fst (fault_reset_submit (rh_controller h) g q now) = ?c\<lparr>fr_last_sequence := fq_sequence q, fr_request := Some q,
      fr_phase := FrPending, fr_attempts := 0, fr_last_attempt_cycle := None, fr_pulse_accepted_cycle := None,
      fr_zero_accepted_cycle := None, fr_last_error := None\<rparr>"
    and new: "fr_last_sequence ?c < fq_sequence q" "fr_phase ?c \<noteq> FrZeroRequired" "fr_phase ?c \<noteq> FrPending" "fq_axis_mask q \<noteq> 0"
    by blast+
  have base: "fr_boot_id ?c = boot" "fr_max_pulse_attempts ?c = limit" "0 < limit" "limit \<le> 8"
      "\<forall>e\<in>set (rh_trace h). event_safe boot e \<and> event_sequence e \<le> fr_last_sequence ?c"
      "\<forall>s. pulse_attempts (rh_trace h) s \<le> unat limit" "phase_inv ?c (accepted_events (rh_trace h))"
    using inv by (simp_all add: reset_inv_def Let_def)
  have below: "\<forall>e\<in>set (rh_trace h). event_sequence e < fq_sequence q"
    using base(5) le_less_trans [OF _ new(1)] by blast
  then have "\<forall>e\<in>set (accepted_events (rh_trace h)). event_sequence e < fq_sequence q" by (simp add: accepted_events_def)
  moreover note phase_inv_closed [OF base(7) new(2)]
  ultimately show ?thesis
    using base(1-6) new(4) no_attempts [OF below] below
    unfolding c1 reset_inv_def Let_def phase_inv_def by (simp add: order.strict_implies_order)
qed

lemma attempted_inv:
  assumes inv: "reset_inv boot limit h" and prep: "fault_reset_prepare c0 g r = (rh_controller h, Inr p)"
  shows "reset_inv boot limit (h\<lparr>rh_controller := fault_reset_attempted (rh_controller h) p accepted,
    rh_trace := rh_trace h @ [\<lparr>re_guard = g, re_cycle = r, re_preview = p, re_accepted = accepted\<rparr>]\<rparr>)"
proof -
  let ?c = "rh_controller h" and ?e = "\<lparr>re_guard = g, re_cycle = r, re_preview = p, re_accepted = accepted\<rparr>"
  let ?es = "rh_trace h"
  obtain q where q: "fr_request ?c = Some q" "fv_sequence p = fq_sequence q"
      "fr_phase ?c = FrPending \<and> fv_pulse_mask p = fq_axis_mask q \<and> fr_attempts ?c < fr_max_pulse_attempts ?c \<or>
       fr_phase ?c = FrZeroRequired \<and> fv_pulse_mask p = 0"
    using prepare_Ok(1) [OF prep] by blast
  have safe: "event_safe boot ?e" using prepare_Ok(2) [OF prep] inv by (simp add: reset_inv_def Let_def)
  have seq: "event_sequence ?e = fr_last_sequence ?c" "fq_sequence q = fr_last_sequence ?c" "fq_axis_mask q \<noteq> 0"
    using inv q(1,2) by (simp_all add: reset_inv_def Let_def event_sequence_def)
  have base: "fr_boot_id ?c = boot" "fr_max_pulse_attempts ?c = limit" "0 < limit" "limit \<le> 8"
      "\<forall>e\<in>set ?es. event_safe boot e \<and> event_sequence e \<le> fr_last_sequence ?c" "\<forall>s. pulse_attempts ?es s \<le> unat limit"
      "phase_inv ?c (accepted_events ?es)"
    using inv by (simp_all add: reset_inv_def Let_def)
  have cnt: "pulse_attempts ?es (fr_last_sequence ?c) = unat (fr_attempts ?c)"
    using inv q(3) by (auto simp: reset_inv_def Let_def)
  from q(3) show ?thesis
  proof
    assume ph: "fr_phase ?c = FrPending \<and> fv_pulse_mask p = fq_axis_mask q \<and> fr_attempts ?c < fr_max_pulse_attempts ?c"
    then have pulse: "is_pulse ?e" "fv_pulse_mask p \<noteq> 0" using seq(3) by (simp_all add: is_pulse_def)
    have lim: "unat (fr_attempts ?c) < unat limit" "unat limit \<le> 8"
      using ph base(2,4) by (simp_all add: word_less_nat_alt word_le_nat_alt)
    then have att: "unat (sat_add (fr_attempts ?c) 1) = Suc (unat (fr_attempts ?c))"
      by (simp add: sat_add_def unat_word_ariths)
    have acc: "pulse_then_zero (accepted_events ?es)" "even (length (accepted_events ?es))"
        "\<forall>x\<in>set (accepted_events ?es). event_sequence x < event_sequence ?e"
      using base(7) ph seq(1) by (simp_all add: phase_inv_def)
    note snoc = pulse_then_zero_pulse [OF acc(1,2) pulse(1) acc(3)]
    have bound: "pulse_attempts (?es @ [?e]) s \<le> unat limit" for s
      using base(6) cnt lim(1) seq(1) by (cases "s = fr_last_sequence ?c") (auto simp: Suc_le_eq)
    show ?thesis
    proof (cases accepted)
      case True
      then show ?thesis
        using base seq safe bound cnt att snoc acc(2) pulse q
        by (simp add: reset_inv_def Let_def phase_inv_def fault_reset_attempted_def)
    next
      case False
      show ?thesis
      proof (cases "limit \<le> sat_add (fr_attempts ?c) 1")
        case True
        with False show ?thesis
          using base seq safe bound cnt att acc pulse q
          by (simp add: reset_inv_def Let_def phase_inv_def fault_reset_attempted_def)
      next
        case more: False
        with False show ?thesis
          using base seq safe bound cnt att acc pulse q ph
          by (simp add: reset_inv_def Let_def phase_inv_def fault_reset_attempted_def)
      qed
    qed
  next
    assume ph: "fr_phase ?c = FrZeroRequired \<and> fv_pulse_mask p = 0"
    then have zero: "\<not> is_pulse ?e" by (simp add: is_pulse_def)
    obtain closed pl where acc: "accepted_events ?es = closed @ [pl]" "even (length closed)" "event_sequence pl = fr_last_sequence ?c"
        "pulse_then_zero (closed @ [pl])"
      using base(7) ph by (auto simp: phase_inv_def)
    have "pulse_then_zero (closed @ [pl, ?e])"
      by (rule pulse_then_zero_zero [OF acc(4,2) zero]) (simp add: seq(1) acc(3))
    with acc base seq safe cnt zero q ph show ?thesis
      by (cases accepted) (auto simp: reset_inv_def Let_def phase_inv_def fault_reset_attempted_def)
  qed
qed

lemma reset_exec_inv:
  assumes inv: "reset_inv boot limit h"
  shows "reset_inv boot limit (reset_exec h op)"
proof (cases op)
  case (RoSubmit g q now)
  then show ?thesis using submit_inv [OF inv] by (simp add: reset_exec_def)
next
  case (RoCycle g r outcome)
  obtain c res where prep: "fault_reset_prepare (rh_controller h) g r = (c, res)" by fastforce
  then have c: "c = expire_pending (rh_controller h) (rc_now_ns r)" using prepare_controller [of "rh_controller h" g r] by simp
  then have inv1: "reset_inv boot limit (h\<lparr>rh_controller := c\<rparr>)" using expire_inv [OF inv] by simp
  show ?thesis
  proof (cases res)
    case (Inl e)
    then show ?thesis using inv1 RoCycle prep by (simp add: reset_exec_def)
  next
    case (Inr p)
    show ?thesis
    proof (cases outcome)
      case None
      then show ?thesis using Inr inv1 RoCycle prep by (simp add: reset_exec_def)
    next
      case (Some accepted)
      then show ?thesis
        using attempted_inv [OF inv1, of "rh_controller h" g r p accepted] Inr RoCycle prep by (simp add: reset_exec_def)
    qed
  qed
qed

interpretation fault_reset: step_system reset_exec "reset_inv boot limit"
  for boot limit
  by unfold_locales (rule reset_exec_inv)

lemma fault_reset_new_inv:
  "fault_reset_new boot limit = Ok c \<Longrightarrow> reset_inv boot limit \<lparr>rh_controller = c, rh_trace = []\<rparr>"
  by (auto simp: fault_reset_new_def reset_inv_def phase_inv_def accepted_events_def pulse_attempts_def word_gt_0 not_less split: if_splits)

text \<open>
  C21: In every history of requests and cycles the maintenance authority sends a reset pulse only to drives
  that show a fault in the current, complete input of the cycle, while the guard is in maintenance or fault latched,
  holds no permit and has stopped every axis, and before the deadline of the request; every other axis is commanded
  to disable voltage and motion is never allowed. Of the frames accepted for transmission each pulse is followed by a
  zero frame of the same request before any other pulse, with increasing request numbers; and no request attempts
  more pulses than the policy allows, at most eight.
\<close>

theorem fault_reset_pulses:
  assumes "fault_reset_new boot limit = Ok c" "es = rh_trace (foldl reset_exec \<lparr>rh_controller = c, rh_trace = []\<rparr> ops)"
  shows "(\<forall>e\<in>set es. event_safe boot e) \<and> pulse_then_zero (accepted_events es) \<and>
    (\<forall>s. pulse_attempts es s \<le> unat limit) \<and> unat limit \<le> 8"
proof -
  have "reset_inv boot limit (foldl reset_exec \<lparr>rh_controller = c, rh_trace = []\<rparr> ops)"
    by (rule fault_reset.run_invar [OF fault_reset_new_inv [OF assms(1)]])
  then show ?thesis
    unfolding assms(2) by (auto simp: reset_inv_def Let_def phase_inv_def word_le_nat_alt)
qed

text \<open>A drive in fault that is reset by one pulse, and the zero frame after it.\<close>

definition faulted_guard :: lifecycle_guard where
  "faulted_guard = (guard_new 0 7 (guard_policy_conservative\<lparr>gp_allowed_axis_mask := 1\<rparr>))\<lparr>lg_state := FaultLatched\<rparr>"

definition sample_reset_cycle :: "u64 \<Rightarrow> reset_cycle" where
  "sample_reset_cycle cycle =
     \<lparr>rc_report = (cycle_report_new cycle)\<lparr>cy_received_frames := 1, cy_parsed_datagrams := 1\<rparr>,
      rc_domain = (domain_new 9 1 0x1000)
        \<lparr>do_segments := [\<lparr>dseg_datagram_index = 1, dseg_input_offset = 0, dseg_len = 9, dseg_expected_wkc = 1\<rparr>],
         do_segment_count := 1, do_committed := write_bits (replicate 9 0) 0 16 8,
         do_quality := \<lparr>dq_expected_wkc = 1, dq_actual_wkc = 1, dq_consecutive_wkc_mismatches = 0, dq_valid = True,
           dq_complete = True, dq_last_valid_cycle = cycle, dq_input_age_cycles = 0\<rparr>\<rparr>,
      rc_maps = [sample_map], rc_modes = [Csp], rc_safe = replicate 9 0,
      rc_plan = \<lparr>fp_datagrams = [\<lparr>dp_command = Lrw, dp_index = 1, dp_address = 0x1000, dp_payload_offset = 0,
        dp_payload_len = 9, dp_expected_wkc = 1\<rparr>], fp_count = 1, fp_payload_len = 9\<rparr>,
      rc_now_ns = 5\<rparr>"

lemma sample_validates: "length img = 9 \<Longrightarrow> map_entry sample_map f = Some e \<Longrightarrow> pdo_validate e (length img) = Inr ()"
  by (cases f) (auto simp: sample_map_entries pdo_validate_def usize_checked_add_def usize_max_def usize_sat_mul_def
      sample_field_def spec_of_def word_le_nat_alt)

lemma sample_common: "validate_common sample_map = Inr ()"
  using sample_map_valid by (auto simp: validate_for_def split: sum.splits)

lemma sample_signed: "map_entry sample_map f = Some e \<Longrightarrow> pe_signed e = es_signed (spec_of f)"
  by (cases f) (auto simp: sample_map_entries sample_field_def)

lemma sample_write_control:
  assumes "length img = 9"
  shows "\<exists>img1. write_control sample_map img Csp cw = (img1, Inr ())"
proof -
  have "pdo_failure (pdo_read_unsigned (sample_field FControlword 0) img) = None"
      "pdo_failure (pdo_read_unsigned (sample_field FModeOfOperation 16) img) = None"
    using sample_validates [OF assms, of FControlword] sample_validates [OF assms, of FModeOfOperation]
    by (simp_all add: pdo_failure_def pdo_read_unsigned_def sample_map_entries)
  then have pre: "preflight_output sample_map img [FControlword, FModeOfOperation] = Inr ()"
    by (simp add: preflight_output_def map_require_def ok_or_def sample_map_entries)
  obtain img1 where w1: "map_write_unsigned sample_map FControlword img (ucast cw) = (img1, Inr ())" "length img1 = length img"
    using write_field_ok [OF sample_common, of FControlword _ img "ucast cw"] sample_validates [OF assms, of FControlword]
      command_fits(1) [of cw] by (auto simp: write_field_def spec_simps sample_map_entries)
  obtain img2 where "map_write_signed sample_map FModeOfOperation img1 (scast (mode_raw Csp)) = (img2, Inr ())"
    using write_field_ok [OF sample_common, of FModeOfOperation _ img1 "scast (mode_raw Csp)"] assms w1(2)
      sample_validates [of img1 FModeOfOperation] command_fits(2) [of Csp] by (auto simp: write_field_def spec_simps sample_map_entries)
  then show ?thesis using pre sample_common w1 by (simp add: write_control_def write_mode_and_control_def)
qed

lemma sample_inputs:
  "\<exists>inputs. read_inputs_for sample_map (write_bits (replicate 9 0) 0 16 8) Csp = Inr inputs \<and> pi_statusword inputs = 8"
proof -
  let ?img = "write_bits (replicate 9 0) 0 16 8"
  have len: "length ?img = 9" by simp
  have ok: "pdo_validate e 9 = Inr ()" if "map_entry sample_map f = Some e" for e f
    using sample_validates [OF len that] by simp
  have pre: "preflight_input sample_map ?img = Inr ()"
    using ok by (auto simp: preflight_input_def for_fields_Ok pdo_failure_def pdo_read_unsigned_def split: option.splits)
  have unsigned: "\<exists>v. map_read_unsigned sample_map f ?img = Inr v" if "map_entry sample_map f = Some e" "\<not> es_signed (spec_of f)" for e f
    using that ok [OF that(1)] sample_signed [OF that(1)] by (auto simp: map_read_unsigned_def map_require_def ok_or_def pdo_read_unsigned_def)
  have signed: "\<exists>v. map_read_signed sample_map f ?img = Inr v" if "map_entry sample_map f = Some e" "es_signed (spec_of f)" for e f
    using that ok [OF that(1)] sample_signed [OF that(1)]
    by (auto simp: map_read_signed_def map_require_def ok_or_def pdo_read_signed_def pdo_read_unsigned_def)
  have "read_bits ?img 0 16 = take_bit 16 8" by (rule read_written_bits) simp_all
  then have status: "map_read_unsigned sample_map FStatusword ?img = Inr 8"
    using ok [of FStatusword] by (simp add: map_read_unsigned_def map_require_def ok_or_def pdo_read_unsigned_def sample_map_entries
        sample_field_def spec_of_def)
  obtain mode where "map_read_signed sample_map FModeDisplay ?img = Inr mode"
    using signed [of FModeDisplay] by (auto simp: sample_map_entries spec_of_def)
  moreover obtain code where "map_read_unsigned sample_map FErrorCode ?img = Inr code"
    using unsigned [of FErrorCode] by (auto simp: sample_map_entries spec_of_def)
  moreover obtain pos where "map_read_signed sample_map FActualPosition ?img = Inr pos"
    using signed [of FActualPosition] by (auto simp: sample_map_entries spec_of_def)
  ultimately show ?thesis
    using pre status sample_common sample_map_valid
    by (simp add: read_inputs_for_def read_inputs_def read_motion_inputs_def map_read_optional_def sample_map_entries)
qed

lemma sample_prepares:
  assumes "0 < cycle" "fr_request c = Some q" "fr_boot_id c = 7" "fq_axis_mask q = 1" "fq_transition_sequence q = 0" "fq_deadline_ns q = 100"
    "fr_phase c = FrPending \<and> fr_attempts c < fr_max_pulse_attempts c \<or> fr_phase c = FrZeroRequired"
    "fr_last_attempt_cycle c = None \<or> (\<exists>last. fr_last_attempt_cycle c = Some last \<and> last < cycle)"
  shows "\<exists>p. fault_reset_prepare c faulted_guard (sample_reset_cycle cycle) = (c, Inr p) \<and> fv_sequence p = fq_sequence q \<and>
    fv_cycle p = cycle \<and> fv_pulse_mask p = (if fr_phase c = FrPending then 1 else 0)"
proof -
  let ?r = "sample_reset_cycle cycle"
  have expire: "expire_pending c 5 = c" using assms(2,6) by (simp add: expire_pending_def)
  have g: "validate_guard c faulted_guard = Inr ()"
    using assms(3) by (simp add: validate_guard_Ok faulted_guard_def guard_new_def guard_new_with_axis_stop_policy_def)
  have writable: "writable_domain_field 9 sample_map f (rc_domain ?r) (rc_plan ?r)" if "f = FControlword \<or> f = FModeOfOperation" for f
    using that by (auto simp: writable_domain_field_def sample_map_entries sample_field_def spec_of_def usize_checked_add_def usize_max_def
        logical_offset_def sample_reset_cycle_def domain_new_def checked_add_def frame_plan_datagrams_def rewrites_field_def writes_field_def
        writes_logical_def domain_segments_def Let_def)
  obtain inputs where inputs: "read_inputs_for sample_map (do_committed (rc_domain ?r)) Csp = Inr inputs" "pi_statusword inputs = 8"
    using sample_inputs by (auto simp: sample_reset_cycle_def)
  have axis: "\<exists>out img1. prepare_axis ?r pulse (replicate 9 0) 0 = Inr (img1, out)" for pulse
  proof -
    have "from_statusword 8 = DriveFault" by (simp add: from_statusword_def Let_def)
    moreover obtain img1 where "write_control sample_map (replicate 9 0) Csp
        (co_controlword (reset_output 8 (pulse AND push_bit 0 1 \<noteq> 0))) = (img1, Inr ())"
      using sample_write_control [of "replicate 9 0"] by fastforce
    moreover have "rc_maps ?r ! 0 = sample_map" "rc_modes ?r ! 0 = Csp" "length (rc_safe ?r) = 9" by (simp_all add: sample_reset_cycle_def)
    ultimately show ?thesis using inputs writable by (auto simp: prepare_axis_def Let_def)
  qed
  have overlap: "check_overlaps [sample_map] (controlled_fields (Suc 0)) = Inr ()"
    by (simp add: controlled_fields_def sample_map_entries overlaps_other_def OUTPUT_FIELDS_def bits_overlap_def sample_field_def
        spec_of_def usize_sat_add_def usize_max_def)
  have current: "rx_current (rc_report ?r)" "domain_current (rc_report ?r) (do_quality (rc_domain ?r))" "cy_cycle (rc_report ?r) = cycle"
      "\<not> cy_budget_exhausted (rc_report ?r)" "rc_maps ?r = [sample_map]" "rc_safe ?r = replicate 9 0" "rc_now_ns ?r = 5"
    by (simp_all add: sample_reset_cycle_def cycle_report_new_def rx_current_def domain_current_def)
  have seq: "lg_transition_sequence faulted_guard = 0"
    by (simp add: faulted_guard_def guard_new_def guard_new_with_axis_stop_policy_def)
  obtain out img1 where axes: "prepare_axis ?r (if fr_phase c = FrPending then 1 else 0) (replicate 9 0) 0 = Inr (img1, out)" using axis by blast
  have mask: "drop_bit (Suc 0) (1 :: u32) = 0" by (simp add: drop_bit_eq_div)
  show ?thesis
    using assms(7)
  proof
    assume ph: "fr_phase c = FrPending \<and> fr_attempts c < fr_max_pulse_attempts c"
    with axes assms show ?thesis
      unfolding fault_reset_prepare_def Let_def expire g current
      by (auto simp: MAX_MOTION_AXES_def mask seq current overlap not_le)
  next
    assume ph: "fr_phase c = FrZeroRequired"
    with axes assms show ?thesis
      unfolding fault_reset_prepare_def Let_def expire g current
      by (auto simp: MAX_MOTION_AXES_def mask seq current overlap not_le)
  qed
qed

definition sample_reset_request :: fault_reset_request where
  "sample_reset_request = \<lparr>fq_boot_id = 7, fq_sequence = 1, fq_transition_sequence = 0, fq_axis_mask = 1, fq_deadline_ns = 100\<rparr>"

definition sample_resets :: "reset_op list" where
  "sample_resets = [RoSubmit faulted_guard sample_reset_request 0, RoCycle faulted_guard (sample_reset_cycle 1) (Some True),
     RoCycle faulted_guard (sample_reset_cycle 2) (Some True)]"

lemma sample_reset_run:
  assumes "fault_reset_new 7 3 = Ok c"
  shows "\<exists>e1 e2. rh_trace (foldl reset_exec \<lparr>rh_controller = c, rh_trace = []\<rparr> sample_resets) = [e1, e2] \<and> is_pulse e1 \<and> \<not> is_pulse e2 \<and>
    re_accepted e1 \<and> re_accepted e2"
proof -
  let ?q = sample_reset_request
  have c: "c = \<lparr>fr_boot_id = 7, fr_max_pulse_attempts = 3, fr_last_sequence = 0, fr_request = None,
      fr_phase = FrIdle, fr_attempts = 0, fr_last_attempt_cycle = None, fr_pulse_accepted_cycle = None,
      fr_zero_accepted_cycle = None, fr_last_error = None\<rparr>"
    using assms by (simp add: fault_reset_new_def)
  define c1 where "c1 = c\<lparr>fr_last_sequence := 1, fr_request := Some ?q, fr_phase := FrPending\<rparr>"
  have "validate_guard c faulted_guard = Inr ()"
    by (simp add: validate_guard_Ok c faulted_guard_def guard_new_def guard_new_with_axis_stop_policy_def)
  moreover have "expire_pending c 0 = c" by (simp add: expire_pending_def c)
  moreover have "lg_transition_sequence faulted_guard = 0" "gp_allowed_axis_mask (lg_policy faulted_guard) = 1"
    by (simp_all add: faulted_guard_def guard_new_def guard_new_with_axis_stop_policy_def guard_policy_normalized_def)
  ultimately have submit: "fst (fault_reset_submit c faulted_guard ?q 0) = c1"
    by (simp add: fault_reset_submit_def sample_reset_request_def c1_def c)
  have phase1: "fr_phase c1 = FrPending" "fr_request c1 = Some ?q" "fr_attempts c1 = 0" "fr_max_pulse_attempts c1 = 3"
    by (simp_all add: c1_def c)
  obtain p1 where p1: "fault_reset_prepare c1 faulted_guard (sample_reset_cycle 1) = (c1, Inr p1)" "fv_sequence p1 = 1" "fv_pulse_mask p1 = 1"
      "fv_cycle p1 = 1"
    using sample_prepares [of 1 c1 ?q] by (auto simp: c1_def c sample_reset_request_def)
  define c2 where "c2 = fault_reset_attempted c1 p1 True"
  have c2: "fr_phase c2 = FrZeroRequired" "fr_request c2 = Some ?q" "fr_boot_id c2 = 7" "fr_last_attempt_cycle c2 = Some 1"
    using p1 by (simp_all add: c2_def fault_reset_attempted_def Let_def phase1 sample_reset_request_def c1_def c)
  obtain p2 where p2: "fault_reset_prepare c2 faulted_guard (sample_reset_cycle 2) = (c2, Inr p2)" "fv_pulse_mask p2 = 0"
    using sample_prepares [of 2 c2 ?q] c2 by (auto simp: sample_reset_request_def)
  have "rh_trace (foldl reset_exec \<lparr>rh_controller = c, rh_trace = []\<rparr> sample_resets) =
      [\<lparr>re_guard = faulted_guard, re_cycle = sample_reset_cycle 1, re_preview = p1, re_accepted = True\<rparr>,
       \<lparr>re_guard = faulted_guard, re_cycle = sample_reset_cycle 2, re_preview = p2, re_accepted = True\<rparr>]"
    using submit p1 p2 by (simp add: sample_resets_def reset_exec_def c2_def [symmetric])
  then show ?thesis using p1 p2 by (simp add: is_pulse_def)
qed

lemma fault_reset_pulses_witness:
  "\<exists>c es. fault_reset_new 7 3 = Ok c \<and> es = rh_trace (foldl reset_exec \<lparr>rh_controller = c, rh_trace = []\<rparr> sample_resets) \<and>
     map is_pulse es = [True, False] \<and> (\<forall>e\<in>set es. event_safe 7 e) \<and> pulse_then_zero (accepted_events es)"
proof -
  obtain c where c: "fault_reset_new 7 3 = Ok c" by (simp add: fault_reset_new_def)
  with fault_reset_pulses [OF c refl, of sample_resets] sample_reset_run [OF c] show ?thesis by fastforce
qed

end
