(* ===== verification/Spec2Isabelle.thy ===== *)
theory Spec2Isabelle
  imports Spsc_Concurrent Guard_Stop Guard_Permit Guard_Log Guard_Gates
    Frame_Plan Diagnostics Schedule_Table Frame_Pool Config_Arena
    Pdo_Layout Domain_Image Control_Leases Al_Controller Guard_Drives Controlled_Stop Dma_Ring
    Sdo_Roundtrip Mailbox_Recovery Command_Channel Process_Layout Ipc_Frame
    Watchdog Fault_Reset
begin

text \<open>
  A verification development for ESOP, an EtherCAT master in Rust with a motion lifecycle guard.

  \<^bold>\<open>The program.\<close> A cyclic master sends Ethernet frames with EtherCAT datagrams through all slaves of
  a segment and reads the same frames back. Its realtime core (\<open>crates/esop-ethercat-core\<close>) does
  not allocate: frames are built from fixed plans into pooled buffers, every expected answer is
  armed in a receive index before the frame is sent, matched answers are staged into domains of
  process data or complete acyclic register requests, and what goes wrong is recorded in
  diagnostic queues. The lifecycle guard (\<open>crates/esop-lifecycle-guard\<close>) decides in every cycle
  whether the axes may be enabled: it qualifies gates over time, admits motion permits, and owns
  the sequence of stopping, fault latching and recovery.

  \<^bold>\<open>Shared layers.\<close> \<open>Esop_Prelude\<close>: integer types, checked and saturating arithmetic, byte
  conversions, slices, results. \<open>Bit_Scan\<close>: \<open>trailing_zeros\<close>, \<open>count_ones\<close> and bitmaps.
  \<open>System_Interfaces\<close>, \<open>Fifo_Interface\<close>, \<open>Codec_Interface\<close>, \<open>Pool_Interface\<close>: the contracts, as
  locales. \<open>step_system\<close> (operations keep an invariant) is interpreted by the guard, the domain,
  the request pool, the AL controller, the mode supervisor, the two-page
  channel, the watchdog configuration and the fault reset; \<open>ranked_system\<close> (what is once reached stays) by the
  guard's permit order and stop clock, the request pool's namespace and its settled requests;
  \<open>traced_refinement\<close> (the same events as a simpler machine) by the receive index, the
  event ring, the frame pool and every provider of the queue contract; \<open>audit_ring\<close> by
  both audit rings of the guard and the lifecycle history; the queue contract by the ring; the codec contract by the
  datagram header and the mailbox header; the slot pool contract by the frame pool.

  \<^bold>\<open>Components, theories and sources\<close> (below \<open>src/crates\<close>).
  \<^item> \<open>Spsc_Ring\<close>, \<open>Spsc_Concurrent\<close>: \<open>esop-ethercat-core/src/ring.rs\<close>. The cursors are 64 bit words
    with their wrap-around; slots are options, \<open>None\<close> being uninitialised memory. Sequentially it
    is a list of at most \<open>N\<close> elements that delivers exactly once, and delivery is the same under every interleaving of the atomic steps of \<open>push\<close> and
    \<open>pop\<close> (sequentially consistent), with no slot accessed by both sides.
  \<^item> \<open>Guard_Types\<close>, \<open>Guard_Model\<close>, \<open>Guard_Invariant\<close>, \<open>Guard_Safety\<close>, \<open>Guard_Stop\<close>, \<open>Guard_Permit\<close>,
    \<open>Guard_Log\<close>, \<open>Guard_Gates\<close>: \<open>esop-lifecycle-guard/src/lib.rs\<close>, every operation that changes the
    guard. When axes are enabled, how the active state is entered and the fault latch left, that
    stops end verified or latch a timeout, that permits are not replayed, that the audit rings
    show the recent history, and how gates qualify and stay bad.
  \<^item> \<open>Wire\<close>, \<open>Wire_Roundtrip\<close>: \<open>wire.rs\<close>, byte for byte. Built frames parse back; whatever parses
    can be iterated.
  \<^item> \<open>Frame_Plan\<close>: \<open>plan.rs\<close>. Plans admit exactly what fits and build the frame they describe; packing is atomic.
  \<^item> \<open>Frame_Pool\<close>: \<open>frame_pool.rs\<close>, a map from held handles to frames: no double allocation, nothing left over from
    an earlier holder. \<open>Config_Arena\<close>: \<open>arena.rs\<close>, disjoint aligned
    blocks. \<open>Schedule_Table\<close>: \<open>schedule.rs\<close>, the table agrees with the congruence of each domain at
    every tick. \<open>Diagnostics\<close>: \<open>diag.rs\<close>, every event is delivered, pending or counted as lost.
  \<^item> \<open>Rx_Index\<close>: \<open>rx_index.rs\<close>. The table refines a map of pending expectations; the expiry
    bitmap yields exactly the late indices.
  \<^item> \<open>Pdo_Layout\<close>: \<open>pdo.rs\<close>. Bit-level round trips, signed and unsigned, and isolation of entries.
  \<^item> \<open>Domain_Image\<close>: \<open>domain.rs\<close>. The committed input image is replaced only by complete receptions.
  \<^item> \<open>Slave_States\<close>: \<open>slave.rs\<close> and the address packing of \<open>registers.rs\<close>. Requested states are
    reached step by step.
  \<^item> \<open>Control_Pool\<close>, \<open>Control_Leases\<close>: \<open>control.rs\<close>. Wire indices are leased exclusively and do not
    leak; the pool completes exactly what the receive index matches.
  \<^item> \<open>Al_Controller\<close>: \<open>al.rs\<close>. A state is reported only when confirmed, a transition always ends, and
    never well once the slave has shown an error.
  \<^item> \<open>Dma_Ring\<close>: \<open>dma.rs\<close>. Handles of any age refine descriptors of their own.
  \<^item> \<open>Cia402_Profile\<close>, \<open>Cia402_Pdo\<close>: \<open>esop-profile-cia402/src\<close>, the drive state machine, the mode
    supervisor, the axis bank and the process data of a drive. A mode is confirmed exactly; commands
    are written completely or not at all.
  \<^item> \<open>Guard_Cia402\<close>, \<open>Guard_Drives\<close>, \<open>Controlled_Stop\<close>: \<open>esop-lifecycle-guard/src/cia402.rs\<close> and its
    composition with the guard and the axis bank. No drive is enabled without the guard; the commands of a
    controlled stop are bounded by the feedback, and a ramp ends with the drive disabled. A hold that begins on a drive
    that is not yet enabled holds position 0 (\<open>unverified_hold\<close>).
  \<^item> \<open>Mailbox_Wire\<close>, \<open>Mailbox_Controller\<close>: \<open>mailbox.rs\<close>, every operation. \<open>Sdo_Transfer\<close>: \<open>coe.rs\<close>.
    \<open>Sim_Esc\<close>: the mailbox, the dictionary and the SDO server of the simulated slave,
    \<open>esop-ethercat-sim/src/esc.rs\<close>. \<open>Sdo_Exchange\<close>, \<open>Sdo_Roundtrip\<close>: the transfer against the slave,
    downloads arrive exactly and are read back. \<open>Mailbox_Recovery\<close>: the controller against the
    slave over a link that loses frames. The acknowledgement of the request's own write must not be lost:
    the controller would send the request again, and this slave does not discard a repeated counter.
  \<^item> \<open>Double_Page\<close>, \<open>Double_Page_Concurrent\<close>, \<open>Process_Buffer\<close>, \<open>Command_Channel\<close>, \<open>Process_Layout\<close>:
    \<open>esop-procbuf/src/lib.rs\<close>, the shared memory between the realtime loop and its clients. The two-page
    channel as one cell, and in its atomic steps: snapshots are never torn, but an accepted publication can be lost
    and neighbours exchanged; the admission of commands keeps their order nevertheless. The event ring is a bounded
    queue. The layout computed at run time is that of the compiled structs. \<open>f64\<close> values are their bits.
  \<^item> \<open>Ipc_Frame\<close>: \<open>esop-ipc/src/frame.rs\<close>. The decoder accepts exactly the encodings, and the checksum
    detects every change within four consecutive payload bytes.
  \<^item> \<open>Watchdog\<close>: \<open>watchdog.rs\<close>. Completion means that every configured register was written and read back
    exactly in answers that count as acknowledgements, whatever responses were offered; slaves that obey are programmed.
  \<^item> \<open>Fault_Reset\<close>: \<open>esop-lifecycle-guard/src/maintenance.rs\<close> with the checks of received cycles and writable
    fields of \<open>ethercat.rs\<close>. Reset pulses go to drives in verified fault only, one at a time and bounded in number.

  \<^bold>\<open>How code becomes definitions.\<close> Structs are records, enums datatypes, \<open>Result\<close> a sum; a method
  returns its new state on error paths too. Const generics are arguments. Loops are structural
  recursions over lists, or functions with a termination measure (the iterators over datagrams
  and bitmaps, the gcd of the schedule, the drop of the ring, the expiry sweep of the requests);
  no definition of code uses fuel; \<open>sdo_session\<close>, a driver of the transfer, takes the number of exchanges
  allowed, and one more than the data has bytes is proved to be enough. \<open>usize\<close> is a natural number with its bound written where the source
  checks it. Definitions named \<open>sample_*\<close>, and those next to a witness, are concrete inputs of the witnesses, which show for each
  theorem with hypotheses that these can hold.

  \<^bold>\<open>Not modelled.\<close> The memory orderings of the ring and the two-page channel weaker than sequential consistency; process data
  mapping, slave monitoring, discovery and startup, SDO information, distributed clocks
  and the cyclic engine that composes the components; the guard's adapters other than the
  ones for drives and fault resets; the floating-point setpoint guard of the drive profile and its projection of discovered
  mappings; of the simulator everything but the mailbox of its slave; configuration tools,
  gateways and eBPF agents, which are I/O around third-party libraries. Plain accessors are record
  selectors.
\<close>

end
